(* ===== verification/JsBase.thy ===== *)
theory JsBase
  imports Complex_Main
begin

text \<open>
  The prelude of the development: JavaScript strings, thrown errors as values, and the generic
  lemmas on lists, options and error results that the components share.

  A JavaScript string is a list of UTF-16 code units, each an \<open>int\<close>, as \<open>charCodeAt\<close>
  reads it; \<open>J ''abc''\<close> is the string literal \<open>abc\<close>. Code units outside ASCII are
  written as numbers. An operation of the source that can throw returns
  \<open>js_error + 'a\<close>, with \<open>Inl\<close> for the exception.
\<close>

named_theorems js_eval "definitions unfolded to evaluate the model on closed inputs"
named_theorems js_split "case splits on the results of the model"

section \<open>Strings and errors\<close>

type_synonym jsstr = "int list"

definition J :: "string \<Rightarrow> jsstr" where
  "J s = map of_char s"

lemma J_Nil [simp]: "J [] = []"
  by (simp add: J_def)

lemma J_Cons [simp]: "J (c # s) = of_char c # J s"
  by (simp add: J_def)

lemma J_append: "J (s @ t) = J s @ J t"
  by (simp add: J_def)

datatype js_error = SyntaxError | TypeError | RangeError

type_synonym 'a js = "js_error + 'a"

declare sum.splits [js_split] option.splits [js_split] prod.splits [js_split]
  list.splits [js_split] if_splits [js_split]

text \<open>Sequencing of two computations that may throw.\<close>

definition js_bind :: "'a js \<Rightarrow> ('a \<Rightarrow> 'b js) \<Rightarrow> 'b js" where
  "js_bind m f = (case m of Inl e \<Rightarrow> Inl e | Inr a \<Rightarrow> f a)"

lemma js_bind_Inr [simp]: "js_bind (Inr a) f = f a"
  by (simp add: js_bind_def)

lemma js_bind_Inl [simp]: "js_bind (Inl e) f = Inl e"
  by (simp add: js_bind_def)

lemma js_bind_eq_Inr: "js_bind m f = Inr b \<longleftrightarrow> (\<exists>a. m = Inr a \<and> f a = Inr b)"
  by (simp add: js_bind_def split: sum.splits)

lemma js_bind_eq_Inl:
  "js_bind m f = Inl e \<longleftrightarrow> m = Inl e \<or> (\<exists>a. m = Inr a \<and> f a = Inl e)"
  by (auto simp: js_bind_def split: sum.splits)

text \<open>A loop that collects results, stops at the first \<open>null\<close> and lets exceptions through.\<close>

fun collect :: "('a \<Rightarrow> 'b option js) \<Rightarrow> 'a list \<Rightarrow> 'b list option js" where
  "collect f [] = Inr (Some [])"
| "collect f (x # xs) =
     js_bind (f x) (\<lambda>r. case r of
        None \<Rightarrow> Inr None
      | Some y \<Rightarrow> js_bind (collect f xs) (\<lambda>rs. Inr (map_option ((#) y) rs)))"

lemma collect_map_Some:
  "(\<And>x. x \<in> set xs \<Longrightarrow> f (g x) = Inr (Some (h x))) \<Longrightarrow>
    collect f (map g xs) = Inr (Some (map h xs))"
  by (induction xs) auto

lemma collect_length:
  "collect f xs = Inr (Some ys) \<Longrightarrow> length ys = length xs"
  by (induction xs arbitrary: ys) (auto simp: js_bind_eq_Inr split: option.splits)

lemma collect_None_at:
  "(\<And>x. x \<in> set xs \<Longrightarrow> \<exists>y. f x = Inr (Some y)) \<Longrightarrow> f x = Inr None \<Longrightarrow>
    collect f (xs @ x # ys) = Inr None"
proof (induction xs)
  case Nil
  then show ?case by simp
next
  case (Cons a xs)
  from Cons.prems(1) obtain y where "f a = Inr (Some y)" by fastforce
  with Cons show ?case by simp
qed

section \<open>Lists\<close>

text \<open>\<open>Array.from(new Set(xs))\<close>: duplicates go, the first occurrence keeps its place.\<close>

fun uniq :: "'a list \<Rightarrow> 'a list" where
  "uniq [] = []"
| "uniq (x # xs) = x # removeAll x (uniq xs)"

lemma set_uniq [simp]: "set (uniq xs) = set xs"
  by (induction xs) auto

lemma distinct_uniq [simp]: "distinct (uniq xs)"
  by (induction xs) (auto simp: distinct_removeAll)

lemma uniq_distinct: "distinct xs \<Longrightarrow> uniq xs = xs"
  by (induction xs) (auto simp: removeAll_id)

lemma uniq_idem [simp]: "uniq (uniq xs) = uniq xs"
  by (simp add: uniq_distinct)

lemma filter_neq_removeAll: "filter P (removeAll x xs) = removeAll x (filter P xs)"
  by (induction xs) auto

lemma filter_uniq: "filter P (uniq xs) = uniq (filter P xs)"
  by (induction xs) (auto simp: filter_neq_removeAll removeAll_id)

text \<open>\<open>.filter(Boolean)\<close> on strings drops the empty ones.\<close>

definition nonempty :: "'a list list \<Rightarrow> 'a list list" where
  "nonempty xs = filter (\<lambda>x. x \<noteq> []) xs"

lemma nonempty_simps [simp]:
  "nonempty [] = []"
  "nonempty (x # xs) = (if x = [] then nonempty xs else x # nonempty xs)"
  by (simp_all add: nonempty_def)

lemma set_nonempty [simp]: "set (nonempty xs) = {x \<in> set xs. x \<noteq> []}"
  by (simp add: nonempty_def)

lemma nonempty_id: "[] \<notin> set xs \<Longrightarrow> nonempty xs = xs"
  by (induction xs) auto

lemma nonempty_idem [simp]: "nonempty (nonempty xs) = nonempty xs"
  by (simp add: nonempty_def)

lemma concat_eq_Nil: "(\<And>x. x \<in> set xs \<Longrightarrow> f x = []) \<Longrightarrow> concat (map f xs) = []"
  by (induction xs) auto

end
