(* ===== verification/JsString.thy ===== *)
theory JsString
  imports JsBase
begin

text \<open>
  The operations of \<open>String.prototype\<close> that the program uses, on lists of code units:
  \<open>trim\<close>, \<open>slice\<close>, \<open>indexOf\<close>, \<open>includes\<close>, \<open>startsWith\<close>, \<open>endsWith\<close>,
  \<open>split\<close> and \<open>join\<close>, with the lemmas that relate them.
\<close>

section \<open>White space\<close>

text \<open>ECMAScript \<open>WhiteSpace\<close> and \<open>LineTerminator\<close>: what \<open>trim\<close> strips and \<open>\s\<close> matches.\<close>

definition is_ws :: "int \<Rightarrow> bool" where
  "is_ws c \<longleftrightarrow> (9 \<le> c \<and> c \<le> 13) \<or> c = 32 \<or> c = 160 \<or> c = 0x1680
     \<or> (0x2000 \<le> c \<and> c \<le> 0x200A) \<or> c = 0x2028 \<or> c = 0x2029 \<or> c = 0x202F
     \<or> c = 0x205F \<or> c = 0x3000 \<or> c = 0xFEFF"

definition is_digit :: "int \<Rightarrow> bool" where
  "is_digit c \<longleftrightarrow> 48 \<le> c \<and> c \<le> 57"

declare is_ws_def [js_eval] is_digit_def [js_eval]

lemma is_digit_not_ws: "is_digit c \<Longrightarrow> \<not> is_ws c"
  by (auto simp: is_digit_def is_ws_def)

definition trim :: "jsstr \<Rightarrow> jsstr" where
  "trim s = rev (dropWhile is_ws (rev (dropWhile is_ws s)))"

declare trim_def [js_eval]

text \<open>A string that \<open>trim\<close> leaves alone: empty, or with no white space at either end.\<close>

definition trimmed :: "jsstr \<Rightarrow> bool" where
  "trimmed s \<longleftrightarrow> s = [] \<or> (\<not> is_ws (hd s) \<and> \<not> is_ws (last s))"

lemma trim_Nil [simp]: "trim [] = []"
  by (simp add: trim_def)

lemma dropWhile_hd: "xs \<noteq> [] \<Longrightarrow> \<not> P (hd xs) \<Longrightarrow> dropWhile P xs = xs"
  by (cases xs) auto

lemma trim_trimmed: "trimmed s \<Longrightarrow> trim s = s"
  unfolding trimmed_def
proof (elim disjE conjE)
  assume "\<not> is_ws (hd s)" "\<not> is_ws (last s)"
  then have "s \<noteq> [] \<Longrightarrow> trim s = s"
    by (simp add: trim_def dropWhile_hd hd_rev)
  then show ?thesis by (cases "s = []") (auto simp: trim_def)
qed (simp add: trim_def)

lemma dropWhile_hd_not: "dropWhile P xs \<noteq> [] \<Longrightarrow> \<not> P (hd (dropWhile P xs))"
  by (induction xs) auto

lemma last_dropWhile: "dropWhile P xs \<noteq> [] \<Longrightarrow> last (dropWhile P xs) = last xs"
  by (induction xs) auto

lemma trimmed_trim [simp]: "trimmed (trim s)"
proof -
  let ?a = "dropWhile is_ws s" and ?b = "dropWhile is_ws (rev (dropWhile is_ws s))"
  show ?thesis
  proof (cases "?b = []")
    case True
    then show ?thesis by (simp add: trimmed_def trim_def)
  next
    case False
    then have 1: "\<not> is_ws (hd ?b)" by (rule dropWhile_hd_not)
    from False have a: "?a \<noteq> []" by (metis dropWhile.simps(1) rev.simps(1))
    from False have "last ?b = last (rev ?a)" by (rule last_dropWhile)
    also have "\<dots> = hd ?a" by (simp add: last_rev)
    finally have 2: "\<not> is_ws (last ?b)" using dropWhile_hd_not [OF a] by simp
    from False 1 2 show ?thesis by (simp add: trimmed_def trim_def hd_rev last_rev)
  qed
qed

lemma trim_idem [simp]: "trim (trim s) = trim s"
  by (rule trim_trimmed) simp

lemma set_trim: "set (trim s) \<subseteq> set s"
proof
  fix c
  assume "c \<in> set (trim s)"
  then have "c \<in> set (dropWhile is_ws (rev (dropWhile is_ws s)))"
    by (simp add: trim_def)
  then have "c \<in> set (rev (dropWhile is_ws s))" by (blast dest: set_dropWhileD)
  then have "c \<in> set (dropWhile is_ws s)" by simp
  then show "c \<in> set s" by (blast dest: set_dropWhileD)
qed

lemma length_trim: "length (trim s) \<le> length s"
  unfolding trim_def
  by (metis length_dropWhile_le length_rev order_trans)

lemma trimmed_Nil [simp]: "trimmed []"
  by (simp add: trimmed_def)

lemma trimmedI: "s \<noteq> [] \<Longrightarrow> \<not> is_ws (hd s) \<Longrightarrow> \<not> is_ws (last s) \<Longrightarrow> trimmed s"
  by (simp add: trimmed_def)

lemma trim_eq_Nil: "trim s = [] \<longleftrightarrow> (\<forall>c \<in> set s. is_ws c)"
proof
  assume "trim s = []"
  then have "\<forall>c \<in> set (dropWhile is_ws s). is_ws c" by (simp add: trim_def)
  then have "dropWhile is_ws s = []"
    by (metis dropWhile_hd_not hd_in_set)
  then show "\<forall>c \<in> set s. is_ws c" by simp
qed (auto simp: trim_def dest: set_dropWhileD)

section \<open>Positions and substrings\<close>

text \<open>\<open>s.slice(a, b)\<close>: negative positions count from the end, out of range is clamped.\<close>

definition slice_pos :: "jsstr \<Rightarrow> int \<Rightarrow> nat" where
  "slice_pos s a = nat (if a < 0 then max 0 (int (length s) + a) else min a (int (length s)))"

definition js_slice :: "jsstr \<Rightarrow> int \<Rightarrow> int \<Rightarrow> jsstr" where
  "js_slice s a b = take (slice_pos s b - slice_pos s a) (drop (slice_pos s a) s)"

declare slice_pos_def [js_eval] js_slice_def [js_eval]

lemma slice_ends: "js_slice s 1 (- 1) = butlast (tl s)"
proof (cases s)
  case Nil
  then show ?thesis by (simp add: js_slice_def slice_pos_def)
next
  case (Cons c r)
  then show ?thesis
    by (simp add: js_slice_def slice_pos_def butlast_conv_take nat_diff_distrib')
qed

definition starts_with :: "jsstr \<Rightarrow> jsstr \<Rightarrow> bool" where
  "starts_with s p \<longleftrightarrow> take (length p) s = p"

definition ends_with :: "jsstr \<Rightarrow> jsstr \<Rightarrow> bool" where
  "ends_with s p \<longleftrightarrow> starts_with (rev s) (rev p)"

declare starts_with_def [js_eval] ends_with_def [js_eval]

lemma starts_with_append [simp]: "starts_with (p @ s) p"
  by (simp add: starts_with_def)

lemma starts_with_iff: "starts_with s p \<longleftrightarrow> (\<exists>r. s = p @ r)"
  unfolding starts_with_def by (metis append_eq_conv_conj append_take_drop_id)

lemma starts_with_length: "starts_with s p \<Longrightarrow> length p \<le> length s"
  by (auto simp: starts_with_iff)

lemma starts_with_single: "starts_with s [c] \<longleftrightarrow> s \<noteq> [] \<and> hd s = c"
  by (cases s) (auto simp: starts_with_def)

lemma ends_with_single: "ends_with s [c] \<longleftrightarrow> s \<noteq> [] \<and> last s = c"
  by (simp add: ends_with_def starts_with_single hd_rev)

lemma ends_with_iff: "ends_with s p \<longleftrightarrow> (\<exists>r. s = r @ p)"
  unfolding ends_with_def starts_with_iff by (metis rev_append rev_rev_ident)

text \<open>The first position of a substring at or after the start: \<open>indexOf\<close>, without its \<open>-1\<close>.\<close>

fun find_sub :: "jsstr \<Rightarrow> jsstr \<Rightarrow> nat option" where
  "find_sub p [] = (if p = [] then Some 0 else None)"
| "find_sub p (c # s) =
     (if starts_with (c # s) p then Some 0 else map_option Suc (find_sub p s))"

definition index_of :: "jsstr \<Rightarrow> jsstr \<Rightarrow> nat \<Rightarrow> nat option" where
  "index_of s p i = map_option ((+) i) (find_sub p (drop i s))"

definition js_includes :: "jsstr \<Rightarrow> jsstr \<Rightarrow> bool" where
  "js_includes s p \<longleftrightarrow> find_sub p s \<noteq> None"

declare index_of_def [js_eval] js_includes_def [js_eval]

lemma find_sub_Some:
  "find_sub p s = Some i \<Longrightarrow> \<exists>r. s = take i s @ p @ r"
proof (induction s arbitrary: i)
  case Nil
  then show ?case by (simp split: if_splits)
next
  case (Cons c s)
  show ?case
  proof (cases "starts_with (c # s) p")
    case True
    with Cons.prems show ?thesis by (auto simp: starts_with_iff)
  next
    case False
    with Cons.prems obtain k where k: "find_sub p s = Some k" "i = Suc k" by auto
    from Cons.IH [OF k(1)] k(2) show ?thesis by simp
  qed
qed

lemma find_sub_bound: "find_sub p s = Some i \<Longrightarrow> i + length p \<le> length s"
  by (induction s arbitrary: i) (auto dest!: starts_with_length split: if_splits)

lemma find_sub_None: "find_sub p s = None \<Longrightarrow> s \<noteq> u @ p @ v"
proof (induction s arbitrary: u)
  case Nil
  then show ?case by (auto split: if_splits)
next
  case (Cons c s)
  then have n: "\<not> starts_with (c # s) p" and k: "find_sub p s = None"
    by (auto split: if_splits)
  show ?case
  proof
    assume eq: "c # s = u @ p @ v"
    show False
    proof (cases u)
      case Nil
      with eq n show ?thesis by (simp add: starts_with_def)
    next
      case (Cons d u')
      with eq have "s = u' @ p @ v" by simp
      with Cons.IH [OF k] show ?thesis by blast
    qed
  qed
qed

lemma find_sub_append: "find_sub p (u @ p @ v) \<noteq> None"
  using find_sub_None by blast

lemma js_includes_iff: "js_includes s p \<longleftrightarrow> (\<exists>u v. s = u @ p @ v)"
  unfolding js_includes_def
  by (metis find_sub_append find_sub_Some not_None_eq)

lemma find_sub_least:
  "find_sub p s = Some i \<Longrightarrow> j < i \<Longrightarrow> \<not> starts_with (drop j s) p"
proof (induction s arbitrary: i j)
  case Nil
  then show ?case by (simp split: if_splits)
next
  case (Cons c s)
  then show ?case by (cases j) (auto split: if_splits)
qed

section \<open>Splitting and joining\<close>

text \<open>\<open>s.split(sep)\<close> for a separator of one code unit.\<close>

fun split_ch :: "int \<Rightarrow> jsstr \<Rightarrow> jsstr list" where
  "split_ch d [] = [[]]"
| "split_ch d (c # s) =
     (if c = d then [] # split_ch d s
      else (case split_ch d s of [] \<Rightarrow> [[c]] | p # ps \<Rightarrow> (c # p) # ps))"

fun join :: "jsstr \<Rightarrow> jsstr list \<Rightarrow> jsstr" where
  "join sep [] = []"
| "join sep [x] = x"
| "join sep (x # y # xs) = x @ sep @ join sep (y # xs)"

lemma split_ch_nonempty [simp]: "split_ch d s \<noteq> []"
  by (induction s) (auto split: list.splits)

lemma split_ch_no_sep: "d \<notin> set s \<Longrightarrow> split_ch d s = [s]"
  by (induction s) auto

lemma split_ch_append:
  "d \<notin> set p \<Longrightarrow> split_ch d (p @ d # s) = p # split_ch d s"
  by (induction p) auto

lemma split_ch_pieces: "p \<in> set (split_ch d s) \<Longrightarrow> d \<notin> set p"
proof (induction s arbitrary: p)
  case Nil
  then show ?case by simp
next
  case (Cons c s)
  then show ?case by (cases "split_ch d s") (auto split: if_splits)
qed

lemma join_Cons: "join sep (x # xs) = (if xs = [] then x else x @ sep @ join sep xs)"
  by (cases xs) simp_all

lemma join_split_ch: "join [d] (split_ch d s) = s"
proof (induction s)
  case Nil
  then show ?case by simp
next
  case (Cons c s)
  then show ?case
    by (cases "split_ch d s") (auto simp: join_Cons)
qed

lemma split_join_ch:
  "xs \<noteq> [] \<Longrightarrow> \<forall>x \<in> set xs. d \<notin> set x \<Longrightarrow> split_ch d (join [d] xs) = xs"
proof (induction xs)
  case Nil
  then show ?case by simp
next
  case (Cons x xs)
  then show ?case
    by (cases xs) (auto simp: split_ch_no_sep split_ch_append)
qed

lemma set_join: "set (join sep xs) \<subseteq> set sep \<union> (\<Union>x \<in> set xs. set x)"
  by (induction sep xs rule: join.induct) auto

end
