(* ===== verification/JsRegex.thy ===== *)
theory JsRegex
  imports JsString
begin

text \<open>
  The regular expressions of the program, as data, and a matcher with the semantics of ECMAScript:
  backtracking, greedy, leftmost. \<open>mt r x\<close> lists every way \<open>r\<close> can match from the state
  \<open>x\<close>, in the order the backtracking search tries them, so the match JavaScript reports is
  the head of the list. A state is the code unit before the position (none at the start of the
  input), the rest of the input, and the captures so far.

  The lemmas compute the list for the shapes the patterns are made of: literals, classes, maximal
  runs of a class, captures and back references.
\<close>

section \<open>Patterns and the matcher\<close>

datatype rx =
    REmp
  | RChr "int \<Rightarrow> bool"
  | RCat rx rx
  | RAlt rx rx
  | RStar rx
  | RCap nat rx
  | RRef nat
  | RBos
  | REos
  | RWordB

type_synonym caps = "(nat \<times> jsstr) list"
type_synonym rstate = "int option \<times> jsstr \<times> caps"

definition rest_len :: "rstate \<Rightarrow> nat" where
  "rest_len x = length (fst (snd x))"

lemma rest_len_simp [simp]: "rest_len (p, s, c) = length s"
  by (simp add: rest_len_def)

definition is_word :: "int \<Rightarrow> bool" where
  "is_word c \<longleftrightarrow> (48 \<le> c \<and> c \<le> 57) \<or> (65 \<le> c \<and> c \<le> 90) \<or> c = 95 \<or> (97 \<le> c \<and> c \<le> 122)"

declare is_word_def [js_eval]

definition at_word_boundary :: "int option \<Rightarrow> jsstr \<Rightarrow> bool" where
  "at_word_boundary p s \<longleftrightarrow>
     (case p of None \<Rightarrow> False | Some a \<Rightarrow> is_word a) \<noteq>
     (case s of [] \<Rightarrow> False | b # _ \<Rightarrow> is_word b)"

declare at_word_boundary_def [js_eval]

text \<open>A greedy repetition; an iteration that consumes nothing is not counted, as in ECMAScript.\<close>

fun iterate :: "nat \<Rightarrow> (rstate \<Rightarrow> rstate list) \<Rightarrow> rstate \<Rightarrow> rstate list" where
  "iterate 0 f x = [x]"
| "iterate (Suc n) f x =
     concat (map (iterate n f) (filter (\<lambda>y. rest_len y < rest_len x) (f x))) @ [x]"

text \<open>Consume the code units of \<open>w\<close>.\<close>

fun eat :: "jsstr \<Rightarrow> rstate \<Rightarrow> rstate list" where
  "eat [] x = [x]"
| "eat (a # w) (p, s, c) =
     (case s of [] \<Rightarrow> [] | b # t \<Rightarrow> if a = b then eat w (Some b, t, c) else [])"

fun mt :: "rx \<Rightarrow> rstate \<Rightarrow> rstate list" where
  "mt REmp x = [x]"
| "mt (RChr P) (p, s, c) =
     (case s of [] \<Rightarrow> [] | a # t \<Rightarrow> if P a then [(Some a, t, c)] else [])"
| "mt (RCat r q) x = concat (map (mt q) (mt r x))"
| "mt (RAlt r q) x = mt r x @ mt q x"
| "mt (RStar r) x = iterate (rest_len x) (mt r) x"
| "mt (RCap i r) (p, s, c) =
     map (\<lambda>(p', t, c'). (p', t, (i, take (length s - length t) s) # c')) (mt r (p, s, c))"
| "mt (RRef i) (p, s, c) =
     (case map_of c i of None \<Rightarrow> [(p, s, c)] | Some w \<Rightarrow> eat w (p, s, c))"
| "mt RBos (p, s, c) = (if p = None then [(p, s, c)] else [])"
| "mt REos (p, s, c) = (if s = [] then [(p, s, c)] else [])"
| "mt RWordB (p, s, c) = (if at_word_boundary p s then [(p, s, c)] else [])"

text \<open>The leftmost match: its position, its text and its captures.\<close>

type_synonym rmatch = "nat \<times> jsstr \<times> caps"

fun rx_from :: "rx \<Rightarrow> nat \<Rightarrow> int option \<Rightarrow> jsstr \<Rightarrow> rmatch option" where
  "rx_from r i p s =
     (case mt r (p, s, []) of
        (p', t, c) # _ \<Rightarrow> Some (i, take (length s - length t) s, c)
      | [] \<Rightarrow> (case s of [] \<Rightarrow> None | a # t \<Rightarrow> rx_from r (Suc i) (Some a) t))"

declare rx_from.simps [simp del]

definition rx_exec :: "rx \<Rightarrow> jsstr \<Rightarrow> rmatch option" where
  "rx_exec r s = rx_from r 0 None s"

text \<open>\<open>s.match(r)\<close> for the captures, \<open>r.test(s)\<close>, and capture number \<open>i\<close> of a match.\<close>

definition rx_caps :: "rx \<Rightarrow> jsstr \<Rightarrow> caps option" where
  "rx_caps r s = map_option (\<lambda>(i, w, c). c) (rx_exec r s)"

definition rx_test :: "rx \<Rightarrow> jsstr \<Rightarrow> bool" where
  "rx_test r s \<longleftrightarrow> rx_exec r s \<noteq> None"

definition cap :: "nat \<Rightarrow> caps \<Rightarrow> jsstr" where
  "cap i c = (case map_of c i of None \<Rightarrow> [] | Some w \<Rightarrow> w)"

lemma cap_simps [simp]:
  "cap i ((i, w) # c) = w"
  "i \<noteq> j \<Longrightarrow> cap i ((j, w) # c) = cap i c"
  by (simp_all add: cap_def)

text \<open>Building blocks.\<close>

fun rlit :: "jsstr \<Rightarrow> rx" where
  "rlit [] = REmp"
| "rlit [c] = RChr (\<lambda>x. x = c)"
| "rlit (c # d # cs) = RCat (RChr (\<lambda>x. x = c)) (rlit (d # cs))"

fun rcat :: "rx list \<Rightarrow> rx" where
  "rcat [] = REmp"
| "rcat [r] = r"
| "rcat (r # q # rs) = RCat r (rcat (q # rs))"

fun ralt :: "rx list \<Rightarrow> rx" where
  "ralt [] = RChr (\<lambda>_. False)"
| "ralt [r] = r"
| "ralt (r # q # rs) = RAlt r (ralt (q # rs))"

definition rplus :: "rx \<Rightarrow> rx" where
  "rplus r = RCat r (RStar r)"

definition ropt :: "rx \<Rightarrow> rx" where
  "ropt r = RAlt r REmp"

text \<open>\<open>^r$\<close>, \<open>.\<close> (any code unit but a line terminator) and \<open>\s*\<close>.\<close>

definition rwhole :: "rx list \<Rightarrow> rx" where
  "rwhole rs = RCat RBos (rcat (rs @ [REos]))"

definition is_dot :: "int \<Rightarrow> bool" where
  "is_dot c \<longleftrightarrow> c \<noteq> 10 \<and> c \<noteq> 13 \<and> c \<noteq> 0x2028 \<and> c \<noteq> 0x2029"

definition rws :: rx where
  "rws = RStar (RChr is_ws)"

declare is_dot_def [js_eval] rplus_def [js_eval] ropt_def [js_eval] rws_def [js_eval]
  rx_exec_def [js_eval] rx_caps_def [js_eval] rx_test_def [js_eval] rwhole_def [js_eval]

section \<open>Sequencing\<close>

definition andthen :: "rstate list \<Rightarrow> (rstate \<Rightarrow> rstate list) \<Rightarrow> rstate list" where
  "andthen xs f = concat (map f xs)"

lemma andthen_simps [simp]:
  "andthen [] f = []"
  "andthen (x # xs) f = f x @ andthen xs f"
  by (simp_all add: andthen_def)

lemma andthen_append [simp]: "andthen (xs @ ys) f = andthen xs f @ andthen ys f"
  by (simp add: andthen_def)

lemma andthen_assoc: "andthen (andthen xs f) g = andthen xs (\<lambda>x. andthen (f x) g)"
  by (induction xs) auto

lemma andthen_map: "andthen (map h xs) f = andthen xs (\<lambda>x. f (h x))"
  by (induction xs) auto

lemma mt_RCat: "mt (RCat r q) x = andthen (mt r x) (mt q)"
  by (simp add: andthen_def)

declare mt.simps(3) [simp del]

lemma mt_rcat_Cons: "rs \<noteq> [] \<Longrightarrow> mt (rcat (r # rs)) x = andthen (mt r x) (mt (rcat rs))"
  by (cases rs) (simp_all add: mt_RCat)

lemma mt_rcat_Cons2: "mt (rcat (r # q # rs)) x = andthen (mt r x) (mt (rcat (q # rs)))"
  by (simp add: mt_RCat)

declare rcat.simps(3) [simp del]

text \<open>A match never gives back what was consumed: the rest is a suffix of the input.\<close>

lemma iterate_suffix:
  assumes "\<And>x y. y \<in> set (f x) \<Longrightarrow> \<exists>w. fst (snd x) = w @ fst (snd y)"
  shows "y \<in> set (iterate n f x) \<Longrightarrow> \<exists>w. fst (snd x) = w @ fst (snd y)"
proof (induction n arbitrary: x)
  case 0
  then show ?case by simp
next
  case (Suc n)
  show ?case
  proof (cases "y = x")
    case True
    then show ?thesis by simp
  next
    case False
    with Suc.prems obtain z where "z \<in> set (f x)" "y \<in> set (iterate n f z)" by auto
    with assms Suc.IH [of z] show ?thesis by (metis append_assoc)
  qed
qed

lemma eat_suffix: "y \<in> set (eat w x) \<Longrightarrow> fst (snd x) = w @ fst (snd y)"
  by (induction w x rule: eat.induct) (auto split: list.splits if_splits)

lemma mt_suffix: "y \<in> set (mt r x) \<Longrightarrow> \<exists>w. fst (snd x) = w @ fst (snd y)"
proof (induction r x arbitrary: y rule: mt.induct)
  case (3 r q x)
  then obtain z where "z \<in> set (mt r x)" "y \<in> set (mt q z)"
    by (auto simp: mt.simps(3))
  with 3 show ?case by (metis append_assoc)
next
  case (5 r x)
  then show ?case using iterate_suffix [of "mt r"] by simp
next
  case (7 i p s c)
  then show ?case by (auto split: option.splits dest: eat_suffix)
next
  case (6 i r p s c)
  then show ?case by force
qed (auto split: list.splits if_splits)

section \<open>Literals\<close>

lemma eat_append [simp]:
  "eat w (p, w @ s, c) = [(if w = [] then p else Some (last w), s, c)]"
  by (induction w arbitrary: p) auto

lemma mt_rlit: "mt (rlit w) x = eat w x"
proof (induction w arbitrary: x rule: rlit.induct)
  case (2 a)
  then show ?case by (cases x) (auto split: list.splits)
next
  case (3 a b w)
  then show ?case by (cases x) (auto simp: mt_RCat split: list.splits)
qed simp

lemma eat_eq_Nil: "(\<And>r. s \<noteq> w @ r) \<Longrightarrow> eat w (p, s, c) = []"
proof (induction w arbitrary: p s)
  case Nil
  then show ?case by blast
next
  case (Cons a w)
  then show ?case by (cases s) auto
qed

declare rlit.simps [simp del]
declare mt_rlit [simp]

section \<open>Runs of a class\<close>

text \<open>All prefixes of the longest run of \<open>P\<close>, the longest first.\<close>

fun runs :: "(int \<Rightarrow> bool) \<Rightarrow> rstate \<Rightarrow> rstate list" where
  "runs P (p, [], c) = [(p, [], c)]"
| "runs P (p, a # t, c) = (if P a then runs P (Some a, t, c) @ [(p, a # t, c)] else [(p, a # t, c)])"

definition ran :: "int option \<Rightarrow> jsstr \<Rightarrow> int option" where
  "ran p w = (if w = [] then p else Some (last w))"

lemma ran_simps [simp]: "ran p [] = p" "ran p (a # w) = ran (Some a) w"
  by (simp_all add: ran_def)

lemma ran_append [simp]: "ran p (w @ v) = ran (ran p w) v"
  by (simp add: ran_def)

lemma eat_append_ran: "eat w (p, w @ s, c) = [(ran p w, s, c)]"
  by (simp add: ran_def)

lemma iterate_class:
  "length s \<le> n \<Longrightarrow> iterate n (mt (RChr P)) (p, s, c) = runs P (p, s, c)"
proof (induction n arbitrary: p s)
  case 0
  then show ?case by simp
next
  case (Suc n)
  then show ?case by (cases s) auto
qed

lemma mt_star_class [simp]: "mt (RStar (RChr P)) (p, s, c) = runs P (p, s, c)"
  by (simp add: iterate_class)

declare mt.simps(5) [simp del]

text \<open>
  When what follows cannot start inside the class, only the whole run survives: the repetition
  is deterministic.
\<close>

lemma runs_maximal:
  assumes "\<And>p a t c. P a \<Longrightarrow> g (p, a # t, c) = []"
  shows "andthen (runs P (p, s, c)) g = g (ran p (takeWhile P s), dropWhile P s, c)"
proof (induction s arbitrary: p)
  case (Cons a s)
  then show ?case using assms by auto
qed simp

lemma runs_split:
  assumes "\<And>p a t c. P a \<Longrightarrow> g (p, a # t, c) = []"
    and "list_all P w" and "s = [] \<or> \<not> P (hd s)"
  shows "andthen (runs P (p, w @ s, c)) g = g (ran p w, s, c)"
proof -
  from assms(2,3) have "takeWhile P (w @ s) = w" "dropWhile P (w @ s) = s"
    by (induction w) (auto simp: takeWhile_eq_Nil_iff dropWhile_eq_self_iff)
  with runs_maximal [of P g p "w @ s" c] assms(1) show ?thesis by simp
qed

lemma mt_rplus_class:
  "mt (rplus (RChr P)) (p, s, c) =
     (case s of [] \<Rightarrow> [] | a # t \<Rightarrow> if P a then runs P (Some a, t, c) else [])"
  by (auto simp: rplus_def mt_RCat split: list.splits)

lemma plus_split:
  assumes "\<And>p a t c. P a \<Longrightarrow> g (p, a # t, c) = []"
    and "list_all P w" and "w \<noteq> []" and "s = [] \<or> \<not> P (hd s)"
  shows "andthen (mt (rplus (RChr P)) (p, w @ s, c)) g = g (ran p w, s, c)"
proof (cases w)
  case (Cons a v)
  with assms(2) have "P a" "list_all P v" by auto
  with Cons show ?thesis
    using runs_split [of P g v s "Some a" c] assms(1,4) by (auto simp: mt_rplus_class)
qed (use assms(3) in simp)

section \<open>Anchored patterns\<close>

lemma rx_from_anchored:
  "rx_from (RCat RBos r) i (Some a) s = None"
  by (induction s arbitrary: i a) (subst rx_from.simps, simp add: mt_RCat)+

lemma rx_exec_anchored:
  "rx_exec (RCat RBos r) s =
     (case mt r (None, s, []) of
        [] \<Rightarrow> None
      | (p', t, c) # _ \<Rightarrow> Some (0, take (length s - length t) s, c))"
  unfolding rx_exec_def
  by (subst rx_from.simps) (auto simp: mt_RCat rx_from_anchored split: list.splits)

lemma rx_caps_whole:
  "rx_caps (rwhole rs) s =
     (case mt (rcat (rs @ [REos])) (None, s, []) of [] \<Rightarrow> None | (p', t, c) # _ \<Rightarrow> Some c)"
  by (auto simp: rx_caps_def rwhole_def rx_exec_anchored split: list.splits)

lemma rx_test_whole:
  "rx_test (rwhole rs) s \<longleftrightarrow> mt (rcat (rs @ [REos])) (None, s, []) \<noteq> []"
  by (auto simp: rx_test_def rwhole_def rx_exec_anchored split: list.splits)

lemma mt_cap:
  "mt (RCap i r) (p, s, c) =
     andthen (mt r (p, s, c)) (\<lambda>(p', t, c'). [(p', t, (i, take (length s - length t) s) # c')])"
proof -
  have "map f xs = andthen xs (\<lambda>x. [f x])" for f :: "rstate \<Rightarrow> rstate" and xs
    by (induction xs) auto
  then show ?thesis by (simp add: case_prod_unfold)
qed

text \<open>A captured literal, and a captured maximal run.\<close>

lemma take_captured [simp]: "take (length (w @ s) - length s) (w @ s) = w"
  by simp

lemma eos_class: "mt REos (p, a # t, c) = []"
  by simp

end
