(* ===== verification/Binary64.thy ===== *)
theory Binary64
  imports JsString
begin

text \<open>
  Rounding to IEEE 754 binary64 over exact rationals: to nearest with ties to even, with 53 bits
  of precision and gradual underflow at the exponent \<open>-1074\<close>. Rounding is monotone and
  idempotent, and the integers up to two to the 53 are exact.
\<close>

section \<open>Powers of two and binary logarithm\<close>

definition pow2 :: "int \<Rightarrow> rat" where
  "pow2 e = (if 0 \<le> e then 2 ^ nat e else 1 / 2 ^ nat (- e))"

definition pow10 :: "int \<Rightarrow> rat" where
  "pow10 e = (if 0 \<le> e then 10 ^ nat e else 1 / 10 ^ nat (- e))"

function blen :: "int \<Rightarrow> int" where
  "blen n = (if n \<le> 0 then 0 else 1 + blen (n div 2))"
  by pat_completeness auto
termination
  by (relation "measure nat") auto

declare blen.simps [simp del]

definition ilog :: "rat \<Rightarrow> int" where
  "ilog q = (case quotient_of q of (n, d) \<Rightarrow>
     let e = blen n - blen d in if pow2 e \<le> q then e else e - 1)"

lemma pow2_eq_powi: "pow2 e = 2 powi e"
  by (simp add: pow2_def power_int_def inverse_eq_divide power_one_over)

lemma pow10_eq_powi: "pow10 e = 10 powi e"
  by (simp add: pow10_def power_int_def inverse_eq_divide power_one_over)

lemma pow2_pos [simp]: "0 < pow2 e"
  by (simp add: pow2_def)

lemma pow2_nonzero [simp]: "pow2 e \<noteq> 0"
  using pow2_pos [of e] by linarith

lemma pow2_nonneg [simp]: "0 \<le> pow2 e" "\<not> pow2 e < 0"
  using pow2_pos [of e] by linarith+

lemma pow10_pos [simp]: "0 < pow10 e"
  by (simp add: pow10_def)

lemma pow10_nonzero [simp]: "pow10 e \<noteq> 0"
  using pow10_pos [of e] by linarith

lemma pow2_0 [simp]: "pow2 0 = 1"
  by (simp add: pow2_def)

lemma pow10_0 [simp]: "pow10 0 = 1"
  by (simp add: pow10_def)

lemma pow10_1 [simp]: "pow10 1 = 10"
  by (simp add: pow10_def)

lemma pow2_add: "pow2 (a + b) = pow2 a * pow2 b"
  by (simp add: pow2_eq_powi power_int_add)

lemma pow10_add: "pow10 (a + b) = pow10 a * pow10 b"
  by (simp add: pow10_eq_powi power_int_add)

lemma pow2_diff: "pow2 (a - b) = pow2 a / pow2 b"
  by (simp add: pow2_eq_powi power_int_diff)

lemma pow10_diff: "pow10 (a - b) = pow10 a / pow10 b"
  by (simp add: pow10_eq_powi power_int_diff)

lemma pow10_minus: "pow10 (- a) = 1 / pow10 a"
  using pow10_diff [of 0 a] by simp

lemma pow2_mono: "a \<le> b \<Longrightarrow> pow2 a \<le> pow2 b"
  by (simp add: pow2_eq_powi power_int_increasing)

lemma pow2_strict_mono: "a < b \<Longrightarrow> pow2 a < pow2 b"
  by (simp add: pow2_eq_powi power_int_strict_increasing)

lemma pow2_less_iff [simp]: "pow2 a < pow2 b \<longleftrightarrow> a < b"
  by (meson linorder_not_le pow2_mono pow2_strict_mono)

lemma pow2_le_iff [simp]: "pow2 a \<le> pow2 b \<longleftrightarrow> a \<le> b"
  by (meson linorder_not_le pow2_mono pow2_strict_mono)

lemma pow2_nat: "pow2 (int n) = 2 ^ n"
  by (simp add: pow2_def)

lemma pow10_nat: "pow10 (int n) = 10 ^ n"
  by (simp add: pow10_def)

lemma pow2_53: "pow2 53 = 9007199254740992"
  by (simp add: pow2_def)

lemma pow2_int: "0 \<le> e \<Longrightarrow> pow2 e = of_int (2 ^ nat e)"
  by (simp add: pow2_def)

lemma blen_bounds: "0 < n \<Longrightarrow> pow2 (blen n - 1) \<le> of_int n \<and> of_int n < pow2 (blen n)"
proof (induction n rule: blen.induct)
  case (1 n)
  show ?case
  proof (cases "n = 1")
    case True
    then have "blen n = 1" by (simp add: blen.simps)
    with True show ?thesis by (simp add: pow2_def)
  next
    case False
    with 1 have pos: "0 < n div 2" by simp
    with 1 have IH: "pow2 (blen (n div 2) - 1) \<le> of_int (n div 2)"
      "of_int (n div 2) < pow2 (blen (n div 2))" by auto
    have b: "blen n = 1 + blen (n div 2)" using 1(2) by (subst blen.simps) simp
    have "(1::rat) \<le> of_int (n div 2)" using pos by (simp only: of_int_1_le_iff)
    with IH(2) have "pow2 0 < pow2 (blen (n div 2))" by simp
    then have nn: "blen (n div 2) \<ge> 0" by (simp only: pow2_less_iff)
    let ?k = "2 ^ nat (blen (n div 2)) :: int"
    have "of_int (n div 2) < (of_int ?k :: rat)" using IH(2) nn by (simp add: pow2_int)
    then have "n div 2 < ?k" by (simp only: of_int_less_iff)
    then have "n < 2 * ?k" by linarith
    then have "of_int n < (of_int (2 * ?k) :: rat)" by (simp only: of_int_less_iff)
    also have "\<dots> = pow2 (blen n)" using nn b by (simp add: pow2_def nat_add_distrib)
    finally have u: "of_int n < pow2 (blen n)" .
    have "pow2 (blen n - 1) = 2 * pow2 (blen (n div 2) - 1)"
      using pow2_add [of 1 "blen (n div 2) - 1"] by (simp add: b pow2_def)
    also have "\<dots> \<le> 2 * of_int (n div 2)" using IH(1) by simp
    also have "\<dots> \<le> of_int n"
    proof -
      have "2 * (n div 2) \<le> n" by simp
      then have "(of_int (2 * (n div 2)) :: rat) \<le> of_int n" by (simp only: of_int_le_iff)
      then show ?thesis by simp
    qed
    finally show ?thesis using u by simp
  qed
qed

lemma ilog_bounds:
  assumes "0 < q"
  shows "pow2 (ilog q) \<le> q" and "q < pow2 (ilog q + 1)"
proof -
  obtain n d where nd: "quotient_of q = (n, d)" by force
  then have d: "0 < d" and q: "q = of_int n / of_int d"
    by (simp_all add: quotient_of_denom_pos quotient_of_div)
  with assms have n: "0 < n" by (simp add: zero_less_divide_iff)
  let ?e = "blen n - blen d"
  note bn = blen_bounds [OF n] and bd = blen_bounds [OF d]
  have "q < pow2 (blen n) / pow2 (blen d - 1)"
    unfolding q using bn bd d n by (intro frac_less) auto
  also have "\<dots> = pow2 (?e + 1)" by (simp add: pow2_diff [symmetric] algebra_simps)
  finally have up: "q < pow2 (?e + 1)" .
  have "pow2 (?e - 1) = pow2 (blen n - 1) / pow2 (blen d)"
    by (simp add: pow2_diff [symmetric] algebra_simps)
  also have "\<dots> < q"
    unfolding q using bn bd d n by (intro frac_less2) auto
  finally have low: "pow2 (?e - 1) < q" .
  show "pow2 (ilog q) \<le> q" "q < pow2 (ilog q + 1)"
    using low up by (auto simp: ilog_def nd Let_def)
qed

section \<open>Rounding to nearest, ties to even\<close>

definition rne :: "rat \<Rightarrow> int" where
  "rne q = (let f = \<lfloor>q\<rfloor>; r = q - of_int f in
     if r < 1 / 2 then f else if 1 / 2 < r then f + 1 else if even f then f else f + 1)"

lemma rne_of_int [simp]: "rne (of_int n) = n"
  by (simp add: rne_def Let_def)

lemma rne_mono:
  assumes "a \<le> b"
  shows "rne a \<le> rne b"
proof (cases "\<lfloor>a\<rfloor> = \<lfloor>b\<rfloor>")
  case True
  with assms show ?thesis by (auto simp: rne_def Let_def)
next
  case False
  with floor_mono [OF assms] have "\<lfloor>a\<rfloor> + 1 \<le> \<lfloor>b\<rfloor>" by linarith
  moreover have "rne a \<le> \<lfloor>a\<rfloor> + 1" "\<lfloor>b\<rfloor> \<le> rne b"
    by (simp_all add: rne_def Let_def)
  ultimately show ?thesis by linarith
qed

lemma rne_le_int: "a \<le> of_int n \<Longrightarrow> rne a \<le> n"
  using rne_mono [of a "of_int n"] by simp

lemma int_le_rne: "of_int n \<le> a \<Longrightarrow> n \<le> rne a"
  using rne_mono [of "of_int n" a] by simp

lemma rne_error: "\<bar>of_int (rne q) - q\<bar> \<le> 1 / 2"
proof -
  have "of_int \<lfloor>q\<rfloor> \<le> q" "q < of_int \<lfloor>q\<rfloor> + 1" by linarith+
  then show ?thesis unfolding rne_def Let_def by (auto simp: abs_le_iff)
qed

definition ulp_exp :: "rat \<Rightarrow> int" where
  "ulp_exp q = max (ilog q - 52) (- 1074)"

definition rnd_pos :: "rat \<Rightarrow> rat" where
  "rnd_pos q = (let u = ulp_exp q in of_int (rne (q / pow2 u)) * pow2 u)"

text \<open>A multiple of the unit of \<open>q\<close> bounds the rounded value exactly when it bounds \<open>q\<close>.\<close>

lemma rnd_pos_le:
  assumes "q \<le> of_int n * pow2 (ulp_exp q)"
  shows "rnd_pos q \<le> of_int n * pow2 (ulp_exp q)"
proof -
  from assms have "q / pow2 (ulp_exp q) \<le> of_int n" by (simp add: divide_le_eq)
  then show ?thesis by (simp add: rnd_pos_def Let_def rne_le_int)
qed

lemma le_rnd_pos:
  assumes "of_int n * pow2 (ulp_exp q) \<le> q"
  shows "of_int n * pow2 (ulp_exp q) \<le> rnd_pos q"
proof -
  from assms have "of_int n \<le> q / pow2 (ulp_exp q)" by (simp add: le_divide_eq)
  then show ?thesis by (simp add: rnd_pos_def Let_def int_le_rne)
qed

lemma rnd_pos_exact:
  assumes "q = of_int n * pow2 (ulp_exp q)"
  shows "rnd_pos q = q"
  using rnd_pos_le [of q n] le_rnd_pos [of n q] assms by linarith

lemma rnd_pos_nonneg [simp]: "0 \<le> q \<Longrightarrow> 0 \<le> rnd_pos q"
  using le_rnd_pos [of 0 q] by simp

lemma ilog_mono:
  assumes "0 < q" "q \<le> r"
  shows "ilog q \<le> ilog r"
proof -
  from assms have "pow2 (ilog q) < pow2 (ilog r + 1)"
    using ilog_bounds [of q] ilog_bounds [of r] by linarith
  then show ?thesis by simp
qed

lemma ilog_eqI:
  assumes "pow2 e \<le> q" "q < pow2 (e + 1)"
  shows "ilog q = e"
proof -
  have q: "0 < q" using assms(1) pow2_pos [of e] by linarith
  have "pow2 (ilog q) < pow2 (e + 1)" "pow2 e < pow2 (ilog q + 1)"
    using ilog_bounds [OF q] assms by linarith+
  then show ?thesis by simp
qed

lemma pow2_multiple:
  assumes "u \<le> e"
  obtains n where "pow2 e = of_int n * pow2 u" "0 < n"
proof
  show "pow2 e = of_int (2 ^ nat (e - u)) * pow2 u"
    using assms pow2_add [of "e - u" u] by (simp add: pow2_int)
qed simp

lemma rnd_pos_mono:
  assumes q: "0 < q" and qr: "q \<le> r"
  shows "rnd_pos q \<le> rnd_pos r"
proof -
  have r: "0 < r" using q qr by linarith
  have le: "ulp_exp q \<le> ulp_exp r"
    using ilog_mono [OF q qr] by (simp add: ulp_exp_def)
  show ?thesis
  proof (cases "ulp_exp q = ulp_exp r")
    case True
    with qr show ?thesis
      by (simp add: rnd_pos_def Let_def rne_mono divide_right_mono less_imp_le)
  next
    case False
    with le have lt: "ulp_exp q < ulp_exp r" by simp
    then have ur: "ulp_exp r = ilog r - 52" and il: "ilog q < ilog r"
      by (auto simp: ulp_exp_def)
    have "ulp_exp q \<le> ilog r" using lt ur by simp
    then obtain n where n: "pow2 (ilog r) = of_int n * pow2 (ulp_exp q)"
      using pow2_multiple by metis
    have "q \<le> pow2 (ilog q + 1)" using ilog_bounds(2) [OF q] by simp
    also have "\<dots> \<le> pow2 (ilog r)" using il by simp
    finally have "rnd_pos q \<le> pow2 (ilog r)" using rnd_pos_le [of q n] n by simp
    moreover have "pow2 (ilog r) = of_int (2 ^ 52) * pow2 (ulp_exp r)"
      using pow2_add [of 52 "ilog r - 52"] by (simp add: ur pow2_def)
    then have "pow2 (ilog r) \<le> rnd_pos r"
      using le_rnd_pos [of "2 ^ 52" r] ilog_bounds(1) [OF r] by simp
    ultimately show ?thesis by simp
  qed
qed

lemma rnd_pos_multiple: "\<exists>n. rnd_pos q = of_int n * pow2 (ulp_exp q)"
  by (auto simp: rnd_pos_def Let_def)

lemma rnd_pos_bound:
  assumes "0 < q"
  shows "rnd_pos q \<le> pow2 (ulp_exp q + 53)"
proof -
  have e: "pow2 (ulp_exp q + 53) = of_int (2 ^ 53) * pow2 (ulp_exp q)"
    by (simp add: pow2_add pow2_53)
  have "q \<le> pow2 (ilog q + 1)" using ilog_bounds(2) [OF assms] by simp
  also have "\<dots> \<le> pow2 (ulp_exp q + 53)" by (simp add: ulp_exp_def)
  finally show ?thesis unfolding e by (rule rnd_pos_le)
qed

lemma rnd_pos_idem:
  assumes "0 < q"
  shows "rnd_pos (rnd_pos q) = rnd_pos q"
proof (cases "rnd_pos q = 0")
  case True
  then show ?thesis by (simp add: rnd_pos_def rne_def)
next
  case False
  let ?v = "rnd_pos q"
  have v: "0 < ?v" using False rnd_pos_nonneg [of q] assms by linarith
  obtain n where n: "?v = of_int n * pow2 (ulp_exp q)" using rnd_pos_multiple by blast
  show ?thesis
  proof (cases "?v = pow2 (ulp_exp q + 53)")
    case True
    then have "ilog ?v = ulp_exp q + 53" by (intro ilog_eqI) simp_all
    then have "ulp_exp ?v \<le> ulp_exp q + 53"
      by (simp add: ulp_exp_def)
    then obtain m where "pow2 (ulp_exp q + 53) = of_int m * pow2 (ulp_exp ?v)"
      using pow2_multiple by metis
    with True show ?thesis using rnd_pos_exact [of ?v m] by simp
  next
    case False
    with rnd_pos_bound [OF assms] have "?v < pow2 (ulp_exp q + 53)" by simp
    with ilog_bounds(1) [OF v] have "pow2 (ilog ?v) < pow2 (ulp_exp q + 53)" by linarith
    then have "ilog ?v < ulp_exp q + 53" by simp
    then have "ulp_exp ?v \<le> ulp_exp q" by (auto simp: ulp_exp_def)
    then obtain m where "pow2 (ulp_exp q) = of_int m * pow2 (ulp_exp ?v)"
      using pow2_multiple by metis
    with n have "?v = of_int (n * m) * pow2 (ulp_exp ?v)" by simp
    then show ?thesis by (rule rnd_pos_exact)
  qed
qed

text \<open>The integers up to two to the 53 are exact.\<close>

lemma rnd_pos_of_int:
  assumes "0 < n" "n \<le> 2 ^ 53"
  shows "rnd_pos (of_int n) = of_int n"
proof (cases "ulp_exp (of_int n) \<le> 0")
  case True
  then obtain m where "pow2 0 = of_int m * pow2 (ulp_exp (of_int n))"
    using pow2_multiple by metis
  then have "(of_int n :: rat) = of_int (n * m) * pow2 (ulp_exp (of_int n))" by simp
  then show ?thesis by (rule rnd_pos_exact)
next
  case False
  then have "53 \<le> ilog (of_int n)" by (auto simp: ulp_exp_def)
  then have "pow2 53 \<le> of_int n"
    using ilog_bounds(1) [of "of_int n"] assms(1) pow2_mono [of 53 "ilog (of_int n)"]
    by (metis of_int_0_less_iff order_trans)
  with assms(2) have n: "n = 2 ^ 53"
    by (metis antisym of_int_le_iff of_int_numeral of_int_power pow2_int nat_numeral zero_le_numeral)
  have "ilog (of_int n) = 53" unfolding n by (intro ilog_eqI) (simp_all add: pow2_def)
  then have "(of_int n :: rat) = of_int (2 ^ 52) * pow2 (ulp_exp (of_int n))"
    by (simp add: ulp_exp_def pow2_def n)
  then show ?thesis by (rule rnd_pos_exact)
qed

end
