(* ===== verification/JsNum.thy ===== *)
theory JsNum
  imports Binary64
begin

text \<open>
  JavaScript numbers. A finite nonzero double is its rational value, \<open>Fin 0\<close> is positive zero
  and \<open>NZero\<close> negative zero. Every arithmetic operation computes the exact result and rounds it
  once. \<open>is_num\<close> says that the rational of a value is a double; every operation yields one.
\<close>

section \<open>Values\<close>

datatype jsnum = NaN | PInf | NInf | NZero | Fin rat

definition zero_of :: "bool \<Rightarrow> jsnum" where
  "zero_of neg = (if neg then NZero else Fin 0)"

definition inf_of :: "bool \<Rightarrow> jsnum" where
  "inf_of neg = (if neg then NInf else PInf)"

text \<open>The double nearest to a magnitude with a sign.\<close>

definition rnd_sg :: "bool \<Rightarrow> rat \<Rightarrow> jsnum" where
  "rnd_sg neg a =
     (if a \<le> 0 then zero_of neg
      else let v = rnd_pos a in
        if v = 0 then zero_of neg
        else if 1024 \<le> ilog v then inf_of neg
        else Fin (if neg then - v else v))"

definition rnd :: "rat \<Rightarrow> jsnum" where
  "rnd q = rnd_sg (q < 0) \<bar>q\<bar>"

fun is_num :: "jsnum \<Rightarrow> bool" where
  "is_num (Fin q) \<longleftrightarrow> rnd q = Fin q"
| "is_num _ \<longleftrightarrow> True"

fun is_neg :: "jsnum \<Rightarrow> bool" where
  "is_neg (Fin q) \<longleftrightarrow> q < 0"
| "is_neg NInf \<longleftrightarrow> True"
| "is_neg NZero \<longleftrightarrow> True"
| "is_neg _ \<longleftrightarrow> False"

text \<open>The rational value of a finite number; the two zeros have the same.\<close>

fun val :: "jsnum \<Rightarrow> rat" where
  "val (Fin q) = q"
| "val _ = 0"

fun is_finite :: "jsnum \<Rightarrow> bool" where
  "is_finite (Fin q) \<longleftrightarrow> True"
| "is_finite NZero \<longleftrightarrow> True"
| "is_finite _ \<longleftrightarrow> False"

section \<open>Arithmetic\<close>

fun num_neg :: "jsnum \<Rightarrow> jsnum" where
  "num_neg NaN = NaN"
| "num_neg PInf = NInf"
| "num_neg NInf = PInf"
| "num_neg NZero = Fin 0"
| "num_neg (Fin q) = (if q = 0 then NZero else Fin (- q))"

definition num_add :: "jsnum \<Rightarrow> jsnum \<Rightarrow> jsnum" where
  "num_add a b =
     (if a = NaN \<or> b = NaN then NaN
      else if \<not> is_finite a then (if \<not> is_finite b \<and> a \<noteq> b then NaN else a)
      else if \<not> is_finite b then b
      else if a = NZero \<and> b = NZero then NZero
      else rnd (val a + val b))"

definition num_sub :: "jsnum \<Rightarrow> jsnum \<Rightarrow> jsnum" where
  "num_sub a b = num_add a (num_neg b)"

definition num_mul :: "jsnum \<Rightarrow> jsnum \<Rightarrow> jsnum" where
  "num_mul a b =
     (let neg = (is_neg a \<noteq> is_neg b) in
      if a = NaN \<or> b = NaN then NaN
      else if \<not> is_finite a then (if is_finite b \<and> val b = 0 then NaN else inf_of neg)
      else if \<not> is_finite b then (if val a = 0 then NaN else inf_of neg)
      else rnd_sg neg \<bar>val a * val b\<bar>)"

definition num_div :: "jsnum \<Rightarrow> jsnum \<Rightarrow> jsnum" where
  "num_div a b =
     (let neg = (is_neg a \<noteq> is_neg b) in
      if a = NaN \<or> b = NaN then NaN
      else if \<not> is_finite a then (if \<not> is_finite b then NaN else inf_of neg)
      else if \<not> is_finite b then zero_of neg
      else if val b = 0 then (if val a = 0 then NaN else inf_of neg)
      else rnd_sg neg \<bar>val a / val b\<bar>)"

text \<open>Comparisons are false on \<open>NaN\<close>, and the two zeros are equal.\<close>

fun num_lt :: "jsnum \<Rightarrow> jsnum \<Rightarrow> bool" where
  "num_lt NaN b \<longleftrightarrow> False"
| "num_lt a NaN \<longleftrightarrow> False"
| "num_lt PInf b \<longleftrightarrow> False"
| "num_lt a NInf \<longleftrightarrow> False"
| "num_lt NInf b \<longleftrightarrow> True"
| "num_lt a PInf \<longleftrightarrow> True"
| "num_lt a b \<longleftrightarrow> val a < val b"

definition num_eq :: "jsnum \<Rightarrow> jsnum \<Rightarrow> bool" where
  "num_eq a b \<longleftrightarrow> a \<noteq> NaN \<and> b \<noteq> NaN \<and> (if is_finite a \<and> is_finite b then val a = val b else a = b)"

definition num_le :: "jsnum \<Rightarrow> jsnum \<Rightarrow> bool" where
  "num_le a b \<longleftrightarrow> num_lt a b \<or> num_eq a b"

text \<open>\<open>Boolean(x)\<close>, \<open>x || y\<close>, and the functions of \<open>Math\<close> the program uses.\<close>

definition num_truthy :: "jsnum \<Rightarrow> bool" where
  "num_truthy a \<longleftrightarrow> a \<noteq> NaN \<and> \<not> (is_finite a \<and> val a = 0)"

definition num_or :: "jsnum \<Rightarrow> jsnum \<Rightarrow> jsnum" where
  "num_or a b = (if num_truthy a then a else b)"

fun num_abs :: "jsnum \<Rightarrow> jsnum" where
  "num_abs NInf = PInf"
| "num_abs NZero = Fin 0"
| "num_abs (Fin q) = Fin \<bar>q\<bar>"
| "num_abs a = a"

definition num_max :: "jsnum \<Rightarrow> jsnum \<Rightarrow> jsnum" where
  "num_max a b =
     (if a = NaN \<or> b = NaN then NaN
      else if num_lt a b then b else if num_lt b a then a
      else if a = NZero then b else a)"

definition num_min :: "jsnum \<Rightarrow> jsnum \<Rightarrow> jsnum" where
  "num_min a b =
     (if a = NaN \<or> b = NaN then NaN
      else if num_lt a b then a else if num_lt b a then b
      else if a = NZero then a else b)"

text \<open>\<open>Math.floor\<close> and \<open>Math.round\<close>; the latter rounds halves up and keeps the sign of zero.\<close>

fun num_floor :: "jsnum \<Rightarrow> jsnum" where
  "num_floor (Fin q) = Fin (of_int \<lfloor>q\<rfloor>)"
| "num_floor a = a"

fun num_round :: "jsnum \<Rightarrow> jsnum" where
  "num_round (Fin q) =
     (let n = \<lfloor>q + 1 / 2\<rfloor> in if n = 0 then zero_of (q < 0) else Fin (of_int n))"
| "num_round a = a"

fun is_integer :: "jsnum \<Rightarrow> bool" where
  "is_integer (Fin q) \<longleftrightarrow> q = of_int \<lfloor>q\<rfloor>"
| "is_integer NZero \<longleftrightarrow> True"
| "is_integer _ \<longleftrightarrow> False"

abbreviation num :: "rat \<Rightarrow> jsnum" where
  "num q \<equiv> rnd q"

declare num_add_def [js_eval] num_sub_def [js_eval] num_mul_def [js_eval] num_div_def [js_eval]
  num_eq_def [js_eval] num_le_def [js_eval] num_or_def [js_eval] num_max_def [js_eval]
  num_min_def [js_eval] num_truthy_def [js_eval] zero_of_def [js_eval] inf_of_def [js_eval]

section \<open>Every result is a double\<close>

lemma rnd_0 [simp]: "rnd 0 = Fin 0"
  by (simp add: rnd_def rnd_sg_def zero_of_def)

lemma rnd_sg_0 [simp]: "rnd_sg neg 0 = zero_of neg"
  by (simp add: rnd_sg_def)

lemma is_num_zero [simp]: "is_num (zero_of neg)" "is_num (inf_of neg)"
  by (simp_all add: zero_of_def inf_of_def)

lemma is_num_rnd_sg [simp]: "is_num (rnd_sg neg a)"
proof -
  consider "a \<le> 0 \<or> rnd_pos a = 0" | "0 < a" "rnd_pos a \<noteq> 0" "1024 \<le> ilog (rnd_pos a)"
    | "0 < a" "rnd_pos a \<noteq> 0" "ilog (rnd_pos a) < 1024" by linarith
  then show ?thesis
  proof cases
    case 3
    then have "0 < rnd_pos a" using rnd_pos_nonneg [of a] by linarith
    with 3 show ?thesis
      by (cases neg) (simp_all add: rnd_sg_def rnd_def Let_def rnd_pos_idem)
  qed (auto simp: rnd_sg_def)
qed

lemma is_num_rnd [simp]: "is_num (rnd q)"
  by (simp add: rnd_def)

lemma is_num_neg: "is_num a \<Longrightarrow> is_num (num_neg a)"
proof (cases a)
  case (Fin q)
  assume "is_num a"
  with Fin have "rnd q = Fin q" by simp
  then have "q \<noteq> 0 \<Longrightarrow> rnd (- q) = Fin (- q)"
    by (cases "q < 0") (auto simp: rnd_def rnd_sg_def zero_of_def inf_of_def Let_def split: if_splits)
  with Fin show ?thesis by simp
qed simp_all

lemma is_num_add [simp]: "is_num a \<Longrightarrow> is_num b \<Longrightarrow> is_num (num_add a b)"
  by (simp add: num_add_def)

lemma is_num_sub [simp]: "is_num a \<Longrightarrow> is_num b \<Longrightarrow> is_num (num_sub a b)"
  by (simp add: num_sub_def is_num_neg)

lemma is_num_mul [simp]: "is_num (num_mul a b)"
  by (simp add: num_mul_def Let_def)

lemma is_num_div [simp]: "is_num (num_div a b)"
  by (simp add: num_div_def Let_def)

lemma is_num_or [simp]: "is_num a \<Longrightarrow> is_num b \<Longrightarrow> is_num (num_or a b)"
  by (simp add: num_or_def)

lemma is_num_max [simp]: "is_num a \<Longrightarrow> is_num b \<Longrightarrow> is_num (num_max a b)"
  by (simp add: num_max_def)

section \<open>Order\<close>

text \<open>Non-negative, and not \<open>NaN\<close>: what a price or a count is.\<close>

definition nonneg :: "jsnum \<Rightarrow> bool" where
  "nonneg a \<longleftrightarrow> a = PInf \<or> (\<exists>q. a = Fin q \<and> 0 \<le> q)"

lemma nonneg_simps [simp]:
  "nonneg PInf" "\<not> nonneg NaN" "\<not> nonneg NInf" "\<not> nonneg NZero" "nonneg (Fin q) \<longleftrightarrow> 0 \<le> q"
  by (simp_all add: nonneg_def)

lemma nonnegE [elim!]:
  "nonneg a \<Longrightarrow> (a = PInf \<Longrightarrow> P) \<Longrightarrow> (\<And>q. a = Fin q \<Longrightarrow> 0 \<le> q \<Longrightarrow> P) \<Longrightarrow> P"
  by (auto simp: nonneg_def)

lemma nonneg_zero_inf [simp]: "nonneg (zero_of False)" "nonneg (inf_of False)"
  by (simp_all add: zero_of_def inf_of_def)

lemma rnd_sg_nonneg [simp]: "nonneg (rnd_sg False a)"
proof (cases "a \<le> 0")
  case False
  then show ?thesis
    using rnd_pos_nonneg [of a] by (simp add: rnd_sg_def zero_of_def inf_of_def Let_def)
qed (simp add: rnd_sg_def zero_of_def)

lemma rnd_nonneg [simp]: "0 \<le> q \<Longrightarrow> nonneg (rnd q)"
  by (simp add: rnd_def)

lemma num_mul_nonneg:
  "nonneg a \<Longrightarrow> nonneg b \<Longrightarrow> num_mul a b \<noteq> NaN \<Longrightarrow> nonneg (num_mul a b)"
  by (auto simp: num_mul_def Let_def split: if_splits)

lemma num_mul_nonneg_fin:
  "nonneg a \<Longrightarrow> nonneg b \<Longrightarrow> is_finite a \<Longrightarrow> is_finite b \<Longrightarrow> nonneg (num_mul a b)"
  by (auto simp: num_mul_def Let_def)

lemma num_add_nonneg: "nonneg a \<Longrightarrow> nonneg b \<Longrightarrow> nonneg (num_add a b)"
  by (auto simp: num_add_def)

lemma num_div_nonneg:
  "nonneg a \<Longrightarrow> is_finite a \<Longrightarrow> 0 < q \<Longrightarrow> nonneg (num_div a (Fin q))"
  by (auto simp: num_div_def Let_def)

text \<open>Rounding keeps order.\<close>

lemma num_le_refl: "a \<noteq> NaN \<Longrightarrow> num_le a a"
  by (simp add: num_le_def num_eq_def)

lemma num_le_Fin [simp]: "num_le (Fin a) (Fin b) \<longleftrightarrow> a \<le> b"
  by (auto simp: num_le_def num_eq_def)

lemma num_le_PInf [simp]: "a \<noteq> NaN \<Longrightarrow> num_le a PInf"
  by (cases a) (auto simp: num_le_def num_eq_def)

lemma nonneg_le: "nonneg a \<Longrightarrow> num_le (Fin 0) a"
  by auto

lemma rnd_sg_mono:
  assumes ab: "0 \<le> a" "a \<le> b"
  shows "num_le (rnd_sg False a) (rnd_sg False b)"
proof (cases "a = 0 \<or> rnd_pos a = 0")
  case True
  then have "rnd_sg False a = Fin 0" by (auto simp: rnd_sg_def zero_of_def)
  then show ?thesis by (simp add: nonneg_le)
next
  case False
  moreover have "0 < rnd_pos a"
    using False rnd_pos_nonneg [OF ab(1)] by (metis order_le_less)
  ultimately have a: "0 < a" "rnd_pos a \<le> rnd_pos b" "0 < rnd_pos a"
    using ab rnd_pos_mono [of a b] by auto
  then have "ilog (rnd_pos a) \<le> ilog (rnd_pos b)" by (intro ilog_mono)
  with a ab show ?thesis
    by (auto simp: rnd_sg_def Let_def inf_of_def zero_of_def)
qed

lemma ilog_less: "0 < q \<Longrightarrow> q < pow2 e \<Longrightarrow> ilog q < e"
  using ilog_bounds(1) [of q] pow2_less_iff [of "ilog q" e] by linarith

text \<open>The integers up to two to the 53, and their quotients by small powers of two, are doubles.\<close>

lemma rnd_of_int: "\<bar>n\<bar> \<le> 2 ^ 53 \<Longrightarrow> rnd (of_int n) = Fin (of_int n)"
proof -
  have less: "ilog (of_int m) < 1024" if "0 < m" "m \<le> 2 ^ 53" for m
  proof -
    have "(of_int m :: rat) \<le> of_int (2 ^ 53)" using that by (simp only: of_int_le_iff)
    also have "\<dots> = pow2 53" by (simp add: pow2_53)
    also have "\<dots> < pow2 1024" by simp
    finally show ?thesis using that by (intro ilog_less) simp_all
  qed
  assume n: "\<bar>n\<bar> \<le> 2 ^ 53"
  consider "n = 0" | "0 < n" | "n < 0" by linarith
  then show ?thesis
  proof cases
    case 2
    with n less [of n] show ?thesis
      by (simp add: rnd_def rnd_sg_def Let_def rnd_pos_of_int)
  next
    case 3
    with n less [of "- n"] rnd_pos_of_int [of "- n"] show ?thesis
      by (simp add: rnd_def rnd_sg_def Let_def)
  qed simp
qed

end
