(* ===== verification/JsNumStr.thy ===== *)
theory JsNumStr
  imports JsNum
begin

text \<open>
  Numbers as text: \<open>Number(s)\<close> and \<open>parseFloat\<close> read decimal literals, \<open>String(x)\<close> prints
  the shortest decimal that reads back as the same double, \<open>x.toFixed(d)\<close> prints a fixed number
  of decimals. Reading back a printed number gives the number.
\<close>

section \<open>Decimal digits\<close>

function dec :: "int \<Rightarrow> jsstr" where
  "dec n = (if n < 10 then [48 + n] else dec (n div 10) @ [48 + n mod 10])"
  by pat_completeness auto
termination
  by (relation "measure nat") auto

declare dec.simps [simp del]

definition undec :: "jsstr \<Rightarrow> int" where
  "undec s = fold (\<lambda>c a. 10 * a + (c - 48)) s 0"

lemma undec_Nil [simp]: "undec [] = 0"
  by (simp add: undec_def)

lemma undec_snoc [simp]: "undec (s @ [c]) = 10 * undec s + (c - 48)"
  by (simp add: undec_def)

lemma undec_append: "undec (s @ t) = undec s * 10 ^ length t + undec t"
proof (induction t rule: rev_induct)
  case (snoc c t)
  have "undec (s @ t @ [c]) = 10 * undec (s @ t) + (c - 48)"
    using undec_snoc [of "s @ t" c] by simp
  with snoc show ?case by (simp add: algebra_simps)
qed simp

lemma undec_single: "undec [c] = c - 48"
  using undec_snoc [of "[]" c] by simp

lemma undec_Cons: "undec (c # s) = (c - 48) * 10 ^ length s + undec s"
  using undec_append [of "[c]" s] by (simp add: undec_single)

lemma undec_zeros [simp]: "undec (replicate k 48) = 0"
  by (induction k) (simp_all add: undec_append undec_single replicate_append_same [symmetric]
    del: replicate_append_same)

lemma undec_dec: "0 \<le> n \<Longrightarrow> undec (dec n) = n"
proof (induction n rule: dec.induct)
  case (1 n)
  then show ?case by (subst dec.simps) (auto simp: undec_single)
qed

lemma dec_nonempty [simp]: "dec n \<noteq> []"
  by (subst dec.simps) simp

lemma dec_digits: "0 \<le> n \<Longrightarrow> list_all is_digit (dec n)"
proof (induction n rule: dec.induct)
  case (1 n)
  have "is_digit (48 + n mod 10)" by (simp add: is_digit_def)
  with 1 show ?case by (subst dec.simps) (auto simp: is_digit_def [of "48 + n"])
qed

lemma dec_bounds: "0 < n \<Longrightarrow> 10 ^ (length (dec n) - 1) \<le> n \<and> n < 10 ^ length (dec n)"
proof (induction n rule: dec.induct)
  case (1 n)
  show ?case
  proof (cases "n < 10")
    case True
    with 1 show ?thesis by (simp add: dec.simps [of n])
  next
    case False
    let ?k = "length (dec (n div 10))"
    from False 1 have IH: "10 ^ (?k - 1) \<le> n div 10" "n div 10 < 10 ^ ?k" by auto
    have "?k \<noteq> 0" by simp
    then have k: "(10::int) ^ ?k = 10 * 10 ^ (?k - 1)"
      by (metis Suc_pred' neq0_conv power_Suc)
    have "10 ^ ?k \<le> n" "n < 10 * 10 ^ ?k" using IH k by linarith+
    with False show ?thesis by (simp add: dec.simps [of n])
  qed
qed

lemma length_dec_le: "0 < n \<Longrightarrow> n < 10 ^ k \<Longrightarrow> length (dec n) \<le> k"
proof (rule ccontr)
  assume n: "0 < n" "n < 10 ^ k" and "\<not> length (dec n) \<le> k"
  then have "k \<le> length (dec n) - 1" by simp
  then have "(10::int) ^ k \<le> 10 ^ (length (dec n) - 1)" by (intro power_increasing) auto
  with dec_bounds [OF n(1)] n(2) show False by linarith
qed

section \<open>Reading numbers\<close>

text \<open>
  An unsigned decimal literal at the front of a string: its value and what follows. Digits with
  an optional point, at least one digit in all, and an optional exponent.
\<close>

definition read_exp :: "jsstr \<Rightarrow> int \<times> jsstr" where
  "read_exp s = (case s of [] \<Rightarrow> (0, s) | e # t \<Rightarrow>
     if e = 101 \<or> e = 69 then
       (let neg = starts_with t [45];
            u = (if starts_with t [45] \<or> starts_with t [43] then tl t else t);
            ds = takeWhile is_digit u
        in if ds = [] then (0, s)
           else (if neg then - undec ds else undec ds, dropWhile is_digit u))
     else (0, s))"

definition read_decimal :: "jsstr \<Rightarrow> (rat \<times> jsstr) option" where
  "read_decimal s =
     (let ip = takeWhile is_digit s;
          r = dropWhile is_digit s;
          fp = (if starts_with r [46] then takeWhile is_digit (tl r) else []);
          r' = (if starts_with r [46] then dropWhile is_digit (tl r) else r);
          (e, t) = read_exp r'
      in if ip = [] \<and> fp = [] then None
         else Some (of_int (undec (ip @ fp)) * pow10 (e - int (length fp)), t))"

text \<open>\<open>Number(s)\<close>: white space around the literal is ignored, the empty string is zero.\<close>

definition digit_val :: "int \<Rightarrow> int" where
  "digit_val c = (if is_digit c then c - 48
     else if 97 \<le> c \<and> c \<le> 122 then c - 87
     else if 65 \<le> c \<and> c \<le> 90 then c - 55 else 36)"

fun undec_base :: "int \<Rightarrow> jsstr \<Rightarrow> int \<Rightarrow> int option" where
  "undec_base b [] a = Some a"
| "undec_base b (c # s) a =
     (if digit_val c < b then undec_base b s (b * a + digit_val c) else None)"

definition read_radix :: "jsstr \<Rightarrow> int option" where
  "read_radix s =
     (case s of
        z # x # d # t \<Rightarrow>
          if z \<noteq> 48 then None
          else if x = 120 \<or> x = 88 then undec_base 16 (d # t) 0
          else if x = 111 \<or> x = 79 then undec_base 8 (d # t) 0
          else if x = 98 \<or> x = 66 then undec_base 2 (d # t) 0
          else None
      | _ \<Rightarrow> None)"

definition read_signed :: "jsstr \<Rightarrow> (jsnum \<times> jsstr) option" where
  "read_signed t =
     (let neg = starts_with t [45];
          u = (if neg \<or> starts_with t [43] then tl t else t)
      in if starts_with u (J ''Infinity'') then Some (inf_of neg, drop 8 u)
         else map_option (\<lambda>(q, r). (rnd_sg neg q, r)) (read_decimal u))"

definition to_number :: "jsstr \<Rightarrow> jsnum" where
  "to_number s =
     (let t = trim s in
      if t = [] then Fin 0
      else case read_radix t of Some n \<Rightarrow> rnd (of_int n)
      | None \<Rightarrow> (case read_signed t of Some (x, []) \<Rightarrow> x | _ \<Rightarrow> NaN))"

text \<open>\<open>parseFloat(s)\<close> reads the longest literal at the front.\<close>

definition parse_float :: "jsstr \<Rightarrow> jsnum" where
  "parse_float s =
     (case read_signed (dropWhile is_ws s) of Some (x, _) \<Rightarrow> x | None \<Rightarrow> NaN)"

section \<open>Printing numbers\<close>

text \<open>The decimal exponent \<open>n\<close> of a positive rational: \<open>10 powi (n - 1) \<le> x < 10 powi n\<close>.\<close>

fun scale_up :: "nat \<Rightarrow> rat \<Rightarrow> int" where
  "scale_up 0 x = 0"
| "scale_up (Suc f) x = (if 1 \<le> x then 0 else 1 + scale_up f (10 * x))"

definition dec_exp :: "rat \<Rightarrow> int" where
  "dec_exp x = (if 1 \<le> x then int (length (dec \<lfloor>x\<rfloor>)) else 1 - scale_up 500 x)"

text \<open>
  The shortest digits: the least \<open>k\<close> for which the nearest \<open>k\<close>-digit decimal rounds to the
  number. The result is the digits as an integer, their count and the decimal exponent.
\<close>

fun shortest :: "nat \<Rightarrow> rat \<Rightarrow> int \<Rightarrow> int \<Rightarrow> int \<times> int \<times> int" where
  "shortest 0 x n k = (rne (x * pow10 (k - n)), k, n)"
| "shortest (Suc f) x n k =
     (let s = rne (x * pow10 (k - n)) in
      if rnd (of_int s * pow10 (n - k)) = Fin x
      then (if s = 10 ^ nat k then (1, 1, n + 1) else (s, k, n))
      else shortest f x n (k + 1))"

definition show_exp :: "int \<Rightarrow> jsstr" where
  "show_exp e = (if e < 0 then J ''e-'' @ dec (- e) else J ''e+'' @ dec e)"

definition show_pos :: "rat \<Rightarrow> jsstr" where
  "show_pos x =
     (let (s, k, n) = shortest 1500 x (dec_exp x) 1; ds = dec s in
      if k \<le> n \<and> n \<le> 21 then ds @ replicate (nat (n - k)) 48
      else if 0 < n \<and> n \<le> 21 then take (nat n) ds @ [46] @ drop (nat n) ds
      else if - 6 < n \<and> n \<le> 0 then [48, 46] @ replicate (nat (- n)) 48 @ ds
      else if k = 1 then ds @ show_exp (n - 1)
      else take 1 ds @ [46] @ drop 1 ds @ show_exp (n - 1))"

fun to_str :: "jsnum \<Rightarrow> jsstr" where
  "to_str NaN = J ''NaN''"
| "to_str PInf = J ''Infinity''"
| "to_str NInf = J ''-Infinity''"
| "to_str NZero = J ''0''"
| "to_str (Fin q) = (if q = 0 then J ''0'' else if q < 0 then [45] @ show_pos (- q) else show_pos q)"

text \<open>\<open>x.toFixed(d)\<close> for \<open>d \<le> 100\<close>; from \<open>1e21\<close> on it is \<open>String(x)\<close>.\<close>

definition fixed_pos :: "nat \<Rightarrow> rat \<Rightarrow> jsstr" where
  "fixed_pos d x =
     (let m = dec \<lfloor>x * 10 ^ d + 1 / 2\<rfloor>;
          p = replicate (Suc d - length m) 48 @ m
      in if d = 0 then m else take (length p - d) p @ [46] @ drop (length p - d) p)"

fun to_fixed :: "nat \<Rightarrow> jsnum \<Rightarrow> jsstr" where
  "to_fixed d (Fin q) =
     (if 10 ^ 21 \<le> \<bar>q\<bar> then to_str (Fin q)
      else if q < 0 then [45] @ fixed_pos d (- q) else fixed_pos d q)"
| "to_fixed d NZero = fixed_pos d 0"
| "to_fixed d a = to_str a"

declare digit_val_def [js_eval] read_exp_def [js_eval] read_decimal_def [js_eval] read_radix_def [js_eval]
  read_signed_def [js_eval] to_number_def [js_eval] parse_float_def [js_eval]
  show_exp_def [js_eval] show_pos_def [js_eval] dec_exp_def [js_eval] fixed_pos_def [js_eval]

section \<open>Reading back what was printed\<close>

lemma takeWhile_all [simp]: "list_all P w \<Longrightarrow> takeWhile P (w @ s) = w @ takeWhile P s"
  by (induction w) auto

lemma dropWhile_all [simp]: "list_all P w \<Longrightarrow> dropWhile P (w @ s) = dropWhile P s"
  by (induction w) auto

lemma takeWhile_all_self [simp]: "list_all P w \<Longrightarrow> takeWhile P w = w"
  using takeWhile_all [of P w "[]"] by simp

lemma dropWhile_all_self [simp]: "list_all P w \<Longrightarrow> dropWhile P w = []"
  using dropWhile_all [of P w "[]"] by simp

lemma starts_with_Nil2 [simp]: "starts_with [] [c] \<longleftrightarrow> False"
  "starts_with (a # s) [c] \<longleftrightarrow> a = c"
  by (auto simp: starts_with_def)

lemma not_digit_consts [simp]:
  "\<not> is_digit 46" "\<not> is_digit 101" "\<not> is_digit 45" "\<not> is_digit 43"
  by (simp_all add: is_digit_def)

lemma digits_hd: "list_all is_digit w \<Longrightarrow> w \<noteq> [] \<Longrightarrow> \<exists>a v. w = a # v \<and> is_digit a"
  by (cases w) auto

lemma read_exp_show_exp [simp]: "read_exp (show_exp e) = (e, [])"
proof -
  have d: "starts_with (dec n) [45] \<longleftrightarrow> False" "starts_with (dec n) [43] \<longleftrightarrow> False"
    if "0 \<le> n" for n
    using digits_hd [OF dec_digits [OF that]] by auto
  show ?thesis by (simp add: read_exp_def show_exp_def dec_digits undec_dec d)
qed

lemma read_exp_Nil [simp]: "read_exp [] = (0, [])"
  by (simp add: read_exp_def)

lemma show_exp_shape: "\<exists>t. show_exp e = 101 # t"
  by (simp add: show_exp_def)

lemma read_decimal_tail:
  assumes "list_all is_digit ip" "ip \<noteq> []" "t = [] \<or> (\<exists>u. t = 101 # u)"
  shows "read_decimal (ip @ t) =
    Some (of_int (undec ip) * pow10 (fst (read_exp t)), snd (read_exp t))"
  using assms by (auto simp: read_decimal_def Let_def case_prod_unfold)

lemma read_decimal_frac_tail:
  assumes "list_all is_digit ip" "list_all is_digit fp" "ip \<noteq> []" "t = [] \<or> (\<exists>u. t = 101 # u)"
  shows "read_decimal (ip @ 46 # fp @ t) =
    Some (of_int (undec (ip @ fp)) * pow10 (fst (read_exp t) - int (length fp)), snd (read_exp t))"
  using assms by (auto simp: read_decimal_def Let_def case_prod_unfold)

lemma rne_bounds:
  assumes "of_int a \<le> x" "x \<le> of_int b"
  shows "a \<le> rne x" "rne x \<le> b"
  using assms by (auto intro: int_le_rne rne_le_int)

text \<open>The decimal exponent is right for every double.\<close>

lemma scale_up_bounds:
  "0 < x \<Longrightarrow> x < 1 \<Longrightarrow> 1 \<le> x * 10 ^ f \<Longrightarrow>
    1 \<le> x * pow10 (scale_up (Suc f) x) \<and> x * pow10 (scale_up (Suc f) x - 1) < 1"
proof (induction f arbitrary: x)
  case 0
  then show ?case by simp
next
  case (Suc f)
  show ?case
  proof (cases "1 \<le> 10 * x")
    case True
    with Suc.prems show ?thesis by (simp add: pow10_def)
  next
    case False
    with Suc.prems Suc.IH [of "10 * x"] have IH:
      "1 \<le> 10 * x * pow10 (scale_up (Suc f) (10 * x))"
      "10 * x * pow10 (scale_up (Suc f) (10 * x) - 1) < 1"
      by (auto simp: algebra_simps)
    have up: "scale_up (Suc (Suc f)) x = 1 + scale_up (Suc f) (10 * x)"
      using Suc.prems by simp
    have p: "pow10 (1 + j) = 10 * pow10 j" "pow10 (1 + j - 1) = 10 * pow10 (j - 1)" for j
      by (simp_all only: pow10_add pow10_diff pow10_1 times_divide_eq_right)
    show ?thesis using IH unfolding up p by (simp only: mult.assoc mult.left_commute [of 10 x] simp_thms)
  qed
qed

lemma small_times_big:
  assumes "pow2 (- 1074) \<le> x" "2 ^ 1074 \<le> b"
  shows "1 \<le> x * b"
proof -
  have "pow2 (- int 1074) * pow2 (int 1074) = pow2 0"
    by (simp only: pow2_add [symmetric] add.left_inverse)
  then have "1 = pow2 (- int 1074) * 2 ^ 1074" by (simp only: pow2_nat pow2_0)
  also have "\<dots> \<le> x * b"
    using assms by (intro mult_mono) (simp_all only: of_nat_numeral pow2_nonneg zero_le_power
      zero_le_numeral order_trans [OF pow2_nonneg(1) assms(1)])
  finally show ?thesis .
qed

lemma big_power: "(2::rat) ^ 1074 \<le> 10 ^ 499"
proof -
  have "(2::rat) ^ 1074 \<le> 2 ^ (10 * 108)" by (intro power_increasing) simp_all
  also have "\<dots> = (2 ^ 10) ^ 108" by (rule power_mult)
  also have "\<dots> \<le> (10 ^ 4) ^ 108" by (intro power_mono) simp_all
  also have "\<dots> \<le> 10 ^ 499" by (simp only: power_mult [symmetric]) (intro power_increasing, simp_all)
  finally show ?thesis .
qed

lemma dec_exp_bounds:
  assumes "pow2 (- 1074) \<le> x"
  shows "pow10 (dec_exp x - 1) \<le> x" "x < pow10 (dec_exp x)"
proof -
  have x: "0 < x" using assms pow2_pos [of "- 1074"] by linarith
  have "pow10 (dec_exp x - 1) \<le> x \<and> x < pow10 (dec_exp x)"
  proof (cases "1 \<le> x")
    case True
    let ?n = "\<lfloor>x\<rfloor>" and ?k = "length (dec \<lfloor>x\<rfloor>)"
    from True have "0 < ?n" by simp
    then have b: "10 ^ (?k - 1) \<le> ?n" "?n < 10 ^ ?k" using dec_bounds by auto
    have k: "?k \<noteq> 0" by simp
    have "pow10 (int ?k - 1) = of_int (10 ^ (?k - 1))"
      using k pow10_nat [of "?k - 1"] by (simp add: of_nat_diff Suc_leI)
    also have "\<dots> \<le> x" using b(1) by (simp only: le_floor_iff [symmetric])
    finally have 1: "pow10 (int ?k - 1) \<le> x" .
    have "x < of_int (10 ^ ?k)" using b(2) by (simp only: floor_less_iff)
    with 1 True show ?thesis by (simp add: dec_exp_def pow10_nat)
  next
    case False
    have "1 \<le> x * 10 ^ 499"
      by (rule small_times_big [OF assms big_power])
    moreover have "Suc 499 = 500" by simp
    ultimately have "1 \<le> x * pow10 (scale_up 500 x)" "x * pow10 (scale_up 500 x - 1) < 1"
      using scale_up_bounds [OF x, of 499] False by (simp_all only: not_le)
    then have "1 / pow10 (scale_up 500 x) \<le> x" "x < 1 / pow10 (scale_up 500 x - 1)"
      by (simp_all add: divide_le_eq less_divide_eq)
    then have "pow10 (- scale_up 500 x) \<le> x" "x < pow10 (- (scale_up 500 x - 1))"
      by (simp_all only: pow10_minus)
    with False show ?thesis by (simp add: dec_exp_def)
  qed
  then show "pow10 (dec_exp x - 1) \<le> x" "x < pow10 (dec_exp x)" by auto
qed

text \<open>The search for the shortest digits succeeds, with as many digits as it says.\<close>

lemma double_multiple:
  assumes "is_num (Fin q)" "0 < q"
  obtains n u where "q = of_int n * pow2 u" "- 1074 \<le> u" "ilog q < 1024" "rnd q = Fin q"
proof -
  from assms have r: "rnd q = Fin q" by simp
  with assms(2) have q: "rnd_pos q = q" and il: "ilog q < 1024"
    by (auto simp: rnd_def rnd_sg_def Let_def zero_of_def inf_of_def split: if_splits)
  from rnd_pos_multiple [of q] obtain n where "q = of_int n * pow2 (ulp_exp q)" by (auto simp: q)
  moreover have "- 1074 \<le> ulp_exp q" by (simp add: ulp_exp_def)
  ultimately show ?thesis using that il r by blast
qed

lemma double_lower:
  assumes "is_num (Fin q)" "0 < q"
  shows "pow2 (- 1074) \<le> q"
proof -
  obtain n u where q: "q = of_int n * pow2 u" "- 1074 \<le> u"
    using double_multiple [OF assms] by metis
  with assms(2) have "0 < n" by (auto simp: zero_less_mult_iff)
  then have "1 * pow2 u \<le> of_int n * pow2 u" by (intro mult_right_mono) simp_all
  with q(1) pow2_mono [OF q(2)] show ?thesis by (metis mult_1 order_trans)
qed

lemma pow2_pow10: "0 \<le> u + j \<Longrightarrow> 0 \<le> j \<Longrightarrow> \<exists>m. pow2 u * pow10 j = of_int m"
proof
  assume *: "0 \<le> u + j" "0 \<le> j"
  have "pow10 j = pow2 j * of_int (5 ^ nat j)"
    using *(2) by (simp add: pow10_def pow2_def power_mult_distrib [symmetric])
  then have "pow2 u * pow10 j = pow2 (u + j) * of_int (5 ^ nat j)"
    by (simp add: pow2_add)
  also have "\<dots> = of_int (2 ^ nat (u + j) * 5 ^ nat j)"
    using *(1) by (simp add: pow2_int)
  finally show "pow2 u * pow10 j = of_int (2 ^ nat (u + j) * 5 ^ nat j)" .
qed

lemma nearest_digits:
  assumes "pow10 (n - 1) \<le> x" "x < pow10 n" "1 \<le> k"
  shows "10 ^ nat (k - 1) \<le> rne (x * pow10 (k - n))" "rne (x * pow10 (k - n)) \<le> 10 ^ nat k"
proof -
  have "pow10 (n - 1) * pow10 (k - n) \<le> x * pow10 (k - n)"
    using assms(1) by (intro mult_right_mono) (simp_all add: less_imp_le)
  moreover have "pow10 (n - 1) * pow10 (k - n) = of_int (10 ^ nat (k - 1))"
    using assms(3) by (simp add: pow10_add [symmetric]) (simp add: pow10_def)
  ultimately show "10 ^ nat (k - 1) \<le> rne (x * pow10 (k - n))" by (metis int_le_rne)
  have "x * pow10 (k - n) \<le> pow10 n * pow10 (k - n)"
    using assms(2) by (intro mult_right_mono) (simp_all add: less_imp_le)
  moreover have "pow10 n * pow10 (k - n) = of_int (10 ^ nat k)"
    using assms(3) by (simp add: pow10_add [symmetric]) (simp add: pow10_def)
  ultimately show "rne (x * pow10 (k - n)) \<le> 10 ^ nat k" by (metis rne_le_int)
qed

lemma pow10_split: "0 \<le> k \<Longrightarrow> 10 ^ nat k * pow10 (n - k) = pow10 n"
  using pow10_add [of k "n - k"] by (simp add: pow10_def [of k])

definition good_digits :: "rat \<Rightarrow> int \<times> int \<times> int \<Rightarrow> bool" where
  "good_digits x r \<longleftrightarrow> (case r of (s, k, n) \<Rightarrow>
     rnd (of_int s * pow10 (n - k)) = Fin x \<and> 1 \<le> k \<and> 10 ^ nat (k - 1) \<le> s \<and> s < 10 ^ nat k)"

lemma shortest_good:
  assumes x: "pow10 (n - 1) \<le> x" "x < pow10 n" "rnd x = Fin x"
    and exact: "\<exists>m. x * pow10 (k + int f - n) = of_int m" and k: "1 \<le> k"
  shows "good_digits x (shortest (Suc f) x n k)"
  using exact k
proof (induction f arbitrary: k)
  case 0
  let ?s = "rne (x * pow10 (k - n))"
  from 0 obtain m where m: "x * pow10 (k - n) = of_int m" by auto
  then have s: "?s = m" by simp
  have "of_int ?s * pow10 (n - k) = x"
    unfolding s m [symmetric] by (simp add: mult.assoc pow10_add [symmetric])
  with x nearest_digits [OF x(1,2) 0(2)] 0(2) show ?case
    by (auto simp: good_digits_def Let_def pow10_split)
next
  case (Suc f)
  let ?s = "rne (x * pow10 (k - n))"
  show ?case
  proof (cases "rnd (of_int ?s * pow10 (n - k)) = Fin x")
    case True
    then show ?thesis
      using nearest_digits [OF x(1,2) Suc.prems(2)] Suc.prems(2)
      by (auto simp: good_digits_def Let_def pow10_split)
  next
    case False
    have "\<exists>m. x * pow10 (k + 1 + int f - n) = of_int m"
      using Suc.prems(1) by (simp add: add.assoc)
    with Suc.IH [of "k + 1"] Suc.prems(2) have "good_digits x (shortest (Suc f) x n (k + 1))"
      by simp
    moreover have "shortest (Suc (Suc f)) x n k = shortest (Suc f) x n (k + 1)"
      using False by (subst shortest.simps(2)) (simp add: Let_def)
    ultimately show ?thesis by simp
  qed
qed

lemma dec_exp_range:
  assumes "pow2 (- 1074) \<le> x" "ilog x < 1024"
  shows "dec_exp x \<le> 400"
proof (rule ccontr)
  assume "\<not> dec_exp x \<le> 400"
  moreover have "0 < x" using assms(1) pow2_pos [of "- 1074"] by linarith
  then have "x < pow2 1024"
    using ilog_bounds(2) [of x] assms(2) pow2_mono [of "ilog x + 1" 1024] by linarith
  moreover have "pow2 1024 \<le> pow10 400"
  proof -
    have "(2::rat) ^ 1024 \<le> 2 ^ (3 * 400)" by (intro power_increasing) simp_all
    also have "\<dots> = (2 ^ 3) ^ 400" by (rule power_mult)
    also have "\<dots> \<le> 10 ^ 400" by (intro power_mono) simp_all
    finally show ?thesis by (simp add: pow2_def pow10_def)
  qed
  moreover have "pow10 400 \<le> pow10 (dec_exp x - 1)" if "400 < dec_exp x"
    unfolding pow10_eq_powi using that by (intro power_int_increasing) simp_all
  ultimately show False using dec_exp_bounds(1) [OF assms(1)] by linarith
qed

lemma shortest_double:
  assumes "is_num (Fin x)" "0 < x"
  shows "good_digits x (shortest 1500 x (dec_exp x) 1)"
proof -
  obtain m u where d: "x = of_int m * pow2 u" "- 1074 \<le> u" "ilog x < 1024" "rnd x = Fin x"
    using double_multiple [OF assms] by metis
  note low = double_lower [OF assms]
  let ?j = "1 + int 1499 - dec_exp x"
  have "1074 \<le> ?j" using dec_exp_range [OF low d(3)] by simp
  then obtain i where "pow2 u * pow10 ?j = of_int i"
    using pow2_pow10 [of u ?j] d(2) by auto
  then have "x * pow10 ?j = of_int (m * i)" unfolding d(1) by (simp add: mult.assoc)
  then have "\<exists>m. x * pow10 ?j = of_int m" by blast
  from shortest_good [OF dec_exp_bounds [OF low] d(4) this]
  have "good_digits x (shortest (Suc 1499) x (dec_exp x) 1)" by simp
  moreover have "Suc 1499 = 1500" by simp
  ultimately show ?thesis by (simp only:)
qed

lemma length_dec_eq:
  assumes "1 \<le> k" "10 ^ nat (k - 1) \<le> s" "s < 10 ^ nat k"
  shows "int (length (dec s)) = k"
proof -
  have "0 < s" using assms(2) by (meson less_le_trans zero_less_numeral zero_less_power)
  then have le: "length (dec s) \<le> nat k" using assms(3) by (rule length_dec_le)
  have "\<not> length (dec s) \<le> nat (k - 1)"
  proof
    assume "length (dec s) \<le> nat (k - 1)"
    then have "(10::int) ^ length (dec s) \<le> 10 ^ nat (k - 1)" by (intro power_increasing) auto
    with dec_bounds [OF \<open>0 < s\<close>] assms(2) show False by linarith
  qed
  with le assms(1) show ?thesis by linarith
qed

text \<open>Every layout of \<open>String(x)\<close> reads back as its digits scaled by the exponent.\<close>

lemma read_digits_layout:
  assumes g: "good_digits x (s, k, n)" and layout: "w =
     (if k \<le> n \<and> n \<le> 21 then dec s @ replicate (nat (n - k)) 48
      else if 0 < n \<and> n \<le> 21 then take (nat n) (dec s) @ [46] @ drop (nat n) (dec s)
      else if - 6 < n \<and> n \<le> 0 then [48, 46] @ replicate (nat (- n)) 48 @ dec s
      else if k = 1 then dec s @ show_exp (n - 1)
      else take 1 (dec s) @ [46] @ drop 1 (dec s) @ show_exp (n - 1))"
  shows "read_decimal w = Some (of_int s * pow10 (n - k), [])"
proof -
  from g have k: "1 \<le> k" and lo: "10 ^ nat (k - 1) \<le> s" and hi: "s < 10 ^ nat k"
    by (auto simp: good_digits_def)
  have len: "int (length (dec s)) = k" by (rule length_dec_eq [OF k lo hi])
  have s: "0 \<le> s" using lo by (meson less_imp_le less_le_trans zero_less_numeral zero_less_power)
  note ds = dec_digits [OF s] undec_dec [OF s]
  have part: "list_all is_digit (take i (dec s))" "list_all is_digit (drop i (dec s))" for i
    using ds(1) by (auto simp: list_all_iff dest: in_set_takeD in_set_dropD)
  have zeros: "list_all is_digit (replicate i 48)" for i by (simp add: list_all_iff is_digit_def)
  have one: "take 1 (dec s) \<noteq> []" by (cases "dec s") (use dec_nonempty [of s] in auto)
  consider (a) "k \<le> n" "n \<le> 21" | (b) "n < k" "0 < n" "n \<le> 21" | (c) "- 6 < n" "n \<le> 0"
    | (d) "n \<le> - 6 \<or> 21 < n" "k = 1" | (e) "n \<le> - 6 \<or> 21 < n" "k \<noteq> 1" using k by linarith
  then show ?thesis
  proof cases
    case a
    have "list_all is_digit (dec s @ replicate (nat (n - k)) 48)" using ds(1) zeros by simp
    moreover have "w = dec s @ replicate (nat (n - k)) 48" using a layout by simp
    ultimately show ?thesis
      using read_decimal_tail [of w "[]"] a ds(2) by (simp add: undec_append pow10_def)
  next
    case b
    then have w: "w = take (nat n) (dec s) @ 46 # drop (nat n) (dec s) @ []" using layout by simp
    have "take (nat n) (dec s) \<noteq> []" using b dec_nonempty [of s] by simp
    from read_decimal_frac_tail [OF part this, of "[]"] w len b ds(2)
    show ?thesis by (simp add: of_nat_diff algebra_simps)
  next
    case c
    then have w: "w = [48] @ 46 # (replicate (nat (- n)) 48 @ dec s) @ []" using layout k by simp
    have "list_all is_digit [48]" by (simp add: is_digit_def)
    moreover have "list_all is_digit (replicate (nat (- n)) 48 @ dec s)" using ds(1) zeros by simp
    ultimately have "read_decimal w =
        Some (of_int (undec ([48] @ replicate (nat (- n)) 48 @ dec s)) *
          pow10 (0 - int (length (replicate (nat (- n)) 48 @ dec s))), [])"
      unfolding w by (subst read_decimal_frac_tail) auto
    moreover have "undec ([48] @ replicate (nat (- n)) 48 @ dec s) = s"
      using ds(2) by (simp add: undec_append undec_Cons)
    ultimately show ?thesis using c len by (simp add: algebra_simps)
  next
    case d
    then have w: "w = dec s @ show_exp (n - 1)" using layout k by auto
    show ?thesis unfolding w
      using d ds by (subst read_decimal_tail) (auto simp: show_exp_shape)
  next
    case e
    then have w: "w = take 1 (dec s) @ 46 # drop 1 (dec s) @ show_exp (n - 1)"
      using layout k by auto
    show ?thesis unfolding w
      using e ds part one len k
      by (subst read_decimal_frac_tail) (auto simp: show_exp_shape of_nat_diff algebra_simps)
  qed
qed

text \<open>The printed form of a positive number: digits, a point, an exponent, no white space.\<close>

definition num_char :: "int \<Rightarrow> bool" where
  "num_char c \<longleftrightarrow> is_digit c \<or> c = 46 \<or> c = 101 \<or> c = 43 \<or> c = 45"

lemma num_char_not_ws: "num_char c \<Longrightarrow> \<not> is_ws c"
  by (auto simp: num_char_def is_digit_def is_ws_def)

lemma show_exp_chars: "list_all num_char (show_exp e)"
  using dec_digits [of e] dec_digits [of "- e"]
  by (auto simp: show_exp_def num_char_def list_all_iff)

lemma show_pos_digits:
  assumes "is_num (Fin x)" "0 < x"
  shows "\<exists>q. read_decimal (show_pos x) = Some (q, []) \<and> rnd q = Fin x"
    and "\<exists>d t. show_pos x = d # t \<and> is_digit d \<and> list_all num_char t \<and>
           (t = [] \<or> is_digit (hd t) \<or> hd t = 46 \<or> hd t = 101)"
proof -
  obtain s k n where skn: "shortest 1500 x (dec_exp x) 1 = (s, k, n)" by (metis prod_cases3)
  with shortest_double [OF assms] have g: "good_digits x (s, k, n)" by simp
  have "read_decimal (show_pos x) = Some (of_int s * pow10 (n - k), [])"
    by (rule read_digits_layout [OF g]) (simp add: show_pos_def skn Let_def)
  moreover have "rnd (of_int s * pow10 (n - k)) = Fin x" using g by (simp add: good_digits_def)
  ultimately show "\<exists>q. read_decimal (show_pos x) = Some (q, []) \<and> rnd q = Fin x" by blast
  from g have "10 ^ nat (k - 1) \<le> s" by (simp add: good_digits_def)
  then have "0 < s" by (meson less_le_trans zero_less_numeral zero_less_power)
  then obtain d ds where ds: "dec s = d # ds" "is_digit d" "list_all is_digit ds"
    using digits_hd [OF dec_digits [of s] dec_nonempty] dec_digits [of s] by auto
  then have nc: "list_all num_char ds" "list_all num_char (take i ds)" "list_all num_char (drop i ds)"
    "list_all num_char (dec s)" for i
    by (auto simp: num_char_def list_all_iff dest: in_set_takeD in_set_dropD)
  have z: "list_all num_char (replicate i 48)" for i
    by (simp add: list_all_iff num_char_def is_digit_def)
  have c: "num_char 46" "is_digit 48" "num_char 48" by (simp_all add: num_char_def is_digit_def)
  obtain e where e: "show_exp (n - 1) = 101 # e" using show_exp_shape by blast
  have ec: "list_all num_char (101 # e)" using show_exp_chars [of "n - 1"] e by simp
  have dig: "ds = [] \<or> is_digit (hd ds)" using ds(3) by (cases ds) simp_all
  let ?ok = "\<lambda>w. \<exists>d t. w = d # t \<and> is_digit d \<and> list_all num_char t \<and>
           (t = [] \<or> is_digit (hd t) \<or> hd t = 46 \<or> hd t = 101)"
  have "?ok (dec s @ replicate i 48)" for i
    using ds nc z c dig by (cases i) (auto simp: hd_append)
  moreover have "?ok (take (nat n) (dec s) @ [46] @ drop (nat n) (dec s))" if n: "0 < n"
  proof -
    obtain i where i: "nat n = Suc i" using n by (metis gr0_implies_Suc zero_less_nat_eq)
    have "take i ds = [] \<or> is_digit (hd (take i ds))" using dig by (cases i) auto
    with i ds nc c show ?thesis by (auto simp: hd_append)
  qed
  moreover have "?ok ([48, 46] @ replicate i 48 @ dec s)" for i using nc z c by simp
  moreover have "?ok (dec s @ show_exp (n - 1))" using ds nc e ec dig by (auto simp: hd_append)
  moreover have "?ok (take 1 (dec s) @ [46] @ drop 1 (dec s) @ show_exp (n - 1))"
    using ds nc e ec c by auto
  ultimately show "?ok (show_pos x)" by (simp add: show_pos_def skn Let_def)
qed

lemma rnd_nonneg_arg: "rnd q = Fin x \<Longrightarrow> 0 < x \<Longrightarrow> 0 < q"
proof (rule ccontr)
  assume *: "rnd q = Fin x" "0 < x" "\<not> 0 < q"
  then have "\<not> rnd_pos (- q) < 0" by (simp add: not_less)
  with * show False
    by (auto simp: rnd_def rnd_sg_def zero_of_def inf_of_def Let_def split: if_splits)
qed

lemma rnd_sg_neg:
  assumes "rnd q = Fin x" "0 < x"
  shows "rnd_sg neg q = Fin (if neg then - x else x)"
  using assms rnd_nonneg_arg [OF assms]
  by (auto simp: rnd_def rnd_sg_def zero_of_def inf_of_def Let_def split: if_splits)

lemma trim_num_chars: "list_all num_char s \<Longrightarrow> trim s = s"
  by (cases "s = []")
    (auto intro!: trim_trimmed trimmedI simp: list_all_iff num_char_not_ws)

text \<open>\<open>Number(String(x)) = x\<close> for every finite number; the sign of zero is lost.\<close>

lemma to_number_to_str:
  assumes "is_num (Fin x)"
  shows "to_number (to_str (Fin x)) = Fin x"
proof -
  consider "x = 0" | "0 < x" | "x < 0" by linarith
  then show ?thesis
  proof cases
    case 1
    then show ?thesis by (simp add: js_eval zero_of_def undec_single)
  next
    case 2
    obtain q where q: "read_decimal (show_pos x) = Some (q, [])" "rnd q = Fin x"
      using show_pos_digits(1) [OF assms 2] by blast
    obtain d t where d: "show_pos x = d # t" "is_digit d" "list_all num_char t"
      "t = [] \<or> is_digit (hd t) \<or> hd t = 46 \<or> hd t = 101"
      using show_pos_digits(2) [OF assms 2] by blast
    have tr: "trim (d # t) = d # t" using d by (intro trim_num_chars) (simp add: num_char_def)
    have "read_radix (d # t) = None"
      using d(4) by (auto simp: read_radix_def is_digit_def split: list.splits)
    moreover have "read_signed (d # t) = Some (Fin x, [])"
      using q d(1,2) rnd_sg_neg [OF q(2) 2, of False]
      by (auto simp: read_signed_def starts_with_def is_digit_def)
    ultimately show ?thesis using 2 d(1) tr by (simp add: to_number_def)
  next
    case 3
    have m: "is_num (Fin (- x))" using is_num_neg [OF assms] 3 by simp
    have p: "0 < - x" using 3 by simp
    obtain q where q: "read_decimal (show_pos (- x)) = Some (q, [])" "rnd q = Fin (- x)"
      using show_pos_digits(1) [OF m p] by blast
    obtain d t where d: "show_pos (- x) = d # t" "is_digit d" "list_all num_char t"
      using show_pos_digits(2) [OF m p] by blast
    have tr: "trim (45 # d # t) = 45 # d # t"
      using d by (intro trim_num_chars) (simp add: num_char_def)
    have "read_radix (45 # d # t) = None" by (simp add: read_radix_def split: list.splits)
    moreover have "read_signed (45 # d # t) = Some (Fin x, [])"
      using q d(1,2) rnd_sg_neg [OF q(2) p, of True]
      by (auto simp: read_signed_def starts_with_def is_digit_def)
    ultimately show ?thesis using 3 d(1) tr by (simp add: to_number_def)
  qed
qed

end
