(* ===== verification/JsJson.thy ===== *)
theory JsJson
  imports JsNumStr
begin

text \<open>
  JSON: string literals written by \<open>JSON.stringify\<close> and read by \<open>JSON.parse\<close>, the values
  \<open>JSON.parse\<close> builds, and \<open>String(v)\<close> of such a value. A string literal that was written
  reads back as the string, whatever follows it; the parser's fuel, twice the length of the
  input, is always enough.
\<close>

section \<open>String literals\<close>

definition utf16 :: "jsstr \<Rightarrow> bool" where
  "utf16 s \<longleftrightarrow> list_all (\<lambda>c. 0 \<le> c \<and> c < 65536) s"

definition hex_digit :: "int \<Rightarrow> int" where
  "hex_digit n = (if n < 10 then 48 + n else 87 + n)"

definition u_escape :: "int \<Rightarrow> jsstr" where
  "u_escape c = [92, 117, hex_digit (c div 4096), hex_digit (c div 256 mod 16),
     hex_digit (c div 16 mod 16), hex_digit (c mod 16)]"

definition is_high :: "int \<Rightarrow> bool" where
  "is_high c \<longleftrightarrow> 0xD800 \<le> c \<and> c \<le> 0xDBFF"

definition is_low :: "int \<Rightarrow> bool" where
  "is_low c \<longleftrightarrow> 0xDC00 \<le> c \<and> c \<le> 0xDFFF"

definition esc_unit :: "int \<Rightarrow> jsstr" where
  "esc_unit c =
     (if c = 8 then [92, 98] else if c = 9 then [92, 116] else if c = 10 then [92, 110]
      else if c = 12 then [92, 102] else if c = 13 then [92, 114]
      else if c = 34 then [92, 34] else if c = 92 then [92, 92]
      else if c < 32 then u_escape c else [c])"

text \<open>A lone surrogate is escaped, a pair is kept.\<close>

fun json_body :: "jsstr \<Rightarrow> jsstr" where
  "json_body [] = []"
| "json_body [c] = (if is_high c \<or> is_low c then u_escape c else esc_unit c)"
| "json_body (c # d # s) =
     (if is_high c \<and> is_low d then c # d # json_body s
      else (if is_high c \<or> is_low c then u_escape c else esc_unit c) @ json_body (d # s))"

definition json_quote :: "jsstr \<Rightarrow> jsstr" where
  "json_quote s = [34] @ json_body s @ [34]"

definition hex_val :: "int \<Rightarrow> int option" where
  "hex_val c = (if digit_val c < 16 \<and> (is_digit c \<or> 65 \<le> c) then Some (digit_val c) else None)"

definition simple_escape :: "int \<Rightarrow> int option" where
  "simple_escape e =
     (if e = 34 \<or> e = 92 \<or> e = 47 then Some e
      else if e = 98 then Some 8 else if e = 116 then Some 9 else if e = 110 then Some 10
      else if e = 102 then Some 12 else if e = 114 then Some 13 else None)"

text \<open>The literal after its opening quote: the string and what follows the closing quote.\<close>

fun read_body :: "jsstr \<Rightarrow> (jsstr \<times> jsstr) option" where
  "read_body [] = None"
| "read_body (c # s) =
     (if c = 34 then Some ([], s)
      else if c < 32 then None
      else if c \<noteq> 92 then map_option (\<lambda>(w, r). (c # w, r)) (read_body s)
      else (case s of
          [] \<Rightarrow> None
        | e # t \<Rightarrow>
            if e = 117 then
              (case t of
                 a # b # x # y # u \<Rightarrow>
                   (case (hex_val a, hex_val b, hex_val x, hex_val y) of
                      (Some a', Some b', Some x', Some y') \<Rightarrow>
                        map_option (\<lambda>(w, r). ((4096 * a' + 256 * b' + 16 * x' + y') # w, r))
                          (read_body u)
                    | _ \<Rightarrow> None)
               | _ \<Rightarrow> None)
            else (case simple_escape e of
                None \<Rightarrow> None
              | Some k \<Rightarrow> map_option (\<lambda>(w, r). (k # w, r)) (read_body t))))"

declare hex_digit_def [js_eval] u_escape_def [js_eval] is_high_def [js_eval] is_low_def [js_eval]
  esc_unit_def [js_eval] json_quote_def [js_eval] hex_val_def [js_eval] simple_escape_def [js_eval]

lemma hex_val_digit: "0 \<le> n \<Longrightarrow> n < 16 \<Longrightarrow> hex_val (hex_digit n) = Some n"
  by (auto simp: hex_val_def hex_digit_def digit_val_def is_digit_def)

lemma read_hex_escape:
  assumes "hex_val a = Some a'" "hex_val b = Some b'" "hex_val x = Some x'" "hex_val y = Some y'"
  shows "read_body ([92, 117, a, b, x, y] @ s) =
    map_option (\<lambda>(w, r). ((4096 * a' + 256 * b' + 16 * x' + y') # w, r)) (read_body s)"
  using assms by simp

lemma nibbles: "(4096::int) * (c div 4096) + 256 * (c div 256 mod 16) + 16 * (c div 16 mod 16) + c mod 16 = c"
proof -
  have 1: "c div 256 = c div 16 div 16" and 2: "c div 4096 = c div 256 div 16"
    using zdiv_zmult2_eq [of 16 c 16] zdiv_zmult2_eq [of 16 c 256] by simp_all
  have "16 * (c div 16) + c mod 16 = c" "16 * (c div 16 div 16) + c div 16 mod 16 = c div 16"
    "16 * (c div 256 div 16) + c div 256 mod 16 = c div 256" by (simp_all only: mult_div_mod_eq)
  then show ?thesis unfolding 2 unfolding 1 by linarith
qed

lemma read_u_escape:
  assumes "0 \<le> c" "c < 65536"
  shows "read_body (u_escape c @ s) = map_option (\<lambda>(w, r). (c # w, r)) (read_body s)"
proof -
  have "hex_val (hex_digit (c div 4096)) = Some (c div 4096)"
    using assms by (intro hex_val_digit) (simp_all add: div_less_iff_less_mult pos_imp_zdiv_nonneg_iff)
  moreover have "hex_val (hex_digit (n mod 16)) = Some (n mod 16)" for n
    by (rule hex_val_digit) simp_all
  ultimately show ?thesis
    unfolding u_escape_def by (subst read_hex_escape) (assumption | simp only: nibbles)+
qed

lemma read_esc_unit:
  assumes "0 \<le> c" "c < 65536"
  shows "read_body (esc_unit c @ s) = map_option (\<lambda>(w, r). (c # w, r)) (read_body s)"
proof -
  consider "c = 8" | "c = 9" | "c = 10" | "c = 12" | "c = 13" | "c = 34" | "c = 92"
    | "c \<notin> {8, 9, 10, 12, 13, 34, 92}" "c < 32" | "c \<notin> {34, 92}" "\<not> c < 32" by blast
  then show ?thesis
  proof cases
    case 8
    then have "esc_unit c = u_escape c" by (simp add: esc_unit_def)
    with read_u_escape [OF assms] show ?thesis by simp
  qed (simp_all add: esc_unit_def simple_escape_def)
qed

definition quote_unit :: "int \<Rightarrow> jsstr" where
  "quote_unit c = (if is_high c \<or> is_low c then u_escape c else esc_unit c)"

lemma read_quote_unit:
  "0 \<le> c \<Longrightarrow> c < 65536 \<Longrightarrow>
    read_body (quote_unit c @ s) = map_option (\<lambda>(w, r). (c # w, r)) (read_body s)"
  by (simp add: quote_unit_def read_u_escape read_esc_unit)

lemma utf16_Cons [simp]: "utf16 (c # s) \<longleftrightarrow> 0 \<le> c \<and> c < 65536 \<and> utf16 s" "utf16 []"
  by (auto simp: utf16_def)

lemma utf16_append [simp]: "utf16 (s @ t) \<longleftrightarrow> utf16 s \<and> utf16 t"
  by (simp add: utf16_def)

lemma is_high_bounds: "is_high c \<Longrightarrow> \<not> c < 32 \<and> c \<noteq> 34 \<and> c \<noteq> 92"
  "is_low c \<Longrightarrow> \<not> c < 32 \<and> c \<noteq> 34 \<and> c \<noteq> 92"
  by (auto simp: is_high_def is_low_def)

lemma json_body_units:
  "json_body [c] = quote_unit c"
  "\<not> (is_high c \<and> is_low d) \<Longrightarrow> json_body (c # d # s) = quote_unit c @ json_body (d # s)"
  by (auto simp: quote_unit_def)

lemma read_json_body: "utf16 s \<Longrightarrow> read_body (json_body s @ 34 # r) = Some (s, r)"
proof (induction s rule: json_body.induct)
  case (2 c)
  then show ?case unfolding json_body_units by (subst read_quote_unit) simp_all
next
  case (3 c d s)
  show ?case
  proof (cases "is_high c \<and> is_low d")
    case True
    with 3 show ?thesis by (simp add: is_high_bounds)
  next
    case False
    then show ?thesis
      using 3 unfolding json_body_units(2) [OF False] append_assoc
      by (subst read_quote_unit) simp_all
  qed
qed simp

text \<open>A literal is the opening quote, units that are not quotes or are escaped, and the closing quote.\<close>

lemma json_quote_shape: "json_quote s = 34 # json_body s @ [34]"
  by (simp add: json_quote_def)

section \<open>Values\<close>

datatype json =
    JNull
  | JBool bool
  | JNum jsnum
  | JStr jsstr
  | JArr "json list"
  | JObj "(jsstr \<times> json) list"

text \<open>Setting a property keeps the place of a key that is already there.\<close>

fun obj_put :: "jsstr \<Rightarrow> 'a \<Rightarrow> (jsstr \<times> 'a) list \<Rightarrow> (jsstr \<times> 'a) list" where
  "obj_put k v [] = [(k, v)]"
| "obj_put k v ((k', v') # m) = (if k = k' then (k, v) # m else (k', v') # obj_put k v m)"

lemma map_of_obj_put: "map_of (obj_put k v m) = (map_of m)(k \<mapsto> v)"
  by (induction m) auto

lemma set_keys_obj_put: "fst ` set (obj_put k v m) = insert k (fst ` set m)"
proof (induction m)
  case (Cons x m)
  then show ?case by (cases x) auto
qed simp

lemma distinct_obj_put: "distinct (map fst m) \<Longrightarrow> distinct (map fst (obj_put k v m))"
proof (induction m)
  case (Cons x m)
  then show ?case by (cases x) (auto simp: set_keys_obj_put)
qed simp

text \<open>\<open>String(v)\<close>: arrays join their elements with commas, \<open>null\<close> inside them prints as nothing.\<close>

fun js_string :: "json \<Rightarrow> jsstr" where
  "js_string JNull = J ''null''"
| "js_string (JBool b) = (if b then J ''true'' else J ''false'')"
| "js_string (JNum x) = to_str x"
| "js_string (JStr s) = s"
| "js_string (JArr xs) = join [44] (map (\<lambda>x. if x = JNull then [] else js_string x) xs)"
| "js_string (JObj m) = J ''[object Object]''"

section \<open>The parser\<close>

definition json_ws :: "int \<Rightarrow> bool" where
  "json_ws c \<longleftrightarrow> c = 32 \<or> c = 9 \<or> c = 10 \<or> c = 13"

definition skip_ws :: "jsstr \<Rightarrow> jsstr" where
  "skip_ws s = dropWhile json_ws s"

definition json_number :: "jsstr \<Rightarrow> (jsnum \<times> jsstr) option" where
  "json_number s =
     (let neg = starts_with s [45];
          u = (if neg then tl s else s);
          ip = (if starts_with u [48] then [48] else takeWhile is_digit u);
          r = drop (length ip) u;
          fp = (if starts_with r [46] then takeWhile is_digit (tl r) else []);
          r' = drop (if fp = [] then 0 else Suc (length fp)) r;
          (e, t) = read_exp r'
      in if ip = [] then None
         else Some (rnd_sg neg (of_int (undec (ip @ fp)) * pow10 (e - int (length fp))), t))"

fun json_value :: "nat \<Rightarrow> jsstr \<Rightarrow> (json \<times> jsstr) option"
and json_elems :: "nat \<Rightarrow> jsstr \<Rightarrow> (json list \<times> jsstr) option"
and json_members :: "nat \<Rightarrow> (jsstr \<times> json) list \<Rightarrow> jsstr \<Rightarrow> (json \<times> jsstr) option" where
  "json_value 0 s = None"
| "json_value (Suc f) s =
     (case skip_ws s of
        [] \<Rightarrow> None
      | c # r \<Rightarrow>
          if c = 34 then map_option (\<lambda>(w, t). (JStr w, t)) (read_body r)
          else if c = 91 then
            (if starts_with (skip_ws r) [93] then Some (JArr [], tl (skip_ws r))
             else map_option (\<lambda>(xs, t). (JArr xs, t)) (json_elems f r))
          else if c = 123 then
            (if starts_with (skip_ws r) [125] then Some (JObj [], tl (skip_ws r))
             else json_members f [] r)
          else if starts_with (c # r) (J ''true'') then Some (JBool True, drop 3 r)
          else if starts_with (c # r) (J ''false'') then Some (JBool False, drop 4 r)
          else if starts_with (c # r) (J ''null'') then Some (JNull, drop 3 r)
          else map_option (\<lambda>(x, t). (JNum x, t)) (json_number (c # r)))"
| "json_elems 0 s = None"
| "json_elems (Suc f) s =
     (case json_value f s of
        None \<Rightarrow> None
      | Some (x, r) \<Rightarrow>
          (case skip_ws r of
             [] \<Rightarrow> None
           | c # t \<Rightarrow>
               if c = 44 then map_option (\<lambda>(xs, u). (x # xs, u)) (json_elems f t)
               else if c = 93 then Some ([x], t) else None))"
| "json_members 0 m s = None"
| "json_members (Suc f) m s =
     (case skip_ws s of
        [] \<Rightarrow> None
      | q # r \<Rightarrow>
          if q \<noteq> 34 then None
          else (case read_body r of
              None \<Rightarrow> None
            | Some (k, t) \<Rightarrow>
                (case skip_ws t of
                   [] \<Rightarrow> None
                 | d # u \<Rightarrow>
                     if d \<noteq> 58 then None
                     else (case json_value f u of
                         None \<Rightarrow> None
                       | Some (v, w) \<Rightarrow>
                           (case skip_ws w of
                              [] \<Rightarrow> None
                            | c # z \<Rightarrow>
                                if c = 44 then json_members f (obj_put k v m) z
                                else if c = 125 then Some (JObj (obj_put k v m), z)
                                else None)))))"

definition json_parse :: "jsstr \<Rightarrow> json js" where
  "json_parse s =
     (case json_value (2 * length s + 2) s of
        Some (v, r) \<Rightarrow> (if skip_ws r = [] then Inr v else Inl SyntaxError)
      | None \<Rightarrow> Inl SyntaxError)"

declare json_ws_def [js_eval] skip_ws_def [js_eval] json_number_def [js_eval]
  json_parse_def [js_eval]

lemma skip_ws_quote [simp]: "skip_ws (34 # s) = 34 # s"
  by (simp add: skip_ws_def json_ws_def)

lemma skip_ws_Nil [simp]: "skip_ws [] = []"
  by (simp add: skip_ws_def)

text \<open>\<open>JSON.parse(JSON.stringify(s)) = s\<close>.\<close>

lemma json_parse_quote [simp]: "utf16 s \<Longrightarrow> json_parse (json_quote s) = Inr (JStr s)"
  using read_json_body [of s "[]"] by (simp add: json_parse_def json_quote_shape)

end
