(* ===== verification/ExprScan.thy ===== *)
theory ExprScan
  imports JsRegex JsJson
begin

text \<open>
  The scanners of \<open>features/pricing/lib/billing-expr.ts\<close> that count parentheses:
  \<open>hasFullOuterParens\<close>, \<open>unwrapOuterParens\<close>, \<open>splitTopLevelMultiply\<close> and
  \<open>splitTopLevelAnd\<close>. The loops over an index are recursions over the rest of the string.

  \<open>balanced\<close> is the specification of a well-parenthesised string; the lemmas say that the first
  function recognises exactly a balanced string in parentheses, and that the splitters undo the
  joining of parts in which the operator does not occur outside parentheses.
\<close>

section \<open>Nesting depth\<close>

definition paren :: "int \<Rightarrow> int" where
  "paren c = (if c = 40 then 1 else if c = 41 then - 1 else 0)"

lemma paren_simps [simp]: "paren 40 = 1" "paren 41 = - 1" "c \<noteq> 40 \<Longrightarrow> c \<noteq> 41 \<Longrightarrow> paren c = 0"
  by (simp_all add: paren_def)

fun depth :: "jsstr \<Rightarrow> int" where
  "depth [] = 0"
| "depth (c # s) = paren c + depth s"

lemma depth_append [simp]: "depth (s @ t) = depth s + depth t"
  by (induction s) auto

text \<open>From depth \<open>d\<close> the string never goes below zero and ends at depth zero.\<close>

fun bal :: "int \<Rightarrow> jsstr \<Rightarrow> bool" where
  "bal d [] \<longleftrightarrow> d = 0"
| "bal d (c # s) \<longleftrightarrow> 0 \<le> d + paren c \<and> bal (d + paren c) s"

abbreviation balanced :: "jsstr \<Rightarrow> bool" where
  "balanced \<equiv> bal 0"

lemma bal_append: "bal 0 t \<Longrightarrow> bal d s \<Longrightarrow> bal d (s @ t)"
  by (induction s arbitrary: d) auto

lemma bal_append_depth: "bal d s \<Longrightarrow> bal e t \<Longrightarrow> bal (d + e) (s @ t) \<or> e < 0"
proof (induction s arbitrary: d)
  case Nil
  then show ?case by simp
next
  case (Cons c s)
  then have "bal (d + paren c + e) (s @ t) \<or> e < 0" by simp
  with Cons.prems(1) show ?case by (auto simp: algebra_simps)
qed

lemma bal_depth: "bal d s \<Longrightarrow> depth s = - d"
  by (induction s arbitrary: d) fastforce+

definition no_parens :: "jsstr \<Rightarrow> bool" where
  "no_parens s \<longleftrightarrow> list_all (\<lambda>c. c \<noteq> 40 \<and> c \<noteq> 41) s"

lemma no_parens_simps [simp]:
  "no_parens []" "no_parens (c # s) \<longleftrightarrow> c \<noteq> 40 \<and> c \<noteq> 41 \<and> no_parens s"
  "no_parens (s @ t) \<longleftrightarrow> no_parens s \<and> no_parens t"
  by (auto simp: no_parens_def)

lemma bal_no_parens: "no_parens s \<Longrightarrow> 0 \<le> d \<Longrightarrow> bal d (s @ t) \<longleftrightarrow> bal d t"
  by (induction s) auto

lemma balanced_no_parens: "no_parens s \<Longrightarrow> balanced s"
  using bal_no_parens [of s 0 "[]"] by simp

lemma balanced_parens: "balanced s \<Longrightarrow> balanced ([40] @ s @ [41])"
  using bal_append_depth [of 0 s 1 "[41]"] by auto

section \<open>Outer parentheses\<close>

fun full_parens_loop :: "jsstr \<Rightarrow> int \<Rightarrow> bool" where
  "full_parens_loop [] d \<longleftrightarrow> d = 0"
| "full_parens_loop (c # r) d \<longleftrightarrow>
     (let d' = d + paren c in if d' = 0 \<and> r \<noteq> [] then False else full_parens_loop r d')"

definition hasFullOuterParens :: "jsstr \<Rightarrow> bool" where
  "hasFullOuterParens expr \<longleftrightarrow>
     starts_with expr (J ''('') \<and> ends_with expr (J '')'') \<and> full_parens_loop expr 0"

lemma full_parens_loop_snoc:
  "0 < d \<Longrightarrow> full_parens_loop (s @ [41]) d \<longleftrightarrow> bal (d - 1) s"
proof (induction s arbitrary: d)
  case Nil
  then show ?case by (auto simp: Let_def)
next
  case (Cons c s)
  have "- 1 \<le> paren c" by (simp add: paren_def)
  with Cons.prems consider "d + paren c = 0" | "0 < d + paren c" by linarith
  then show ?case
  proof cases
    case 1
    with Cons.prems show ?thesis by (simp add: Let_def)
  next
    case 2
    with Cons.IH [OF 2] show ?thesis by (simp add: Let_def algebra_simps)
  qed
qed

lemma hasFullOuterParens_iff:
  "hasFullOuterParens s \<longleftrightarrow> (\<exists>x. s = [40] @ x @ [41] \<and> balanced x)"
proof
  assume h: "hasFullOuterParens s"
  then obtain r where r: "s = r @ [41]" "starts_with s [40]"
    by (auto simp: hasFullOuterParens_def ends_with_iff)
  then obtain x where "s = 40 # x @ [41]" by (cases r) auto
  with h show "\<exists>x. s = [40] @ x @ [41] \<and> balanced x"
    by (auto simp: hasFullOuterParens_def full_parens_loop_snoc Let_def)
next
  assume "\<exists>x. s = [40] @ x @ [41] \<and> balanced x"
  then show "hasFullOuterParens s"
    by (auto simp: hasFullOuterParens_def ends_with_iff starts_with_def full_parens_loop_snoc Let_def)
qed

lemma full_parens_shrink:
  "hasFullOuterParens s \<Longrightarrow> length (trim (js_slice s 1 (- 1))) < length s"
  using length_trim [of "js_slice s 1 (- 1)"]
  by (auto simp: hasFullOuterParens_iff slice_ends butlast_append)

function unwrap_loop :: "jsstr \<Rightarrow> jsstr" where
  "unwrap_loop s =
     (if hasFullOuterParens s then unwrap_loop (trim (js_slice s 1 (- 1))) else s)"
  by pat_completeness auto
termination
  by (relation "measure length") (auto simp: full_parens_shrink)

declare unwrap_loop.simps [simp del]

definition unwrapOuterParens :: "jsstr \<Rightarrow> jsstr" where
  "unwrapOuterParens expr = unwrap_loop (trim expr)"

lemma unwrap_loop_not_full: "\<not> hasFullOuterParens (unwrap_loop s)"
  by (induction s rule: unwrap_loop.induct) (subst unwrap_loop.simps, simp)

lemma unwrap_loop_trimmed: "trimmed s \<Longrightarrow> trimmed (unwrap_loop s)"
  by (induction s rule: unwrap_loop.induct) (subst unwrap_loop.simps, simp)

lemma unwrap_loop_id: "\<not> hasFullOuterParens s \<Longrightarrow> unwrap_loop s = s"
  by (subst unwrap_loop.simps) simp

text \<open>A string inside parentheses and white space: what unwrapping takes off.\<close>

inductive wrapped :: "jsstr \<Rightarrow> jsstr \<Rightarrow> bool" for e where
  wrapped_self: "wrapped e e"
| wrapped_parens: "wrapped e s \<Longrightarrow> balanced s \<Longrightarrow> wrapped e ([40] @ s @ [41])"
| wrapped_space: "wrapped e (trim s) \<Longrightarrow> wrapped e s"

lemma bal_ws: "list_all is_ws s \<Longrightarrow> no_parens s"
  by (auto simp: no_parens_def list_all_iff is_ws_def)

lemma trim_decompose: "\<exists>u v. s = u @ trim s @ v \<and> list_all is_ws u \<and> list_all is_ws v"
proof -
  let ?a = "dropWhile is_ws s"
  have "s = takeWhile is_ws s @ ?a" by simp
  moreover have "?a = rev (dropWhile is_ws (rev ?a)) @ rev (takeWhile is_ws (rev ?a))"
    by (metis rev_append rev_rev_ident takeWhile_dropWhile_id)
  ultimately have "s = takeWhile is_ws s @ trim s @ rev (takeWhile is_ws (rev ?a))"
    unfolding trim_def by metis
  moreover have "list_all is_ws (takeWhile is_ws s)" "list_all is_ws (rev (takeWhile is_ws (rev ?a)))"
    by (auto simp: list_all_iff dest: set_takeWhileD)
  ultimately show ?thesis by blast
qed

lemma unwrap_loop_wraps: "wrapped (unwrap_loop s) s"
proof (induction s rule: unwrap_loop.induct)
  case (1 s)
  show ?case
  proof (cases "hasFullOuterParens s")
    case True
    then obtain x where x: "s = [40] @ x @ [41]" "balanced x"
      by (auto simp: hasFullOuterParens_iff)
    then have sl: "js_slice s 1 (- 1) = x" by (simp add: slice_ends butlast_append)
    with 1 True have "wrapped (unwrap_loop (trim x)) (trim x)" by simp
    then have "wrapped (unwrap_loop (trim x)) x" by (rule wrapped_space)
    with x have "wrapped (unwrap_loop (trim x)) s"
      by (simp only:) (rule wrapped_parens)
    moreover have "unwrap_loop s = unwrap_loop (trim x)"
      using True sl by (subst unwrap_loop.simps) simp
    ultimately show ?thesis by simp
  next
    case False
    then show ?thesis by (simp add: unwrap_loop_id wrapped_self)
  qed
qed

section \<open>Splitting at an operator outside parentheses\<close>

text \<open>
  The raw segments of the loop, with \<open>cur\<close> the segment read so far. The two source functions
  differ in the operator only; both trim the segments and drop the empty ones.
\<close>

function split_raw :: "jsstr \<Rightarrow> jsstr \<Rightarrow> int \<Rightarrow> jsstr \<Rightarrow> jsstr list" where
  "split_raw op [] d cur = [cur]"
| "split_raw op (c # r) d cur =
     (let d' = d + paren c in
      if d' = 0 \<and> take (length op) (c # r) = op
      then cur # split_raw op (drop (length op - 1) r) 0 []
      else split_raw op r d' (cur @ [c]))"
  by pat_completeness auto
termination
  by (relation "measure (\<lambda>(op, s, d, cur). length s)") (auto simp: less_Suc_eq_le)

definition splitTopLevelMultiply :: "jsstr \<Rightarrow> jsstr list" where
  "splitTopLevelMultiply expr = nonempty (map trim (split_raw (J '' * '') expr 0 []))"

definition splitTopLevelAnd :: "jsstr \<Rightarrow> jsstr list" where
  "splitTopLevelAnd expr = nonempty (map trim (split_raw (J '' && '') expr 0 []))"

text \<open>No code unit is lost: the raw segments joined by the operator are the input.\<close>

lemma split_raw_not_Nil [simp]: "split_raw op s d cur \<noteq> []"
  by (induction op s d cur rule: split_raw.induct) (auto simp: Let_def)

lemma join_split_raw:
  "op \<noteq> [] \<Longrightarrow> join op (split_raw op s d cur) = cur @ s"
proof (induction op s d cur rule: split_raw.induct)
  case (2 op c r d cur)
  show ?case
  proof (cases "d + paren c = 0 \<and> take (length op) (c # r) = op")
    case True
    have "op @ drop (length op - 1) r = c # r"
    proof -
      have "drop (length op) (c # r) = drop (length op - 1) r"
        using 2(3) by (cases op) simp_all
      with True append_take_drop_id [of "length op" "c # r"] show ?thesis by simp
    qed
    moreover from True 2 have
      "join op (split_raw op (drop (length op - 1) r) 0 []) = drop (length op - 1) r" by simp
    ultimately show ?thesis using True by (simp add: Let_def join_Cons)
  next
    case False
    with 2 show ?thesis by (auto simp: Let_def)
  qed
qed simp

text \<open>
  A part is calm for an operator \<open>a # b # _\<close> when, outside parentheses, \<open>a\<close> is always
  followed by something other than \<open>b\<close>: the operator cannot start inside the part.
\<close>

fun calm :: "int \<Rightarrow> int \<Rightarrow> int \<Rightarrow> jsstr \<Rightarrow> bool" where
  "calm a b d [] \<longleftrightarrow> True"
| "calm a b d (c # r) \<longleftrightarrow>
     (d + paren c \<noteq> 0 \<or> c \<noteq> a \<or> (r \<noteq> [] \<and> hd r \<noteq> b)) \<and> calm a b (d + paren c) r"

lemma split_raw_calm:
  "calm a b d x \<Longrightarrow> split_raw (a # b # op) (x @ t) d cur = split_raw (a # b # op) t (d + depth x) (cur @ x)"
proof (induction x arbitrary: d cur)
  case (Cons c x)
  let ?op = "a # b # op"
  have "\<not> (d + paren c = 0 \<and> take (length ?op) (c # (x @ t)) = ?op)"
    using Cons.prems by (cases x) auto
  then have "split_raw ?op (c # (x @ t)) d cur = split_raw ?op (x @ t) (d + paren c) (cur @ [c])"
    by (subst split_raw.simps(2)) (simp only: Let_def if_False)
  with Cons show ?case by (simp add: add.assoc)
qed simp

definition part :: "int \<Rightarrow> int \<Rightarrow> jsstr \<Rightarrow> bool" where
  "part a b x \<longleftrightarrow> calm a b 0 x \<and> depth x = 0"

lemma split_raw_join:
  assumes "xs \<noteq> []" "\<forall>x \<in> set xs. part a b x" "a \<noteq> 40" "a \<noteq> 41"
  shows "split_raw (a # b # op) (join (a # b # op) xs) 0 [] = xs"
  using assms(1,2)
proof (induction xs)
  case (Cons x xs)
  then have x: "calm a b 0 x" "depth x = 0" by (auto simp: part_def)
  show ?case
  proof (cases "xs = []")
    case True
    with x split_raw_calm [of a b 0 x op "[]" "[]"] show ?thesis by simp
  next
    case False
    let ?t = "join (a # b # op) xs"
    have "split_raw (a # b # op) (x @ (a # b # op) @ ?t) 0 [] =
        split_raw (a # b # op) ((a # b # op) @ ?t) 0 x"
      using split_raw_calm [OF x(1), of op "(a # b # op) @ ?t" "[]"] x(2) by simp
    also have "\<dots> = x # split_raw (a # b # op) ?t 0 []"
      using assms(3,4) by (simp add: Let_def)
    finally show ?thesis using False Cons by (simp add: join_Cons)
  qed
qed simp

text \<open>Everything between parentheses is calm, and so is a string without the operator's start.\<close>

lemma calm_inside: "bal (d - 1) s \<Longrightarrow> 1 \<le> d \<Longrightarrow> calm a b d s"
proof (induction s arbitrary: d)
  case (Cons c s)
  then have "bal (d + paren c - 1) s" "1 \<le> d + paren c" by (auto simp: algebra_simps)
  with Cons.IH show ?case by auto
qed simp

lemma calm_append:
  "calm a b d s \<Longrightarrow> calm a b (d + depth s) t \<Longrightarrow> (s = [] \<or> last s \<noteq> a \<or> d + depth s \<noteq> 0) \<Longrightarrow>
    calm a b d (s @ t)"
proof (induction s arbitrary: d)
  case (Cons c s)
  have "calm a b (d + paren c) (s @ t)"
    using Cons.prems by (intro Cons.IH) (auto simp: add.assoc split: if_splits)
  with Cons.prems show ?case by (cases s) auto
qed simp

lemma calm_no_start: "a \<notin> set s \<Longrightarrow> calm a b d s"
  by (induction s arbitrary: d) auto

lemma calm_no_second: "b \<notin> set s \<Longrightarrow> s = [] \<or> last s \<noteq> a \<Longrightarrow> calm a b d s"
proof (induction s arbitrary: d)
  case (Cons c s)
  then show ?case by (cases s) auto
qed simp

lemma part_parens:
  assumes "balanced s" "a \<noteq> 40" "a \<noteq> 41"
  shows "part a b ([40] @ s @ [41])"
proof -
  have "calm a b 1 s" using assms by (intro calm_inside) auto
  moreover have "depth s = 0" using bal_depth [OF assms(1)] by simp
  ultimately have "calm a b 1 (s @ [41])"
    using assms by (intro calm_append) auto
  with \<open>depth s = 0\<close> assms show ?thesis by (auto simp: part_def)
qed

end
