(* ===== verification/RequestRules.thy ===== *)
theory RequestRules
  imports ExprScan
begin

text \<open>
  The request rules of \<open>features/pricing/lib/billing-expr.ts\<close>: conditions on a request
  parameter, a header or the time, the editor's builder that prints them, the parser that reads
  them, and the functions that combine and split a price expression and its rules.

  \<open>JSON.parse\<close> throws on a literal that a pattern lets through but JSON does not, and the parser
  does not catch it, so its functions return \<open>js_error + _\<close>.
\<close>

section \<open>Patterns\<close>

definition num_unit :: "int \<Rightarrow> bool" where
  "num_unit c \<longleftrightarrow> is_digit c \<or> c = 46 \<or> c = 101 \<or> c = 69 \<or> c = 43 \<or> c = 45"

definition r_num_run :: rx where
  "r_num_run = rplus (RChr num_unit)"

definition NUMERIC_LITERAL_REGEX :: rx where
  "NUMERIC_LITERAL_REGEX = rwhole
     [ropt (rlit (J ''-'')),
      RAlt (rcat [rplus (RChr is_digit), ropt (rlit (J ''.'')), RStar (RChr is_digit)])
           (rcat [rlit (J ''.''), rplus (RChr is_digit)]),
      ropt (rcat [RChr (\<lambda>c. c = 101 \<or> c = 69), ropt (RChr (\<lambda>c. c = 43 \<or> c = 45)),
                  rplus (RChr is_digit)])]"

definition is_numeric :: "jsstr \<Rightarrow> bool" where
  "is_numeric s = rx_test NUMERIC_LITERAL_REGEX s"

text \<open>A JSON string literal: \<open>"(?:[^"\\]|\\.)*"\<close>.\<close>

definition r_item :: rx where
  "r_item = RAlt (RChr (\<lambda>c. c \<noteq> 34 \<and> c \<noteq> 92)) (rcat [rlit [92], RChr is_dot])"

definition r_json_lit :: rx where
  "r_json_lit = rcat [rlit [34], RStar r_item, rlit [34]]"

definition r_time_func :: rx where
  "r_time_func = ralt [rlit (J ''hour''), rlit (J ''minute''), rlit (J ''weekday''),
     rlit (J ''month''), rlit (J ''day'')]"

definition r_zone :: rx where
  "r_zone = rplus (RChr (\<lambda>c. c \<noteq> 34))"

declare num_unit_def [js_eval] r_num_run_def [js_eval] NUMERIC_LITERAL_REGEX_def [js_eval]
  is_numeric_def [js_eval] r_item_def [js_eval] r_json_lit_def [js_eval] r_time_func_def [js_eval]
  r_zone_def [js_eval]

section \<open>Conditions\<close>

definition MATCH_EQ :: jsstr where "MATCH_EQ = J ''eq''"
definition MATCH_CONTAINS :: jsstr where "MATCH_CONTAINS = J ''contains''"
definition MATCH_GT :: jsstr where "MATCH_GT = J ''gt''"
definition MATCH_GTE :: jsstr where "MATCH_GTE = J ''gte''"
definition MATCH_LT :: jsstr where "MATCH_LT = J ''lt''"
definition MATCH_LTE :: jsstr where "MATCH_LTE = J ''lte''"
definition MATCH_EXISTS :: jsstr where "MATCH_EXISTS = J ''exists''"
definition MATCH_RANGE :: jsstr where "MATCH_RANGE = J ''range''"

lemmas match_defs = MATCH_EQ_def MATCH_CONTAINS_def MATCH_GT_def MATCH_GTE_def MATCH_LT_def
  MATCH_LTE_def MATCH_EXISTS_def MATCH_RANGE_def

declare match_defs [js_eval]

definition TIME_FUNCS :: "jsstr list" where
  "TIME_FUNCS = [J ''hour'', J ''minute'', J ''weekday'', J ''month'', J ''day'']"

datatype ph_source = Param | Header

record param_header_condition =
  ph_source :: ph_source
  ph_path :: jsstr
  ph_mode :: jsstr
  ph_value :: jsstr

record time_condition =
  tc_func :: jsstr
  tc_zone :: jsstr
  tc_mode :: jsstr
  tc_value :: jsstr
  tc_start :: jsstr
  tc_end :: jsstr

datatype request_condition = PHCond param_header_condition | TimeCond time_condition

record request_rule_group =
  rg_conditions :: "request_condition list"
  rg_multiplier :: jsstr

text \<open>\<open>Partial<RequestCondition>\<close>: every field may be missing.\<close>

record partial_condition =
  pc_source :: "jsstr option"
  pc_func :: "jsstr option"
  pc_zone :: "jsstr option"
  pc_path :: "jsstr option"
  pc_mode :: "jsstr option"
  pc_value :: "jsstr option"
  pc_start :: "jsstr option"
  pc_end :: "jsstr option"

fun to_partial :: "request_condition \<Rightarrow> partial_condition" where
  "to_partial (PHCond c) =
     \<lparr>pc_source = Some (case ph_source c of Param \<Rightarrow> J ''param'' | Header \<Rightarrow> J ''header''),
      pc_func = None, pc_zone = None, pc_path = Some (ph_path c), pc_mode = Some (ph_mode c),
      pc_value = Some (ph_value c), pc_start = None, pc_end = None\<rparr>"
| "to_partial (TimeCond c) =
     \<lparr>pc_source = Some (J ''time''), pc_func = Some (tc_func c), pc_zone = Some (tc_zone c),
      pc_path = None, pc_mode = Some (tc_mode c), pc_value = Some (tc_value c),
      pc_start = Some (tc_start c), pc_end = Some (tc_end c)\<rparr>"

text \<open>\<open>x || d\<close> on strings, and \<open>x == null ? '' : String(x)\<close>.\<close>

fun str_or :: "jsstr option \<Rightarrow> jsstr \<Rightarrow> jsstr" where
  "str_or None d = d"
| "str_or (Some s) d = (if s = [] then d else s)"

fun opt_str :: "jsstr option \<Rightarrow> jsstr" where
  "opt_str None = []"
| "opt_str (Some s) = s"

lemma str_or_Nil [simp]: "str_or x [] = opt_str x"
  by (cases x) simp_all

definition createEmptyCondition :: param_header_condition where
  "createEmptyCondition = \<lparr>ph_source = Param, ph_path = [], ph_mode = MATCH_EQ, ph_value = []\<rparr>"

definition createEmptyTimeCondition :: time_condition where
  "createEmptyTimeCondition =
     \<lparr>tc_func = J ''hour'', tc_zone = J ''Asia/Shanghai'', tc_mode = MATCH_GTE, tc_value = [],
      tc_start = [], tc_end = []\<rparr>"

definition createEmptyRuleGroup :: request_rule_group where
  "createEmptyRuleGroup = \<lparr>rg_conditions = [PHCond createEmptyCondition], rg_multiplier = []\<rparr>"

definition createEmptyTimeRuleGroup :: request_rule_group where
  "createEmptyTimeRuleGroup =
     \<lparr>rg_conditions = [TimeCond createEmptyTimeCondition], rg_multiplier = []\<rparr>"

text \<open>The values of the match options, with the keys of their labels.\<close>

definition getRequestRuleMatchOptions :: "jsstr \<Rightarrow> (jsstr \<times> jsstr) list" where
  "getRequestRuleMatchOptions source =
     (if source = J ''time'' then
        [(MATCH_EQ, J ''Equals''), (MATCH_GTE, J ''Greater than or equal''),
         (MATCH_LT, J ''Less than''), (MATCH_RANGE, J ''Overnight range'')]
      else
        (let base = [(MATCH_EQ, J ''Equals''), (MATCH_CONTAINS, J ''Contains''),
                     (MATCH_EXISTS, J ''Exists'')]
         in if source = J ''header'' then base
            else base @ [(MATCH_GT, J ''Greater than''), (MATCH_GTE, J ''Greater than or equal''),
                         (MATCH_LT, J ''Less than''), (MATCH_LTE, J ''Less than or equal'')]))"

definition isTimeFunc :: "jsstr option \<Rightarrow> bool" where
  "isTimeFunc v \<longleftrightarrow> (case v of None \<Rightarrow> False | Some f \<Rightarrow> f \<in> set TIME_FUNCS)"

definition is_option :: "jsstr \<Rightarrow> jsstr option \<Rightarrow> bool" where
  "is_option source m \<longleftrightarrow>
     (case m of None \<Rightarrow> False | Some v \<Rightarrow> v \<in> set (map fst (getRequestRuleMatchOptions source)))"

definition normalizeCondition :: "partial_condition \<Rightarrow> request_condition" where
  "normalizeCondition cond =
     (let source = (if pc_source cond = Some (J ''time'') then J ''time''
                    else if pc_source cond = Some (J ''header'') then J ''header''
                    else J ''param'')
      in if source = J ''time'' then
           TimeCond
             \<lparr>tc_func = (if isTimeFunc (pc_func cond) then opt_str (pc_func cond) else J ''hour''),
              tc_zone = str_or (pc_zone cond) (J ''Asia/Shanghai''),
              tc_mode = (if is_option source (pc_mode cond) then opt_str (pc_mode cond)
                         else MATCH_GTE),
              tc_value = opt_str (pc_value cond),
              tc_start = opt_str (pc_start cond),
              tc_end = opt_str (pc_end cond)\<rparr>
         else
           PHCond
             \<lparr>ph_source = (if source = J ''header'' then Header else Param),
              ph_path = str_or (pc_path cond) [],
              ph_mode = (if is_option source (pc_mode cond) then opt_str (pc_mode cond)
                         else MATCH_EQ),
              ph_value = opt_str (pc_value cond)\<rparr>)"

definition normalize :: "request_condition \<Rightarrow> request_condition" where
  "normalize c = normalizeCondition (to_partial c)"

section \<open>Building expressions\<close>

definition buildExprLiteral :: "jsstr \<Rightarrow> jsstr \<Rightarrow> jsstr" where
  "buildExprLiteral mode value =
     (let text = trim value in
      if mode = MATCH_CONTAINS then json_quote text
      else if text = J ''true'' \<or> text = J ''false'' then text
      else if is_numeric text then text
      else json_quote text)"

definition buildTimeConditionExpr :: "time_condition \<Rightarrow> jsstr" where
  "buildTimeConditionExpr cond =
     (case normalize (TimeCond cond) of
        PHCond _ \<Rightarrow> []
      | TimeCond n \<Rightarrow>
          (let fn = tc_func n @ J ''('' @ json_quote (tc_zone n) @ J '')'' in
           if tc_mode n = MATCH_RANGE then
             (let s = trim (tc_start n); e = trim (tc_end n) in
              if \<not> is_numeric s \<or> \<not> is_numeric e then []
              else fn @ J '' >= '' @ s @ J '' || '' @ fn @ J '' < '' @ e)
           else
             (let v = trim (tc_value n) in
              if \<not> is_numeric v then []
              else fn @ J '' '' @
                (if tc_mode n = MATCH_EQ then J ''=='' else if tc_mode n = MATCH_GTE then J ''>=''
                 else if tc_mode n = MATCH_LT then J ''<'' else J ''=='') @ J '' '' @ v)))"

definition source_expr :: "ph_source \<Rightarrow> jsstr \<Rightarrow> jsstr" where
  "source_expr src path =
     (case src of Header \<Rightarrow> J ''header('' | Param \<Rightarrow> J ''param('') @ json_quote path @ J '')''"

fun buildRequestConditionExpr :: "request_condition \<Rightarrow> jsstr" where
  "buildRequestConditionExpr (TimeCond c) = buildTimeConditionExpr c"
| "buildRequestConditionExpr (PHCond c) =
     (case normalize (PHCond c) of
        TimeCond _ \<Rightarrow> []
      | PHCond n \<Rightarrow>
          (let path = trim (ph_path n); src = source_expr (ph_source n) path in
           if path = [] then []
           else if ph_mode n = MATCH_EXISTS then
             (if ph_source n = Header then src @ J '' != \"\"'' else src @ J '' != nil'')
           else if ph_mode n = MATCH_CONTAINS then
             (if ph_source n = Header
              then J ''has('' @ src @ J '', '' @ buildExprLiteral (ph_mode n) (ph_value n) @ J '')''
              else src @ J '' != nil && has('' @ src @ J '', ''
                     @ buildExprLiteral (ph_mode n) (ph_value n) @ J '')'')
           else if ph_mode n \<in> {MATCH_GT, MATCH_GTE, MATCH_LT, MATCH_LTE} then
             (let numText = trim (ph_value n) in
              if \<not> is_numeric numText then []
              else src @ J '' != nil && '' @ src @ J '' '' @
                (if ph_mode n = MATCH_GT then J ''>'' else if ph_mode n = MATCH_GTE then J ''>=''
                 else if ph_mode n = MATCH_LT then J ''<'' else J ''<='') @ J '' '' @ numText)
           else src @ J '' == '' @ buildExprLiteral (ph_mode n) (ph_value n)))"

definition buildRuleGroupFactor :: "request_rule_group \<Rightarrow> jsstr" where
  "buildRuleGroupFactor g =
     (let multiplier = trim (rg_multiplier g) in
      if \<not> is_numeric multiplier then []
      else
        (let condExprs = nonempty (map buildRequestConditionExpr (rg_conditions g)) in
         if condExprs = [] then []
         else
           (let combined = (case condExprs of
                  [e] \<Rightarrow> e
                | es \<Rightarrow> join (J '' && '')
                    (map (\<lambda>e. if js_includes e (J '' || '') then J ''('' @ e @ J '')'' else e) es))
            in J ''('' @ combined @ J '' ? '' @ multiplier @ J '' : 1)'')))"

definition buildRequestRuleExpr :: "request_rule_group list \<Rightarrow> jsstr" where
  "buildRequestRuleExpr groups = join (J '' * '') (nonempty (map buildRuleGroupFactor groups))"

section \<open>Parsing\<close>

definition parseExprLiteral :: "jsstr \<Rightarrow> jsstr option" where
  "parseExprLiteral raw =
     (let text = trim raw in
      if text = J ''true'' \<or> text = J ''false'' then Some text
      else if is_numeric text then Some text
      else (case json_parse text of
          Inl _ \<Rightarrow> None
        | Inr JNull \<Rightarrow> None
        | Inr v \<Rightarrow> Some (js_string v)))"

definition r_range :: "rx list" where
  "r_range = [RCap 1 r_time_func, rlit (J ''(\"''), RCap 2 r_zone, rlit (J ''\") >= ''),
     RCap 3 r_num_run, rlit (J '' || ''), RRef 1, rlit (J ''(\"''), RRef 2, rlit (J ''\") < ''),
     RCap 4 r_num_run]"

definition r_time_cmp :: "rx list" where
  "r_time_cmp = [RCap 1 r_time_func, rlit (J ''(\"''), RCap 2 r_zone, rlit (J ''\") ''),
     RCap 3 (ralt [rlit (J ''==''), rlit (J ''>=''), rlit (J ''<'')]), rlit (J '' ''),
     RCap 4 r_num_run]"

definition range_condition :: "caps \<Rightarrow> request_condition" where
  "range_condition m =
     TimeCond \<lparr>tc_func = cap 1 m, tc_zone = cap 2 m, tc_mode = MATCH_RANGE, tc_value = [],
       tc_start = cap 3 m, tc_end = cap 4 m\<rparr>"

definition tryParseTimeCondition :: "jsstr \<Rightarrow> request_condition option" where
  "tryParseTimeCondition expr =
     (case rx_caps (rwhole r_range) expr of
        Some m \<Rightarrow> Some (range_condition m)
      | None \<Rightarrow>
          (case rx_caps (rwhole ([rlit (J ''('')] @ r_range @ [rlit (J '')'')])) expr of
             Some m \<Rightarrow> Some (range_condition m)
           | None \<Rightarrow>
               (case rx_caps (rwhole r_time_cmp) expr of
                  Some m \<Rightarrow> Some (TimeCond
                    \<lparr>tc_func = cap 1 m, tc_zone = cap 2 m,
                     tc_mode = (if cap 3 m = J ''=='' then MATCH_EQ
                                else if cap 3 m = J ''>='' then MATCH_GTE
                                else if cap 3 m = J ''<'' then MATCH_LT else MATCH_EQ),
                     tc_value = cap 4 m, tc_start = [], tc_end = []\<rparr>)
                | None \<Rightarrow> None)))"

text \<open>\<open>JSON.parse(lit) as string\<close>: the patterns only pass string literals to it.\<close>

definition parse_string :: "jsstr \<Rightarrow> jsstr js" where
  "parse_string s = js_bind (json_parse s) (\<lambda>v. Inr (js_string v))"

definition ph_found ::
  "ph_source \<Rightarrow> jsstr \<Rightarrow> jsstr \<Rightarrow> jsstr js \<Rightarrow> request_condition option js" where
  "ph_found src lit mode v =
     js_bind (parse_string lit) (\<lambda>path. js_bind v (\<lambda>value.
       Inr (Some (PHCond \<lparr>ph_source = src, ph_path = path, ph_mode = mode, ph_value = value\<rparr>))))"

definition r_header_exists :: rx where
  "r_header_exists = rwhole [rlit (J ''header(''), RCap 1 r_json_lit, rlit (J '') != \"\"'')]"

definition r_param_exists :: rx where
  "r_param_exists = rwhole [rlit (J ''param(''), RCap 1 r_json_lit, rlit (J '') != nil'')]"

definition r_header_contains :: rx where
  "r_header_contains = rwhole [rlit (J ''has(header(''), RCap 1 r_json_lit, rlit (J ''), ''),
     RCap 2 r_json_lit, rlit (J '')'')]"

definition r_param_contains :: rx where
  "r_param_contains = rwhole [rlit (J ''param(''), RCap 1 r_json_lit,
     rlit (J '') != nil && has(param(''), RCap 2 r_json_lit, rlit (J ''), ''),
     RCap 3 r_json_lit, rlit (J '')'')]"

definition r_param_cmp :: rx where
  "r_param_cmp = rwhole [rlit (J ''param(''), RCap 1 r_json_lit,
     rlit (J '') != nil && param(''), RCap 2 r_json_lit, rlit (J '') ''),
     RCap 3 (ralt [rlit (J ''>''), rlit (J ''>=''), rlit (J ''<''), rlit (J ''<='')]),
     rlit (J '' ''), RCap 4 r_num_run]"

definition r_equals :: rx where
  "r_equals = rwhole [RCap 1 (ralt [rlit (J ''param''), rlit (J ''header'')]), rlit (J ''(''),
     RCap 2 r_json_lit, rlit (J '') == ''), RCap 3 (rplus (RChr is_dot))]"

definition tryParseRequestCondition :: "jsstr \<Rightarrow> request_condition option js" where
  "tryParseRequestCondition expr =
     (case tryParseTimeCondition expr of Some c \<Rightarrow> Inr (Some c) | None \<Rightarrow>
     (case rx_caps r_header_exists expr of
        Some m \<Rightarrow> ph_found Header (cap 1 m) MATCH_EXISTS (Inr []) | None \<Rightarrow>
     (case rx_caps r_param_exists expr of
        Some m \<Rightarrow> ph_found Param (cap 1 m) MATCH_EXISTS (Inr []) | None \<Rightarrow>
     (case rx_caps r_header_contains expr of
        Some m \<Rightarrow> ph_found Header (cap 1 m) MATCH_CONTAINS (parse_string (cap 2 m)) | None \<Rightarrow>
     (case (case rx_caps r_param_contains expr of
              Some m \<Rightarrow> if cap 1 m = cap 2 m then Some m else None | None \<Rightarrow> None) of
        Some m \<Rightarrow> ph_found Param (cap 1 m) MATCH_CONTAINS (parse_string (cap 3 m)) | None \<Rightarrow>
     (case (case rx_caps r_param_cmp expr of
              Some m \<Rightarrow> if cap 1 m = cap 2 m then Some m else None | None \<Rightarrow> None) of
        Some m \<Rightarrow> ph_found Param (cap 1 m)
          (if cap 3 m = J ''>'' then MATCH_GT else if cap 3 m = J ''>='' then MATCH_GTE
           else if cap 3 m = J ''<'' then MATCH_LT else MATCH_LTE) (Inr (cap 4 m)) | None \<Rightarrow>
     (case rx_caps r_equals expr of
        Some m \<Rightarrow>
          (case parseExprLiteral (cap 3 m) of
             None \<Rightarrow> Inr None
           | Some v \<Rightarrow> ph_found (if cap 1 m = J ''param'' then Param else Header) (cap 2 m)
               MATCH_EQ (Inr v))
      | None \<Rightarrow> Inr None)))))))"

definition r_factor :: rx where
  "r_factor = rwhole [rlit (J ''(''), RCap 1 (rplus (RChr (\<lambda>_. True))), rlit (J '' ? ''),
     RCap 2 r_num_run, rlit (J '' : 1)'')]"

definition tryParseRuleGroupFactor :: "jsstr \<Rightarrow> request_rule_group option js" where
  "tryParseRuleGroupFactor p =
     (case rx_caps r_factor p of
        None \<Rightarrow> Inr None
      | Some m \<Rightarrow>
          js_bind (collect (\<lambda>ap. tryParseRequestCondition (trim ap)) (splitTopLevelAnd (cap 1 m)))
            (\<lambda>r. case r of
               None \<Rightarrow> Inr None
             | Some conditions \<Rightarrow>
                 if conditions = [] then Inr None
                 else Inr (Some \<lparr>rg_conditions = conditions, rg_multiplier = cap 2 m\<rparr>)))"

definition tryParseRequestRuleExpr :: "jsstr \<Rightarrow> request_rule_group list option js" where
  "tryParseRequestRuleExpr expr =
     (let trimmed = trim expr in
      if trimmed = [] then Inr (Some [])
      else collect tryParseRuleGroupFactor (splitTopLevelMultiply trimmed))"

section \<open>Price expression and rules in one string\<close>

record split_expr =
  billingExpr :: jsstr
  requestRuleExpr :: jsstr

text \<open>The loop that sorts the parts: each one is tried as a rule.\<close>

fun sort_parts :: "jsstr list \<Rightarrow> (jsstr list \<times> jsstr list) js" where
  "sort_parts [] = Inr ([], [])"
| "sort_parts (p # ps) =
     js_bind (tryParseRequestRuleExpr p) (\<lambda>parsed.
       js_bind (sort_parts ps) (\<lambda>(rules, base).
         case parsed of
           Some (g # gs) \<Rightarrow> Inr (p # rules, base)
         | _ \<Rightarrow> Inr (rules, p # base)))"

definition splitBillingExprAndRequestRules :: "jsstr \<Rightarrow> split_expr js" where
  "splitBillingExprAndRequestRules expr =
     (let trimmed = trim expr; parts = splitTopLevelMultiply trimmed;
          whole = \<lparr>billingExpr = trimmed, requestRuleExpr = []\<rparr>
      in if trimmed = [] then Inr \<lparr>billingExpr = [], requestRuleExpr = []\<rparr>
         else if length parts \<le> 1 then Inr whole
         else js_bind (sort_parts parts) (\<lambda>(rules, base).
           case base of
             [b] \<Rightarrow> if rules = [] then Inr whole
                    else Inr \<lparr>billingExpr = unwrapOuterParens b,
                              requestRuleExpr = join (J '' * '') rules\<rparr>
           | _ \<Rightarrow> Inr whole))"

definition combineBillingExpr :: "jsstr \<Rightarrow> jsstr \<Rightarrow> jsstr" where
  "combineBillingExpr baseExpr requestRules =
     (let base = trim baseExpr; rules = trim requestRules in
      if base = [] then [] else if rules = [] then base
      else J ''('' @ base @ J '') * '' @ rules)"

lemmas rule_patterns = r_range_def r_time_cmp_def r_header_exists_def r_param_exists_def
  r_header_contains_def r_param_contains_def r_param_cmp_def r_equals_def r_factor_def

declare rule_patterns [js_eval]

end
