(* ===== verification/RulePatterns.thy ===== *)
theory RulePatterns
  imports RequestRules
begin

text \<open>
  What the patterns of the request-rule parser match: a JSON string literal, a numeric literal and
  a maximal run of a class have exactly one match in front of the text that follows them.
\<close>

section \<open>JSON string literals\<close>

fun items :: "jsstr \<Rightarrow> bool" where
  "items [] \<longleftrightarrow> True"
| "items (c # s) \<longleftrightarrow>
     c \<noteq> 34 \<and> (if c = 92 then (case s of [] \<Rightarrow> False | d # t \<Rightarrow> is_dot d \<and> items t) else items s)"

lemma items_append: "items s \<Longrightarrow> items t \<Longrightarrow> items (s @ t)"
proof (induction s rule: items.induct)
  case (2 c s)
  then show ?case by (cases s) auto
qed simp

lemma mt_item_end: "mt r_item (p, 34 # t, c) = []"
  by (simp add: r_item_def mt_rcat_Cons2)

lemma mt_item_plain: "a \<noteq> 34 \<Longrightarrow> a \<noteq> 92 \<Longrightarrow> mt r_item (p, a # s, c) = [(Some a, s, c)]"
  by (simp add: r_item_def mt_rcat_Cons2)

lemma mt_item_escape: "is_dot d \<Longrightarrow> mt r_item (p, 92 # d # s, c) = [(Some d, s, c)]"
  by (simp add: r_item_def mt_rcat_Cons2)

lemma iterate_items:
  "length b \<le> n \<Longrightarrow> items b \<Longrightarrow>
    andthen (iterate n (mt r_item) (p, b @ 34 # t, c)) (eat [34]) = [(Some 34, t, c)]"
proof (induction n arbitrary: b p)
  case 0
  then show ?case by simp
next
  case (Suc n)
  show ?case
  proof (cases b)
    case Nil
    then show ?thesis by (simp add: mt_item_end)
  next
    case (Cons a b')
    show ?thesis
    proof (cases "a = 92")
      case True
      with Suc.prems Cons obtain d u where "b' = d # u" "is_dot d" "items u"
        by (auto split: list.splits)
      with Suc True Cons show ?thesis by (simp add: mt_item_escape)
    next
      case False
      with Suc Cons show ?thesis by (simp add: mt_item_plain)
    qed
  qed
qed

lemma mt_json_lit:
  assumes "items b"
  shows "mt r_json_lit (p, 34 # b @ 34 # t, c) = [(Some 34, t, c)]"
proof -
  have "andthen (mt (RStar r_item) (Some 34, b @ 34 # t, c)) (eat [34]) = [(Some 34, t, c)]"
    using iterate_items [OF _ assms, of "length (b @ 34 # t)"] by (simp add: mt.simps(5))
  moreover have "mt (rcat [rlit [34]]) = eat [34]" by (rule ext) simp
  ultimately show ?thesis by (simp add: r_json_lit_def mt_rcat_Cons2)
qed

lemma mt_json_lit_no: "a \<noteq> 34 \<Longrightarrow> mt r_json_lit (p, a # s, c) = []"
  by (simp add: r_json_lit_def mt_rcat_Cons2)

lemma mt_cap_json_lit [simp]:
  assumes "items b"
  shows "mt (RCap i r_json_lit) (p, 34 # b @ 34 # t, c) = [(Some 34, t, (i, 34 # b @ [34]) # c)]"
proof -
  have "take (length (34 # b @ 34 # t) - length t) (34 # b @ 34 # t) = 34 # b @ [34]"
    using take_captured [of "34 # b @ [34]" t] by simp
  then show ?thesis by (simp only: mt.simps(6) mt_json_lit [OF assms]) simp
qed

lemma hex_digit_plain:
  "0 \<le> n \<Longrightarrow> n < 16 \<Longrightarrow> is_dot (hex_digit n) \<and> hex_digit n \<noteq> 34 \<and> hex_digit n \<noteq> 92"
  by (auto simp: hex_digit_def is_dot_def)

lemma items_u_escape: "0 \<le> c \<Longrightarrow> c < 65536 \<Longrightarrow> items (u_escape c)"
proof -
  assume "0 \<le> c" "c < 65536"
  then have "0 \<le> c div 4096" "c div 4096 < 16"
    by (simp_all add: div_less_iff_less_mult pos_imp_zdiv_nonneg_iff)
  then show ?thesis
    using hex_digit_plain [of "c div 4096"] hex_digit_plain [of "c div 256 mod 16"]
      hex_digit_plain [of "c div 16 mod 16"] hex_digit_plain [of "c mod 16"]
    by (simp add: u_escape_def is_dot_def)
qed

lemma items_esc_unit: "0 \<le> c \<Longrightarrow> c < 65536 \<Longrightarrow> items (esc_unit c)"
  by (auto simp: esc_unit_def is_dot_def items_u_escape)

lemma items_quote_unit: "0 \<le> c \<Longrightarrow> c < 65536 \<Longrightarrow> items (quote_unit c)"
  by (simp add: quote_unit_def items_u_escape items_esc_unit)

lemma items_json_body: "utf16 s \<Longrightarrow> items (json_body s)"
proof (induction s rule: json_body.induct)
  case (2 c)
  then show ?case unfolding json_body_units by (simp add: items_quote_unit)
next
  case (3 c d s)
  show ?case
  proof (cases "is_high c \<and> is_low d")
    case True
    with 3 show ?thesis by (simp add: is_high_bounds)
  next
    case False
    with 3 show ?thesis unfolding json_body_units(2) [OF False]
      by (auto intro!: items_append items_quote_unit)
  qed
qed simp

text \<open>A property of the units of a literal, from the units of the string.\<close>

lemma list_all_u_escape:
  assumes "0 \<le> c" "c < 65536" "P 92" "P 117" "\<And>n. 0 \<le> n \<Longrightarrow> n < 16 \<Longrightarrow> P (hex_digit n)"
  shows "list_all P (u_escape c)"
proof -
  from assms(1,2) have "0 \<le> c div 4096" "c div 4096 < 16"
    by (simp_all add: div_less_iff_less_mult pos_imp_zdiv_nonneg_iff)
  then show ?thesis using assms(3-5) by (simp add: u_escape_def)
qed

lemma list_all_json_body:
  assumes "utf16 s" "list_all P [92, 34, 98, 116, 110, 102, 114, 117]"
    and "\<And>n. 0 \<le> n \<Longrightarrow> n < 16 \<Longrightarrow> P (hex_digit n)"
    and "\<And>c. c \<in> set s \<Longrightarrow> 32 \<le> c \<Longrightarrow> P c"
  shows "list_all P (json_body s)"
proof -
  have unit: "list_all P (quote_unit c)" if c: "0 \<le> c" "c < 65536" "32 \<le> c \<Longrightarrow> P c" for c
  proof -
    have "list_all P (u_escape c)"
      using assms(2) by (intro list_all_u_escape c(1,2) assms(3)) auto
    with assms(2) c(3) show ?thesis by (auto simp: quote_unit_def esc_unit_def)
  qed
  from assms(1,4) show ?thesis
  proof (induction s rule: json_body.induct)
    case (2 c)
    then show ?case unfolding json_body_units by (intro unit) auto
  next
    case (3 c d s)
    show ?case
    proof (cases "is_high c \<and> is_low d")
      case True
      with 3 show ?thesis by (simp add: is_high_def is_low_def)
    next
      case False
      from 3(3,4) have "list_all P (quote_unit c)" by (intro unit) auto
      with 3(2) [OF False] 3(3,4) show ?thesis
        unfolding json_body_units(2) [OF False] by auto
    qed
  qed simp
qed

lemma mt_cap_json_quote [simp]:
  "utf16 s \<Longrightarrow> mt (RCap i r_json_lit) (p, json_quote s @ t, c) = [(Some 34, t, (i, json_quote s) # c)]"
  using mt_cap_json_lit [OF items_json_body] by (simp add: json_quote_shape)

lemma mt_cap_json_lit_no [simp]: "a \<noteq> 34 \<Longrightarrow> mt (RCap i r_json_lit) (p, a # s, c) = []"
  by (simp add: mt_json_lit_no)

section \<open>Captured runs\<close>

text \<open>A captured greedy run of a class that the continuation cannot enter: the whole run.\<close>

lemma cap_plus_split:
  assumes "\<And>p a t c. P a \<Longrightarrow> g (p, a # t, c) = []"
    and "list_all P w" and "w \<noteq> []" and "s = [] \<or> \<not> P (hd s)"
  shows "andthen (mt (RCap i (rplus (RChr P))) (p, w @ s, c)) g = g (ran p w, s, (i, w) # c)"
proof -
  let ?h = "\<lambda>(p', t, c'). g (p', t, (i, take (length (w @ s) - length t) (w @ s)) # c')"
  have "andthen (mt (RCap i (rplus (RChr P))) (p, w @ s, c)) g
      = andthen (mt (rplus (RChr P)) (p, w @ s, c)) ?h"
    by (simp add: andthen_map case_prod_unfold)
  also have "\<dots> = ?h (ran p w, s, c)"
    using assms by (intro plus_split) auto
  finally show ?thesis by simp
qed

text \<open>Without the first code unit in the class there is no run.\<close>

lemma cap_plus_none:
  "s = [] \<or> \<not> P (hd s) \<Longrightarrow> mt (RCap i (rplus (RChr P))) (p, s, c) = []"
  by (cases s) (simp_all add: mt_rplus_class)

section \<open>Numeric literals\<close>

text \<open>Every code unit a pattern consumes is in a class that contains its classes.\<close>

fun rx_over :: "(int \<Rightarrow> bool) \<Rightarrow> rx \<Rightarrow> bool" where
  "rx_over P (RChr Q) \<longleftrightarrow> (\<forall>a. Q a \<longrightarrow> P a)"
| "rx_over P (RCat r q) \<longleftrightarrow> rx_over P r \<and> rx_over P q"
| "rx_over P (RAlt r q) \<longleftrightarrow> rx_over P r \<and> rx_over P q"
| "rx_over P (RStar r) \<longleftrightarrow> rx_over P r"
| "rx_over P (RCap i r) \<longleftrightarrow> rx_over P r"
| "rx_over P (RRef i) \<longleftrightarrow> False"
| "rx_over P r \<longleftrightarrow> True"

definition over :: "(int \<Rightarrow> bool) \<Rightarrow> rstate \<Rightarrow> rstate \<Rightarrow> bool" where
  "over P x y \<longleftrightarrow> (\<exists>w. fst (snd x) = w @ fst (snd y) \<and> list_all P w)"

lemma over_refl: "over P x x"
  by (simp add: over_def)

lemma over_trans: "over P x y \<Longrightarrow> over P y z \<Longrightarrow> over P x z"
  unfolding over_def by (metis append_assoc list_all_append)

lemma iterate_over:
  assumes "\<And>x y. y \<in> set (f x) \<Longrightarrow> over P x y"
  shows "y \<in> set (iterate n f x) \<Longrightarrow> over P x y"
proof (induction n arbitrary: x)
  case (Suc n)
  then consider "y = x" | z where "z \<in> set (f x)" "y \<in> set (iterate n f z)" by auto
  then show ?case
    by cases (auto simp: over_refl intro: over_trans [OF assms] Suc.IH)
qed (simp add: over_refl)

lemma mt_over: "rx_over P r \<Longrightarrow> y \<in> set (mt r x) \<Longrightarrow> over P x y"
proof (induction r x arbitrary: y rule: mt.induct)
  case (2 Q p s c)
  then show ?case
    by (cases s) (auto simp: over_def split: if_splits intro: exI [of _ "[hd s]"])
next
  case (3 r q x)
  then obtain z where "z \<in> set (mt r x)" "y \<in> set (mt q z)" by (auto simp: mt.simps(3))
  with 3 have "over P x z" "over P z y" by auto
  then show ?case by (rule over_trans)
next
  case (5 r x)
  from 5(3) have "y \<in> set (iterate (rest_len x) (mt r) x)" by (simp only: mt.simps(5))
  then show ?case by (rule iterate_over [rotated]) (use 5(1,2) in auto)
next
  case (6 i r p s c)
  then obtain p' t c' where "(p', t, c') \<in> set (mt r (p, s, c))" "fst (snd y) = t" by auto
  with 6 have "over P (p, s, c) (p', t, c')" by auto
  with \<open>fst (snd y) = t\<close> show ?case by (simp add: over_def)
qed (auto simp: over_refl split: if_splits)

end
