(* ===== verification/TierParser.thy ===== *)
theory TierParser
  imports RulePatterns
begin

text \<open>
  The reading half of the tier pricing of \<open>features/pricing/lib/billing-expr.ts\<close>: the registry of
  billing variables, the scan for \<open>tier("label", body)\<close> calls, the coefficients of a tier's
  body and the conditions in front of it.
\<close>

section \<open>Billing variables\<close>

record billing_var =
  bv_key :: jsstr
  bv_field :: "jsstr option"
  bv_tierField :: "jsstr option"
  bv_label :: jsstr
  bv_shortLabel :: jsstr
  bv_side :: jsstr
  bv_isBase :: bool
  bv_isConditionOnly :: bool
  bv_group :: "jsstr option"
  bv_unit :: "jsstr option"

definition bvar ::
  "jsstr \<Rightarrow> jsstr option \<Rightarrow> jsstr option \<Rightarrow> jsstr \<Rightarrow> jsstr \<Rightarrow> jsstr \<Rightarrow> bool \<Rightarrow> bool \<Rightarrow>
    jsstr option \<Rightarrow> jsstr option \<Rightarrow> billing_var" where
  "bvar k f t l s d b c g u =
     \<lparr>bv_key = k, bv_field = f, bv_tierField = t, bv_label = l, bv_shortLabel = s, bv_side = d,
      bv_isBase = b, bv_isConditionOnly = c, bv_group = g, bv_unit = u\<rparr>"

definition BILLING_VARS :: "billing_var list" where
  "BILLING_VARS =
     [bvar (J ''p'') (Some (J ''inputPrice'')) (Some (J ''input_unit_cost'')) (J ''Input price'') (J ''Input'') (J ''input'')
       True False (None) (None),
      bvar (J ''c'') (Some (J ''outputPrice'')) (Some (J ''output_unit_cost'')) (J ''Completion price'') (J ''Output'') (J ''output'')
       True False (None) (None),
      bvar (J ''duration'') (Some (J ''perSecondPrice'')) (Some (J ''per_second_unit_cost'')) (J ''Per second price'') (J ''Per second'') (J ''output'')
       False False (Some (J ''time'')) (Some (J ''second'')),
      bvar (J ''request'') (Some (J ''perRequestPrice'')) (Some (J ''per_request_unit_cost'')) (J ''Per request price'') (J '''') (J ''output'')
       False False (Some (J ''request'')) (Some (J ''request'')),
      bvar (J ''len'') (None) (None) (J ''Input length'') (J ''Length'') (J ''condition'')
       False True (None) (None),
      bvar (J ''cr'') (Some (J ''cacheReadPrice'')) (Some (J ''cache_read_unit_cost'')) (J ''Cache read price'') (J ''Cache Read'') (J ''input'')
       False False (Some (J ''cache'')) (None),
      bvar (J ''cc'') (Some (J ''cacheCreatePrice'')) (Some (J ''cache_create_unit_cost'')) (J ''Cache create price'') (J ''Cache Write (5m)'') (J ''input'')
       False False (Some (J ''cache'')) (None),
      bvar (J ''cc1h'') (Some (J ''cacheCreate1hPrice'')) (Some (J ''cache_create_1h_unit_cost'')) (J ''Cache create (1h) price'') (J ''Cache Write (1h)'') (J ''input'')
       False False (Some (J ''cache'')) (None),
      bvar (J ''img'') (Some (J ''imagePrice'')) (Some (J ''image_unit_cost'')) (J ''Image input price'') (J ''Image In'') (J ''input'')
       False False (Some (J ''media'')) (None),
      bvar (J ''img_o'') (Some (J ''imageOutputPrice'')) (Some (J ''image_output_unit_cost'')) (J ''Image output price'') (J ''Image Out'') (J ''output'')
       False False (Some (J ''media'')) (None),
      bvar (J ''ai'') (Some (J ''audioInputPrice'')) (Some (J ''audio_input_unit_cost'')) (J ''Audio input price'') (J ''Audio In'') (J ''input'')
       False False (Some (J ''media'')) (None),
      bvar (J ''ao'') (Some (J ''audioOutputPrice'')) (Some (J ''audio_output_unit_cost'')) (J ''Audio output price'') (J ''Audio Out'') (J ''output'')
       False False (Some (J ''media'')) (None)]"

definition BILLING_PRICING_VARS :: "billing_var list" where
  "BILLING_PRICING_VARS = filter (\<lambda>v. \<not> bv_isConditionOnly v) BILLING_VARS"

definition BILLING_CONDITION_VARS :: "jsstr list" where
  "BILLING_CONDITION_VARS = map bv_key (filter (\<lambda>v. bv_isBase v \<or> bv_isConditionOnly v) BILLING_VARS)"

definition opt_or_empty :: "jsstr option \<Rightarrow> jsstr" where
  "opt_or_empty x = (case x of None \<Rightarrow> [] | Some s \<Rightarrow> s)"

definition BILLING_VAR_KEY_TO_FIELD :: "(jsstr \<times> jsstr) list" where
  "BILLING_VAR_KEY_TO_FIELD = map (\<lambda>v. (bv_key v, opt_or_empty (bv_field v))) BILLING_PRICING_VARS"

definition BILLING_EXTRA_VARS :: "billing_var list" where
  "BILLING_EXTRA_VARS = filter (\<lambda>v. \<not> bv_isBase v \<and> \<not> bv_isConditionOnly v) BILLING_VARS"

text \<open>Field of the tier editor and expression variable.\<close>

definition BILLING_CACHE_VAR_MAP :: "(jsstr \<times> jsstr) list" where
  "BILLING_CACHE_VAR_MAP = map (\<lambda>v. (opt_or_empty (bv_tierField v), bv_key v)) BILLING_EXTRA_VARS"

declare bvar_def [js_eval] BILLING_VARS_def [js_eval] BILLING_PRICING_VARS_def [js_eval]
  BILLING_CONDITION_VARS_def [js_eval] opt_or_empty_def [js_eval]
  BILLING_VAR_KEY_TO_FIELD_def [js_eval] BILLING_EXTRA_VARS_def [js_eval]
  BILLING_CACHE_VAR_MAP_def [js_eval]

section \<open>Patterns\<close>

definition BILLING_VAR_REGEX :: rx where
  "BILLING_VAR_REGEX = rcat
     [RWordB,
      RCap 1 (ralt (map (\<lambda>v. rlit (bv_key v))
        (filter (\<lambda>v. bv_unit v = None \<or> bv_unit v = Some (J ''tokens'')) BILLING_PRICING_VARS))),
      rws, rlit (J ''*''), rws, RCap 2 r_num_run]"

definition PARAM_DURATION_PRICE_REGEX :: rx where
  "PARAM_DURATION_PRICE_REGEX = rcat
     [rlit (J ''param(\"parameters.duration\")''), rws, rlit (J ''*''), rws, RCap 1 r_num_run, rws,
      rlit (J ''*''), rws, rlit (J ''1000000'')]"

definition CONSTANT_REQUEST_PRICE_REGEX :: rx where
  "CONSTANT_REQUEST_PRICE_REGEX = rwhole
     [ropt (rcat [ropt (rlit (J ''('')), rws]), RCap 1 r_num_run, rws, rlit (J ''*''), rws,
      rlit (J ''1000000''), ropt (rcat [rws, ropt (rlit (J '')''))])]"

definition QUOTA_SCALED_REQUEST_PRICE_REGEX :: rx where
  "QUOTA_SCALED_REQUEST_PRICE_REGEX = rcat
     [RBos, rws, RCap 1 r_num_run, rcat [rws, RAlt (rlit (J ''+'')) REos]]"

text \<open>
  \<open>exec\<close> with the \<open>g\<close> flag, until it returns \<open>null\<close>: the captures of every match, each search
  starting where the last match ended. None of the patterns used this way matches the empty string.
\<close>

function rx_all :: "rx \<Rightarrow> int option \<Rightarrow> jsstr \<Rightarrow> caps list" where
  "rx_all r p s =
     (case mt r (p, s, []) of
        (q, t, c) # _ \<Rightarrow> if length t < length s then c # rx_all r q t else [c]
      | [] \<Rightarrow> (case s of [] \<Rightarrow> [] | a # t \<Rightarrow> rx_all r (Some a) t))"
  by pat_completeness auto
termination
  by (relation "measure (\<lambda>(r, p, s). length s)") auto

declare rx_all.simps [simp del]

text \<open>\<open>s.split(r)\<close> for a pattern without captures that never matches the empty string.\<close>

function rx_split :: "rx \<Rightarrow> int option \<Rightarrow> jsstr \<Rightarrow> jsstr \<Rightarrow> jsstr list" where
  "rx_split r p cur s =
     (case (case s of [] \<Rightarrow> [] | _ \<Rightarrow> mt r (p, s, [])) of
        (q, t, c) # _ \<Rightarrow> if length t < length s then cur # rx_split r q [] t else [cur @ s]
      | [] \<Rightarrow> (case s of [] \<Rightarrow> [cur] | a # t \<Rightarrow> rx_split r (Some a) (cur @ [a]) t))"
  by pat_completeness auto
termination
  by (relation "measure (\<lambda>(r, p, cur, s). length s)") auto

declare rx_split.simps [simp del]

section \<open>Tiers\<close>

record tier_condition =
  tn_var :: jsstr
  tn_op :: jsstr
  tn_value :: jsnum

record parsed_tier =
  pt_label :: jsstr
  pt_conditions :: "tier_condition list"
  pt_fields :: "(jsstr \<times> jsnum) list"

definition r_version :: rx where
  "r_version = rwhole [rlit (J ''v''), RCap 1 (rplus (RChr is_digit)), rlit (J '':''),
     RCap 2 (RStar (RChr (\<lambda>_. True)))]"

definition stripExprVersion :: "jsstr \<Rightarrow> jsnum \<times> jsstr" where
  "stripExprVersion exprStr =
     (if exprStr = [] then (Fin 1, [])
      else (case rx_caps r_version exprStr of
          Some m \<Rightarrow> (to_number (cap 1 m), cap 2 m)
        | None \<Rightarrow> (Fin 1, exprStr)))"

text \<open>\<open>if (!(k in o)) o[k] = v\<close>.\<close>

definition put_new :: "'k \<Rightarrow> 'v \<Rightarrow> ('k \<times> 'v) list \<Rightarrow> ('k \<times> 'v) list" where
  "put_new k v m = (if map_of m k = None then m @ [(k, v)] else m)"

definition parseTierBody :: "jsstr \<Rightarrow> (jsstr \<times> jsnum) list" where
  "parseTierBody bodyStr =
     (let c1 = foldl (\<lambda>m c. put_new (cap 1 c) (to_number (cap 2 c)) m) []
            (rx_all BILLING_VAR_REGEX None bodyStr);
          c2 = foldl (\<lambda>m c. put_new (J ''duration'') (to_number (cap 1 c)) m) c1
            (rx_all PARAM_DURATION_PRICE_REGEX None bodyStr);
          c3 = (case rx_caps CONSTANT_REQUEST_PRICE_REGEX (trim bodyStr) of
                  Some m \<Rightarrow> put_new (J ''request'') (to_number (cap 1 m)) c2
                | None \<Rightarrow> c2);
          c4 = (case rx_caps QUOTA_SCALED_REQUEST_PRICE_REGEX (trim bodyStr) of
                  Some m \<Rightarrow> put_new (J ''request'') (num_div (to_number (cap 1 m)) (Fin 1000000)) c3
                | None \<Rightarrow> c3)
      in map (\<lambda>(varName, field).
           (field, case map_of c4 varName of Some x \<Rightarrow> num_or x (Fin 0) | None \<Rightarrow> Fin 0))
         BILLING_VAR_KEY_TO_FIELD)"

section \<open>The scan for tier calls\<close>

record tier_call =
  tl_label :: jsstr
  tl_body :: jsstr
  tl_start :: nat

text \<open>
  The two inner loops, on the rest of the string: how many units up to the closing quote, and how
  many up to the parenthesis that closes the call; \<open>None\<close> when the input ends first.
\<close>

fun label_end :: "bool \<Rightarrow> jsstr \<Rightarrow> nat option" where
  "label_end escaped [] = None"
| "label_end escaped (c # s) =
     (if escaped then map_option Suc (label_end False s)
      else if c = 92 then map_option Suc (label_end True s)
      else if c = 34 then Some 0
      else map_option Suc (label_end False s))"

fun body_end :: "nat \<Rightarrow> bool \<Rightarrow> bool \<Rightarrow> jsstr \<Rightarrow> nat option" where
  "body_end d inString escaped [] = None"
| "body_end d inString escaped (c # s) =
     (if escaped then map_option Suc (body_end d inString False s)
      else if c = 92 then map_option Suc (body_end d inString True s)
      else if c = 34 then map_option Suc (body_end d (\<not> inString) False s)
      else if inString then map_option Suc (body_end d inString False s)
      else if c = 40 then map_option Suc (body_end (Suc d) inString False s)
      else if c = 41 then (if d = 0 then Some 0 else map_option Suc (body_end (d - 1) inString False s))
      else map_option Suc (body_end d inString False s))"

text \<open>
  One call at the position of \<open>tier("\<close>: the string after \<open>tier(\<close> is given. The result is the
  call and how many of its units were read; \<open>None\<close> where the source resumes one unit further.
\<close>

definition tier_call_at :: "nat \<Rightarrow> jsstr \<Rightarrow> (tier_call \<times> nat) option" where
  "tier_call_at start s =
     (case label_end False (drop 1 s) of
        None \<Rightarrow> None
      | Some n \<Rightarrow>
          (case json_parse (take (n + 2) s) of
             Inl _ \<Rightarrow> None
           | Inr lbl \<Rightarrow>
               (let r = dropWhile is_ws (drop (n + 2) s) in
                if r = [] \<or> hd r \<noteq> 44 then None
                else (let b = dropWhile is_ws (tl r) in
                  (case body_end 0 False False b of
                     None \<Rightarrow> None
                   | Some k \<Rightarrow>
                       Some (\<lparr>tl_label = js_string lbl, tl_body = trim (take k b), tl_start = start\<rparr>,
                             length s - length b + k))))))"

function find_calls :: "nat \<Rightarrow> jsstr \<Rightarrow> tier_call list" where
  "find_calls i s =
     (case find_sub (J ''tier(\"'') s of
        None \<Rightarrow> []
      | Some k \<Rightarrow>
          (case tier_call_at (i + k) (drop (k + 5) s) of
             None \<Rightarrow> find_calls (i + k + 1) (drop (k + 1) s)
           | Some (call, n) \<Rightarrow> call # find_calls (i + k + 5 + n + 1) (drop (k + 5 + n + 1) s)))"
  by pat_completeness auto
termination
proof (relation "measure (\<lambda>(i, s). length s)")
  fix i s k
  assume "find_sub (J ''tier(\"'') s = Some k"
  then have k: "k + 6 \<le> length s" using find_sub_bound by fastforce
  then show "((i + k + 1, drop (k + 1) s), (i, s)) \<in> measure (\<lambda>(i, s). length s)" by auto
  show "((i + k + 5 + n + 1, drop (k + 5 + n + 1) s), (i, s)) \<in> measure (\<lambda>(i, s). length s)" for n
    using k by auto
qed simp

declare find_calls.simps [simp del]

definition findTierCalls :: "jsstr \<Rightarrow> tier_call list" where
  "findTierCalls expr = find_calls 0 expr"

section \<open>Conditions in front of a call\<close>

definition r_cond_num :: rx where
  "r_cond_num = rplus (RChr (\<lambda>c. is_digit c \<or> c = 46 \<or> c = 101 \<or> c = 69 \<or> c = 43))"

definition r_cond_var :: rx where
  "r_cond_var = ralt [rlit (J ''p''), rlit (J ''c''), rlit (J ''len'')]"

definition r_cond_op :: rx where
  "r_cond_op = ralt [rlit (J ''<''), rlit (J ''<=''), rlit (J ''>''), rlit (J ''>='')]"

definition r_and :: rx where
  "r_and = rcat [rws, rlit (J ''&&''), rws]"

definition cond_group :: rx where
  "cond_group = RCap 1 (rcat
     [rcat [r_cond_var, rws, r_cond_op, rws, r_cond_num],
      RStar (rcat [r_and, r_cond_var, rws, r_cond_op, rws, r_cond_num])])"

definition r_one_cond :: rx where
  "r_one_cond = rwhole [RCap 1 r_cond_var, rws, RCap 2 r_cond_op, rws, RCap 3 r_cond_num]"

definition read_tier_condition :: "jsstr \<Rightarrow> tier_condition list" where
  "read_tier_condition cp =
     (case rx_caps r_one_cond (trim cp) of
        Some m \<Rightarrow> [\<lparr>tn_var = cap 1 m, tn_op = cap 2 m, tn_value = to_number (cap 3 m)\<rparr>]
      | None \<Rightarrow> [])"

definition parseTierConditionsBefore :: "jsstr \<Rightarrow> nat \<Rightarrow> tier_condition list" where
  "parseTierConditionsBefore expr tierStart =
     (let condStr = (case rx_caps (rcat [cond_group, rws, rlit (J ''?''), rws, REos])
                       (take tierStart expr) of Some m \<Rightarrow> cap 1 m | None \<Rightarrow> [])
      in if condStr = [] then []
         else concat (map read_tier_condition (rx_split r_and None [] condStr)))"

text \<open>Nothing in the body of the \<open>try\<close> throws: the one \<open>JSON.parse\<close> is caught inside.\<close>

definition parseTiersFromExpr :: "jsstr \<Rightarrow> parsed_tier list" where
  "parseTiersFromExpr exprStr =
     (if exprStr = [] then []
      else (let body = snd (stripExprVersion exprStr) in
        map (\<lambda>call. \<lparr>pt_label = tl_label call,
                pt_conditions = parseTierConditionsBefore body (tl_start call),
                pt_fields = parseTierBody (tl_body call)\<rparr>)
          (findTierCalls body)))"

section \<open>Labels\<close>

text \<open>
  \<open>normalizeTierLabel\<close>: the comparison signs in their ASCII, mathematical and full-width forms
  become \<open><\<close> and \<open>>\<close>, white space goes, and letters become lower case. \<open>lower\<close> is
  \<open>String.prototype.toLowerCase\<close>.
\<close>

fun unify_signs :: "int \<Rightarrow> int \<Rightarrow> int \<Rightarrow> jsstr \<Rightarrow> jsstr" where
  "unify_signs lt wide le [] = []"
| "unify_signs lt wide le (c # s) =
     (if c = lt \<or> c = wide
      then lt # (case s of
          d # t \<Rightarrow> if d = 61 \<or> d = 0xFF1D then unify_signs lt wide le t else unify_signs lt wide le s
        | [] \<Rightarrow> [])
      else if c = le then lt # unify_signs lt wide le s
      else c # unify_signs lt wide le s)"

definition normalizeTierLabel :: "(jsstr \<Rightarrow> jsstr) \<Rightarrow> jsstr option \<Rightarrow> jsstr" where
  "normalizeTierLabel lower label =
     (case label of
        None \<Rightarrow> []
      | Some l \<Rightarrow> if l = [] then []
          else lower (filter (\<lambda>c. \<not> is_ws c)
            (unify_signs 62 0xFF1E 0x2265 (unify_signs 60 0xFF1C 0x2264 l))))"

end
