(* ===== verification/TierExpr.thy ===== *)
theory TierExpr
  imports TierParser
begin

text \<open>
  The visual tier editor of \<open>features/pricing/lib/tier-expr.ts\<close>: tiers and their conditions, the
  generator of a billing expression, the parser that reads an expression back into tiers, and the
  local helpers of the cost estimator. Unlike the scanners of \<open>billing-expr.ts\<close>, the ones here
  skip string literals.
\<close>

section \<open>Tiers\<close>

definition CACHE_MODE_TIMED :: jsstr where "CACHE_MODE_TIMED = J ''timed''"
definition CACHE_MODE_GENERIC :: jsstr where "CACHE_MODE_GENERIC = J ''generic''"

text \<open>The \<open>value\<close> of a token condition is a number, or the text the user is typing.\<close>

datatype tok_value = VNum jsnum | VStr jsstr

record token_condition =
  tk_var :: jsstr
  tk_op :: jsstr
  tk_value :: tok_value

datatype tier_cond = TokenCond token_condition | ReqCond request_condition

text \<open>A condition as it comes in: every field may be missing.\<close>

record partial_token =
  pk_var :: "jsstr option"
  pk_op :: "jsstr option"
  pk_value :: "tok_value option"

datatype partial_cond = PTok partial_token | PReq partial_condition

record visual_tier =
  vt_label :: jsstr
  vt_conditions :: "tier_cond list"
  vt_cache_mode :: jsstr
  vt_costs :: "(jsstr \<times> jsnum) list"

text \<open>
  \<open>Partial<VisualTier>\<close>: the unit costs are read by name, \<open>undefined\<close> where there is none. The
  names of the cost fields are those the source spells out in \<open>normalizeVisualTier\<close>.
\<close>

record partial_tier =
  pv_label :: "jsstr option"
  pv_conditions :: "partial_cond list option"
  pv_cache_mode :: "jsstr option"
  pv_costs :: "(jsstr \<times> jsnum) list"

definition cost_fields :: "jsstr list" where
  "cost_fields =
     [J ''input_unit_cost'', J ''output_unit_cost'', J ''cache_read_unit_cost'',
      J ''cache_create_unit_cost'', J ''cache_create_1h_unit_cost'', J ''image_unit_cost'',
      J ''image_output_unit_cost'', J ''audio_input_unit_cost'', J ''audio_output_unit_cost'',
      J ''per_second_unit_cost'', J ''per_request_unit_cost'']"

text \<open>\<open>Number(o.k)\<close> of a number field that may be missing, and \<open>Number(o.k) || 0\<close>.\<close>

definition num_field :: "(jsstr \<times> jsnum) list \<Rightarrow> jsstr \<Rightarrow> jsnum" where
  "num_field m k = (case map_of m k of None \<Rightarrow> NaN | Some x \<Rightarrow> x)"

definition cost_of :: "(jsstr \<times> jsnum) list \<Rightarrow> jsstr \<Rightarrow> jsnum" where
  "cost_of m k = num_or (num_field m k) (Fin 0)"

definition getTierCacheMode :: "jsstr option \<Rightarrow> (jsstr \<times> jsnum) list \<Rightarrow> jsstr" where
  "getTierCacheMode mode costs =
     (if mode = Some CACHE_MODE_TIMED then CACHE_MODE_TIMED
      else if mode = Some CACHE_MODE_GENERIC then CACHE_MODE_GENERIC
      else if num_lt (Fin 0) (num_field costs (J ''cache_create_1h_unit_cost''))
      then CACHE_MODE_TIMED else CACHE_MODE_GENERIC)"

definition normalizeTierCondition :: "partial_cond \<Rightarrow> tier_cond" where
  "normalizeTierCondition condition =
     (case condition of
        PTok t \<Rightarrow> TokenCond
          \<lparr>tk_var = (if pk_var t = Some (J ''p'') \<or> pk_var t = Some (J ''c'')
                     then opt_str (pk_var t) else J ''len''),
           tk_op = (if pk_op t \<in> {Some (J ''<=''), Some (J ''>''), Some (J ''>='')}
                    then opt_str (pk_op t) else J ''<''),
           tk_value = (case pk_value t of None \<Rightarrow> VStr [] | Some v \<Rightarrow> v)\<rparr>
      | PReq r \<Rightarrow> ReqCond (normalizeCondition r))"

definition normalizeVisualTier :: "partial_tier \<Rightarrow> visual_tier" where
  "normalizeVisualTier t =
     \<lparr>vt_label = opt_str (pv_label t),
      vt_conditions = (case pv_conditions t of None \<Rightarrow> [] | Some cs \<Rightarrow> map normalizeTierCondition cs),
      vt_cache_mode = getTierCacheMode (pv_cache_mode t) (pv_costs t),
      vt_costs = map (\<lambda>k. (k, cost_of (pv_costs t) k)) cost_fields\<rparr>"

fun partial_of :: "tier_cond \<Rightarrow> partial_cond" where
  "partial_of (TokenCond t) =
     PTok \<lparr>pk_var = Some (tk_var t), pk_op = Some (tk_op t), pk_value = Some (tk_value t)\<rparr>"
| "partial_of (ReqCond r) = PReq (to_partial r)"

definition to_partial_tier :: "visual_tier \<Rightarrow> partial_tier" where
  "to_partial_tier t =
     \<lparr>pv_label = Some (vt_label t), pv_conditions = Some (map partial_of (vt_conditions t)),
      pv_cache_mode = Some (vt_cache_mode t), pv_costs = vt_costs t\<rparr>"

definition empty_tier :: partial_tier where
  "empty_tier = \<lparr>pv_label = None, pv_conditions = None, pv_cache_mode = None, pv_costs = []\<rparr>"

definition createEmptyTokenCondition :: token_condition where
  "createEmptyTokenCondition =
     \<lparr>tk_var = J ''len'', tk_op = J ''<'', tk_value = VNum (Fin 200000)\<rparr>"

definition createDefaultVisualConfig :: "visual_tier list" where
  "createDefaultVisualConfig =
     [normalizeVisualTier
       \<lparr>pv_label = Some (J ''base''), pv_conditions = Some [],
        pv_cache_mode = Some CACHE_MODE_GENERIC,
        pv_costs = [(J ''input_unit_cost'', Fin 0), (J ''output_unit_cost'', Fin 0)]\<rparr>]"

definition normalizeVisualConfig :: "partial_tier list option \<Rightarrow> visual_tier list" where
  "normalizeVisualConfig config =
     (case config of
        None \<Rightarrow> createDefaultVisualConfig
      | Some [] \<Rightarrow> createDefaultVisualConfig
      | Some ts \<Rightarrow> map normalizeVisualTier ts)"

section \<open>Generating an expression\<close>

fun tok_text :: "tok_value \<Rightarrow> jsstr" where
  "tok_text (VNum x) = to_str x"
| "tok_text (VStr s) = s"

fun tier_cond_text :: "tier_cond \<Rightarrow> jsstr" where
  "tier_cond_text (TokenCond t) =
     (if tk_var t = [] \<or> tk_op t = [] \<or> tk_value t = VStr [] then []
      else tk_var t @ J '' '' @ tk_op t @ J '' '' @ tok_text (tk_value t))"
| "tier_cond_text (ReqCond r) = buildRequestConditionExpr r"

definition buildConditionStr :: "tier_cond list \<Rightarrow> jsstr" where
  "buildConditionStr conditions =
     join (J '' && '')
       (map (\<lambda>c. if js_includes c (J '' || '') then J ''('' @ c @ J '')'' else c)
         (nonempty (map tier_cond_text conditions)))"

definition duration_text :: jsstr where
  "duration_text = J ''param(\"parameters.duration\")''"

definition buildTierBodyExpr :: "visual_tier \<Rightarrow> jsstr" where
  "buildTierBodyExpr tier =
     (let cost = cost_of (vt_costs tier);
          perRequestPrice = cost (J ''per_request_unit_cost'');
          perSecondPrice = cost (J ''per_second_unit_cost'')
      in join (J '' + '')
        ((if \<not> num_eq perRequestPrice (Fin 0)
          then [to_str (num_mul perRequestPrice (Fin 1000000))] else [])
         @ [J ''p * '' @ to_str (cost (J ''input_unit_cost'')),
            J ''c * '' @ to_str (cost (J ''output_unit_cost''))]
         @ (if \<not> num_eq perSecondPrice (Fin 0)
            then [duration_text @ J '' * '' @ to_str perSecondPrice @ J '' * 1000000''] else [])
         @ concat (map (\<lambda>v.
             if bv_key v = J ''duration'' \<or> bv_key v = J ''request'' \<or> bv_tierField v = None then []
             else (let value = cost (opt_or_empty (bv_tierField v)) in
               if \<not> num_eq value (Fin 0) then [bv_key v @ J '' * '' @ to_str value] else []))
             BILLING_EXTRA_VARS)))"

definition zero_expr :: jsstr where
  "zero_expr = J ''p * 0 + c * 0''"

definition tier_call_text :: "jsstr \<Rightarrow> visual_tier \<Rightarrow> jsstr" where
  "tier_call_text label tier = J ''tier('' @ json_quote label @ J '', '' @ buildTierBodyExpr tier @ J '')''"

text \<open>The loop over several tiers, with the index of the next one.\<close>

fun tier_parts :: "nat \<Rightarrow> visual_tier list \<Rightarrow> jsstr list" where
  "tier_parts i [] = []"
| "tier_parts i (t # ts) =
     (let label = (if vt_label t = [] then J ''tier_'' @ dec (int i + 1) else vt_label t);
          body = tier_call_text label t;
          cond = buildConditionStr (vt_conditions t)
      in (if ts \<noteq> [] \<and> cond \<noteq> [] then cond @ J '' ? '' @ body else body) # tier_parts (Suc i) ts)"

definition generateExprFromVisualConfig :: "visual_tier list option \<Rightarrow> jsstr" where
  "generateExprFromVisualConfig config =
     (case config of
        None \<Rightarrow> zero_expr
      | Some [] \<Rightarrow> zero_expr
      | Some [tier] \<Rightarrow>
          (let label = (if vt_label tier = [] then J ''default'' else vt_label tier);
               body = tier_call_text label tier;
               cond = buildConditionStr (vt_conditions tier)
           in if cond \<noteq> [] then cond @ J '' ? '' @ body @ J '' : '' @ zero_expr else body)
      | Some tiers \<Rightarrow> join (J '' : '') (tier_parts 0 tiers))"

section \<open>Scanners that skip string literals\<close>

fun full_parens_scan :: "int \<Rightarrow> bool \<Rightarrow> bool \<Rightarrow> jsstr \<Rightarrow> bool" where
  "full_parens_scan d inString escaped [] \<longleftrightarrow> d = 0"
| "full_parens_scan d inString escaped (c # r) \<longleftrightarrow>
     (if escaped then full_parens_scan d inString False r
      else if c = 92 then full_parens_scan d inString True r
      else if c = 34 then full_parens_scan d (\<not> inString) False r
      else if inString then full_parens_scan d inString False r
      else (let d' = d + paren c in
        if d' = 0 \<and> r \<noteq> [] then False else full_parens_scan d' inString False r))"

definition hasFullOuterParens_q :: "jsstr \<Rightarrow> bool" where
  "hasFullOuterParens_q value \<longleftrightarrow>
     (let text = trim value in
      starts_with text (J ''('') \<and> ends_with text (J '')'') \<and> full_parens_scan 0 False False text)"

function unwrap_loop_q :: "jsstr \<Rightarrow> jsstr" where
  "unwrap_loop_q s = (if hasFullOuterParens_q s then unwrap_loop_q (trim (js_slice s 1 (- 1))) else s)"
  by pat_completeness auto
termination
proof (relation "measure length")
  fix s
  assume "hasFullOuterParens_q s"
  then have "s \<noteq> []" by (auto simp: hasFullOuterParens_q_def ends_with_def starts_with_def)
  then have "length (butlast (tl s)) < length s" by (cases s) simp_all
  with length_trim [of "js_slice s 1 (- 1)"]
  show "(trim (js_slice s 1 (- 1)), s) \<in> measure length" by (simp add: slice_ends)
qed simp

declare unwrap_loop_q.simps [simp del]

definition unwrapOuterParens_q :: "jsstr \<Rightarrow> jsstr" where
  "unwrapOuterParens_q value = unwrap_loop_q (trim value)"

text \<open>
  \<open>splitTopLevel\<close>: \<open>prev\<close> is the unit before the position, \<open>cur\<close> the segment read so far. A
  \<open>+\<close> after the \<open>e\<close> of an exponent does not split.
\<close>

function split_scan ::
  "jsstr \<Rightarrow> int option \<Rightarrow> int \<Rightarrow> bool \<Rightarrow> bool \<Rightarrow> jsstr \<Rightarrow> jsstr \<Rightarrow> jsstr list" where
  "split_scan op prev d inString escaped cur [] = [cur]"
| "split_scan op prev d inString escaped cur (c # r) =
     (if escaped then split_scan op (Some c) d inString False (cur @ [c]) r
      else if c = 92 then split_scan op (Some c) d inString True (cur @ [c]) r
      else if c = 34 then split_scan op (Some c) d (\<not> inString) False (cur @ [c]) r
      else if inString then split_scan op (Some c) d inString False (cur @ [c]) r
      else (let d' = d + paren c;
                isExponentSign = (op = J ''+'' \<and> (prev = Some 101 \<or> prev = Some 69))
            in if d' = 0 \<and> \<not> isExponentSign \<and> take (length op) (c # r) = op
               then cur # split_scan op (Some (last op)) d' inString False [] (drop (length op - 1) r)
               else split_scan op (Some c) d' inString False (cur @ [c]) r))"
  by pat_completeness auto
termination
  by (relation "measure (\<lambda>(op, prev, d, q, e, cur, s). length s)") (auto simp: less_Suc_eq_le)

definition splitTopLevel :: "jsstr \<Rightarrow> jsstr \<Rightarrow> jsstr list" where
  "splitTopLevel value op = nonempty (map trim (split_scan op None 0 False False [] value))"

text \<open>
  \<open>splitTopLevelTernary\<close>: the loop up to the first question mark outside parentheses, then up to
  the colon that belongs to it, past the questions nested in between.
\<close>

fun find_question :: "int \<Rightarrow> bool \<Rightarrow> bool \<Rightarrow> jsstr \<Rightarrow> jsstr \<Rightarrow> (jsstr \<times> jsstr) option" where
  "find_question d inString escaped cur [] = None"
| "find_question d inString escaped cur (c # r) =
     (if escaped then find_question d inString False (cur @ [c]) r
      else if c = 92 then find_question d inString True (cur @ [c]) r
      else if c = 34 then find_question d (\<not> inString) False (cur @ [c]) r
      else if inString then find_question d inString False (cur @ [c]) r
      else if d + paren c = 0 \<and> c = 63 then Some (cur, r)
      else find_question (d + paren c) inString False (cur @ [c]) r)"

fun find_colon :: "nat \<Rightarrow> int \<Rightarrow> bool \<Rightarrow> bool \<Rightarrow> jsstr \<Rightarrow> jsstr \<Rightarrow> (jsstr \<times> jsstr) option" where
  "find_colon n d inString escaped cur [] = None"
| "find_colon n d inString escaped cur (c # r) =
     (if escaped then find_colon n d inString False (cur @ [c]) r
      else if c = 92 then find_colon n d inString True (cur @ [c]) r
      else if c = 34 then find_colon n d (\<not> inString) False (cur @ [c]) r
      else if inString then find_colon n d inString False (cur @ [c]) r
      else if d + paren c = 0 \<and> c = 63 then find_colon (Suc n) 0 inString False (cur @ [c]) r
      else if d + paren c = 0 \<and> c = 58 then
        (if n = 0 then Some (cur, r) else find_colon (n - 1) 0 inString False (cur @ [c]) r)
      else find_colon n (d + paren c) inString False (cur @ [c]) r)"

record ternary =
  tn_condition :: jsstr
  tn_whenTrue :: jsstr
  tn_whenFalse :: jsstr

definition splitTopLevelTernary :: "jsstr \<Rightarrow> ternary option" where
  "splitTopLevelTernary value =
     (case find_question 0 False False [] (unwrapOuterParens_q value) of
        None \<Rightarrow> None
      | Some (c, r) \<Rightarrow>
          (case find_colon 0 0 False False [] r of
             None \<Rightarrow> None
           | Some (t, f) \<Rightarrow> Some \<lparr>tn_condition = trim c, tn_whenTrue = trim t, tn_whenFalse = trim f\<rparr>))"

section \<open>Reading an expression\<close>

definition TOKEN_FIELD_BY_VAR :: "(jsstr \<times> jsstr) list" where
  "TOKEN_FIELD_BY_VAR =
     [(J ''p'', J ''input_unit_cost''), (J ''c'', J ''output_unit_cost''),
      (J ''cr'', J ''cache_read_unit_cost''), (J ''cc'', J ''cache_create_unit_cost''),
      (J ''cc1h'', J ''cache_create_1h_unit_cost''), (J ''img'', J ''image_unit_cost''),
      (J ''img_o'', J ''image_output_unit_cost''), (J ''ai'', J ''audio_input_unit_cost''),
      (J ''ao'', J ''audio_output_unit_cost'')]"

definition NUMBER_PATTERN :: rx where
  "NUMBER_PATTERN = rcat
     [ropt (rlit (J ''-'')),
      RAlt (rcat [rplus (RChr is_digit), ropt (rlit (J ''.'')), RStar (RChr is_digit)])
           (rcat [rlit (J ''.''), rplus (RChr is_digit)]),
      ropt (rcat [RChr (\<lambda>c. c = 101 \<or> c = 69), ropt (RChr (\<lambda>c. c = 43 \<or> c = 45)),
                  rplus (RChr is_digit)])]"

definition r_coeff :: rx where
  "r_coeff = rwhole [RCap 1 (ralt (map (\<lambda>(k, f). rlit k) TOKEN_FIELD_BY_VAR)), rws, rlit (J ''*''), rws,
     RCap 2 NUMBER_PATTERN]"

definition r_duration :: rx where
  "r_duration = rwhole [rlit duration_text, rws, rlit (J ''*''), rws, RCap 1 NUMBER_PATTERN, rws,
     rlit (J ''*''), rws, rlit (J ''1000000'')]"

definition r_request :: rx where
  "r_request = rwhole [RCap 1 NUMBER_PATTERN, rws, rlit (J ''*''), rws, rlit (J ''1000000'')]"

definition r_quota :: rx where
  "r_quota = rwhole [RCap 1 NUMBER_PATTERN]"

text \<open>What one summand of a tier's body sets; \<open>None\<close> where the source gives up.\<close>

definition read_summand :: "jsstr \<Rightarrow> (jsstr \<times> jsnum) option" where
  "read_summand txt =
     (case rx_caps r_coeff txt of
        Some m \<Rightarrow> Some (opt_or_empty (map_of TOKEN_FIELD_BY_VAR (cap 1 m)), to_number (cap 2 m))
      | None \<Rightarrow>
     (case rx_caps r_duration txt of
        Some m \<Rightarrow> Some (J ''per_second_unit_cost'', to_number (cap 1 m))
      | None \<Rightarrow>
     (case rx_caps r_request txt of
        Some m \<Rightarrow> Some (J ''per_request_unit_cost'', to_number (cap 1 m))
      | None \<Rightarrow>
     (case rx_caps r_quota txt of
        Some m \<Rightarrow> Some (J ''per_request_unit_cost'', num_div (to_number (cap 1 m)) (Fin 1000000))
      | None \<Rightarrow> None))))"

fun read_summands :: "jsstr list \<Rightarrow> (jsstr \<times> jsnum) list \<Rightarrow> (jsstr \<times> jsnum) list option" where
  "read_summands [] m = Some m"
| "read_summands (p # ps) m =
     (case read_summand p of None \<Rightarrow> None | Some (k, x) \<Rightarrow> read_summands ps (obj_put k x m))"

definition parseTierBody_q :: "jsstr \<Rightarrow> visual_tier option" where
  "parseTierBody_q body =
     (let tier = normalizeVisualTier empty_tier in
      map_option (\<lambda>m. tier\<lparr>vt_costs := m\<rparr>)
        (read_summands (splitTopLevel (unwrapOuterParens_q body) (J ''+'')) (vt_costs tier)))"

definition r_tier_call :: rx where
  "r_tier_call = rwhole [rlit (J ''tier(''), rws, RCap 1 r_json_lit, rws, rlit (J '',''), rws,
     RCap 2 (rplus (RChr (\<lambda>_. True))), rlit (J '')'')]"

definition parseTierCall :: "jsstr \<Rightarrow> visual_tier option js" where
  "parseTierCall value =
     (case rx_caps r_tier_call (unwrapOuterParens_q value) of
        None \<Rightarrow> Inr None
      | Some m \<Rightarrow>
          (case parseTierBody_q (cap 2 m) of
             None \<Rightarrow> Inr None
           | Some tier \<Rightarrow>
               js_bind (parse_string (cap 1 m)) (\<lambda>label. Inr (Some (tier\<lparr>vt_label := label\<rparr>)))))"

definition r_token_cond :: rx where
  "r_token_cond = rwhole [RCap 1 r_cond_var, rws,
     RCap 2 (ralt [rlit (J ''<=''), rlit (J ''>=''), rlit (J ''<''), rlit (J ''>'')]), rws,
     RCap 3 NUMBER_PATTERN]"

text \<open>
  The loop of \<open>parseTierConditions\<close>: two neighbouring parts are tried as one condition first,
  which then uses up both.
\<close>

function read_conditions :: "jsstr list \<Rightarrow> tier_cond list option js" where
  "read_conditions [] = Inr (Some [])"
| "read_conditions (p # ps) =
     (case rx_caps r_token_cond (unwrapOuterParens_q p) of
        Some m \<Rightarrow>
          js_bind (read_conditions ps) (\<lambda>r. Inr (map_option ((#) (TokenCond
            \<lparr>tk_var = cap 1 m, tk_op = cap 2 m, tk_value = VNum (to_number (cap 3 m))\<rparr>)) r))
      | None \<Rightarrow>
          js_bind (case ps of
              [] \<Rightarrow> Inr None
            | q # _ \<Rightarrow> tryParseRequestCondition
                (unwrapOuterParens_q p @ J '' && '' @ unwrapOuterParens_q q)) (\<lambda>both.
            case both of
              Some c \<Rightarrow>
                js_bind (read_conditions (tl ps)) (\<lambda>r. Inr (map_option ((#) (ReqCond c)) r))
            | None \<Rightarrow>
                js_bind (tryParseRequestCondition (unwrapOuterParens_q p)) (\<lambda>single.
                  case single of
                    None \<Rightarrow> Inr None
                  | Some c \<Rightarrow>
                      js_bind (read_conditions ps) (\<lambda>r. Inr (map_option ((#) (ReqCond c)) r)))))"
  by pat_completeness auto
termination
  by (relation "measure length") (auto simp: less_Suc_eq_le)

definition parseTierConditions :: "jsstr \<Rightarrow> tier_cond list option js" where
  "parseTierConditions value = read_conditions (splitTopLevel (unwrapOuterParens_q value) (J ''&&''))"

definition isZeroCostExpr :: "jsstr \<Rightarrow> bool" where
  "isZeroCostExpr value =
     (case parseTierBody_q value of
        None \<Rightarrow> False
      | Some t \<Rightarrow> list_all (\<lambda>(k, x). num_eq x (Fin 0)) (vt_costs t))"

lemma find_question_length:
  "find_question d q e cur s = Some (c, r) \<Longrightarrow> length r < length s"
  by (induction d q e cur s rule: find_question.induct) (auto split: if_splits)

lemma find_colon_length:
  "find_colon n d q e cur s = Some (t, f) \<Longrightarrow>
    length f < length s \<and> length t + length f < length cur + length s"
  by (induction n d q e cur s rule: find_colon.induct) (auto split: if_splits)

lemma unwrap_length: "length (unwrapOuterParens_q s) \<le> length s"
proof -
  have "length (unwrap_loop_q s) \<le> length s" for s
  proof (induction s rule: unwrap_loop_q.induct)
    case (1 s)
    have "length (trim (js_slice s 1 (- 1))) \<le> length s"
      using length_trim [of "js_slice s 1 (- 1)"] by (simp add: slice_ends)
    with 1 show ?case by (subst unwrap_loop_q.simps) auto
  qed
  from this [of "trim s"] length_trim [of s] show ?thesis by (simp add: unwrapOuterParens_q_def)
qed

lemma ternary_length:
  assumes "splitTopLevelTernary v = Some t"
  shows "length (tn_whenTrue t) < length v" "length (tn_whenFalse t) < length v"
proof -
  from assms obtain c r a b where
    "find_question 0 False False [] (unwrapOuterParens_q v) = Some (c, r)"
    "find_colon 0 0 False False [] r = Some (a, b)"
    "t = \<lparr>tn_condition = trim c, tn_whenTrue = trim a, tn_whenFalse = trim b\<rparr>"
    by (auto simp: splitTopLevelTernary_def split: option.splits)
  then show "length (tn_whenTrue t) < length v" "length (tn_whenFalse t) < length v"
    using find_question_length [of 0 False False "[]"] find_colon_length [of 0 0 False False "[]"]
      unwrap_length [of v] length_trim [of a] length_trim [of b] by fastforce+
qed

text \<open>\<open>None\<close> for the result \<open>false\<close>; the tiers are those pushed by a call that returns \<open>true\<close>.\<close>

function collectVisualTiers :: "jsstr \<Rightarrow> tier_cond list \<Rightarrow> visual_tier list option js" where
  "collectVisualTiers value inherited =
     js_bind (parseTierCall value) (\<lambda>tier.
       case tier of
         Some t \<Rightarrow> Inr (Some [normalizeVisualTier
           ((to_partial_tier t)\<lparr>pv_conditions := Some (map partial_of inherited)\<rparr>)])
       | None \<Rightarrow>
           (case splitTopLevelTernary value of
              None \<Rightarrow> Inr (if isZeroCostExpr (unwrapOuterParens_q value) then Some [] else None)
            | Some c \<Rightarrow>
                js_bind (parseTierConditions (tn_condition c)) (\<lambda>conditions.
                  case conditions of
                    None \<Rightarrow> Inr None
                  | Some [] \<Rightarrow> Inr None
                  | Some cs \<Rightarrow>
                      js_bind (collectVisualTiers (tn_whenTrue c) (inherited @ cs)) (\<lambda>a.
                        case a of
                          None \<Rightarrow> Inr None
                        | Some ts \<Rightarrow>
                            js_bind (collectVisualTiers (tn_whenFalse c) inherited) (\<lambda>b.
                              Inr (map_option ((@) ts) b))))))"
  by pat_completeness auto
termination
  by (relation "measure (\<lambda>(v, inh). length v)") (auto simp: ternary_length)

declare collectVisualTiers.simps [simp del]

definition r_version_any :: rx where
  "r_version_any = rwhole [rlit (J ''v''), rplus (RChr is_digit), rlit (J '':''),
     RCap 1 (RStar (RChr (\<lambda>_. True)))]"

text \<open>The \<open>catch\<close> turns an exception into \<open>null\<close>.\<close>

definition tryParseVisualConfig :: "jsstr option \<Rightarrow> visual_tier list option" where
  "tryParseVisualConfig exprStr =
     (case exprStr of
        None \<Rightarrow> None
      | Some [] \<Rightarrow> None
      | Some e \<Rightarrow>
          (let body = (case rx_caps r_version_any e of Some m \<Rightarrow> cap 1 m | None \<Rightarrow> e) in
           (case collectVisualTiers body [] of
              Inl _ \<Rightarrow> None
            | Inr None \<Rightarrow> None
            | Inr (Some []) \<Rightarrow> None
            | Inr (Some ts) \<Rightarrow> Some (normalizeVisualConfig (Some (map to_partial_tier ts))))))"

section \<open>Helpers of the cost estimator\<close>

definition ESTIMATOR_VARS :: "(jsstr \<times> jsstr) list" where
  "ESTIMATOR_VARS =
     [(J ''cr'', J ''cacheReadTokens''), (J ''cc'', J ''cacheCreateTokens''),
      (J ''cc1h'', J ''cacheCreate1hTokens''), (J ''img'', J ''imageTokens''),
      (J ''img_o'', J ''imageOutputTokens''), (J ''ai'', J ''audioInputTokens''),
      (J ''ao'', J ''audioOutputTokens'')]"

definition r_size_num :: rx where
  "r_size_num = rcat [rplus (RChr is_digit), ropt (rcat [rlit (J ''.''), rplus (RChr is_digit)])]"

definition SIZE_PIXELS_REGEX :: rx where
  "SIZE_PIXELS_REGEX = rcat
     [RCap 1 r_size_num, rws, RChr (\<lambda>c. c = 120 \<or> c = 88 \<or> c = 0xD7 \<or> c = 42), rws,
      RCap 2 r_size_num]"

text \<open>
  \<open>pixelsFromSizeValue\<close>: \<open>lower\<close> is \<open>toLowerCase\<close>, the argument a value of an expression;
  \<open>JNull\<close> stands for \<open>null\<close> and \<open>undefined\<close>.
\<close>

definition pixelsFromSizeValue :: "(jsstr \<Rightarrow> jsstr) \<Rightarrow> json \<Rightarrow> jsnum" where
  "pixelsFromSizeValue lower value =
     (case value of
        JNull \<Rightarrow> Fin 0
      | JNum x \<Rightarrow> if is_finite x \<and> num_lt (Fin 0) x then x else Fin 0
      | v \<Rightarrow>
          (let text = trim (js_string v); normalized = lower text; numeric = to_number text in
           if text = [] then Fin 0
           else if normalized = J ''1k'' then Fin (1024 * 1024)
           else if normalized = J ''2k'' then Fin (2048 * 2048)
           else if is_finite numeric \<and> num_lt (Fin 0) numeric then numeric
           else (case rx_caps SIZE_PIXELS_REGEX text of
               None \<Rightarrow> Fin 0
             | Some m \<Rightarrow>
                 (let width = to_number (cap 1 m); height = to_number (cap 2 m) in
                  if \<not> is_finite width \<or> \<not> is_finite height
                     \<or> num_le width (Fin 0) \<or> num_le height (Fin 0) then Fin 0
                  else num_mul width height))))"

definition exprUsesExtraVars :: "jsstr \<Rightarrow> bool" where
  "exprUsesExtraVars exprStr \<longleftrightarrow>
     exprStr \<noteq> [] \<and>
     rx_test (rcat [RWordB, RCap 1 (ralt (map (\<lambda>(v, k). rlit v) ESTIMATOR_VARS)), RWordB]) exprStr"

end
