(* ===== verification/RuleConditions.thy ===== *)
theory RuleConditions
  imports RulePatterns
begin

text \<open>
  One request condition, printed and read back. \<open>canonical\<close> says what the condition editor's
  fields may hold so that nothing is normalised away; a canonical condition is what the parser
  makes of its own printed form. The lemmas follow the order in which the parser tries its
  patterns: which fail on a printed condition, and what the one that matches captures.
\<close>

section \<open>Numeric literals\<close>

lemma rx_over_rcat: "rx_over P (rcat rs) \<longleftrightarrow> list_all (rx_over P) rs"
  by (induction rs rule: rcat.induct) (auto simp: rcat.simps(3))

lemma rx_over_rlit: "rx_over P (rlit w) \<longleftrightarrow> list_all P w"
  by (induction w rule: rlit.induct) (auto simp: rlit.simps)

lemma andthen_eos: "y \<in> set (andthen xs (mt REos)) \<Longrightarrow> fst (snd y) = []"
  by (induction xs) (auto split: if_splits)

lemma rcat_eos: "rs \<noteq> [] \<Longrightarrow> y \<in> set (mt (rcat (rs @ [REos])) x) \<Longrightarrow> fst (snd y) = []"
proof (induction rs arbitrary: x)
  case (Cons r rs)
  show ?case
  proof (cases "rs = []")
    case True
    with Cons show ?thesis by (auto simp: mt_rcat_Cons2 dest: andthen_eos)
  next
    case False
    with Cons.prems obtain z where "y \<in> set (mt (rcat (rs @ [REos])) z)"
      by (auto simp: mt_rcat_Cons andthen_def)
    with Cons.IH False show ?thesis by blast
  qed
qed simp

lemma whole_over:
  assumes "rs \<noteq> []" "list_all (rx_over P) rs" "rx_test (rwhole rs) s"
  shows "list_all P s"
proof -
  from assms(3) obtain y where y: "y \<in> set (mt (rcat (rs @ [REos])) (None, s, []))"
    unfolding rx_test_whole by (metis list.set_sel(1))
  moreover from assms have "rx_over P (rcat (rs @ [REos]))" by (simp add: rx_over_rcat)
  ultimately have "over P (None, s, []) y" by (rule mt_over [rotated])
  with rcat_eos [OF assms(1) y] show ?thesis by (auto simp: over_def)
qed

lemma numeric_units: "is_numeric s \<Longrightarrow> list_all num_unit s"
  unfolding is_numeric_def NUMERIC_LITERAL_REGEX_def
  by (erule whole_over [rotated 2])
    (simp_all add: rx_over_rcat rx_over_rlit num_unit_def is_digit_def rplus_def ropt_def)

lemma numeric_not_Nil: "is_numeric s \<Longrightarrow> s \<noteq> []"
  by (auto simp: is_numeric_def NUMERIC_LITERAL_REGEX_def rx_test_whole mt_rcat_Cons2 ropt_def
      mt_rplus_class)

lemma num_unit_not_ws: "num_unit c \<Longrightarrow> \<not> is_ws c"
  by (auto simp: num_unit_def is_digit_def is_ws_def)

lemma trimmed_units:
  assumes "list_all P s" "\<And>c. P c \<Longrightarrow> \<not> is_ws c"
  shows "trimmed s"
proof (cases "s = []")
  case False
  with assms show ?thesis by (intro trimmedI) (auto simp: list_all_iff)
qed simp

lemma numeric_trimmed: "is_numeric s \<Longrightarrow> trim s = s"
  by (intro trim_trimmed trimmed_units [OF numeric_units num_unit_not_ws])

lemma numeric_quote: "\<not> is_numeric (34 # s)"
  by (auto dest!: numeric_units simp: num_unit_def is_digit_def)

section \<open>Conditions the parser reads back\<close>

text \<open>
  The fields of a condition that has nothing to normalise: text without white space at its ends,
  the fields its mode does not use empty, and values the expression language can hold.
\<close>

definition plain_text :: "jsstr \<Rightarrow> bool" where
  "plain_text s \<longleftrightarrow> utf16 s \<and> trimmed s"

definition unquoted :: "jsstr \<Rightarrow> bool" where
  "unquoted s \<longleftrightarrow> s \<noteq> [] \<and> json_body s = s \<and> 34 \<notin> set s"

text \<open>No line or paragraph separator: \<open>JSON.stringify\<close> keeps them and \<open>.\<close> does not match them.\<close>

definition one_line :: "jsstr \<Rightarrow> bool" where
  "one_line s \<longleftrightarrow> 0x2028 \<notin> set s \<and> 0x2029 \<notin> set s"

fun canonical :: "request_condition \<Rightarrow> bool" where
  "canonical (PHCond c) \<longleftrightarrow>
     plain_text (ph_path c) \<and> ph_path c \<noteq> [] \<and>
     (if ph_mode c = MATCH_EXISTS then ph_value c = []
      else if ph_mode c = MATCH_CONTAINS then plain_text (ph_value c)
      else if ph_mode c \<in> {MATCH_GT, MATCH_GTE, MATCH_LT, MATCH_LTE}
      then ph_source c = Param \<and> is_numeric (ph_value c)
      else ph_mode c = MATCH_EQ \<and> plain_text (ph_value c) \<and> one_line (ph_value c))"
| "canonical (TimeCond c) \<longleftrightarrow>
     tc_func c \<in> set TIME_FUNCS \<and> unquoted (tc_zone c) \<and>
     (if tc_mode c = MATCH_RANGE
      then tc_value c = [] \<and> is_numeric (tc_start c) \<and> is_numeric (tc_end c)
      else tc_mode c \<in> {MATCH_EQ, MATCH_GTE, MATCH_LT} \<and> is_numeric (tc_value c)
        \<and> tc_start c = [] \<and> tc_end c = [])"

lemma plain_text_trim: "plain_text s \<Longrightarrow> trim s = s"
  by (simp add: plain_text_def trim_trimmed)

lemma options_source:
  "set (map fst (getRequestRuleMatchOptions (J ''param''))) =
     {MATCH_EQ, MATCH_CONTAINS, MATCH_EXISTS, MATCH_GT, MATCH_GTE, MATCH_LT, MATCH_LTE}"
  "set (map fst (getRequestRuleMatchOptions (J ''header''))) = {MATCH_EQ, MATCH_CONTAINS, MATCH_EXISTS}"
  "set (map fst (getRequestRuleMatchOptions (J ''time''))) = {MATCH_EQ, MATCH_GTE, MATCH_LT, MATCH_RANGE}"
  by (simp_all add: getRequestRuleMatchOptions_def insert_commute)

lemma normalize_PH:
  "normalize (PHCond c) =
     (if (case ph_source c of Param \<Rightarrow> ph_mode c \<in> {MATCH_EQ, MATCH_CONTAINS, MATCH_EXISTS, MATCH_GT, MATCH_GTE, MATCH_LT, MATCH_LTE}
          | Header \<Rightarrow> ph_mode c \<in> {MATCH_EQ, MATCH_CONTAINS, MATCH_EXISTS})
      then PHCond c else PHCond (c \<lparr>ph_mode := MATCH_EQ\<rparr>))"
  using options_source
  by (cases c; cases "ph_source c")
    (auto simp add: normalize_def normalizeCondition_def is_option_def)

lemma normalize_Time:
  "tc_func c \<in> set TIME_FUNCS \<Longrightarrow> tc_zone c \<noteq> [] \<Longrightarrow> tc_mode c \<in> {MATCH_EQ, MATCH_GTE, MATCH_LT, MATCH_RANGE} \<Longrightarrow>
    normalize (TimeCond c) = TimeCond c"
  using options_source
  by (cases c) (simp add: normalize_def normalizeCondition_def is_option_def isTimeFunc_def)

lemma canonical_normalize: "canonical c \<Longrightarrow> normalize c = c"
proof (cases c)
  case (PHCond r)
  assume "canonical c"
  with PHCond show ?thesis
    by (cases "ph_source r") (auto simp: normalize_PH split: if_splits)
next
  case (TimeCond r)
  assume "canonical c"
  with TimeCond show ?thesis
    by (auto simp: unquoted_def intro!: normalize_Time split: if_splits)
qed

section \<open>Literals\<close>

lemma dot_json_body: "utf16 s \<Longrightarrow> one_line s \<Longrightarrow> list_all is_dot (json_body s)"
  by (rule list_all_json_body) (auto simp: is_dot_def hex_digit_def one_line_def)

lemma dot_numeric: "num_unit c \<Longrightarrow> is_dot c"
  by (auto simp: num_unit_def is_digit_def is_dot_def)

lemma trim_json_quote: "trim (json_quote s) = json_quote s"
  by (rule trim_trimmed) (simp add: trimmed_def json_quote_def is_ws_def)

lemma buildExprLiteral_contains:
  "plain_text v \<Longrightarrow> buildExprLiteral MATCH_CONTAINS v = json_quote v"
  by (simp add: buildExprLiteral_def plain_text_trim)

lemma parse_built_literal:
  "plain_text v \<Longrightarrow> parseExprLiteral (buildExprLiteral MATCH_EQ v) = Some v"
  by (auto simp: buildExprLiteral_def parseExprLiteral_def plain_text_trim trim_json_quote
      match_defs plain_text_def numeric_quote json_quote_shape [symmetric])
    (simp_all add: json_parse_quote [unfolded json_quote_shape] json_quote_shape numeric_quote)

lemma dot_built_literal:
  assumes "plain_text v" "one_line v"
  shows "list_all is_dot (buildExprLiteral MATCH_EQ v)" "buildExprLiteral MATCH_EQ v \<noteq> []"
proof -
  have "list_all is_dot (json_quote v)"
    using assms by (simp add: json_quote_def dot_json_body plain_text_def is_dot_def)
  moreover have "is_numeric v \<Longrightarrow> list_all is_dot v"
    using numeric_units [of v] dot_numeric by (auto simp: list_all_iff)
  ultimately show "list_all is_dot (buildExprLiteral MATCH_EQ v)"
    using assms by (auto simp: buildExprLiteral_def plain_text_trim is_dot_def)
  show "buildExprLiteral MATCH_EQ v \<noteq> []"
    using assms by (auto simp: buildExprLiteral_def plain_text_trim json_quote_def dest: numeric_not_Nil)
qed

section \<open>Which patterns fail\<close>

lemma time_fails [simp]:
  "tryParseTimeCondition (J ''header('' @ s) = None"
  "tryParseTimeCondition (J ''param('' @ s) = None"
  "tryParseTimeCondition (J ''has('' @ s) = None"
  by (simp_all add: tryParseTimeCondition_def rx_caps_whole r_range_def r_time_cmp_def mt_rcat_Cons2
      r_time_func_def)

lemma cap_dot_end:
  "list_all is_dot w \<Longrightarrow> w \<noteq> [] \<Longrightarrow>
    andthen (mt (RCap i (rplus (RChr is_dot))) (p, w, c)) (mt REos) = [(ran p w, [], (i, w) # c)]"
  using cap_plus_split [of is_dot "mt REos" w "[]" i p c] by simp

lemma cap_num_end:
  "is_numeric w \<Longrightarrow>
    andthen (mt (RCap i r_num_run) (p, w, c)) (mt REos) = [(ran p w, [], (i, w) # c)]"
  using cap_plus_split [of num_unit "mt REos" w "[]" i p c] numeric_units numeric_not_Nil
  by (simp add: r_num_run_def)

declare mt.simps(6) [simp del]

lemma mt_cap_alt:
  "mt (RCap i (RAlt r q)) (p, s, c) = mt (RCap i r) (p, s, c) @ mt (RCap i q) (p, s, c)"
  "mt (RCap i (rlit w)) (p, s, c) =
     map (\<lambda>(p', t, c'). (p', t, (i, take (length s - length t) s) # c')) (eat w (p, s, c))"
  by (simp_all add: mt.simps(6))

lemmas pattern_steps = rx_caps_whole mt_rcat_Cons2 eat_append_ran ran_def

lemma parse_string_quote [simp]: "utf16 s \<Longrightarrow> parse_string (json_quote s) = Inr s"
  by (simp add: parse_string_def)

lemma read_header_exists:
  "utf16 w \<Longrightarrow> tryParseRequestCondition (J ''header('' @ json_quote w @ J '') != \"\"'')
    = Inr (Some (PHCond \<lparr>ph_source = Header, ph_path = w, ph_mode = MATCH_EXISTS, ph_value = []\<rparr>))"
  by (simp add: tryParseRequestCondition_def pattern_steps r_header_exists_def ph_found_def
      time_fails [simplified])

lemma read_param_exists:
  "utf16 w \<Longrightarrow> tryParseRequestCondition (J ''param('' @ json_quote w @ J '') != nil'')
    = Inr (Some (PHCond \<lparr>ph_source = Param, ph_path = w, ph_mode = MATCH_EXISTS, ph_value = []\<rparr>))"
  by (simp add: tryParseRequestCondition_def pattern_steps r_header_exists_def r_param_exists_def
      ph_found_def time_fails [simplified])

lemma read_header_contains:
  "utf16 w \<Longrightarrow> utf16 v \<Longrightarrow>
    tryParseRequestCondition (J ''has(header('' @ json_quote w @ J ''), '' @ json_quote v @ J '')'')
    = Inr (Some (PHCond \<lparr>ph_source = Header, ph_path = w, ph_mode = MATCH_CONTAINS, ph_value = v\<rparr>))"
  by (simp add: tryParseRequestCondition_def pattern_steps r_header_exists_def r_param_exists_def
      r_header_contains_def ph_found_def time_fails [simplified])

lemma read_param_contains:
  "utf16 w \<Longrightarrow> utf16 v \<Longrightarrow>
    tryParseRequestCondition (J ''param('' @ json_quote w @ J '') != nil && has(param('' @
      json_quote w @ J ''), '' @ json_quote v @ J '')'')
    = Inr (Some (PHCond \<lparr>ph_source = Param, ph_path = w, ph_mode = MATCH_CONTAINS, ph_value = v\<rparr>))"
  by (simp add: tryParseRequestCondition_def pattern_steps r_header_exists_def r_param_exists_def
      r_header_contains_def r_param_contains_def ph_found_def time_fails [simplified])

lemma read_param_cmp:
  assumes "utf16 w" "is_numeric v" "op \<in> {J ''>'', J ''>='', J ''<'', J ''<=''}"
  shows "tryParseRequestCondition (J ''param('' @ json_quote w @ J '') != nil && param('' @
      json_quote w @ J '') '' @ op @ J '' '' @ v)
    = Inr (Some (PHCond \<lparr>ph_source = Param, ph_path = w,
        ph_mode = (if op = J ''>'' then MATCH_GT else if op = J ''>='' then MATCH_GTE
           else if op = J ''<'' then MATCH_LT else MATCH_LTE), ph_value = v\<rparr>))"
proof -
  note rules = tryParseRequestCondition_def pattern_steps r_header_exists_def
      r_param_exists_def r_header_contains_def r_param_contains_def r_param_cmp_def ph_found_def
      time_fails [simplified] cap_num_end mt_cap_alt
  from assms(3) consider "op = J ''>''" | "op = J ''>=''" | "op = J ''<''" | "op = J ''<=''" by blast
  then show ?thesis
    using assms(1,2) by cases (simp_all add: rules)
qed

lemma read_equals:
  assumes "utf16 w" "list_all is_dot l" "l \<noteq> []" "parseExprLiteral l = Some v"
  shows "tryParseRequestCondition (source_expr src w @ J '' == '' @ l)
    = Inr (Some (PHCond \<lparr>ph_source = src, ph_path = w, ph_mode = MATCH_EQ, ph_value = v\<rparr>))"
  using assms
  by (cases src) (simp add: tryParseRequestCondition_def pattern_steps r_header_exists_def
      r_param_exists_def r_header_contains_def r_param_contains_def r_param_cmp_def r_equals_def
      ph_found_def time_fails [simplified] source_expr_def cap_dot_end mt_cap_alt)+

section \<open>Time conditions\<close>

lemma zone_step:
  assumes "z \<noteq> []" "34 \<notin> set z"
  shows "mt (rcat (RCap i r_zone # rlit (34 # w) # q # rs)) (p, z @ 34 # t, c)
    = mt (rcat (rlit (34 # w) # q # rs)) (ran p z, 34 # t, (i, z) # c)"
proof -
  let ?g = "mt (rcat (rlit (34 # w) # q # rs))"
  have "?g (p, a # t, c) = []" if "a \<noteq> 34" for p a t c
    using that by (simp add: mt_rcat_Cons2)
  moreover have "list_all (\<lambda>c. c \<noteq> 34) z" using assms(2) by (auto simp: list_all_iff)
  ultimately show ?thesis
    using cap_plus_split [of "\<lambda>c. c \<noteq> 34" ?g z "34 # t" i p c] assms(1)
    by (simp add: mt_rcat_Cons2 [of "RCap i r" for r] r_zone_def)
qed

text \<open>A run of numeric units stops in front of a space.\<close>

lemma num_run:
  assumes "is_numeric v" "t = [] \<or> hd t = 32"
  shows "mt (rcat (RCap i r_num_run # rlit (32 # w) # q # rs)) (p, v @ t, c)
    = mt (rcat (rlit (32 # w) # q # rs)) (ran p v, t, (i, v) # c)"
proof -
  let ?g = "mt (rcat (rlit (32 # w) # q # rs))"
  have "?g (p, a # t, c) = []" if "num_unit a" for p a t c
    using that by (auto simp add: mt_rcat_Cons2 num_unit_def is_digit_def)
  moreover have "t = [] \<or> \<not> num_unit (hd t)" using assms(2) by (auto simp: num_unit_def is_digit_def)
  ultimately show ?thesis
    using cap_plus_split [of num_unit ?g v t i p c] numeric_units [OF assms(1)]
      numeric_not_Nil [OF assms(1)]
    by (simp add: mt_rcat_Cons2 [of "RCap i r" for r] r_num_run_def)
qed

lemma num_step:
  "is_numeric v \<Longrightarrow> mt (rcat (RCap i r_num_run # rlit (32 # w) # q # rs)) (p, v @ 32 # t, c)
    = mt (rcat (rlit (32 # w) # q # rs)) (ran p v, 32 # t, (i, v) # c)"
  by (simp add: num_run)

lemma num_stuck:
  "is_numeric v \<Longrightarrow> mt (rcat (RCap i r_num_run # rlit (32 # w) # q # rs)) (p, v, c) = []"
  using num_run [of v "[]" i w q rs p c] by (simp add: mt_rcat_Cons2)

text \<open>After the function name, as one step: the five names exclude each other.\<close>

lemma func_step:
  assumes "f \<in> set TIME_FUNCS"
  shows "mt (RCap (Suc 0) r_time_func) (p, f @ 40 # t, c) = [(ran p f, 40 # t, (Suc 0, f) # c)]"
  using assms by (auto simp: TIME_FUNCS_def r_time_func_def mt_cap_alt)

lemma func_eat: "f \<in> set TIME_FUNCS \<Longrightarrow> \<not> is_ws (hd f) \<and> f \<noteq> [] \<and> hd f \<noteq> 40"
  by (auto simp: TIME_FUNCS_def is_ws_def)

text \<open>Unfolding a sequence at a literal, a back reference or the function name only.\<close>

lemmas seq_steps = mt_rcat_Cons2 [of "rlit w" for w] mt_rcat_Cons2 [of "RRef i" for i]
  mt_rcat_Cons2 [of "RCap (Suc 0) r_time_func"]

lemma func_not_paren: "f \<in> set TIME_FUNCS \<Longrightarrow> eat [40] (p, f @ t, c) = []"
  by (auto simp: TIME_FUNCS_def)

lemma paren_not_func: "mt (RCap (Suc 0) r_time_func) (p, 40 # t, c) = []"
  by (simp add: r_time_func_def mt_cap_alt)

definition range_text :: "jsstr \<Rightarrow> jsstr \<Rightarrow> jsstr \<Rightarrow> jsstr \<Rightarrow> jsstr" where
  "range_text f z s e = f @ J ''(\"'' @ z @ J ''\") >= '' @ s @ J '' || '' @ f @ J ''(\"''
     @ z @ J ''\") < '' @ e"

lemma match_range:
  assumes "f \<in> set TIME_FUNCS" "z \<noteq> []" "34 \<notin> set z" "is_numeric s" "is_numeric e"
  shows "\<exists>q. mt (rcat (r_range @ [REos])) (p, range_text f z s e, [])
    = [(q, [], [(4, e), (3, s), (2, z), (Suc 0, f)])]"
  using assms
  by (simp add: range_text_def r_range_def seq_steps func_step zone_step num_step eat_append_ran
      mt_rcat_Cons2 [of "RCap 4 r" for r] cap_num_end)

lemma read_range:
  assumes "f \<in> set TIME_FUNCS" "z \<noteq> []" "34 \<notin> set z" "is_numeric s" "is_numeric e"
  shows "tryParseTimeCondition (range_text f z s e)
    = Some (TimeCond \<lparr>tc_func = f, tc_zone = z, tc_mode = MATCH_RANGE, tc_value = [],
        tc_start = s, tc_end = e\<rparr>)"
  using match_range [OF assms, of None]
  by (auto simp: tryParseTimeCondition_def rx_caps_whole range_condition_def)

lemma num_paren_end:
  assumes "is_numeric v"
  shows "mt (rcat [RCap i r_num_run, rlit [41], REos]) (p, v @ [41], c) = [(Some 41, [], (i, v) # c)]"
proof -
  let ?g = "mt (rcat [rlit [41], REos])"
  have "?g (p, a # t, c) = []" if "num_unit a" for p a t c
    using that by (auto simp add: mt_rcat_Cons2 num_unit_def is_digit_def)
  then show ?thesis
    using cap_plus_split [of num_unit ?g v "[41]" i p c] numeric_units [OF assms]
      numeric_not_Nil [OF assms]
    by (simp add: mt_rcat_Cons2 r_num_run_def num_unit_def is_digit_def)
qed

lemma read_range_parens:
  assumes "f \<in> set TIME_FUNCS" "z \<noteq> []" "34 \<notin> set z" "is_numeric s" "is_numeric e"
  shows "tryParseTimeCondition (J ''('' @ range_text f z s e @ J '')'')
    = Some (TimeCond \<lparr>tc_func = f, tc_zone = z, tc_mode = MATCH_RANGE, tc_value = [],
        tc_start = s, tc_end = e\<rparr>)"
proof -
  have "mt (rcat (r_range @ [REos])) (None, J ''('' @ range_text f z s e @ J '')'', []) = []"
    by (simp add: r_range_def seq_steps paren_not_func)
  moreover have "mt (rcat ((rlit (J ''('') # r_range @ [rlit (J '')'')]) @ [REos]))
      (None, J ''('' @ range_text f z s e @ J '')'', []) = [(Some 41, [], [(4, e), (3, s), (2, z), (Suc 0, f)])]"
    using assms
    by (simp add: range_text_def r_range_def seq_steps func_step zone_step num_step eat_append_ran
      num_paren_end)
  ultimately show ?thesis
    by (simp add: tryParseTimeCondition_def rx_caps_whole range_condition_def del: J_Cons)
qed

lemma read_time_cmp:
  assumes "f \<in> set TIME_FUNCS" "z \<noteq> []" "34 \<notin> set z" "is_numeric v"
    "op \<in> {J ''=='', J ''>='', J ''<''}"
  shows "tryParseTimeCondition (f @ J ''(\"'' @ z @ J ''\") '' @ op @ J '' '' @ v)
    = Some (TimeCond \<lparr>tc_func = f, tc_zone = z,
        tc_mode = (if op = J ''=='' then MATCH_EQ else if op = J ''>='' then MATCH_GTE else MATCH_LT),
        tc_value = v, tc_start = [], tc_end = []\<rparr>)"
proof -
  let ?e = "f @ J ''(\"'' @ z @ J ''\") '' @ op @ J '' '' @ v"
  have op: "op = J ''=='' \<or> op = J ''>='' \<or> op = J ''<''" using assms(5) by auto
  have 1: "mt (rcat (r_range @ [REos])) (None, ?e, []) = []"
    using op assms by (auto simp: r_range_def seq_steps func_step zone_step num_stuck)
  have 2: "mt (rcat (([rlit (J ''('')] @ r_range @ [rlit (J '')'')]) @ [REos])) (None, ?e, []) = []"
    using assms by (simp add: r_range_def seq_steps func_not_paren del: eat.simps)
  have 3: "\<exists>q. mt (rcat (r_time_cmp @ [REos])) (None, ?e, []) = [(q, [], [(4, v), (3, op), (2, z), (Suc 0, f)])]"
    using op assms
    by (auto simp: r_time_cmp_def seq_steps func_step zone_step mt_rcat_Cons2 [of "RCap 3 r" for r]
        mt_cap_alt mt_rcat_Cons2 [of "RCap 4 r" for r] cap_num_end)
  then obtain q where 3: "mt (rcat (r_time_cmp @ [REos])) (None, ?e, [])
      = [(q, [], [(4, v), (3, op), (2, z), (Suc 0, f)])]" by blast
  show ?thesis
    unfolding tryParseTimeCondition_def rx_caps_whole 1 2 3 using op by auto
qed

section \<open>Round trip of one condition\<close>

lemma modes_distinct:
  "distinct [MATCH_EQ, MATCH_CONTAINS, MATCH_GT, MATCH_GTE, MATCH_LT, MATCH_LTE, MATCH_EXISTS, MATCH_RANGE]"
  "distinct [MATCH_RANGE, MATCH_EXISTS, MATCH_LTE, MATCH_LT, MATCH_GTE, MATCH_GT, MATCH_CONTAINS, MATCH_EQ]"
  by (simp_all add: match_defs)

lemmas mode_neq [simp] = modes_distinct [simplified]

text \<open>The readers on literals that are spelled out.\<close>

lemmas read_literal =
  read_header_exists [simplified] read_param_exists [simplified] read_header_contains [simplified]
  read_param_contains [simplified] read_equals [simplified]
  read_param_cmp [where op = "J ''>''", simplified] read_param_cmp [where op = "J ''>=''", simplified]
  read_param_cmp [where op = "J ''<''", simplified] read_param_cmp [where op = "J ''<=''", simplified]
  read_time_cmp [where op = "J ''==''", simplified] read_time_cmp [where op = "J ''>=''", simplified]
  read_time_cmp [where op = "J ''<''", simplified]

lemma built_time:
  assumes "canonical (TimeCond c)"
  shows "buildRequestConditionExpr (TimeCond c) =
    (if tc_mode c = MATCH_RANGE
     then range_text (tc_func c) (tc_zone c) (tc_start c) (tc_end c)
     else tc_func c @ J ''(\"'' @ tc_zone c @ J ''\") '' @
       (if tc_mode c = MATCH_EQ then J ''=='' else if tc_mode c = MATCH_GTE then J ''>=''
        else J ''<'') @ J '' '' @ tc_value c)"
  using assms canonical_normalize [OF assms]
  by (auto simp: buildTimeConditionExpr_def range_text_def numeric_trimmed json_quote_def
      unquoted_def Let_def match_defs split: if_splits)

lemma time_round_trip:
  assumes "canonical (TimeCond c)"
  shows "tryParseTimeCondition (buildRequestConditionExpr (TimeCond c)) = Some (TimeCond c)"
proof (cases "tc_mode c = MATCH_RANGE")
  case True
  with assms show ?thesis
    unfolding built_time [OF assms] by (simp add: read_range unquoted_def)
next
  case False
  then consider "tc_mode c = MATCH_EQ" | "tc_mode c = MATCH_GTE" | "tc_mode c = MATCH_LT"
    using assms by auto
  then show ?thesis
    using assms unfolding built_time [OF assms]
    by cases (simp_all add: read_literal unquoted_def)
qed

lemma time_round_trip_parens:
  assumes "canonical (TimeCond c)" "tc_mode c = MATCH_RANGE"
  shows "tryParseTimeCondition (J ''('' @ buildRequestConditionExpr (TimeCond c) @ J '')'')
    = Some (TimeCond c)"
  using assms unfolding built_time [OF assms(1)]
  by (simp add: read_range_parens unquoted_def del: J_Cons)

lemma ph_modes:
  assumes "canonical (PHCond c)"
  obtains "ph_mode c = MATCH_EXISTS" "ph_value c = []"
    | "ph_mode c = MATCH_CONTAINS" "plain_text (ph_value c)"
    | "ph_source c = Param" "is_numeric (ph_value c)"
        "ph_mode c \<in> {MATCH_GT, MATCH_GTE, MATCH_LT, MATCH_LTE}"
    | "ph_mode c = MATCH_EQ" "plain_text (ph_value c)" "one_line (ph_value c)"
  using assms by (auto split: if_splits)

lemma built_ph:
  assumes "canonical (PHCond c)"
  shows "buildRequestConditionExpr (PHCond c) =
    (let src = source_expr (ph_source c) (ph_path c) in
     if ph_mode c = MATCH_EXISTS then
       (if ph_source c = Header then src @ J '' != \"\"'' else src @ J '' != nil'')
     else if ph_mode c = MATCH_CONTAINS then
       (if ph_source c = Header then J ''has('' @ src @ J '', '' @ json_quote (ph_value c) @ J '')''
        else src @ J '' != nil && has('' @ src @ J '', '' @ json_quote (ph_value c) @ J '')'')
     else if ph_mode c = MATCH_EQ then src @ J '' == '' @ buildExprLiteral MATCH_EQ (ph_value c)
     else src @ J '' != nil && '' @ src @ J '' '' @
       (if ph_mode c = MATCH_GT then J ''>'' else if ph_mode c = MATCH_GTE then J ''>=''
        else if ph_mode c = MATCH_LT then J ''<'' else J ''<='') @ J '' '' @ ph_value c)"
proof -
  note n = canonical_normalize [OF assms]
  have w: "trim (ph_path c) = ph_path c" "ph_path c \<noteq> []"
    using assms by (auto simp: plain_text_trim)
  from assms show ?thesis
    by (cases rule: ph_modes)
      (use n w in \<open>auto simp: buildExprLiteral_contains numeric_trimmed Let_def\<close>)
qed

lemma ph_round_trip:
  assumes "canonical (PHCond c)"
  shows "tryParseRequestCondition (buildRequestConditionExpr (PHCond c)) = Inr (Some (PHCond c))"
proof -
  let ?w = "ph_path c"
  note n = canonical_normalize [OF assms]
  have w: "utf16 ?w" "trim ?w = ?w" "?w \<noteq> []"
    using assms by (auto simp: plain_text_trim plain_text_def)
  from assms show ?thesis
  proof (cases rule: ph_modes)
    case 1
    with n w show ?thesis
      by (cases "ph_source c")
        (simp_all add: Let_def source_expr_def read_literal)
  next
    case 2
    with n w show ?thesis
      by (cases "ph_source c")
        (simp_all add: Let_def source_expr_def buildExprLiteral_contains plain_text_def read_literal)
  next
    case 3
    then consider "ph_mode c = MATCH_GT" | "ph_mode c = MATCH_GTE" | "ph_mode c = MATCH_LT"
      | "ph_mode c = MATCH_LTE" by blast
    then show ?thesis
      using n w 3(1,2) by cases (simp_all add: Let_def source_expr_def numeric_trimmed read_literal)
  next
    case 4
    with n w dot_built_literal [of "ph_value c"] show ?thesis
      by (simp add: read_literal parse_built_literal)
  qed
qed

lemma condition_round_trip:
  assumes "canonical c"
  shows "tryParseRequestCondition (buildRequestConditionExpr c) = Inr (Some c)"
proof (cases c)
  case (PHCond r)
  with assms show ?thesis by (simp add: ph_round_trip del: buildRequestConditionExpr.simps)
next
  case (TimeCond r)
  with assms have "tryParseTimeCondition (buildRequestConditionExpr c) = Some c"
    by (simp only: time_round_trip)
  then show ?thesis by (simp add: tryParseRequestCondition_def)
qed

end
