(* ===== verification/Splitter.thy ===== *)
theory Splitter
  imports JsString
begin

text \<open>
  The interface of a function that splits a string at a separator. A client joins the printed
  parts, the provider promises that splitting gives the parts back as long as each is one the
  separator cannot be found in; then reading what was printed is reading the parts.
\<close>

locale splitter =
  fixes split :: "jsstr \<Rightarrow> jsstr list"
    and sep :: jsstr
    and part_ok :: "jsstr \<Rightarrow> bool"
  assumes split_join: "xs \<noteq> [] \<Longrightarrow> (\<And>x. x \<in> set xs \<Longrightarrow> part_ok x) \<Longrightarrow> split (join sep xs) = xs"
begin

lemma split_single: "part_ok x \<Longrightarrow> split x = [x]"
  using split_join [of "[x]"] by simp

lemma collect_printed:
  assumes "xs \<noteq> []" "\<And>x. x \<in> set xs \<Longrightarrow> part_ok (print x)"
    and "\<And>x. x \<in> set xs \<Longrightarrow> read (print x) = Inr (Some x)"
  shows "collect read (split (join sep (map print xs))) = Inr (Some xs)"
proof -
  have "split (join sep (map print xs)) = map print xs"
    using assms(1,2) by (intro split_join) auto
  moreover have "collect read (map print xs) = Inr (Some (map (\<lambda>x. x) xs))"
    using assms(3) by (intro collect_map_Some)
  ultimately show ?thesis by simp
qed

lemma filter_printed:
  assumes "xs \<noteq> []" "\<And>x. x \<in> set xs \<Longrightarrow> part_ok (print x)"
    and "\<And>x. x \<in> set xs \<Longrightarrow> read (print x) = Some x"
  shows "List.map_filter read (split (join sep (map print xs))) = xs"
    and "filter (\<lambda>s. read s = None) (split (join sep (map print xs))) = []"
proof -
  have s: "split (join sep (map print xs)) = map print xs"
    using assms(1,2) by (intro split_join) auto
  from assms(3) have "List.map_filter read (map print xs) = xs"
    by (induction xs) (auto simp: map_filter_def)
  with s show "List.map_filter read (split (join sep (map print xs))) = xs" by simp
  show "filter (\<lambda>s. read s = None) (split (join sep (map print xs))) = []"
    using assms(3) s by (auto simp: filter_empty_conv)
qed

end

text \<open>A splitter all of whose results are such parts: splitting again gives the same parts.\<close>

locale normal_splitter = splitter +
  assumes parts_ok: "x \<in> set (split s) \<Longrightarrow> part_ok x"
    and split_Nil: "split [] = []"
begin

lemma split_normal: "split (join sep (split s)) = split s"
  using split_join [of "split s"] parts_ok by (cases "split s = []") (auto simp: split_Nil)

end

section \<open>Lists separated by commas\<close>

text \<open>\<open>s.split(',').map((x) => x.trim()).filter(Boolean)\<close>\<close>

definition comma_segments :: "jsstr \<Rightarrow> jsstr list" where
  "comma_segments s = nonempty (map trim (split_ch 44 s))"

definition comma_part :: "jsstr \<Rightarrow> bool" where
  "comma_part x \<longleftrightarrow> x \<noteq> [] \<and> trimmed x \<and> 44 \<notin> set x"

lemma comma_segments_join:
  assumes "xs \<noteq> []" "\<And>x. x \<in> set xs \<Longrightarrow> comma_part x"
  shows "comma_segments (join [44] xs) = xs"
proof -
  have "split_ch 44 (join [44] xs) = xs"
    using assms by (intro split_join_ch) (auto simp: comma_part_def)
  moreover have "map trim xs = xs"
    using assms(2) by (intro map_idI trim_trimmed) (auto simp: comma_part_def)
  moreover have "nonempty xs = xs" using assms(2) by (intro nonempty_id) (auto simp: comma_part_def)
  ultimately show ?thesis by (simp add: comma_segments_def)
qed

lemma comma_segments_parts: "x \<in> set (comma_segments s) \<Longrightarrow> comma_part x"
  using set_trim by (auto simp: comma_segments_def comma_part_def dest: split_ch_pieces)

interpretation commas: normal_splitter comma_segments "[44]" comma_part
proof
  show "comma_segments [] = []" by (simp add: comma_segments_def)
qed (auto intro: comma_segments_join comma_segments_parts)

end
