(* ===== verification/RuleGroups.thy ===== *)
theory RuleGroups
  imports RuleConditions Splitter
begin

text \<open>
  Rule groups and whole rule expressions, printed and read back: which conditions survive the
  splitting at \<open>&&\<close>, and the split of a combined expression into its price and its rules.
\<close>

declare buildRequestConditionExpr.simps [simp del]

section \<open>The factor pattern\<close>

text \<open>
  The greedy \<open>.+\<close> of the factor pattern: if the continuation fails on every shorter rest, the
  first match is the whole text in front of it.
\<close>

lemma runs_first:
  assumes "\<And>u v q. s = u @ v \<Longrightarrow> u \<noteq> [] \<Longrightarrow> g (q, v, c) = []"
  shows "\<exists>rest. andthen (runs (\<lambda>_. True) (p, w @ s, c)) g = g (ran p w, s, c) @ rest"
proof (induction w arbitrary: p)
  case Nil
  have "andthen (runs (\<lambda>_. True) (p, s, c)) g = g (p, s, c)"
    using assms
  proof (induction s arbitrary: p)
    case (Cons a s)
    have "g (q, v, c) = []" if "s = u @ v" "u \<noteq> []" for u v q
      using Cons.prems [of "a # u" v] that by simp
    with Cons.IH have "andthen (runs (\<lambda>_. True) (Some a, s, c)) g = g (Some a, s, c)" by blast
    with Cons.prems [of "[a]" s] show ?case by simp
  qed simp
  then show ?case by simp
next
  case (Cons a w)
  then obtain rest where
    "andthen (runs (\<lambda>_. True) (Some a, w @ s, c)) g = g (ran (Some a) w, s, c) @ rest" by blast
  then show ?case by simp
qed

lemma cap_any_first:
  assumes "\<And>u v q c. s = u @ v \<Longrightarrow> u \<noteq> [] \<Longrightarrow> g (q, v, c) = []" "w \<noteq> []"
  shows "\<exists>rest. andthen (mt (RCap i (rplus (RChr (\<lambda>_. True)))) (p, w @ s, c)) g
    = g (ran p w, s, (i, w) # c) @ rest"
proof -
  let ?h = "\<lambda>(p', t, c'). g (p', t, (i, take (length (w @ s) - length t) (w @ s)) # c')"
  have "andthen (mt (RCap i (rplus (RChr (\<lambda>_. True)))) (p, w @ s, c)) g
      = andthen (mt (rplus (RChr (\<lambda>_. True))) (p, w @ s, c)) ?h"
    by (simp add: mt_cap andthen_assoc case_prod_unfold)
  moreover obtain a v where "w = a # v" using assms(2) by (cases w) auto
  then have "andthen (mt (rplus (RChr (\<lambda>_. True))) (p, w @ s, c)) ?h
      = andthen (runs (\<lambda>_. True) (Some a, v @ s, c)) ?h"
    by (simp add: mt_rplus_class)
  moreover have "\<exists>rest. andthen (runs (\<lambda>_. True) (Some a, v @ s, c)) ?h = ?h (ran (Some a) v, s, c) @ rest"
    using assms(1) by (intro runs_first) auto
  ultimately show ?thesis using \<open>w = a # v\<close> by auto
qed

definition factor_tail :: rx where
  "factor_tail = rcat [rlit (J '' ? ''), RCap 2 r_num_run, rlit (J '' : 1)''), REos]"

lemma factor_tail_needs: "mt factor_tail (q, v, c) \<noteq> [] \<Longrightarrow> \<exists>r. v = J '' ? '' @ r \<and> ends_with r (J '' : 1)'')"
proof -
  assume "mt factor_tail (q, v, c) \<noteq> []"
  then obtain y where y: "y \<in> set (mt factor_tail (q, v, c))" by (meson list.set_sel(1))
  then obtain x1 x2 x3 where x: "x1 \<in> set (eat (J '' ? '') (q, v, c))"
    "x2 \<in> set (mt (RCap 2 r_num_run) x1)" "x3 \<in> set (eat (J '' : 1)'') x2)"
    "y \<in> set (mt REos x3)"
    unfolding factor_tail_def by (auto simp: mt_rcat_Cons2 andthen_def simp del: J_Cons)
  from x(1) have 1: "v = J '' ? '' @ fst (snd x1)" by (auto dest: eat_suffix)
  from x(2) mt_suffix obtain w where 2: "fst (snd x1) = w @ fst (snd x2)" by blast
  from x(3) have 3: "fst (snd x2) = J '' : 1)'' @ fst (snd x3)" by (rule eat_suffix)
  from x(4) have "fst (snd x3) = []" by (cases x3) (auto split: if_splits)
  with 1 2 3 show ?thesis by (auto simp: ends_with_iff)
qed

lemma factor_tail_match:
  assumes "is_numeric m"
  shows "mt factor_tail (q, J '' ? '' @ m @ J '' : 1)'', c) = [(Some 41, [], (2, m) # c)]"
  using num_step [OF assms] by (simp add: factor_tail_def seq_steps)

lemma read_factor:
  assumes "is_numeric m" "w \<noteq> []"
  shows "rx_caps r_factor (J ''('' @ w @ J '' ? '' @ m @ J '' : 1)'') = Some [(2, m), (1, w)]"
proof -
  let ?s = "J '' ? '' @ m @ J '' : 1)''"
  have q: "63 \<notin> set m" using numeric_units [OF assms(1)] by (auto simp: list_all_iff num_unit_def is_digit_def)
  have fails: "mt factor_tail (q, v, c) = []" if "?s = u @ v" "u \<noteq> []" for u v q c
  proof (rule ccontr)
    assume "mt factor_tail (q, v, c) \<noteq> []"
    then obtain r where "v = J '' ? '' @ r" using factor_tail_needs by blast
    with that obtain a u' where "u = a # u'" "32 # 63 # 32 # m @ J '' : 1)'' = a # u' @ 32 # 63 # 32 # r"
      by (cases u) auto
    then have e: "63 # 32 # m @ J '' : 1)'' = u' @ 32 # 63 # 32 # r" by simp
    then obtain u'' where "32 # m @ J '' : 1)'' = u'' @ 32 # 63 # 32 # r" by (cases u') auto
    then have "63 \<in> set (32 # m @ J '' : 1)'')" by (metis in_set_conv_decomp list.set_intros(1,2) UnI2 set_append)
    with q show False by simp
  qed
  obtain rest where "andthen (mt (RCap 1 (rplus (RChr (\<lambda>_. True)))) (Some 40, w @ ?s, [])) (mt factor_tail)
      = mt factor_tail (ran (Some 40) w, ?s, [(1, w)]) @ rest"
    using cap_any_first [of ?s "mt factor_tail" w 1 "Some 40" "[]"] fails assms(2) by blast
  then show ?thesis
    unfolding factor_tail_match [OF assms(1)]
    by (simp add: r_factor_def rx_caps_whole mt_rcat_Cons2 [of "rlit w" for w]
        mt_rcat_Cons2 [of "RCap (Suc 0) r" for r] factor_tail_def)
qed

lemma set_andthen: "y \<in> set (andthen xs f) \<longleftrightarrow> (\<exists>x \<in> set xs. y \<in> set (f x))"
  by (simp add: andthen_def)

text \<open>A text in parentheses that does not end in \<open> : 1)\<close> is not a factor.\<close>

lemma r_factor_needs: "rx_caps r_factor s \<noteq> None \<Longrightarrow> ends_with s (J '' : 1)'')"
proof -
  assume "rx_caps r_factor s \<noteq> None"
  then obtain y where y: "y \<in> set (mt (rcat [rlit (J ''(''), RCap 1 (rplus (RChr (\<lambda>_. True))),
      rlit (J '' ? ''), RCap 2 r_num_run, rlit (J '' : 1)''), REos]) (None, s, []))"
    unfolding r_factor_def rx_caps_whole by (auto split: list.splits simp del: J_Cons)
  then obtain x1 x2 where x: "x1 \<in> set (eat (J ''('') (None, s, []))"
    "x2 \<in> set (mt (RCap 1 (rplus (RChr (\<lambda>_. True)))) x1)" "y \<in> set (mt factor_tail x2)"
    unfolding mt_rcat_Cons2 [of "rlit w" "RCap i r" for w i r] mt_rcat_Cons2 [of "RCap 1 r" for r]
      factor_tail_def [symmetric] set_andthen mt_rlit by blast
  from x(1) have 1: "s = J ''('' @ fst (snd x1)" by (auto dest: eat_suffix)
  from x(2) mt_suffix obtain w where 2: "fst (snd x1) = w @ fst (snd x2)" by blast
  from x(3) have "mt factor_tail x2 \<noteq> []" by (cases "mt factor_tail x2") auto
  then obtain r where 3: "fst (snd x2) = J '' ? '' @ r" "ends_with r (J '' : 1)'')"
    using factor_tail_needs [of "fst x2" "fst (snd x2)" "snd (snd x2)"] by auto
  from 1 2 3 show ?thesis by (auto simp: ends_with_iff)
qed

section \<open>Texts the splitters leave in one piece\<close>

text \<open>No parenthesis, ampersand or bar: units the splitters and the builder look for.\<close>

definition quiet :: "jsstr \<Rightarrow> bool" where
  "quiet s \<longleftrightarrow> list_all (\<lambda>c. c \<notin> {38, 40, 41, 124}) s"

lemma quiet_simps [simp]:
  "quiet []" "quiet (c # s) \<longleftrightarrow> c \<notin> {38, 40, 41, 124} \<and> quiet s"
  "quiet (s @ t) \<longleftrightarrow> quiet s \<and> quiet t"
  by (auto simp: quiet_def)

lemma quiet_json_body: "utf16 s \<Longrightarrow> quiet s \<Longrightarrow> quiet (json_body s)"
  unfolding quiet_def by (rule list_all_json_body) (auto simp: list_all_iff hex_digit_def)

lemma quiet_json_quote: "utf16 s \<Longrightarrow> quiet s \<Longrightarrow> quiet (json_quote s)"
  by (simp add: json_quote_def quiet_json_body)

lemma quiet_numeric: "is_numeric s \<Longrightarrow> quiet s"
  using numeric_units [of s] by (auto simp: quiet_def list_all_iff num_unit_def is_digit_def)

lemma quiet_no_parens: "quiet s \<Longrightarrow> no_parens s"
  by (auto simp: quiet_def no_parens_def list_all_iff)

lemma quiet_func: "f \<in> set TIME_FUNCS \<Longrightarrow> quiet f"
  by (auto simp: TIME_FUNCS_def)

fun separable :: "request_condition \<Rightarrow> bool" where
  "separable (PHCond c) \<longleftrightarrow>
     quiet (ph_path c) \<and> quiet (ph_value c) \<and>
     (ph_source c = Param \<longrightarrow> ph_mode c \<in> {MATCH_EQ, MATCH_EXISTS})"
| "separable (TimeCond c) \<longleftrightarrow> quiet (tc_zone c)"

text \<open>What the splitting of a group needs of a condition's text.\<close>

definition solid :: "jsstr \<Rightarrow> bool" where
  "solid e \<longleftrightarrow> e \<noteq> [] \<and> trimmed e \<and> balanced e \<and> 38 \<notin> set e"

lemma quiet_38: "quiet s \<Longrightarrow> 38 \<notin> set s \<and> 124 \<notin> set s"
  by (auto simp: quiet_def list_all_iff)

lemma bal_quiet: "quiet s \<Longrightarrow> 0 \<le> d \<Longrightarrow> bal d (s @ t) \<longleftrightarrow> bal d t"
  by (simp add: bal_no_parens quiet_no_parens)

lemma numeric_last: "is_numeric s \<Longrightarrow> \<not> is_ws (last s)"
  using numeric_units [of s] numeric_not_Nil [of s] num_unit_not_ws
  by (simp add: list_all_iff)

lemma literal_shape:
  assumes "plain_text v" "quiet v"
  shows "quiet (buildExprLiteral MATCH_EQ v)" "buildExprLiteral MATCH_EQ v \<noteq> []"
    "\<not> is_ws (last (buildExprLiteral MATCH_EQ v))"
proof -
  have v: "trim v = v" "quiet (json_quote v)"
    using assms by (simp_all add: plain_text_trim plain_text_def quiet_json_quote)
  consider "buildExprLiteral MATCH_EQ v = J ''true''" | "buildExprLiteral MATCH_EQ v = J ''false''"
    | "is_numeric v" "buildExprLiteral MATCH_EQ v = v" | "buildExprLiteral MATCH_EQ v = json_quote v"
    using v(1)
    by (cases "v = J ''true''"; cases "v = J ''false''"; cases "is_numeric v")
      (simp_all add: buildExprLiteral_def)
  then have "quiet (buildExprLiteral MATCH_EQ v) \<and> buildExprLiteral MATCH_EQ v \<noteq> []
      \<and> \<not> is_ws (last (buildExprLiteral MATCH_EQ v))"
    using v(2) assms(2) by cases (simp_all add: numeric_not_Nil numeric_last is_ws_def [of 34]
      is_ws_def [of 101] json_quote_def)
  then show "quiet (buildExprLiteral MATCH_EQ v)" "buildExprLiteral MATCH_EQ v \<noteq> []"
    "\<not> is_ws (last (buildExprLiteral MATCH_EQ v))" by auto
qed

lemma solid_texts:
  assumes "canonical c" "separable c"
  shows "solid (buildRequestConditionExpr c)"
    and "124 \<in> set (buildRequestConditionExpr c) \<Longrightarrow>
      \<exists>r. c = TimeCond r \<and> tc_mode r = MATCH_RANGE"
proof -
  have "solid (buildRequestConditionExpr c) \<and> (124 \<in> set (buildRequestConditionExpr c) \<longrightarrow>
      (\<exists>r. c = TimeCond r \<and> tc_mode r = MATCH_RANGE))"
  proof (cases c)
    case (TimeCond r)
    have f: "quiet (tc_func r)" "tc_func r \<noteq> []" "\<not> is_ws (hd (tc_func r))"
      using assms TimeCond func_eat quiet_func by auto
    have z: "quiet (tc_zone r)" using assms TimeCond by simp
    show ?thesis
    proof (cases "tc_mode r = MATCH_RANGE")
      case True
      with assms TimeCond have "is_numeric (tc_start r)" "is_numeric (tc_end r)" by auto
      with True f z TimeCond assms(1) show ?thesis
        by (simp add: built_time range_text_def solid_def trimmed_def bal_quiet quiet_numeric
            quiet_38 numeric_last numeric_not_Nil balanced_no_parens quiet_no_parens)
    next
      case False
      with assms TimeCond have "is_numeric (tc_value r)" by auto
      with False f z TimeCond assms(1) show ?thesis
        by (auto simp add: built_time solid_def trimmed_def bal_quiet quiet_numeric
            quiet_38 numeric_last numeric_not_Nil balanced_no_parens quiet_no_parens)
    qed
  next
    case (PHCond r)
    then have can: "canonical (PHCond r)" using assms by simp
    have p: "quiet (json_quote (ph_path r))"
      using can assms(2) PHCond by (simp add: quiet_json_quote plain_text_def)
    from can show ?thesis
    proof (cases rule: ph_modes)
      case 1
      with p PHCond can show ?thesis
        by (cases "ph_source r")
          (auto simp: built_ph source_expr_def solid_def trimmed_def bal_quiet quiet_38 is_ws_def)
    next
      case 2
      with PHCond assms have "quiet (json_quote (ph_value r))" "ph_source r = Header"
        by (cases "ph_source r"; auto simp: quiet_json_quote plain_text_def)+
      with 2 p PHCond can show ?thesis
        by (auto simp: built_ph source_expr_def solid_def trimmed_def bal_quiet quiet_38 is_ws_def)
    next
      case 3
      with PHCond assms show ?thesis by auto
    next
      case 4
      let ?l = "buildExprLiteral MATCH_EQ (ph_value r)"
      have l: "quiet ?l" "?l \<noteq> []" "\<not> is_ws (last ?l)"
        using 4 PHCond assms(2) by (auto simp: literal_shape)
      with 4 p PHCond can show ?thesis
        by (cases "ph_source r") (auto simp: built_ph source_expr_def solid_def trimmed_def bal_quiet
            quiet_38 is_ws_def balanced_no_parens quiet_no_parens)
    qed
  qed
  then show "solid (buildRequestConditionExpr c)"
    and "124 \<in> set (buildRequestConditionExpr c) \<Longrightarrow>
      \<exists>r. c = TimeCond r \<and> tc_mode r = MATCH_RANGE" by auto
qed

section \<open>Groups\<close>

text \<open>The text of a condition inside a group of several: a range goes into parentheses.\<close>

definition and_part :: "jsstr \<Rightarrow> jsstr" where
  "and_part e = (if js_includes e (J '' || '') then J ''('' @ e @ J '')'' else e)"

definition combined_text :: "jsstr list \<Rightarrow> jsstr" where
  "combined_text es = (case es of [e] \<Rightarrow> e | _ \<Rightarrow> join (J '' && '') (map and_part es))"

definition factor_text :: "jsstr \<Rightarrow> jsstr \<Rightarrow> jsstr" where
  "factor_text w m = J ''('' @ w @ J '' ? '' @ m @ J '' : 1)''"

definition canonical_group :: "request_rule_group \<Rightarrow> bool" where
  "canonical_group g \<longleftrightarrow> rg_conditions g \<noteq> [] \<and> is_numeric (rg_multiplier g)
     \<and> list_all (\<lambda>c. canonical c \<and> separable c) (rg_conditions g)"

lemma solid_and_part:
  assumes "solid e"
  shows "solid (and_part e)"
  using assms balanced_parens [of e] by (auto simp: and_part_def solid_def trimmed_def is_ws_def)

lemma solid_part: "solid e \<Longrightarrow> part 32 38 e"
proof -
  assume "solid e"
  then have "38 \<notin> set e" "last e \<noteq> 32" "depth e = 0"
    using bal_depth [of 0 e] by (auto simp: solid_def trimmed_def is_ws_def)
  then show ?thesis by (auto simp: part_def intro: calm_no_second)
qed

lemma trim_solid: "solid e \<Longrightarrow> trim e = e \<and> e \<noteq> []"
  by (simp add: solid_def trim_trimmed)

lemma map_trim_solid: "\<forall>e \<in> set es. solid e \<Longrightarrow> nonempty (map trim es) = es"
  by (induction es) (auto simp: trim_solid)

lemma split_and_join:
  assumes "es \<noteq> []" "\<forall>e \<in> set es. solid e"
  shows "splitTopLevelAnd (join (J '' && '') es) = es"
proof -
  have "split_raw [32, 38, 38, 32] (join [32, 38, 38, 32] es) 0 [] = es"
    using assms by (intro split_raw_join) (auto intro: solid_part)
  then show ?thesis by (simp add: splitTopLevelAnd_def map_trim_solid assms)
qed

interpretation ands: splitter splitTopLevelAnd "J '' && ''" solid
  by unfold_locales (rule split_and_join, auto)

lemma read_part:
  assumes "canonical c" "separable c"
  shows "tryParseRequestCondition (trim (and_part (buildRequestConditionExpr c))) = Inr (Some c)"
proof -
  let ?e = "buildRequestConditionExpr c"
  have t: "trim (and_part ?e) = and_part ?e"
    using solid_texts(1) [OF assms] solid_and_part trim_solid by blast
  show ?thesis
  proof (cases "js_includes ?e (J '' || '')")
    case True
    then have "124 \<in> set ?e" by (auto simp: js_includes_iff)
    then obtain r where r: "c = TimeCond r" "tc_mode r = MATCH_RANGE"
      using solid_texts(2) [OF assms] by blast
    with True t time_round_trip_parens [of r] assms(1)
    show ?thesis by (simp only: and_part_def tryParseRequestCondition_def if_True) simp
  next
    case False
    with t condition_round_trip [OF assms(1)] show ?thesis by (simp add: and_part_def)
  qed
qed

lemma balanced_join:
  "\<forall>e \<in> set es. balanced e \<Longrightarrow> no_parens op \<Longrightarrow> balanced (join op es)"
proof (induction es)
  case (Cons e es)
  then show ?case
    by (auto simp: join_Cons bal_no_parens balanced_no_parens intro!: bal_append)
qed simp

lemma built_group:
  assumes "canonical_group g"
  shows "buildRuleGroupFactor g =
    factor_text (combined_text (map buildRequestConditionExpr (rg_conditions g))) (rg_multiplier g)"
proof -
  let ?es = "map buildRequestConditionExpr (rg_conditions g)"
  have "\<forall>e \<in> set ?es. solid e" "?es \<noteq> []"
    using assms solid_texts(1) by (auto simp: canonical_group_def list_all_iff)
  moreover from this(1) have "[] \<notin> set ?es" by (meson solid_def)
  then have "nonempty ?es = ?es" by (rule nonempty_id)
  moreover have "is_numeric (rg_multiplier g)" using assms by (simp add: canonical_group_def)
  ultimately show ?thesis
    by (simp add: buildRuleGroupFactor_def numeric_trimmed factor_text_def combined_text_def
        and_part_def [abs_def] del: map_is_Nil_conv split: list.splits)
qed

lemma combined_shape:
  assumes "canonical_group g"
  shows "balanced (combined_text (map buildRequestConditionExpr (rg_conditions g)))"
    and "combined_text (map buildRequestConditionExpr (rg_conditions g)) \<noteq> []"
    and "collect (\<lambda>ap. tryParseRequestCondition (trim ap))
      (splitTopLevelAnd (combined_text (map buildRequestConditionExpr (rg_conditions g))))
      = Inr (Some (rg_conditions g))"
proof -
  let ?cs = "rg_conditions g" and ?b = buildRequestConditionExpr
  have cs: "\<And>c. c \<in> set ?cs \<Longrightarrow> canonical c \<and> separable c" "?cs \<noteq> []"
    using assms by (auto simp: canonical_group_def list_all_iff)
  then have solid: "\<forall>e \<in> set (map ?b ?cs). solid e" using solid_texts(1) by auto
  have "balanced (combined_text (map ?b ?cs)) \<and> combined_text (map ?b ?cs) \<noteq> [] \<and>
    collect (\<lambda>ap. tryParseRequestCondition (trim ap)) (splitTopLevelAnd (combined_text (map ?b ?cs)))
      = Inr (Some ?cs)"
  proof (cases "tl ?cs = []")
    case True
    then obtain c where c: "?cs = [c]" using cs(2) by (cases ?cs) auto
    then have "solid (?b c)" using solid by simp
    with c cs(1) [of c] ands.split_single [of "?b c"] trim_solid [of "?b c"] show ?thesis
      by (simp add: combined_text_def condition_round_trip solid_def)
  next
    case False
    let ?es = "map and_part (map ?b ?cs)"
    from False have "combined_text (map ?b ?cs) = join (J '' && '') ?es"
      by (cases ?cs; cases "tl ?cs") (simp_all add: combined_text_def)
    moreover have es: "\<forall>e \<in> set ?es. solid e" "?es \<noteq> []"
      using solid solid_and_part cs(2) by auto
    then have "balanced (join (J '' && '') ?es)"
      by (intro balanced_join) (auto simp: solid_def)
    moreover have "join (J '' && '') ?es \<noteq> []" using es False
      by (cases ?cs; cases "tl ?cs") auto
    moreover have "collect (\<lambda>ap. tryParseRequestCondition (trim ap))
        (splitTopLevelAnd (join (J '' && '') (map (\<lambda>c. and_part (?b c)) ?cs))) = Inr (Some ?cs)"
      using cs es(1) by (intro ands.collect_printed read_part) auto
    ultimately show ?thesis by (simp add: comp_def)
  qed
  then show "balanced (combined_text (map ?b ?cs))" "combined_text (map ?b ?cs) \<noteq> []"
    "collect (\<lambda>ap. tryParseRequestCondition (trim ap)) (splitTopLevelAnd (combined_text (map ?b ?cs)))
      = Inr (Some ?cs)" by auto
qed

lemma read_group:
  "canonical_group g \<Longrightarrow> tryParseRuleGroupFactor (buildRuleGroupFactor g) = Inr (Some g)"
  using combined_shape [of g] read_factor [of "rg_multiplier g"]
  by (auto simp: built_group tryParseRuleGroupFactor_def factor_text_def canonical_group_def
      simp del: J_Cons)

lemma factor_shape:
  assumes "canonical_group g"
  obtains x where "buildRuleGroupFactor g = [40] @ x @ [41]" "balanced x"
proof
  let ?w = "combined_text (map buildRequestConditionExpr (rg_conditions g))"
  let ?x = "?w @ J '' ? '' @ rg_multiplier g @ J '' : 1''"
  show "buildRuleGroupFactor g = [40] @ ?x @ [41]"
    using assms by (simp add: built_group factor_text_def)
  have "no_parens (J '' ? '' @ rg_multiplier g @ J '' : 1'')"
    using assms by (simp add: canonical_group_def quiet_numeric quiet_no_parens)
  then show "balanced ?x"
    using combined_shape(1) [OF assms] by (blast intro: bal_append balanced_no_parens)
qed

section \<open>Rule expressions\<close>

text \<open>A text in one pair of parentheses is one part of a product.\<close>

lemma parens_solid: "balanced x \<Longrightarrow> trim ([40] @ x @ [41]) = [40] @ x @ [41]"
  by (rule trim_trimmed) (simp add: trimmed_def is_ws_def)

lemma split_multiply_join:
  assumes "es \<noteq> []" "\<And>e. e \<in> set es \<Longrightarrow> \<exists>x. e = [40] @ x @ [41] \<and> balanced x"
  shows "splitTopLevelMultiply (join (J '' * '') es) = es"
proof -
  have "split_raw [32, 42, 32] (join [32, 42, 32] es) 0 [] = es"
  proof (rule split_raw_join)
    show "\<forall>e \<in> set es. part 32 42 e"
      using assms(2) part_parens [of _ 32 42] by fastforce
  qed (use assms(1) in simp_all)
  moreover have "nonempty (map trim es) = es"
    using assms(2)
  proof (induction es)
    case (Cons e es)
    then obtain x where "e = [40] @ x @ [41]" "balanced x" by auto
    with Cons parens_solid [of x] show ?case by simp
  qed simp
  ultimately show ?thesis by (simp add: splitTopLevelMultiply_def)
qed

interpretation factors: splitter splitTopLevelMultiply "J '' * ''" "\<lambda>e. \<exists>x. e = [40] @ x @ [41] \<and> balanced x"
  by unfold_locales (rule split_multiply_join, auto)

lemma join_parens_trim:
  assumes "es \<noteq> []" "\<And>e. e \<in> set es \<Longrightarrow> \<exists>x. e = [40] @ x @ [41]"
  shows "trim (join op es) = join op es \<and> join op es \<noteq> []"
proof -
  from assms have "join op es \<noteq> [] \<and> hd (join op es) = 40 \<and> last (join op es) = 41"
  proof (induction es)
    case (Cons e es)
    then obtain x where "e = [40] @ x @ [41]" by auto
    with Cons show ?case by (cases "es = []") (auto simp: join_Cons)
  qed simp
  then show ?thesis by (auto intro!: trim_trimmed simp: trimmed_def is_ws_def)
qed

lemma rule_expr_text:
  assumes "list_all canonical_group gs"
  shows "buildRequestRuleExpr gs = join (J '' * '') (map buildRuleGroupFactor gs)"
proof -
  have "[] \<notin> set (map buildRuleGroupFactor gs)"
    using assms by (auto simp: list_all_iff elim!: factor_shape dest: sym)
  from nonempty_id [OF this] show ?thesis by (simp only: buildRequestRuleExpr_def)
qed

lemma rule_factors:
  "list_all canonical_group gs \<Longrightarrow> e \<in> set (map buildRuleGroupFactor gs) \<Longrightarrow>
    \<exists>x. e = [40] @ x @ [41] \<and> balanced x"
  by (auto simp: list_all_iff elim!: factor_shape)

lemma read_rules:
  assumes "list_all canonical_group gs"
  shows "tryParseRequestRuleExpr (buildRequestRuleExpr gs) = Inr (Some gs)"
proof (cases "gs = []")
  case True
  then show ?thesis by (simp add: tryParseRequestRuleExpr_def buildRequestRuleExpr_def)
next
  case False
  let ?es = "map buildRuleGroupFactor gs"
  have "collect tryParseRuleGroupFactor (splitTopLevelMultiply (join (J '' * '') ?es)) = Inr (Some gs)"
    using False rule_factors [OF assms] assms
    by (intro factors.collect_printed read_group) (auto simp: list_all_iff)
  moreover have "trim (join (J '' * '') ?es) = join (J '' * '') ?es \<and> join (J '' * '') ?es \<noteq> []"
    using False rule_factors [OF assms] by (intro join_parens_trim) auto
  ultimately show ?thesis
    by (simp add: tryParseRequestRuleExpr_def rule_expr_text [OF assms] Let_def del: J_Cons)
qed

section \<open>Price expression and rules together\<close>

text \<open>
  A base price expression that splits off again: no white space at its ends, balanced, not
  itself in parentheses, and not ending like a rule.
\<close>

definition base_expr :: "jsstr \<Rightarrow> bool" where
  "base_expr b \<longleftrightarrow> b \<noteq> [] \<and> trimmed b \<and> balanced b \<and> \<not> hasFullOuterParens b
     \<and> \<not> ends_with b (J '' : 1'')"

lemma base_not_rule:
  assumes "base_expr b"
  shows "tryParseRequestRuleExpr (J ''('' @ b @ J '')'') = Inr None"
proof -
  have b: "balanced b" "\<not> ends_with b (J '' : 1'')" using assms by (auto simp: base_expr_def)
  have "\<not> ends_with (J ''('' @ b @ J '')'') (J '' : 1)'')"
  proof
    assume "ends_with (J ''('' @ b @ J '')'') (J '' : 1)'')"
    then obtain r where r: "40 # b = r @ J '' : 1''" by (auto simp: ends_with_iff)
    then have "b = tl r @ J '' : 1''" by (cases r) auto
    with b(2) show False by (auto simp: ends_with_iff)
  qed
  then have "rx_caps r_factor (J ''('' @ b @ J '')'') = None" using r_factor_needs by blast
  then have "tryParseRuleGroupFactor (J ''('' @ b @ J '')'') = Inr None"
    by (simp add: tryParseRuleGroupFactor_def)
  moreover have "splitTopLevelMultiply (J ''('' @ b @ J '')'') = [J ''('' @ b @ J '')'']"
    using factors.split_single [of "J ''('' @ b @ J '')''"] b by simp
  ultimately show ?thesis
    using parens_solid [OF b(1)] by (simp add: tryParseRequestRuleExpr_def Let_def)
qed

lemma sort_rules:
  "list_all canonical_group gs \<Longrightarrow> sort_parts (map buildRuleGroupFactor gs) = Inr (map buildRuleGroupFactor gs, [])"
proof (induction gs)
  case (Cons g gs)
  then have "tryParseRequestRuleExpr (buildRequestRuleExpr [g]) = Inr (Some [g])"
    by (intro read_rules) simp
  moreover have "buildRequestRuleExpr [g] = buildRuleGroupFactor g"
    using Cons.prems rule_expr_text [of "[g]"] by simp
  ultimately show ?case using Cons by simp
qed simp

lemma unwrap_base:
  assumes "base_expr b"
  shows "unwrapOuterParens (J ''('' @ b @ J '')'') = b"
proof -
  have b: "balanced b" "trim b = b" "\<not> hasFullOuterParens b"
    using assms by (auto simp: base_expr_def trim_trimmed)
  then have "hasFullOuterParens (J ''('' @ b @ J '')'')" by (auto simp: hasFullOuterParens_iff)
  then have "unwrap_loop (J ''('' @ b @ J '')'') = unwrap_loop (trim b)"
    by (subst unwrap_loop.simps) (simp add: slice_ends butlast_append)
  then show ?thesis
    using b parens_solid [OF b(1)] by (simp add: unwrapOuterParens_def unwrap_loop_id)
qed

lemma split_combined:
  assumes "base_expr b" "list_all canonical_group gs" "gs \<noteq> []"
  shows "splitBillingExprAndRequestRules (combineBillingExpr b (buildRequestRuleExpr gs))
    = Inr \<lparr>billingExpr = b, requestRuleExpr = buildRequestRuleExpr gs\<rparr>"
proof -
  let ?w = "J ''('' @ b @ J '')''" and ?fs = "map buildRuleGroupFactor gs"
  have b: "balanced b" "trim b = b" "b \<noteq> []" using assms(1) by (auto simp: base_expr_def trim_trimmed)
  have r: "buildRequestRuleExpr gs = join (J '' * '') ?fs" by (rule rule_expr_text [OF assms(2)])
  have tr: "trim (join (J '' * '') ?fs) = join (J '' * '') ?fs \<and> join (J '' * '') ?fs \<noteq> []"
    using assms(3) rule_factors [OF assms(2)] by (intro join_parens_trim) auto
  have es: "\<exists>x. e = [40] @ x @ [41] \<and> balanced x" if "e \<in> set (?w # ?fs)" for e
    using that b(1) rule_factors [OF assms(2), of e] by auto
  have c: "combineBillingExpr b (buildRequestRuleExpr gs) = join (J '' * '') (?w # ?fs)"
    using b tr assms(3) by (simp add: combineBillingExpr_def r join_Cons)
  have t: "trim (join (J '' * '') (?w # ?fs)) = join (J '' * '') (?w # ?fs)
      \<and> join (J '' * '') (?w # ?fs) \<noteq> []"
    using es by (intro join_parens_trim) blast+
  have s: "splitTopLevelMultiply (join (J '' * '') (?w # ?fs)) = ?w # ?fs"
    using es by (intro split_multiply_join) auto
  have "sort_parts (?w # ?fs) = Inr (?fs, [?w])"
    using base_not_rule [OF assms(1)] sort_rules [OF assms(2)] by simp
  with t s unwrap_base [OF assms(1)] assms(3) show ?thesis
    unfolding c by (simp add: splitBillingExprAndRequestRules_def r Let_def del: J_Cons join.simps)
qed

end
