(* ===== verification/RegexFirst.thy ===== *)
theory RegexFirst
  imports TierExpr RuleGroups
begin

text \<open>
  Reasoning about the first match of a pattern that backtracks: what a pattern can consume, whatever
  the context, and when the state after a given text is the first from which the rest matches. It is
  applied to the numbers of the tier editor, whose pattern is not a plain run of a class.
\<close>

section \<open>What a pattern can consume\<close>

definition eats :: "rx \<Rightarrow> jsstr \<Rightarrow> bool" where
  "eats r w \<longleftrightarrow> (\<forall>p t c. (ran p w, t, c) \<in> set (mt r (p, w @ t, c)))"

lemma eatsD: "eats r w \<Longrightarrow> (ran p w, t, c) \<in> set (mt r (p, w @ t, c))"
  by (simp add: eats_def)

lemma eats_cat:
  assumes "eats r u" "eats q v"
  shows "eats (RCat r q) (u @ v)"
  unfolding eats_def mt_RCat set_andthen
proof (intro allI)
  fix p t c
  show "\<exists>x \<in> set (mt r (p, (u @ v) @ t, c)). (ran p (u @ v), t, c) \<in> set (mt q x)"
    using eatsD [OF assms(1), of p "v @ t" c] eatsD [OF assms(2), of "ran p u" t c] by auto
qed

lemma eats_alt: "eats r w \<or> eats q w \<Longrightarrow> eats (RAlt r q) w"
  by (auto simp: eats_def)

lemma eats_emp: "eats REmp []"
  by (simp add: eats_def)

lemma eats_lit: "eats (rlit w) w"
  by (simp add: eats_def ran_def)

lemma eats_chr: "P a \<Longrightarrow> eats (RChr P) [a]"
  by (simp add: eats_def)

lemma runs_prefix: "list_all P w \<Longrightarrow> (ran p w, t, c) \<in> set (runs P (p, w @ t, c))"
proof (induction w arbitrary: p)
  case Nil
  then show ?case by (cases t) simp_all
qed auto

lemma eats_star: "list_all P w \<Longrightarrow> eats (RStar (RChr P)) w"
  by (simp add: eats_def runs_prefix)

lemma eats_plus: "list_all P w \<Longrightarrow> w \<noteq> [] \<Longrightarrow> eats (rplus (RChr P)) w"
proof (cases w)
  case (Cons a v)
  assume "list_all P w"
  with Cons have "eats (RCat (RChr P) (RStar (RChr P))) ([a] @ v)"
    by (intro eats_cat eats_chr eats_star) auto
  with Cons show ?thesis by (simp add: rplus_def)
qed simp

lemma eats_opt: "eats r w \<or> w = [] \<Longrightarrow> eats (ropt r) w"
  by (auto simp: ropt_def intro!: eats_alt eats_emp)

lemma eats_rcat: "eats r u \<Longrightarrow> eats (rcat (q # rs)) v \<Longrightarrow> eats (rcat (r # q # rs)) (u @ v)"
  unfolding rcat.simps by (rule eats_cat)

section \<open>Patterns without captures\<close>

fun no_caps :: "rx \<Rightarrow> bool" where
  "no_caps (RCat r q) \<longleftrightarrow> no_caps r \<and> no_caps q"
| "no_caps (RAlt r q) \<longleftrightarrow> no_caps r \<and> no_caps q"
| "no_caps (RStar r) \<longleftrightarrow> no_caps r"
| "no_caps (RCap i r) \<longleftrightarrow> False"
| "no_caps (RRef i) \<longleftrightarrow> False"
| "no_caps r \<longleftrightarrow> True"

definition step_over :: "rstate \<Rightarrow> rstate \<Rightarrow> bool" where
  "step_over x y \<longleftrightarrow> snd (snd y) = snd (snd x) \<and>
     (\<exists>w. fst (snd x) = w @ fst (snd y) \<and> fst y = ran (fst x) w)"

lemma step_over_refl: "step_over x x"
  by (auto simp: step_over_def intro: exI [of _ "[]"])

lemma step_over_trans: "step_over x y \<Longrightarrow> step_over y z \<Longrightarrow> step_over x z"
  unfolding step_over_def by (metis append_assoc ran_append)

lemma iterate_step_over:
  assumes "\<And>x y. y \<in> set (f x) \<Longrightarrow> step_over x y"
  shows "y \<in> set (iterate n f x) \<Longrightarrow> step_over x y"
proof (induction n arbitrary: x)
  case (Suc n)
  then consider "y = x" | z where "z \<in> set (f x)" "y \<in> set (iterate n f z)" by auto
  then show ?case
    by cases (auto simp: step_over_refl intro: step_over_trans [OF assms] Suc.IH)
qed (simp add: step_over_refl)

lemma mt_step_over: "no_caps r \<Longrightarrow> y \<in> set (mt r x) \<Longrightarrow> step_over x y"
proof (induction r x arbitrary: y rule: mt.induct)
  case (2 Q p s c)
  then show ?case
    by (cases s) (auto simp: step_over_def split: if_splits intro: exI [of _ "[hd s]"])
next
  case (3 r q x)
  then obtain z where "z \<in> set (mt r x)" "y \<in> set (mt q z)" by (auto simp: mt.simps(3))
  with 3 have "step_over x z" "step_over z y" by auto
  then show ?case by (rule step_over_trans)
next
  case (5 r x)
  from 5(3) have "y \<in> set (iterate (rest_len x) (mt r) x)" by (simp only: mt.simps(5))
  then show ?case by (rule iterate_step_over [rotated]) (use 5(1,2) in auto)
qed (auto simp: step_over_refl split: if_splits)

section \<open>The first match\<close>

lemma andthen_first:
  "full \<in> set xs \<Longrightarrow> (\<And>y. y \<in> set xs \<Longrightarrow> y = full \<or> g y = []) \<Longrightarrow> \<exists>zs. andthen xs g = g full @ zs"
proof (induction xs)
  case (Cons x xs)
  show ?case
  proof (cases "x = full")
    case False
    with Cons.prems(2) [of x] have "g x = []" by simp
    moreover from False Cons.prems have "\<exists>zs. andthen xs g = g full @ zs"
      by (intro Cons.IH) auto
    ultimately show ?thesis by simp
  qed simp
qed simp

lemma andthen_none: "(\<And>y. y \<in> set xs \<Longrightarrow> g y = []) \<Longrightarrow> andthen xs g = []"
  by (induction xs) auto

text \<open>
  A captured pattern over a class \<open>P\<close>, in front of something outside it: it takes the whole text
  \<open>w\<close> when what follows cannot start inside the class.
\<close>

lemma cap_elem:
  assumes "y \<in> set (mt (RCap i r) (p, s, c))" "no_caps r" "rx_over P r"
  obtains v u where "s = v @ u" "list_all P v" "y = (ran p v, u, (i, v) # c)"
proof -
  from assms(1) obtain x where x: "x \<in> set (mt r (p, s, c))"
    and y: "y = (fst x, fst (snd x), (i, take (length s - length (fst (snd x))) s) # snd (snd x))"
    by (auto simp: mt.simps(6) case_prod_unfold)
  obtain v where v: "s = v @ fst (snd x)" "fst x = ran p v" "snd (snd x) = c"
    using mt_step_over [OF assms(2) x] by (auto simp: step_over_def)
  obtain v' where "s = v' @ fst (snd x)" "list_all P v'"
    using mt_over [OF assms(3) x] by (auto simp: over_def)
  with v(1) have "list_all P v" by simp
  moreover have "take (length s - length (fst (snd x))) s = v" by (subst (2) v(1), subst v(1)) simp
  ultimately show ?thesis using that v y by simp
qed

lemma append_cases:
  assumes "w @ t = v @ u"
  obtains a x where "w = v @ a # x" "u = a # x @ t" | x where "v = w @ x" "t = x @ u"
proof -
  from assms obtain x where "w = v @ x \<and> x @ t = u \<or> w @ x = v \<and> t = x @ u"
    by (auto simp: append_eq_append_conv2)
  then show ?thesis using that by (cases x) auto
qed

lemma cap_first:
  assumes "eats r w" "no_caps r" "rx_over P r" "list_all P w" "t = [] \<or> \<not> P (hd t)"
    and g: "\<And>p a s c. P a \<Longrightarrow> g (p, a # s, c) = []"
  shows "\<exists>zs. andthen (mt (RCap i r) (p, w @ t, c)) g = g (ran p w, t, (i, w) # c) @ zs"
proof (rule andthen_first)
  show "(ran p w, t, (i, w) # c) \<in> set (mt (RCap i r) (p, w @ t, c))"
    using eatsD [OF assms(1), of p t c] by (force simp: mt.simps(6))
next
  fix y
  assume "y \<in> set (mt (RCap i r) (p, w @ t, c))"
  then obtain v u where v: "w @ t = v @ u" "list_all P v" "y = (ran p v, u, (i, v) # c)"
    using assms(2,3) by (elim cap_elem)
  from v(1) show "y = (ran p w, t, (i, w) # c) \<or> g y = []"
  proof (cases rule: append_cases)
    case (1 a x)
    with assms(4) have "P a" by simp
    with 1 v g show ?thesis by simp
  next
    case (2 x)
    have "x = []"
    proof (cases x)
      case (Cons b x')
      with 2 v(2) assms(5) show ?thesis by auto
    qed
    with 2 v show ?thesis by simp
  qed
qed

text \<open>No match at all when what follows can start neither inside the class nor after the text.\<close>

lemma cap_fails:
  assumes "no_caps r" "rx_over P r" "list_all P w"
    and g: "\<And>p c. g (p, [], c) = []" "\<And>p a s c. P a \<Longrightarrow> g (p, a # s, c) = []"
  shows "andthen (mt (RCap i r) (p, w, c)) g = []"
proof (rule andthen_none)
  fix y
  assume "y \<in> set (mt (RCap i r) (p, w, c))"
  then obtain v u where v: "w = v @ u" "y = (ran p v, u, (i, v) # c)"
    using assms(1,2) by (elim cap_elem)
  with assms(3) g show "g y = []" by (cases u) auto
qed

section \<open>Printed numbers\<close>

text \<open>The parts of \<open>String(x)\<close>: sign, integer part, fraction and exponent.\<close>

definition decimal_parts :: "jsstr \<Rightarrow> jsstr \<Rightarrow> jsstr \<Rightarrow> bool" where
  "decimal_parts ip fp t \<longleftrightarrow> list_all is_digit ip \<and> ip \<noteq> [] \<and>
     (fp = [] \<or> (\<exists>d. fp = 46 # d \<and> list_all is_digit d)) \<and> (t = [] \<or> (\<exists>e. t = show_exp e))"

lemma show_pos_parts:
  assumes "is_num (Fin x)" "0 < x"
  shows "\<exists>ip fp t. show_pos x = ip @ fp @ t \<and> decimal_parts ip fp t"
proof -
  obtain s k n where skn: "shortest 1500 x (dec_exp x) 1 = (s, k, n)" by (metis prod_cases3)
  with shortest_double [OF assms] have "10 ^ nat (k - 1) \<le> s" by (simp add: good_digits_def)
  then have s: "0 \<le> s" by (meson less_imp_le less_le_trans zero_less_numeral zero_less_power)
  have d: "list_all is_digit (dec s)" "dec s \<noteq> []" using dec_digits [OF s] dec_nonempty by auto
  then have td: "list_all is_digit (take i (dec s))" "list_all is_digit (drop i (dec s))"
    "take (Suc i) (dec s) \<noteq> []" for i
    by (auto simp: list_all_iff dest: in_set_takeD in_set_dropD)
  have z: "list_all is_digit (replicate i 48)" for i by (simp add: list_all_iff is_digit_def)
  let ?ok = "\<lambda>w. \<exists>ip fp t. w = ip @ fp @ t \<and> decimal_parts ip fp t"
  have ok: "?ok w" if "decimal_parts ip fp t" "w = ip @ fp @ t" for w ip fp t
    using that by blast
  have "?ok (dec s @ replicate i 48)" for i
    by (rule ok [of "dec s @ replicate i 48" "[]" "[]"]) (use d z in \<open>simp_all add: decimal_parts_def\<close>)
  moreover have "?ok (take (nat n) (dec s) @ [46] @ drop (nat n) (dec s))" if "0 < n"
  proof -
    from that obtain i where "nat n = Suc i" by (metis gr0_implies_Suc zero_less_nat_eq)
    with td show ?thesis
      by (intro ok [of "take (nat n) (dec s)" "46 # drop (nat n) (dec s)" "[]"]) (simp_all add: decimal_parts_def)
  qed
  moreover have "?ok ([48, 46] @ replicate i 48 @ dec s)" for i
    by (rule ok [of "[48]" "46 # replicate i 48 @ dec s" "[]"])
      (use d z in \<open>simp_all add: decimal_parts_def is_digit_def\<close>)
  moreover have "?ok (dec s @ show_exp e)" for e
    by (rule ok [of "dec s" "[]" "show_exp e"]) (use d in \<open>auto simp: decimal_parts_def\<close>)
  moreover have "?ok (take 1 (dec s) @ [46] @ drop 1 (dec s) @ show_exp e)" for e
    by (rule ok [of "take 1 (dec s)" "46 # drop 1 (dec s)" "show_exp e"])
      (use td(1,2) [of 1] td(3) [of 0] in \<open>auto simp: decimal_parts_def\<close>)
  ultimately show ?thesis by (simp add: show_pos_def skn Let_def)
qed

lemma to_str_parts:
  assumes "is_num (Fin x)"
  obtains sg ip fp t where "to_str (Fin x) = sg @ ip @ fp @ t" "sg = [] \<or> sg = [45]" "decimal_parts ip fp t"
proof -
  consider "x = 0" | "0 < x" | "x < 0" by linarith
  then show ?thesis
  proof cases
    case 1
    have "decimal_parts [48] [] []" by (simp add: decimal_parts_def is_digit_def)
    with 1 show ?thesis by (intro that [of "[]" "[48]" "[]" "[]"]) simp_all
  next
    case 2
    with show_pos_parts [OF assms] obtain ip fp t where "show_pos x = ip @ fp @ t" "decimal_parts ip fp t"
      by blast
    with 2 show ?thesis by (intro that [of "[]"]) auto
  next
    case 3
    have "is_num (Fin (- x))" using is_num_neg [OF assms] 3 by simp
    with show_pos_parts [of "- x"] 3 obtain ip fp t where "show_pos (- x) = ip @ fp @ t" "decimal_parts ip fp t"
      by force
    with 3 show ?thesis by (intro that [of "[45]"]) auto
  qed
qed

lemma eats_number:
  assumes "is_num (Fin x)"
  shows "eats NUMBER_PATTERN (to_str (Fin x))"
proof -
  obtain sg ip fp t where w: "to_str (Fin x) = sg @ ip @ fp @ t" "sg = [] \<or> sg = [45]"
    and parts: "decimal_parts ip fp t"
    using to_str_parts [OF assms] .
  have sg: "eats (ropt (rlit (J ''-''))) sg"
    using w(2) eats_lit [of "[45]"] by (intro eats_opt) auto
  have frac: "\<exists>f d. fp = f @ d \<and> eats (ropt (rlit (J ''.''))) f \<and> eats (RStar (RChr is_digit)) d"
  proof (cases fp)
    case Nil
    then show ?thesis by (auto intro!: eats_opt eats_star)
  next
    case (Cons a d)
    with parts have "a = 46" "list_all is_digit d" by (auto simp: decimal_parts_def)
    with Cons show ?thesis
      using eats_lit [of "[46]"] by (intro exI [of _ "[46]"] exI [of _ d]) (auto intro!: eats_opt eats_star)
  qed
  then obtain f d where fd: "fp = f @ d" "eats (ropt (rlit (J ''.''))) f" "eats (RStar (RChr is_digit)) d"
    by blast
  have mant: "eats (RAlt (rcat [rplus (RChr is_digit), ropt (rlit (J ''.'')), RStar (RChr is_digit)])
      (rcat [rlit (J ''.''), rplus (RChr is_digit)])) (ip @ f @ d)"
    unfolding rcat.simps
    by (intro eats_alt disjI1 eats_cat eats_plus fd) (use parts in \<open>auto simp: decimal_parts_def\<close>)
  have ex: "eats (rcat [RChr (\<lambda>c. c = 101 \<or> c = 69), ropt (RChr (\<lambda>c. c = 43 \<or> c = 45)),
      rplus (RChr is_digit)]) ([101] @ [c] @ dec n)" if "0 \<le> n" "c = 43 \<or> c = 45" for c n
  proof -
    have "eats (ropt (RChr (\<lambda>c. c = 43 \<or> c = 45))) [c]"
      by (rule eats_opt, rule disjI1, rule eats_chr, rule that(2))
    then show ?thesis
      unfolding rcat.simps by (intro eats_cat eats_chr eats_plus) (simp_all add: that dec_digits dec_nonempty)
  qed
  have "eats (ropt (rcat [RChr (\<lambda>c. c = 101 \<or> c = 69), ropt (RChr (\<lambda>c. c = 43 \<or> c = 45)),
      rplus (RChr is_digit)])) t"
  proof (cases "t = []")
    case False
    then obtain e where "t = show_exp e" using parts by (auto simp: decimal_parts_def)
    then show ?thesis using ex [of "- e" 45] ex [of e 43] by (auto simp: show_exp_def intro!: eats_opt)
  qed (simp add: eats_opt)
  with sg mant have "eats NUMBER_PATTERN (sg @ (ip @ f @ d) @ t)"
    unfolding NUMBER_PATTERN_def rcat.simps by (intro eats_cat)
  with w(1) fd(1) show ?thesis by simp
qed

lemma number_pattern_over: "rx_over num_unit NUMBER_PATTERN" "no_caps NUMBER_PATTERN"
  by (auto simp: NUMBER_PATTERN_def rcat.simps rx_over_rlit rplus_def ropt_def num_unit_def is_digit_def
      rlit.simps)

text \<open>A printed number in front of what follows: the whole of it is captured.\<close>

definition number_text :: "jsstr \<Rightarrow> bool" where
  "number_text w \<longleftrightarrow> (\<exists>x. is_num (Fin x) \<and> w = to_str (Fin x))"

lemma number_text_to_str: "is_num (Fin x) \<Longrightarrow> number_text (to_str (Fin x))"
  by (auto simp: number_text_def)

lemma number_text_units:
  assumes "number_text w"
  shows "list_all num_unit w" "w \<noteq> []" "\<not> is_ws (last w)" "hd w = 45 \<or> is_digit (hd w)"
proof -
  from assms obtain x where x: "is_num (Fin x)" "w = to_str (Fin x)" by (auto simp: number_text_def)
  obtain sg ip fp t where w: "to_str (Fin x) = sg @ ip @ fp @ t" "sg = [] \<or> sg = [45]"
    and p: "decimal_parts ip fp t"
    using to_str_parts [OF x(1)] .
  have "list_all num_unit (show_exp e)" for e
    using show_exp_chars [of e] by (auto simp: list_all_iff num_char_def num_unit_def)
  moreover have "list_all num_unit v" if "list_all is_digit v" for v
    using that by (auto simp: list_all_iff num_unit_def)
  ultimately show a: "list_all num_unit w" using w p x(2)
    by (auto simp: decimal_parts_def num_unit_def)
  show n: "w \<noteq> []" using w p x(2) by (auto simp: decimal_parts_def)
  from a n show "\<not> is_ws (last w)" by (auto simp: list_all_iff num_unit_not_ws)
  from w p x(2) show "hd w = 45 \<or> is_digit (hd w)"
    by (cases ip) (auto simp: decimal_parts_def)
qed

lemma cap_number:
  assumes "number_text w" "t = [] \<or> \<not> num_unit (hd t)"
    and "\<And>p a s c. num_unit a \<Longrightarrow> g (p, a # s, c) = []"
  shows "\<exists>zs. andthen (mt (RCap i NUMBER_PATTERN) (p, w @ t, c)) g = g (ran p w, t, (i, w) # c) @ zs"
proof -
  have "eats NUMBER_PATTERN w" using assms(1) eats_number by (auto simp: number_text_def)
  then show ?thesis
    using assms(2,3) number_pattern_over number_text_units(1) [OF assms(1)]
    by (intro cap_first [where P = num_unit])
qed

end
