(* ===== verification/TierScan.thy ===== *)
theory TierScan
  imports RegexFirst
begin

text \<open>
  The scanners of the tier editor, which track parentheses, string literals and escapes, on texts put
  together from plain units, string literals, numbers and parenthesised texts. One function, \<open>scan\<close>,
  follows the state the source keeps in \<open>depth\<close>, \<open>inString\<close> and \<open>escaped\<close>; the lemmas relate
  every scanner to it.
\<close>

section \<open>The scan\<close>

text \<open>
  The state after a text, or none when a unit outside strings and parentheses is one the scanner
  acts on; \<open>prev\<close> is the unit before.
\<close>

fun scan :: "(int option \<Rightarrow> int \<Rightarrow> bool) \<Rightarrow> int option \<Rightarrow> int \<Rightarrow> bool \<Rightarrow> bool \<Rightarrow> jsstr \<Rightarrow>
    (int \<times> bool \<times> bool) option" where
  "scan P prev d q e [] = Some (d, q, e)"
| "scan P prev d q e (c # r) =
     (if e then scan P (Some c) d q False r
      else if c = 92 then scan P (Some c) d q True r
      else if c = 34 then scan P (Some c) d (\<not> q) False r
      else if q then scan P (Some c) d q False r
      else if d + paren c = 0 \<and> P prev c then None
      else scan P (Some c) (d + paren c) q False r)"

lemma scan_append:
  "scan P prev d q e (u @ v) =
     (case scan P prev d q e u of None \<Rightarrow> None
      | Some (d', q', e') \<Rightarrow> scan P (ran prev u) d' q' e' v)"
proof (induction u arbitrary: prev d q e)
  case (Cons c u)
  show ?case
    unfolding ran_simps
    by (cases e; cases "c = 92"; cases "c = 34"; cases q; cases "d + paren c = 0 \<and> P prev c")
      (auto simp: Cons.IH split: option.split)
qed simp

lemma scan_mono:
  "scan P prev d q e w = Some y \<Longrightarrow> (\<And>p c. Q p c \<Longrightarrow> P p c) \<Longrightarrow> scan Q prev d q e w = Some y"
proof (induction w arbitrary: prev d q e)
  case (Cons c w)
  then show ?case
    by (cases e; cases "c = 92"; cases "c = 34"; cases q; cases "d + paren c = 0 \<and> P prev c")
      (auto split: if_splits)
qed simp

lemma find_question_scan:
  "scan P prev d q e w = Some (d', q', e') \<Longrightarrow> (\<And>p. P p 63) \<Longrightarrow>
    find_question d q e cur (w @ s) = find_question d' q' e' (cur @ w) s"
proof (induction w arbitrary: prev d q e cur)
  case (Cons c w)
  from Cons.prems(1) show ?case
    by (cases e; cases "c = 92"; cases "c = 34"; cases q; cases "d + paren c = 0 \<and> P prev c")
      (auto simp: Cons.IH [OF _ Cons.prems(2)] Cons.prems(2))
qed simp

lemma find_colon_scan:
  "scan P prev d q e w = Some (d', q', e') \<Longrightarrow> (\<And>p. P p 63) \<Longrightarrow> (\<And>p. P p 58) \<Longrightarrow>
    find_colon n d q e cur (w @ s) = find_colon n d' q' e' (cur @ w) s"
proof (induction w arbitrary: prev d q e cur)
  case (Cons c w)
  from Cons.prems(1) show ?case
    by (cases e; cases "c = 92"; cases "c = 34"; cases q; cases "d + paren c = 0 \<and> P prev c")
      (auto simp: Cons.IH [OF _ Cons.prems(2,3)] Cons.prems(2,3))
qed simp

definition splits_at :: "jsstr \<Rightarrow> int option \<Rightarrow> jsstr \<Rightarrow> bool" where
  "splits_at op prev s \<longleftrightarrow>
     \<not> (op = J ''+'' \<and> (prev = Some 101 \<or> prev = Some 69)) \<and> take (length op) s = op"

lemma split_scan_Cons:
  "split_scan op prev d q e cur (c # r) =
     (if e then split_scan op (Some c) d q False (cur @ [c]) r
      else if c = 92 then split_scan op (Some c) d q True (cur @ [c]) r
      else if c = 34 then split_scan op (Some c) d (\<not> q) False (cur @ [c]) r
      else if q then split_scan op (Some c) d q False (cur @ [c]) r
      else if d + paren c = 0 \<and> splits_at op prev (c # r)
      then cur # split_scan op (Some (last op)) (d + paren c) q False [] (drop (length op - 1) r)
      else split_scan op (Some c) (d + paren c) q False (cur @ [c]) r)"
  by (simp add: splits_at_def Let_def)

declare split_scan.simps(2) [simp del]

lemma split_scan_scan:
  "scan P prev d q e w = Some (d', q', e') \<Longrightarrow> (\<And>p c r. splits_at op p (c # r) \<Longrightarrow> P p c) \<Longrightarrow>
    split_scan op prev d q e cur (w @ s) = split_scan op (ran prev w) d' q' e' (cur @ w) s"
proof (induction w arbitrary: prev d q e cur)
  case (Cons c w)
  from Cons.prems(1) Cons.prems(2) [of prev c "w @ s"] show ?case
    by (cases e; cases "c = 92"; cases "c = 34"; cases q; cases "d + paren c = 0 \<and> P prev c")
      (auto simp: split_scan_Cons Cons.IH [OF _ Cons.prems(2)])
qed simp

lemma full_parens_scan:
  "scan P prev d q e w = Some (d', q', e') \<Longrightarrow> full_parens_scan d q e (w @ s) \<Longrightarrow> s \<noteq> [] \<Longrightarrow>
    full_parens_scan d' q' e' s"
proof (induction w arbitrary: prev d q e)
  case (Cons c w)
  from Cons.prems show ?case
    by (cases e; cases "c = 92"; cases "c = 34"; cases q; cases "d + paren c = 0 \<and> P prev c")
      (auto intro: Cons.IH simp: Let_def split: if_splits)
qed simp

lemma full_parens_inside:
  "scan (\<lambda>_ _. True) prev d q e w = Some (d', q', e') \<Longrightarrow>
    full_parens_scan d q e (w @ s) \<longleftrightarrow> full_parens_scan d' q' e' s"
proof (induction w arbitrary: prev d q e)
  case (Cons c w)
  from Cons.prems show ?case
    by (cases e; cases "c = 92"; cases "c = 34"; cases q; cases "d + paren c = 0")
      (auto simp: Cons.IH)
qed simp

section \<open>Texts a scanner passes over\<close>

definition glides :: "(int option \<Rightarrow> int \<Rightarrow> bool) \<Rightarrow> int \<Rightarrow> jsstr \<Rightarrow> bool" where
  "glides P k w \<longleftrightarrow> (\<forall>prev d. k \<le> d \<longrightarrow> scan P prev d False False w = Some (d, False, False))"

lemma glidesD: "glides P k w \<Longrightarrow> k \<le> d \<Longrightarrow> scan P prev d False False w = Some (d, False, False)"
  by (simp add: glides_def)

text \<open>
  From depth 0 on no unit the scanner acts on is met, and from depth 1 on the text does not leave
  the parentheses around it.
\<close>

definition piece :: "(int option \<Rightarrow> int \<Rightarrow> bool) \<Rightarrow> jsstr \<Rightarrow> bool" where
  "piece P w \<longleftrightarrow> glides P 0 w \<and> glides (\<lambda>_ _. True) 1 w"

lemma glides_append: "glides P k u \<Longrightarrow> glides P k v \<Longrightarrow> glides P k (u @ v)"
  unfolding glides_def
proof (intro allI impI)
  fix prev d
  assume uv: "\<forall>prev d. k \<le> d \<longrightarrow> scan P prev d False False u = Some (d, False, False)"
    "\<forall>prev d. k \<le> d \<longrightarrow> scan P prev d False False v = Some (d, False, False)" and "k \<le> d"
  from \<open>k \<le> d\<close> uv have "scan P prev d False False u = Some (d, False, False)"
    "scan P (ran prev u) d False False v = Some (d, False, False)" by blast+
  then show "scan P prev d False False (u @ v) = Some (d, False, False)"
    by (simp only: scan_append option.case prod.case)
qed

lemma glides_mono: "glides P k w \<Longrightarrow> (\<And>p c. Q p c \<Longrightarrow> P p c) \<Longrightarrow> glides Q k w"
  unfolding glides_def by (blast intro: scan_mono)

lemma piece_append [intro]: "piece P u \<Longrightarrow> piece P v \<Longrightarrow> piece P (u @ v)"
  by (simp add: piece_def glides_append)

lemma piece_mono: "piece P w \<Longrightarrow> (\<And>p c. Q p c \<Longrightarrow> P p c) \<Longrightarrow> piece Q w"
  unfolding piece_def by (blast intro: glides_mono)

lemma piece_Nil [simp]: "piece P []"
  by (simp add: piece_def glides_def)

definition plain_unit :: "int \<Rightarrow> bool" where
  "plain_unit c \<longleftrightarrow> c \<noteq> 34 \<and> c \<noteq> 92 \<and> c \<noteq> 40 \<and> c \<noteq> 41"

lemma scan_plain:
  "list_all (\<lambda>c. plain_unit c \<and> (d = 0 \<longrightarrow> (\<forall>p. \<not> P p c))) w \<Longrightarrow>
    scan P prev d False False w = Some (d, False, False)"
  by (induction w arbitrary: prev) (auto simp: plain_unit_def paren_def)

lemma glides_plain: "list_all plain_unit w \<Longrightarrow> 1 \<le> k \<Longrightarrow> glides P k w"
  unfolding glides_def by (auto intro!: scan_plain simp: list_all_iff)

lemma piece_plain: "list_all (\<lambda>c. plain_unit c \<and> (\<forall>p. \<not> P p c)) w \<Longrightarrow> piece P w"
  unfolding piece_def glides_def by (auto intro!: scan_plain simp: list_all_iff)

lemma scan_items: "items b \<Longrightarrow> scan P prev d True False (b @ 34 # t) = scan P (Some 34) d False False t"
proof (induction b arbitrary: prev rule: items.induct)
  case (2 c s)
  then show ?case by (cases s) (auto split: if_splits)
qed simp

lemma piece_items: "items b \<Longrightarrow> piece P (34 # b @ [34])"
  by (simp add: piece_def glides_def scan_items)

lemma piece_quote [intro]: "utf16 s \<Longrightarrow> piece P (json_quote s)"
  by (simp add: json_quote_shape piece_items items_json_body)

lemma glides_parens: "glides P 1 w \<Longrightarrow> 0 \<le> k \<Longrightarrow> (\<And>p. k = 0 \<Longrightarrow> \<not> P p 41) \<Longrightarrow> glides P k (40 # w @ [41])"
  by (auto simp: glides_def scan_append paren_def)

lemma piece_inside: "glides (\<lambda>_ _. True) 1 w \<Longrightarrow> (\<And>p. \<not> P p 41) \<Longrightarrow> piece P (40 # w @ [41])"
  unfolding piece_def
  by (intro conjI glides_parens) (auto intro: glides_mono)

lemma piece_parens: "piece Q w \<Longrightarrow> (\<And>p. \<not> P p 41) \<Longrightarrow> piece P (40 # w @ [41])"
  by (simp add: piece_def [of Q] piece_inside)

section \<open>Outer parentheses\<close>

lemma not_full: "trim w = w \<Longrightarrow> w = [] \<or> hd w \<noteq> 40 \<Longrightarrow> \<not> hasFullOuterParens_q w"
  by (cases w) (auto simp: hasFullOuterParens_q_def starts_with_def)

lemma unwrap_id: "trim w = w \<Longrightarrow> \<not> hasFullOuterParens_q w \<Longrightarrow> unwrapOuterParens_q w = w"
  by (simp add: unwrapOuterParens_q_def unwrap_loop_q.simps [of w])

lemma unwrap_plain: "trim w = w \<Longrightarrow> w = [] \<or> hd w \<noteq> 40 \<Longrightarrow> unwrapOuterParens_q w = w"
  by (simp add: unwrap_id not_full)

lemma trim_parens: "trim (40 # w @ [41]) = 40 # w @ [41]"
  by (rule trim_trimmed) (simp add: trimmed_def is_ws_def)

lemma unwrap_parens:
  assumes "glides (\<lambda>_ _. True) 1 w" "trim w = w" "\<not> hasFullOuterParens_q w"
  shows "unwrapOuterParens_q (40 # w @ [41]) = w"
proof -
  have "full_parens_scan 1 False False (w @ [41])"
    using full_parens_inside [OF glidesD [OF assms(1), of 1 None]]
    by (simp add: paren_def Let_def)
  then have "hasFullOuterParens_q (40 # w @ [41])"
    by (simp add: hasFullOuterParens_q_def trim_parens starts_with_def ends_with_def paren_def)
  then have "unwrap_loop_q (40 # w @ [41]) = unwrap_loop_q w"
    using assms(2) by (subst unwrap_loop_q.simps) (simp add: slice_ends)
  also have "\<dots> = w" using assms(3) by (subst unwrap_loop_q.simps) simp
  finally show ?thesis by (simp add: unwrapOuterParens_q_def trim_parens)
qed

lemma parens_then_more:
  assumes "glides P 1 w" "s \<noteq> []" "trim (40 # w @ 41 # s) = 40 # w @ 41 # s"
  shows "\<not> hasFullOuterParens_q (40 # w @ 41 # s)"
proof
  assume "hasFullOuterParens_q (40 # w @ 41 # s)"
  then have "full_parens_scan 1 False False (w @ 41 # s)"
    using assms(3) by (simp add: hasFullOuterParens_q_def paren_def split: if_splits)
  moreover have "scan P None 1 False False w = Some (1, False, False)"
    by (rule glidesD [OF assms(1)]) simp
  ultimately have "full_parens_scan 1 False False (41 # s)"
    by (elim full_parens_scan [rotated]) simp
  with assms(2) show False by (simp add: paren_def Let_def)
qed

section \<open>Splitting\<close>

lemma trim_pad:
  assumes "list_all is_ws u" "list_all is_ws v" "trim w = w"
  shows "trim (u @ w @ v) = w"
proof (cases "w = []")
  case False
  with trimmed_trim [of w] assms(3) have "\<not> is_ws (hd w)" "\<not> is_ws (last w)"
    by (auto simp: trimmed_def)
  with False assms(1,2) show ?thesis by (simp add: trim_def dropWhile_hd hd_rev)
qed (use assms in \<open>auto simp: trim_eq_Nil list_all_iff\<close>)

definition piece_of :: "jsstr \<Rightarrow> jsstr \<Rightarrow> bool" where
  "piece_of op w \<longleftrightarrow> w \<noteq> [] \<and> trim w = w \<and>
     glides (\<lambda>p c. \<exists>r. splits_at op p (c # r)) 0 w"

lemma split_scan_join:
  assumes "ws \<noteq> []" "\<And>w. w \<in> set ws \<Longrightarrow> piece_of op w"
    and op: "plain_unit (hd op)" "op \<noteq> []" "\<And>s. splits_at op (Some 32) (op @ s)"
      "\<not> (\<exists>p r. splits_at op p (32 # r))"
    and lead: "lead = [] \<or> lead = [32]"
  shows "map trim (split_scan op prev 0 False False [] (lead @ join (32 # op @ [32]) ws)) = ws"
  using assms(1,2) lead
proof (induction ws arbitrary: prev lead)
  case (Cons w ws)
  let ?P = "\<lambda>p c. \<exists>r. splits_at op p (c # r)"
  have w: "trim w = w" "glides ?P 0 w" using Cons.prems(2) [of w] by (auto simp: piece_of_def)
  have sp: "glides ?P 0 [32]" using op(4) by (auto simp: glides_def paren_def)
  have g: "glides ?P 0 (lead @ w)"
    using Cons.prems(3) w(2) glides_append [OF sp w(2)] by auto
  have step: "split_scan op p 0 False False cur (v @ s) = split_scan op (ran p v) 0 False False (cur @ v) s"
    if "glides ?P 0 v" for p cur v s
    using split_scan_scan [OF glidesD [OF that, of 0 p], of op cur s] by auto
  have t: "trim (lead @ w) = w" "trim (lead @ w @ [32]) = w"
    using w(1) Cons.prems(3) trim_pad [of lead "[]" w] trim_pad [of lead "[32]" w]
    by (auto simp: is_ws_def)
  show ?case
  proof (cases "ws = []")
    case True
    with step [OF g, of prev "[]" "[]"] t show ?thesis by simp
  next
    case False
    let ?rest = "[32] @ join (32 # op @ [32]) ws"
    obtain a as where oa: "op = a # as" using op(2) by (cases op) auto
    have "split_scan op (Some 32) 0 False False (lead @ w @ [32]) (op @ ?rest)
        = (lead @ w @ [32]) # split_scan op (Some (last op)) 0 False False [] ?rest"
      using op(1,3) oa by (simp add: split_scan_Cons plain_unit_def paren_def)
    moreover have "split_scan op prev 0 False False [] (lead @ join (32 # op @ [32]) (w # ws))
        = split_scan op (Some 32) 0 False False (lead @ w @ [32]) (op @ ?rest)"
      using False step [OF g, of prev "[]"] step [OF sp, of "ran (ran prev lead) w" "lead @ w"]
      by (simp add: join_Cons)
    ultimately show ?thesis
      using Cons.IH [OF False, of "[32]" "Some (last op)"] Cons.prems(2) t by simp
  qed
qed simp

end
