(* ===== verification/TierBodies.thy ===== *)
theory TierBodies
  imports TierScan
begin

text \<open>
  The body of a tier, printed by \<open>buildTierBodyExpr\<close> and read back by \<open>parseTierBody\<close>: the
  summands, their texts, what each sets, and a call of \<open>tier\<close> around them.
\<close>

text \<open>The simplification rules the imports had taken out, and the merge brings back.\<close>

declare mt.simps(6) [simp del] buildRequestConditionExpr.simps [simp del]

section \<open>Splitting at an operator\<close>

lemma splits_at_plus: "splits_at (J ''+'') p (c # r) \<longleftrightarrow> c = 43 \<and> p \<noteq> Some 101 \<and> p \<noteq> Some 69"
  by (auto simp: splits_at_def)

lemma splits_at_and: "splits_at (J ''&&'') p (c # r) \<longleftrightarrow> c = 38 \<and> take 1 r = [38]"
  by (cases r) (auto simp: splits_at_def)

lemma split_top_join:
  assumes "ws \<noteq> []" "\<And>w. w \<in> set ws \<Longrightarrow> piece_of op w"
    and "plain_unit (hd op)" "op \<noteq> []" "\<And>s. splits_at op (Some 32) (op @ s)"
      "\<not> (\<exists>p r. splits_at op p (32 # r))"
  shows "splitTopLevel (join (32 # op @ [32]) ws) op = ws"
proof -
  have "map trim (split_scan op None 0 False False [] (join (32 # op @ [32]) ws)) = ws"
    using split_scan_join [OF assms, of "[]" None] by simp
  moreover have "nonempty ws = ws"
    using assms(2) by (intro nonempty_id) (auto simp: piece_of_def)
  ultimately show ?thesis by (simp add: splitTopLevel_def)
qed

lemma split_summands:
  "ws \<noteq> [] \<Longrightarrow> (\<And>w. w \<in> set ws \<Longrightarrow> piece_of (J ''+'') w) \<Longrightarrow>
    splitTopLevel (join (J '' + '') ws) (J ''+'') = ws"
  using split_top_join [of ws "J ''+''"] by (simp add: splits_at_plus [simplified] splits_at_def plain_unit_def)

lemma split_conjuncts:
  "ws \<noteq> [] \<Longrightarrow> (\<And>w. w \<in> set ws \<Longrightarrow> piece_of (J ''&&'') w) \<Longrightarrow>
    splitTopLevel (join (J '' && '') ws) (J ''&&'') = ws"
  using split_top_join [of ws "J ''&&''"] by (simp add: splits_at_and [simplified] splits_at_def plain_unit_def)

interpretation summands: splitter "\<lambda>s. splitTopLevel s (J ''+'')" "J '' + ''" "piece_of (J ''+'')"
  by unfold_locales (rule split_summands)

interpretation conjuncts: splitter "\<lambda>s. splitTopLevel s (J ''&&'')" "J '' && ''" "piece_of (J ''&&'')"
  by unfold_locales (rule split_conjuncts)

text \<open>The units a scanner of the tier editor can act on: a sum, a ternary or a conjunction.\<close>

definition stop :: "int option \<Rightarrow> int \<Rightarrow> bool" where
  "stop p c \<longleftrightarrow> c \<in> {38, 58, 63} \<or> c = 43 \<and> p \<noteq> Some 101 \<and> p \<noteq> Some 69"

lemma piece_stop: "piece stop w \<Longrightarrow> w \<noteq> [] \<Longrightarrow> trim w = w \<Longrightarrow> piece_of (J ''+'') w"
  "piece stop w \<Longrightarrow> w \<noteq> [] \<Longrightarrow> trim w = w \<Longrightarrow> piece_of (J ''&&'') w"
  unfolding piece_of_def piece_def splits_at_plus splits_at_and
  by (auto elim!: glides_mono simp: stop_def)

definition inert :: "int \<Rightarrow> bool" where
  "inert c \<longleftrightarrow> plain_unit c \<and> c \<notin> {38, 58, 63, 43}"

lemma piece_inert: "list_all inert w \<Longrightarrow> piece stop w"
  by (rule piece_plain) (auto simp: list_all_iff inert_def stop_def)

lemma inert_digits: "list_all is_digit w \<Longrightarrow> list_all inert w"
  by (auto simp: list_all_iff inert_def plain_unit_def is_digit_def)

lemma piece_exponent: "piece stop (show_exp e)"
proof -
  have d: "piece stop (dec n)" if "0 \<le> n" for n
    using that by (intro piece_inert inert_digits dec_digits)
  have m: "piece stop (J ''e-'')" by (rule piece_inert) (simp add: inert_def plain_unit_def)
  have p: "piece stop (J ''e+'')"
    by (simp add: piece_def glides_def stop_def)
  show ?thesis unfolding show_exp_def using piece_append [OF m d] piece_append [OF p d] by simp
qed

lemma piece_number: "number_text w \<Longrightarrow> piece stop w"
proof -
  assume "number_text w"
  then obtain x where x: "is_num (Fin x)" "w = to_str (Fin x)" by (auto simp: number_text_def)
  obtain sg ip fp t where w: "to_str (Fin x) = sg @ ip @ fp @ t" "sg = [] \<or> sg = [45]"
    and p: "decimal_parts ip fp t"
    using to_str_parts [OF x(1)] .
  have "list_all inert (sg @ ip @ fp)"
    using w(2) p by (auto simp: decimal_parts_def inert_digits inert_def plain_unit_def)
  then have "piece stop (sg @ ip @ fp)" by (rule piece_inert)
  moreover have "piece stop t" using p piece_exponent by (auto simp: decimal_parts_def)
  ultimately have "piece stop ((sg @ ip @ fp) @ t)" by (rule piece_append)
  then show ?thesis using w(1) x(2) by simp
qed

section \<open>The summands of a body\<close>

definition summand_text :: "jsstr \<Rightarrow> jsnum \<Rightarrow> jsstr" where
  "summand_text k x =
     (if k = J ''per_request_unit_cost'' then to_str (num_mul x (Fin 1000000))
      else if k = J ''per_second_unit_cost'' then duration_text @ J '' * '' @ to_str x @ J '' * 1000000''
      else (case find (\<lambda>(v, f). f = k) TOKEN_FIELD_BY_VAR of
          None \<Rightarrow> [] | Some (v, f) \<Rightarrow> v @ J '' * '' @ to_str x))"

definition summand_order :: "jsstr list" where
  "summand_order =
     [J ''per_request_unit_cost'', J ''input_unit_cost'', J ''output_unit_cost'',
      J ''per_second_unit_cost'', J ''cache_read_unit_cost'', J ''cache_create_unit_cost'',
      J ''cache_create_1h_unit_cost'', J ''image_unit_cost'', J ''image_output_unit_cost'',
      J ''audio_input_unit_cost'', J ''audio_output_unit_cost'']"

definition shown :: "(jsstr \<times> jsnum) list \<Rightarrow> jsstr \<Rightarrow> bool" where
  "shown m k \<longleftrightarrow> k = J ''input_unit_cost'' \<or> k = J ''output_unit_cost'' \<or> \<not> num_eq (cost_of m k) (Fin 0)"

lemma map_filter_four:
  "P b \<Longrightarrow> P c \<Longrightarrow> map f (filter P [a, b, c, d]) =
    (if P a then [f a] else []) @ [f b, f c] @ (if P d then [f d] else [])"
  by simp

lemma summand_texts:
  "summand_text (J ''per_request_unit_cost'') x = to_str (num_mul x (Fin 1000000))"
  "summand_text (J ''input_unit_cost'') x = J ''p * '' @ to_str x"
  "summand_text (J ''output_unit_cost'') x = J ''c * '' @ to_str x"
  "summand_text (J ''per_second_unit_cost'') x = duration_text @ J '' * '' @ to_str x @ J '' * 1000000''"
  "summand_text (J ''cache_read_unit_cost'') x = J ''cr * '' @ to_str x"
  "summand_text (J ''cache_create_unit_cost'') x = J ''cc * '' @ to_str x"
  "summand_text (J ''cache_create_1h_unit_cost'') x = J ''cc1h * '' @ to_str x"
  "summand_text (J ''image_unit_cost'') x = J ''img * '' @ to_str x"
  "summand_text (J ''image_output_unit_cost'') x = J ''img_o * '' @ to_str x"
  "summand_text (J ''audio_input_unit_cost'') x = J ''ai * '' @ to_str x"
  "summand_text (J ''audio_output_unit_cost'') x = J ''ao * '' @ to_str x"
  by (simp_all add: summand_text_def TOKEN_FIELD_BY_VAR_def)

lemma shown_keys:
  "shown m (J ''input_unit_cost'')" "shown m (J ''output_unit_cost'')"
  by (simp_all add: shown_def)

lemma shown_other:
  "k \<notin> {J ''input_unit_cost'', J ''output_unit_cost''} \<Longrightarrow> shown m k \<longleftrightarrow> \<not> num_eq (cost_of m k) (Fin 0)"
  by (simp add: shown_def)

definition extra_fields :: "jsstr list" where
  "extra_fields = drop 4 summand_order"

definition extra_vars :: "(jsstr \<times> jsstr) list" where
  "extra_vars = drop 2 TOKEN_FIELD_BY_VAR"

lemma extra_vars_billing:
  "map (\<lambda>v. (bv_key v, opt_or_empty (bv_tierField v)))
     (filter (\<lambda>v. \<not> (bv_key v = J ''duration'' \<or> bv_key v = J ''request'' \<or> bv_tierField v = None))
       BILLING_EXTRA_VARS) = extra_vars"
  "map snd extra_vars = extra_fields"
  by code_simp+

lemma token_var_text: "(v, k) \<in> set TOKEN_FIELD_BY_VAR \<Longrightarrow> summand_text k x = v @ J '' * '' @ to_str x"
proof -
  assume "(v, k) \<in> set TOKEN_FIELD_BY_VAR"
  moreover have "\<forall>(v, k) \<in> set TOKEN_FIELD_BY_VAR. k \<noteq> J ''per_request_unit_cost'' \<and>
      k \<noteq> J ''per_second_unit_cost'' \<and> find (\<lambda>(v, f). f = k) TOKEN_FIELD_BY_VAR = Some (v, k)"
    by code_simp
  ultimately show ?thesis by (auto simp: summand_text_def)
qed

lemma extra_vars_text: "(v, k) \<in> set extra_vars \<Longrightarrow> summand_text k x = v @ J '' * '' @ to_str x"
  unfolding extra_vars_def by (meson token_var_text in_set_dropD)

lemma concat_filtered:
  "concat (map (\<lambda>v. if P v then [] else f v) vs) = concat (map f (filter (\<lambda>v. \<not> P v) vs))"
  by (induction vs) auto

lemma extra_summands:
  "concat (map (\<lambda>v.
       if bv_key v = J ''duration'' \<or> bv_key v = J ''request'' \<or> bv_tierField v = None then []
       else (let value = f (opt_or_empty (bv_tierField v)) in
         if \<not> num_eq value (Fin 0) then [bv_key v @ J '' * '' @ to_str value] else []))
       BILLING_EXTRA_VARS) =
   concat (map (\<lambda>k. if \<not> num_eq (f k) (Fin 0) then [summand_text k (f k)] else []) extra_fields)"
proof -
  let ?vs = "filter (\<lambda>v. \<not> (bv_key v = J ''duration'' \<or> bv_key v = J ''request'' \<or> bv_tierField v = None))
      BILLING_EXTRA_VARS"
  let ?g = "\<lambda>(v, k). if \<not> num_eq (f k) (Fin 0) then [v @ J '' * '' @ to_str (f k)] else []"
  have "map ?g extra_vars = map ((\<lambda>k. if \<not> num_eq (f k) (Fin 0) then [summand_text k (f k)] else []) \<circ> snd) extra_vars"
    by (rule map_cong [OF refl]) (auto simp: extra_vars_text)
  moreover have "concat (map (\<lambda>v. let value = f (opt_or_empty (bv_tierField v)) in
      if \<not> num_eq value (Fin 0) then [bv_key v @ J '' * '' @ to_str value] else []) ?vs) =
      concat (map ?g (map (\<lambda>v. (bv_key v, opt_or_empty (bv_tierField v))) ?vs))"
    by (simp add: Let_def comp_def del: J_Cons)
  ultimately show ?thesis
    unfolding concat_filtered extra_vars_billing(1) by (simp only: map_map [symmetric] extra_vars_billing(2))
qed

lemma concat_shown: "concat (map (\<lambda>k. if P k then [f k] else []) ks) = map f (filter P ks)"
  by (induction ks) auto

lemma tier_body_summands:
  "buildTierBodyExpr t =
     join (J '' + '') (map (\<lambda>k. summand_text k (cost_of (vt_costs t) k)) (filter (shown (vt_costs t)) summand_order))"
proof -
  let ?c = "cost_of (vt_costs t)"
  have ex: "filter (shown (vt_costs t)) extra_fields = filter (\<lambda>k. \<not> num_eq (?c k) (Fin 0)) extra_fields"
    by (rule filter_cong [OF refl], rule shown_other) (auto simp: extra_fields_def summand_order_def)
  have order: "summand_order = [J ''per_request_unit_cost'', J ''input_unit_cost'', J ''output_unit_cost'',
      J ''per_second_unit_cost''] @ extra_fields"
    by (simp add: extra_fields_def summand_order_def)
  have other: "shown (vt_costs t) (J ''per_request_unit_cost'') \<longleftrightarrow> \<not> num_eq (?c (J ''per_request_unit_cost'')) (Fin 0)"
    "shown (vt_costs t) (J ''per_second_unit_cost'') \<longleftrightarrow> \<not> num_eq (?c (J ''per_second_unit_cost'')) (Fin 0)"
    by (rule shown_other, simp)+
  show ?thesis
    unfolding buildTierBodyExpr_def Let_def extra_summands [unfolded Let_def] order filter_append map_append
      concat_shown ex map_filter_four [of "shown (vt_costs t)", OF shown_keys] other summand_texts
      append_assoc ..
qed

section \<open>Reading a summand\<close>

lemma runs_stop: "s = [] \<or> \<not> P (hd s) \<Longrightarrow> runs P (p, s, c) = [(p, s, c)]"
  by (cases s) auto

lemma mt_rws: "mt rws (p, s, c) = runs is_ws (p, s, c)"
  by (simp add: rws_def)

lemma number_start:
  assumes "number_text w"
  obtains a v where "w = a # v" "a = 45 \<or> is_digit a" "\<not> is_ws a" "runs is_ws (p, w @ t, c) = [(p, w @ t, c)]"
proof -
  from number_text_units [OF assms] obtain a v where w: "w = a # v" "a = 45 \<or> is_digit a"
    by (cases w) auto
  then have "\<not> is_ws a" by (auto simp: is_ws_def is_digit_def)
  with w show ?thesis using that by (auto simp: runs_stop)
qed

lemma number_then_eos:
  assumes "number_text w"
  shows "\<exists>zs. andthen (mt (RCap i NUMBER_PATTERN) (p, w, c)) (mt REos) = (ran p w, [], (i, w) # c) # zs"
  using cap_number [OF assms, of "[]" "mt REos" i p c] by auto

definition coeff_rest :: "rstate \<Rightarrow> rstate list" where
  "coeff_rest = mt (rcat [rws, rlit (J ''*''), rws, RCap 2 NUMBER_PATTERN, REos])"

lemma coeff_rest_reads:
  assumes "number_text w"
  shows "\<exists>q zs. coeff_rest (p, J '' * '' @ w, c) = (q, [], (2, w) # c) # zs"
proof -
  obtain a v where w: "w = a # v" "\<not> is_ws a" using number_start [OF assms] by metis
  obtain zs where "andthen (mt (RCap 2 NUMBER_PATTERN) (Some 32, w, c)) (mt REos)
      = (ran (Some 32) w, [], (2, w) # c) # zs"
    using number_then_eos [OF assms] by blast
  with w show ?thesis
    by (simp add: coeff_rest_def mt_rcat_Cons2 rws_def is_ws_def [of 32] is_ws_def [of 42] runs_stop)
qed

lemma coeff_rest_fails:
  "s = [] \<or> \<not> is_ws (hd s) \<and> hd s \<noteq> 42 \<Longrightarrow> coeff_rest (p, s, c) = []"
  by (cases s) (auto simp: coeff_rest_def mt_rcat_Cons2 rws_def)

lemma visible_not_ws: "33 \<le> c \<Longrightarrow> c \<le> 126 \<Longrightarrow> \<not> is_ws c"
  by (auto simp: is_ws_def)

lemma coeff_match:
  "rx_caps r_coeff s =
     (case andthen (mt (RCap 1 (ralt (map (\<lambda>(k, f). rlit k) TOKEN_FIELD_BY_VAR))) (None, s, [])) coeff_rest of
        [] \<Rightarrow> None | (p', t, c) # _ \<Rightarrow> Some c)"
  by (simp add: r_coeff_def rx_caps_whole mt_rcat_Cons2 coeff_rest_def)

lemma distinct_token_vars: "distinct (map fst TOKEN_FIELD_BY_VAR)"
  by code_simp

lemma read_coeff:
  assumes "number_text w" "(v, k) \<in> set TOKEN_FIELD_BY_VAR"
  shows "read_summand (v @ J '' * '' @ w) = Some (k, to_number w)"
proof -
  have v: "v \<in> fst ` set TOKEN_FIELD_BY_VAR" using assms(2) by force
  have "rx_caps r_coeff (v @ J '' * '' @ w) = Some [(2, w), (1, v)]"
  proof -
    obtain q zs where r: "coeff_rest (Some (last v), 32 # 42 # 32 # w, [(Suc 0, v)]) = (q, [], [(2, w), (Suc 0, v)]) # zs"
      using coeff_rest_reads [OF assms(1), of "Some (last v)" "[(1, v)]"] by auto
    from v consider "v = J ''p''" | "v = J ''c''" | "v = J ''cr''" | "v = J ''cc''" | "v = J ''cc1h''"
      | "v = J ''img''" | "v = J ''img_o''" | "v = J ''ai''" | "v = J ''ao''"
      unfolding TOKEN_FIELD_BY_VAR_def list.set image_insert fst_conv by blast
    then show ?thesis
      using r unfolding coeff_match TOKEN_FIELD_BY_VAR_def
      by cases (simp_all add: mt_cap_alt coeff_rest_fails visible_not_ws)
  qed
  moreover have "map_of TOKEN_FIELD_BY_VAR v = Some k"
    using assms(2) distinct_token_vars by simp
  ultimately show ?thesis by (simp add: read_summand_def opt_or_empty_def)
qed

lemma coeff_no_match:
  "hd s = 45 \<or> is_digit (hd s) \<Longrightarrow> rx_caps r_coeff s = None"
  "rx_caps r_coeff (J ''param'' @ s) = None"
  unfolding coeff_match TOKEN_FIELD_BY_VAR_def
  by (cases s, auto simp: mt_cap_alt is_digit_def coeff_rest_fails visible_not_ws)

lemma read_duration:
  assumes "number_text w"
  shows "read_summand (duration_text @ J '' * '' @ w @ J '' * 1000000'')
    = Some (J ''per_second_unit_cost'', to_number w)"
proof -
  let ?g = "mt (rcat [rws, rlit (J ''*''), rws, rlit (J ''1000000''), REos])"
  have g: "?g (p, a # t, c) = []" if "num_unit a" for p a t c
    using that by (auto simp: mt_rcat_Cons2 rws_def runs_stop num_unit_not_ws num_unit_def is_digit_def)
  have stop: "J '' * 1000000'' = [] \<or> \<not> num_unit (hd (J '' * 1000000''))"
    by (simp add: num_unit_def is_digit_def)
  have full: "\<exists>q zs. ?g (p, J '' * 1000000'', c) = (q, [], c) # zs" for p c
    by (simp add: mt_rcat_Cons2 rws_def visible_not_ws is_ws_def [of 32])
  obtain zs where "andthen (mt (RCap 1 NUMBER_PATTERN) (Some 32, w @ J '' * 1000000'', [])) ?g
      = ?g (ran (Some 32) w, J '' * 1000000'', [(1, w)]) @ zs"
    using cap_number [where g = ?g, OF assms stop g] by blast
  moreover obtain q ys where "?g (ran (Some 32) w, J '' * 1000000'', [(1, w)]) = (q, [], [(1, w)]) # ys"
    using full by blast
  ultimately have n: "andthen (mt (RCap 1 NUMBER_PATTERN) (Some 32, w @ J '' * 1000000'', [])) ?g
      = (q, [], [(1, w)]) # ys @ zs" by (simp only: append.simps)
  have r: "runs is_ws (p, w @ t, c) = [(p, w @ t, c)]" for p t c
    using number_start [OF assms] by metis
  have d: "duration_text \<noteq> []" by (simp add: duration_text_def)
  have "rx_caps r_duration (duration_text @ J '' * '' @ w @ J '' * 1000000'') = Some [(1, w)]"
    using n r d
    by (simp add: r_duration_def rx_caps_whole mt_rcat_Cons2 [of "rlit u" for u] mt_rcat_Cons2 [of rws]
        mt_rcat_Cons2 [of "RCap (Suc 0) u" for u] mt_rws visible_not_ws is_ws_def [of 32])
  moreover have "rx_caps r_coeff (duration_text @ s) = None" for s
    using coeff_no_match(2) by (simp add: duration_text_def)
  ultimately show ?thesis by (simp add: read_summand_def)
qed

lemma read_quota:
  assumes "number_text w"
  shows "read_summand w = Some (J ''per_request_unit_cost'', num_div (to_number w) (Fin 1000000))"
proof -
  obtain a v where w: "w = a # v" "a = 45 \<or> is_digit a" using number_start [OF assms] by metis
  have 1: "rx_caps r_coeff w = None" using coeff_no_match(1) [of w] w by simp
  have 2: "rx_caps r_duration w = None"
    using w by (auto simp: r_duration_def rx_caps_whole mt_rcat_Cons2 duration_text_def is_digit_def)
  let ?g = "mt (rcat [rws, rlit (J ''*''), rws, rlit (J ''1000000''), REos])"
  have "andthen (mt (RCap 1 NUMBER_PATTERN) (None, w, [])) ?g = []"
    by (rule cap_fails [OF number_pattern_over(2,1) number_text_units(1) [OF assms]])
      (auto simp: mt_rcat_Cons2 rws_def runs_stop num_unit_not_ws num_unit_def is_digit_def)
  then have 3: "rx_caps r_request w = None"
    by (simp add: r_request_def rx_caps_whole mt_rcat_Cons2 [of "RCap (Suc 0) u" for u])
  have 4: "rx_caps r_quota w = Some [(1, w)]"
    using number_then_eos [OF assms, of 1 None "[]"]
    by (auto simp: r_quota_def rx_caps_whole mt_rcat_Cons2)
  show ?thesis by (simp add: read_summand_def 1 2 3 4)
qed

text \<open>
  The costs a tier can carry through its text: finite numbers, and a price per request that the
  scaling by a million and back leaves alone.
\<close>

definition finite_cost :: "jsnum \<Rightarrow> bool" where
  "finite_cost x \<longleftrightarrow> (case x of Fin q \<Rightarrow> is_num x | _ \<Rightarrow> False)"

definition steady_price :: "jsnum \<Rightarrow> bool" where
  "steady_price x \<longleftrightarrow> finite_cost x \<and> num_div (num_mul x (Fin 1000000)) (Fin 1000000) = x \<and>
     finite_cost (num_mul x (Fin 1000000))"

definition carried :: "jsstr \<Rightarrow> jsnum \<Rightarrow> bool" where
  "carried k x \<longleftrightarrow> (if k = J ''per_request_unit_cost'' then steady_price x else finite_cost x)"

lemma finite_cost_text: "finite_cost x \<Longrightarrow> number_text (to_str x) \<and> to_number (to_str x) = x"
  by (cases x) (simp_all only: finite_cost_def jsnum.case number_text_to_str to_number_to_str simp_thms)

lemma read_summand_text:
  assumes "k \<in> set summand_order" "carried k x"
  shows "read_summand (summand_text k x) = Some (k, x)"
proof -
  note fin = finite_cost_text [of x] finite_cost_text [of "num_mul x (Fin 1000000)"]
  from assms(1) consider "k = J ''per_request_unit_cost''" | "k = J ''per_second_unit_cost''"
    | v where "(v, k) \<in> set TOKEN_FIELD_BY_VAR" "k \<noteq> J ''per_request_unit_cost''"
    unfolding summand_order_def TOKEN_FIELD_BY_VAR_def list.set by blast
  then show ?thesis
  proof cases
    case 1
    with assms(2) have "number_text (to_str (num_mul x (Fin 1000000)))"
      "num_div (to_number (to_str (num_mul x (Fin 1000000)))) (Fin 1000000) = x"
      using fin(2) by (simp_all only: carried_def steady_price_def if_True simp_thms)
    with 1 show ?thesis by (simp only: summand_texts read_quota)
  next
    case 2
    then have "finite_cost x" using assms(2) by (simp add: carried_def)
    with 2 fin(1) show ?thesis by (simp only: summand_texts read_duration)
  next
    case 3
    then have "finite_cost x" using assms(2) by (simp add: carried_def)
    with 3 fin(1) show ?thesis by (simp only: token_var_text read_coeff)
  qed
qed

section \<open>The shape of a summand\<close>

text \<open>A text that is not empty, has no white space at its ends and starts with no parenthesis.\<close>

definition firm :: "jsstr \<Rightarrow> bool" where
  "firm w \<longleftrightarrow> w \<noteq> [] \<and> \<not> is_ws (hd w) \<and> \<not> is_ws (last w) \<and> hd w \<noteq> 40"

lemma firm_trim: "firm w \<Longrightarrow> trim w = w"
  by (simp add: firm_def trim_trimmed trimmedI)

lemma firm_unwrap: "firm w \<Longrightarrow> unwrapOuterParens_q w = w"
  by (rule unwrap_plain) (auto simp: firm_trim, simp add: firm_def)

lemma firm_join:
  "ws \<noteq> [] \<Longrightarrow> (\<And>w. w \<in> set ws \<Longrightarrow> firm w) \<Longrightarrow> firm (join op ws)"
proof (induction ws)
  case (Cons w ws)
  then have w: "firm w" by simp
  show ?case
  proof (cases "ws = []")
    case False
    with Cons have "firm (join op ws)" by simp
    with False w show ?thesis by (auto simp: firm_def join_Cons)
  qed (use w in simp)
qed simp

lemma firm_number: "number_text w \<Longrightarrow> firm w"
proof -
  assume w: "number_text w"
  then have "num_unit (hd w)" "hd w \<noteq> 40"
    using number_text_units [of w] by (auto simp: num_unit_def is_digit_def)
  then show ?thesis using number_text_units(2,3) [OF w] num_unit_not_ws by (simp add: firm_def)
qed

lemma piece_duration: "piece stop duration_text" "firm duration_text"
proof -
  have "piece stop (J ''param'')" by (rule piece_inert) (simp add: inert_def plain_unit_def)
  moreover have "piece stop (40 # (34 # J ''parameters.duration'' @ [34]) @ [41])"
    by (rule piece_parens, rule piece_items) (simp_all add: is_dot_def stop_def)
  ultimately have "piece stop (J ''param'' @ 40 # (34 # J ''parameters.duration'' @ [34]) @ [41])"
    by (rule piece_append)
  then show "piece stop duration_text" by (simp add: duration_text_def)
  show "firm duration_text" by (simp add: firm_def duration_text_def visible_not_ws)
qed

lemma piece_times: "piece stop (J '' * '')" "piece stop (J '' * 1000000'')"
  by (rule piece_inert, simp add: inert_def plain_unit_def)+

lemma token_vars_shape: "(v, k) \<in> set TOKEN_FIELD_BY_VAR \<Longrightarrow> piece stop v \<and> firm v"
proof -
  assume "(v, k) \<in> set TOKEN_FIELD_BY_VAR"
  moreover have "\<forall>(v, k) \<in> set TOKEN_FIELD_BY_VAR. list_all inert v \<and> firm v"
    by code_simp
  ultimately show ?thesis by (auto intro: piece_inert)
qed

lemma firm_append: "firm u \<Longrightarrow> w \<noteq> [] \<Longrightarrow> \<not> is_ws (last w) \<Longrightarrow> firm (u @ w)"
  by (auto simp: firm_def)

lemma summand_shape:
  assumes "k \<in> set summand_order" "carried k x"
  shows "piece stop (summand_text k x) \<and> firm (summand_text k x)"
proof -
  from assms(1) consider "k = J ''per_request_unit_cost''" | "k = J ''per_second_unit_cost''"
    | v where "(v, k) \<in> set TOKEN_FIELD_BY_VAR" "k \<noteq> J ''per_request_unit_cost''"
    unfolding summand_order_def TOKEN_FIELD_BY_VAR_def list.set by blast
  then show ?thesis
  proof cases
    case 1
    with assms(2) have "number_text (to_str (num_mul x (Fin 1000000)))"
      using finite_cost_text by (simp only: carried_def steady_price_def if_True simp_thms)
    with 1 show ?thesis by (simp only: summand_texts piece_number firm_number simp_thms)
  next
    case 2
    then have n: "number_text (to_str x)" using assms(2) finite_cost_text by (simp add: carried_def)
    have "piece stop (duration_text @ J '' * '' @ to_str x @ J '' * 1000000'')"
      using n by (intro piece_append piece_duration piece_times piece_number)
    moreover have "firm (duration_text @ J '' * '' @ to_str x @ J '' * 1000000'')"
      by (rule firm_append [OF piece_duration(2)]) (simp_all add: visible_not_ws)
    ultimately show ?thesis using 2 by (simp only: summand_texts simp_thms)
  next
    case 3
    then have n: "number_text (to_str x)" using assms(2) finite_cost_text by (simp add: carried_def)
    have "piece stop (v @ J '' * '' @ to_str x)"
      using token_vars_shape [OF 3(1)] by (intro piece_append piece_times piece_number [OF n]) auto
    moreover have "firm (v @ J '' * '' @ to_str x)"
      using n token_vars_shape [OF 3(1)] firm_number [OF n] by (intro firm_append) (auto simp: firm_def)
    ultimately show ?thesis using 3(1) by (simp only: token_var_text simp_thms)
  qed
qed

section \<open>Reading a body\<close>

definition canonical_costs :: "(jsstr \<times> jsnum) list \<Rightarrow> bool" where
  "canonical_costs m \<longleftrightarrow> map fst m = cost_fields \<and> list_all (\<lambda>(k, x). carried k x) m"

lemma cost_fields_order: "set summand_order = set cost_fields" "distinct cost_fields"
  by code_simp+

lemma carried_finite: "carried k x \<Longrightarrow> finite_cost x"
  by (simp add: carried_def steady_price_def split: if_splits)

lemma finite_or: "finite_cost x \<Longrightarrow> num_or x (Fin 0) = x"
  by (cases x) (auto simp: finite_cost_def num_or_def num_truthy_def)

lemma finite_zero: "finite_cost x \<Longrightarrow> num_eq x (Fin 0) \<Longrightarrow> x = Fin 0"
  by (cases x) (auto simp: finite_cost_def num_eq_def)

lemma canonical_cost:
  assumes "canonical_costs m" "k \<in> set cost_fields"
  shows "map_of m k = Some (cost_of m k)" "carried k (cost_of m k)"
proof -
  from assms have "k \<in> fst ` set m" by (metis canonical_costs_def set_map)
  then obtain x where x: "map_of m k = Some x" by (metis map_of_eq_None_iff not_None_eq)
  then have "carried k x"
    using assms(1) by (auto simp: canonical_costs_def list_all_iff dest: map_of_SomeD)
  with x carried_finite [of k x] show "map_of m k = Some (cost_of m k)" "carried k (cost_of m k)"
    by (simp_all add: cost_of_def num_field_def finite_or)
qed

lemma read_summands_texts:
  "(\<And>k. k \<in> set ks \<Longrightarrow> read_summand (f k) = Some (k, c k)) \<Longrightarrow>
    read_summands (map f ks) m = Some (foldl (\<lambda>m k. obj_put k (c k) m) m ks)"
  by (induction ks arbitrary: m) auto

lemma keys_obj_put: "k \<in> set (map fst m) \<Longrightarrow> map fst (obj_put k v m) = map fst m"
proof (induction m)
  case (Cons x m)
  then show ?case by (cases x; cases "k = fst x") simp_all
qed simp

lemma put_all:
  "set ks \<subseteq> set (map fst m) \<Longrightarrow> map fst (foldl (\<lambda>m k. obj_put k (c k) m) m ks) = map fst m"
  "map_of (foldl (\<lambda>m k. obj_put k (c k) m) m ks) k = (if k \<in> set ks then Some (c k) else map_of m k)"
proof (induction ks arbitrary: m)
  case (Cons k ks)
  {
    case 1
    then have "map fst (obj_put k (c k) m) = map fst m" by (intro keys_obj_put) simp
    with 1 Cons.IH(1) [of "obj_put k (c k) m"] show ?case by simp
  next
    case 2
    show ?case by (simp add: Cons.IH(2) map_of_obj_put)
  }
qed simp_all

lemma alist_eq:
  "map fst a = map fst b \<Longrightarrow> distinct (map fst a) \<Longrightarrow> (\<And>k. k \<in> set (map fst a) \<Longrightarrow> map_of a k = map_of b k) \<Longrightarrow>
    a = b"
proof (induction a arbitrary: b)
  case (Cons x a)
  then obtain y b' where b: "b = y # b'" "fst x = fst y" "map fst a = map fst b'"
    by (cases b) auto
  have "map_of a k = map_of b' k" if "k \<in> set (map fst a)" for k
  proof -
    from that Cons.prems(2) have "k \<noteq> fst x" by (metis distinct.simps(2) list.simps(9))
    with Cons.prems(3) [of k] that b show ?thesis by (cases x; cases y) auto
  qed
  with Cons.IH [OF b(3)] Cons.prems(2) have "a = b'" by simp
  moreover have "x = y" using Cons.prems(3) [of "fst x"] b by (cases x; cases y) auto
  ultimately show ?case using b by simp
qed simp

definition read_tier :: visual_tier where
  "read_tier = normalizeVisualTier empty_tier"

lemma read_tier_costs: "vt_costs read_tier = map (\<lambda>k. (k, Fin 0)) cost_fields"
  by (simp add: read_tier_def normalizeVisualTier_def empty_tier_def cost_of_def num_field_def num_or_def
      num_truthy_def)

lemma put_costs:
  assumes "canonical_costs m"
  shows "foldl (\<lambda>m' k. obj_put k (cost_of m k) m') (vt_costs read_tier) (filter (shown m) summand_order) = m"
    (is "?r = m")
proof (rule alist_eq)
  have keys: "map fst (vt_costs read_tier) = cost_fields" by (simp add: read_tier_costs comp_def)
  then show k: "map fst ?r = map fst m"
    using assms cost_fields_order(1) by (subst put_all(1)) (auto simp: canonical_costs_def)
  then show "distinct (map fst ?r)" using assms cost_fields_order(2) by (simp add: canonical_costs_def)
  fix k
  assume "k \<in> set (map fst ?r)"
  with k assms have f: "k \<in> set cost_fields" by (simp add: canonical_costs_def)
  show "map_of ?r k = map_of m k"
  proof (cases "shown m k")
    case True
    with f canonical_cost(1) [OF assms f] cost_fields_order(1) show ?thesis by (simp add: put_all(2))
  next
    case False
    then have "cost_of m k = Fin 0"
      using canonical_cost(2) [OF assms f] by (auto simp: shown_def dest: carried_finite finite_zero)
    with False f canonical_cost(1) [OF assms f] show ?thesis
      by (simp add: put_all(2) read_tier_costs map_of_map_restrict)
  qed
qed

lemma body_parts:
  assumes "canonical_costs (vt_costs t)"
    and "w \<in> set (map (\<lambda>k. summand_text k (cost_of (vt_costs t) k)) (filter (shown (vt_costs t)) summand_order))"
  shows "piece stop w \<and> firm w"
proof -
  from assms(2) obtain k where "k \<in> set summand_order" "w = summand_text k (cost_of (vt_costs t) k)"
    by auto
  then show ?thesis
    using canonical_cost(2) [OF assms(1)] cost_fields_order(1) summand_shape by simp
qed

lemma body_parts_not_Nil: "filter (shown m) summand_order \<noteq> []"
proof -
  have "J ''input_unit_cost'' \<in> set (filter (shown m) summand_order)"
    by (simp only: set_filter mem_Collect_eq shown_keys summand_order_def list.set insert_iff simp_thms)
  then show ?thesis by force
qed

lemma firm_body: "canonical_costs (vt_costs t) \<Longrightarrow> firm (buildTierBodyExpr t)"
  unfolding tier_body_summands using body_parts [of t] body_parts_not_Nil
  by (intro firm_join) auto

lemma parse_body:
  assumes "canonical_costs (vt_costs t)"
  shows "parseTierBody_q (buildTierBodyExpr t) = Some (read_tier\<lparr>vt_costs := vt_costs t\<rparr>)"
proof -
  let ?ks = "filter (shown (vt_costs t)) summand_order"
  let ?f = "\<lambda>k. summand_text k (cost_of (vt_costs t) k)"
  have "splitTopLevel (buildTierBodyExpr t) (J ''+'') = map ?f ?ks"
    unfolding tier_body_summands
    using body_parts [OF assms] body_parts_not_Nil firm_trim piece_stop(1)
    by (intro summands.split_join) (auto simp: firm_def)
  moreover have "read_summands (map ?f ?ks) (vt_costs read_tier) = Some (vt_costs t)"
    using canonical_cost(2) [OF assms] cost_fields_order(1) put_costs [OF assms]
    by (subst read_summands_texts [where c = "cost_of (vt_costs t)"]) (auto intro: read_summand_text)
  ultimately show ?thesis
    using firm_body [OF assms] by (simp add: parseTierBody_q_def Let_def read_tier_def firm_unwrap)
qed

end
