(* ===== verification/TierConditions.thy ===== *)
theory TierConditions
  imports TierBodies
begin

text \<open>
  The conditions of a tier: the pieces their text falls into at \<open>&&\<close>, and why reading two
  neighbouring pieces as one condition succeeds exactly for the two halves of a guarded condition.
\<close>

section \<open>Literals are not read across a conjunction\<close>

text \<open>A unit that no number contains stays in what follows the number.\<close>

lemma kept_dropWhile: "x \<in> set s \<Longrightarrow> \<not> P x \<Longrightarrow> x \<in> set (dropWhile P s)"
  by (induction s) auto

lemma kept_tl: "x \<in> set s \<Longrightarrow> starts_with s [a] \<Longrightarrow> x \<noteq> a \<Longrightarrow> x \<in> set (tl s)"
  by (cases s) auto

lemma kept_read_exp: "x \<in> set s \<Longrightarrow> \<not> num_unit x \<Longrightarrow> x \<in> set (snd (read_exp s))"
  by (cases s) (auto simp: read_exp_def Let_def num_unit_def intro!: kept_dropWhile kept_tl)

lemma drop_takeWhile: "drop (length (takeWhile P s)) s = dropWhile P s"
  by (induction s) auto

lemma kept_integer:
  assumes "x \<in> set u" "x \<noteq> 48" "\<not> is_digit x"
  shows "x \<in> set (drop (length (if starts_with u [48] then [48] else takeWhile is_digit u)) u)"
  using kept_tl [OF assms(1)] kept_dropWhile [OF assms(1)] assms(2,3)
  by (simp add: drop_takeWhile drop_Suc)

lemma kept_fraction:
  assumes "x \<in> set z" "x \<noteq> 46" "\<not> is_digit x"
    "fp = (if starts_with z [46] then takeWhile is_digit (tl z) else [])"
  shows "x \<in> set (drop (if fp = [] then 0 else Suc (length fp)) z)"
proof (cases "fp = []")
  case False
  with assms(4) have "starts_with z [46]" "fp = takeWhile is_digit (tl z)" by (auto split: if_splits)
  with False kept_tl [OF assms(1)] assms(2,3) show ?thesis
    by (simp add: drop_Suc drop_takeWhile kept_dropWhile)
qed (use assms(1) in simp)

lemma kept_json_number:
  assumes "json_number s = Some (v, t)" "x \<in> set s" "\<not> num_unit x"
  shows "x \<in> set t"
proof -
  have x: "x \<noteq> 45" "x \<noteq> 46" "x \<noteq> 48" "\<not> is_digit x"
    using assms(3) by (auto simp: num_unit_def is_digit_def)
  define u where "u = (if starts_with s [45] then tl s else s)"
  define ip where "ip = (if starts_with u [48] then [48] else takeWhile is_digit u)"
  define r where "r = drop (length ip) u"
  define fp where "fp = (if starts_with r [46] then takeWhile is_digit (tl r) else [])"
  have "x \<in> set u" using assms(2) kept_tl x(1) by (auto simp: u_def)
  then have "x \<in> set r" unfolding r_def ip_def by (rule kept_integer [OF _ x(3,4)])
  then have "x \<in> set (drop (if fp = [] then 0 else Suc (length fp)) r)"
    by (rule kept_fraction [OF _ x(2,4) fp_def])
  then have "x \<in> set (snd (read_exp (drop (if fp = [] then 0 else Suc (length fp)) r)))"
    using assms(3) by (rule kept_read_exp)
  moreover have "t = snd (read_exp (drop (if fp = [] then 0 else Suc (length fp)) r))"
    using assms(1) unfolding json_number_def Let_def case_prod_unfold u_def [symmetric] ip_def [symmetric]
      r_def [symmetric] fp_def [symmetric]
    by (simp split: if_splits)
  ultimately show ?thesis by simp
qed

text \<open>A literal of the expression language and more text that is not white space is no literal.\<close>

lemma json_trailing:
  assumes "json_value (2 * length s + 2) s = None \<or>
      (\<exists>v t x. json_value (2 * length s + 2) s = Some (v, t) \<and> x \<in> set t \<and> \<not> json_ws x)"
  shows "json_parse s = Inl SyntaxError"
  using assms by (auto simp: json_parse_def skip_ws_def)

lemma json_two: "json_value (2 * length s + 2) s = json_value (Suc (2 * length s + 1)) s"
  by simp

lemma numeric_hd: "is_numeric v \<Longrightarrow> num_unit (hd v) \<and> v = hd v # tl v"
  using numeric_units [of v] numeric_not_Nil [of v] by (cases v) auto

lemma numeric_trailing:
  assumes "is_numeric v" "x \<in> set s" "\<not> num_unit x" "\<not> json_ws x"
  shows "json_parse (v @ s) = Inl SyntaxError"
proof -
  obtain a w where v: "v = a # w" "num_unit a" using numeric_hd [OF assms(1)] by metis
  then have a: "\<not> json_ws a" "a \<notin> {34, 91, 123, 116, 102, 110}"
    by (auto simp: num_unit_def is_digit_def json_ws_def)
  then have e: "json_value (Suc f) (v @ s) = map_option (\<lambda>(x, t). (JNum x, t)) (json_number (v @ s))" for f
    using v by (simp add: skip_ws_def starts_with_def)
  show ?thesis
  proof (rule json_trailing, cases "json_number (v @ s)")
    case None
    then show "json_value (2 * length (v @ s) + 2) (v @ s) = None \<or>
      (\<exists>y t x. json_value (2 * length (v @ s) + 2) (v @ s) = Some (y, t) \<and> x \<in> set t \<and> \<not> json_ws x)"
      unfolding json_two e by simp
  next
    case (Some y)
    then have "x \<in> set (snd y)"
      using kept_json_number [of "v @ s" "fst y" "snd y" x] assms(2,3) by simp
    with Some assms(4) show "json_value (2 * length (v @ s) + 2) (v @ s) = None \<or>
      (\<exists>y t x. json_value (2 * length (v @ s) + 2) (v @ s) = Some (y, t) \<and> x \<in> set t \<and> \<not> json_ws x)"
      unfolding json_two e by (cases y) auto
  qed
qed

lemma quote_trailing:
  assumes "utf16 v" "x \<in> set s" "\<not> json_ws x"
  shows "json_parse (json_quote v @ s) = Inl SyntaxError"
  using assms read_json_body [of v s]
  by (intro json_trailing disjI2) (auto simp: json_quote_shape)

lemma word_trailing:
  assumes "x \<in> set s" "\<not> json_ws x"
  shows "json_parse (J ''true'' @ s) = Inl SyntaxError" "json_parse (J ''false'' @ s) = Inl SyntaxError"
  by (rule json_trailing, rule disjI2, use assms in \<open>auto simp: skip_ws_def json_ws_def starts_with_def\<close>)+

lemma trim_keeps:
  assumes "\<not> is_ws (hd (a @ [b]))" "\<not> is_ws b"
  shows "\<exists>r'. trim (a @ b # r) = a @ b # r'"
proof -
  have "dropWhile is_ws (u @ b # v) = dropWhile is_ws u @ b # v" for u v
    using assms(2) by (induction u) auto
  moreover have "dropWhile is_ws (a @ b # r) = a @ b # r"
    using assms(1) by (intro dropWhile_hd) (auto simp: hd_append)
  ultimately show ?thesis by (simp add: trim_def)
qed

lemma no_literal_across:
  assumes "plain_text v"
  shows "parseExprLiteral (buildExprLiteral MATCH_EQ v @ J '' && '' @ q) = None"
proof -
  let ?l = "buildExprLiteral MATCH_EQ v"
  have l: "?l = J ''true'' \<or> ?l = J ''false'' \<or> is_numeric ?l \<or> ?l = json_quote v"
    using assms by (auto simp: buildExprLiteral_def plain_text_trim)
  then have "\<not> is_ws (hd ?l)" "?l \<noteq> []"
    using numeric_hd [of ?l] num_unit_not_ws by (auto simp: json_quote_shape visible_not_ws)
  then obtain r where r: "trim (?l @ J '' && '' @ q) = ?l @ 32 # 38 # r"
    using trim_keeps [of "?l @ [32]" 38 "38 # 32 # q"] by (auto simp: visible_not_ws hd_append)
  let ?t = "?l @ 32 # 38 # r"
  have "\<not> num_unit 38" "\<not> json_ws 38" by (simp_all add: num_unit_def is_digit_def json_ws_def)
  moreover have "38 \<in> set (32 # 38 # r)" by simp
  ultimately have trailing: "json_parse (J ''true'' @ 32 # 38 # r) = Inl SyntaxError"
    "json_parse (J ''false'' @ 32 # 38 # r) = Inl SyntaxError"
    "is_numeric w \<Longrightarrow> json_parse (w @ 32 # 38 # r) = Inl SyntaxError"
    "json_parse (json_quote v @ 32 # 38 # r) = Inl SyntaxError" for w
    using assms word_trailing numeric_trailing quote_trailing unfolding plain_text_def by blast+
  from l have "json_parse ?t = Inl SyntaxError"
    by (elim disjE) (simp_all only: trailing)
  moreover have "\<not> is_numeric ?t"
  proof
    assume "is_numeric ?t"
    then have "list_all num_unit ?t" by (rule numeric_units)
    then show False by (simp add: num_unit_def is_digit_def)
  qed
  moreover have "?t \<noteq> J ''true''" "?t \<noteq> J ''false''"
    by (rule notI, drule arg_cong [where f = "\<lambda>z. 38 \<in> set z"], simp)+
  ultimately show ?thesis unfolding parseExprLiteral_def r Let_def by simp
qed

section \<open>Two conditions are not read as one\<close>

definition cmp_rest :: "rstate \<Rightarrow> rstate list" where
  "cmp_rest = mt (rcat [RCap 2 r_json_lit, rlit (J '') ''),
     RCap 3 (ralt [rlit (J ''>''), rlit (J ''>=''), rlit (J ''<''), rlit (J ''<='')]),
     rlit (J '' ''), RCap 4 r_num_run, REos])"

text \<open>A text that does not complete a guard \<open>param(..) != nil\<close> in front of it.\<close>

definition follows :: "jsstr \<Rightarrow> bool" where
  "follows q \<longleftrightarrow> (\<forall>p c. eat (J ''has(param('') (p, q, c) = []) \<and>
     (\<forall>p c. andthen (eat (J ''param('') (p, q, c)) cmp_rest = [])"

lemma num_then_more:
  assumes "is_numeric v"
  shows "andthen (mt (RCap i r_num_run) (p, v @ 32 # t, c)) (mt REos) = []"
  using cap_plus_split [of num_unit "mt REos" v "32 # t" i p c] numeric_units [OF assms]
    numeric_not_Nil [OF assms]
  by (simp add: r_num_run_def num_unit_def is_digit_def)

lemma num_not_bars:
  assumes "is_numeric v"
  shows "mt (rcat (RCap i r_num_run # rlit (32 # 124 # w) # q # rs)) (p, v @ 32 # 38 # t, c) = []"
  using num_step [OF assms, of i "124 # w" q rs p "38 # t" c] by (simp add: mt_rcat_Cons2)

lemma time_not_merged:
  assumes "f \<in> set TIME_FUNCS" "z \<noteq> []" "34 \<notin> set z" "is_numeric v"
    "op \<in> {J ''=='', J ''>='', J ''<''}"
  shows "tryParseTimeCondition (f @ J ''(\"'' @ z @ J ''\") '' @ op @ J '' '' @ v @ J '' && '' @ q) = None"
proof -
  let ?e = "f @ J ''(\"'' @ z @ J ''\") '' @ op @ J '' '' @ v @ J '' && '' @ q"
  have op: "op = J ''=='' \<or> op = J ''>='' \<or> op = J ''<''" using assms(5) by auto
  have 1: "mt (rcat (r_range @ [REos])) (None, ?e, []) = []"
    using op assms by (auto simp: r_range_def seq_steps func_step zone_step num_not_bars)
  have 2: "mt (rcat (([rlit (J ''('')] @ r_range @ [rlit (J '')'')]) @ [REos])) (None, ?e, []) = []"
    using assms by (simp add: r_range_def seq_steps func_not_paren del: eat.simps)
  have 3: "mt (rcat (r_time_cmp @ [REos])) (None, ?e, []) = []"
    using op assms
    by (auto simp: r_time_cmp_def seq_steps func_step zone_step mt_rcat_Cons2 [of "RCap 3 r" for r]
        mt_cap_alt mt_rcat_Cons2 [of "RCap 4 r" for r] num_then_more)
  show ?thesis unfolding tryParseTimeCondition_def rx_caps_whole 1 2 3 by simp
qed

lemma range_not_merged:
  assumes "f \<in> set TIME_FUNCS" "z \<noteq> []" "34 \<notin> set z" "is_numeric s" "is_numeric e"
  shows "tryParseTimeCondition (range_text f z s e @ J '' && '' @ q) = None"
proof -
  let ?e = "range_text f z s e @ J '' && '' @ q"
  have 1: "mt (rcat (r_range @ [REos])) (None, ?e, []) = []"
    using assms
    by (simp add: range_text_def r_range_def seq_steps func_step zone_step num_step eat_append_ran
      mt_rcat_Cons2 [of "RCap 4 r" for r] num_then_more)
  have 2: "mt (rcat (([rlit (J ''('')] @ r_range @ [rlit (J '')'')]) @ [REos])) (None, ?e, []) = []"
    using assms by (simp add: range_text_def r_range_def seq_steps func_not_paren del: eat.simps)
  have 3: "mt (rcat (r_time_cmp @ [REos])) (None, ?e, []) = []"
    using assms
    by (auto simp: range_text_def r_time_cmp_def seq_steps func_step zone_step
        mt_rcat_Cons2 [of "RCap 3 r" for r] mt_cap_alt mt_rcat_Cons2 [of "RCap 4 r" for r] num_then_more)
  show ?thesis unfolding tryParseTimeCondition_def rx_caps_whole 1 2 3 by simp
qed

lemma func_fails:
  assumes "f \<in> set TIME_FUNCS" "tryParseTimeCondition (f @ s) = None"
  shows "tryParseRequestCondition (f @ s) = Inr None"
proof -
  have "f = J ''hour'' \<or> f = J ''minute'' \<or> f = J ''weekday'' \<or> f = J ''month'' \<or> f = J ''day''"
    using assms(1) by (auto simp: TIME_FUNCS_def)
  then show ?thesis
    using assms(2)
    by (elim disjE) (simp_all add: tryParseRequestCondition_def pattern_steps r_header_exists_def
        r_param_exists_def r_header_contains_def r_param_contains_def r_param_cmp_def r_equals_def mt_cap_alt)
qed

text \<open>The patterns of header and parameter conditions, one by one.\<close>

lemmas ph_patterns = tryParseRequestCondition_def pattern_steps r_header_exists_def r_param_exists_def
  r_header_contains_def r_param_contains_def r_param_cmp_def r_equals_def mt_cap_alt time_fails [simplified]

lemma exists_not_merged:
  assumes "utf16 w"
  shows "tryParseRequestCondition (J ''header('' @ json_quote w @ J '') != \"\"'' @ J '' && '' @ q) = Inr None"
    and "follows q \<Longrightarrow>
      tryParseRequestCondition (J ''param('' @ json_quote w @ J '') != nil'' @ J '' && '' @ q) = Inr None"
proof -
  show "tryParseRequestCondition (J ''header('' @ json_quote w @ J '') != \"\"'' @ J '' && '' @ q) = Inr None"
    using assms by (simp add: ph_patterns)
  assume "follows q"
  then have "eat [104, 97, 115, 40, 112, 97, 114, 97, 109, 40] (p, q, c) = []"
    "andthen (eat [112, 97, 114, 97, 109, 40] (p, q, c)) cmp_rest = []" for p c
    by (auto simp: follows_def)
  with assms show "tryParseRequestCondition (J ''param('' @ json_quote w @ J '') != nil'' @ J '' && '' @ q) = Inr None"
    by (simp add: ph_patterns cmp_rest_def)
qed

lemma contains_not_merged:
  assumes "utf16 w" "utf16 v"
  shows "tryParseRequestCondition (J ''has(header('' @ json_quote w @ J ''), '' @ json_quote v @ J '')''
      @ J '' && '' @ q) = Inr None"
    and "tryParseRequestCondition (J ''param('' @ json_quote w @ J '') != nil && has(param('' @
      json_quote w @ J ''), '' @ json_quote v @ J '')'' @ J '' && '' @ q) = Inr None"
  using assms by (simp_all add: ph_patterns)

lemma cmp_not_merged:
  assumes "utf16 w" "is_numeric v" "op \<in> {J ''>'', J ''>='', J ''<'', J ''<=''}"
  shows "tryParseRequestCondition (J ''param('' @ json_quote w @ J '') != nil && param('' @
      json_quote w @ J '') '' @ op @ J '' '' @ v @ J '' && '' @ q) = Inr None"
proof -
  from assms(3) consider "op = J ''>''" | "op = J ''>=''" | "op = J ''<''" | "op = J ''<=''" by blast
  then show ?thesis
    using assms(1,2) by cases (simp_all add: ph_patterns num_then_more)
qed

lemma dot_rest:
  "y \<in> set (andthen (mt (RCap i (rplus (RChr is_dot))) (p, s, c)) (mt REos)) \<Longrightarrow> \<exists>p'. y = (p', [], (i, s) # c)"
proof -
  assume "y \<in> set (andthen (mt (RCap i (rplus (RChr is_dot))) (p, s, c)) (mt REos))"
  then obtain x where x: "x \<in> set (mt (RCap i (rplus (RChr is_dot))) (p, s, c))" "y \<in> set (mt REos x)"
    unfolding set_andthen by blast
  obtain v u where "s = v @ u" "x = (ran p v, u, (i, v) # c)"
    by (rule cap_elem [OF x(1), of "\<lambda>_. True"]) (auto simp: rplus_def)
  with x(2) show ?thesis by (auto split: if_splits)
qed

lemma equals_not_merged:
  assumes "utf16 w" "plain_text v"
  shows "tryParseRequestCondition (source_expr src w @ J '' == '' @ buildExprLiteral MATCH_EQ v
      @ J '' && '' @ q) = Inr None"
proof -
  let ?l = "buildExprLiteral MATCH_EQ v @ J '' && '' @ q"
  let ?e = "\<lambda>p c. andthen (mt (RCap 3 (rplus (RChr is_dot))) (p, ?l, c)) (mt REos)"
  have e: "?e p c = [] \<or> (\<exists>p' r. ?e p c = (p', [], (3, ?l) # c) # r)" for p c
    using dot_rest [of "hd (?e p c)" 3 p ?l c] by (cases "?e p c") auto
  show ?thesis
    using assms(1) no_literal_across [OF assms(2), of q]
      e [of "Some 32" "[(2, json_quote w), (1, J ''param'')]"]
      e [of "Some 32" "[(2, json_quote w), (1, J ''header'')]"]
    by (cases src) (auto simp: ph_patterns source_expr_def)
qed

lemma not_merged:
  assumes "canonical c" "follows q"
  shows "tryParseRequestCondition (buildRequestConditionExpr c @ J '' && '' @ q) = Inr None"
proof (cases c)
  case (TimeCond r)
  then have can: "canonical (TimeCond r)" using assms(1) by (simp only:)
  then have f: "tc_func r \<in> set TIME_FUNCS" by simp
  show ?thesis
  proof (cases "tc_mode r = MATCH_RANGE")
    case True
    with can have "tryParseTimeCondition (range_text (tc_func r) (tc_zone r) (tc_start r) (tc_end r)
        @ J '' && '' @ q) = None"
      by (intro range_not_merged) (auto simp: unquoted_def)
    with func_fails [OF f] True TimeCond show ?thesis
      unfolding TimeCond built_time [OF can] by (simp add: range_text_def)
  next
    case False
    let ?op = "if tc_mode r = MATCH_EQ then J ''=='' else if tc_mode r = MATCH_GTE then J ''>=''
        else J ''<''"
    from False can have "tryParseTimeCondition (tc_func r @ J ''(\"'' @ tc_zone r @ J ''\") '' @ ?op
        @ J '' '' @ tc_value r @ J '' && '' @ q) = None"
      by (intro time_not_merged) (auto simp: unquoted_def)
    from func_fails [OF f this] False show ?thesis
      unfolding TimeCond built_time [OF can] by (simp only: if_False append_assoc)
  qed
next
  case (PHCond r)
  then have can: "canonical (PHCond r)" using assms(1) by (simp only:)
  then have w: "utf16 (ph_path r)" by (simp add: plain_text_def)
  note t = built_ph [OF can, folded PHCond]
  from can show ?thesis
  proof (cases rule: ph_modes)
    case 1
    then show ?thesis
      using exists_not_merged [OF w] assms(2) by (cases "ph_source r") (simp_all add: t Let_def source_expr_def)
  next
    case 2
    then have "utf16 (ph_value r)" by (simp add: plain_text_def)
    with 2 show ?thesis
      using contains_not_merged [OF w] by (cases "ph_source r") (simp_all add: t Let_def source_expr_def)
  next
    case 3
    then consider "ph_mode r = MATCH_GT" | "ph_mode r = MATCH_GTE" | "ph_mode r = MATCH_LT"
      | "ph_mode r = MATCH_LTE" by blast
    then show ?thesis
      using 3(1) cmp_not_merged [OF w 3(2), of "J ''>''"] cmp_not_merged [OF w 3(2), of "J ''>=''"]
        cmp_not_merged [OF w 3(2), of "J ''<''"] cmp_not_merged [OF w 3(2), of "J ''<=''"]
      by cases (simp_all add: t Let_def source_expr_def)
  next
    case 4
    with equals_not_merged [OF w 4(2)] show ?thesis by (simp add: t Let_def)
  qed
qed

section \<open>Pieces of the text of a condition\<close>

text \<open>A guarded condition tests that the parameter is there before it looks at it.\<close>

fun atoms :: "request_condition \<Rightarrow> jsstr list" where
  "atoms (TimeCond r) = [buildRequestConditionExpr (TimeCond r)]"
| "atoms (PHCond r) =
     (let src = source_expr Param (ph_path r) in
      if ph_source r = Header \<or> ph_mode r = MATCH_EXISTS \<or> ph_mode r = MATCH_EQ
      then [buildRequestConditionExpr (PHCond r)]
      else if ph_mode r = MATCH_CONTAINS
      then [src @ J '' != nil'', J ''has('' @ src @ J '', '' @ json_quote (ph_value r) @ J '')'']
      else [src @ J '' != nil'', src @ J '' '' @
        (if ph_mode r = MATCH_GT then J ''>'' else if ph_mode r = MATCH_GTE then J ''>=''
         else if ph_mode r = MATCH_LT then J ''<'' else J ''<='') @ J '' '' @ ph_value r])"

lemma atoms_text:
  assumes "canonical c"
  shows "buildRequestConditionExpr c = join (J '' && '') (atoms c)"
proof (cases c)
  case (PHCond r)
  then have can: "canonical (PHCond r)" using assms by (simp only:)
  from can show ?thesis
    unfolding PHCond using built_ph [OF can]
    by (cases rule: ph_modes; cases "ph_source r") (auto simp: Let_def)
qed simp

lemma atoms_cases: "(\<exists>a. atoms c = [a]) \<or> (\<exists>a b. atoms c = [a, b])"
  by (cases c) (auto simp: Let_def)

text \<open>A scan for a conjunction or a ternary passes over a piece.\<close>

definition cstop :: "int option \<Rightarrow> int \<Rightarrow> bool" where
  "cstop p c \<longleftrightarrow> c \<in> {38, 58, 63}"

lemma piece_calm: "list_all (\<lambda>c. plain_unit c \<and> c \<notin> {38, 58, 63}) w \<Longrightarrow> piece cstop w"
  by (rule piece_plain) (auto simp: list_all_iff cstop_def)

lemma piece_cstop: "piece stop w \<Longrightarrow> piece cstop w"
  by (erule piece_mono) (auto simp: stop_def cstop_def)

lemma piece_numeric: "is_numeric w \<Longrightarrow> piece cstop w"
proof (rule piece_calm)
  assume "is_numeric w"
  then have "list_all num_unit w" by (rule numeric_units)
  moreover have "num_unit c \<Longrightarrow> plain_unit c \<and> c \<notin> {38, 58, 63}" for c
    by (auto simp: num_unit_def is_digit_def plain_unit_def)
  ultimately show "list_all (\<lambda>c. plain_unit c \<and> c \<notin> {38, 58, 63}) w" by (rule list.pred_mono_strong)
qed

lemma firm_numeric: "is_numeric w \<Longrightarrow> firm w"
proof -
  assume w: "is_numeric w"
  then have "num_unit (hd w)" "num_unit (last w)" "w \<noteq> []"
    using numeric_units [OF w] numeric_not_Nil [OF w] by (auto simp: list_all_iff)
  moreover from \<open>num_unit (hd w)\<close> have "hd w \<noteq> 40" by (auto simp: num_unit_def is_digit_def)
  ultimately show ?thesis by (simp add: firm_def num_unit_not_ws)
qed

lemma length_json_body: "length s \<le> length (json_body s) \<and> (92 \<in> set s \<longrightarrow> length s < length (json_body s))"
proof -
  have u: "1 \<le> length (quote_unit c)" "c = 92 \<Longrightarrow> 1 < length (quote_unit c)" for c
    by (auto simp: quote_unit_def esc_unit_def u_escape_def)
  show ?thesis
  proof (induction s rule: json_body.induct)
    case (2 c)
    then show ?case unfolding json_body_units using u [of c] by auto
  next
    case (3 c d s)
    show ?case
    proof (cases "is_high c \<and> is_low d")
      case True
      with 3 show ?thesis by (auto simp: is_high_bounds)
    next
      case False
      with 3 show ?thesis unfolding json_body_units(2) [OF False] using u [of c] by fastforce
    qed
  qed simp
qed

lemma items_plain: "34 \<notin> set s \<Longrightarrow> 92 \<notin> set s \<Longrightarrow> items s"
  by (induction s) auto

lemma unquoted_items: "unquoted z \<Longrightarrow> items z"
  using length_json_body [of z] by (auto simp: unquoted_def intro: items_plain)

lemma func_shape: "f \<in> set TIME_FUNCS \<Longrightarrow> piece cstop f \<and> firm f"
proof -
  assume "f \<in> set TIME_FUNCS"
  moreover have "\<forall>f \<in> set TIME_FUNCS. list_all (\<lambda>c. plain_unit c \<and> c \<notin> {38, 58, 63}) f \<and> firm f"
    by code_simp
  ultimately show ?thesis by (auto intro: piece_calm)
qed

lemma piece_call_text:
  assumes "piece cstop f" "items z"
  shows "piece cstop (f @ J ''(\"'' @ z @ J ''\")'')"
proof -
  have "piece cstop (40 # (34 # z @ [34]) @ [41])"
    by (rule piece_parens [OF piece_items [OF assms(2)]]) (simp add: cstop_def)
  from piece_append [OF assms(1) this] show ?thesis by simp
qed

lemma piece_source:
  assumes "utf16 w"
  shows "piece cstop (source_expr src w)" "firm (source_expr src w)" "source_expr src w \<noteq> []"
proof -
  have q: "piece cstop (40 # json_quote w @ [41])"
    using assms by (intro piece_parens [OF piece_quote]) (auto simp: cstop_def)
  have "piece cstop (J ''param'')" "piece cstop (J ''header'')"
    by (rule piece_calm, simp add: plain_unit_def)+
  from this [THEN piece_append [OF _ q]] show "piece cstop (source_expr src w)"
    by (cases src) (simp_all add: source_expr_def)
  show "firm (source_expr src w)" "source_expr src w \<noteq> []"
    by (cases src; simp add: source_expr_def firm_def visible_not_ws)+
qed

lemma piece_literal:
  assumes "plain_text v"
  shows "piece cstop (buildExprLiteral MATCH_EQ v)" "\<not> is_ws (last (buildExprLiteral MATCH_EQ v))"
    "buildExprLiteral MATCH_EQ v \<noteq> []"
proof -
  let ?l = "buildExprLiteral MATCH_EQ v"
  have "piece cstop (J ''true'')" "piece cstop (J ''false'')"
    by (rule piece_calm, simp add: plain_unit_def)+
  moreover have "?l = J ''true'' \<or> ?l = J ''false'' \<or> is_numeric ?l \<or> ?l = json_quote v"
    using assms by (auto simp: buildExprLiteral_def plain_text_trim)
  moreover have "utf16 v" using assms by (simp add: plain_text_def)
  ultimately show "piece cstop ?l" by (auto intro: piece_numeric simp del: J_Cons)
  from \<open>?l = J ''true'' \<or> _\<close> show "\<not> is_ws (last ?l)" "?l \<noteq> []"
    using firm_numeric [of ?l] by (auto simp: firm_def visible_not_ws json_quote_shape)
qed

lemma follows_start:
  "s \<noteq> [] \<Longrightarrow> hd s \<notin> {104, 112} \<Longrightarrow> follows s"
  "follows (J ''header('' @ s)" "follows (J ''has(header('' @ s)" "follows (J ''hour'' @ s)" "follows (112 # 32 # s)"
  by (cases s, simp_all add: follows_def)

lemma follows_param:
  assumes "utf16 w" "a \<noteq> 60" "a \<noteq> 62"
  shows "follows (J ''param('' @ json_quote w @ J '') '' @ a # s)"
  using assms by (simp add: follows_def cmp_rest_def pattern_steps mt_cap_alt)

lemma follows_func: "f \<in> set TIME_FUNCS \<Longrightarrow> follows (f @ s)"
proof -
  assume "f \<in> set TIME_FUNCS"
  then have "f = J ''hour'' \<or> f = J ''minute'' \<or> f = J ''weekday'' \<or> f = J ''month'' \<or> f = J ''day''"
    by (auto simp: TIME_FUNCS_def)
  then show ?thesis by (elim disjE) (simp_all add: follows_def)
qed

lemma follows_condition:
  assumes "canonical c"
  shows "follows (buildRequestConditionExpr c)" "follows (hd (atoms c))"
proof -
  have "follows (buildRequestConditionExpr c) \<and> follows (hd (atoms c))"
  proof (cases c)
    case (TimeCond r)
    then have can: "canonical (TimeCond r)" using assms by (simp only:)
    then have f: "tc_func r \<in> set TIME_FUNCS" by simp
    show ?thesis
      using follows_func [OF f] unfolding TimeCond by (simp add: built_time [OF can] range_text_def)
  next
    case (PHCond r)
    then have can: "canonical (PHCond r)" using assms by (simp only:)
    then have w: "utf16 (ph_path r)" by (simp add: plain_text_def)
    note p = follows_param [OF w, of 33] follows_param [OF w, of 61] and h = follows_start(2,3)
    from can show ?thesis
      using p h unfolding PHCond
      by (cases rule: ph_modes; cases "ph_source r")
        (auto simp: built_ph [OF can] Let_def source_expr_def)
  qed
  then show "follows (buildRequestConditionExpr c)" "follows (hd (atoms c))" by auto
qed

lemma time_atom:
  assumes "canonical (TimeCond r)"
  shows "piece cstop (buildRequestConditionExpr (TimeCond r)) \<and> firm (buildRequestConditionExpr (TimeCond r))"
proof -
  have f: "tc_func r \<in> set TIME_FUNCS" and z: "items (tc_zone r)"
    using assms by (simp_all add: unquoted_items)
  have c: "piece cstop (tc_func r @ J ''(\"'' @ tc_zone r @ J ''\")'')"
    using func_shape [OF f] z by (intro piece_call_text) auto
  have o: "piece cstop (J '' '' @ op @ J '' '')" if "op \<in> {J ''=='', J ''>='', J ''<''}" for op
    by (rule piece_calm) (use that in \<open>auto simp: plain_unit_def\<close>)
  have b: "piece cstop (J '' || '')" by (rule piece_calm) (simp add: plain_unit_def)
  show ?thesis
  proof (cases "tc_mode r = MATCH_RANGE")
    case True
    with assms have n: "is_numeric (tc_start r)" "is_numeric (tc_end r)" by auto
    have "piece cstop ((tc_func r @ J ''(\"'' @ tc_zone r @ J ''\")'') @ (J '' '' @ J ''>='' @ J '' '') @ tc_start r
        @ J '' || '' @ (tc_func r @ J ''(\"'' @ tc_zone r @ J ''\")'') @ (J '' '' @ J ''<'' @ J '' '') @ tc_end r)"
      by (intro piece_append c o b piece_numeric n) simp_all
    moreover have "firm (range_text (tc_func r) (tc_zone r) (tc_start r) (tc_end r))"
      using func_shape [OF f] firm_numeric [OF n(2)] unfolding range_text_def
      by (intro firm_append) (auto simp: firm_def)
    ultimately show ?thesis using True by (simp add: built_time [OF assms] range_text_def)
  next
    case False
    let ?op = "if tc_mode r = MATCH_EQ then J ''=='' else if tc_mode r = MATCH_GTE then J ''>='' else J ''<''"
    from False assms have n: "is_numeric (tc_value r)" by auto
    have "piece cstop ((tc_func r @ J ''(\"'' @ tc_zone r @ J ''\")'') @ (J '' '' @ ?op @ J '' '') @ tc_value r)"
      by (intro piece_append c o piece_numeric n) simp
    moreover have "firm (tc_func r @ J ''(\"'' @ tc_zone r @ J ''\") '' @ ?op @ J '' '' @ tc_value r)"
      using func_shape [OF f] firm_numeric [OF n] by (intro firm_append) (auto simp: firm_def)
    ultimately show ?thesis using False by (simp add: built_time [OF assms])
  qed
qed

lemma piece_has:
  assumes "utf16 w" "utf16 v"
  shows "piece cstop (J ''has('' @ source_expr src w @ J '', '' @ json_quote v @ J '')'')"
proof -
  have "piece cstop (J '', '')" "piece cstop (J ''has'')" by (rule piece_calm, simp add: plain_unit_def)+
  moreover from this(1) have "piece cstop (40 # (source_expr src w @ J '', '' @ json_quote v) @ [41])"
    using assms by (intro piece_parens [where Q = cstop] piece_append piece_source piece_quote)
      (simp_all add: cstop_def)
  ultimately have "piece cstop (J ''has'' @ 40 # (source_expr src w @ J '', '' @ json_quote v) @ [41])"
    by (intro piece_append)
  then show ?thesis by simp
qed

lemma firm_has: "firm (J ''has('' @ s @ J '', '' @ v @ J '')'')"
  by (simp add: firm_def visible_not_ws)

lemma ph_atom:
  assumes "canonical (PHCond r)" "a \<in> set (atoms (PHCond r))"
  shows "piece cstop a \<and> firm a"
proof -
  let ?src = "source_expr (ph_source r) (ph_path r)"
  from assms(1) have w: "utf16 (ph_path r)" by (simp add: plain_text_def)
  note src = piece_source [OF w]
  have calm: "piece cstop (J '' != nil'')" "piece cstop (J '' != \"\"'')" "piece cstop (J '' == '')"
    "op \<in> {J ''>'', J ''>='', J ''<'', J ''<=''} \<Longrightarrow> piece cstop (J '' '' @ op @ J '' '')" for op
  proof -
    show "piece cstop (J '' != nil'')" "piece cstop (J '' == '')"
      by (rule piece_calm, simp add: plain_unit_def)+
    have "piece cstop (J '' != '')" by (rule piece_calm) (simp add: plain_unit_def)
    moreover have "piece cstop (34 # [] @ [34])" by (rule piece_items) simp
    ultimately have "piece cstop (J '' != '' @ 34 # [] @ [34])" by (rule piece_append)
    then show "piece cstop (J '' != \"\"'')" by simp
    assume "op \<in> {J ''>'', J ''>='', J ''<'', J ''<=''}"
    then show "piece cstop (J '' '' @ op @ J '' '')"
      by (intro piece_calm) (auto simp: plain_unit_def)
  qed
  have ex: "piece cstop (source_expr s (ph_path r) @ J '' != nil'') \<and> firm (source_expr s (ph_path r) @ J '' != nil'')"
    "piece cstop (source_expr s (ph_path r) @ J '' != \"\"'') \<and> firm (source_expr s (ph_path r) @ J '' != \"\"'')" for s
    by (intro conjI piece_append src calm firm_append; simp add: visible_not_ws)+
  from assms(1) show ?thesis
  proof (cases rule: ph_modes)
    case 1
    with assms ex show ?thesis by (cases "ph_source r") (auto simp: built_ph Let_def simp del: J_Cons)
  next
    case 2
    then have v: "utf16 (ph_value r)" by (simp add: plain_text_def)
    from 2 assms(2) have "a \<in> {source_expr Param (ph_path r) @ J '' != nil'',
        J ''has('' @ ?src @ J '', '' @ json_quote (ph_value r) @ J '')''}"
      using built_ph [OF assms(1)] by (cases "ph_source r") (auto simp: Let_def simp del: J_Cons)
    then show ?thesis using ex(1) piece_has [OF w v] firm_has by (auto simp del: J_Cons)
  next
    case 3
    let ?op = "if ph_mode r = MATCH_GT then J ''>'' else if ph_mode r = MATCH_GTE then J ''>=''
        else if ph_mode r = MATCH_LT then J ''<'' else J ''<=''"
    have t: "piece cstop (?src @ (J '' '' @ ?op @ J '' '') @ ph_value r)"
      by (intro piece_append src calm(4) piece_numeric 3(2)) simp
    have "firm (?src @ (J '' '' @ ?op @ J '' '') @ ph_value r)"
      using firm_numeric [OF 3(2)] by (intro firm_append src) (auto simp: firm_def)
    with t ex(1) [of Param] assms(2) 3 show ?thesis by (auto simp: Let_def simp del: J_Cons)
  next
    case 4
    have t: "piece cstop (?src @ J '' == '' @ buildExprLiteral MATCH_EQ (ph_value r))"
      by (intro piece_append src calm(3) piece_literal(1) 4(2))
    have "firm (?src @ J '' == '' @ buildExprLiteral MATCH_EQ (ph_value r))"
      using piece_literal [OF 4(2)] by (intro firm_append src) auto
    with t 4 assms(2) built_ph [OF assms(1)] show ?thesis by (auto simp: Let_def simp del: J_Cons)
  qed
qed

lemma atom_shape:
  assumes "canonical c" "a \<in> set (atoms c)"
  shows "piece cstop a" "firm a"
proof -
  have "piece cstop a \<and> firm a"
  proof (cases c)
    case (TimeCond r)
    with assms have "canonical (TimeCond r)" "a = buildRequestConditionExpr (TimeCond r)"
      by (simp_all only: atoms.simps list.set insert_iff empty_iff simp_thms)
    with time_atom show ?thesis by (simp only: simp_thms)
  next
    case (PHCond r)
    with assms ph_atom [of r a] show ?thesis by blast
  qed
  then show "piece cstop a" "firm a" by auto
qed

lemma firm_condition:
  assumes "canonical c"
  shows "firm (buildRequestConditionExpr c)" "glides (\<lambda>_ _. True) 1 (buildRequestConditionExpr c)"
proof -
  have at: "\<And>a. a \<in> set (atoms c) \<Longrightarrow> firm a \<and> glides (\<lambda>_ _. True) 1 a"
    using atom_shape [OF assms] by (simp add: piece_def)
  have amp: "glides (\<lambda>_ _. True) 1 (J '' && '')" by (rule glides_plain) (simp_all add: plain_unit_def)
  show "firm (buildRequestConditionExpr c)"
    unfolding atoms_text [OF assms] using at atoms_cases [of c] by (intro firm_join) auto
  from atoms_cases [of c] at show "glides (\<lambda>_ _. True) 1 (buildRequestConditionExpr c)"
    unfolding atoms_text [OF assms] by (auto intro!: glides_append amp simp del: J_Cons)
qed

end
