(* ===== verification/TierRoundTrip.thy ===== *)
theory TierRoundTrip
  imports TierConditions
begin

text \<open>
  The visual tier editor, printed and read back: the conditions in front of a tier, the call, and
  the ladder of ternaries that holds several tiers.
\<close>

section \<open>Conditions of a tier\<close>

definition token_ok :: "token_condition \<Rightarrow> bool" where
  "token_ok t \<longleftrightarrow> tk_var t \<in> {J ''p'', J ''c'', J ''len''} \<and>
     tk_op t \<in> {J ''<'', J ''<='', J ''>'', J ''>=''} \<and>
     (case tk_value t of VNum x \<Rightarrow> finite_cost x | VStr _ \<Rightarrow> False)"

fun canonical_cond :: "tier_cond \<Rightarrow> bool" where
  "canonical_cond (TokenCond t) \<longleftrightarrow> token_ok t"
| "canonical_cond (ReqCond c) \<longleftrightarrow> canonical c"

text \<open>The parts a condition's text is split into, where it stands among others.\<close>

fun segs :: "tier_cond \<Rightarrow> jsstr list" where
  "segs (TokenCond t) = [tier_cond_text (TokenCond t)]"
| "segs (ReqCond c) =
     (if js_includes (buildRequestConditionExpr c) (J '' || '')
      then [40 # buildRequestConditionExpr c @ [41]] else atoms c)"

lemma token_value:
  assumes "token_ok t"
  obtains x where "tk_value t = VNum x" "number_text (to_str x)" "to_number (to_str x) = x"
  using assms finite_cost_text by (cases "tk_value t") (auto simp: token_ok_def)

lemma token_text:
  assumes "token_ok t" "tk_value t = VNum x"
  shows "tier_cond_text (TokenCond t) = tk_var t @ J '' '' @ tk_op t @ J '' '' @ to_str x"
  using assms by (auto simp: token_ok_def)

lemma token_shape:
  assumes "token_ok t"
  shows "piece cstop (tier_cond_text (TokenCond t))" "firm (tier_cond_text (TokenCond t))"
    "follows (tier_cond_text (TokenCond t))" "124 \<notin> set (tier_cond_text (TokenCond t))"
proof -
  obtain x where x: "tk_value t = VNum x" "number_text (to_str x)" using token_value [OF assms] by blast
  note t = token_text [OF assms x(1)]
  have v: "tk_var t \<in> {J ''p'', J ''c'', J ''len''}" "tk_op t \<in> {J ''<'', J ''<='', J ''>'', J ''>=''}"
    using assms by (auto simp: token_ok_def)
  have "piece cstop (tk_var t @ J '' '' @ tk_op t @ J '' '')"
    by (rule piece_calm) (use v in \<open>auto simp: plain_unit_def\<close>)
  from piece_append [OF this piece_cstop [OF piece_number [OF x(2)]]]
  show "piece cstop (tier_cond_text (TokenCond t))" unfolding t by simp
  have "firm (tk_var t)" using v(1) by (auto simp: firm_def visible_not_ws)
  then show "firm (tier_cond_text (TokenCond t))"
    unfolding t using firm_number [OF x(2)] by (intro firm_append) (auto simp: firm_def)
  from v(1) show "follows (tier_cond_text (TokenCond t))"
    unfolding t using follows_start(5) by (auto intro: follows_start(1))
  have "124 \<notin> set (to_str x)"
    using number_text_units(1) [OF x(2)] by (auto simp: list_all_iff num_unit_def is_digit_def)
  with v show "124 \<notin> set (tier_cond_text (TokenCond t))" unfolding t by auto
qed

section \<open>Reading conditions\<close>

text \<open>After the variable and the operator of a token condition.\<close>

definition token_rest :: "rstate \<Rightarrow> rstate list" where
  "token_rest = mt (rcat [rws, RCap 3 NUMBER_PATTERN, REos])"

lemma token_rest_reads:
  assumes "number_text w"
  shows "\<exists>q zs. token_rest (p, 32 # w, c) = (q, [], (3, w) # c) # zs"
proof -
  obtain a v where w: "w = a # v" "\<not> is_ws a" using number_start [OF assms] by metis
  obtain zs where "andthen (mt (RCap 3 NUMBER_PATTERN) (Some 32, w, c)) (mt REos)
      = (ran (Some 32) w, [], (3, w) # c) # zs"
    using number_then_eos [OF assms] by blast
  with w show ?thesis
    by (simp add: token_rest_def mt_rcat_Cons2 mt_rws is_ws_def [of 32] runs_stop)
qed

definition op_rest :: "rstate \<Rightarrow> rstate list" where
  "op_rest = mt (rcat [RCap 2 (ralt [rlit (J ''<=''), rlit (J ''>=''), rlit (J ''<''), rlit (J ''>'')]),
     rws, RCap 3 NUMBER_PATTERN, REos])"

lemma token_match:
  "rx_caps r_token_cond s =
     (case andthen (mt (RCap 1 r_cond_var) (None, s, [])) (mt (rcat
        [rws, RCap 2 (ralt [rlit (J ''<=''), rlit (J ''>=''), rlit (J ''<''), rlit (J ''>'')]), rws,
         RCap 3 NUMBER_PATTERN, REos])) of
        [] \<Rightarrow> None | (p', t, c) # _ \<Rightarrow> Some c)"
  by (simp add: r_token_cond_def rx_caps_whole mt_rcat_Cons2 [of "RCap (Suc 0) r" for r])

lemma op_rest_fails: "s = [] \<or> hd s \<notin> {60, 62} \<Longrightarrow> op_rest (p, s, c) = []"
  by (cases s) (simp_all add: op_rest_def mt_rcat_Cons2 mt_cap_alt)

lemma op_rest_reads:
  assumes "number_text w" "op \<in> {J ''<'', J ''<='', J ''>'', J ''>=''}"
  shows "\<exists>q zs. op_rest (p, op @ 32 # w, c) = (q, [], (3, w) # (2, op) # c) # zs"
proof -
  obtain q zs where r: "token_rest (Some (last op), 32 # w, (2, op) # c) = (q, [], (3, w) # (2, op) # c) # zs"
    using token_rest_reads [OF assms(1)] by blast
  from assms(2) consider "op = J ''<''" | "op = J ''<=''" | "op = J ''>''" | "op = J ''>=''" by blast
  then show ?thesis
    using r by cases (simp_all add: op_rest_def token_rest_def mt_rcat_Cons2 [of "RCap 2 r" for r] mt_cap_alt)
qed

lemma token_rest_op: "mt (rcat
    [rws, RCap 2 (ralt [rlit (J ''<=''), rlit (J ''>=''), rlit (J ''<''), rlit (J ''>'')]), rws,
     RCap 3 NUMBER_PATTERN, REos]) (p, s, c) = andthen (runs is_ws (p, s, c)) op_rest"
  by (simp add: mt_rcat_Cons2 [of rws] mt_rws op_rest_def)

lemma match_token:
  assumes "number_text w" "op \<in> {J ''<'', J ''<='', J ''>'', J ''>=''}" "v \<in> {J ''p'', J ''c'', J ''len''}"
  shows "rx_caps r_token_cond (v @ 32 # op @ 32 # w) = Some [(3, w), (2, op), (1, v)]"
proof -
  have ws: "runs is_ws (p, op @ 32 # w, c) = [(p, op @ 32 # w, c)]" "is_ws 32" for p c
    using assms(2) by (auto simp: is_ws_def [of 32] runs_stop visible_not_ws)
  obtain q zs where r: "op_rest (Some 32, op @ 32 # w, [(Suc 0, v)]) = (q, [], [(3, w), (2, op), (Suc 0, v)]) # zs"
    using op_rest_reads [OF assms(1,2), of "Some 32" "[(1, v)]"] by auto
  from assms(3) consider "v = J ''p''" | "v = J ''c''" | "v = J ''len''" by blast
  then show ?thesis
    unfolding token_match r_cond_var_def
    using r by cases (simp_all add: mt_cap_alt token_rest_op [simplified] ws)
qed

text \<open>How the texts of request conditions start: no token condition and no tier call does.\<close>

definition worded :: "jsstr \<Rightarrow> bool" where
  "worded w \<longleftrightarrow> w \<noteq> [] \<and> (hd w \<in> {104, 109, 119, 100} \<or> (\<exists>s. w = 112 # 97 # s))"

lemma worded_no_token: "worded w \<Longrightarrow> rx_caps r_token_cond w = None"
  unfolding token_match r_cond_var_def
  by (cases w) (auto simp: worded_def mt_cap_alt token_rest_op [simplified] visible_not_ws op_rest_fails)

lemma worded_func: "f \<in> set TIME_FUNCS \<Longrightarrow> worded (f @ s)"
  by (auto simp: TIME_FUNCS_def worded_def)

lemma worded_atoms:
  assumes "canonical c"
  shows "worded (buildRequestConditionExpr c)" "a \<in> set (atoms c) \<Longrightarrow> worded a"
proof -
  have "worded (buildRequestConditionExpr c) \<and> (\<forall>a \<in> set (atoms c). worded a)"
  proof (cases c)
    case (TimeCond r)
    then have can: "canonical (TimeCond r)" using assms by (simp only:)
    then have f: "tc_func r \<in> set TIME_FUNCS" by simp
    show ?thesis
      using worded_func [OF f] unfolding TimeCond by (simp add: built_time [OF can] range_text_def)
  next
    case (PHCond r)
    then have can: "canonical (PHCond r)" using assms by (simp only:)
    from can show ?thesis
      unfolding PHCond
      by (cases rule: ph_modes; cases "ph_source r")
        (auto simp: built_ph [OF can] Let_def source_expr_def worded_def)
  qed
  then show "worded (buildRequestConditionExpr c)" "a \<in> set (atoms c) \<Longrightarrow> worded a" by auto
qed

declare read_conditions.simps(2) [simp del]

definition then_read :: "tier_cond \<Rightarrow> tier_cond list option js \<Rightarrow> tier_cond list option js" where
  "then_read c r = js_bind r (\<lambda>x. Inr (map_option ((#) c) x))"

lemma read_token_cond:
  assumes "token_ok t"
  shows "read_conditions (tier_cond_text (TokenCond t) # ps) = then_read (TokenCond t) (read_conditions ps)"
proof -
  obtain x where x: "tk_value t = VNum x" "number_text (to_str x)" "to_number (to_str x) = x"
    using token_value [OF assms] .
  have "rx_caps r_token_cond (tier_cond_text (TokenCond t)) = Some [(3, to_str x), (2, tk_op t), (1, tk_var t)]"
    unfolding token_text [OF assms x(1)]
    using match_token [OF x(2), of "tk_op t" "tk_var t"] assms by (simp add: token_ok_def)
  moreover have "\<lparr>tk_var = tk_var t, tk_op = tk_op t, tk_value = VNum x\<rparr> = t" using x(1) by (cases t) simp
  ultimately show ?thesis
    using firm_unwrap [OF token_shape(2) [OF assms]] x(3)
    by (subst read_conditions.simps) (simp add: then_read_def del: tier_cond_text.simps)
qed

lemma read_pair:
  assumes "worded a" "firm a" "firm b" "tryParseRequestCondition (a @ J '' && '' @ b) = Inr (Some c)"
  shows "read_conditions (a # b # ps) = then_read (ReqCond c) (read_conditions ps)"
  using assms worded_no_token [OF assms(1)]
  by (subst read_conditions.simps) (simp add: firm_unwrap then_read_def)

lemma read_single:
  assumes "unwrapOuterParens_q p = buildRequestConditionExpr c" "canonical c"
    "ps = [] \<or> follows (unwrapOuterParens_q (hd ps))"
  shows "read_conditions (p # ps) = then_read (ReqCond c) (read_conditions ps)"
  using assms worded_no_token [OF worded_atoms(1) [OF assms(2)]] not_merged [OF assms(2)]
  by (subst read_conditions.simps)
    (auto simp: condition_round_trip then_read_def split: list.splits)

lemma unwrap_wrapped: "canonical c \<Longrightarrow> unwrapOuterParens_q (40 # buildRequestConditionExpr c @ [41]) = buildRequestConditionExpr c"
  using firm_condition [of c] by (intro unwrap_parens not_full) (auto simp: firm_trim firm_def)

lemma read_atoms:
  assumes "canonical c" "ps = [] \<or> follows (unwrapOuterParens_q (hd ps))"
  shows "read_conditions (atoms c @ ps) = then_read (ReqCond c) (read_conditions ps)"
proof -
  have at: "\<And>a. a \<in> set (atoms c) \<Longrightarrow> worded a \<and> firm a"
    using worded_atoms(2) [OF assms(1)] atom_shape(2) [OF assms(1)] by blast
  note t = atoms_text [OF assms(1)] and rt = condition_round_trip [OF assms(1)]
  from atoms_cases [of c] show ?thesis
  proof (elim disjE exE)
    fix a
    assume a: "atoms c = [a]"
    then have "unwrapOuterParens_q a = buildRequestConditionExpr c" using t at firm_unwrap by simp
    from read_single [OF this assms] a show ?thesis by simp
  next
    fix a b
    assume ab: "atoms c = [a, b]"
    then have "tryParseRequestCondition (a @ J '' && '' @ b) = Inr (Some c)" using t rt by simp
    with ab at show ?thesis using read_pair [of a b c ps] by simp
  qed
qed

lemma segs_not_Nil: "segs c \<noteq> []"
proof (cases c)
  case (ReqCond r)
  then show ?thesis using atoms_cases [of r] by auto
qed simp

lemma read_segs:
  assumes "canonical_cond c" "ps = [] \<or> follows (unwrapOuterParens_q (hd ps))"
  shows "read_conditions (segs c @ ps) = then_read c (read_conditions ps)"
proof (cases c)
  case (TokenCond t)
  with assms(1) read_token_cond [of t ps] show ?thesis by (simp del: tier_cond_text.simps)
next
  case (ReqCond r)
  with assms(1) have "canonical r" by simp
  with ReqCond assms(2) show ?thesis
    by (simp add: read_atoms read_single [OF unwrap_wrapped])
qed

lemma hd_segs_follows:
  assumes "canonical_cond c"
  shows "follows (unwrapOuterParens_q (hd (segs c)))"
proof (cases c)
  case (TokenCond t)
  with assms show ?thesis
    using token_shape(2,3) [of t] by (simp add: firm_unwrap del: tier_cond_text.simps)
next
  case (ReqCond r)
  with assms have r: "canonical r" by simp
  moreover have "firm (hd (atoms r))" using atoms_cases [of r] atom_shape(2) [OF r, of "hd (atoms r)"] by auto
  ultimately show ?thesis
    using ReqCond follows_condition [OF r] by (simp add: unwrap_wrapped firm_unwrap)
qed

lemma read_all_segs:
  "list_all canonical_cond cs \<Longrightarrow> read_conditions (concat (map segs cs)) = Inr (Some cs)"
proof (induction cs)
  case (Cons c cs)
  let ?ps = "concat (map segs cs)"
  have "?ps = [] \<or> follows (unwrapOuterParens_q (hd ?ps))"
    using Cons.prems hd_segs_follows segs_not_Nil by (cases cs) auto
  with Cons show ?case by (simp add: read_segs then_read_def)
qed simp

section \<open>The text of several conditions\<close>

definition tight :: "jsstr \<Rightarrow> bool" where
  "tight w \<longleftrightarrow> w \<noteq> [] \<and> \<not> is_ws (hd w) \<and> \<not> is_ws (last w)"

lemma tight_trim: "tight w \<Longrightarrow> trim w = w"
  by (simp add: tight_def trim_trimmed trimmedI)

lemma firm_tight: "firm w \<Longrightarrow> tight w"
  by (simp add: firm_def tight_def)

lemma tight_join: "ws \<noteq> [] \<Longrightarrow> (\<And>w. w \<in> set ws \<Longrightarrow> tight w) \<Longrightarrow> tight (join op ws)"
proof (induction ws)
  case (Cons w ws)
  then have w: "tight w" by simp
  show ?case
  proof (cases "ws = []")
    case False
    with Cons have "tight (join op ws)" by simp
    with False w show ?thesis by (auto simp: tight_def join_Cons)
  qed (use w in simp)
qed simp

lemma join_append:
  "xs \<noteq> [] \<Longrightarrow> ys \<noteq> [] \<Longrightarrow> join op (xs @ ys) = join op xs @ op @ join op ys"
  by (induction xs) (auto simp: join_Cons)

lemma join_joins:
  "(\<And>xs. xs \<in> set xss \<Longrightarrow> xs \<noteq> []) \<Longrightarrow> join op (map (join op) xss) = join op (concat xss)"
proof (induction xss)
  case (Cons xs xss)
  show ?case
  proof (cases xss)
    case (Cons ys yss)
    then have "concat xss \<noteq> []" using Cons.prems by auto
    moreover have "xs \<noteq> []" using Cons.prems by simp
    ultimately show ?thesis using Cons Cons.IH Cons.prems by (simp add: join_append join_Cons)
  qed simp
qed simp

definition tern :: "int option \<Rightarrow> int \<Rightarrow> bool" where
  "tern p c \<longleftrightarrow> c \<in> {58, 63}"

lemma piece_tern: "piece cstop w \<Longrightarrow> piece tern w" "piece stop w \<Longrightarrow> piece tern w"
  by (erule piece_mono, auto simp: tern_def cstop_def stop_def)+

lemma seg_shape:
  assumes "canonical_cond c" "w \<in> set (segs c)"
  shows "tight w" "piece cstop w" "firm w \<or> (\<exists>r. c = ReqCond r \<and> segs c = [w] \<and> w = 40 # buildRequestConditionExpr r @ [41])"
proof -
  have "tight w \<and> piece cstop w \<and> (firm w \<or> (\<exists>r. c = ReqCond r \<and> segs c = [w] \<and> w = 40 # buildRequestConditionExpr r @ [41]))"
  proof (cases c)
    case (TokenCond t)
    with assms token_shape(1,2) [of t] show ?thesis by (simp add: firm_tight del: tier_cond_text.simps)
  next
    case (ReqCond r)
    with assms have r: "canonical r" by simp
    show ?thesis
    proof (cases "js_includes (buildRequestConditionExpr r) (J '' || '')")
      case True
      with ReqCond assms(2) have w: "w = 40 # buildRequestConditionExpr r @ [41]" by simp
      have "piece cstop w"
        unfolding w by (rule piece_inside [OF firm_condition(2) [OF r]]) (simp add: cstop_def)
      with True ReqCond w show ?thesis by (simp add: tight_def visible_not_ws)
    next
      case False
      with ReqCond assms(2) atom_shape [OF r, of w] show ?thesis by (simp add: firm_tight)
    qed
  qed
  then show "tight w" "piece cstop w" "firm w \<or> (\<exists>r. c = ReqCond r \<and> segs c = [w] \<and> w = 40 # buildRequestConditionExpr r @ [41])"
    by auto
qed

lemma seg_text:
  assumes "canonical_cond c"
  shows "and_part (tier_cond_text c) = join (J '' && '') (segs c)" "tier_cond_text c \<noteq> []"
proof -
  have "and_part (tier_cond_text c) = join (J '' && '') (segs c) \<and> tier_cond_text c \<noteq> []"
  proof (cases c)
    case (TokenCond t)
    with assms have t: "token_ok t" by simp
    then have "\<not> js_includes (tier_cond_text c) (J '' || '')" "firm (tier_cond_text c)"
      using token_shape(2,4) [OF t] TokenCond by (auto simp: js_includes_iff)
    with TokenCond show ?thesis by (simp add: and_part_def firm_def)
  next
    case (ReqCond r)
    with assms have r: "canonical r" by simp
    with ReqCond firm_condition(1) [OF r] show ?thesis
      by (cases "js_includes (buildRequestConditionExpr r) (J '' || '')")
        (simp add: and_part_def firm_def, simp add: and_part_def atoms_text [OF r, symmetric] firm_def del: J_Cons)
  qed
  then show "and_part (tier_cond_text c) = join (J '' && '') (segs c)" "tier_cond_text c \<noteq> []" by auto
qed

lemma condition_str:
  assumes "list_all canonical_cond cs"
  shows "buildConditionStr cs = join (J '' && '') (concat (map segs cs))"
proof -
  have "tier_cond_text c \<noteq> []" if "c \<in> set cs" for c
    using assms that seg_text(2) by (simp add: list_all_iff)
  then have "[] \<notin> set (map tier_cond_text cs)" by fastforce
  then have n: "nonempty (map tier_cond_text cs) = map tier_cond_text cs" by (rule nonempty_id)
  have e: "(\<lambda>c. if js_includes c (J '' || '') then J ''('' @ c @ J '')'' else c) = and_part"
    by (rule ext) (simp add: and_part_def)
  have m: "map and_part (map tier_cond_text cs) = map (join (J '' && '')) (map segs cs)"
    using assms seg_text(1) by (auto simp: list_all_iff)
  show ?thesis
    unfolding buildConditionStr_def n e m by (rule join_joins) (auto simp: segs_not_Nil)
qed

lemma segs_member:
  assumes "list_all canonical_cond cs" "w \<in> set (concat (map segs cs))"
  obtains c where "c \<in> set cs" "canonical_cond c" "w \<in> set (segs c)"
  using assms by (auto simp: list_all_iff)

lemma condition_str_shape:
  assumes "list_all canonical_cond cs" "cs \<noteq> []"
  shows "tight (buildConditionStr cs)" "piece tern (buildConditionStr cs)"
proof -
  let ?ws = "concat (map segs cs)"
  have ws: "?ws \<noteq> []" using assms(2) segs_not_Nil by (cases cs) auto
  have all: "tight w \<and> piece tern w" if "w \<in> set ?ws" for w
    using segs_member [OF assms(1) that] seg_shape(1,2) piece_tern(1) by metis
  show "tight (buildConditionStr cs)"
    unfolding condition_str [OF assms(1)] using ws all by (intro tight_join) auto
  have "piece tern (J '' && '')" by (rule piece_plain) (simp add: plain_unit_def tern_def)
  moreover have "piece tern (join op ws)" if "\<forall>w \<in> set ws. piece tern w" "piece tern op" for op ws
    using that by (induction ws) (auto simp: join_Cons)
  ultimately show "piece tern (buildConditionStr cs)"
    unfolding condition_str [OF assms(1)] using all by blast
qed

lemma seg_piece_of:
  assumes "list_all canonical_cond cs" "w \<in> set (concat (map segs cs))"
  shows "piece_of (J ''&&'') w"
proof -
  obtain c where c: "canonical_cond c" "w \<in> set (segs c)" using segs_member [OF assms] .
  then have "piece cstop w" "tight w" using seg_shape by auto
  then show ?thesis
    unfolding piece_of_def piece_def splits_at_and
    by (auto elim!: glides_mono simp: cstop_def tight_trim tight_def)
qed

lemma parse_conditions:
  assumes "list_all canonical_cond cs" "cs \<noteq> []"
  shows "parseTierConditions (buildConditionStr cs) = Inr (Some cs)"
proof -
  let ?ws = "concat (map segs cs)"
  note shape = condition_str_shape [OF assms]
  have ws: "?ws \<noteq> []" using assms(2) segs_not_Nil by (cases cs) auto
  have pieces: "\<And>w. w \<in> set ?ws \<Longrightarrow> piece_of (J ''&&'') w" by (rule seg_piece_of [OF assms(1)])
  have plain: "parseTierConditions (buildConditionStr cs) = Inr (Some cs)"
    if "\<not> hasFullOuterParens_q (buildConditionStr cs)"
    using unwrap_id [OF tight_trim [OF shape(1)] that] conjuncts.split_join [OF ws pieces]
      read_all_segs [OF assms(1)]
    by (simp only: parseTierConditions_def condition_str [OF assms(1)])
  obtain c cs' where cs: "cs = c # cs'" using assms(2) by (cases cs) auto
  then have c: "canonical_cond c" using assms(1) by simp
  have "hd (segs c) \<in> set (segs c)" using segs_not_Nil by simp
  from seg_shape(3) [OF c this] show ?thesis
  proof (elim disjE exE conjE)
    assume f: "firm (hd (segs c))"
    have "segs c @ zs = hd (segs c) # tl (segs c) @ zs" for zs using segs_not_Nil [of c] by (cases "segs c") simp_all
    then have "buildConditionStr cs = join (J '' && '') (hd (segs c) # tl (segs c) @ concat (map segs cs'))"
      unfolding condition_str [OF assms(1)] unfolding cs list.map concat.simps by (simp only:)
    then have "hd (buildConditionStr cs) \<noteq> 40"
      using f by (auto simp: join_Cons firm_def simp del: J_Cons)
    with tight_trim [OF shape(1)] show ?thesis by (intro plain not_full) auto
  next
    fix r
    assume r: "c = ReqCond r" "segs c = [hd (segs c)]" "hd (segs c) = 40 # buildRequestConditionExpr r @ [41]"
    then have can: "canonical r" using c by simp
    show ?thesis
    proof (cases "cs' = []")
      case True
      then have "buildConditionStr cs = 40 # buildRequestConditionExpr r @ [41]"
        using condition_str [OF assms(1)] cs r(2,3) by (simp del: J_Cons segs.simps)
      moreover have "splitTopLevel (buildRequestConditionExpr r) (J ''&&'') = atoms r"
        unfolding atoms_text [OF can]
      proof (rule conjuncts.split_join)
        show "atoms r \<noteq> []" using atoms_cases [of r] by auto
        show "piece_of (J ''&&'') a" if "a \<in> set (atoms r)" for a
          using atom_shape [OF can that] unfolding piece_of_def piece_def splits_at_and
          by (auto elim!: glides_mono simp: cstop_def firm_trim firm_def)
      qed
      ultimately show ?thesis
        using unwrap_wrapped [OF can] read_atoms [OF can, of "[]"] cs True r(1)
        by (simp add: parseTierConditions_def then_read_def)
    next
      case False
      then have "concat (map segs cs') \<noteq> []" using segs_not_Nil by (cases cs') auto
      then have e: "buildConditionStr cs = 40 # buildRequestConditionExpr r @ 41 # J '' && '' @
          join (J '' && '') (concat (map segs cs'))"
        unfolding condition_str [OF assms(1)] unfolding cs list.map concat.simps
        by (subst r(2), subst r(3)) (simp add: join_Cons)
      show ?thesis
        by (rule plain, unfold e, rule parens_then_more [OF firm_condition(2) [OF can]])
          (use tight_trim [OF shape(1)] e in simp_all)
    qed
  qed
qed

section \<open>A call of \<open>tier\<close>\<close>

lemma call_shape:
  assumes "utf16 label" "canonical_costs (vt_costs t)"
  shows "firm (tier_call_text label t)" "piece tern (tier_call_text label t)" "\<exists>s. tier_call_text label t = 116 # s"
proof -
  show "firm (tier_call_text label t)" by (simp add: tier_call_text_def firm_def visible_not_ws)
  show "\<exists>s. tier_call_text label t = 116 # s" by (simp add: tier_call_text_def)
  have plain: "piece tern (J ''tier'')" "piece tern (J '', '')" "piece tern (J '' + '')"
    by (rule piece_plain, simp add: plain_unit_def tern_def)+
  have "piece tern (join op ws)" if "\<forall>w \<in> set ws. piece tern w" "piece tern op" for op ws
    using that by (induction ws) (auto simp: join_Cons)
  then have "piece tern (buildTierBodyExpr t)"
    unfolding tier_body_summands using body_parts [OF assms(2)] piece_tern(2) plain(3) by blast
  then have "piece tern (40 # (json_quote label @ J '', '' @ buildTierBodyExpr t) @ [41])"
    using assms(1) plain(2) by (intro piece_parens [where Q = tern] piece_append piece_quote) (simp_all add: tern_def)
  from piece_append [OF plain(1) this] show "piece tern (tier_call_text label t)"
    by (simp add: tier_call_text_def)
qed

lemma match_call:
  assumes "utf16 label" "firm body"
  shows "rx_caps r_tier_call (J ''tier('' @ json_quote label @ J '', '' @ body @ J '')'')
    = Some [(2, body), (1, json_quote label)]"
proof -
  let ?any = "RCap 2 (rplus (RChr (\<lambda>_. True)))"
  let ?g = "mt (rcat [rlit (J '')''), REos])"
  have b: "\<not> is_ws (hd body)" "body \<noteq> []" using assms(2) by (auto simp: firm_def)
  have fails: "?g (q, v, c) = []" if "[41] = u @ v" "u \<noteq> []" for u v q c
    using that by (cases u) (auto simp: mt_rcat_Cons2)
  obtain rest where "andthen (mt ?any (Some 32, body @ [41], [(1, json_quote label)])) ?g
      = ?g (ran (Some 32) body, [41], [(2, body), (1, json_quote label)]) @ rest"
    using cap_any_first [where g = ?g and s = "[41]" and w = body, OF _ b(2)] fails by blast
  then have r: "andthen (mt ?any (Some 32, body @ [41], [(1, json_quote label)])) ?g
      = (Some 41, [], [(2, body), (1, json_quote label)]) # rest"
    by (simp add: mt_rcat_Cons2)
  have ws: "runs is_ws (p, body @ s, c) = [(p, body @ s, c)]" "is_ws 32" for p s c
    using b by (auto simp: runs_stop is_ws_def [of 32])
  have q: "runs is_ws (p, json_quote label @ s, c) = [(p, json_quote label @ s, c)]" for p s c
    by (simp add: json_quote_shape runs_stop visible_not_ws)
  have w: "mt (rcat (rws # y # ys)) (p, s, c) = andthen (runs is_ws (p, s, c)) (mt (rcat (y # ys)))" for y ys p s c
    by (simp add: mt_rcat_Cons2 mt_rws)
  show ?thesis
    using assms(1) r
    by (simp add: r_tier_call_def rx_caps_whole mt_rcat_Cons2 [of "rlit u" for u] w q ws runs_stop visible_not_ws
        mt_rcat_Cons2 [of "RCap (Suc 0) u" for u] mt_rcat_Cons2 [of ?any])
qed

lemma parse_call:
  assumes "utf16 label" "canonical_costs (vt_costs t)"
  shows "parseTierCall (tier_call_text label t) =
    Inr (Some (read_tier\<lparr>vt_costs := vt_costs t, vt_label := label\<rparr>))"
proof -
  have "rx_caps r_tier_call (tier_call_text label t) = Some [(2, buildTierBodyExpr t), (1, json_quote label)]"
    unfolding tier_call_text_def by (rule match_call [OF assms(1) firm_body [OF assms(2)]])
  with firm_unwrap [OF call_shape(1) [OF assms]] parse_body [OF assms(2)] assms(1) show ?thesis
    by (simp add: parseTierCall_def)
qed

section \<open>Tiers that survive\<close>

text \<open>What the editor can hold of a tier that its expression can hold too.\<close>

definition canonical_tier :: "visual_tier \<Rightarrow> bool" where
  "canonical_tier t \<longleftrightarrow> vt_label t \<noteq> [] \<and> utf16 (vt_label t) \<and> canonical_costs (vt_costs t) \<and>
     vt_cache_mode t = CACHE_MODE_GENERIC \<and> list_all canonical_cond (vt_conditions t)"

lemma normalize_cond: "canonical_cond c \<Longrightarrow> normalizeTierCondition (partial_of c) = c"
proof (cases c)
  case (TokenCond t)
  assume "canonical_cond c"
  with TokenCond show ?thesis
    by (cases t) (auto simp: normalizeTierCondition_def token_ok_def)
next
  case (ReqCond r)
  assume "canonical_cond c"
  with ReqCond canonical_normalize [of r] show ?thesis
    by (simp add: normalizeTierCondition_def normalize_def)
qed

lemma costs_kept:
  assumes "canonical_costs m"
  shows "map (\<lambda>k. (k, cost_of m k)) cost_fields = m"
proof (rule alist_eq)
  show "map fst (map (\<lambda>k. (k, cost_of m k)) cost_fields) = map fst m"
    using assms by (simp add: canonical_costs_def comp_def)
  show "distinct (map fst (map (\<lambda>k. (k, cost_of m k)) cost_fields))"
    using cost_fields_order(2) by (simp add: comp_def)
  show "map_of (map (\<lambda>k. (k, cost_of m k)) cost_fields) k = map_of m k"
    if "k \<in> set (map fst (map (\<lambda>k. (k, cost_of m k)) cost_fields))" for k
    using that canonical_cost(1) [OF assms] by (auto simp: map_of_map_restrict comp_def)
qed

lemma normalize_tier:
  assumes "canonical_tier t"
  shows "normalizeVisualTier \<lparr>pv_label = Some (vt_label t), pv_conditions = Some (map partial_of (vt_conditions t)),
      pv_cache_mode = Some CACHE_MODE_GENERIC, pv_costs = vt_costs t\<rparr> = t"
proof -
  have "map normalizeTierCondition (map partial_of (vt_conditions t)) = vt_conditions t"
    unfolding map_map using assms normalize_cond
    by (intro map_idI) (auto simp: canonical_tier_def list_all_iff)
  with assms costs_kept [of "vt_costs t"] show ?thesis
    by (cases t) (simp add: normalizeVisualTier_def canonical_tier_def getTierCacheMode_def
        CACHE_MODE_GENERIC_def CACHE_MODE_TIMED_def)
qed

lemma read_tier_mode: "vt_cache_mode read_tier = CACHE_MODE_GENERIC"
  by (simp add: read_tier_def normalizeVisualTier_def empty_tier_def getTierCacheMode_def num_field_def
      CACHE_MODE_GENERIC_def CACHE_MODE_TIMED_def)

lemma read_back:
  assumes "canonical_tier t"
  shows "normalizeVisualTier ((to_partial_tier (read_tier\<lparr>vt_costs := vt_costs t, vt_label := vt_label t\<rparr>))
      \<lparr>pv_conditions := Some (map partial_of (vt_conditions t))\<rparr>) = t"
    and "normalizeVisualTier (to_partial_tier t) = t"
  using normalize_tier [OF assms] assms
  by (simp_all add: to_partial_tier_def read_tier_mode canonical_tier_def)

section \<open>The ladder\<close>

lemma collect_call:
  assumes "canonical_tier t"
  shows "collectVisualTiers (tier_call_text (vt_label t) t) (vt_conditions t) = Inr (Some [t])"
  using assms parse_call [of "vt_label t" t] read_back(1) [OF assms]
  by (subst collectVisualTiers.simps) (simp add: canonical_tier_def)

fun ladder :: "visual_tier list \<Rightarrow> jsstr" where
  "ladder [] = zero_expr"
| "ladder [t] = tier_call_text (vt_label t) t"
| "ladder (t # u # ts) = buildConditionStr (vt_conditions t) @ J '' ? '' @ tier_call_text (vt_label t) t
     @ J '' : '' @ ladder (u # ts)"

text \<open>
  Tiers that can stand together: all but the last have conditions, the last has none unless it is
  alone.
\<close>

definition canonical_config :: "visual_tier list \<Rightarrow> bool" where
  "canonical_config ts \<longleftrightarrow> ts \<noteq> [] \<and> list_all canonical_tier ts \<and>
     (\<forall>t \<in> set (butlast ts). vt_conditions t \<noteq> []) \<and>
     (tl ts \<noteq> [] \<longrightarrow> vt_conditions (last ts) = [])"

lemma condition_str_Nil: "buildConditionStr [] = []"
  by (simp add: buildConditionStr_def)

lemma printed_parts:
  "list_all canonical_tier ts \<Longrightarrow> \<forall>t \<in> set (butlast ts). vt_conditions t \<noteq> [] \<Longrightarrow>
    ts \<noteq> [] \<Longrightarrow> join (J '' : '') (tier_parts i ts) = ladder ts"
proof (induction ts arbitrary: i rule: ladder.induct)
  case (2 t)
  then show ?case by (simp add: canonical_tier_def)
next
  case (3 t u ts)
  then have t: "vt_label t \<noteq> []" "list_all canonical_cond (vt_conditions t)" "vt_conditions t \<noteq> []"
    by (auto simp: canonical_tier_def)
  then have "buildConditionStr (vt_conditions t) \<noteq> []"
    using condition_str_shape(1) by (auto simp: tight_def)
  moreover have "join (J '' : '') (tier_parts (Suc i) (u # ts)) = ladder (u # ts)"
    using 3(2,3) by (intro 3(1)) auto
  moreover have "tier_parts (Suc i) (u # ts) \<noteq> []" by (simp add: Let_def)
  ultimately show ?case using t(1) by (simp add: Let_def join_Cons del: J_Cons)
qed simp

lemma cond_start:
  assumes "list_all canonical_cond cs" "cs \<noteq> []"
  shows "hd (buildConditionStr cs) \<notin> {116, 118}"
proof -
  obtain c cs' where cs: "cs = c # cs'" "canonical_cond c" using assms by (cases cs) auto
  have "hd (hd (segs c)) \<notin> {116, 118}"
  proof (cases c)
    case (TokenCond t)
    with cs(2) have "token_ok t" by simp
    then obtain x where "tk_value t = VNum x" using token_value by blast
    with TokenCond \<open>token_ok t\<close> show ?thesis by (auto simp: token_ok_def)
  next
    case (ReqCond r)
    with cs(2) have r: "canonical r" by simp
    then have "worded (hd (atoms r))" using atoms_cases [of r] worded_atoms(2) by fastforce
    with ReqCond show ?thesis by (auto simp: worded_def)
  qed
  moreover have "hd (segs c) \<noteq> []" "segs c \<noteq> []"
    using seg_shape(1) [OF cs(2), of "hd (segs c)"] segs_not_Nil by (auto simp: tight_def)
  moreover have "segs c @ zs = hd (segs c) # tl (segs c) @ zs" for zs
    using segs_not_Nil [of c] by (cases "segs c") simp_all
  ultimately show ?thesis
    unfolding condition_str [OF assms(1)] unfolding cs(1) list.map concat.simps
    by (simp only: join_Cons hd_append2 split: if_splits) simp
qed

lemma collect_rung:
  assumes t: "canonical_tier t" "vt_conditions t \<noteq> []" and r: "tight r"
    and rest: "collectVisualTiers r [] = Inr (Some ts)"
  shows "collectVisualTiers (buildConditionStr (vt_conditions t) @ J '' ? '' @
      tier_call_text (vt_label t) t @ J '' : '' @ r) [] = Inr (Some (t # ts))"
proof -
  let ?c = "buildConditionStr (vt_conditions t)" and ?b = "tier_call_text (vt_label t) t"
  let ?w = "?c @ J '' ? '' @ ?b @ J '' : '' @ r"
  have cs: "list_all canonical_cond (vt_conditions t)" "utf16 (vt_label t)" "canonical_costs (vt_costs t)"
    using t(1) by (simp_all add: canonical_tier_def)
  note c = condition_str_shape [OF cs(1) t(2)] and b = call_shape(1,2) [OF cs(2,3)]
  have w: "tight ?w" using c(1) r by (auto simp: tight_def)
  have full: "\<not> hasFullOuterParens_q ?w"
  proof
    assume "hasFullOuterParens_q ?w"
    then have "full_parens_scan 0 False False (?c @ J '' ? '' @ ?b @ J '' : '' @ r)"
      using tight_trim [OF w] by (simp add: hasFullOuterParens_q_def Let_def del: J_Cons)
    moreover have "scan tern None 0 False False ?c = Some (0, False, False)"
      using c(2) by (intro glidesD) (auto simp: piece_def)
    ultimately have "full_parens_scan 0 False False (J '' ? '' @ ?b @ J '' : '' @ r)"
      by (elim full_parens_scan [rotated]) simp
    then show False by (simp add: Let_def)
  qed
  then have u: "unwrapOuterParens_q ?w = ?w" by (rule unwrap_id [OF tight_trim [OF w]])
  have "hd ?w \<noteq> 116" "?w \<noteq> []" using cond_start [OF cs(1) t(2)] c(1) by (auto simp: tight_def)
  then have "rx_caps r_tier_call ?w = None"
    by (cases ?w) (auto simp: r_tier_call_def rx_caps_whole mt_rcat_Cons2)
  then have call: "parseTierCall ?w = Inr None" by (simp add: parseTierCall_def u del: J_Cons)
  have sp: "glides tern 0 [32]" by (simp add: glides_def tern_def)
  moreover have "glides tern 0 ?c" "glides tern 0 ?b" using c(2) b(2) by (simp_all add: piece_def)
  ultimately have "glides tern 0 (?c @ [32])" "glides tern 0 ([32] @ ?b @ [32])"
    by (simp_all only: glides_append)
  then have sc: "scan tern None 0 False False (?c @ [32]) = Some (0, False, False)"
    "scan tern None 0 False False ([32] @ ?b @ [32]) = Some (0, False, False)"
    by (blast intro: glidesD order_refl)+
  have q: "find_question 0 False False [] ?w = Some (?c @ [32], [32] @ ?b @ J '' : '' @ r)"
    using find_question_scan [OF sc(1), of "[]" "63 # [32] @ ?b @ J '' : '' @ r"] by (simp add: tern_def)
  have col: "find_colon 0 0 False False [] ([32] @ ?b @ J '' : '' @ r) = Some ([32] @ ?b @ [32], [32] @ r)"
    using find_colon_scan [OF sc(2), of 0 "[]" "58 # [32] @ r"] by (simp add: tern_def)
  have "trim (?c @ [32]) = ?c" "trim ([32] @ ?b @ [32]) = ?b" "trim ([32] @ r) = r"
    using trim_pad [of "[]" "[32]" ?c] trim_pad [of "[32]" "[32]" ?b] trim_pad [of "[32]" "[]" r]
      tight_trim [OF c(1)] firm_trim [OF b(1)] tight_trim [OF r] by (simp_all add: is_ws_def [of 32])
  then have tern: "splitTopLevelTernary ?w = Some \<lparr>tn_condition = ?c, tn_whenTrue = ?b, tn_whenFalse = r\<rparr>"
    by (simp only: splitTopLevelTernary_def u q col option.case prod.case)
  obtain x xs where x: "vt_conditions t = x # xs" using t(2) by (cases "vt_conditions t") auto
  have "parseTierConditions ?c = Inr (Some (x # xs))" "collectVisualTiers ?b ([] @ x # xs) = Inr (Some [t])"
    using parse_conditions [OF cs(1) t(2)] collect_call [OF t(1)] by (simp_all add: x)
  with rest show ?thesis
    by (subst collectVisualTiers.simps) (simp add: call tern del: J_Cons)
qed

lemma collect_zero: "collectVisualTiers zero_expr [] = Inr (Some [])"
  by code_simp

lemma zero_tight: "tight zero_expr"
  by (simp add: tight_def zero_expr_def visible_not_ws)

lemma ladder_tight:
  "list_all canonical_tier ts \<Longrightarrow> \<forall>t \<in> set (butlast ts). vt_conditions t \<noteq> [] \<Longrightarrow> tight (ladder ts)"
proof (induction ts rule: ladder.induct)
  case (2 t)
  then show ?case by (simp add: canonical_tier_def call_shape(1) firm_tight)
next
  case (3 t u ts)
  then have "tight (buildConditionStr (vt_conditions t))"
    by (intro condition_str_shape(1)) (auto simp: canonical_tier_def)
  moreover have "tight (ladder (u # ts))" using 3(2,3) by (intro 3(1)) auto
  ultimately show ?case by (auto simp: tight_def simp del: J_Cons)
qed (simp add: zero_tight)

lemma collect_ladder:
  "list_all canonical_tier ts \<Longrightarrow> \<forall>t \<in> set (butlast ts). vt_conditions t \<noteq> [] \<Longrightarrow>
    ts \<noteq> [] \<Longrightarrow> vt_conditions (last ts) = [] \<Longrightarrow> collectVisualTiers (ladder ts) [] = Inr (Some ts)"
proof (induction ts rule: ladder.induct)
  case (2 t)
  then show ?case using collect_call [of t] by simp
next
  case (3 t u ts)
  have "collectVisualTiers (ladder (u # ts)) [] = Inr (Some (u # ts))"
    using 3(2,3,5) by (intro 3(1)) auto
  moreover have "tight (ladder (u # ts))" using 3(2,3) by (intro ladder_tight) auto
  ultimately show ?case using collect_rung [of t "ladder (u # ts)" "u # ts"] 3(2,3) by simp
qed simp

definition config_text :: "visual_tier list \<Rightarrow> jsstr" where
  "config_text ts =
     (if tl ts = [] \<and> vt_conditions (hd ts) \<noteq> []
      then buildConditionStr (vt_conditions (hd ts)) @ J '' ? '' @ tier_call_text (vt_label (hd ts)) (hd ts)
        @ J '' : '' @ zero_expr
      else ladder ts)"

lemma generated_text:
  assumes "canonical_config ts"
  shows "generateExprFromVisualConfig (Some ts) = config_text ts"
proof -
  have ts: "ts \<noteq> []" "list_all canonical_tier ts" "\<forall>t \<in> set (butlast ts). vt_conditions t \<noteq> []"
    using assms by (auto simp: canonical_config_def)
  show ?thesis
  proof (cases "tl ts")
    case Nil
    then obtain t where t: "ts = [t]" "canonical_tier t" using ts(1,2) by (cases ts) auto
    then have "vt_conditions t \<noteq> [] \<Longrightarrow> buildConditionStr (vt_conditions t) \<noteq> []"
      using condition_str_shape(1) [of "vt_conditions t"] by (auto simp: tight_def canonical_tier_def)
    with t show ?thesis
      by (auto simp: generateExprFromVisualConfig_def config_text_def canonical_tier_def Let_def
          condition_str_Nil simp del: J_Cons)
  next
    case (Cons u us)
    then obtain t where "ts = t # u # us" by (cases ts) auto
    with printed_parts [OF ts(2,3,1), of 0] show ?thesis
      by (simp add: generateExprFromVisualConfig_def config_text_def del: J_Cons tier_parts.simps)
  qed
qed

lemma config_text_starts:
  assumes "canonical_config ts"
  shows "config_text ts \<noteq> [] \<and> hd (config_text ts) \<noteq> 118"
proof -
  obtain t us where ts: "ts = t # us" "canonical_tier t"
    using assms by (cases ts) (auto simp: canonical_config_def)
  note call = call_shape(3) [of "vt_label t" t]
  show ?thesis
  proof (cases "vt_conditions t = []")
    case True
    with assms ts have "us = []" by (cases us) (auto simp: canonical_config_def)
    with True ts call show ?thesis by (auto simp: config_text_def canonical_tier_def)
  next
    case False
    with ts have "tight (buildConditionStr (vt_conditions t))" "hd (buildConditionStr (vt_conditions t)) \<noteq> 118"
      using condition_str_shape(1) cond_start by (auto simp: canonical_tier_def)
    with False ts show ?thesis
      by (cases us) (auto simp: config_text_def tight_def simp del: J_Cons)
  qed
qed

lemma read_config:
  assumes "canonical_config ts"
  shows "tryParseVisualConfig (Some (generateExprFromVisualConfig (Some ts))) = Some ts"
proof -
  let ?e = "config_text ts"
  have ts: "ts \<noteq> []" "list_all canonical_tier ts" "\<forall>t \<in> set (butlast ts). vt_conditions t \<noteq> []"
    "tl ts \<noteq> [] \<Longrightarrow> vt_conditions (last ts) = []"
    using assms by (auto simp: canonical_config_def)
  have c: "collectVisualTiers ?e [] = Inr (Some ts)"
  proof (cases "tl ts = [] \<and> vt_conditions (hd ts) \<noteq> []")
    case True
    then obtain t where "ts = [t]" using ts(1) by (cases ts) auto
    with True ts(2) collect_rung [OF _ _ zero_tight collect_zero, of t] show ?thesis
      by (simp add: config_text_def)
  next
    case False
    then have "vt_conditions (last ts) = []" using ts(1,4) by (cases ts) auto
    with False collect_ladder [OF ts(2,3,1)] show ?thesis by (auto simp: config_text_def)
  qed
  obtain a s where e: "?e = a # s" "a \<noteq> 118"
    using config_text_starts [OF assms] by (cases ?e) auto
  then have "rx_caps r_version_any ?e = None"
    by (simp add: r_version_any_def rx_caps_whole mt_rcat_Cons2)
  moreover have "map normalizeVisualTier (map to_partial_tier ts) = ts"
    unfolding map_map using ts(2) read_back(2) by (intro map_idI) (auto simp: list_all_iff)
  ultimately show ?thesis
    unfolding generated_text [OF assms] tryParseVisualConfig_def using c e ts(1)
    by (cases ts) (simp_all add: normalizeVisualConfig_def)
qed

end
