(* ===== verification/TierProperties.thy ===== *)
theory TierProperties
  imports TierRoundTrip
begin

text \<open>
  The properties of the visual tier editor: what it prints it reads back, and the tiers for which
  it does not.
\<close>

section \<open>Round trip\<close>

text \<open>C3. The tier editor reads its own canonical expressions: the tiers read from the printed expression
  are the tiers that were printed, for a list of tiers that is not empty, each with a label, the generic
  cache mode, every cost field given, finite and, for the price of a request, unchanged by the scaling to
  millionths, and conditions in normal form; every tier but the last has a condition and, where there are
  several, the last has none. The timed cache mode and other shapes are lost, see below.\<close>

theorem tier_config_round_trip:
  assumes "canonical_config ts"
  shows "tryParseVisualConfig (Some (generateExprFromVisualConfig (Some ts))) = Some ts"
  using assms by (rule read_config)

definition sample_costs :: "rat \<Rightarrow> rat \<Rightarrow> rat \<Rightarrow> (jsstr \<times> jsnum) list" where
  "sample_costs a b c = map (\<lambda>k. (k, Fin (if k = J ''input_unit_cost'' then a
     else if k = J ''output_unit_cost'' then b
     else if k = J ''per_request_unit_cost'' then c else 0))) cost_fields"

definition sample_tiers :: "visual_tier list" where
  "sample_tiers =
     [\<lparr>vt_label = J ''long \"context\"'',
       vt_conditions =
         [TokenCond \<lparr>tk_var = J ''len'', tk_op = J ''>='', tk_value = VNum (Fin 200000)\<rparr>,
          ReqCond (PHCond \<lparr>ph_source = Param, ph_path = J ''size'', ph_mode = MATCH_CONTAINS,
            ph_value = J ''1K'' \<rparr>)],
       vt_cache_mode = CACHE_MODE_GENERIC, vt_costs = sample_costs (5/2) 15 0\<rparr>,
      \<lparr>vt_label = J ''base'', vt_conditions = [], vt_cache_mode = CACHE_MODE_GENERIC,
       vt_costs = sample_costs (1/4) 2 (1/8)\<rparr>]"

lemma sample_tiers_canonical: "canonical_config sample_tiers"
  by code_simp

theorem tier_config_round_trip_witness:
  "tryParseVisualConfig (Some (generateExprFromVisualConfig (Some sample_tiers))) = Some sample_tiers"
  by (rule tier_config_round_trip [OF sample_tiers_canonical])

section \<open>What is lost\<close>

lemma tier_parts_last:
  "tier_parts i (ts @ [t]) = tier_parts i (ts @ [t\<lparr>vt_conditions := []\<rparr>])"
proof (induction ts arbitrary: i)
  case Nil
  have "buildTierBodyExpr (t\<lparr>vt_conditions := []\<rparr>) = buildTierBodyExpr t"
    by (simp add: buildTierBodyExpr_def Let_def)
  then show ?case by (simp add: tier_call_text_def)
next
  case (Cons u ts)
  then show ?case by (simp add: Let_def)
qed

text \<open>The conditions of the last of several tiers never reach the expression: the tier is
  printed as if it had none, and then applies to every request no earlier tier takes.\<close>

theorem last_tier_unconditional:
  assumes "ts \<noteq> []"
  shows "generateExprFromVisualConfig (Some (ts @ [t])) =
    generateExprFromVisualConfig (Some (ts @ [t\<lparr>vt_conditions := []\<rparr>]))"
proof -
  obtain a b us vs where "ts @ [t] = a # b # us" "ts @ [t\<lparr>vt_conditions := []\<rparr>] = a # vs" "vs \<noteq> []"
    using assms by (cases ts; cases "tl ts") auto
  then show ?thesis
    using tier_parts_last [of 0 ts t] by (cases vs) (simp_all add: generateExprFromVisualConfig_def del: tier_parts.simps)
qed

theorem last_tier_unconditional_witness:
  "generateExprFromVisualConfig (Some ([hd sample_tiers] @ [hd sample_tiers])) =
   generateExprFromVisualConfig (Some ([hd sample_tiers] @ [(hd sample_tiers)\<lparr>vt_conditions := []\<rparr>]))"
  by (rule last_tier_unconditional) simp

lemma called_generic: "parseTierCall v = Inr (Some t) \<Longrightarrow> vt_cache_mode t = CACHE_MODE_GENERIC"
  using read_tier_mode
  by (auto simp: parseTierCall_def parseTierBody_q_def read_tier_def Let_def js_bind_eq_Inr
      split: option.splits)

lemma normalized_generic:
  "vt_cache_mode t = CACHE_MODE_GENERIC \<Longrightarrow>
    vt_cache_mode (normalizeVisualTier ((to_partial_tier t)\<lparr>pv_conditions := cs\<rparr>)) = CACHE_MODE_GENERIC"
  "vt_cache_mode t = CACHE_MODE_GENERIC \<Longrightarrow>
    vt_cache_mode (normalizeVisualTier (to_partial_tier t)) = CACHE_MODE_GENERIC"
  by (simp_all add: normalizeVisualTier_def to_partial_tier_def getTierCacheMode_def
      CACHE_MODE_GENERIC_def CACHE_MODE_TIMED_def)

lemma collected_branches:
  assumes "collectVisualTiers v inh = Inr (Some ts)" "parseTierCall v = Inr None" "splitTopLevelTernary v = Some c"
  obtains x xs us b where "parseTierConditions (tn_condition c) = Inr (Some (x # xs))"
    "collectVisualTiers (tn_whenTrue c) (inh @ x # xs) = Inr (Some us)"
    "collectVisualTiers (tn_whenFalse c) inh = Inr (Some b)" "ts = us @ b"
proof -
  note e = assms(1) [unfolded collectVisualTiers.simps [of v inh] js_bind_eq_Inr]
  from e assms(2,3) obtain l where l: "parseTierConditions (tn_condition c) = Inr l"
    by (auto simp: js_bind_eq_Inr)
  with e assms(2,3) obtain x xs where x: "l = Some (x # xs)"
    by (cases l; cases "the l") auto
  with e l assms(2,3) obtain a where a: "collectVisualTiers (tn_whenTrue c) (inh @ x # xs) = Inr a"
    by (auto simp: js_bind_eq_Inr)
  with e l x assms(2,3) obtain us where us: "a = Some us" by (cases a) auto
  with e l x a assms(2,3) obtain b where "collectVisualTiers (tn_whenFalse c) inh = Inr (Some b)" "ts = us @ b"
    by (auto simp: js_bind_eq_Inr)
  with l x a us that show ?thesis by simp
qed

lemma collected_generic:
  "collectVisualTiers v inh = Inr (Some ts) \<Longrightarrow> \<forall>t \<in> set ts. vt_cache_mode t = CACHE_MODE_GENERIC"
proof (induction v inh arbitrary: ts rule: collectVisualTiers.induct)
  case (1 v inh)
  note e = 1(3) [unfolded collectVisualTiers.simps [of v inh] js_bind_eq_Inr]
  from e obtain tier where p: "parseTierCall v = Inr tier" by blast
  show ?case
  proof (cases tier)
    case (Some t)
    with p e have "ts = [normalizeVisualTier ((to_partial_tier t)\<lparr>pv_conditions := Some (map partial_of inh)\<rparr>)]"
      by simp
    with normalized_generic(1) called_generic p Some show ?thesis by simp
  next
    case None
    show ?thesis
    proof (cases "splitTopLevelTernary v")
      case None
      with p e \<open>tier = None\<close> show ?thesis by (auto split: if_splits)
    next
      case (Some c)
      obtain x xs us b where c: "parseTierConditions (tn_condition c) = Inr (Some (x # xs))"
        "collectVisualTiers (tn_whenTrue c) (inh @ x # xs) = Inr (Some us)"
        "collectVisualTiers (tn_whenFalse c) inh = Inr (Some b)" "ts = us @ b"
        using collected_branches [OF 1(3) _ Some] p \<open>tier = None\<close> by metis
      have "\<forall>t \<in> set us. vt_cache_mode t = CACHE_MODE_GENERIC"
        using 1(1) \<open>tier = None\<close> Some c(2) by blast
      moreover have "\<forall>t \<in> set b. vt_cache_mode t = CACHE_MODE_GENERIC"
        using 1(2) \<open>tier = None\<close> Some c(3) by blast
      ultimately show ?thesis using c(4) by auto
    qed
  qed
qed

text \<open>The cache mode does not survive: whatever expression is read, and so also one printed
  from tiers with separate prices for five minutes and one hour, every tier comes back in the
  generic mode.\<close>

theorem cache_mode_is_lost:
  assumes "tryParseVisualConfig (Some e) = Some ts"
  shows "\<forall>t \<in> set ts. vt_cache_mode t = CACHE_MODE_GENERIC"
proof -
  obtain b us where us: "collectVisualTiers b [] = Inr (Some us)" "us \<noteq> []"
    "ts = normalizeVisualConfig (Some (map to_partial_tier us))"
    using assms by (auto simp: tryParseVisualConfig_def Let_def split: list.splits option.splits sum.splits)
  then have "ts = map normalizeVisualTier (map to_partial_tier us)"
    by (cases us) (simp_all add: normalizeVisualConfig_def)
  then show ?thesis using collected_generic [OF us(1)] normalized_generic(2) by auto
qed

definition timed_tier :: visual_tier where
  "timed_tier = \<lparr>vt_label = J ''base'', vt_conditions = [], vt_cache_mode = CACHE_MODE_TIMED,
     vt_costs = map (\<lambda>k. (k, Fin (if k = J ''cache_create_1h_unit_cost'' then 6 else 0))) cost_fields\<rparr>"

lemma timed_tier_reads:
  "tryParseVisualConfig (Some (generateExprFromVisualConfig (Some [timed_tier]))) =
    Some [timed_tier\<lparr>vt_cache_mode := CACHE_MODE_GENERIC\<rparr>]"
proof -
  have "canonical_config [timed_tier\<lparr>vt_cache_mode := CACHE_MODE_GENERIC\<rparr>]" by code_simp
  moreover have "generateExprFromVisualConfig (Some [timed_tier]) =
      generateExprFromVisualConfig (Some [timed_tier\<lparr>vt_cache_mode := CACHE_MODE_GENERIC\<rparr>])"
    by (simp add: generateExprFromVisualConfig_def timed_tier_def tier_call_text_def buildTierBodyExpr_def)
  ultimately show ?thesis by (metis read_config)
qed

theorem cache_mode_is_lost_witness:
  "vt_cache_mode (hd (the (tryParseVisualConfig (Some (generateExprFromVisualConfig (Some [timed_tier]))))))
    = CACHE_MODE_GENERIC"
  using cache_mode_is_lost [OF timed_tier_reads] by (simp add: timed_tier_reads)

text \<open>A tier without conditions in front of another one makes an expression that is no
  expression: the editor does not read it back.\<close>

theorem unconditional_tier_first_is_unreadable:
  "tryParseVisualConfig (Some (generateExprFromVisualConfig
     (Some (createDefaultVisualConfig @ createDefaultVisualConfig)))) = None"
  by code_simp

end
