(* ===== verification/RuleProperties.thy ===== *)
theory RuleProperties
  imports RuleGroups
begin

text \<open>
  What holds of the request-rule editor as a whole: printing and parsing are inverse on the
  conditions, groups and combined expressions the editor can express, with the cases in which
  they are not.
\<close>

section \<open>Round trips\<close>

text \<open>C5. The rule builder and the rule parser are inverse: every list of rule groups whose
  conditions are canonical and separable is read back, unchanged, from the expression it prints.\<close>

theorem request_rules_round_trip:
  assumes "list_all canonical_group gs"
  shows "tryParseRequestRuleExpr (buildRequestRuleExpr gs) = Inr (Some gs)"
  using assms by (rule read_rules)

definition sample_rules :: "request_rule_group list" where
  "sample_rules =
     [\<lparr>rg_conditions =
         [PHCond \<lparr>ph_source = Header, ph_path = J ''X-Plan'', ph_mode = MATCH_CONTAINS,
            ph_value = J ''pro''\<rparr>,
          TimeCond \<lparr>tc_func = J ''hour'', tc_zone = J ''UTC'', tc_mode = MATCH_RANGE, tc_value = [],
            tc_start = J ''21'', tc_end = J ''6''\<rparr>],
       rg_multiplier = J ''1.5''\<rparr>,
      \<lparr>rg_conditions = [PHCond \<lparr>ph_source = Param, ph_path = J ''service_tier'',
          ph_mode = MATCH_EQ, ph_value = J ''fast''\<rparr>],
       rg_multiplier = J ''2''\<rparr>]"

lemma sample_rules_canonical: "list_all canonical_group sample_rules"
  unfolding sample_rules_def canonical_group_def by code_simp

theorem request_rules_round_trip_witness:
  "tryParseRequestRuleExpr (buildRequestRuleExpr sample_rules) = Inr (Some sample_rules)"
  by (rule request_rules_round_trip [OF sample_rules_canonical])

text \<open>A price expression combined with rules splits into the same price expression and the
  same rules, when the price expression is balanced, is not itself in parentheses and does not end
  like a rule.\<close>

theorem combined_round_trip:
  assumes "base_expr b" "list_all canonical_group gs" "gs \<noteq> []"
  shows "splitBillingExprAndRequestRules (combineBillingExpr b (buildRequestRuleExpr gs))
    = Inr \<lparr>billingExpr = b, requestRuleExpr = buildRequestRuleExpr gs\<rparr>"
  using assms by (rule split_combined)

theorem combined_round_trip_witness:
  "splitBillingExprAndRequestRules
     (combineBillingExpr (J ''p * 2 + c * 8'') (buildRequestRuleExpr sample_rules))
   = Inr \<lparr>billingExpr = J ''p * 2 + c * 8'', requestRuleExpr = buildRequestRuleExpr sample_rules\<rparr>"
proof (rule combined_round_trip)
  show "base_expr (J ''p * 2 + c * 8'')" by code_simp
  show "sample_rules \<noteq> []" by (simp add: sample_rules_def)
qed (rule sample_rules_canonical)

text \<open>A canonical condition is read back from its printed form, whatever code units its path
  and its value contain: quotes, backslashes, control characters and lone surrogates included.\<close>

theorem request_condition_round_trip:
  assumes "canonical c"
  shows "tryParseRequestCondition (buildRequestConditionExpr c) = Inr (Some c)"
  using assms by (rule condition_round_trip)

theorem request_condition_round_trip_witness:
  "let c = PHCond \<lparr>ph_source = Param, ph_path = [34, 92, 10, 55296, 65], ph_mode = MATCH_GTE,
     ph_value = J ''1e3''\<rparr>
   in tryParseRequestCondition (buildRequestConditionExpr c) = Inr (Some c)"
  unfolding Let_def by (rule request_condition_round_trip) code_simp

section \<open>Rules that do not come back\<close>

lemma read_has_param: "utf16 w \<Longrightarrow> tryParseRequestCondition (J ''has(param('' @ json_quote w @ t) = Inr None"
  by (simp add: tryParseRequestCondition_def pattern_steps r_header_exists_def r_param_exists_def
      r_header_contains_def r_param_contains_def r_param_cmp_def r_equals_def mt_cap_alt
      time_fails [simplified])

lemma read_bare_cmp:
  "utf16 w \<Longrightarrow> c \<noteq> 33 \<Longrightarrow> c \<noteq> 61 \<Longrightarrow>
    tryParseRequestCondition (J ''param('' @ json_quote w @ J '') '' @ c # t) = Inr None"
  by (simp add: tryParseRequestCondition_def pattern_steps r_header_exists_def r_param_exists_def
      r_header_contains_def r_param_contains_def r_param_cmp_def r_equals_def mt_cap_alt
      time_fails [simplified])

lemma guarded_split:
  assumes "solid a" "solid b"
  shows "splitTopLevelAnd (a @ J '' && '' @ b) = [a, b]"
  using split_and_join [of "[a, b]"] assms by simp

lemma guarded_lost:
  assumes "solid a" "solid b" "tryParseRequestCondition a = Inr (Some k)"
    "tryParseRequestCondition b = Inr None" "is_numeric m"
  shows "tryParseRequestRuleExpr (factor_text (a @ J '' && '' @ b) m) = Inr None"
proof -
  let ?w = "a @ J '' && '' @ b"
  have bal: "balanced (?w @ J '' ? '' @ m @ J '' : 1'')"
    using assms(1,2,5)
    by (auto simp: solid_def bal_no_parens quiet_no_parens quiet_numeric balanced_no_parens
        intro!: bal_append)
  have "a \<noteq> []" using assms(1) by (simp add: solid_def)
  then have "rx_caps r_factor (factor_text ?w m) = Some [(2, m), (1, ?w)]"
    unfolding factor_text_def using assms(5) by (intro read_factor) auto
  then have "tryParseRuleGroupFactor (factor_text ?w m) = Inr None"
    using guarded_split [OF assms(1,2)] assms trim_solid
    by (simp add: tryParseRuleGroupFactor_def)
  moreover have f: "factor_text ?w m = [40] @ (?w @ J '' ? '' @ m @ J '' : 1'') @ [41]"
    by (simp add: factor_text_def)
  then have "splitTopLevelMultiply (factor_text ?w m) = [factor_text ?w m]"
    using bal by (intro factors.split_single) auto
  moreover have "trim (factor_text ?w m) = factor_text ?w m" "factor_text ?w m \<noteq> []"
    using parens_solid [OF bal] f by auto
  ultimately show ?thesis by (simp add: tryParseRequestRuleExpr_def Let_def)
qed

text \<open>C18. A rule group whose one condition tests a request parameter with \<open>contains\<close> or with an
  order comparison is printed with a \<open>!= nil\<close> guard, which the splitter at \<open>&&\<close> takes apart
  again: the parser rejects every such rule its own builder printed.\<close>

theorem guarded_param_rules_are_rejected:
  assumes "canonical (PHCond c)" "quiet (ph_path c)" "quiet (ph_value c)" "ph_source c = Param"
    and "ph_mode c \<noteq> MATCH_EQ" "ph_mode c \<noteq> MATCH_EXISTS" "is_numeric m"
  shows "tryParseRequestRuleExpr
    (buildRequestRuleExpr [\<lparr>rg_conditions = [PHCond c], rg_multiplier = m\<rparr>]) = Inr None"
proof -
  let ?p = "json_quote (ph_path c)" and ?e = "buildRequestConditionExpr (PHCond c)"
  have p: "quiet ?p" "utf16 (ph_path c)"
    using assms(1,2) by (auto simp: quiet_json_quote plain_text_def)
  let ?a = "J ''param('' @ ?p @ J '') != nil''"
  have a: "solid ?a" "\<exists>k. tryParseRequestCondition ?a = Inr (Some k)"
    using p by (simp_all add: solid_def trimmed_def bal_quiet quiet_38 is_ws_def read_param_exists
        [simplified])
  have "\<exists>b. ?e = ?a @ J '' && '' @ b \<and> solid b \<and> tryParseRequestCondition b = Inr None"
    using assms(1)
  proof (cases rule: ph_modes)
    case 2
    have v: "quiet (json_quote (ph_value c))"
      using 2 assms(3) by (simp add: quiet_json_quote plain_text_def)
    have "?e = ?a @ J '' && '' @ J ''has(param('' @ ?p @ J ''), '' @ json_quote (ph_value c) @ J '')''"
      using 2 assms(1,4) by (simp add: built_ph source_expr_def Let_def)
    moreover have "solid (J ''has(param('' @ ?p @ J ''), '' @ json_quote (ph_value c) @ J '')'')"
      using p v by (simp add: solid_def trimmed_def bal_quiet quiet_38 is_ws_def)
    ultimately show ?thesis using read_has_param [OF p(2)] by blast
  next
    case 3
    then obtain k op where k: "k = 60 \<or> k = 62" and
      e: "?e = ?a @ J '' && '' @ J ''param('' @ ?p @ J '') '' @ k # op @ J '' '' @ ph_value c"
      and op: "op = [] \<or> op = [61]"
      using assms(1) by (fastforce simp: built_ph source_expr_def Let_def)
    have "solid (J ''param('' @ ?p @ J '') '' @ k # op @ J '' '' @ ph_value c)"
      using p k op 3(2)
      by (auto simp: solid_def trimmed_def bal_quiet quiet_38 is_ws_def [of 112] quiet_numeric
          numeric_last numeric_not_Nil balanced_no_parens quiet_no_parens)
    moreover have "tryParseRequestCondition
        (J ''param('' @ ?p @ J '') '' @ k # op @ J '' '' @ ph_value c) = Inr None"
      using k by (intro read_bare_cmp p(2)) auto
    ultimately show ?thesis using e by blast
  qed (use assms in auto)
  then obtain b where b: "?e = ?a @ J '' && '' @ b" "solid b" "tryParseRequestCondition b = Inr None"
    by blast
  have "buildRequestRuleExpr [\<lparr>rg_conditions = [PHCond c], rg_multiplier = m\<rparr>]
      = factor_text (?a @ J '' && '' @ b) m"
    using b(1) assms(7)
    by (simp add: buildRequestRuleExpr_def buildRuleGroupFactor_def numeric_trimmed factor_text_def)
  with guarded_lost [OF a(1) b(2) _ b(3) assms(7)] a(2) show ?thesis by auto
qed

theorem guarded_param_rules_are_rejected_witness:
  "tryParseRequestRuleExpr (buildRequestRuleExpr
     [\<lparr>rg_conditions = [PHCond \<lparr>ph_source = Param, ph_path = J ''max_tokens'', ph_mode = MATCH_GT,
        ph_value = J ''4096''\<rparr>], rg_multiplier = J ''2''\<rparr>]) = Inr None"
  by (rule guarded_param_rules_are_rejected) code_simp+

text \<open>The condition parser does not catch the exception of \<open>JSON.parse\<close>: a text of the shape
  \<open>header("...") != ""\<close> whose literal the pattern accepts and JSON does not makes it throw.\<close>

theorem malformed_header_literal_throws:
  assumes "items b" "json_parse ([34] @ b @ [34]) = Inl e"
  shows "tryParseRequestCondition (J ''header('' @ [34] @ b @ [34] @ J '') != \"\"'') = Inl e"
  using assms
  by (simp add: tryParseRequestCondition_def pattern_steps r_header_exists_def ph_found_def
      parse_string_def time_fails [simplified])

theorem malformed_header_literal_throws_witness:
  "tryParseRequestCondition (J ''header('' @ [34] @ [92, 120] @ [34] @ J '') != \"\"'') = Inl SyntaxError"
  by (rule malformed_header_literal_throws) code_simp+

section \<open>Normalisation\<close>

definition offered :: "request_condition \<Rightarrow> bool" where
  "offered c = (case c of
     PHCond r \<Rightarrow> is_option (case ph_source r of Param \<Rightarrow> J ''param'' | Header \<Rightarrow> J ''header'') (Some (ph_mode r))
   | TimeCond r \<Rightarrow> is_option (J ''time'') (Some (tc_mode r)) \<and> isTimeFunc (Some (tc_func r)) \<and> tc_zone r \<noteq> [])"

lemma default_modes:
  "is_option (J ''time'') (Some MATCH_GTE)" "is_option (J ''header'') (Some MATCH_EQ)"
  "is_option (J ''param'') (Some MATCH_EQ)"
  using options_source by (auto simp: is_option_def)

lemma normalize_offered: "offered c \<Longrightarrow> normalize c = c"
proof (cases c)
  case (PHCond r)
  assume "offered c"
  with PHCond options_source show ?thesis
    by (cases "ph_source r") (auto simp: offered_def normalize_PH is_option_def)
next
  case (TimeCond r)
  assume "offered c"
  with TimeCond options_source show ?thesis
    by (auto simp: offered_def is_option_def isTimeFunc_def intro!: normalize_Time)
qed

lemma normalizeCondition_offered: "offered (normalizeCondition p)"
proof -
  have time: "isTimeFunc (Some (J ''hour''))" by (simp add: isTimeFunc_def TIME_FUNCS_def)
  have opt: "is_option s m \<Longrightarrow> is_option s (Some (opt_str m))" for s m
    by (cases m) (simp_all add: is_option_def)
  have fn: "isTimeFunc f \<Longrightarrow> isTimeFunc (Some (opt_str f))" for f
    by (cases f) (simp_all add: isTimeFunc_def)
  have zone: "str_or z (J ''Asia/Shanghai'') \<noteq> []" for z by (cases z) auto
  show ?thesis
    using default_modes time opt fn zone
    by (simp add: normalizeCondition_def offered_def Let_def del: J_Cons)
qed

text \<open>\<open>normalizeCondition\<close> gives, for any partial condition, a condition whose match mode is one
  the editor offers for its source, and normalising that again changes nothing.\<close>

theorem normalizeCondition_valid:
  "offered (normalizeCondition p) \<and> normalize (normalizeCondition p) = normalizeCondition p"
  by (simp add: normalizeCondition_offered normalize_offered)

section \<open>The scanners\<close>

text \<open>\<open>hasFullOuterParens\<close> recognises exactly the strings that are one balanced string in a
  pair of parentheses.\<close>

theorem hasFullOuterParens_spec:
  "hasFullOuterParens s \<longleftrightarrow> (\<exists>x. s = [40] @ x @ [41] \<and> balanced x)"
  by (rule hasFullOuterParens_iff)

text \<open>C39. \<open>unwrapOuterParens\<close> takes off white space and balanced outer parentheses and nothing
  else, and leaves none: the loop ends, on every input.\<close>

theorem unwrapOuterParens_spec:
  "wrapped (unwrapOuterParens s) s \<and> \<not> hasFullOuterParens (unwrapOuterParens s)
    \<and> trimmed (unwrapOuterParens s)"
  unfolding unwrapOuterParens_def
  by (simp add: unwrap_loop_not_full unwrap_loop_trimmed wrapped_space unwrap_loop_wraps)

text \<open>The two splitters lose no code unit: the raw segments joined by the operator are the
  input; and the parts they return are trimmed and not empty.\<close>

theorem splitters_keep_every_unit:
  "join (J '' * '') (split_raw (J '' * '') s 0 []) = s
    \<and> join (J '' && '') (split_raw (J '' && '') s 0 []) = s
    \<and> list_all (\<lambda>e. e \<noteq> [] \<and> trimmed e) (splitTopLevelMultiply s @ splitTopLevelAnd s)"
  by (auto simp: join_split_raw splitTopLevelMultiply_def splitTopLevelAnd_def list_all_iff
      simp del: split_raw.simps)

end
