(* ===== verification/ExpressionEditor.thy ===== *)
theory ExpressionEditor
  imports TierProperties RuleProperties
begin

text \<open>
  The expression editor as a whole: the tiers of \<open>features/pricing/lib/tier-expr.ts\<close> and the
  request rules of \<open>features/pricing/lib/billing-expr.ts\<close> go into one billing expression, which is
  split into the two again and read by their parsers. The splitter counts parentheses and does not
  know string literals, so the literals of the tiers must be balanced.
\<close>

section \<open>Balanced tier expressions\<close>

fun balanced_cond :: "tier_cond \<Rightarrow> bool" where
  "balanced_cond (TokenCond t) \<longleftrightarrow> True"
| "balanced_cond (ReqCond c) \<longleftrightarrow> balanced (buildRequestConditionExpr c)"

definition balanced_tier :: "visual_tier \<Rightarrow> bool" where
  "balanced_tier t \<longleftrightarrow> balanced (json_quote (vt_label t)) \<and> list_all balanced_cond (vt_conditions t)"

lemma number_no_parens: "number_text w \<Longrightarrow> no_parens w"
  using number_text_units(1) [of w] by (auto simp: no_parens_def list_all_iff num_unit_def is_digit_def)

lemma balanced_around: "balanced x \<Longrightarrow> no_parens a \<Longrightarrow> no_parens b \<Longrightarrow> balanced (a @ x @ b)"
  using bal_append [OF balanced_no_parens, of b 0 x] bal_no_parens [of a 0 "x @ b"] by simp

lemma balanced_duration: "balanced duration_text"
  by (simp add: duration_text_def)

lemma token_vars_no_parens: "(v, k) \<in> set TOKEN_FIELD_BY_VAR \<Longrightarrow> no_parens v"
  by (auto simp: TOKEN_FIELD_BY_VAR_def)

lemma balanced_summand:
  assumes "k \<in> set summand_order" "carried k x"
  shows "balanced (summand_text k x)"
proof -
  from assms(1) consider "k = J ''per_request_unit_cost''" | "k = J ''per_second_unit_cost''"
    | v where "(v, k) \<in> set TOKEN_FIELD_BY_VAR" "k \<noteq> J ''per_request_unit_cost''"
    unfolding summand_order_def TOKEN_FIELD_BY_VAR_def list.set by blast
  then show ?thesis
  proof cases
    case 1
    with assms(2) have "number_text (to_str (num_mul x (Fin 1000000)))"
      using finite_cost_text by (simp only: carried_def steady_price_def if_True simp_thms)
    with 1 show ?thesis by (simp only: summand_texts balanced_no_parens number_no_parens)
  next
    case 2
    then have "no_parens (to_str x)" using assms(2) finite_cost_text number_no_parens by (simp add: carried_def)
    then have "no_parens (J '' * '' @ to_str x @ J '' * 1000000'')" by simp
    with 2 bal_append [OF balanced_no_parens balanced_duration] show ?thesis
      by (simp only: summand_texts)
  next
    case 3
    then have "no_parens (to_str x)" using assms(2) finite_cost_text number_no_parens by (simp add: carried_def)
    with 3 token_vars_no_parens have "no_parens (v @ J '' * '' @ to_str x)" by simp
    with 3(1) show ?thesis by (simp only: token_var_text balanced_no_parens)
  qed
qed

lemma balanced_call:
  assumes "balanced_tier t" "canonical_costs (vt_costs t)"
  shows "balanced (tier_call_text (vt_label t) t)"
proof -
  have "balanced (summand_text k (cost_of (vt_costs t) k))"
    if "k \<in> set (filter (shown (vt_costs t)) summand_order)" for k
    using that canonical_cost(2) [OF assms(2)] cost_fields_order(1) by (intro balanced_summand) auto
  then have "balanced (buildTierBodyExpr t)"
    unfolding tier_body_summands by (intro balanced_join) auto
  then have "balanced (J '', '' @ buildTierBodyExpr t)" by simp
  from bal_append [OF this] have "balanced (json_quote (vt_label t) @ J '', '' @ buildTierBodyExpr t)"
    using assms(1) by (simp only: balanced_tier_def)
  from balanced_parens [OF this] show ?thesis by (simp add: tier_call_text_def)
qed

lemma balanced_cond_text:
  assumes "canonical_cond c" "balanced_cond c"
  shows "balanced (tier_cond_text c)"
proof (cases c)
  case (TokenCond t)
  with assms have t: "token_ok t" by simp
  then obtain x where x: "tk_value t = VNum x" "number_text (to_str x)" using token_value by blast
  have "no_parens (tk_var t @ J '' '' @ tk_op t @ J '' '' @ to_str x)"
    using t number_no_parens [OF x(2)] by (auto simp: token_ok_def)
  then show ?thesis unfolding TokenCond token_text [OF t x(1)] by (rule balanced_no_parens)
qed (use assms in simp)

lemma balanced_conditions:
  assumes "list_all canonical_cond cs" "list_all balanced_cond cs"
  shows "balanced (buildConditionStr cs)"
  unfolding buildConditionStr_def
proof (rule balanced_join, safe)
  fix w
  assume "w \<in> set (map (\<lambda>c. if js_includes c (J '' || '') then J ''('' @ c @ J '')'' else c)
    (nonempty (map tier_cond_text cs)))"
  then obtain c where "c \<in> set cs" "w = tier_cond_text c \<or> w = [40] @ tier_cond_text c @ [41]"
    by (auto simp: nonempty_def split: if_splits)
  moreover from this have "balanced (tier_cond_text c)"
    using assms balanced_cond_text by (auto simp: list_all_iff)
  ultimately show "balanced w" using balanced_parens by metis
qed simp

lemma balanced_rung:
  assumes "canonical_tier t" "balanced_tier t" "balanced r"
  shows "balanced (buildConditionStr (vt_conditions t) @ J '' ? '' @ tier_call_text (vt_label t) t @ J '' : '' @ r)"
proof -
  have c: "balanced (buildConditionStr (vt_conditions t))" "balanced (tier_call_text (vt_label t) t)"
    using assms balanced_conditions balanced_call by (auto simp: canonical_tier_def balanced_tier_def)
  have "balanced (J '' : '' @ r)" using assms(3) by simp
  from bal_append [OF this c(2)] have "balanced (J '' ? '' @ tier_call_text (vt_label t) t @ J '' : '' @ r)"
    by simp
  from bal_append [OF this c(1)] show ?thesis .
qed

lemma balanced_ladder:
  "list_all canonical_tier ts \<Longrightarrow> list_all balanced_tier ts \<Longrightarrow> balanced (ladder ts)"
proof (induction ts rule: ladder.induct)
  case (2 t)
  then show ?case using balanced_call by (simp add: canonical_tier_def)
next
  case (3 t u ts)
  then have "balanced (ladder (u # ts))" by (intro 3(1)) auto
  with 3(2,3) balanced_rung [of t "ladder (u # ts)"] show ?case by simp
qed (simp add: zero_expr_def)

lemma balanced_config:
  assumes "canonical_config ts" "list_all balanced_tier ts"
  shows "balanced (config_text ts)"
proof (cases ts)
  case (Cons t us)
  have "balanced zero_expr" by (simp add: zero_expr_def)
  with Cons assms balanced_rung [of t zero_expr] balanced_ladder [of ts] show ?thesis
    by (auto simp: config_text_def canonical_config_def simp del: J_Cons)
qed (use assms in \<open>simp add: canonical_config_def\<close>)

section \<open>A tier expression splits off\<close>

lemma bal_prefix: "bal d (u @ v) \<Longrightarrow> 0 \<le> d \<Longrightarrow> 0 \<le> d + depth u"
proof (induction u arbitrary: d)
  case (Cons c u)
  from Cons.IH [of "d + paren c"] Cons.prems show ?case by (simp add: algebra_simps)
qed simp

lemma prefix_not_full:
  assumes "balanced c" "c \<noteq> []" "r \<noteq> []"
  shows "\<not> hasFullOuterParens (c @ r)"
proof
  assume "hasFullOuterParens (c @ r)"
  then obtain x where x: "c @ r = 40 # x @ [41]" "balanced x" by (auto simp: hasFullOuterParens_iff)
  obtain c' where c: "c = 40 # c'" using x(1) assms(2) by (cases c) auto
  obtain r' z where "r = r' @ [z]" using assms(3) by (cases r rule: rev_cases) auto
  with x(1) c have "x = c' @ r'" by auto
  with x(2) have "0 \<le> depth c'" using bal_prefix [of 0 c' r'] by simp
  with c bal_depth [OF assms(1)] show False by simp
qed

lemma ladder_end:
  "list_all canonical_tier ts \<Longrightarrow> ts \<noteq> [] \<Longrightarrow> last (ladder ts) = 41 \<and> ladder ts \<noteq> []"
proof (induction ts rule: ladder.induct)
  case (2 t)
  then show ?case by (simp add: tier_call_text_def)
next
  case (3 t u ts)
  then have "last (ladder (u # ts)) = 41 \<and> ladder (u # ts) \<noteq> []" by (intro 3(1)) auto
  then show ?case by simp
qed simp

lemma config_base:
  assumes "canonical_config ts" "list_all balanced_tier ts"
  shows "base_expr (config_text ts)"
proof -
  obtain t us where ts: "ts = t # us" "canonical_tier t" "list_all canonical_tier ts"
      "\<forall>t \<in> set (butlast ts). vt_conditions t \<noteq> []"
    using assms(1) by (cases ts) (auto simp: canonical_config_def)
  let ?c = "buildConditionStr (vt_conditions t)" and ?b = "tier_call_text (vt_label t) t"
  have b: "balanced (config_text ts)" by (rule balanced_config [OF assms])
  have cond: "tight ?c" "balanced ?c" if "vt_conditions t \<noteq> []"
    using that ts assms(2) condition_str_shape(1) balanced_conditions
    by (auto simp: canonical_tier_def balanced_tier_def)
  have tight: "tight (config_text ts)" and last: "last (config_text ts) \<noteq> 49"
    using cond(1) ladder_tight [OF ts(3,4)] ladder_end [OF ts(3)] ts(1)
    by (auto simp: config_text_def tight_def zero_expr_def visible_not_ws)
  have "\<not> hasFullOuterParens (config_text ts)"
  proof (cases "vt_conditions t = []")
    case True
    with assms(1) ts(1) have "us = []" by (cases us) (auto simp: canonical_config_def)
    with True ts(1) have "config_text ts = 116 # tl ?b" by (simp add: config_text_def tier_call_text_def)
    then show ?thesis by (simp add: hasFullOuterParens_def starts_with_def)
  next
    case False
    then obtain r where "config_text ts = ?c @ r" "r \<noteq> []"
      using ts(1) by (cases us) (auto simp: config_text_def)
    with prefix_not_full [OF cond(2) _ this(2)] cond(1) False show ?thesis by (simp add: tight_def)
  qed
  moreover have "\<not> ends_with (config_text ts) (J '' : 1'')"
    using last by (auto simp: ends_with_iff)
  ultimately show ?thesis
    using tight b by (simp add: base_expr_def tight_def trimmed_def)
qed

section \<open>Writing and reading a billing expression\<close>

text \<open>C4. The editor's whole expression is read back for tiers and rules in canonical form: tiers that
  are canonical, with balanced parentheses in their labels and in the text of their request conditions,
  combined with at least one canonical rule group, give one text that is split into the expression of
  the tiers and that of the rules, from which the two parsers read the same tiers and the same groups.
  A canonical group has conditions, a numeric multiplier, and no operator or parenthesis in a path, a
  value or a zone; a condition on a parameter is an equality or a test of existence. Other conditions on
  parameters are printed with a guard that is not read back, see \<open>RuleProperties\<close>.\<close>

theorem editor_round_trip:
  assumes "canonical_config ts" "list_all balanced_tier ts" "list_all canonical_group gs" "gs \<noteq> []"
  shows "\<exists>parts. splitBillingExprAndRequestRules
      (combineBillingExpr (generateExprFromVisualConfig (Some ts)) (buildRequestRuleExpr gs)) = Inr parts
    \<and> tryParseVisualConfig (Some (billingExpr parts)) = Some ts
    \<and> tryParseRequestRuleExpr (requestRuleExpr parts) = Inr (Some gs)"
proof -
  have "base_expr (generateExprFromVisualConfig (Some ts))"
    unfolding generated_text [OF assms(1)] by (rule config_base [OF assms(1,2)])
  from split_combined [OF this assms(3,4)] show ?thesis
    using read_config [OF assms(1)] read_rules [OF assms(3)] by simp
qed

theorem editor_round_trip_witness:
  "\<exists>parts. splitBillingExprAndRequestRules
      (combineBillingExpr (generateExprFromVisualConfig (Some sample_tiers))
        (buildRequestRuleExpr sample_rules)) = Inr parts
    \<and> tryParseVisualConfig (Some (billingExpr parts)) = Some sample_tiers
    \<and> tryParseRequestRuleExpr (requestRuleExpr parts) = Inr (Some sample_rules)"
proof (rule editor_round_trip [OF sample_tiers_canonical _ sample_rules_canonical])
  show "list_all balanced_tier sample_tiers" by code_simp
  show "sample_rules \<noteq> []" by (simp add: sample_rules_def)
qed

end
