(* ===== verification/StatusCodes.thy ===== *)
theory StatusCodes
  imports JsJson Splitter
begin

text \<open>
  The status-code settings: the rule parser of \<open>lib/http-status-code-rules.ts\<close>, which reads lists
  like \<open>401, 500-503\<close> and merges them, and the guard of
  \<open>features/channels/lib/status-code-risk-guard.ts\<close> on mappings of status codes.

  A code is an \<open>int\<close>: the texts \<open>parseInt\<close> gets are runs of digits, the results that pass the
  range check are at most 599, and rounding is monotone, so a run too long for a double is out of
  range on both sides.
\<close>

section \<open>Ranges\<close>

datatype status_code_range = StatusCodeRange (sr_start: int) (sr_end: int)

text \<open>The order of the comparison function of \<open>sort\<close>: by start, then by end.\<close>

instantiation status_code_range :: linorder
begin

definition less_eq_status_code_range :: "status_code_range \<Rightarrow> status_code_range \<Rightarrow> bool" where
  "less_eq_status_code_range a b \<longleftrightarrow>
     sr_start a < sr_start b \<or> (sr_start a = sr_start b \<and> sr_end a \<le> sr_end b)"

definition less_status_code_range :: "status_code_range \<Rightarrow> status_code_range \<Rightarrow> bool" where
  "less_status_code_range a b \<longleftrightarrow>
     sr_start a < sr_start b \<or> (sr_start a = sr_start b \<and> sr_end a < sr_end b)"

instance
proof
  fix a b c :: status_code_range
  show "(a < b) = (a \<le> b \<and> \<not> b \<le> a)" "a \<le> a" "a \<le> b \<or> b \<le> a"
    by (auto simp: less_eq_status_code_range_def less_status_code_range_def)
  show "a \<le> b \<Longrightarrow> b \<le> c \<Longrightarrow> a \<le> c" by (auto simp: less_eq_status_code_range_def)
  show "a \<le> b \<Longrightarrow> b \<le> a \<Longrightarrow> a = b"
    by (cases a; cases b) (auto simp: less_eq_status_code_range_def)
qed

end

record parsed_rules =
  pr_ok :: bool
  pr_ranges :: "status_code_range list"
  pr_tokens :: "jsstr list"
  pr_normalized :: jsstr
  pr_invalidTokens :: "jsstr list"

definition isNumber :: "jsstr \<Rightarrow> bool" where
  "isNumber s \<longleftrightarrow> s \<noteq> [] \<and> list_all is_digit s"

definition isValidCode :: "int \<Rightarrow> bool" where
  "isValidCode code \<longleftrightarrow> 100 \<le> code \<and> code \<le> 599"

text \<open>\<open>const [a, b] = cleaned.split('-')\<close>: pieces after the second are dropped.\<close>

definition parseToken :: "jsstr \<Rightarrow> status_code_range option" where
  "parseToken token =
     (let cleaned = filter (\<lambda>c. \<not> is_ws c) (trim token) in
      if cleaned = [] then None
      else if js_includes cleaned (J ''-'') then
        (case split_ch 45 cleaned of
           a # b # _ \<Rightarrow>
             if \<not> isNumber a \<or> \<not> isNumber b then None
             else (let start = undec a; end = undec b in
               if \<not> isValidCode start \<or> \<not> isValidCode end \<or> end < start then None
               else Some (StatusCodeRange start end))
         | _ \<Rightarrow> None)
      else if \<not> isNumber cleaned then None
      else (let code = undec cleaned in
        if \<not> isValidCode code then None else Some (StatusCodeRange code code)))"

definition merge_step :: "status_code_range list \<Rightarrow> status_code_range \<Rightarrow> status_code_range list" where
  "merge_step merged current =
     (if merged = [] \<or> sr_end (last merged) + 1 < sr_start current then merged @ [current]
      else butlast merged @
        [StatusCodeRange (sr_start (last merged)) (max (sr_end (last merged)) (sr_end current))])"

definition mergeRanges :: "status_code_range list \<Rightarrow> status_code_range list" where
  "mergeRanges ranges = foldl merge_step [] (sort ranges)"

definition range_token :: "status_code_range \<Rightarrow> jsstr" where
  "range_token r =
     (if sr_start r = sr_end r then dec (sr_start r)
      else dec (sr_start r) @ J ''-'' @ dec (sr_end r))"

text \<open>The full-width comma U+FF0C counts as a comma.\<close>

definition rule_segments :: "jsstr \<Rightarrow> jsstr list" where
  "rule_segments raw = comma_segments (map (\<lambda>c. if c = 0xFF0C then 44 else c) raw)"

definition parseHttpStatusCodeRules :: "jsstr \<Rightarrow> parsed_rules" where
  "parseHttpStatusCodeRules input =
     (let raw = trim input; segments = rule_segments raw;
          invalid = filter (\<lambda>s. parseToken s = None) segments;
          merged = mergeRanges (List.map_filter parseToken segments);
          tokens = map range_token merged
      in if raw = [] then
           \<lparr>pr_ok = True, pr_ranges = [], pr_tokens = [], pr_normalized = [], pr_invalidTokens = []\<rparr>
         else if invalid \<noteq> [] then
           \<lparr>pr_ok = False, pr_ranges = [], pr_tokens = [], pr_normalized = raw,
            pr_invalidTokens = invalid\<rparr>
         else
           \<lparr>pr_ok = True, pr_ranges = merged, pr_tokens = tokens, pr_normalized = join (J '','') tokens,
            pr_invalidTokens = []\<rparr>)"

section \<open>Merging\<close>

text \<open>The codes a list of ranges stands for.\<close>

definition codes :: "status_code_range list \<Rightarrow> int set" where
  "codes rs = (\<Union>r \<in> set rs. {sr_start r .. sr_end r})"

definition valid_range :: "status_code_range \<Rightarrow> bool" where
  "valid_range r \<longleftrightarrow> isValidCode (sr_start r) \<and> isValidCode (sr_end r) \<and> sr_start r \<le> sr_end r"

text \<open>Ranges in order, with a gap between any two neighbours.\<close>

fun separated :: "status_code_range list \<Rightarrow> bool" where
  "separated (a # b # rs) \<longleftrightarrow>
     sr_start a \<le> sr_end a \<and> sr_end a + 1 < sr_start b \<and> separated (b # rs)"
| "separated [a] \<longleftrightarrow> sr_start a \<le> sr_end a"
| "separated [] \<longleftrightarrow> True"

lemma codes_simps [simp]:
  "codes [] = {}" "codes (r # rs) = {sr_start r .. sr_end r} \<union> codes rs"
  "codes (rs @ ss) = codes rs \<union> codes ss"
  by (auto simp: codes_def)

lemma separated_snoc:
  "separated (rs @ [r]) \<longleftrightarrow>
     separated rs \<and> sr_start r \<le> sr_end r \<and> (rs = [] \<or> sr_end (last rs) + 1 < sr_start r)"
  by (induction rs rule: separated.induct) auto

lemma separated_last_ext:
  "separated (rs @ [StatusCodeRange a b]) \<Longrightarrow> b \<le> c \<Longrightarrow> separated (rs @ [StatusCodeRange a c])"
  by (auto simp: separated_snoc)

definition merge_inv :: "status_code_range list \<Rightarrow> status_code_range list \<Rightarrow> bool" where
  "merge_inv done merged \<longleftrightarrow>
     codes merged = codes done \<and> separated merged \<and> (done = [] \<longleftrightarrow> merged = []) \<and>
     (done \<noteq> [] \<longrightarrow> sr_start (last merged) \<le> sr_start (last done))"

lemma merge_step_inv:
  assumes "merge_inv ds m" "\<forall>d \<in> set ds. d \<le> r" "sr_start r \<le> sr_end r"
  shows "merge_inv (ds @ [r]) (merge_step m r)"
proof (cases "m = [] \<or> sr_end (last m) + 1 < sr_start r")
  case True
  with assms show ?thesis by (auto simp: merge_inv_def merge_step_def separated_snoc)
next
  case False
  then obtain ms a b where m: "m = ms @ [StatusCodeRange a b]"
    by (metis append_butlast_last_id status_code_range.exhaust)
  with assms(1) have "ds \<noteq> []" by (auto simp: merge_inv_def)
  moreover from this assms(2) have "last ds \<le> r" by simp
  ultimately have "a \<le> sr_start r"
    using assms(1) m by (auto simp: merge_inv_def less_eq_status_code_range_def)
  moreover have "sr_start r \<le> b + 1" using False m by simp
  ultimately have "{a .. max b (sr_end r)} = {a .. b} \<union> {sr_start r .. sr_end r}"
    using assms(3) by auto
  moreover have "separated (ms @ [StatusCodeRange a (max b (sr_end r))])"
    using assms(1) m separated_last_ext [of ms a b] by (simp add: merge_inv_def)
  ultimately show ?thesis
    using assms(1) False m \<open>a \<le> sr_start r\<close> by (auto simp: merge_inv_def merge_step_def)
qed

lemma merge_fold_inv:
  "sorted rs \<Longrightarrow> \<forall>r \<in> set rs. sr_start r \<le> sr_end r \<Longrightarrow> merge_inv rs (foldl merge_step [] rs)"
proof (induction rs rule: rev_induct)
  case (snoc r rs)
  then show ?case by (auto simp: sorted_append intro!: merge_step_inv)
qed (simp add: merge_inv_def)

lemma mergeRanges_codes:
  "\<forall>r \<in> set rs. sr_start r \<le> sr_end r \<Longrightarrow> codes (mergeRanges rs) = codes rs"
  using merge_fold_inv [of "sort rs"] by (simp add: mergeRanges_def merge_inv_def) (simp add: codes_def)

lemma mergeRanges_separated:
  "\<forall>r \<in> set rs. sr_start r \<le> sr_end r \<Longrightarrow> separated (mergeRanges rs)"
  using merge_fold_inv [of "sort rs"] by (simp add: mergeRanges_def merge_inv_def)

text \<open>A separated list is determined by its codes.\<close>

lemma separated_above: "separated (a # rs) \<Longrightarrow> x \<in> codes rs \<Longrightarrow> sr_end a + 1 < x"
proof (induction rs arbitrary: a)
  case (Cons b rs)
  then have "sr_end a + 1 < sr_start b" "sr_start b \<le> x \<or> x \<in> codes rs" "separated (b # rs)" by auto
  moreover from this(3) have "sr_start b \<le> sr_end b" by (cases rs) auto
  ultimately show ?case using Cons.IH [of b] by fastforce
qed simp

lemma separated_tl: "separated (a # rs) \<Longrightarrow> separated rs \<and> sr_start a \<le> sr_end a"
  by (cases rs) auto

lemma separated_Nil: "separated rs \<Longrightarrow> codes rs = {} \<longleftrightarrow> rs = []"
  by (cases rs) (auto dest: separated_tl)

lemma separated_start: "separated (a # rs) \<Longrightarrow> sr_start a \<in> codes (a # rs) \<and> (\<forall>x \<in> codes (a # rs). sr_start a \<le> x)"
  using separated_above [of a rs] separated_tl [of a rs] by fastforce

lemma separated_end:
  "separated (a # rs) \<Longrightarrow> {sr_start a .. sr_end a} \<subseteq> codes (a # rs) \<and> sr_end a + 1 \<notin> codes (a # rs)"
  using separated_above [of a rs] by fastforce

lemma separated_unique: "separated rs \<Longrightarrow> separated ss \<Longrightarrow> codes rs = codes ss \<Longrightarrow> rs = ss"
proof (induction rs arbitrary: ss)
  case Nil
  then show ?case using separated_Nil [of ss] by simp
next
  case (Cons a rs)
  then obtain b ss' where ss: "ss = b # ss'"
    using separated_Nil [of "a # rs"] separated_Nil [of ss] by (cases ss) auto
  note A = separated_start [OF Cons.prems(1)] separated_end [OF Cons.prems(1)]
  note B = separated_start [of b ss'] separated_end [of b ss']
  have st: "sr_start a = sr_start b" using A B Cons.prems ss by (metis antisym)
  have en: "sr_end a = sr_end b"
  proof (rule ccontr)
    assume "sr_end a \<noteq> sr_end b"
    then consider "sr_end a < sr_end b" | "sr_end b < sr_end a" by linarith
    then show False
    proof cases
      case 1
      then have "sr_end a + 1 \<in> {sr_start b .. sr_end b}"
        using st separated_tl [OF Cons.prems(1)] by auto
      then show False using A B Cons.prems ss by blast
    next
      case 2
      then have "sr_end b + 1 \<in> {sr_start a .. sr_end a}"
        using st separated_tl [of b ss'] Cons.prems ss by auto
      then show False using A B Cons.prems ss by blast
    qed
  qed
  have "codes rs = codes ss'"
  proof -
    have diff: "codes (r # rs') - {sr_start r .. sr_end r} = codes rs'" if "separated (r # rs')" for r rs'
      using separated_above [OF that] by fastforce
    have "codes rs = codes (a # rs) - {sr_start a .. sr_end a}" using diff Cons.prems(1) by blast
    also have "\<dots> = codes (b # ss') - {sr_start b .. sr_end b}" using Cons.prems(3) ss st en by simp
    also have "\<dots> = codes ss'" using diff Cons.prems(2) ss by blast
    finally show ?thesis .
  qed
  moreover have "separated rs" "separated ss'"
    using separated_tl [of a rs] separated_tl [of b ss'] Cons.prems(1,2) ss by auto
  ultimately have "rs = ss'" using Cons.IH by blast
  moreover from st en have "a = b" by (cases a; cases b) simp
  ultimately show ?case using ss by simp
qed

section \<open>Printing and reading tokens\<close>

lemma dec_units: "0 \<le> n \<Longrightarrow> c \<in> set (dec n) \<Longrightarrow> is_digit c"
  using dec_digits [of n] by (simp add: list_all_iff)

lemma not_digit_45: "\<not> is_digit 45" "\<not> is_digit 44"
  by (simp_all add: is_digit_def)

lemma trim_token:
  assumes "\<And>c. c \<in> set s \<Longrightarrow> is_digit c \<or> c = 45"
  shows "trim s = s" "filter (\<lambda>c. \<not> is_ws c) s = s"
proof -
  have ws: "\<not> is_ws c" if "c \<in> set s" for c
    using assms [OF that] by (auto simp: is_digit_def is_ws_def)
  then show "filter (\<lambda>c. \<not> is_ws c) s = s" by simp
  show "trim s = s" by (cases "s = []") (auto intro!: trim_trimmed trimmedI ws)
qed

lemma parseToken_range_token:
  assumes "valid_range r"
  shows "parseToken (range_token r) = Some r"
proof -
  obtain a b where r: "r = StatusCodeRange a b" by (cases r)
  have ab: "0 \<le> a" "0 \<le> b" "isValidCode a" "isValidCode b" "a \<le> b"
    using assms r by (auto simp: valid_range_def isValidCode_def)
  note units = dec_units [OF ab(1)] dec_units [OF ab(2)]
  have no45: "45 \<notin> set (dec a)" "45 \<notin> set (dec b)" using units not_digit_45 by blast+
  have num: "isNumber (dec a)" "isNumber (dec b)"
    using dec_digits ab by (auto simp: isNumber_def)
  show ?thesis
  proof (cases "a = b")
    case True
    have "\<not> js_includes (dec a) [45]" using no45 by (auto simp: js_includes_iff)
    moreover have "trim (dec a) = dec a" "filter (\<lambda>c. \<not> is_ws c) (dec a) = dec a"
      using trim_token units by blast+
    ultimately show ?thesis
      using True r ab num by (simp add: parseToken_def range_token_def Let_def undec_dec)
  next
    case False
    let ?t = "dec a @ 45 # dec b"
    have "is_digit c \<or> c = 45" if "c \<in> set ?t" for c using that units by auto
    then have "trim ?t = ?t" "filter (\<lambda>c. \<not> is_ws c) ?t = ?t" using trim_token by blast+
    moreover have "js_includes ?t [45]" by (auto simp: js_includes_iff)
    moreover have "split_ch 45 ?t = [dec a, dec b]"
      using no45 by (simp add: split_ch_append split_ch_no_sep)
    ultimately show ?thesis
      using False r ab num by (simp add: parseToken_def range_token_def Let_def undec_dec)
  qed
qed

lemma parseToken_valid: "parseToken t = Some r \<Longrightarrow> valid_range r"
  by (auto simp: parseToken_def Let_def valid_range_def split: if_splits list.splits)

lemma token_units:
  "valid_range r \<Longrightarrow> c \<in> set (range_token r) \<Longrightarrow> is_digit c \<or> c = 45"
  "range_token r \<noteq> []"
  by (auto simp: range_token_def valid_range_def isValidCode_def dest: dec_units [rotated] split: if_splits)

text \<open>Every range that merging produces is made of bounds of the given ranges.\<close>

lemma merge_step_valid:
  "list_all valid_range m \<Longrightarrow> valid_range r \<Longrightarrow> list_all valid_range (merge_step m r)"
proof (cases "m = []")
  case False
  assume "list_all valid_range m" "valid_range r"
  moreover from this False have "valid_range (last m)" "list_all valid_range (butlast m)"
    by (auto simp: list_all_iff dest: in_set_butlastD)
  ultimately show ?thesis by (auto simp: merge_step_def valid_range_def isValidCode_def)
qed (simp add: merge_step_def)

lemma mergeRanges_valid: "list_all valid_range rs \<Longrightarrow> list_all valid_range (mergeRanges rs)"
proof -
  assume "list_all valid_range rs"
  then have "list_all valid_range (sort rs)" by (simp add: list_all_iff)
  moreover have "list_all valid_range ss \<Longrightarrow> list_all valid_range m \<Longrightarrow>
      list_all valid_range (foldl merge_step m ss)" for m ss
    by (induction ss arbitrary: m) (auto intro: merge_step_valid)
  ultimately show ?thesis by (simp add: mergeRanges_def)
qed

text \<open>A separated list of valid ranges is what merging leaves alone.\<close>

lemma merge_separated:
  assumes "separated rs" "list_all valid_range rs"
  shows "mergeRanges rs = rs"
proof (rule separated_unique [OF _ assms(1)])
  have "\<forall>r \<in> set rs. sr_start r \<le> sr_end r" using assms(2) by (auto simp: list_all_iff valid_range_def)
  then show "separated (mergeRanges rs)" "codes (mergeRanges rs) = codes rs"
    by (rule mergeRanges_separated, rule mergeRanges_codes)
qed

text \<open>Tokens are parts of a comma list.\<close>

lemma token_part: "valid_range r \<Longrightarrow> comma_part (range_token r)"
proof -
  assume r: "valid_range r"
  have u: "is_digit c \<or> c = 45" if "c \<in> set (range_token r)" for c
    using token_units(1) [OF r that] .
  have "44 \<notin> set (range_token r)" using u not_digit_45 by fastforce
  moreover have "\<not> is_ws c" if "c \<in> set (range_token r)" for c
    using u [OF that] is_digit_not_ws by (auto simp: is_ws_def [of 45])
  ultimately show ?thesis
    using token_units(2) [of r] by (auto simp: comma_part_def intro!: trimmedI)
qed

lemma rules_text:
  assumes "list_all valid_range rs" "rs \<noteq> []"
  defines "t \<equiv> join (J '','') (map range_token rs)"
  shows "trim t = t" "t \<noteq> []" "rule_segments t = comma_segments t"
proof -
  have parts: "comma_part x" if "x \<in> set (map range_token rs)" for x
    using that assms(1) token_part by (auto simp: list_all_iff)
  have u: "is_digit c \<or> c = 45 \<or> c = 44" if c: "c \<in> set t" for c
  proof -
    have "set t \<subseteq> {44} \<union> (\<Union>x \<in> set (map range_token rs). set x)"
      unfolding t_def using set_join [of "J '',''" "map range_token rs"] by simp
    with c have "c = 44 \<or> (\<exists>x \<in> set (map range_token rs). c \<in> set x)" by blast
    with assms(1) token_units(1) show ?thesis by (auto simp: list_all_iff)
  qed
  have "range_token (hd rs) \<noteq> []" by (rule token_units(2))
  with assms(2) show ne: "t \<noteq> []"
    unfolding t_def by (cases rs) (auto simp: join_Cons)
  have "\<not> is_ws c" if "c \<in> set t" for c
    using u [OF that] is_digit_not_ws by (auto simp: is_ws_def [of 45] is_ws_def [of 44])
  with ne show "trim t = t" by (auto intro!: trim_trimmed trimmedI)
  have "c \<noteq> 0xFF0C" if "c \<in> set t" for c using u [OF that] by (auto simp: is_digit_def)
  then have "map (\<lambda>c. if c = 0xFF0C then 44 else c) t = t" by (intro map_idI) auto
  then show "rule_segments t = comma_segments t" by (simp add: rule_segments_def)
qed

lemma parsed_ok:
  assumes "pr_ok (parseHttpStatusCodeRules s)"
  obtains rs where "list_all valid_range rs" "parseHttpStatusCodeRules s =
    \<lparr>pr_ok = True, pr_ranges = mergeRanges rs, pr_tokens = map range_token (mergeRanges rs),
     pr_normalized = join (J '','') (map range_token (mergeRanges rs)), pr_invalidTokens = []\<rparr>"
proof (cases "trim s = []")
  case True
  then have "parseHttpStatusCodeRules s =
    \<lparr>pr_ok = True, pr_ranges = mergeRanges [], pr_tokens = map range_token (mergeRanges []),
     pr_normalized = join (J '','') (map range_token (mergeRanges [])), pr_invalidTokens = []\<rparr>"
    by (simp add: parseHttpStatusCodeRules_def mergeRanges_def)
  then show ?thesis using that [of "[]"] by simp
next
  case False
  let ?rs = "List.map_filter parseToken (rule_segments (trim s))"
  have "list_all valid_range ?rs"
    by (auto simp: list_all_iff map_filter_def dest: parseToken_valid)
  moreover have "parseHttpStatusCodeRules s =
    \<lparr>pr_ok = True, pr_ranges = mergeRanges ?rs, pr_tokens = map range_token (mergeRanges ?rs),
     pr_normalized = join (J '','') (map range_token (mergeRanges ?rs)), pr_invalidTokens = []\<rparr>"
    using assms False by (auto simp: parseHttpStatusCodeRules_def Let_def split: if_splits)
  ultimately show ?thesis using that by blast
qed

lemma valid_bounds: "list_all valid_range rs \<Longrightarrow> \<forall>r \<in> set rs. sr_start r \<le> sr_end r"
  by (auto simp: list_all_iff valid_range_def)

section \<open>Properties\<close>

text \<open>C28. The ranges of an accepted rule list are exactly the codes its segments name, each range
  within 100 to 599, in ascending order and with a gap between neighbours.\<close>

theorem status_rules_merge:
  assumes "pr_ok (parseHttpStatusCodeRules s)"
  shows "codes (pr_ranges (parseHttpStatusCodeRules s))
      = codes (List.map_filter parseToken (rule_segments (trim s)))
    \<and> separated (pr_ranges (parseHttpStatusCodeRules s))
    \<and> list_all valid_range (pr_ranges (parseHttpStatusCodeRules s))"
proof -
  let ?rs = "List.map_filter parseToken (rule_segments (trim s))"
  have v: "list_all valid_range ?rs"
    by (auto simp: list_all_iff map_filter_def dest: parseToken_valid)
  have "pr_ranges (parseHttpStatusCodeRules s) = mergeRanges ?rs"
    using assms by (auto simp: parseHttpStatusCodeRules_def Let_def rule_segments_def mergeRanges_def
        map_filter_def commas.split_Nil split: if_splits)
  with v show ?thesis
    by (simp add: mergeRanges_codes mergeRanges_separated mergeRanges_valid valid_bounds)
qed

theorem status_rules_merge_witness:
  "codes (pr_ranges (parseHttpStatusCodeRules (J ''500-503, 401,502-599, 402'')))
      = codes (List.map_filter parseToken (rule_segments (trim (J ''500-503, 401,502-599, 402''))))
    \<and> separated (pr_ranges (parseHttpStatusCodeRules (J ''500-503, 401,502-599, 402'')))
    \<and> list_all valid_range (pr_ranges (parseHttpStatusCodeRules (J ''500-503, 401,502-599, 402'')))"
  by (rule status_rules_merge) code_simp

text \<open>C29. The normalized text is a canonical form: two accepted rule lists that stand for the same
  codes have the same normalized text, whatever their order, overlaps and spacing.\<close>

theorem status_rules_canonical:
  assumes "pr_ok (parseHttpStatusCodeRules s)" "pr_ok (parseHttpStatusCodeRules t)"
    and "codes (pr_ranges (parseHttpStatusCodeRules s)) = codes (pr_ranges (parseHttpStatusCodeRules t))"
  shows "pr_normalized (parseHttpStatusCodeRules s) = pr_normalized (parseHttpStatusCodeRules t)"
proof -
  obtain a b where v: "list_all valid_range a" "list_all valid_range b"
    and p: "parseHttpStatusCodeRules s =
      \<lparr>pr_ok = True, pr_ranges = mergeRanges a, pr_tokens = map range_token (mergeRanges a),
       pr_normalized = join (J '','') (map range_token (mergeRanges a)), pr_invalidTokens = []\<rparr>"
      "parseHttpStatusCodeRules t =
      \<lparr>pr_ok = True, pr_ranges = mergeRanges b, pr_tokens = map range_token (mergeRanges b),
       pr_normalized = join (J '','') (map range_token (mergeRanges b)), pr_invalidTokens = []\<rparr>"
    by (metis parsed_ok [OF assms(1)] parsed_ok [OF assms(2)])
  have "mergeRanges a = mergeRanges b"
    using assms(3) p v by (intro separated_unique) (simp_all add: mergeRanges_separated valid_bounds)
  with p show ?thesis by simp
qed

theorem status_rules_canonical_witness:
  "pr_normalized (parseHttpStatusCodeRules (J ''500-503, 401,502-504'')) =
    pr_normalized (parseHttpStatusCodeRules (J ''401,504,500 - 503''))"
  by (rule status_rules_canonical) code_simp+

text \<open>Normalising is idempotent: the normalized text of an accepted rule list is accepted and
  gives the same ranges, tokens and normalized text.\<close>

theorem status_rules_round_trip:
  assumes "pr_ok (parseHttpStatusCodeRules s)"
  shows "parseHttpStatusCodeRules (pr_normalized (parseHttpStatusCodeRules s)) = parseHttpStatusCodeRules s"
proof -
  obtain rs where v: "list_all valid_range rs" and p: "parseHttpStatusCodeRules s =
    \<lparr>pr_ok = True, pr_ranges = mergeRanges rs, pr_tokens = map range_token (mergeRanges rs),
     pr_normalized = join (J '','') (map range_token (mergeRanges rs)), pr_invalidTokens = []\<rparr>"
    by (rule parsed_ok [OF assms])
  let ?m = "mergeRanges rs"
  have m: "list_all valid_range ?m" "mergeRanges ?m = ?m"
    using v by (auto simp: mergeRanges_valid mergeRanges_separated valid_bounds intro!: merge_separated)
  show ?thesis
  proof (cases "?m = []")
    case True
    then show ?thesis using p by (simp add: parseHttpStatusCodeRules_def)
  next
    case False
    have "comma_part (range_token r)" "parseToken (range_token r) = Some r" if "r \<in> set ?m" for r
      using that m(1) by (auto simp: list_all_iff intro: parseToken_range_token token_part)
    with commas.filter_printed [of ?m range_token parseToken] False rules_text [OF m(1) False] p m(2)
    show ?thesis by (simp add: parseHttpStatusCodeRules_def Let_def)
  qed
qed

theorem status_rules_round_trip_witness:
  "parseHttpStatusCodeRules (pr_normalized (parseHttpStatusCodeRules (J '' 500-503,401'')))
    = parseHttpStatusCodeRules (J '' 500-503,401'')"
  by (rule status_rules_round_trip) code_simp

text \<open>A token with two hyphens is accepted and everything after the second one is ignored:
  for valid codes \<open>a\<close> up to \<open>b\<close>, the token \<open>a-b-x\<close> means \<open>a-b\<close>, whatever \<open>x\<close>
  is.\<close>

theorem trailing_bound_is_ignored:
  assumes "isValidCode a" "isValidCode b" "a \<le> b" "a \<noteq> b"
    and "list_all (\<lambda>c. \<not> is_ws c) x"
  shows "parseToken (range_token (StatusCodeRange a b) @ J ''-'' @ x) = Some (StatusCodeRange a b)"
proof -
  have ab: "0 \<le> a" "0 \<le> b" using assms by (auto simp: isValidCode_def)
  note units = dec_units [OF ab(1)] dec_units [OF ab(2)]
  have no45: "45 \<notin> set (dec a)" "45 \<notin> set (dec b)" using units not_digit_45 by blast+
  have num: "isNumber (dec a)" "isNumber (dec b)"
    using dec_digits ab by (auto simp: isNumber_def)
  let ?t = "dec a @ 45 # dec b @ 45 # x"
  have ws: "\<not> is_ws c" if "c \<in> set ?t" for c
    using that units assms(5) is_digit_not_ws by (auto simp: list_all_iff is_ws_def [of 45])
  then have "filter (\<lambda>c. \<not> is_ws c) ?t = ?t" by (intro filter_True) blast
  moreover have "trim ?t = ?t" by (intro trim_trimmed trimmedI ws) auto
  moreover have "js_includes ?t [45]" by (auto simp: js_includes_iff)
  moreover have "split_ch 45 ?t = dec a # dec b # split_ch 45 x"
    using no45 by (simp add: split_ch_append)
  ultimately show ?thesis
    using assms num ab by (simp add: parseToken_def range_token_def Let_def undec_dec)
qed

theorem trailing_bound_is_ignored_witness:
  "parseToken (J ''400-404-999'') = Some (StatusCodeRange 400 404)"
proof -
  have "parseToken (range_token (StatusCodeRange 400 404) @ J ''-'' @ J ''999'') = Some (StatusCodeRange 400 404)"
    by (rule trailing_bound_is_ignored) (simp_all add: isValidCode_def is_ws_def)
  moreover have "range_token (StatusCodeRange 400 404) = J ''400-404''" by code_simp
  ultimately show ?thesis by simp
qed

end
