(* ===== verification/JsObject.thy ===== *)
theory JsObject
  imports JsJson "HOL-Library.List_Lexorder"
begin

text \<open>
  Objects as association lists: the order in which \<open>Object.keys\<close> and \<open>Object.entries\<close> list
  them, \<open>delete\<close>, and the sort of strings by code units.
\<close>

section \<open>Values\<close>

text \<open>The truth value of a JSON value, and \<open>v.k\<close>: \<open>null\<close> has no properties, and a value that is
  no object has none of the names the program asks for.\<close>

fun json_truthy :: "json \<Rightarrow> bool" where
  "json_truthy JNull = False"
| "json_truthy (JBool b) = b"
| "json_truthy (JNum x) = num_truthy x"
| "json_truthy (JStr s) = (s \<noteq> [])"
| "json_truthy v = True"

definition json_prop :: "json \<Rightarrow> jsstr \<Rightarrow> json option js" where
  "json_prop v k = (case v of JNull \<Rightarrow> Inl TypeError | JObj m \<Rightarrow> Inr (map_of m k) | _ \<Rightarrow> Inr None)"

text \<open>\<open>v?.k\<close>.\<close>

definition json_optional :: "json option \<Rightarrow> jsstr \<Rightarrow> json option" where
  "json_optional v k = (case v of Some (JObj m) \<Rightarrow> map_of m k | _ \<Rightarrow> None)"

text \<open>A property that is there and truthy.\<close>

definition truthy :: "json option \<Rightarrow> json option" where
  "truthy v = (case v of Some x \<Rightarrow> if json_truthy x then Some x else None | None \<Rightarrow> None)"

section \<open>Property order\<close>

text \<open>Array indices come first, in ascending order, then the other keys in the order of creation.\<close>

definition is_index :: "jsstr \<Rightarrow> bool" where
  "is_index k \<longleftrightarrow> k \<noteq> [] \<and> list_all is_digit k \<and> (k = [48] \<or> hd k \<noteq> 48) \<and> undec k < 4294967295"

definition own_entries :: "(jsstr \<times> 'a) list \<Rightarrow> (jsstr \<times> 'a) list" where
  "own_entries m =
     sort_key (\<lambda>(k, v). undec k) (filter (\<lambda>(k, v). is_index k) m) @
     filter (\<lambda>(k, v). \<not> is_index k) m"

definition own_keys :: "(jsstr \<times> 'a) list \<Rightarrow> jsstr list" where
  "own_keys m = map fst (own_entries m)"

lemma set_own_entries [simp]: "set (own_entries m) = set m"
  by (auto simp: own_entries_def)

lemma set_own_keys [simp]: "set (own_keys m) = fst ` set m"
  by (simp add: own_keys_def)

lemma map_distinct_filter: "distinct (map f xs) \<Longrightarrow> distinct (map f (filter P xs))"
  by (induction xs) auto

lemma distinct_own_keys: "distinct (map fst m) \<Longrightarrow> distinct (own_keys m)"
proof -
  assume d: "distinct (map fst m)"
  let ?a = "filter (\<lambda>(k, v). is_index k) m" and ?b = "filter (\<lambda>(k, v). \<not> is_index k) m"
  have "distinct (map fst (sort_key (\<lambda>(k, v). undec k) ?a)) = distinct (map fst ?a)"
    by (simp add: distinct_map)
  moreover have "fst ` set (sort_key (\<lambda>(k, v). undec k) ?a) \<inter> fst ` set ?b = {}" by auto
  ultimately show ?thesis
    using map_distinct_filter [OF d] by (simp add: own_keys_def own_entries_def)
qed

section \<open>Sorting strings\<close>

text \<open>\<open>xs.sort()\<close> without a comparison: by code units, a prefix first.\<close>

definition sort_strings :: "jsstr list \<Rightarrow> jsstr list" where
  "sort_strings xs = sort xs"

lemma set_sort_strings [simp]: "set (sort_strings xs) = set xs"
  by (simp add: sort_strings_def)

lemma distinct_sort_strings [simp]: "distinct (sort_strings xs) = distinct xs"
  by (simp add: sort_strings_def)

lemma sorted_sort_strings [simp]: "sorted (sort_strings xs)"
  by (simp add: sort_strings_def)

lemma skip_ws_length: "length (skip_ws s) \<le> length s"
  by (simp add: skip_ws_def length_dropWhile_le)

section \<open>The keys of a parsed object\<close>

text \<open>\<open>JSON.parse\<close> keeps one value for a key: the keys of every object it builds are distinct.\<close>

fun distinct_keys :: "json \<Rightarrow> bool" where
  "distinct_keys (JArr xs) \<longleftrightarrow> list_all distinct_keys xs"
| "distinct_keys (JObj m) \<longleftrightarrow> distinct (map fst m) \<and> list_all (\<lambda>v. distinct_keys v) (map snd m)"
| "distinct_keys v \<longleftrightarrow> True"

lemma values_obj_put: "(a, b) \<in> set (obj_put k v m) \<Longrightarrow> b = v \<or> (a, b) \<in> set m"
proof (induction m)
  case (Cons x m)
  then show ?case by (cases x) (auto split: if_splits)
qed simp

lemma distinct_keys_put:
  "distinct_keys (JObj m) \<Longrightarrow> distinct_keys v \<Longrightarrow> distinct_keys (JObj (obj_put k v m))"
  by (auto simp: distinct_obj_put list_all_iff dest!: values_obj_put)

lemma read_body_length: "read_body s = Some (w, r) \<Longrightarrow> length r < length s"
proof (induction "length s" arbitrary: s w r rule: less_induct)
  case less
  obtain c t where s: "s = c # t" using less.prems by (cases s) auto
  consider "c = 34" | "c \<noteq> 34" "c \<noteq> 92" | "c = 92" by blast
  then show ?case
  proof cases
    case 1
    with less.prems s show ?thesis by simp
  next
    case 2
    with less.prems s obtain v where "read_body t = Some (v, r)" by (auto split: if_splits)
    with less.hyps [of t] s show ?thesis by fastforce
  next
    case 3
    with less.prems s obtain e u where t: "t = e # u" by (cases t) auto
    show ?thesis
    proof (cases "e = 117")
      case True
      with less.prems s 3 t obtain a b x y z v where "u = a # b # x # y # z" "read_body z = Some (v, r)"
        by (auto split: list.splits option.splits)
      with less.hyps [of z] s t show ?thesis by fastforce
    next
      case False
      with less.prems s 3 t obtain v where "read_body u = Some (v, r)"
        by (auto split: option.splits)
      with less.hyps [of u] s t show ?thesis by fastforce
    qed
  qed
qed

lemma read_exp_length: "read_exp s = (e, t) \<Longrightarrow> length t \<le> length s"
  unfolding read_exp_def Let_def
  by (auto split: list.splits if_splits intro: le_trans [OF length_dropWhile_le]
      simp: length_tl le_SucI)

lemma json_number_length:
  assumes "json_number s = Some (x, t)"
  shows "length t < length s"
proof -
  let ?u = "if starts_with s [45] then tl s else s"
  let ?ip = "if starts_with ?u [48] then [48] else takeWhile is_digit ?u"
  have ip: "?ip \<noteq> []" using assms by (auto simp: json_number_def Let_def split: if_splits)
  then have "?u \<noteq> []" by (auto split: if_splits simp: starts_with_def)
  then have "0 < length ?u" "0 < length ?ip" "length ?u \<le> length s"
    using ip by (blast, blast, simp)
  then have l: "length (drop (length ?ip) ?u) < length s"
    unfolding length_drop by linarith
  let ?fp = "if starts_with (drop (length ?ip) ?u) [46]
    then takeWhile is_digit (tl (drop (length ?ip) ?u)) else []"
  let ?r = "drop (if ?fp = [] then 0 else Suc (length ?fp)) (drop (length ?ip) ?u)"
  have "t = snd (read_exp ?r)"
    using assms ip unfolding json_number_def Let_def case_prod_unfold
    by (simp only: if_False option.inject prod.inject snd_conv)
  then have "length t \<le> length ?r" using read_exp_length [of ?r "fst (read_exp ?r)" t] by simp
  also have "\<dots> \<le> length (drop (length ?ip) ?u)" unfolding length_drop [of "if _ then _ else _"] by linarith
  finally show ?thesis using l by linarith
qed

text \<open>One step of the parser, from its result.\<close>

lemma json_value_step:
  assumes "json_value (Suc f) s = Some (v, r)"
  obtains c t where "skip_ws s = c # t" and
    "(\<exists>xs. v = JArr xs \<and> json_elems f t = Some (xs, r)) \<or> json_members f [] t = Some (v, r)
      \<or> (length r < length s \<and> distinct_keys v)"
proof -
  obtain c t where c: "skip_ws s = c # t" using assms by (cases "skip_ws s") auto
  then have st: "length t < length s" using skip_ws_length [of s] by simp
  have lit: "length (drop n t) < length s" for n using st by simp
  have tls: "length (tl (skip_ws t)) < length s" using skip_ws_length [of t] st by simp
  have num: "json_number (c # t) = Some (x, r) \<Longrightarrow> length r < length s" for x
    using json_number_length [of "c # t" x r] c skip_ws_length [of s] by simp
  have str: "read_body t = Some (w, r) \<Longrightarrow> length r < length s" for w
    using read_body_length [of t w r] st by simp
  have "(\<exists>xs. v = JArr xs \<and> json_elems f t = Some (xs, r)) \<or> json_members f [] t = Some (v, r)
      \<or> (length r < length s \<and> distinct_keys v)"
    using assms c lit tls num str by (auto split: if_splits simp del: length_drop)
  with c show ?thesis by (rule that)
qed

lemma json_elems_step:
  assumes "json_elems (Suc f) s = Some (xs, r)"
  obtains x t u ys where "json_value f s = Some (x, t)" "length u < length t"
    "json_elems f u = Some (ys, r) \<and> xs = x # ys \<or> r = u \<and> xs = [x]"
proof -
  obtain x t where t: "json_value f s = Some (x, t)" using assms by (auto split: option.splits)
  with assms obtain c u where u: "skip_ws t = c # u" by (cases "skip_ws t") auto
  then have "length u < length t" using skip_ws_length [of t] by simp
  with that t u assms show ?thesis by (auto split: if_splits)
qed

lemma json_members_step:
  assumes "json_members (Suc f) m s = Some (v, r)"
  obtains k u w z y where "length u < length s" "json_value f u = Some (w, z)" "length y < length z"
    "json_members f (obj_put k w m) y = Some (v, r) \<or> v = JObj (obj_put k w m) \<and> r = y"
proof -
  obtain q a where a: "skip_ws s = q # a" using assms by (cases "skip_ws s") auto
  with assms have q: "q = 34" by (simp split: if_splits)
  with assms a obtain k t where t: "read_body a = Some (k, t)" by (auto split: option.splits)
  with assms a q obtain d u where u: "skip_ws t = d # u" by (cases "skip_ws t") auto
  with assms a q t have d: "d = 58" by (simp split: if_splits)
  with assms a q t u obtain w z where z: "json_value f u = Some (w, z)" by (auto split: option.splits)
  with assms a q t u d obtain c y where y: "skip_ws z = c # y" by (cases "skip_ws z") auto
  have "length u < length s" "length y < length z"
    using skip_ws_length [of s] skip_ws_length [of t] skip_ws_length [of z] read_body_length [OF t] a u y
    by simp_all
  moreover from assms a q t u d z y have
    "json_members f (obj_put k w m) y = Some (v, r) \<or> v = JObj (obj_put k w m) \<and> r = y"
    by (simp split: if_splits)
  ultimately show ?thesis using z by (intro that)
qed

lemma json_distinct_all:
  "(\<forall>s v r. json_value f s = Some (v, r) \<longrightarrow> distinct_keys v \<and> length r < length s) \<and>
   (\<forall>s xs r. json_elems f s = Some (xs, r) \<longrightarrow> list_all distinct_keys xs \<and> length r < length s) \<and>
   (\<forall>m s v r. json_members f m s = Some (v, r) \<longrightarrow> length r < length s \<and>
      (distinct_keys (JObj m) \<longrightarrow> distinct_keys v))"
proof (induction f)
  case (Suc f)
  have 1: "distinct_keys v \<and> length r < length s" if h: "json_value (Suc f) s = Some (v, r)" for s v r
  proof -
    obtain c t where t: "skip_ws s = c # t" and
      "(\<exists>xs. v = JArr xs \<and> json_elems f t = Some (xs, r)) \<or> json_members f [] t = Some (v, r)
        \<or> (length r < length s \<and> distinct_keys v)"
      by (rule json_value_step [OF h])
    then consider xs where "v = JArr xs" "json_elems f t = Some (xs, r)"
      | "json_members f [] t = Some (v, r)" | "length r < length s" "distinct_keys v" by blast
    moreover have "distinct_keys (JObj [])" "length t < length s"
      using skip_ws_length [of s] t by simp_all
    ultimately show ?thesis
      by cases (use Suc.IH less_trans in \<open>fastforce+\<close>)
  qed
  have 2: "list_all distinct_keys xs \<and> length r < length s"
    if h: "json_elems (Suc f) s = Some (xs, r)" for s xs r
    using h by (rule json_elems_step) (use Suc.IH in \<open>fastforce dest: less_trans\<close>)
  have 3: "length r < length s \<and> (distinct_keys (JObj m) \<longrightarrow> distinct_keys v)"
    if h: "json_members (Suc f) m s = Some (v, r)" for m s v r
  proof -
    obtain k u w z y where o: "length u < length s" "json_value f u = Some (w, z)"
      "length y < length z" "json_members f (obj_put k w m) y = Some (v, r) \<or>
        v = JObj (obj_put k w m) \<and> r = y"
      by (rule json_members_step [OF h])
    from o(2) Suc.IH have w: "distinct_keys w" "length z < length u" by auto
    from o(4) show ?thesis
    proof
      assume "json_members f (obj_put k w m) y = Some (v, r)"
      with Suc.IH w o(1,3) distinct_keys_put [of m w k] show ?thesis
        by (metis less_trans)
    next
      assume "v = JObj (obj_put k w m) \<and> r = y"
      with w o(1,3) distinct_keys_put [of m w k] show ?thesis by auto
    qed
  qed
  show ?case using 1 2 3 by blast
qed simp

lemma json_value_length: "json_value f s = Some (v, r) \<Longrightarrow> length r < length s"
  using json_distinct_all by blast

text \<open>\<open>JSON.parse\<close> builds objects whose keys are distinct.\<close>

lemma json_parse_distinct: "json_parse s = Inr v \<Longrightarrow> distinct_keys v"
  using json_distinct_all [of "2 * length s + 2"]
  by (auto simp: json_parse_def simp del: json_value.simps split: option.splits if_splits)

text \<open>
  With twice the length of the input as fuel a further unit changes nothing: the parser's fuel in
  \<open>json_parse\<close> is enough for every input.
\<close>

lemma json_fuel_step:
  "(\<forall>s. 2 * length s + 1 \<le> f \<longrightarrow> json_value (Suc f) s = json_value f s) \<and>
   (\<forall>s. 2 * length s + 2 \<le> f \<longrightarrow> json_elems (Suc f) s = json_elems f s) \<and>
   (\<forall>m s. 2 * length s + 2 \<le> f \<longrightarrow> json_members (Suc f) m s = json_members f m s)"
proof (induction f)
  case (Suc f)
  have V: "2 * length s + 1 \<le> f \<Longrightarrow> json_value (Suc f) s = json_value f s"
    and E: "2 * length s + 2 \<le> f \<Longrightarrow> json_elems (Suc f) s = json_elems f s"
    and M: "2 * length s + 2 \<le> f \<Longrightarrow> json_members (Suc f) m s = json_members f m s" for s m
    using Suc.IH by auto
  have 1: "json_value (Suc (Suc f)) s = json_value (Suc f) s" if "2 * length s + 1 \<le> Suc f" for s
  proof (cases "skip_ws s")
    case (Cons c t)
    then have "2 * length t + 2 \<le> f" using that skip_ws_length [of s] by simp
    with Cons show ?thesis
      unfolding json_value.simps(2) [of "Suc f"] json_value.simps(2) [of f]
      by (simp only: list.case E M)
  qed simp
  have 2: "json_elems (Suc (Suc f)) s = json_elems (Suc f) s" if l: "2 * length s + 2 \<le> Suc f" for s
  proof (cases "json_value f s")
    case None
    with V [of s] l show ?thesis
      unfolding json_elems.simps(2) [of "Suc f"] json_elems.simps(2) [of f] by simp
  next
    case (Some p)
    obtain x r where p: "p = (x, r)" by (cases p)
    have r: "length r < length s" using json_value_length Some p by blast
    have "json_elems (Suc f) t = json_elems f t" if "skip_ws r = c # t" for c t
      using that skip_ws_length [of r] r l by (intro E) simp
    with Some p V [of s] l show ?thesis
      unfolding json_elems.simps(2) [of "Suc f"] json_elems.simps(2) [of f]
      by (simp split: list.split)
  qed
  have 3: "json_members (Suc (Suc f)) m s = json_members (Suc f) m s"
    if l: "2 * length s + 2 \<le> Suc f" for m s
  proof -
    have v: "json_value (Suc f) u = json_value f u"
      if "skip_ws s = q # a" "read_body a = Some (k, t)" "skip_ws t = d # u" for q a k t d u
      using that skip_ws_length [of s] read_body_length [of a k t] skip_ws_length [of t] l
      by (intro V) simp
    have m: "json_members (Suc f) m' y = json_members f m' y"
      if "skip_ws s = q # a" "read_body a = Some (k, t)" "skip_ws t = d # u"
        "json_value f u = Some (w, z)" "skip_ws z = c # y" for q a k t d u w z c y m'
      using that skip_ws_length [of s] read_body_length [of a k t] skip_ws_length [of t]
        json_value_length [of f u w z] skip_ws_length [of z] l
      by (intro M) simp
    note eqs = json_members.simps(2) [of "Suc f"] json_members.simps(2) [of f]
    show ?thesis
    proof (cases "skip_ws s")
      case s: (Cons q a)
      show ?thesis
      proof (cases "read_body a")
        case (Some p)
        then obtain k t where t: "read_body a = Some (k, t)" by (cases p) auto
        show ?thesis
        proof (cases "skip_ws t")
          case u: (Cons d u)
          show ?thesis
          proof (cases "json_value f u")
            case None
            with s t u v [OF s t u] show ?thesis unfolding eqs by simp
          next
            case (Some wz)
            then obtain w z where z: "json_value f u = Some (w, z)" by (cases wz) auto
            show ?thesis
            proof (cases "skip_ws z")
              case y: (Cons c y)
              with s t u z v [OF s t u] m [OF s t u z y] show ?thesis unfolding eqs by simp
            qed (use s t u z v [OF s t u] in \<open>unfold eqs, simp\<close>)
          qed
        qed (use s t in \<open>unfold eqs, simp\<close>)
      qed (use s in \<open>unfold eqs, simp\<close>)
    qed (unfold eqs, simp)
  qed
  show ?case using 1 2 3 by blast
qed simp

lemma json_fuel_enough:
  "2 * length s + 1 \<le> f \<Longrightarrow> json_value f s = json_value (2 * length s + 1) s"
proof (induction f)
  case (Suc f)
  then show ?case using json_fuel_step [of f] by (cases "2 * length s + 1 = Suc f") auto
qed simp

text \<open>White space is no JSON text.\<close>

lemma json_number_start: "\<not> is_digit c \<Longrightarrow> c \<noteq> 45 \<Longrightarrow> json_number (c # r) = None"
  by (auto simp: json_number_def Let_def starts_with_single is_digit_def split: prod.split)

lemma blank_not_json:
  assumes "trim s = []"
  shows "json_parse s = Inl SyntaxError"
proof -
  have "json_value (Suc f) s = None" for f
  proof (cases "skip_ws s")
    case (Cons c r)
    then have "c \<in> set s" by (metis list.set_intros(1) set_dropWhileD skip_ws_def)
    with assms have "is_ws c" by (simp add: trim_eq_Nil)
    then have "c \<notin> {34, 91, 123, 116, 102, 110, 45}" "\<not> is_digit c" by (auto simp: is_ws_def is_digit_def)
    then show ?thesis using Cons json_number_start [of c r] by (simp add: starts_with_def)
  qed simp
  from this [of "Suc (2 * length s)"] show ?thesis by (simp add: json_parse_def)
qed

end
