(* ===== verification/StatusRisk.thy ===== *)
theory StatusRisk
  imports JsObject JsRegex
begin

text \<open>
  \<open>features/channels/lib/status-code-risk-guard.ts\<close>: the mapping of upstream status codes of a
  channel is a JSON object from codes to codes; the guard collects the entries that are not codes
  and the redirects of the gateway-timeout codes 504 and 524.
\<close>

definition NON_REDIRECTABLE_STATUS_CODES :: "int list" where
  "NON_REDIRECTABLE_STATUS_CODES = [504, 524]"

definition r_status :: rx where
  "r_status = rwhole [RChr (\<lambda>c. 49 \<le> c \<and> c \<le> 53), RChr is_digit, RChr is_digit]"

definition parseStatusCodeKey :: "jsstr \<Rightarrow> int option" where
  "parseStatusCodeKey rawKey =
     (let normalized = trim rawKey in
      if \<not> rx_test r_status normalized then None else Some (undec normalized))"

definition parseStatusCodeMappingTarget :: "json \<Rightarrow> int option" where
  "parseStatusCodeMappingTarget rawValue =
     (case rawValue of
        JNum x \<Rightarrow>
          if is_integer x \<and> num_le (Fin 100) x \<and> num_le x (Fin 599) then Some \<lfloor>val x\<rfloor> else None
      | JStr s \<Rightarrow>
          (let normalized = trim s; code = undec normalized in
           if \<not> rx_test r_status normalized then None
           else if 100 \<le> code \<and> code \<le> 599 then Some code else None)
      | _ \<Rightarrow> None)"

text \<open>The object of the mapping, \<open>[]\<close> where the source returns early.\<close>

definition mapping_entries :: "jsstr \<Rightarrow> (jsstr \<times> json) list" where
  "mapping_entries str =
     (if trim str = [] then []
      else (case json_parse str of
          Inr (JObj m) \<Rightarrow> own_entries m
        | _ \<Rightarrow> []))"

definition collectInvalidStatusCodeEntries :: "jsstr \<Rightarrow> jsstr list" where
  "collectInvalidStatusCodeEntries str =
     map (\<lambda>(k, v). k @ [32, 0x2192, 32] @ js_string v)
       (filter (\<lambda>(k, v). parseStatusCodeKey k = None \<or> parseStatusCodeMappingTarget v = None)
         (mapping_entries str))"

definition risky_mapping :: "jsstr \<times> json \<Rightarrow> jsstr option" where
  "risky_mapping e =
     (case (parseStatusCodeKey (fst e), parseStatusCodeMappingTarget (snd e)) of
        (Some f, Some t) \<Rightarrow>
          if f \<notin> set NON_REDIRECTABLE_STATUS_CODES \<or> f = t then None
          else Some (dec f @ J '' -> '' @ dec t)
      | _ \<Rightarrow> None)"

definition collectDisallowedStatusCodeRedirects :: "jsstr \<Rightarrow> jsstr list" where
  "collectDisallowedStatusCodeRedirects str =
     sort_strings (uniq (List.map_filter risky_mapping (mapping_entries str)))"

definition collectNewDisallowedStatusCodeRedirects :: "jsstr \<Rightarrow> jsstr \<Rightarrow> jsstr list" where
  "collectNewDisallowedStatusCodeRedirects originalStr currentStr =
     filter (\<lambda>m. m \<notin> set (collectDisallowedStatusCodeRedirects originalStr))
       (collectDisallowedStatusCodeRedirects currentStr)"

section \<open>Codes\<close>

lemma status_pattern:
  "rx_test r_status s \<longleftrightarrow>
     (\<exists>a b c. s = [a, b, c] \<and> 49 \<le> a \<and> a \<le> 53 \<and> is_digit b \<and> is_digit c)"
proof -
  have "rx_test r_status s \<longleftrightarrow> (case s of [a, b, c] \<Rightarrow> 49 \<le> a \<and> a \<le> 53 \<and> is_digit b \<and> is_digit c | _ \<Rightarrow> False)"
    by (auto simp: r_status_def rx_test_whole mt_rcat_Cons2 split: list.splits)
  then show ?thesis by (auto split: list.splits)
qed

lemma status_code_bounds: "rx_test r_status s \<Longrightarrow> 100 \<le> undec s \<and> undec s \<le> 599"
  by (auto simp: status_pattern undec_Cons is_digit_def)

lemma key_bounds: "parseStatusCodeKey k = Some f \<Longrightarrow> 100 \<le> f \<and> f \<le> 599"
  by (auto simp: parseStatusCodeKey_def Let_def dest: status_code_bounds split: if_splits)

lemma target_bounds: "parseStatusCodeMappingTarget v = Some t \<Longrightarrow> 100 \<le> t \<and> t \<le> 599"
proof (cases v)
  case (JNum x)
  assume "parseStatusCodeMappingTarget v = Some t"
  with JNum obtain q where "x = Fin q" "100 \<le> q" "q \<le> 599" "t = \<lfloor>q\<rfloor>"
    by (cases x) (auto simp: parseStatusCodeMappingTarget_def num_le_def num_eq_def split: if_splits)
  then show ?thesis by (simp add: le_floor_iff floor_le_iff)
qed (auto simp: parseStatusCodeMappingTarget_def Let_def split: if_splits)

lemma set_disallowed:
  "set (collectDisallowedStatusCodeRedirects s) = {m. \<exists>e \<in> set (mapping_entries s). risky_mapping e = Some m}"
  by (auto simp: collectDisallowedStatusCodeRedirects_def map_filter_def image_iff) force+

section \<open>What a text says\<close>

text \<open>The codes of HTTP, and how a key and a target name one: three digits, with or without white space
  around them, and for a target also the number.\<close>

definition http_code :: "int \<Rightarrow> bool" where
  "http_code c \<longleftrightarrow> 100 \<le> c \<and> c \<le> 599"

definition text_names :: "jsstr \<Rightarrow> int \<Rightarrow> bool" where
  "text_names s c \<longleftrightarrow> trim s = [48 + c div 100, 48 + c div 10 mod 10, 48 + c mod 10]"

definition value_names :: "json \<Rightarrow> int \<Rightarrow> bool" where
  "value_names v c \<longleftrightarrow> (case v of JStr s \<Rightarrow> text_names s c | JNum x \<Rightarrow> x = Fin (of_int c) | _ \<Rightarrow> False)"

lemma code_digits:
  assumes "http_code c"
  shows "dec c = [48 + c div 100, 48 + c div 10 mod 10, 48 + c mod 10]"
proof -
  have c: "c div 10 div 10 = c div 100" using zdiv_zmult2_eq [of 10 c 10] by simp
  have b: "\<not> c < 10" "\<not> c div 10 < 10" "c div 100 < 10" using assms unfolding http_code_def by linarith+
  show ?thesis
    unfolding dec.simps [of c] dec.simps [of "c div 10"] c dec.simps [of "c div 100"] using b by (simp only: if_False if_True append.simps)
qed

lemma status_text:
  "rx_test r_status (trim s) \<and> undec (trim s) = c \<longleftrightarrow> http_code c \<and> text_names s c"
proof
  assume a: "rx_test r_status (trim s) \<and> undec (trim s) = c"
  then obtain x y z where d: "trim s = [x, y, z]" "49 \<le> x" "x \<le> 53" "48 \<le> y" "y \<le> 57" "48 \<le> z" "z \<le> 57"
    by (auto simp: status_pattern is_digit_def)
  with a have c: "c = 100 * (x - 48) + (10 * (y - 48) + (z - 48))" by (auto simp: undec_Cons)
  have "c div 100 = x - 48" by (rule int_div_pos_eq [of _ _ _ "10 * (y - 48) + (z - 48)"]) (use c d in auto)
  moreover have "c div 10 = 10 * (x - 48) + (y - 48)" by (rule int_div_pos_eq [of _ _ _ "z - 48"]) (use c d in auto)
  moreover have "(10 * (x - 48) + (y - 48)) mod 10 = y - 48" by (rule int_mod_pos_eq [of _ _ "x - 48"]) (use d in auto)
  moreover have "c mod 10 = z - 48" by (rule int_mod_pos_eq [of _ _ "10 * (x - 48) + (y - 48)"]) (use c d in auto)
  ultimately have "c div 100 = x - 48" "c div 10 mod 10 = y - 48" "c mod 10 = z - 48" by simp_all
  with a d show "http_code c \<and> text_names s c"
    using status_code_bounds [of "trim s"] by (simp add: http_code_def text_names_def)
next
  assume a: "http_code c \<and> text_names s c"
  then have t: "trim s = dec c" by (simp add: code_digits text_names_def)
  have "1 \<le> c div 100" "c div 100 \<le> 5" "0 \<le> c div 10 mod 10" "c div 10 mod 10 \<le> 9" "0 \<le> c mod 10" "c mod 10 \<le> 9"
    using a by (auto simp: http_code_def)
  with a have "rx_test r_status (trim s)" by (simp add: status_pattern text_names_def is_digit_def)
  with t a show "rx_test r_status (trim s) \<and> undec (trim s) = c" by (simp add: undec_dec http_code_def)
qed

lemma parse_key: "parseStatusCodeKey k = Some c \<longleftrightarrow> http_code c \<and> text_names k c"
  unfolding status_text [symmetric] by (auto simp: parseStatusCodeKey_def Let_def)

lemma parse_target: "parseStatusCodeMappingTarget v = Some c \<longleftrightarrow> http_code c \<and> value_names v c"
proof (cases v)
  case (JNum x)
  show ?thesis
  proof (cases x)
    case (Fin q)
    have "num_le (Fin 100) (Fin q) \<longleftrightarrow> 100 \<le> q" "num_le (Fin q) (Fin 599) \<longleftrightarrow> q \<le> 599"
      by (auto simp: num_le_def num_eq_def)
    moreover have "(of_int c :: rat) \<le> 599 \<longleftrightarrow> c \<le> 599" "(100 :: rat) \<le> of_int c \<longleftrightarrow> 100 \<le> c"
      by (simp_all only: of_int_le_numeral_iff of_int_numeral_le_iff)
    ultimately show ?thesis using JNum Fin
      by (auto simp: parseStatusCodeMappingTarget_def value_names_def http_code_def)
  qed (use JNum in \<open>auto simp: parseStatusCodeMappingTarget_def value_names_def num_le_def num_eq_def\<close>)
next
  case (JStr s)
  then have "parseStatusCodeMappingTarget v = Some c \<longleftrightarrow> rx_test r_status (trim s) \<and> undec (trim s) = c"
    using status_code_bounds [of "trim s"] by (auto simp: parseStatusCodeMappingTarget_def Let_def)
  with JStr show ?thesis by (simp add: status_text value_names_def)
qed (auto simp: parseStatusCodeMappingTarget_def value_names_def)

text \<open>The entries of the mapping; a blank text is no JSON, so the early return changes nothing.\<close>

lemma entry_of_object: "e \<in> set (mapping_entries s) \<longleftrightarrow> (\<exists>m. json_parse s = Inr (JObj m) \<and> e \<in> set m)"
proof (cases "json_parse s")
  case (Inr v)
  with blank_not_json [of s] have "trim s \<noteq> []" by auto
  with Inr show ?thesis by (cases v) (simp_all add: mapping_entries_def)
qed (simp add: mapping_entries_def)

section \<open>Properties\<close>

text \<open>C30. The guard reports exactly the redirects of 504 or 524 that the mapping holds: it reports
  \<open>f -> t\<close> when the text is a JSON object with an entry whose key is the three digits of \<open>f\<close> and whose
  value is the number \<open>t\<close> or a text of its three digits, where \<open>f\<close> is 504 or 524 and \<open>t\<close> another code
  from 100 to 599. White space around the digits does not matter. Each redirect is reported once.\<close>

theorem disallowed_redirects_exact:
  "(m \<in> set (collectDisallowedStatusCodeRedirects s) \<longleftrightarrow>
     (\<exists>entries k v f t. json_parse s = Inr (JObj entries) \<and> (k, v) \<in> set entries
        \<and> (f = 504 \<or> f = 524) \<and> text_names k f
        \<and> 100 \<le> t \<and> t \<le> 599 \<and> value_names v t \<and> f \<noteq> t \<and> m = dec f @ J '' -> '' @ dec t))
   \<and> sorted (collectDisallowedStatusCodeRedirects s)
   \<and> distinct (collectDisallowedStatusCodeRedirects s)"
proof -
  have risky: "risky_mapping (k, v) = Some m \<longleftrightarrow>
     (\<exists>f t. (f = 504 \<or> f = 524) \<and> text_names k f \<and> 100 \<le> t \<and> t \<le> 599 \<and> value_names v t
        \<and> f \<noteq> t \<and> m = dec f @ J '' -> '' @ dec t)" for k v
  proof -
    have "risky_mapping (k, v) = Some m \<longleftrightarrow>
      (\<exists>f t. parseStatusCodeKey k = Some f \<and> parseStatusCodeMappingTarget v = Some t
        \<and> (f = 504 \<or> f = 524) \<and> f \<noteq> t \<and> m = dec f @ J '' -> '' @ dec t)"
      by (auto simp: risky_mapping_def NON_REDIRECTABLE_STATUS_CODES_def split: option.splits)
    also have "\<dots> \<longleftrightarrow> (\<exists>f t. (f = 504 \<or> f = 524) \<and> text_names k f \<and> 100 \<le> t \<and> t \<le> 599 \<and> value_names v t
        \<and> f \<noteq> t \<and> m = dec f @ J '' -> '' @ dec t)"
      unfolding parse_key parse_target
    proof (intro iff_exI)
      have "f = 504 \<or> f = 524 \<Longrightarrow> http_code f" for f by (auto simp: http_code_def)
      then show "(http_code f \<and> text_names k f) \<and> (http_code t \<and> value_names v t) \<and> (f = 504 \<or> f = 524) \<and> f \<noteq> t \<and>
          m = dec f @ J '' -> '' @ dec t \<longleftrightarrow>
        (f = 504 \<or> f = 524) \<and> text_names k f \<and> 100 \<le> t \<and> t \<le> 599 \<and> value_names v t \<and> f \<noteq> t \<and>
          m = dec f @ J '' -> '' @ dec t" for f t
        unfolding http_code_def [of t] by blast
    qed
    finally show ?thesis .
  qed
  have "m \<in> set (collectDisallowedStatusCodeRedirects s) \<longleftrightarrow>
      (\<exists>entries k v. json_parse s = Inr (JObj entries) \<and> (k, v) \<in> set entries \<and> risky_mapping (k, v) = Some m)"
    unfolding set_disallowed mem_Collect_eq Bex_def entry_of_object split_paired_Ex by blast
  then have "m \<in> set (collectDisallowedStatusCodeRedirects s) \<longleftrightarrow>
     (\<exists>entries k v f t. json_parse s = Inr (JObj entries) \<and> (k, v) \<in> set entries
        \<and> (f = 504 \<or> f = 524) \<and> text_names k f
        \<and> 100 \<le> t \<and> t \<le> 599 \<and> value_names v t \<and> f \<noteq> t \<and> m = dec f @ J '' -> '' @ dec t)" unfolding risky by (simp only: ex_simps)
  then show ?thesis by (simp add: collectDisallowedStatusCodeRedirects_def del: J_Cons)
qed

theorem disallowed_redirects_exact_witness:
  "J ''504 -> 200'' \<in> set (collectDisallowedStatusCodeRedirects (J ''{\"504\": \" 200\", \"404\": 200}''))"
proof -
  let ?s = "J ''{\"504\": \" 200\", \"404\": 200}''" and ?m = "[(J ''504'', JStr (J '' 200'')), (J ''404'', JNum (Fin 200))]"
  have p: "json_parse ?s = Inr (JObj ?m)" by code_simp
  have n: "text_names (J ''504'') 504" "value_names (JStr (J '' 200'')) 200" by code_simp+
  have m: "(J ''504'', JStr (J '' 200'')) \<in> set ?m" by simp
  have t: "J ''504 -> 200'' = dec 504 @ J '' -> '' @ dec 200" by code_simp
  have "\<exists>entries k v f t. json_parse ?s = Inr (JObj entries) \<and> (k, v) \<in> set entries
        \<and> (f = 504 \<or> f = 524) \<and> text_names k f \<and> 100 \<le> t \<and> t \<le> 599 \<and> value_names v t \<and> f \<noteq> t
        \<and> J ''504 -> 200'' = dec f @ J '' -> '' @ dec t"
    by (rule exI [of _ ?m], rule exI [of _ "J ''504''"], rule exI [of _ "JStr (J '' 200'')"], rule exI [of _ 504], rule exI [of _ 200])
      (use p m n t in \<open>simp del: J_Cons\<close>)
  with disallowed_redirects_exact [of "J ''504 -> 200''" ?s] show ?thesis by blast
qed

text \<open>Saving a mapping unchanged never asks for confirmation, and the new redirects are the
  current ones that the original mapping did not hold.\<close>

theorem new_redirects_are_the_difference:
  "collectNewDisallowedStatusCodeRedirects s s = []
   \<and> set (collectNewDisallowedStatusCodeRedirects a b) =
       set (collectDisallowedStatusCodeRedirects b) - set (collectDisallowedStatusCodeRedirects a)
   \<and> distinct (collectNewDisallowedStatusCodeRedirects a b)"
  by (auto simp: collectNewDisallowedStatusCodeRedirects_def filter_empty_conv
      collectDisallowedStatusCodeRedirects_def)

end
