(* ===== verification/ChannelModels.thy ===== *)
theory ChannelModels
  imports JsObject Splitter
begin

text \<open>
  The model lists of a channel: \<open>features/channels/lib/model-mapping-validation.ts\<close>, which relates
  the list of models to the JSON object that redirects model names, the upstream update metadata of
  \<open>upstream-update-utils.ts\<close>, and the key actions of \<open>multi-key-utils.ts\<close>.

  Arrays made from a \<open>Set\<close> are lists without duplicates, in the order of insertion.
\<close>

section \<open>Model lists\<close>

definition parseModelsString :: "jsstr \<Rightarrow> jsstr list" where
  "parseModelsString modelsStr = (if modelsStr \<noteq> [] then comma_segments modelsStr else [])"

definition formatModelsArray :: "jsstr list \<Rightarrow> jsstr" where
  "formatModelsArray models = join (J '','') (uniq models)"

definition normalizeModelName :: "jsstr \<Rightarrow> jsstr" where
  "normalizeModelName model = trim model"

section \<open>The mapping\<close>

text \<open>\<open>JSON.parse\<close> of a text that should be an object; \<open>None\<close> for the early \<open>[]\<close>.\<close>

definition parse_object :: "jsstr \<Rightarrow> (jsstr \<times> json) list option" where
  "parse_object s = (case json_parse s of Inr (JObj m) \<Rightarrow> Some m | _ \<Rightarrow> None)"

definition extractMappingSourceModels :: "jsstr \<Rightarrow> jsstr list" where
  "extractMappingSourceModels modelMapping =
     (let trimmed = trim modelMapping in
      if trimmed = [] then []
      else (case parse_object trimmed of
          None \<Rightarrow> []
        | Some m \<Rightarrow> uniq (nonempty (map trim (own_keys m)))))"

definition string_value :: "json \<Rightarrow> jsstr" where
  "string_value v = (case v of JStr s \<Rightarrow> trim s | _ \<Rightarrow> [])"

definition extractRedirectModels :: "jsstr \<Rightarrow> jsstr list" where
  "extractRedirectModels modelMapping =
     (let trimmed = trim modelMapping in
      if trimmed = [] then []
      else (case parse_object trimmed of
          None \<Rightarrow> []
        | Some m \<Rightarrow> uniq (nonempty (map (\<lambda>e. string_value (snd e)) (own_entries m)))))"

definition hasModelConfigChanged :: "jsstr list \<Rightarrow> jsstr \<Rightarrow> jsstr list \<Rightarrow> jsstr \<Rightarrow> bool" where
  "hasModelConfigChanged currentModels currentModelMapping initialModels initialModelMapping \<longleftrightarrow>
     (if initialModels = [] \<and> initialModelMapping = [] then True
      else if length currentModels \<noteq> length initialModels then True
      else if list_ex (\<lambda>i. currentModels ! i \<noteq> initialModels ! i) [0..<length currentModels] then True
      else trim currentModelMapping \<noteq> trim initialModelMapping)"

definition findMissingModelsInMapping :: "jsstr \<Rightarrow> jsstr list \<Rightarrow> jsstr list" where
  "findMissingModelsInMapping modelMapping currentModels =
     (if trim modelMapping = [] then []
      else (case parse_object modelMapping of
          None \<Rightarrow> []
        | Some m \<Rightarrow>
            uniq (filter (\<lambda>k. k \<noteq> [] \<and> k \<notin> set (map normalizeModelName currentModels))
              (map normalizeModelName (own_keys m)))))"

record mapping_check =
  mc_valid :: bool
  mc_error :: "jsstr option"

definition validateModelMappingJson :: "jsstr \<Rightarrow> mapping_check" where
  "validateModelMappingJson modelMapping =
     (if trim modelMapping = [] then \<lparr>mc_valid = True, mc_error = None\<rparr>
      else (case json_parse modelMapping of
          Inl _ \<Rightarrow> \<lparr>mc_valid = False, mc_error = Some (J ''Model mapping must be valid JSON format'')\<rparr>
        | Inr (JObj m) \<Rightarrow> \<lparr>mc_valid = True, mc_error = None\<rparr>
        | Inr _ \<Rightarrow>
            \<lparr>mc_valid = False, mc_error = Some (J ''Model mapping must be a valid JSON object'')\<rparr>))"

definition findExposedTargetModels :: "jsstr \<Rightarrow> jsstr list \<Rightarrow> jsstr list" where
  "findExposedTargetModels modelMapping currentModels =
     filter (\<lambda>m. normalizeModelName m \<in> set (map normalizeModelName currentModels))
       (extractRedirectModels modelMapping)"

record model_categories =
  mcat_current :: "jsstr list"
  mcat_redirect :: "jsstr list"
  mcat_classification :: "jsstr list"
  mcat_redirectOnly :: "jsstr list"

definition categorizeModelsWithRedirect :: "jsstr list \<Rightarrow> jsstr list \<Rightarrow> model_categories" where
  "categorizeModelsWithRedirect currentModels redirectModels =
     (let cur = uniq (nonempty (map normalizeModelName currentModels));
          red = uniq (nonempty (map normalizeModelName redirectModels))
      in \<lparr>mcat_current = cur, mcat_redirect = red, mcat_classification = uniq (cur @ red),
          mcat_redirectOnly = uniq (filter (\<lambda>m. m \<notin> set cur) red)\<rparr>)"

section \<open>Upstream updates\<close>

definition normalizeModelList :: "json list \<Rightarrow> jsstr list" where
  "normalizeModelList models =
     uniq (nonempty (map (\<lambda>m. trim (if json_truthy m then js_string m else [])) models))"

text \<open>
  \<open>normalizeModelList((parsed.k as unknown[]) || [])\<close>: a value that is there, is truthy and is not
  an array has no method \<open>map\<close>.
\<close>

definition model_list_property :: "(jsstr \<times> json) list \<Rightarrow> jsstr \<Rightarrow> jsstr list js" where
  "model_list_property m k =
     (case map_of m k of
        None \<Rightarrow> Inr []
      | Some v \<Rightarrow>
          if \<not> json_truthy v then Inr []
          else (case v of JArr xs \<Rightarrow> Inr (normalizeModelList xs) | _ \<Rightarrow> Inl TypeError))"

record upstream_meta =
  um_enabled :: bool
  um_pendingAdd :: "jsstr list"
  um_pendingRemove :: "jsstr list"

definition no_updates :: upstream_meta where
  "no_updates = \<lparr>um_enabled = False, um_pendingAdd = [], um_pendingRemove = []\<rparr>"

text \<open>The properties of an array have none of these names.\<close>

definition parsed_settings :: "json \<Rightarrow> (jsstr \<times> json) list option" where
  "parsed_settings settings =
     (case settings of
        JObj m \<Rightarrow> Some m
      | JStr s \<Rightarrow> (case json_parse s of Inr (JObj m) \<Rightarrow> Some m | Inr (JArr _) \<Rightarrow> Some [] | _ \<Rightarrow> None)
      | _ \<Rightarrow> None)"

definition parseUpstreamUpdateMeta :: "json \<Rightarrow> upstream_meta js" where
  "parseUpstreamUpdateMeta settings =
     (case parsed_settings settings of
        None \<Rightarrow> Inr no_updates
      | Some m \<Rightarrow>
          js_bind (model_list_property m (J ''upstream_model_update_last_detected_models'')) (\<lambda>add.
            js_bind (model_list_property m (J ''upstream_model_update_last_removed_models'')) (\<lambda>rem.
              Inr \<lparr>um_enabled =
                     (map_of m (J ''upstream_model_update_check_enabled'') = Some (JBool True)),
                   um_pendingAdd = add, um_pendingRemove = rem\<rparr>)))"

section \<open>Keys\<close>

datatype key_action = KEnable | KDisable | KDelete | KEnableAll | KDisableAll | KDeleteDisabled

text \<open>Variant and label of the badge of a key's status: 1 enabled, 2 disabled, 3 banned.\<close>

definition getMultiKeyStatusConfig :: "int \<Rightarrow> jsstr \<times> jsstr" where
  "getMultiKeyStatusConfig status =
     (if status = 1 then (J ''success'', J ''Enabled'')
      else if status = 2 then (J ''neutral'', J ''Manual Disabled'')
      else if status = 3 then (J ''danger'', J ''Auto Disabled'')
      else (J ''neutral'', J ''Unknown''))"

definition getMultiKeyConfirmMessage :: "key_action option \<Rightarrow> jsstr" where
  "getMultiKeyConfirmMessage action =
     (case action of
        None \<Rightarrow> []
      | Some KDelete \<Rightarrow> J ''Are you sure you want to delete this key? This action cannot be undone.''
      | Some KEnable \<Rightarrow> J ''Enable this key?''
      | Some KDisable \<Rightarrow> J ''Disable this key?''
      | Some KEnableAll \<Rightarrow> J ''Are you sure you want to enable all keys?''
      | Some KDisableAll \<Rightarrow> J ''Are you sure you want to disable all enabled keys?''
      | Some KDeleteDisabled \<Rightarrow>
          J ''Are you sure you want to delete all auto-disabled keys? This action cannot be undone.'')"

definition isDestructiveAction :: "key_action option \<Rightarrow> bool" where
  "isDestructiveAction action \<longleftrightarrow> action \<in> {Some KDelete, Some KDeleteDisabled, Some KDisableAll}"

section \<open>Properties\<close>

lemma parseModelsString_eq: "parseModelsString s = comma_segments s"
  by (simp add: parseModelsString_def commas.split_Nil)

lemma uniq_parts: "list_all comma_part xs \<Longrightarrow> x \<in> set (uniq xs) \<Longrightarrow> comma_part x"
  by (simp add: list_all_iff)

lemma uniq_eq_Nil [simp]: "uniq xs = [] \<longleftrightarrow> xs = []"
  by (cases xs) auto

text \<open>A list of model names, none of them empty, padded or with a comma, survives being
  formatted for the form and parsed again, up to its duplicates.\<close>

theorem model_list_round_trip:
  assumes "list_all comma_part ms"
  shows "parseModelsString (formatModelsArray ms) = uniq ms"
proof (cases "ms = []")
  case True
  then show ?thesis by (simp add: parseModelsString_def formatModelsArray_def)
next
  case False
  with uniq_parts [OF assms] commas.split_join [of "uniq ms"] show ?thesis
    by (simp add: parseModelsString_eq formatModelsArray_def)
qed

theorem model_list_round_trip_witness:
  "parseModelsString (formatModelsArray [J ''gpt-4o'', J ''o3 mini'', J ''gpt-4o'']) = [J ''gpt-4o'', J ''o3 mini'']"
proof -
  have "parseModelsString (formatModelsArray [J ''gpt-4o'', J ''o3 mini'', J ''gpt-4o''])
      = uniq [J ''gpt-4o'', J ''o3 mini'', J ''gpt-4o'']"
    by (rule model_list_round_trip) code_simp
  then show ?thesis by simp
qed

lemma missing_iff:
  "x \<in> set (findMissingModelsInMapping mm cur) \<longleftrightarrow>
     trim mm \<noteq> [] \<and> x \<noteq> [] \<and> x \<notin> trim ` set cur \<and>
     (\<exists>m. parse_object mm = Some m \<and> x \<in> trim ` fst ` set m)"
proof (cases "parse_object mm")
  case (Some m)
  have "set (map normalizeModelName (own_keys m)) = trim ` fst ` set m"
    by (simp add: normalizeModelName_def image_image)
  with Some show ?thesis
    unfolding findMissingModelsInMapping_def by (auto simp: normalizeModelName_def)
qed (simp add: findMissingModelsInMapping_def)

text \<open>C37. The models reported as missing are exactly the source names of the mapping that the model
  list does not hold, and adding them to the list leaves none missing.\<close>

theorem missing_models_complete:
  "(x \<in> set (findMissingModelsInMapping mm cur) \<longleftrightarrow>
     trim mm \<noteq> [] \<and> x \<noteq> [] \<and> x \<notin> trim ` set cur \<and>
     (\<exists>m. parse_object mm = Some m \<and> x \<in> trim ` fst ` set m))
   \<and> findMissingModelsInMapping mm (cur @ findMissingModelsInMapping mm cur) = []"
proof -
  let ?miss = "findMissingModelsInMapping mm cur"
  have "y \<notin> set (findMissingModelsInMapping mm (cur @ ?miss))" for y
  proof
    assume y: "y \<in> set (findMissingModelsInMapping mm (cur @ ?miss))"
    then have "y \<in> set ?miss" "y \<notin> trim ` set ?miss"
      unfolding missing_iff set_append image_Un by blast+
    moreover from this(1) have "trim y = y" unfolding missing_iff by force
    ultimately show False by force
  qed
  then have "findMissingModelsInMapping mm (cur @ ?miss) = []"
    by (meson list.set_sel(1))
  then show ?thesis using missing_iff by blast
qed

text \<open>Removing the exposed redirect targets from the model list leaves none exposed.\<close>

lemma exposed_targets_removed:
  "findExposedTargetModels mm
     (filter (\<lambda>m. trim m \<notin> set (findExposedTargetModels mm cur)) cur) = []"
proof -
  have t: "trim m = m" if "m \<in> set (extractRedirectModels mm)" for m
    using that by (auto simp: extractRedirectModels_def Let_def string_value_def
        split: if_splits option.splits json.splits)
  show ?thesis
    using t by (auto simp: findExposedTargetModels_def filter_empty_conv normalizeModelName_def)
qed

text \<open>The classification is the disjoint union of the current models and of the models that are
  only redirected to.\<close>

theorem classification_partition:
  "let c = categorizeModelsWithRedirect cur red in
     set (mcat_classification c) = set (mcat_current c) \<union> set (mcat_redirectOnly c)
     \<and> set (mcat_current c) \<inter> set (mcat_redirectOnly c) = {}
     \<and> distinct (mcat_classification c)
     \<and> length (mcat_classification c) = length (mcat_current c) + length (mcat_redirectOnly c)"
proof -
  let ?c = "categorizeModelsWithRedirect cur red"
  have u: "set (mcat_classification ?c) = set (mcat_current ?c) \<union> set (mcat_redirectOnly ?c)"
    and d: "set (mcat_current ?c) \<inter> set (mcat_redirectOnly ?c) = {}"
    and dist: "distinct (mcat_classification ?c)" "distinct (mcat_current ?c)" "distinct (mcat_redirectOnly ?c)"
    by (auto simp: categorizeModelsWithRedirect_def Let_def)
  have "length (mcat_classification ?c) = card (set (mcat_current ?c) \<union> set (mcat_redirectOnly ?c))"
    using dist(1) u by (metis distinct_card)
  also have "\<dots> = length (mcat_current ?c) + length (mcat_redirectOnly ?c)"
    using d dist(2,3) by (simp add: card_Un_disjoint distinct_card)
  finally show ?thesis using u d dist by (simp add: Let_def)
qed

text \<open>The metadata reader throws on settings whose list of detected models is a text, a non-zero
  number, \<open>true\<close> or an object: only its JSON is guarded, not its shape.\<close>

theorem upstream_meta_throws:
  assumes "parsed_settings s = Some m"
    and "map_of m (J ''upstream_model_update_last_detected_models'') = Some v"
    and "json_truthy v" "\<nexists>xs. v = JArr xs"
  shows "parseUpstreamUpdateMeta s = Inl TypeError"
proof -
  have "model_list_property m (J ''upstream_model_update_last_detected_models'') = Inl TypeError"
    using assms(2-4) by (cases v) (simp_all add: model_list_property_def del: J_Cons)
  with assms(1) show ?thesis by (simp add: parseUpstreamUpdateMeta_def del: J_Cons)
qed

theorem upstream_meta_throws_witness:
  "parseUpstreamUpdateMeta (JObj [(J ''upstream_model_update_last_detected_models'', JStr (J ''gpt-4o''))])
    = Inl TypeError"
  by (rule upstream_meta_throws [of _ "[(J ''upstream_model_update_last_detected_models'', JStr (J ''gpt-4o''))]"
        "JStr (J ''gpt-4o'')"]) (simp_all add: parsed_settings_def)

text \<open>Where the lists are arrays or absent the reader returns, and the models it reports are
  trimmed, not empty and without duplicates.\<close>

lemma upstream_meta_normalized:
  assumes "parseUpstreamUpdateMeta s = Inr r"
  shows "list_all (\<lambda>m. m \<noteq> [] \<and> trimmed m) (um_pendingAdd r @ um_pendingRemove r)
    \<and> distinct (um_pendingAdd r) \<and> distinct (um_pendingRemove r)"
proof -
  have "list_all (\<lambda>m. m \<noteq> [] \<and> trimmed m) (normalizeModelList xs) \<and> distinct (normalizeModelList xs)" for xs
    by (auto simp: normalizeModelList_def list_all_iff)
  then have "list_all (\<lambda>m. m \<noteq> [] \<and> trimmed m) ys \<and> distinct ys"
    if "model_list_property m k = Inr ys" for m k ys
    using that by (auto simp: model_list_property_def split: option.splits if_splits json.splits)
  with assms show ?thesis
    by (fastforce simp: parseUpstreamUpdateMeta_def no_updates_def js_bind_eq_Inr split: option.splits)
qed

theorem upstream_meta_normalized_witness:
  "let s = JObj [(J ''upstream_model_update_last_detected_models'', JArr [JStr (J '' a ''), JNull, JStr (J ''a'')])];
       r = \<lparr>um_enabled = False, um_pendingAdd = [J ''a''], um_pendingRemove = []\<rparr>
   in parseUpstreamUpdateMeta s = Inr r
      \<and> list_all (\<lambda>m. m \<noteq> [] \<and> trimmed m) (um_pendingAdd r @ um_pendingRemove r)
      \<and> distinct (um_pendingAdd r) \<and> distinct (um_pendingRemove r)"
proof -
  let ?s = "JObj [(J ''upstream_model_update_last_detected_models'', JArr [JStr (J '' a ''), JNull, JStr (J ''a'')])]"
  have "parseUpstreamUpdateMeta ?s = Inr \<lparr>um_enabled = False, um_pendingAdd = [J ''a''], um_pendingRemove = []\<rparr>"
    by code_simp
  with upstream_meta_normalized [OF this] show ?thesis unfolding Let_def by blast
qed

end
