(* ===== verification/JsFixed.thy ===== *)
theory JsFixed
  imports JsNumStr
begin

text \<open>
  What \<open>Number(x.toFixed(d))\<close> is: the number nearest to \<open>x\<close> rounded to \<open>d\<close> decimals, halves
  away from zero. It stays between the integers that \<open>x\<close> was between.
\<close>

definition fixed_val :: "nat \<Rightarrow> rat \<Rightarrow> rat" where
  "fixed_val d x = of_int \<lfloor>x * 10 ^ d + 1 / 2\<rfloor> * pow10 (- int d)"

lemma pow10_neg_nat: "pow10 (- int d) = 1 / 10 ^ d"
  by (simp add: pow10_def power_int_minus inverse_eq_divide)

lemma fixed_val_nonneg: "0 \<le> x \<Longrightarrow> 0 \<le> fixed_val d x"
  by (simp add: fixed_val_def pow10_neg_nat)

lemma fixed_val_le:
  assumes "x \<le> of_int b"
  shows "fixed_val d x \<le> of_int b"
proof -
  have "x * 10 ^ d \<le> of_int (b * 10 ^ d)" using assms by (simp add: mult_right_mono)
  then have "x * 10 ^ d + 1 / 2 < of_int (b * 10 ^ d) + 1" by linarith
  then have "\<lfloor>x * 10 ^ d + 1 / 2\<rfloor> \<le> b * 10 ^ d" by (simp add: floor_le_iff)
  then have "(of_int \<lfloor>x * 10 ^ d + 1 / 2\<rfloor> :: rat) \<le> of_int (b * 10 ^ d)" by (simp only: of_int_le_iff)
  then show ?thesis by (simp add: fixed_val_def pow10_neg_nat field_simps)
qed

lemma fixed_layout:
  assumes "0 \<le> x"
  shows "read_decimal (fixed_pos d x) = Some (fixed_val d x, [])"
    and "\<exists>c t. fixed_pos d x = c # t \<and> is_digit c \<and> list_all num_char t \<and>
           (t = [] \<or> is_digit (hd t) \<or> hd t = 46)"
proof -
  define n where "n = \<lfloor>x * 10 ^ d + 1 / 2\<rfloor>"
  have n: "0 \<le> n" using assms by (simp add: n_def)
  define p where "p = replicate (Suc d - length (dec n)) 48 @ dec n"
  have pd: "list_all is_digit p" using dec_digits [OF n] by (auto simp: p_def list_all_iff is_digit_def)
  have pu: "undec p = n" using undec_dec [OF n] by (simp add: p_def undec_append)
  have pl: "d < length p" by (simp add: p_def)
  have w: "fixed_pos d x = (if d = 0 then dec n else take (length p - d) p @ 46 # drop (length p - d) p @ [])"
    by (simp add: fixed_pos_def Let_def n_def p_def)
  have parts: "list_all is_digit (take i p)" "list_all is_digit (drop i p)" for i
    using pd by (auto simp: list_all_iff dest: in_set_takeD in_set_dropD)
  have one: "take (length p - d) p \<noteq> []" using pl by auto
  show "read_decimal (fixed_pos d x) = Some (fixed_val d x, [])"
  proof (cases "d = 0")
    case True
    then show ?thesis
      using w read_decimal_tail [OF dec_digits [OF n] dec_nonempty, of "[]"] undec_dec [OF n]
      by (simp add: fixed_val_def n_def)
  next
    case False
    then show ?thesis
      using w read_decimal_frac_tail [OF parts(1) parts(2) one, of "[]"] pu pl
      by (simp add: fixed_val_def n_def)
  qed
  have nc: "list_all num_char u" if "list_all is_digit u" for u
    using that by (simp add: list_all_iff num_char_def)
  show "\<exists>c t. fixed_pos d x = c # t \<and> is_digit c \<and> list_all num_char t \<and>
           (t = [] \<or> is_digit (hd t) \<or> hd t = 46)"
  proof (cases "d = 0")
    case True
    obtain c t where "dec n = c # t" "is_digit c" "list_all is_digit t"
      using digits_hd [OF dec_digits [OF n] dec_nonempty] dec_digits [OF n] by auto
    with True w nc [of t] show ?thesis by (cases t) auto
  next
    case False
    obtain c t where ct: "take (length p - d) p = c # t" "is_digit c" "list_all is_digit t"
      using digits_hd [OF parts(1) one] parts(1) [of "length p - d"] by auto
    then have "fixed_pos d x = c # t @ 46 # drop (length p - d) p" using False w by simp
    moreover have "list_all num_char (t @ 46 # drop (length p - d) p)"
      using nc [OF ct(3)] nc [OF parts(2)] by (simp add: num_char_def)
    moreover have "is_digit (hd (t @ 46 # drop (length p - d) p)) \<or>
        hd (t @ 46 # drop (length p - d) p) = 46" using ct(3) by (cases t) auto
    ultimately show ?thesis using ct(2) by blast
  qed
qed

lemma to_number_fixed:
  assumes "0 \<le> x"
  shows "to_number (fixed_pos d x) = rnd_sg False (fixed_val d x)"
    and "to_number (45 # fixed_pos d x) = rnd_sg True (fixed_val d x)"
proof -
  obtain c t where c: "fixed_pos d x = c # t" "is_digit c" "list_all num_char t"
    "t = [] \<or> is_digit (hd t) \<or> hd t = 46" using fixed_layout(2) [OF assms] by blast
  note r = fixed_layout(1) [OF assms, of d]
  have tr: "trim (c # t) = c # t" "trim (45 # c # t) = 45 # c # t"
    using c by (auto intro!: trim_num_chars simp: num_char_def)
  have "read_radix (c # t) = None"
    using c(4) by (auto simp: read_radix_def is_digit_def split: list.splits)
  moreover have "read_signed (c # t) = Some (rnd_sg False (fixed_val d x), [])"
    using r c(1,2) by (auto simp: read_signed_def starts_with_def is_digit_def)
  ultimately show "to_number (fixed_pos d x) = rnd_sg False (fixed_val d x)"
    using c(1) tr by (simp add: to_number_def)
  have "read_radix (45 # c # t) = None" by (simp add: read_radix_def split: list.splits)
  moreover have "read_signed (45 # c # t) = Some (rnd_sg True (fixed_val d x), [])"
    using r c(1,2) by (auto simp: read_signed_def starts_with_def is_digit_def)
  ultimately show "to_number (45 # fixed_pos d x) = rnd_sg True (fixed_val d x)"
    using c(1) tr by (simp add: to_number_def)
qed

lemma to_number_to_fixed:
  assumes "\<bar>q\<bar> < 10 ^ 21"
  shows "to_number (to_fixed d (Fin q)) = rnd_sg (q < 0) (fixed_val d \<bar>q\<bar>)"
  using assms to_number_fixed [of "\<bar>q\<bar>" d] by (auto simp: not_le)

text \<open>Bounds that are integers survive the rounding.\<close>

lemma rnd_sg_True: "rnd_sg True a = num_neg (rnd_sg False a)"
  by (simp add: rnd_sg_def zero_of_def inf_of_def Let_def)

lemma rnd_sg_int: "0 \<le> b \<Longrightarrow> b \<le> 2 ^ 53 \<Longrightarrow> rnd_sg False (of_int b) = Fin (of_int b)"
  using rnd_of_int [of b] by (simp add: rnd_def)

lemma rnd_sg_between:
  assumes "0 \<le> a" "a \<le> of_int b" "b \<le> 2 ^ 53"
  shows "\<exists>v. rnd_sg False a = Fin v \<and> 0 \<le> v \<and> v \<le> of_int b"
proof -
  have b: "0 \<le> b" using assms(1,2) by (metis of_int_0_le_iff order_trans)
  have "num_le (rnd_sg False a) (Fin (of_int b))"
    using rnd_sg_mono [OF assms(1,2)] rnd_sg_int [OF b assms(3)] by simp
  moreover have "nonneg (rnd_sg False a)" by simp
  ultimately show ?thesis by (cases "rnd_sg False a") (auto simp: num_le_def num_eq_def)
qed

lemma fixed_between:
  assumes "of_int a \<le> q" "q \<le> of_int b" "a \<le> 0" "0 \<le> b" "\<bar>a\<bar> \<le> 2 ^ 53" "\<bar>b\<bar> \<le> 2 ^ 53"
  shows "num_le (Fin (of_int a)) (to_number (to_fixed d (Fin q))) \<and>
    num_le (to_number (to_fixed d (Fin q))) (Fin (of_int b))"
proof -
  have "- 9007199254740992 \<le> a" "b \<le> 9007199254740992" using assms(5,6) by simp_all
  then have "(of_int (- 9007199254740992) :: rat) \<le> of_int a" "(of_int b :: rat) \<le> of_int 9007199254740992"
    by (simp_all only: of_int_le_iff)
  with assms(1,2) have "\<bar>q\<bar> \<le> 9007199254740992" by (simp add: abs_le_iff)
  then have q: "\<bar>q\<bar> < 10 ^ 21" by simp
  show ?thesis
  proof (cases "q < 0")
    case True
    have "fixed_val d (- q) \<le> of_int (- a)" using assms(1) by (intro fixed_val_le) simp
    moreover have "0 \<le> fixed_val d (- q)" using True by (intro fixed_val_nonneg) simp
    ultimately obtain v where v: "rnd_sg False (fixed_val d (- q)) = Fin v" "0 \<le> v" "v \<le> of_int (- a)"
      using rnd_sg_between [of "fixed_val d (- q)" "- a"] assms(5) by auto
    have "to_number (to_fixed d (Fin q)) = num_neg (Fin v)"
      using to_number_to_fixed [OF q, of d] True v(1) by (simp add: rnd_sg_True)
    moreover have "(of_int a :: rat) \<le> - v" "- v \<le> (of_int b :: rat)"
      using v assms(4) by simp_all
    ultimately show ?thesis using assms(3,4) by (auto simp: num_le_def num_eq_def)
  next
    case False
    then have "fixed_val d q \<le> of_int b" "0 \<le> fixed_val d q"
      using assms(2) fixed_val_le fixed_val_nonneg by auto
    then obtain v where v: "rnd_sg False (fixed_val d q) = Fin v" "0 \<le> v" "v \<le> of_int b"
      using rnd_sg_between [of "fixed_val d q" b] assms(6) by auto
    have "to_number (to_fixed d (Fin q)) = Fin v"
      using to_number_to_fixed [OF q, of d] False v(1) by simp
    moreover have "(of_int a :: rat) \<le> v" using v(2) assms(3)
      by (metis of_int_0_le_iff of_int_le_0_iff order_trans)
    ultimately show ?thesis using v(3) by simp
  qed
qed

end
