(* ===== verification/Playground.thy ===== *)
theory Playground
  imports JsObject JsFixed Splitter
begin

text \<open>
  The messages of the playground, \<open>features/playground/lib/message-utils.ts\<close>: versions, roles and
  statuses, the separation of \<open><think>\<close> sections from the visible text, the updates while an
  answer streams in and after it, the repair of messages loaded from storage; the request payload
  of \<open>payload-builder.ts\<close> and the bounds of \<open>playground-parameters.ts\<close>.

  Keys made by \<open>nanoid\<close> are arguments. A duration is an \<open>int\<close>, always 0 here.
\<close>

section \<open>Messages\<close>

datatype role = User | Assistant | System

datatype status = Loading | Streaming | Complete | Error

record message_version =
  mv_id :: jsstr
  mv_content :: jsstr

record reasoning =
  rs_content :: jsstr
  rs_duration :: int

record message =
  m_key :: jsstr
  m_from :: role
  m_versions :: "message_version list"
  m_reasoning :: "reasoning option"
  m_isReasoningStreaming :: "bool option"
  m_isReasoningComplete :: "bool option"
  m_isContentComplete :: "bool option"
  m_status :: "status option"
  m_errorCode :: "json option"

definition API_REQUEST_ERROR :: jsstr where "API_REQUEST_ERROR = J ''Request error occurred''"
definition INTERRUPTED :: jsstr where "INTERRUPTED = J ''Generation was interrupted''"

definition createMessageVersion :: "jsstr \<Rightarrow> jsstr \<Rightarrow> message_version" where
  "createMessageVersion vid content = \<lparr>mv_id = vid, mv_content = content\<rparr>"

definition getCurrentVersion :: "message \<Rightarrow> message_version" where
  "getCurrentVersion m =
     (case m_versions m of v # _ \<Rightarrow> v | [] \<Rightarrow> \<lparr>mv_id = J ''default'', mv_content = []\<rparr>)"

definition updateCurrentVersionContent :: "message \<Rightarrow> jsstr \<Rightarrow> message" where
  "updateCurrentVersionContent m content =
     m\<lparr>m_versions := [(getCurrentVersion m)\<lparr>mv_content := content\<rparr>]\<rparr>"

definition createUserMessage :: "jsstr \<Rightarrow> jsstr \<Rightarrow> jsstr \<Rightarrow> message" where
  "createUserMessage key vid content =
     \<lparr>m_key = key, m_from = User, m_versions = [createMessageVersion vid content],
      m_reasoning = None, m_isReasoningStreaming = None, m_isReasoningComplete = None,
      m_isContentComplete = None, m_status = None, m_errorCode = None\<rparr>"

definition createLoadingAssistantMessage :: "jsstr \<Rightarrow> jsstr \<Rightarrow> message" where
  "createLoadingAssistantMessage key vid =
     \<lparr>m_key = key, m_from = Assistant, m_versions = [createMessageVersion vid []],
      m_reasoning = None, m_isReasoningStreaming = Some False, m_isReasoningComplete = Some False,
      m_isContentComplete = Some False, m_status = Some Loading, m_errorCode = None\<rparr>"

datatype content_part = TextPart jsstr | ImagePart jsstr

datatype message_content = Plain jsstr | Parts "content_part list"

definition buildMessageContent :: "jsstr \<Rightarrow> jsstr list \<Rightarrow> message_content" where
  "buildMessageContent txt imageUrls =
     (let validImages = filter (\<lambda>u. trim u \<noteq> []) imageUrls in
      if validImages = [] then Plain txt
      else Parts (TextPart txt # map (\<lambda>u. ImagePart (trim u)) validImages))"

fun first_text :: "content_part list \<Rightarrow> jsstr" where
  "first_text [] = []"
| "first_text (TextPart t # ps) = t"
| "first_text (ImagePart u # ps) = first_text ps"

fun getTextContent :: "message_content \<Rightarrow> jsstr" where
  "getTextContent (Plain s) = s"
| "getTextContent (Parts ps) = first_text ps"

definition formatMessageForAPI :: "message \<Rightarrow> role \<times> jsstr" where
  "formatMessageForAPI m = (m_from m, mv_content (getCurrentVersion m))"

definition isValidMessage :: "message \<Rightarrow> bool" where
  "isValidMessage m \<longleftrightarrow>
     (case m_versions m of
        [] \<Rightarrow> False
      | v # _ \<Rightarrow> \<not> (m_from m = Assistant \<and> trim (mv_content v) = []))"

section \<open>Think tags\<close>

definition open_tag :: jsstr where "open_tag = J ''<think>''"
definition close_tag :: jsstr where "close_tag = J ''</think>''"

record parsed_content =
  pc_visible :: jsstr
  pc_reasoning :: jsstr
  pc_unclosed :: bool

text \<open>
  The loop on the rest of the content: the visible parts, the reasoning parts, and whether the last
  tag was left open.
\<close>

function think_loop :: "jsstr \<Rightarrow> jsstr list \<times> jsstr list \<times> bool" where
  "think_loop s =
     (case find_sub open_tag s of
        None \<Rightarrow> (if s = [] then [] else [s], [], False)
      | Some i \<Rightarrow>
          (let before = (if i = 0 then [] else [take i s]); rest = drop (i + 7) s in
           case find_sub close_tag rest of
             None \<Rightarrow> (before, [rest], True)
           | Some k \<Rightarrow>
               (let (vs, rs, u) = think_loop (drop (k + 8) rest) in
                (before @ vs, take k rest # rs, u))))"
  by pat_completeness auto
termination
  by (relation "measure length") (auto dest!: find_sub_bound simp: open_tag_def)

declare think_loop.simps [simp del]

definition parseThinkTags :: "jsstr \<Rightarrow> parsed_content" where
  "parseThinkTags content =
     (if \<not> js_includes content open_tag
      then \<lparr>pc_visible = content, pc_reasoning = [], pc_unclosed = False\<rparr>
      else (let (vs, rs, u) = think_loop content in
        \<lparr>pc_visible = trim (concat vs), pc_reasoning = trim (join [10, 10] rs), pc_unclosed = u\<rparr>))"

section \<open>Updates\<close>

definition updateLastAssistantMessage :: "(message \<Rightarrow> message) \<Rightarrow> message list \<Rightarrow> message list" where
  "updateLastAssistantMessage updater ms =
     (if ms = [] \<or> m_from (last ms) \<noteq> Assistant then ms
      else butlast ms @ [updater (last ms)])"

definition updateAssistantMessageWithError ::
  "message list \<Rightarrow> jsstr \<Rightarrow> json option \<Rightarrow> message list" where
  "updateAssistantMessageWithError ms errorMessage errorCode =
     updateLastAssistantMessage (\<lambda>m.
       (updateCurrentVersionContent m (API_REQUEST_ERROR @ J '': '' @ errorMessage))
         \<lparr>m_status := Some Error, m_isReasoningStreaming := Some False,
          m_errorCode := truthy errorCode\<rparr>) ms"

definition processStreamingContent :: "message \<Rightarrow> jsstr \<Rightarrow> message" where
  "processStreamingContent m chunk =
     (let fullContent = mv_content (getCurrentVersion m) @ chunk;
          p = parseThinkTags fullContent;
          finalReasoning = (if pc_reasoning p \<noteq> []
            then Some \<lparr>rs_content = pc_reasoning p, rs_duration = 0\<rparr> else m_reasoning m)
      in (updateCurrentVersionContent m fullContent)
           \<lparr>m_reasoning := finalReasoning, m_isReasoningStreaming := Some (pc_unclosed p)\<rparr>)"

definition reasoning_text :: "message \<Rightarrow> jsstr" where
  "reasoning_text m = (case m_reasoning m of None \<Rightarrow> [] | Some r \<Rightarrow> rs_content r)"

text \<open>\<open>a || b\<close> on strings, with a missing one as the empty string.\<close>

definition or_text :: "jsstr \<Rightarrow> jsstr \<Rightarrow> jsstr" where
  "or_text a b = (if a = [] then b else a)"

definition finalizeMessage :: "message \<Rightarrow> jsstr \<Rightarrow> message" where
  "finalizeMessage m apiReasoning =
     (let p = parseThinkTags (mv_content (getCurrentVersion m));
          finalReasoning = or_text apiReasoning (or_text (reasoning_text m) (pc_reasoning p))
      in (updateCurrentVersionContent m (pc_visible p))
           \<lparr>m_reasoning := (if finalReasoning = [] then None
              else Some \<lparr>rs_content = finalReasoning,
                rs_duration = (case m_reasoning m of None \<Rightarrow> 0 | Some r \<Rightarrow> rs_duration r)\<rparr>),
            m_isReasoningStreaming := Some False\<rparr>)"

definition pending :: "message \<Rightarrow> bool" where
  "pending m \<longleftrightarrow> m_from m = Assistant \<and> (m_status m = Some Loading \<or> m_status m = Some Streaming)"

text \<open>The loop from the end: the index of the last pending message.\<close>

fun last_pending :: "message list \<Rightarrow> nat option" where
  "last_pending [] = None"
| "last_pending (m # ms) =
     (case last_pending ms of
        Some i \<Rightarrow> Some (Suc i)
      | None \<Rightarrow> if pending m then Some 0 else None)"

definition sanitized :: "message \<Rightarrow> message" where
  "sanitized m =
     (let f = finalizeMessage m [];
          hasContent = trim (mv_content (getCurrentVersion f)) \<noteq> [];
          hasReasoning = trim (reasoning_text f) \<noteq> []
      in if hasContent \<or> hasReasoning
         then f\<lparr>m_status := Some Complete, m_isReasoningStreaming := Some False\<rparr>
         else (updateCurrentVersionContent f (API_REQUEST_ERROR @ J '': '' @ INTERRUPTED))
           \<lparr>m_status := Some Error, m_isReasoningStreaming := Some False\<rparr>)"

definition sanitizeMessagesOnLoad :: "message list \<Rightarrow> message list" where
  "sanitizeMessagesOnLoad ms =
     (case last_pending ms of None \<Rightarrow> ms | Some i \<Rightarrow> ms[i := sanitized (ms ! i)])"

section \<open>Request payload\<close>

text \<open>The configuration; a numeric parameter that is \<open>null\<close>, as the seed is at first, has no entry.\<close>

record playground_config =
  cf_model :: jsstr
  cf_group :: jsstr
  cf_numbers :: "(jsstr \<times> jsnum) list"
  cf_stream :: bool

definition parameterKeys :: "jsstr list" where
  "parameterKeys =
     [J ''temperature'', J ''top_p'', J ''max_tokens'', J ''frequency_penalty'',
      J ''presence_penalty'', J ''seed'']"

record chat_request =
  cr_model :: jsstr
  cr_group :: jsstr
  cr_messages :: "(role \<times> jsstr) list"
  cr_stream :: bool
  cr_parameters :: "(jsstr \<times> jsnum) list"

definition DEFAULT_PARAMETER_ENABLED :: "(jsstr \<times> bool) list" where
  "DEFAULT_PARAMETER_ENABLED =
     [(J ''temperature'', True), (J ''top_p'', True), (J ''max_tokens'', False),
      (J ''frequency_penalty'', True), (J ''presence_penalty'', True), (J ''seed'', False)]"

definition DEFAULT_CONFIG :: playground_config where
  "DEFAULT_CONFIG =
     \<lparr>cf_model = J ''gpt-4o'', cf_group = J ''default'',
      cf_numbers = [(J ''temperature'', rnd (7 / 10)), (J ''top_p'', Fin 1),
        (J ''max_tokens'', Fin 4096), (J ''frequency_penalty'', Fin 0),
        (J ''presence_penalty'', Fin 0)],
      cf_stream = True\<rparr>"

text \<open>A parameter is sent when it is enabled and its value is neither \<open>null\<close> nor \<open>undefined\<close>.\<close>

definition buildChatCompletionPayload ::
  "message list \<Rightarrow> playground_config \<Rightarrow> (jsstr \<Rightarrow> bool) \<Rightarrow> chat_request" where
  "buildChatCompletionPayload ms config enabled =
     \<lparr>cr_model = cf_model config, cr_group = cf_group config,
      cr_messages = map formatMessageForAPI (filter isValidMessage ms),
      cr_stream = cf_stream config,
      cr_parameters = List.map_filter (\<lambda>k.
        if enabled k then map_option (\<lambda>x. (k, x)) (map_of (cf_numbers config) k) else None)
        parameterKeys\<rparr>"

section \<open>Model options\<close>

text \<open>The fields of a pricing model that the options use; \<open>enable_groups\<close> is \<open>None\<close> when it is no array.\<close>

record model_entry =
  me_model_name :: jsstr
  me_category :: "jsstr option"
  me_description :: "jsstr option"
  me_enable_groups :: "jsstr list option"

record model_option =
  mo_label :: jsstr
  mo_value :: jsstr
  mo_category :: "jsstr option"
  mo_description :: "jsstr option"

definition isPricingModelEnabledForGroup :: "model_entry \<Rightarrow> jsstr \<Rightarrow> bool" where
  "isPricingModelEnabledForGroup model g \<longleftrightarrow>
     (if g = [] then True
      else (let gs = (case me_enable_groups model of Some gs \<Rightarrow> gs | None \<Rightarrow> []) in
        g \<in> set gs \<or> J ''all'' \<in> set gs))"

definition present :: "jsstr option \<Rightarrow> jsstr option" where
  "present t = (if t = Some [] then None else t)"

definition buildPlaygroundModelOptions :: "model_entry list \<Rightarrow> jsstr \<Rightarrow> model_option list" where
  "buildPlaygroundModelOptions models g =
     map (\<lambda>m. \<lparr>mo_label = me_model_name m, mo_value = me_model_name m,
            mo_category = present (me_category m), mo_description = present (me_description m)\<rparr>)
       (filter (\<lambda>m. isPricingModelEnabledForGroup m g) models)"

section \<open>Parameters\<close>

record parameter_control =
  ct_key :: jsstr
  ct_min :: rat
  ct_max :: rat
  ct_step :: jsnum

definition PLAYGROUND_PARAMETER_CONTROLS :: "parameter_control list" where
  "PLAYGROUND_PARAMETER_CONTROLS =
     [\<lparr>ct_key = J ''temperature'', ct_min = 0, ct_max = 2, ct_step = rnd (1 / 10)\<rparr>,
      \<lparr>ct_key = J ''top_p'', ct_min = 0, ct_max = 1, ct_step = rnd (1 / 10)\<rparr>,
      \<lparr>ct_key = J ''frequency_penalty'', ct_min = - 2, ct_max = 2, ct_step = rnd (1 / 10)\<rparr>,
      \<lparr>ct_key = J ''presence_penalty'', ct_min = - 2, ct_max = 2, ct_step = rnd (1 / 10)\<rparr>,
      \<lparr>ct_key = J ''max_tokens'', ct_min = 0, ct_max = 200000, ct_step = Fin 1\<rparr>,
      \<lparr>ct_key = J ''seed'', ct_min = 0, ct_max = 2147483647, ct_step = Fin 1\<rparr>]"

definition getParameterValue :: "playground_config \<Rightarrow> jsstr \<Rightarrow> jsnum option" where
  "getParameterValue config key = map_of (cf_numbers config) key"

datatype input_value = TextInput jsstr | NumInput jsnum

text \<open>\<open>Math.trunc\<close>.\<close>

fun num_trunc :: "jsnum \<Rightarrow> jsnum" where
  "num_trunc (Fin q) =
     (if q < 0 then (if - \<lfloor>- q\<rfloor> = 0 then NZero else Fin (of_int (- \<lfloor>- q\<rfloor>)))
      else Fin (of_int \<lfloor>q\<rfloor>))"
| "num_trunc x = x"

text \<open>The digits after the point of \<open>String(step)\<close>.\<close>

definition step_precision :: "jsnum \<Rightarrow> nat" where
  "step_precision step =
     (case split_ch 46 (to_str step) of _ # b # _ \<Rightarrow> length b | _ \<Rightarrow> 0)"

definition normalizeParameterNumberValue :: "jsstr \<Rightarrow> input_value \<Rightarrow> jsnum option" where
  "normalizeParameterNumberValue key value =
     (let default = (if key = J ''seed'' then None else Some (Fin 0));
          parsed = (case value of NumInput x \<Rightarrow> x | TextInput s \<Rightarrow> parse_float s)
      in if value = TextInput [] then default
         else (case find (\<lambda>c. ct_key c = key) PLAYGROUND_PARAMETER_CONTROLS of
             None \<Rightarrow> default
           | Some control \<Rightarrow>
               if parsed = NaN then default
               else (let clamped = num_min (Fin (ct_max control)) (num_max (Fin (ct_min control)) parsed) in
                 if num_le (Fin 1) (ct_step control) then Some (num_trunc clamped)
                 else Some (to_number (to_fixed (step_precision (ct_step control)) clamped)))))"

section \<open>Think sections\<close>

text \<open>A tag that no proper suffix of the text before it can start: it is found where it was put.\<close>

lemma find_sub_first:
  assumes "c \<notin> set q" "\<not> js_includes v (c # q)"
  shows "find_sub (c # q) (v @ (c # q) @ r) = Some (length v)"
  using assms(2)
proof (induction v)
  case Nil
  then show ?case by (simp add: starts_with_def)
next
  case (Cons d v)
  have "\<not> starts_with (d # v @ (c # q) @ r) (c # q)"
  proof
    assume s: "starts_with (d # v @ (c # q) @ r) (c # q)"
    show False
    proof (cases "length (c # q) \<le> length (d # v)")
      case True
      with s have "starts_with (d # v) (c # q)" by (simp add: starts_with_def)
      then obtain z where "d # v = [] @ (c # q) @ z" by (auto simp: starts_with_iff)
      with Cons.prems show False unfolding js_includes_iff by blast
    next
      case False
      from s obtain z where z: "d # v @ (c # q) @ r = (c # q) @ z" by (auto simp: starts_with_iff)
      from False have l: "length v < length q" by simp
      have "(d # v @ (c # q) @ r) ! Suc (length v) = c" by (simp add: nth_append)
      moreover from l have "((c # q) @ z) ! Suc (length v) = q ! length v" by (simp add: nth_append)
      ultimately have "c = q ! length v" using z by (simp only:)
      with assms(1) l show False by simp
    qed
  qed
  moreover have "\<not> js_includes v (c # q)"
    using Cons.prems unfolding js_includes_iff by (metis append_Cons)
  ultimately show ?case using Cons.IH by simp
qed

lemma find_open: "\<not> js_includes v open_tag \<Longrightarrow> find_sub open_tag (v @ open_tag @ r) = Some (length v)"
  unfolding open_tag_def J_Cons by (rule find_sub_first) simp_all

lemma find_close: "\<not> js_includes v close_tag \<Longrightarrow> find_sub close_tag (v @ close_tag @ r) = Some (length v)"
  unfolding close_tag_def J_Cons by (rule find_sub_first) simp_all

lemma tag_lengths [simp]: "length open_tag = 7" "length close_tag = 8"
  by (simp_all add: open_tag_def close_tag_def)

text \<open>Visible parts, each followed by a think section, and what comes after the last one.\<close>

fun render :: "(jsstr \<times> jsstr) list \<Rightarrow> jsstr \<Rightarrow> jsstr" where
  "render [] t = t"
| "render ((v, r) # ss) t = v @ open_tag @ r @ close_tag @ render ss t"

definition plain_parts :: "(jsstr \<times> jsstr) list \<Rightarrow> bool" where
  "plain_parts ss \<longleftrightarrow> list_all (\<lambda>(v, r). \<not> js_includes v open_tag \<and> \<not> js_includes r close_tag) ss"

lemma plain_parts_simps [simp]:
  "plain_parts []"
  "plain_parts ((v, r) # ss) \<longleftrightarrow>
     \<not> js_includes v open_tag \<and> \<not> js_includes r close_tag \<and> plain_parts ss"
  by (simp_all add: plain_parts_def)

lemma think_loop_closed:
  "plain_parts ss \<Longrightarrow> \<not> js_includes t open_tag \<Longrightarrow>
    think_loop (render ss t) = (nonempty (map fst ss @ [t]), map snd ss, False)"
proof (induction ss)
  case Nil
  then show ?case by (subst think_loop.simps) (simp add: js_includes_def)
next
  case (Cons p ss)
  obtain v r where p: "p = (v, r)" by (cases p)
  with Cons show ?case by (subst think_loop.simps) (simp add: find_open find_close)
qed

lemma think_loop_unclosed:
  "plain_parts ss \<Longrightarrow> \<not> js_includes v open_tag \<Longrightarrow> \<not> js_includes r close_tag \<Longrightarrow>
    think_loop (render ss (v @ open_tag @ r)) = (nonempty (map fst ss @ [v]), map snd ss @ [r], True)"
proof (induction ss)
  case Nil
  then show ?case by (subst think_loop.simps) (simp add: find_open js_includes_def)
next
  case (Cons p ss)
  obtain w z where p: "p = (w, z)" by (cases p)
  with Cons show ?case by (subst think_loop.simps) (simp add: find_open find_close)
qed

lemma render_includes: "ss \<noteq> [] \<Longrightarrow> js_includes (render ss t) open_tag"
proof (cases ss)
  case (Cons p ss')
  obtain v r where "p = (v, r)" by (cases p)
  with Cons have "render ss t = v @ open_tag @ (r @ close_tag @ render ss' t)" by simp
  then show ?thesis unfolding js_includes_iff by blast
qed simp

lemma concat_nonempty [simp]: "concat (nonempty xs) = concat xs"
  by (induction xs) auto

lemma take_first: "find_sub p s = Some i \<Longrightarrow> p = c # q \<Longrightarrow> \<not> js_includes (take i s) p"
proof
  assume f: "find_sub p s = Some i" and p: "p = c # q" and "js_includes (take i s) p"
  then obtain u w where u: "take i s = u @ p @ w" by (auto simp: js_includes_iff)
  then have "s = (u @ p @ w) @ drop i s" by (metis append_take_drop_id)
  then have "starts_with (drop (length u) s) p" by (metis append_assoc append_eq_conv_conj starts_with_append)
  moreover have "length u < i" using u p find_sub_bound [OF f]
    by (auto dest!: arg_cong [where f = length] simp: min_def split: if_splits)
  ultimately show False using find_sub_least [OF f] by blast
qed

lemma think_sections:
  "\<exists>ss v r. plain_parts ss \<and> \<not> js_includes v open_tag \<and> \<not> js_includes r close_tag \<and>
     (s = render ss v \<or> s = render ss (v @ open_tag @ r))"
proof (induction "length s" arbitrary: s rule: less_induct)
  case less
  show ?case
  proof (cases "find_sub open_tag s")
    case None
    then have "plain_parts [] \<and> \<not> js_includes s open_tag \<and> \<not> js_includes [] close_tag \<and> s = render [] s"
      by (simp add: js_includes_def close_tag_def)
    then show ?thesis by blast
  next
    case (Some i)
    obtain rest where s: "s = take i s @ open_tag @ rest" using find_sub_Some [OF Some] by blast
    have v: "\<not> js_includes (take i s) open_tag"
      using take_first [OF Some] by (simp add: open_tag_def)
    show ?thesis
    proof (cases "find_sub close_tag rest")
      case None
      then have "\<not> js_includes rest close_tag" by (simp add: js_includes_def)
      with v s have "plain_parts [] \<and> \<not> js_includes (take i s) open_tag \<and> \<not> js_includes rest close_tag \<and>
          s = render [] (take i s @ open_tag @ rest)" by simp
      then show ?thesis by blast
    next
      case k: (Some k)
      obtain t where t: "rest = take k rest @ close_tag @ t" using find_sub_Some [OF k] by blast
      have r: "\<not> js_includes (take k rest) close_tag"
        using take_first [OF k] by (simp add: close_tag_def)
      have e: "s = take i s @ open_tag @ take k rest @ close_tag @ t" using s t by metis
      then have "length t < length s"
        by (metis (no_types, lifting) length_append add.commute less_add_same_cancel1 tag_lengths
            trans_less_add2 zero_less_numeral)
      from less [OF this] obtain ss w z where "plain_parts ss" "\<not> js_includes w open_tag"
        "\<not> js_includes z close_tag" "t = render ss w \<or> t = render ss (w @ open_tag @ z)" by blast
      with v r e have "plain_parts ((take i s, take k rest) # ss) \<and> \<not> js_includes w open_tag \<and>
          \<not> js_includes z close_tag \<and> (s = render ((take i s, take k rest) # ss) w \<or>
          s = render ((take i s, take k rest) # ss) (w @ open_tag @ z))" by auto
      then show ?thesis by blast
    qed
  qed
qed

lemma parse_closed:
  assumes "plain_parts ss" "\<not> js_includes t open_tag"
  shows "parseThinkTags (render ss t) =
    \<lparr>pc_visible = (if ss = [] then t else trim (concat (map fst ss) @ t)),
     pc_reasoning = trim (join [10, 10] (map snd ss)), pc_unclosed = False\<rparr>"
  using assms render_includes [of ss t] think_loop_closed [OF assms]
  by (cases "ss = []") (simp_all add: parseThinkTags_def)

lemma parse_unclosed:
  assumes "plain_parts ss" "\<not> js_includes v open_tag" "\<not> js_includes r close_tag"
  shows "parseThinkTags (render ss (v @ open_tag @ r)) =
    \<lparr>pc_visible = trim (concat (map fst ss) @ v),
     pc_reasoning = trim (join [10, 10] (map snd ss @ [r])), pc_unclosed = True\<rparr>"
proof -
  have "js_includes (render ss (v @ open_tag @ r)) open_tag"
    using render_includes [of ss "v @ open_tag @ r"] by (cases ss) (auto simp: js_includes_iff)
  with think_loop_unclosed [OF assms] show ?thesis by (simp add: parseThinkTags_def)
qed

text \<open>C17. Whatever the content, the parser splits it at its think sections: the content is visible
  parts, none with an opening tag, alternating with sections, none with a closing tag, the last one
  possibly left open, and the result is the trimmed visible text, the trimmed sections joined by
  blank lines, and whether the last was open. Nothing of the content is lost or read twice.\<close>

theorem think_tags_split:
  "\<exists>ss v r. plain_parts ss \<and> \<not> js_includes v open_tag \<and> \<not> js_includes r close_tag \<and>
     (content = render ss v \<and>
        parseThinkTags content =
          \<lparr>pc_visible = (if ss = [] then v else trim (concat (map fst ss) @ v)),
           pc_reasoning = trim (join [10, 10] (map snd ss)), pc_unclosed = False\<rparr> \<or>
      content = render ss (v @ open_tag @ r) \<and>
        parseThinkTags content =
          \<lparr>pc_visible = trim (concat (map fst ss) @ v),
           pc_reasoning = trim (join [10, 10] (map snd ss @ [r])), pc_unclosed = True\<rparr>)"
  using think_sections [of content] by (metis parse_closed parse_unclosed)

section \<open>Loading and sending\<close>

lemma content_update [simp]:
  "m_key (updateCurrentVersionContent m c) = m_key m"
  "m_from (updateCurrentVersionContent m c) = m_from m"
  "m_status (updateCurrentVersionContent m c) = m_status m"
  "m_reasoning (updateCurrentVersionContent m c) = m_reasoning m"
  "mv_content (getCurrentVersion (updateCurrentVersionContent m c)) = c"
  by (simp_all add: updateCurrentVersionContent_def getCurrentVersion_def)

lemma finalize_keeps [simp]:
  "m_key (finalizeMessage m a) = m_key m" "m_from (finalizeMessage m a) = m_from m"
  "m_status (finalizeMessage m a) = m_status m"
  by (simp_all add: finalizeMessage_def Let_def)

lemma sanitized_keeps [simp]: "m_key (sanitized m) = m_key m" "m_from (sanitized m) = m_from m"
  by (simp_all add: sanitized_def Let_def)

lemma sanitized_settled: "m_status (sanitized m) = Some Complete \<or> m_status (sanitized m) = Some Error"
  by (simp add: sanitized_def Let_def)

lemma sanitized_not_pending [simp]: "\<not> pending (sanitized m)"
  using sanitized_settled [of m] by (auto simp: pending_def)

lemma last_pending_None: "last_pending ms = None \<longleftrightarrow> (\<forall>m \<in> set ms. \<not> pending m)"
  by (induction ms) (auto split: option.splits)

lemma last_pending_Some:
  "last_pending ms = Some i \<Longrightarrow> i < length ms \<and> pending (ms ! i) \<and> (\<forall>m \<in> set (drop (Suc i) ms). \<not> pending m)"
proof (induction ms arbitrary: i)
  case (Cons m ms)
  then show ?case
    by (auto split: option.splits if_splits simp: last_pending_None)
qed simp

lemma loaded_list:
  "last_pending ms = Some i \<Longrightarrow>
    ms = take i ms @ ms ! i # drop (Suc i) ms \<and>
    sanitizeMessagesOnLoad ms = take i ms @ sanitized (ms ! i) # drop (Suc i) ms"
  using last_pending_Some [of ms i]
  by (simp add: sanitizeMessagesOnLoad_def id_take_nth_drop upd_conv_take_nth_drop)

text \<open>Loading stored messages settles exactly one pending answer, the last one: the keys and
  roles stay, every other message is unchanged, and one pending message fewer is left. With more
  than one pending, the earlier ones stay pending.\<close>

theorem loading_settles_the_last:
  "map m_key (sanitizeMessagesOnLoad ms) = map m_key ms \<and>
   map m_from (sanitizeMessagesOnLoad ms) = map m_from ms \<and>
   length (filter pending (sanitizeMessagesOnLoad ms)) = length (filter pending ms) - 1 \<and>
   (\<forall>i < length ms. last_pending ms \<noteq> Some i \<longrightarrow> sanitizeMessagesOnLoad ms ! i = ms ! i)"
proof (cases "last_pending ms")
  case None
  then have "filter pending ms = []" by (simp add: last_pending_None filter_empty_conv)
  with None show ?thesis by (simp add: sanitizeMessagesOnLoad_def)
next
  case (Some i)
  note s = last_pending_Some [OF Some]
  obtain a x b where l: "ms = a @ x # b" "sanitizeMessagesOnLoad ms = a @ sanitized x # b"
    and p: "pending x" "\<forall>m \<in> set b. \<not> pending m"
    using loaded_list [OF Some] s by blast
  have "map m_key (sanitizeMessagesOnLoad ms) = map m_key ms"
    "map m_from (sanitizeMessagesOnLoad ms) = map m_from ms"
    "length (filter pending (sanitizeMessagesOnLoad ms)) = length (filter pending ms) - 1"
    using l p by simp_all
  moreover have "\<forall>j < length ms. j \<noteq> i \<longrightarrow> sanitizeMessagesOnLoad ms ! j = ms ! j"
    using Some by (simp add: sanitizeMessagesOnLoad_def)
  ultimately show ?thesis using Some by auto
qed

lemma loading_settles_the_last_witness:
  "map m_key (sanitizeMessagesOnLoad [createLoadingAssistantMessage (J ''a'') (J ''v'')]) = [J ''a''] \<and>
   filter pending (sanitizeMessagesOnLoad [createLoadingAssistantMessage (J ''a'') (J ''v'')]) = []"
  using loading_settles_the_last [of "[createLoadingAssistantMessage (J ''a'') (J ''v'')]"]
  by (simp add: createLoadingAssistantMessage_def pending_def)

section \<open>Parameter values\<close>

lemma control_bounds:
  assumes "control \<in> set PLAYGROUND_PARAMETER_CONTROLS"
  obtains a b where "ct_min control = of_int a" "ct_max control = of_int b" "a \<le> 0" "0 \<le> b"
    "\<bar>a\<bar> \<le> 2 ^ 53" "\<bar>b\<bar> \<le> 2 ^ 53"
proof -
  consider "ct_min control = 0 \<and> ct_max control = 2" | "ct_min control = 0 \<and> ct_max control = 1"
    | "ct_min control = - 2 \<and> ct_max control = 2" | "ct_min control = 0 \<and> ct_max control = 200000"
    | "ct_min control = 0 \<and> ct_max control = 2147483647"
    using assms by (auto simp: PLAYGROUND_PARAMETER_CONTROLS_def)
  then show ?thesis
  proof cases
    case 1
    with that [of 0 2] show ?thesis by simp
  next
    case 2
    with that [of 0 1] show ?thesis by simp
  next
    case 3
    with that [of "- 2" 2] show ?thesis by simp
  next
    case 4
    with that [of 0 200000] show ?thesis by simp
  next
    case 5
    with that [of 0 2147483647] show ?thesis by simp
  qed
qed

lemma clamped:
  assumes "x \<noteq> NaN" "a \<le> 0" "(0::int) \<le> b"
  shows "num_min (Fin (of_int b)) (num_max (Fin (of_int a)) x) = NZero \<or>
    (\<exists>q. num_min (Fin (of_int b)) (num_max (Fin (of_int a)) x) = Fin q \<and> of_int a \<le> q \<and> q \<le> of_int b)"
proof -
  have ab: "(of_int a :: rat) \<le> of_int b" using assms(2,3) by simp
  with assms show ?thesis by (cases x) (auto simp: num_min_def num_max_def not_less)
qed

lemma NZero_between: "a \<le> 0 \<Longrightarrow> (0::int) \<le> b \<Longrightarrow> num_le (Fin (of_int a)) NZero \<and> num_le NZero (Fin (of_int b))"
  by (auto simp: num_le_def num_eq_def)

lemma trunc_between:
  assumes "of_int a \<le> q" "q \<le> of_int b" "a \<le> 0" "0 \<le> b"
  shows "num_le (Fin (of_int a)) (num_trunc (Fin q)) \<and> num_le (num_trunc (Fin q)) (Fin (of_int b))"
proof (cases "q < 0")
  case True
  then have "0 \<le> \<lfloor>- q\<rfloor>" "\<lfloor>- q\<rfloor> \<le> - a" using assms(1) by (simp_all add: floor_le_iff)
  then have "(of_int a :: rat) \<le> of_int (- \<lfloor>- q\<rfloor>)" "(of_int (- \<lfloor>- q\<rfloor>) :: rat) \<le> of_int b"
    using assms(4) by (simp_all only: of_int_le_iff)
  with True NZero_between [OF assms(3,4)] show ?thesis by simp
next
  case False
  then have "0 \<le> \<lfloor>q\<rfloor>" "\<lfloor>q\<rfloor> \<le> b" using assms(2) by (simp_all add: floor_le_iff)
  then have "a \<le> \<lfloor>q\<rfloor>" using assms(3) by linarith
  with False \<open>\<lfloor>q\<rfloor> \<le> b\<close> show ?thesis by simp
qed

lemma fixed_NZero: "to_number (to_fixed d NZero) = Fin 0"
proof -
  have "\<lfloor>1 / 2 :: rat\<rfloor> = 0" by (simp add: floor_eq_iff)
  then show ?thesis
    using to_number_fixed(1) [of 0 d] by (simp add: fixed_val_def rnd_sg_def zero_of_def)
qed

text \<open>C20. Whatever is typed or dragged, the value of a parameter is within the range of its control,
  and it is \<open>null\<close> only for the seed; an empty or unreadable text gives the default.\<close>

theorem parameter_in_range:
  assumes "find (\<lambda>c. ct_key c = key) PLAYGROUND_PARAMETER_CONTROLS = Some control"
  shows "(case normalizeParameterNumberValue key v of
      None \<Rightarrow> key = J ''seed''
    | Some x \<Rightarrow> num_le (Fin (ct_min control)) x \<and> num_le x (Fin (ct_max control)))"
proof -
  from assms have "control \<in> set PLAYGROUND_PARAMETER_CONTROLS"
    by (metis find_Some_iff nth_mem)
  then obtain a b where ab: "ct_min control = of_int a" "ct_max control = of_int b" "a \<le> 0" "0 \<le> b"
    "\<bar>a\<bar> \<le> 2 ^ 53" "\<bar>b\<bar> \<le> 2 ^ 53" by (rule control_bounds)
  define x where "x = (case v of NumInput y \<Rightarrow> y | TextInput s \<Rightarrow> parse_float s)"
  show ?thesis
  proof (cases "v = TextInput [] \<or> x = NaN")
    case True
    then have "normalizeParameterNumberValue key v = (if key = J ''seed'' then None else Some (Fin 0))"
      using assms by (auto simp: normalizeParameterNumberValue_def x_def Let_def simp del: J_Cons)
    with ab(1-4) show ?thesis by (auto simp del: J_Cons)
  next
    case False
    let ?c = "num_min (Fin (of_int b)) (num_max (Fin (of_int a)) x)"
    have v: "normalizeParameterNumberValue key v =
      (if num_le (Fin 1) (ct_step control) then Some (num_trunc ?c)
       else Some (to_number (to_fixed (step_precision (ct_step control)) ?c)))"
      using False assms ab(1,2) by (simp add: normalizeParameterNumberValue_def x_def Let_def)
    consider "?c = NZero" | q where "?c = Fin q" "of_int a \<le> q" "q \<le> of_int b"
      using clamped [of x a b] False ab(3,4) by auto
    then show ?thesis
    proof cases
      case 1
      with v ab(1-4) NZero_between [OF ab(3,4)] fixed_NZero show ?thesis by simp
    next
      case 2
      with v ab trunc_between [OF 2(2,3) ab(3,4)] fixed_between [OF 2(2,3) ab(3-6)]
      show ?thesis by (simp del: num_trunc.simps to_fixed.simps)
    qed
  qed
qed

lemma parameter_in_range_witness:
  "(case normalizeParameterNumberValue (J ''seed'') (TextInput (J ''9e9'')) of
      None \<Rightarrow> True | Some x \<Rightarrow> num_le x (Fin 2147483647))"
proof -
  have "find (\<lambda>c. ct_key c = J ''seed'') PLAYGROUND_PARAMETER_CONTROLS =
      Some \<lparr>ct_key = J ''seed'', ct_min = 0, ct_max = 2147483647, ct_step = Fin 1\<rparr>"
    by (simp add: PLAYGROUND_PARAMETER_CONTROLS_def)
  from parameter_in_range [OF this, of "TextInput (J ''9e9'')"] show ?thesis
    by (simp split: option.splits del: J_Cons)
qed

end
