(* ===== verification/PlaygroundChat.thy ===== *)
theory PlaygroundChat
  imports Playground
begin

text \<open>
  A conversation of the playground as a state machine: \<open>features/playground/hooks/use-chat-handler.ts\<close>,
  \<open>hooks/use-stream-request.ts\<close>, \<open>hooks/use-message-action-guard.ts\<close> and the handlers of
  \<open>features/playground/index.tsx\<close>.

  The state holds the messages, the configuration, the message being edited, the two refs of the
  stream hook (the current source and the completion flag), the sources that have been opened and
  not closed, the requests that were sent, and how many of the non-streaming ones are unanswered.
  A user action or a network event is a value of \<open>chat_event\<close>; \<open>chat_step\<close> runs its handler, and is
  \<open>None\<close> where the interface offers no such action. A component renders after each event, so that
  \<open>isGenerating\<close> is whether the ref holds a source. Toasts and console output are not kept.
\<close>

section \<open>Updates of the last message\<close>

datatype update_kind = ReasoningUpdate | ContentUpdate

definition handleStreamUpdate :: "update_kind \<Rightarrow> jsstr \<Rightarrow> message list \<Rightarrow> message list" where
  "handleStreamUpdate kind chunk ms =
     updateLastAssistantMessage (\<lambda>m.
       if m_status m = Some Error then m
       else if kind = ReasoningUpdate
       then m\<lparr>m_reasoning := Some \<lparr>rs_content = reasoning_text m @ chunk, rs_duration = 0\<rparr>,
              m_isReasoningStreaming := Some True, m_status := Some Streaming\<rparr>
       else (processStreamingContent m chunk)\<lparr>m_status := Some Streaming\<rparr>) ms"

definition handleStreamComplete :: "message list \<Rightarrow> message list" where
  "handleStreamComplete ms =
     updateLastAssistantMessage (\<lambda>m.
       if m_status m = Some Complete \<or> m_status m = Some Error then m
       else (finalizeMessage m [])\<lparr>m_status := Some Complete\<rparr>) ms"

definition handleStreamError :: "jsstr \<Rightarrow> json option \<Rightarrow> message list \<Rightarrow> message list" where
  "handleStreamError err errorCode ms = updateAssistantMessageWithError ms err errorCode"

definition settle_stopped :: "message list \<Rightarrow> message list" where
  "settle_stopped ms =
     updateLastAssistantMessage (\<lambda>m.
       if m_status m = Some Loading \<or> m_status m = Some Streaming
       then (finalizeMessage m [])\<lparr>m_status := Some Complete\<rparr> else m) ms"

text \<open>
  \<open>[{ ...m.versions[0], content }]\<close>: without a first version there is no id, here the empty string.
\<close>

definition replace_content :: "message \<Rightarrow> jsstr \<Rightarrow> message" where
  "replace_content m content =
     m\<lparr>m_versions := [\<lparr>mv_id = (case m_versions m of v # _ \<Rightarrow> mv_id v | [] \<Rightarrow> []), mv_content = content\<rparr>]\<rparr>"

text \<open>A reply without streaming: the first choice, if any, with its message, or the error thrown.\<close>

record reply_message =
  rm_content :: "jsstr option"
  rm_reasoning_content :: "jsstr option"

datatype reply = Choices "reply_message option list"
  | Rejected "jsstr option" "jsstr option" "json option"

definition text_or_empty :: "jsstr option \<Rightarrow> jsstr" where
  "text_or_empty t = (case t of Some s \<Rightarrow> s | None \<Rightarrow> [])"

definition apply_reply :: "reply \<Rightarrow> message list \<Rightarrow> message list" where
  "apply_reply r ms =
     (case r of
        Choices [] \<Rightarrow> ms
      | Choices (c # _) \<Rightarrow>
          updateLastAssistantMessage (\<lambda>m.
            (finalizeMessage
              (replace_content m (case c of Some x \<Rightarrow> text_or_empty (rm_content x) | None \<Rightarrow> []))
              (case c of Some x \<Rightarrow> text_or_empty (rm_reasoning_content x) | None \<Rightarrow> []))
              \<lparr>m_status := Some Complete\<rparr>) ms
      | Rejected data_message msg code \<Rightarrow>
          handleStreamError
            (or_text (text_or_empty data_message) (or_text (text_or_empty msg) API_REQUEST_ERROR))
            (truthy code) ms)"

section \<open>Stream events\<close>

definition PARSE_ERROR :: jsstr where "PARSE_ERROR = J ''Error parsing response data''"
definition STREAM_START_ERROR :: jsstr where "STREAM_START_ERROR = J ''Error establishing connection''"
definition CONNECTION_CLOSED :: jsstr where "CONNECTION_CLOSED = J ''Connection closed''"
definition DONE :: jsstr where "DONE = J ''[DONE]''"

text \<open>\<open>x?.[0]\<close>.\<close>

definition json_first :: "json option \<Rightarrow> json option" where
  "json_first v =
     (case v of
        Some (JArr (x # _)) \<Rightarrow> Some x
      | Some (JStr (c # _)) \<Rightarrow> Some (JStr [c])
      | Some (JObj m) \<Rightarrow> map_of m (J ''0'')
      | _ \<Rightarrow> None)"

text \<open>The updates a chunk asks for: the reasoning first, then the content.\<close>

definition chunk_updates :: "jsstr \<Rightarrow> (update_kind \<times> jsstr) list js" where
  "chunk_updates data =
     js_bind (json_parse data) (\<lambda>chunk.
       js_bind (json_prop chunk (J ''choices'')) (\<lambda>choices.
         let delta = truthy (json_optional (json_first choices) (J ''delta'')) in
         Inr ((case truthy (json_optional delta (J ''reasoning_content'')) of
                 Some v \<Rightarrow> [(ReasoningUpdate, js_string v)] | None \<Rightarrow> []) @
              (case truthy (json_optional delta (J ''content'')) of
                 Some v \<Rightarrow> [(ContentUpdate, js_string v)] | None \<Rightarrow> []))))"

text \<open>The message and the code of an error event.\<close>

definition error_details :: "jsstr option \<Rightarrow> jsstr \<times> json option" where
  "error_details data =
     (let d = text_or_empty data in
      if d = [] then (API_REQUEST_ERROR, None)
      else (case json_parse d of
          Inl _ \<Rightarrow> (d, None)
        | Inr parsed \<Rightarrow>
            (case truthy (json_optional (Some parsed) (J ''error'')) of
               None \<Rightarrow> (d, None)
             | Some e \<Rightarrow>
                 ((case truthy (json_optional (Some e) (J ''message'')) of
                     Some v \<Rightarrow> js_string v | None \<Rightarrow> d),
                  truthy (json_optional (Some e) (J ''code''))))))"

datatype sse_event = SseMessage jsstr
  | SseError nat "jsstr option"
  | SseReadyState "nat option" "int option"

section \<open>The state\<close>

record chat =
  ch_messages :: "message list"
  ch_config :: playground_config
  ch_enabled :: "(jsstr \<times> bool) list"
  ch_editing :: "jsstr option"
  ch_source :: "nat option"
  ch_complete :: bool
  ch_open :: "nat list"
  ch_next :: nat
  ch_sent :: "chat_request list"
  ch_requests :: nat

definition isGenerating :: "chat \<Rightarrow> bool" where
  "isGenerating s \<longleftrightarrow> ch_source s \<noteq> None"

definition parameter_on :: "(jsstr \<times> bool) list \<Rightarrow> jsstr \<Rightarrow> bool" where
  "parameter_on enabled k \<longleftrightarrow> map_of enabled k = Some True"

text \<open>\<open>closeSource\<close> of source \<open>k\<close>: whatever source the ref holds, it is cleared.\<close>

definition closeSource :: "nat \<Rightarrow> chat \<Rightarrow> chat" where
  "closeSource k s = s\<lparr>ch_open := removeAll k (ch_open s), ch_source := None\<rparr>"

definition handleError :: "nat \<Rightarrow> jsstr \<Rightarrow> json option \<Rightarrow> chat \<Rightarrow> chat" where
  "handleError k err code s =
     (if \<not> ch_complete s
      then closeSource k (s\<lparr>ch_messages := handleStreamError err code (ch_messages s)\<rparr>)
      else s)"

definition on_message :: "nat \<Rightarrow> jsstr \<Rightarrow> chat \<Rightarrow> chat" where
  "on_message k data s =
     (if data = DONE
      then (closeSource k (s\<lparr>ch_complete := True\<rparr>))
             \<lparr>ch_messages := handleStreamComplete (ch_messages s)\<rparr>
      else (case chunk_updates data of
          Inl _ \<Rightarrow> handleError k PARSE_ERROR None s
        | Inr us \<Rightarrow>
            s\<lparr>ch_messages := fold (\<lambda>(kind, chunk). handleStreamUpdate kind chunk) us (ch_messages s)\<rparr>))"

definition on_error :: "nat \<Rightarrow> nat \<Rightarrow> jsstr option \<Rightarrow> chat \<Rightarrow> chat" where
  "on_error k readyState data s =
     (if readyState \<noteq> 2 then (let (err, code) = error_details data in handleError k err code s) else s)"

definition on_readystate :: "nat \<Rightarrow> nat option \<Rightarrow> int option \<Rightarrow> chat \<Rightarrow> chat" where
  "on_readystate k readyState status s =
     (case (readyState, status) of
        (Some r, Some st) \<Rightarrow>
          if 2 \<le> r \<and> st \<noteq> 200
          then handleError k (J ''HTTP '' @ to_str (Fin (of_int st)) @ J '': '' @ CONNECTION_CLOSED) None s
          else s
      | _ \<Rightarrow> s)"

definition sse_handler :: "nat \<Rightarrow> sse_event \<Rightarrow> chat \<Rightarrow> chat" where
  "sse_handler k e s =
     (case e of
        SseMessage data \<Rightarrow> on_message k data s
      | SseError readyState data \<Rightarrow> on_error k readyState data s
      | SseReadyState readyState status \<Rightarrow> on_readystate k readyState status s)"

text \<open>A new source; \<open>started\<close> is whether \<open>source.stream()\<close> returned rather than threw.\<close>

definition sendStreamRequest :: "bool \<Rightarrow> chat_request \<Rightarrow> chat \<Rightarrow> chat" where
  "sendStreamRequest started payload s =
     (let s' = s\<lparr>ch_sent := ch_sent s @ [payload], ch_next := Suc (ch_next s), ch_complete := False\<rparr> in
      if started then s'\<lparr>ch_source := Some (ch_next s), ch_open := ch_next s # ch_open s\<rparr>
      else s'\<lparr>ch_source := None,
              ch_messages := handleStreamError STREAM_START_ERROR None (ch_messages s')\<rparr>)"

definition sendChat :: "bool \<Rightarrow> message list \<Rightarrow> chat \<Rightarrow> chat" where
  "sendChat started ms s =
     (let payload = buildChatCompletionPayload ms (ch_config s) (parameter_on (ch_enabled s)) in
      if cf_stream (ch_config s) then sendStreamRequest started payload s
      else s\<lparr>ch_sent := ch_sent s @ [payload], ch_requests := Suc (ch_requests s)\<rparr>)"

definition stopStream :: "chat \<Rightarrow> chat" where
  "stopStream s = (case ch_source s of None \<Rightarrow> s | Some k \<Rightarrow> closeSource k s)"

definition stopGeneration :: "chat \<Rightarrow> chat" where
  "stopGeneration s = (stopStream s)\<lparr>ch_messages := settle_stopped (ch_messages s)\<rparr>"

section \<open>Actions\<close>

text \<open>The keys and version ids that \<open>nanoid\<close> makes are part of the event.\<close>

definition handleSendMessage :: "jsstr \<Rightarrow> jsstr \<times> jsstr \<Rightarrow> jsstr \<times> jsstr \<Rightarrow> bool \<Rightarrow> chat \<Rightarrow> chat" where
  "handleSendMessage tx u a started s =
     (let newMessages = ch_messages s @
            [createUserMessage (fst u) (snd u) tx, createLoadingAssistantMessage (fst a) (snd a)]
      in sendChat started newMessages (s\<lparr>ch_messages := newMessages\<rparr>))"

fun find_key :: "jsstr \<Rightarrow> message list \<Rightarrow> nat option" where
  "find_key k [] = None"
| "find_key k (m # ms) = (if m_key m = k then Some 0 else map_option Suc (find_key k ms))"

definition handleRegenerateMessage :: "jsstr \<Rightarrow> jsstr \<times> jsstr \<Rightarrow> bool \<Rightarrow> chat \<Rightarrow> chat" where
  "handleRegenerateMessage key a started s =
     (case find_key key (ch_messages s) of
        None \<Rightarrow> s
      | Some i \<Rightarrow>
          (let newMessages = take i (ch_messages s) @ [createLoadingAssistantMessage (fst a) (snd a)] in
           sendChat started newMessages (s\<lparr>ch_messages := newMessages\<rparr>)))"

definition applyEdit :: "jsstr \<Rightarrow> bool \<Rightarrow> jsstr \<times> jsstr \<Rightarrow> bool \<Rightarrow> chat \<Rightarrow> chat" where
  "applyEdit newContent submit a started s =
     (case ch_editing s of
        None \<Rightarrow> s
      | Some key \<Rightarrow>
          if key = [] then s
          else (case find_key key (ch_messages s) of
              None \<Rightarrow> s
            | Some i \<Rightarrow>
                (let updated = map (\<lambda>m. if m_key m = key then replace_content m newContent else m)
                       (ch_messages s);
                     s' = s\<lparr>ch_editing := None\<rparr>
                 in if \<not> submit \<or> m_from (updated ! i) \<noteq> User then s'\<lparr>ch_messages := updated\<rparr>
                    else (let toSubmit = take (Suc i) updated @
                            [createLoadingAssistantMessage (fst a) (snd a)]
                          in sendChat started toSubmit (s'\<lparr>ch_messages := toSubmit\<rparr>)))))"

definition handleDeleteMessage :: "jsstr \<Rightarrow> chat \<Rightarrow> chat" where
  "handleDeleteMessage key s =
     s\<lparr>ch_messages := filter (\<lambda>m. m_key m \<noteq> key) (ch_messages s)\<rparr>"

text \<open>\<open>guardAction\<close>: nothing but a warning while an answer is being generated.\<close>

definition guardAction :: "(chat \<Rightarrow> chat) \<Rightarrow> chat \<Rightarrow> chat" where
  "guardAction action s = (if isGenerating s then s else action s)"

datatype config_change = SetModel jsstr | SetGroup jsstr | SetStream bool | SetNumber jsstr "jsnum option"

fun updateConfig :: "config_change \<Rightarrow> playground_config \<Rightarrow> playground_config" where
  "updateConfig (SetModel v) c = c\<lparr>cf_model := v\<rparr>"
| "updateConfig (SetGroup v) c = c\<lparr>cf_group := v\<rparr>"
| "updateConfig (SetStream v) c = c\<lparr>cf_stream := v\<rparr>"
| "updateConfig (SetNumber k (Some x)) c = c\<lparr>cf_numbers := obj_put k x (cf_numbers c)\<rparr>"
| "updateConfig (SetNumber k None) c = c\<lparr>cf_numbers := filter (\<lambda>(j, x). j \<noteq> k) (cf_numbers c)\<rparr>"

definition updateParameterEnabled :: "jsstr \<Rightarrow> bool \<Rightarrow> (jsstr \<times> bool) list \<Rightarrow> (jsstr \<times> bool) list" where
  "updateParameterEnabled k b enabled = obj_put k b enabled"

text \<open>The effects that keep the chosen model and group among those on offer.\<close>

definition model_effect :: "model_option list \<Rightarrow> playground_config \<Rightarrow> playground_config" where
  "model_effect models c =
     (if models \<noteq> [] \<and> \<not> list_ex (\<lambda>m. mo_value m = cf_model c) models
      then c\<lparr>cf_model := mo_value (hd models)\<rparr> else c)"

definition group_effect :: "jsstr list \<Rightarrow> playground_config \<Rightarrow> playground_config" where
  "group_effect groups c =
     (if cf_group c \<notin> set groups \<and> groups \<noteq> []
      then c\<lparr>cf_group := (if J ''default'' \<in> set groups then J ''default'' else hd groups)\<rparr> else c)"

definition resetConfig :: "chat \<Rightarrow> chat" where
  "resetConfig s = s\<lparr>ch_config := DEFAULT_CONFIG, ch_enabled := DEFAULT_PARAMETER_ENABLED\<rparr>"

definition clearMessages :: "chat \<Rightarrow> chat" where
  "clearMessages s = s\<lparr>ch_messages := []\<rparr>"

text \<open>The page is loaded again: the stored messages are those of the last update.\<close>

definition start_chat :: "message list \<Rightarrow> playground_config \<Rightarrow> (jsstr \<times> bool) list \<Rightarrow> chat" where
  "start_chat ms config enabled =
     \<lparr>ch_messages = sanitizeMessagesOnLoad ms, ch_config = config, ch_enabled = enabled,
      ch_editing = None, ch_source = None, ch_complete = False, ch_open = [], ch_next = 0,
      ch_sent = [], ch_requests = 0\<rparr>"

definition reload :: "chat \<Rightarrow> chat" where
  "reload s = start_chat (ch_messages s) (ch_config s) (ch_enabled s)"

datatype chat_event =
  Send jsstr "jsstr \<times> jsstr" "jsstr \<times> jsstr" bool
| Suggest jsstr "jsstr \<times> jsstr" "jsstr \<times> jsstr" bool
| Regenerate jsstr "jsstr \<times> jsstr" bool
| EditMessage jsstr
| CancelEdit
| ApplyEdit jsstr bool "jsstr \<times> jsstr" bool
| DeleteMessage jsstr
| Stop
| Configure config_change
| Enable jsstr bool
| Sse nat sse_event
| Reply reply
| Reload

text \<open>
  The text box is disabled while an answer is generated and sends no blank text; a suggestion is
  sent as it is, whenever it is clicked. The stop button is there only while an answer is
  generated, and an edit is applied only by the editor, which is open.
\<close>

definition chat_step :: "chat_event \<Rightarrow> chat \<Rightarrow> chat option" where
  "chat_step e s =
     (case e of
        Send tx u a started \<Rightarrow>
          if trim tx = [] \<or> isGenerating s then None else Some (handleSendMessage tx u a started s)
      | Suggest tx u a started \<Rightarrow> Some (handleSendMessage tx u a started s)
      | Regenerate key a started \<Rightarrow> Some (guardAction (handleRegenerateMessage key a started) s)
      | EditMessage key \<Rightarrow> Some (guardAction (\<lambda>s. s\<lparr>ch_editing := Some key\<rparr>) s)
      | CancelEdit \<Rightarrow> Some (s\<lparr>ch_editing := None\<rparr>)
      | ApplyEdit content submit a started \<Rightarrow>
          if ch_editing s = None then None else Some (applyEdit content submit a started s)
      | DeleteMessage key \<Rightarrow> Some (guardAction (handleDeleteMessage key) s)
      | Stop \<Rightarrow> if isGenerating s then Some (stopGeneration s) else None
      | Configure c \<Rightarrow> Some (s\<lparr>ch_config := updateConfig c (ch_config s)\<rparr>)
      | Enable k b \<Rightarrow> Some (s\<lparr>ch_enabled := updateParameterEnabled k b (ch_enabled s)\<rparr>)
      | Sse k ev \<Rightarrow> if k < ch_next s then Some (sse_handler k ev s) else None
      | Reply r \<Rightarrow>
          if ch_requests s = 0 then None
          else Some (s\<lparr>ch_requests := ch_requests s - 1, ch_messages := apply_reply r (ch_messages s)\<rparr>)
      | Reload \<Rightarrow> Some (reload s))"

inductive chat_run :: "chat \<Rightarrow> chat_event list \<Rightarrow> chat \<Rightarrow> bool" where
  run_start: "chat_run s [] s"
| run_step: "chat_run s es t \<Longrightarrow> chat_step e t = Some u \<Longrightarrow> chat_run s (es @ [e]) u"

inductive_cases run_snocE: "chat_run s (es @ [e]) u"

section \<open>One answer at a time\<close>

text \<open>
  The discipline under which the two refs are enough: streaming is on, nothing is submitted while
  an answer is generated, and a closed source reports nothing more.
\<close>

definition orderly :: "chat_event \<Rightarrow> chat \<Rightarrow> bool" where
  "orderly e s =
     (case e of
        Suggest _ _ _ _ \<Rightarrow> \<not> isGenerating s
      | ApplyEdit _ submit _ _ \<Rightarrow> \<not> submit \<or> \<not> isGenerating s
      | Configure c \<Rightarrow> c \<noteq> SetStream False
      | Sse k _ \<Rightarrow> k \<in> set (ch_open s)
      | _ \<Rightarrow> True)"

inductive reachable :: "chat \<Rightarrow> bool" where
  reach_start: "length (filter pending ms) \<le> 1 \<Longrightarrow> cf_stream c \<Longrightarrow> reachable (start_chat ms c en)"
| reach_step: "reachable s \<Longrightarrow> orderly e s \<Longrightarrow> chat_step e s = Some t \<Longrightarrow> reachable t"

definition settled :: "message list \<Rightarrow> bool" where
  "settled ms \<longleftrightarrow> (\<forall>m \<in> set ms. \<not> pending m)"

definition awaiting :: "message list \<Rightarrow> bool" where
  "awaiting ms \<longleftrightarrow> ms \<noteq> [] \<and> pending (last ms) \<and> settled (butlast ms)"

definition one_answer :: "chat \<Rightarrow> bool" where
  "one_answer s \<longleftrightarrow> ch_requests s = 0 \<and> cf_stream (ch_config s) \<and>
     (case ch_source s of
        None \<Rightarrow> ch_open s = [] \<and> settled (ch_messages s)
      | Some k \<Rightarrow> ch_open s = [k] \<and> k < ch_next s \<and> \<not> ch_complete s \<and> awaiting (ch_messages s))"

lemma settled_simps [simp]:
  "settled []" "settled (m # ms) \<longleftrightarrow> \<not> pending m \<and> settled ms"
  "settled (xs @ ys) \<longleftrightarrow> settled xs \<and> settled ys"
  by (auto simp: settled_def)

lemma awaiting_snoc [simp]: "awaiting (ms @ [m]) \<longleftrightarrow> pending m \<and> settled ms"
  by (simp add: awaiting_def)

lemma awaitingE:
  assumes "awaiting ms"
  obtains as m where "ms = as @ [m]" "pending m" "settled as"
  using assms by (metis awaiting_def append_butlast_last_id)

lemma pending_assistant: "pending m \<Longrightarrow> m_from m = Assistant"
  by (simp add: pending_def)

lemma update_last [simp]:
  "updateLastAssistantMessage f (as @ [m]) = (if m_from m = Assistant then as @ [f m] else as @ [m])"
  by (simp add: updateLastAssistantMessage_def)

lemma loading_pending [simp]: "pending (createLoadingAssistantMessage k v)"
  by (simp add: createLoadingAssistantMessage_def pending_def)

lemma user_not_pending [simp]: "\<not> pending (createUserMessage k v t)"
  by (simp add: createUserMessage_def pending_def)

lemma processed_keeps [simp]:
  "m_from (processStreamingContent m c) = m_from m"
  by (simp add: processStreamingContent_def Let_def)

lemma update_awaiting: "awaiting ms \<Longrightarrow> awaiting (handleStreamUpdate kind c ms)"
  by (erule awaitingE) (auto simp: handleStreamUpdate_def pending_def)

lemma updates_awaiting:
  "awaiting ms \<Longrightarrow> awaiting (fold (\<lambda>(kind, c). handleStreamUpdate kind c) us ms)"
  by (induction us arbitrary: ms) (auto simp: update_awaiting split: prod.splits)

lemma complete_settles: "awaiting ms \<Longrightarrow> settled (handleStreamComplete ms)"
  by (erule awaitingE) (auto simp: handleStreamComplete_def pending_def)

lemma error_settles: "awaiting ms \<Longrightarrow> settled (handleStreamError e c ms)"
  by (erule awaitingE) (auto simp: handleStreamError_def updateAssistantMessageWithError_def pending_def)

lemma stop_settles: "awaiting ms \<Longrightarrow> settled (settle_stopped ms)"
  by (erule awaitingE) (auto simp: settle_stopped_def pending_def)

lemma replaced_pending [simp]: "pending (replace_content m c) = pending m"
  by (simp add: replace_content_def pending_def)

lemma map_pending:
  assumes "\<And>m. pending (f m) = pending m"
  shows "settled (map f ms) = settled ms" "awaiting (map f ms) = awaiting ms"
  using assms by (cases "ms = []"; simp add: settled_def awaiting_def last_map map_butlast [symmetric])+

lemma edited_pending:
  assumes "ns = map (\<lambda>m. if m_key m = k then replace_content m c else m) ms"
  shows "settled ns = settled ms" "awaiting ns = awaiting ms"
  unfolding assms by (intro map_pending; simp)+

lemma settled_take: "settled ms \<Longrightarrow> settled (take i ms)"
  by (auto simp: settled_def dest: in_set_takeD)

lemma settled_filter: "settled ms \<Longrightarrow> settled (filter P ms)"
  by (auto simp: settled_def)

lemma loaded_settled:
  "length (filter pending ms) \<le> 1 \<Longrightarrow> settled (sanitizeMessagesOnLoad ms)"
proof -
  assume a: "length (filter pending ms) \<le> 1"
  have "length (filter pending (sanitizeMessagesOnLoad ms)) = length (filter pending ms) - 1"
  proof (cases "last_pending ms")
    case None
    then have "filter pending ms = []" by (simp add: last_pending_None filter_empty_conv)
    with None show ?thesis by (simp add: sanitizeMessagesOnLoad_def)
  next
    case (Some i)
    then obtain a x b where "ms = a @ x # b" "sanitizeMessagesOnLoad ms = a @ sanitized x # b"
      "pending x" "\<forall>m \<in> set b. \<not> pending m"
      using loaded_list [OF Some] last_pending_Some [OF Some] by blast
    then show ?thesis by simp
  qed
  with a have "filter pending (sanitizeMessagesOnLoad ms) = []" by simp
  then show ?thesis by (auto simp: settled_def filter_empty_conv)
qed

lemma pending_count:
  "settled ms \<Longrightarrow> length (filter pending ms) \<le> 1" "awaiting ms \<Longrightarrow> length (filter pending ms) \<le> 1"
  by (auto simp: settled_def filter_False elim!: awaitingE)

lemma start_one_answer:
  "length (filter pending ms) \<le> 1 \<Longrightarrow> cf_stream c \<Longrightarrow> one_answer (start_chat ms c en)"
  by (simp add: one_answer_def start_chat_def loaded_settled)

lemma ask_one_answer:
  assumes "one_answer s" "ch_source s = None" "settled ms"
  shows "one_answer (sendChat started (ms @ [createLoadingAssistantMessage k v])
    (s\<lparr>ch_editing := ed, ch_messages := ms @ [createLoadingAssistantMessage k v]\<rparr>))"
  using assms error_settles [of "ms @ [createLoadingAssistantMessage k v]"]
  by (simp add: one_answer_def sendChat_def sendStreamRequest_def Let_def)

lemma ask_same_editing:
  "one_answer s \<Longrightarrow> ch_source s = None \<Longrightarrow> settled ms \<Longrightarrow>
    one_answer (sendChat started (ms @ [createLoadingAssistantMessage k v])
      (s\<lparr>ch_messages := ms @ [createLoadingAssistantMessage k v]\<rparr>))"
  using ask_one_answer [of s ms started k v "ch_editing s"] by simp

lemma sse_one_answer:
  assumes "one_answer s" "k \<in> set (ch_open s)"
  shows "one_answer (sse_handler k ev s)"
proof -
  from assms have s: "ch_source s = Some k" "ch_open s = [k]" "k < ch_next s" "\<not> ch_complete s"
    "awaiting (ch_messages s)" "ch_requests s = 0" "cf_stream (ch_config s)"
    by (auto simp: one_answer_def split: option.splits)
  have e: "one_answer (handleError k err code s)" for err code
    using s error_settles [OF s(5)] by (simp add: handleError_def closeSource_def one_answer_def)
  show ?thesis
  proof (cases ev)
    case (SseMessage d)
    then show ?thesis using s e complete_settles [OF s(5)] updates_awaiting [OF s(5)]
      by (auto simp: sse_handler_def on_message_def closeSource_def one_answer_def split: sum.splits)
  next
    case (SseError r d)
    then show ?thesis using assms(1) e
      by (auto simp: sse_handler_def on_error_def split: prod.splits)
  next
    case (SseReadyState r st)
    then show ?thesis using assms(1) e
      by (auto simp: sse_handler_def on_readystate_def split: option.splits)
  qed
qed

lemma edit_one_answer:
  assumes "one_answer s" "\<not> submit \<or> ch_source s = None"
  shows "one_answer (applyEdit c submit a started s)"
proof (cases "ch_editing s")
  case None
  with assms show ?thesis by (simp add: applyEdit_def)
next
  case (Some key)
  define ns where ns: "ns = map (\<lambda>m. if m_key m = key then replace_content m c else m) (ch_messages s)"
  note p = edited_pending [OF ns]
  have keep: "one_answer (s\<lparr>ch_editing := None, ch_messages := ns\<rparr>)"
    using assms(1) p by (auto simp: one_answer_def split: option.splits)
  show ?thesis
  proof (cases "find_key key (ch_messages s)")
    case None
    with Some assms show ?thesis by (simp add: applyEdit_def)
  next
    case f: (Some i)
    have ask: "one_answer (sendChat started (take (Suc i) ns @ [createLoadingAssistantMessage (fst a) (snd a)])
        (s\<lparr>ch_editing := None,
          ch_messages := take (Suc i) ns @ [createLoadingAssistantMessage (fst a) (snd a)]\<rparr>))" if "ch_source s = None"
      using that assms(1) p
      by (intro ask_one_answer) (auto simp: one_answer_def intro: settled_take)
    have e: "applyEdit c submit a started s =
      (if key = [] then s
       else if \<not> submit \<or> m_from (ns ! i) \<noteq> User then s\<lparr>ch_editing := None, ch_messages := ns\<rparr>
       else sendChat started (take (Suc i) ns @ [createLoadingAssistantMessage (fst a) (snd a)])
         (s\<lparr>ch_editing := None, ch_messages := take (Suc i) ns @ [createLoadingAssistantMessage (fst a) (snd a)]\<rparr>))"
      by (simp add: applyEdit_def Some f Let_def ns)
    have "ch_source s = None" if "submit" using that assms(2) by simp
    with keep ask assms(1) show ?thesis unfolding e by simp
  qed
qed

lemma guarded_one_answer:
  "one_answer s \<Longrightarrow> (\<not> isGenerating s \<Longrightarrow> one_answer (f s)) \<Longrightarrow> one_answer (guardAction f s)"
  by (simp add: guardAction_def)

lemma editing_one_answer [simp]: "one_answer (s\<lparr>ch_editing := k\<rparr>) = one_answer s"
  by (simp add: one_answer_def split: option.splits)

lemma idle_settled: "one_answer s \<Longrightarrow> \<not> isGenerating s \<Longrightarrow> ch_source s = None \<and> settled (ch_messages s)"
  by (auto simp: isGenerating_def one_answer_def split: option.splits)

lemma send_one_answer:
  "one_answer s \<Longrightarrow> \<not> isGenerating s \<Longrightarrow> one_answer (handleSendMessage tx u a started s)"
  using idle_settled [of s] ask_same_editing [of s "ch_messages s @ [createUserMessage (fst u) (snd u) tx]"
    started "fst a" "snd a"]
  by (simp add: handleSendMessage_def Let_def)

lemma regenerate_one_answer:
  "one_answer s \<Longrightarrow> one_answer (guardAction (handleRegenerateMessage key a started) s)"
  by (rule guarded_one_answer, assumption)
    (use idle_settled [of s] ask_same_editing settled_take in
      \<open>auto simp: handleRegenerateMessage_def Let_def split: option.splits\<close>)

lemma delete_one_answer: "one_answer s \<Longrightarrow> one_answer (guardAction (handleDeleteMessage key) s)"
  by (rule guarded_one_answer, assumption)
    (use idle_settled [of s] in \<open>auto simp: one_answer_def handleDeleteMessage_def settled_filter\<close>)

lemma stop_one_answer: "one_answer s \<Longrightarrow> isGenerating s \<Longrightarrow> one_answer (stopGeneration s)"
  using stop_settles [of "ch_messages s"]
  by (auto simp: stopGeneration_def stopStream_def closeSource_def one_answer_def isGenerating_def
      split: option.splits)

lemma reload_one_answer: "one_answer s \<Longrightarrow> one_answer (reload s)"
  unfolding reload_def using pending_count [of "ch_messages s"]
  by (intro start_one_answer) (auto simp: one_answer_def split: option.splits)

lemma configure_streams:
  "cf_stream cfg \<Longrightarrow> c \<noteq> SetStream False \<Longrightarrow> cf_stream (updateConfig c cfg)"
  by (cases "(c, cfg)" rule: updateConfig.cases) auto

lemma step_one_answer:
  assumes "one_answer s" "orderly e s" "chat_step e s = Some t"
  shows "one_answer t"
proof (cases e)
  case (Send tx u a started)
  with assms(1,3) send_one_answer show ?thesis
    by (cases u; cases a) (auto simp: chat_step_def split: if_splits)
next
  case (Suggest tx u a started)
  with assms send_one_answer show ?thesis
    by (cases u; cases a) (auto simp: chat_step_def orderly_def)
next
  case (Regenerate key a started)
  with assms(1,3) regenerate_one_answer [of s key a started] show ?thesis by (simp add: chat_step_def)
next
  case (EditMessage key)
  with assms(1,3) guarded_one_answer [OF assms(1), of "\<lambda>s. s\<lparr>ch_editing := Some key\<rparr>"]
  show ?thesis by (auto simp: chat_step_def)
next
  case (ApplyEdit c submit a started)
  with assms edit_one_answer [of s submit c a started] show ?thesis
    by (auto simp: chat_step_def orderly_def isGenerating_def split: if_splits)
next
  case (Configure c)
  with assms configure_streams [of "ch_config s" c] show ?thesis
    by (auto simp: chat_step_def orderly_def one_answer_def split: option.splits)
next
  case (Sse k ev)
  with assms sse_one_answer [of s k ev] show ?thesis
    by (auto simp: chat_step_def orderly_def split: if_splits)
next
  case (DeleteMessage key)
  with assms(1,3) delete_one_answer show ?thesis by (auto simp: chat_step_def)
next
  case Stop
  with assms(1,3) stop_one_answer show ?thesis by (auto simp: chat_step_def split: if_splits)
next
  case Reload
  with assms(1,3) reload_one_answer show ?thesis by (auto simp: chat_step_def)
qed (use assms(1,3) in \<open>auto simp: chat_step_def one_answer_def split: option.splits\<close>)

lemma reachable_one_answer: "reachable s \<Longrightarrow> one_answer s"
  by (induction rule: reachable.induct) (auto intro: start_one_answer step_one_answer)

section \<open>Properties\<close>

lemma idle_or_generating:
  assumes "reachable s"
  shows "\<not> isGenerating s \<Longrightarrow> ch_open s = [] \<and> settled (ch_messages s)"
    "isGenerating s \<Longrightarrow> \<exists>k. ch_source s = Some k \<and> ch_open s = [k] \<and> k < ch_next s \<and>
       \<not> ch_complete s \<and> awaiting (ch_messages s)"
  using reachable_one_answer [OF assms]
  by (auto simp: one_answer_def isGenerating_def split: option.splits)

definition first_chat :: chat where
  "first_chat = start_chat [] DEFAULT_CONFIG DEFAULT_PARAMETER_ENABLED"

definition asked_chat :: chat where
  "asked_chat = handleSendMessage (J ''Hi'') (J ''u1'', J ''v1'') (J ''a1'', J ''w1'') True first_chat"

lemma first_reachable: "reachable first_chat"
  unfolding first_chat_def by (rule reach_start) (simp_all add: DEFAULT_CONFIG_def)

lemma asked_fields:
  "ch_source asked_chat = Some 0" "ch_next asked_chat = 1"
  "ch_messages asked_chat = [createUserMessage (J ''u1'') (J ''v1'') (J ''Hi''),
     createLoadingAssistantMessage (J ''a1'') (J ''w1'')]"
  by (simp_all add: asked_chat_def first_chat_def handleSendMessage_def sendChat_def start_chat_def
      sendStreamRequest_def DEFAULT_CONFIG_def sanitizeMessagesOnLoad_def Let_def)

lemma asked_reachable: "reachable asked_chat"
proof (rule reach_step [OF first_reachable])
  show "chat_step (Send (J ''Hi'') (J ''u1'', J ''v1'') (J ''a1'', J ''w1'') True) first_chat = Some asked_chat"
    by (simp add: chat_step_def asked_chat_def isGenerating_def first_chat_def start_chat_def
        trim_def is_ws_def)
qed (simp add: orderly_def)

text \<open>C6. With streaming on, no submission while an answer is generated and no event of a closed
  source, there is one answer at a time: when idle no source is open and no message is pending; while
  generating the ref holds the only open source and exactly the last message is pending, an
  assistant's. Whenever the page is reloaded, no message is left pending.\<close>

theorem one_answer_at_a_time:
  assumes "reachable s"
  shows "(\<not> isGenerating s \<longrightarrow> ch_open s = [] \<and> settled (ch_messages s)) \<and>
    (isGenerating s \<longrightarrow> (\<exists>k. ch_source s = Some k \<and> ch_open s = [k]) \<and> awaiting (ch_messages s) \<and>
       m_from (last (ch_messages s)) = Assistant) \<and>
    settled (sanitizeMessagesOnLoad (ch_messages s))"
proof -
  have "settled (sanitizeMessagesOnLoad (ch_messages s))"
    using idle_or_generating [OF assms] pending_count [of "ch_messages s"] loaded_settled by blast
  moreover have "m_from (last (ch_messages s)) = Assistant" if "awaiting (ch_messages s)"
    using that by (simp add: awaiting_def pending_assistant)
  ultimately show ?thesis using idle_or_generating [OF assms] by blast
qed

lemma one_answer_at_a_time_witness:
  "ch_open asked_chat = [0] \<and> settled (sanitizeMessagesOnLoad (ch_messages asked_chat))"
  using one_answer_at_a_time [OF asked_reachable] asked_fields by (simp add: isGenerating_def)

text \<open>What a request asks: the messages that have a version, an answer only when it says something, each
  with its role and its current text.\<close>

definition asked_of :: "message \<Rightarrow> (role \<times> jsstr) list" where
  "asked_of m =
     (case m_versions m of
        [] \<Rightarrow> []
      | v # vs \<Rightarrow>
          (case m_from m of
             Assistant \<Rightarrow> if \<exists>c \<in> set (mv_content v). \<not> is_ws c then [(Assistant, mv_content v)] else []
           | r \<Rightarrow> [(r, mv_content v)]))"

lemma payload_asks: "cr_messages (buildChatCompletionPayload ms config enabled) = concat (map asked_of ms)"
  by (induction ms)
    (auto simp: buildChatCompletionPayload_def asked_of_def formatMessageForAPI_def isValidMessage_def
      getCurrentVersion_def trim_eq_Nil split: list.splits role.splits)

lemma placeholder_asks: "asked_of (createLoadingAssistantMessage k v) = []"
  by (simp add: asked_of_def createLoadingAssistantMessage_def createMessageVersion_def)

lemma user_asks: "asked_of (createUserMessage k v tx) = [(User, tx)]"
  by (simp add: asked_of_def createUserMessage_def createMessageVersion_def)

text \<open>What is sent with a placeholder at the end, and what the messages are then.\<close>

lemma ask_request:
  assumes "cf_stream (ch_config s)"
    and "t = sendChat started (ms @ [createLoadingAssistantMessage k v])
      (s\<lparr>ch_editing := ed, ch_messages := ms @ [createLoadingAssistantMessage k v]\<rparr>)"
  shows "\<exists>p. ch_sent t = ch_sent s @ [p] \<and> cr_messages p = concat (map asked_of ms) \<and> butlast (ch_messages t) = ms"
  using assms
  by (simp add: sendChat_def sendStreamRequest_def Let_def payload_asks placeholder_asks handleStreamError_def
      updateAssistantMessageWithError_def pending_assistant)

lemma ask_same_request:
  "cf_stream (ch_config s) \<Longrightarrow>
    t = sendChat started (ms @ [createLoadingAssistantMessage k v])
      (s\<lparr>ch_messages := ms @ [createLoadingAssistantMessage k v]\<rparr>) \<Longrightarrow>
    \<exists>p. ch_sent t = ch_sent s @ [p] \<and> cr_messages p = concat (map asked_of ms) \<and> butlast (ch_messages t) = ms"
  using ask_request [of s t started ms k v "ch_editing s"] by simp

lemma sent_kept:
  "ch_sent (closeSource k s) = ch_sent s" "ch_sent (handleError k err code s) = ch_sent s"
  "ch_sent (sse_handler k ev s) = ch_sent s" "ch_sent (stopGeneration s) = ch_sent s"
proof -
  show c: "ch_sent (closeSource k s) = ch_sent s" for k s by (simp add: closeSource_def)
  show h: "ch_sent (handleError k err code s) = ch_sent s" for err code by (simp add: handleError_def c)
  show "ch_sent (sse_handler k ev s) = ch_sent s"
    by (simp add: sse_handler_def on_message_def on_error_def on_readystate_def c h split: sse_event.split sum.split
        prod.split option.split)
  show "ch_sent (stopGeneration s) = ch_sent s"
    by (simp add: stopGeneration_def stopStream_def c split: option.split)
qed

lemma edit_request:
  assumes "cf_stream (ch_config s)" "t = applyEdit content submit a started s" "ch_sent t \<noteq> ch_sent s"
  shows "\<exists>p. ch_sent t = ch_sent s @ [p] \<and> cr_messages p = concat (map asked_of (butlast (ch_messages t)))"
proof -
  obtain key where e: "ch_editing s = Some key" using assms(2,3) by (cases "ch_editing s") (auto simp: applyEdit_def)
  let ?ns = "map (\<lambda>m. if m_key m = key then replace_content m content else m) (ch_messages s)"
  obtain i where i: "find_key key (ch_messages s) = Some i"
    using assms(2,3) e by (cases "find_key key (ch_messages s)") (auto simp: applyEdit_def split: if_splits)
  have "t = sendChat started (take (Suc i) ?ns @ [createLoadingAssistantMessage (fst a) (snd a)])
      (s\<lparr>ch_editing := None, ch_messages := take (Suc i) ?ns @ [createLoadingAssistantMessage (fst a) (snd a)]\<rparr>)"
    using assms(2,3) e i by (auto simp: applyEdit_def Let_def split: if_splits)
  from ask_request [OF assms(1) this] show ?thesis by auto
qed

lemma regenerate_request:
  assumes "cf_stream (ch_config s)" "t = handleRegenerateMessage key a started s" "ch_sent t \<noteq> ch_sent s"
  shows "\<exists>p. ch_sent t = ch_sent s @ [p] \<and> cr_messages p = concat (map asked_of (butlast (ch_messages t)))"
proof (cases "find_key key (ch_messages s)")
  case (Some i)
  then have "t = sendChat started (take i (ch_messages s) @ [createLoadingAssistantMessage (fst a) (snd a)])
      (s\<lparr>ch_messages := take i (ch_messages s) @ [createLoadingAssistantMessage (fst a) (snd a)]\<rparr>)"
    using assms(2) by (simp add: handleRegenerateMessage_def Let_def)
  from ask_same_request [OF assms(1) this] show ?thesis by auto
qed (use assms(2,3) in \<open>simp add: handleRegenerateMessage_def\<close>)

lemma send_request:
  assumes "cf_stream (ch_config s)" "t = handleSendMessage tx u a started s"
  shows "\<exists>p. ch_sent t = ch_sent s @ [p] \<and> cr_messages p = concat (map asked_of (butlast (ch_messages t))) \<and>
    cr_messages p = concat (map asked_of (ch_messages s)) @ [(User, tx)]"
proof -
  have "t = sendChat started ((ch_messages s @ [createUserMessage (fst u) (snd u) tx]) @
      [createLoadingAssistantMessage (fst a) (snd a)])
    (s\<lparr>ch_messages := (ch_messages s @ [createUserMessage (fst u) (snd u) tx]) @
      [createLoadingAssistantMessage (fst a) (snd a)]\<rparr>)"
    using assms(2) by (simp add: handleSendMessage_def Let_def)
  from ask_same_request [OF assms(1) this] show ?thesis by (auto simp: user_asks)
qed

text \<open>C19. What a request carries. In an orderly run, a request that a step sends has the messages before
  the last one, the placeholder of the answer: those of the user and the system with their text, an
  answer only when it is not blank, all in their order and none of an answer that is still arriving. The
  request of a new message has all messages so far and ends with the new text.\<close>

theorem request_messages:
  assumes "reachable s" "orderly e s" "chat_step e s = Some t" "e \<noteq> Reload" "ch_sent t \<noteq> ch_sent s"
  shows "\<exists>p. ch_sent t = ch_sent s @ [p] \<and> cr_messages p = concat (map asked_of (butlast (ch_messages t))) \<and>
    settled (butlast (ch_messages t)) \<and>
    (case e of
       Send tx _ _ _ \<Rightarrow> cr_messages p = concat (map asked_of (ch_messages s)) @ [(User, tx)]
     | Suggest tx _ _ _ \<Rightarrow> cr_messages p = concat (map asked_of (ch_messages s)) @ [(User, tx)]
     | _ \<Rightarrow> True)"
proof -
  have stream: "cf_stream (ch_config s)" using reachable_one_answer [OF assms(1)] by (simp add: one_answer_def)
  have settled: "settled (butlast (ch_messages t))"
    using idle_or_generating [OF reach_step [OF assms(1-3)]]
    by (cases "isGenerating t") (auto simp: awaiting_def settled_def dest: in_set_butlastD)
  have "\<exists>p. ch_sent t = ch_sent s @ [p] \<and> cr_messages p = concat (map asked_of (butlast (ch_messages t))) \<and>
    (case e of
       Send tx _ _ _ \<Rightarrow> cr_messages p = concat (map asked_of (ch_messages s)) @ [(User, tx)]
     | Suggest tx _ _ _ \<Rightarrow> cr_messages p = concat (map asked_of (ch_messages s)) @ [(User, tx)]
     | _ \<Rightarrow> True)"
  proof (cases e)
    case (Send tx u a started)
    then have "t = handleSendMessage tx u a started s" using assms(3) by (auto simp: chat_step_def split: if_splits)
    from send_request [OF stream this] Send show ?thesis by simp
  next
    case (Suggest tx u a started)
    then have "t = handleSendMessage tx u a started s" using assms(3) by (auto simp: chat_step_def)
    from send_request [OF stream this] Suggest show ?thesis by simp
  next
    case (Regenerate key a started)
    then have "t = handleRegenerateMessage key a started s"
      using assms(3,5) by (auto simp: chat_step_def guardAction_def split: if_splits)
    from regenerate_request [OF stream this assms(5)] Regenerate show ?thesis by simp
  next
    case (ApplyEdit content submit a started)
    then have "t = applyEdit content submit a started s" using assms(3) by (auto simp: chat_step_def split: if_splits)
    from edit_request [OF stream this assms(5)] ApplyEdit show ?thesis by simp
  qed (use assms(3-5) in \<open>auto simp: chat_step_def guardAction_def handleDeleteMessage_def sent_kept split: if_splits\<close>)
  with settled show ?thesis by blast
qed

theorem request_messages_witness:
  "ch_sent asked_chat \<noteq> [] \<and> cr_messages (last (ch_sent asked_chat)) = [(User, J ''Hi'')]"
proof -
  let ?e = "Send (J ''Hi'') (J ''u1'', J ''v1'') (J ''a1'', J ''w1'') True"
  have step: "chat_step ?e first_chat = Some asked_chat"
    by (simp add: chat_step_def asked_chat_def isGenerating_def first_chat_def start_chat_def trim_def is_ws_def)
  have "orderly ?e first_chat" by (simp add: orderly_def)
  moreover have "ch_sent first_chat = []" "ch_messages first_chat = []"
    by (simp_all add: first_chat_def start_chat_def sanitizeMessagesOnLoad_def)
  moreover have "ch_sent asked_chat \<noteq> []"
    by (simp add: asked_chat_def first_chat_def handleSendMessage_def sendChat_def start_chat_def
      sendStreamRequest_def DEFAULT_CONFIG_def Let_def)
  ultimately show ?thesis
    using request_messages [OF first_reachable _ step] by (auto simp del: J_Cons)
qed

text \<open>The life of an answer: nothing asked, waiting for its first chunk, answering.\<close>

datatype phase = Idle | Waiting | Answering

definition phase_of :: "chat \<Rightarrow> phase" where
  "phase_of s =
     (if \<not> isGenerating s then Idle
      else if m_status (last (ch_messages s)) = Some Loading then Waiting else Answering)"

fun asks :: "chat_event \<Rightarrow> bool" where
  "asks (Send _ _ _ _) = True"
| "asks (Suggest _ _ _ _) = True"
| "asks (Regenerate _ _ _) = True"
| "asks (ApplyEdit _ submit _ _) = submit"
| "asks _ = False"

fun ends :: "chat_event \<Rightarrow> bool" where
  "ends Stop = True"
| "ends Reload = True"
| "ends (Sse _ _) = True"
| "ends _ = False"

inductive phase_step :: "phase \<Rightarrow> chat_event \<Rightarrow> phase \<Rightarrow> bool" where
  ask: "asks e \<Longrightarrow> phase_step Idle e Waiting"
| chunk: "phase_step Waiting (Sse k (SseMessage d)) Answering"
| finish: "ends e \<Longrightarrow> phase_step p e Idle"
| stay: "e \<noteq> Stop \<Longrightarrow> e \<noteq> Reload \<Longrightarrow> phase_step p e p"

inductive_simps phase_step_idle: "phase_step Idle e q"
inductive_simps phase_step_waiting: "phase_step Waiting e q"
inductive_simps phase_step_answering: "phase_step Answering e q"

lemma awaiting_status: "awaiting ms \<Longrightarrow> m_status (last ms) = Some Loading \<or> m_status (last ms) = Some Streaming"
  by (auto simp: awaiting_def pending_def)



lemma phase_idle [simp]: "ch_source s = None \<Longrightarrow> phase_of s = Idle"
  by (simp add: phase_of_def isGenerating_def)



















section \<open>Chunks\<close>

definition stream_chunks :: "jsstr list \<Rightarrow> message list \<Rightarrow> message list" where
  "stream_chunks cs ms = fold (handleStreamUpdate ContentUpdate) cs ms"

lemma stream_chunks_snoc:
  "stream_chunks (cs @ [c]) ms = handleStreamUpdate ContentUpdate c (stream_chunks cs ms)"
  by (simp add: stream_chunks_def)

definition streamed :: "message \<Rightarrow> jsstr \<Rightarrow> reasoning option \<Rightarrow> message" where
  "streamed m s r = m\<lparr>m_versions := [(getCurrentVersion m)\<lparr>mv_content := s\<rparr>], m_reasoning := r,
     m_isReasoningStreaming := Some (pc_unclosed (parseThinkTags s)), m_status := Some Streaming\<rparr>"

definition reasoning_read :: "jsstr \<Rightarrow> reasoning option \<Rightarrow> reasoning option" where
  "reasoning_read s r =
     (let t = pc_reasoning (parseThinkTags s) in
      if t \<noteq> [] then Some \<lparr>rs_content = t, rs_duration = 0\<rparr> else r)"

lemma process_streamed:
  "(processStreamingContent m c)\<lparr>m_status := Some Streaming\<rparr> =
     streamed m (mv_content (getCurrentVersion m) @ c)
       (reasoning_read (mv_content (getCurrentVersion m) @ c) (m_reasoning m))"
  by (simp add: processStreamingContent_def streamed_def reasoning_read_def updateCurrentVersionContent_def Let_def)

lemma streamed_streamed [simp]: "streamed (streamed m s r) s' r' = streamed m s' r'"
  by (simp add: streamed_def getCurrentVersion_def)

lemma streamed_fields [simp]:
  "mv_content (getCurrentVersion (streamed m s r)) = s" "m_reasoning (streamed m s r) = r"
  "m_from (streamed m s r) = m_from m" "m_status (streamed m s r) = Some Streaming"
  by (simp_all add: streamed_def getCurrentVersion_def)

lemma no_tag_prefix: "\<not> js_includes (u @ v) p \<Longrightarrow> \<not> js_includes u p"
  unfolding js_includes_iff by (metis append_assoc)

lemma reasoning_none: "\<not> js_includes s open_tag \<Longrightarrow> reasoning_read s r = r"
  by (simp add: reasoning_read_def parseThinkTags_def)

lemma chunks_streamed:
  assumes "pending m" "cs \<noteq> []"
  defines "s \<equiv> mv_content (getCurrentVersion m) @ concat cs"
  shows "\<exists>r. stream_chunks cs (as @ [m]) = as @ [streamed m s r] \<and>
    (\<not> js_includes s open_tag \<longrightarrow> r = m_reasoning m) \<and> reasoning_read s r = r"
  using assms(2) unfolding s_def
proof (induction cs rule: rev_nonempty_induct)
  case (single c)
  let ?s = "mv_content (getCurrentVersion m) @ c"
  have "stream_chunks [c] (as @ [m]) = as @ [streamed m ?s (reasoning_read ?s (m_reasoning m))]"
    using assms(1) by (auto simp: stream_chunks_def handleStreamUpdate_def pending_def process_streamed)
  moreover have "reasoning_read ?s (reasoning_read ?s (m_reasoning m)) = reasoning_read ?s (m_reasoning m)"
    by (simp add: reasoning_read_def Let_def)
  ultimately show ?case by (auto simp: reasoning_none)
next
  case (snoc c cs)
  let ?p = "mv_content (getCurrentVersion m) @ concat cs"
  let ?s = "mv_content (getCurrentVersion m) @ concat (cs @ [c])"
  from snoc.IH obtain r where r: "stream_chunks cs (as @ [m]) = as @ [streamed m ?p r]"
    "\<not> js_includes ?p open_tag \<longrightarrow> r = m_reasoning m" by blast
  have "stream_chunks (cs @ [c]) (as @ [m]) = as @ [streamed m ?s (reasoning_read ?s r)]"
    using r(1) assms(1) by (simp add: stream_chunks_snoc handleStreamUpdate_def pending_def process_streamed)
  moreover have "\<not> js_includes ?s open_tag \<longrightarrow> reasoning_read ?s r = m_reasoning m"
    using r(2) no_tag_prefix [of ?p c open_tag] by (auto simp: reasoning_none)
  moreover have "reasoning_read ?s (reasoning_read ?s r) = reasoning_read ?s r"
    by (simp add: reasoning_read_def Let_def)
  ultimately show ?case by blast
qed

text \<open>C16. How an answer is cut into chunks does not matter, as long as the whole text has no opening think
  tag or some reasoning that is not empty: for a conversation that awaits an answer, and any two ways to
  cut the same text into at least one chunk, the message is the same once the stream is complete, its
  visible text being what the think sections leave. Of an empty section whose closing tag is cut, a part
  of the tag can be left as reasoning.\<close>

theorem chunking_irrelevant:
  assumes "awaiting ms" "concat cs = concat ds" "cs \<noteq> []" "ds \<noteq> []"
    and "\<not> js_includes s open_tag \<or> pc_reasoning (parseThinkTags s) \<noteq> []"
    and "s = mv_content (getCurrentVersion (last ms)) @ concat cs"
  shows "handleStreamComplete (stream_chunks cs ms) = handleStreamComplete (stream_chunks ds ms) \<and>
    mv_content (getCurrentVersion (last (handleStreamComplete (stream_chunks cs ms)))) =
      pc_visible (parseThinkTags s)"
proof -
  from assms(1) obtain as m where ms: "ms = as @ [m]" "pending m" by (elim awaitingE)
  then have s: "s = mv_content (getCurrentVersion m) @ concat cs" using assms(6) by simp
  obtain r where r: "stream_chunks cs ms = as @ [streamed m s r]"
    "\<not> js_includes s open_tag \<longrightarrow> r = m_reasoning m" "reasoning_read s r = r"
    using chunks_streamed [OF ms(2) assms(3)] s ms(1) by blast
  obtain q where q: "stream_chunks ds ms = as @ [streamed m s q]"
    "\<not> js_includes s open_tag \<longrightarrow> q = m_reasoning m" "reasoning_read s q = q"
    using chunks_streamed [OF ms(2) assms(4)] s ms(1) assms(2) by metis
  have "r = q"
  proof (cases "js_includes s open_tag")
    case True
    with assms(5) have "pc_reasoning (parseThinkTags s) \<noteq> []" by blast
    with r(3) q(3) show ?thesis by (simp add: reasoning_read_def)
  qed (use r(2) q(2) in simp)
  moreover have "mv_content (getCurrentVersion (last (handleStreamComplete (as @ [streamed m s r])))) =
      pc_visible (parseThinkTags s)"
    using pending_assistant [OF ms(2)]
    by (simp add: handleStreamComplete_def finalizeMessage_def Let_def getCurrentVersion_def
        updateCurrentVersionContent_def)
      (simp add: streamed_def)
  ultimately show ?thesis using r(1) q(1) by simp
qed

lemma chunking_irrelevant_witness:
  "handleStreamComplete (stream_chunks [J ''Hel'', J ''lo''] (ch_messages asked_chat)) =
   handleStreamComplete (stream_chunks [J ''H'', J ''ello''] (ch_messages asked_chat))"
proof -
  have "awaiting (ch_messages asked_chat)"
    using idle_or_generating(2) [OF asked_reachable] asked_fields by (simp add: isGenerating_def)
  moreover have "mv_content (getCurrentVersion (last (ch_messages asked_chat))) = []"
    by (simp add: asked_fields createLoadingAssistantMessage_def createMessageVersion_def getCurrentVersion_def)
  moreover have "concat [J ''Hel'', J ''lo''] = concat [J ''H'', J ''ello'']"
    "\<not> js_includes ([] @ concat [J ''Hel'', J ''lo'']) open_tag" by code_simp+
  ultimately show ?thesis
    using chunking_irrelevant [of "ch_messages asked_chat" "[J ''Hel'', J ''lo'']" "[J ''H'', J ''ello'']"
        "[] @ concat [J ''Hel'', J ''lo'']"] by (metis list.distinct(1))
qed

text \<open>An empty think section is the exception: when its closing tag is cut by a chunk boundary, the
  beginning of the tag is taken for reasoning and stays in the finished message, which the same text
  in one chunk does not show.\<close>

theorem cut_closing_tag_left_as_reasoning:
  "m_reasoning (last (handleStreamComplete (stream_chunks [J ''<think></'', J ''think>Hi'']
      [createLoadingAssistantMessage key vid]))) = Some \<lparr>rs_content = J ''</'', rs_duration = 0\<rparr> \<and>
   m_reasoning (last (handleStreamComplete (stream_chunks [J ''<think></think>Hi'']
      [createLoadingAssistantMessage key vid]))) = None"
proof -
  have p: "parseThinkTags (J ''<think></'') =
      \<lparr>pc_visible = [], pc_reasoning = J ''</'', pc_unclosed = True\<rparr>"
    "parseThinkTags (J ''<think></think>Hi'') =
      \<lparr>pc_visible = J ''Hi'', pc_reasoning = [], pc_unclosed = False\<rparr>" by code_simp+
  have c: "J ''<think></'' @ J ''think>Hi'' = J ''<think></think>Hi''" by code_simp
  have "J ''</'' \<noteq> []" by simp
  with p c show ?thesis
    by (simp add: stream_chunks_def handleStreamUpdate_def handleStreamComplete_def updateLastAssistantMessage_def
        createLoadingAssistantMessage_def createMessageVersion_def getCurrentVersion_def finalizeMessage_def
        processStreamingContent_def updateCurrentVersionContent_def reasoning_text_def or_text_def Let_def
        del: J_Cons)
qed

section \<open>Two answers at a time\<close>

lemma update_last_butlast [simp]: "butlast (updateLastAssistantMessage f ms) = butlast ms"
  by (simp add: updateLastAssistantMessage_def)

lemma update_last_length [simp]: "length (updateLastAssistantMessage f ms) = length ms"
  by (cases ms rule: rev_cases) (simp_all add: updateLastAssistantMessage_def)

lemmas handlers = handleStreamUpdate_def handleStreamComplete_def handleStreamError_def
  settle_stopped_def updateAssistantMessageWithError_def

lemma fold_butlast:
  "butlast (fold (\<lambda>(kind, c). handleStreamUpdate kind c) us ms) = butlast ms"
  by (induction us arbitrary: ms) (auto simp: handlers split: prod.splits)

lemma handle_error_butlast: "butlast (ch_messages (handleError k err code s)) = butlast (ch_messages s)"
  by (simp add: handleError_def closeSource_def handlers)

lemma sse_butlast: "butlast (ch_messages (sse_handler k ev s)) = butlast (ch_messages s)"
proof (cases ev)
  case (SseMessage d)
  then show ?thesis
    by (auto simp: sse_handler_def on_message_def closeSource_def handlers fold_butlast handle_error_butlast
        split: sum.splits)
next
  case (SseError r d)
  then show ?thesis
    by (auto simp: sse_handler_def on_error_def handle_error_butlast split: prod.splits)
next
  case (SseReadyState r st)
  then show ?thesis
    by (auto simp: sse_handler_def on_readystate_def handle_error_butlast split: option.splits)
qed

lemma stop_butlast: "butlast (ch_messages (stopGeneration s)) = butlast (ch_messages s)"
  by (simp add: stopGeneration_def stopStream_def closeSource_def handlers)

text \<open>What the network and the stop button can do: the events of any sources, in any order.\<close>

inductive stream_run :: "chat \<Rightarrow> chat \<Rightarrow> bool" where
  no_event: "stream_run s s"
| an_event: "stream_run s t \<Longrightarrow> stream_run s (sse_handler k ev t)"
| a_stop: "stream_run s t \<Longrightarrow> stream_run s (stopGeneration t)"

lemma stream_run_butlast: "stream_run s t \<Longrightarrow> butlast (ch_messages t) = butlast (ch_messages s)"
  by (induction rule: stream_run.induct) (simp_all add: sse_butlast stop_butlast)

text \<open>C38. A suggestion clicked while an answer is generated is sent at once: two sources are open, the
  ref holds the new one, and whatever either source reports afterwards, and whether or not the user
  stops, the first answer stays pending; a report of the first source goes to the second answer.\<close>

theorem suggestion_strands_the_answer:
  assumes "reachable s" "ch_source s = Some k"
    and "chat_step (Suggest tx u a True) s = Some t"
  shows "ch_open t = [ch_next s, k] \<and> ch_source t = Some (ch_next s) \<and>
    (\<forall>v. stream_run t v \<longrightarrow> ch_messages v \<noteq> [] \<longrightarrow>
       ch_messages v ! (length (ch_messages s) - 1) = last (ch_messages s) \<and>
       pending (ch_messages v ! (length (ch_messages s) - 1)))"
proof -
  have g: "isGenerating s" using assms(2) by (simp add: isGenerating_def)
  from idle_or_generating(2) [OF assms(1) g] assms(2)
  have o: "ch_open s = [k]" and w: "awaiting (ch_messages s)" by auto
  have c: "cf_stream (ch_config s)"
    using reachable_one_answer [OF assms(1)] by (simp add: one_answer_def)
  let ?ms = "ch_messages s @ [createUserMessage (fst u) (snd u) tx]"
  have t: "ch_open t = [ch_next s, k]" "ch_source t = Some (ch_next s)"
    "butlast (ch_messages t) = ?ms"
    using assms(3) o c
    by (auto simp: chat_step_def handleSendMessage_def sendChat_def sendStreamRequest_def Let_def
        butlast_append)
  have "ch_messages v ! (length (ch_messages s) - 1) = last (ch_messages s)"
    if "stream_run t v" "ch_messages v \<noteq> []" for v
  proof -
    have "ch_messages v = ?ms @ [last (ch_messages v)]"
      using stream_run_butlast [OF that(1)] t(3) that(2) by (metis append_butlast_last_id)
    then have "ch_messages v ! (length (ch_messages s) - 1) = (?ms @ [last (ch_messages v)]) ! (length (ch_messages s) - 1)"
      by simp
    also have "\<dots> = last (ch_messages s)"
      using w by (simp add: awaiting_def nth_append last_conv_nth)
    finally show ?thesis .
  qed
  moreover have "pending (last (ch_messages s))" using w by (simp add: awaiting_def)
  ultimately show ?thesis using t(1,2) by auto
qed

lemma suggestion_strands_the_answer_witness:
  "ch_open (handleSendMessage (J ''More'') (J ''u2'', J ''v2'') (J ''a2'', J ''w2'') True asked_chat) = [1, 0]"
  using suggestion_strands_the_answer [OF asked_reachable asked_fields(1), of "J ''More''"
      "(J ''u2'', J ''v2'')" "(J ''a2'', J ''w2'')"] asked_fields(2)
  by (simp add: chat_step_def)

text \<open>Without streaming, a reply that holds no choice is dropped: no request is left to answer, no
  source is open, and the answer is still loading.\<close>

lemma empty_reply_leaves_loading:
  assumes "ch_requests s = 1" "ch_messages s = ms @ [createLoadingAssistantMessage key vid]"
  shows "\<exists>t. chat_step (Reply (Choices [])) s = Some t \<and> ch_requests t = 0 \<and>
    ch_source t = ch_source s \<and> pending (last (ch_messages t))"
  using assms by (simp add: chat_step_def apply_reply_def)

lemma empty_reply_leaves_loading_witness:
  "\<exists>t. chat_step (Reply (Choices [])) (first_chat\<lparr>ch_requests := 1,
      ch_messages := [createLoadingAssistantMessage (J ''a'') (J ''v'')]\<rparr>) = Some t \<and> pending (last (ch_messages t))"
  using empty_reply_leaves_loading [of "first_chat\<lparr>ch_requests := 1,
      ch_messages := [createLoadingAssistantMessage (J ''a'') (J ''v'')]\<rparr>" "[]"] by auto

text \<open>An answer that failed stays as it is: no later chunk, end of stream or stop changes the
  conversation while the failed answer is its last message.\<close>

lemma failed_answer_is_final:
  assumes "ms \<noteq> []" "m_status (last ms) = Some Error"
  shows "handleStreamUpdate kind c ms = ms \<and> handleStreamComplete ms = ms \<and> settle_stopped ms = ms"
  using assms by (simp add: handleStreamUpdate_def handleStreamComplete_def settle_stopped_def
      updateLastAssistantMessage_def)

lemma failed_answer_is_final_witness:
  "handleStreamComplete (handleStreamError (J ''x'') None (ch_messages asked_chat)) =
     handleStreamError (J ''x'') None (ch_messages asked_chat)"
  using failed_answer_is_final [of "handleStreamError (J ''x'') None (ch_messages asked_chat)"]
  by (simp add: asked_fields handleStreamError_def updateAssistantMessageWithError_def
      updateLastAssistantMessage_def createLoadingAssistantMessage_def)

end
