(* ===== verification/JsonText.thy ===== *)
theory JsonText
  imports JsObject
begin

text \<open>
  \<open>JSON.stringify\<close> of a value, and the round trip through \<open>JSON.parse\<close> for the values the program
  stores: those without numbers, whose objects have distinct keys that are no array indices.
\<close>

fun json_text :: "json \<Rightarrow> jsstr" where
  "json_text JNull = J ''null''"
| "json_text (JBool b) = (if b then J ''true'' else J ''false'')"
| "json_text (JNum x) = (if is_finite x then to_str x else J ''null'')"
| "json_text (JStr s) = json_quote s"
| "json_text (JArr xs) = [91] @ join [44] (map json_text xs) @ [93]"
| "json_text (JObj m) =
     [123] @ join [44] (map (\<lambda>(k, t). json_quote k @ [58] @ t)
       (own_entries (map (\<lambda>p. (fst p, json_text (snd p))) m))) @ [125]"

fun storable :: "json \<Rightarrow> bool" where
  "storable JNull \<longleftrightarrow> True"
| "storable (JBool b) \<longleftrightarrow> True"
| "storable (JNum x) \<longleftrightarrow> False"
| "storable (JStr s) \<longleftrightarrow> utf16 s"
| "storable (JArr xs) \<longleftrightarrow> list_all storable xs"
| "storable (JObj m) \<longleftrightarrow> distinct (map fst m) \<and>
     list_all (\<lambda>k. utf16 k \<and> \<not> is_index k) (map fst m) \<and> list_all storable (map snd m)"

lemma own_entries_names:
  "list_all (\<lambda>k. \<not> is_index k) (map fst m) \<Longrightarrow> own_entries m = m"
proof -
  assume "list_all (\<lambda>k. \<not> is_index k) (map fst m)"
  then have "filter (\<lambda>(k, v). is_index k) m = []" "filter (\<lambda>(k, v). \<not> is_index k) m = m"
    by (auto simp: list_all_iff filter_empty_conv intro!: filter_True)
  then show ?thesis by (simp add: own_entries_def)
qed

text \<open>What is read from a text whatever follows it, with enough fuel.\<close>

definition reads :: "json \<Rightarrow> bool" where
  "reads v \<longleftrightarrow> (\<forall>r. \<exists>n. \<forall>f \<ge> n. json_value f (json_text v @ r) = Some (v, r))"

lemma skip_ws_self: "\<not> json_ws c \<Longrightarrow> skip_ws (c # s) = c # s"
  by (simp add: skip_ws_def)

lemma text_start:
  assumes "storable v"
  shows "\<exists>c t. json_text v = c # t \<and> \<not> json_ws c \<and> c \<noteq> 93 \<and> c \<noteq> 125"
  using assms by (cases v) (auto simp: json_ws_def json_quote_shape)

lemma enough_fuel:
  assumes "\<exists>n. \<forall>f \<ge> n. P f" "\<exists>n. \<forall>f \<ge> n. Q f"
  shows "\<exists>n. \<forall>f \<ge> n. P f \<and> Q (f :: nat)"
proof -
  from assms obtain a b where "\<forall>f \<ge> a. P f" "\<forall>f \<ge> b. Q f" by blast
  then have "\<forall>f \<ge> max a b. P f \<and> Q f" by simp
  then show ?thesis by blast
qed

lemma fuel_suc:
  assumes "\<exists>n. \<forall>f \<ge> n. P f" "\<And>f. P f \<Longrightarrow> Q (Suc f)"
  shows "\<exists>n. \<forall>f \<ge> n. Q (f :: nat)"
proof -
  from assms(1) obtain a where a: "\<forall>f \<ge> a. P f" by blast
  have "Q f" if "Suc a \<le> f" for f
    using that a assms(2) by (cases f) auto
  then show ?thesis by blast
qed

lemma elems_read:
  assumes "xs \<noteq> []" "\<And>x. x \<in> set xs \<Longrightarrow> reads x"
  shows "\<exists>n. \<forall>f \<ge> n. json_elems f (join [44] (map json_text xs) @ 93 # r) = Some (xs, r)"
  using assms
proof (induction xs)
  case (Cons x xs)
  have x: "\<exists>n. \<forall>f \<ge> n. json_value f (json_text x @ q) = Some (x, q)" for q
    using Cons.prems(2) [of x] by (simp add: reads_def)
  show ?case
  proof (cases "xs = []")
    case True
    have "\<exists>n. \<forall>f \<ge> n. json_elems f (json_text x @ 93 # r) = Some ([x], r)"
      by (rule fuel_suc [OF x [of "93 # r"]]) (simp add: skip_ws_self json_ws_def)
    with True show ?thesis by simp
  next
    case False
    let ?t = "join [44] (map json_text xs) @ 93 # r"
    have ih: "\<exists>n. \<forall>f \<ge> n. json_elems f ?t = Some (xs, r)"
      using Cons.IH [OF False] Cons.prems(2) by simp
    have "\<exists>n. \<forall>f \<ge> n. json_elems f (json_text x @ 44 # ?t) = Some (x # xs, r)"
      by (rule fuel_suc [OF enough_fuel [OF x [of "44 # ?t"] ih]]) (simp add: skip_ws_self json_ws_def)
    with False show ?thesis by (simp add: join_Cons)
  qed
qed simp

lemma obj_put_new: "k \<notin> fst ` set m \<Longrightarrow> obj_put k v m = m @ [(k, v)]"
  by (induction m) auto

definition member_text :: "jsstr \<times> json \<Rightarrow> jsstr" where
  "member_text p = json_quote (fst p) @ [58] @ json_text (snd p)"

lemma members_read:
  assumes "m \<noteq> []" "\<And>p. p \<in> set m \<Longrightarrow> utf16 (fst p) \<and> reads (snd p)" "distinct (map fst (a @ m))"
  shows "\<exists>n. \<forall>f \<ge> n. json_members f a (join [44] (map member_text m) @ 125 # r) = Some (JObj (a @ m), r)"
  using assms
proof (induction m arbitrary: a)
  case (Cons p m)
  obtain k v where p: "p = (k, v)" by (cases p)
  have v: "\<exists>n. \<forall>f \<ge> n. json_value f (json_text v @ q) = Some (v, q)" for q
    using Cons.prems(2) [of p] p by (simp add: reads_def)
  have k: "utf16 k" "k \<notin> fst ` set a" using Cons.prems(2) [of p] Cons.prems(3) p by auto
  have q: "read_body (json_body k @ 34 # t) = Some (k, t)" for t using read_json_body [OF k(1)] .
  note put = obj_put_new [OF k(2), of v]
  show ?case
  proof (cases "m = []")
    case True
    have "\<exists>n. \<forall>f \<ge> n. json_members f a (member_text p @ 125 # r) = Some (JObj (a @ [p]), r)"
      by (rule fuel_suc [OF v [of "125 # r"]])
        (simp add: p q put member_text_def json_quote_shape skip_ws_self json_ws_def)
    with True show ?thesis by simp
  next
    case False
    let ?t = "join [44] (map member_text m) @ 125 # r"
    have ih: "\<exists>n. \<forall>f \<ge> n. json_members f (a @ [p]) ?t = Some (JObj ((a @ [p]) @ m), r)"
      using Cons.IH [OF False, of "a @ [p]"] Cons.prems by simp
    have "\<exists>n. \<forall>f \<ge> n. json_members f a (member_text p @ 44 # ?t) = Some (JObj (a @ p # m), r)"
      by (rule fuel_suc [OF enough_fuel [OF v [of "44 # ?t"] ih]])
        (simp add: p q put member_text_def json_quote_shape skip_ws_self json_ws_def)
    with False show ?thesis by (simp add: join_Cons)
  qed
qed simp

lemma object_text:
  "list_all (\<lambda>k. utf16 k \<and> \<not> is_index k) (map fst m) \<Longrightarrow>
    json_text (JObj m) = 123 # join [44] (map member_text m) @ [125]"
proof -
  assume a: "list_all (\<lambda>k. utf16 k \<and> \<not> is_index k) (map fst m)"
  let ?m = "map (\<lambda>p. (fst p, json_text (snd p))) m"
  have "list_all (\<lambda>k. \<not> is_index k) (map fst ?m)" using a by (auto simp: list_all_iff)
  then have "own_entries ?m = ?m" by (rule own_entries_names)
  then show ?thesis by (simp add: member_text_def [abs_def] case_prod_unfold comp_def)
qed

lemma fuel_any:
  assumes "\<And>f. P (Suc f)"
  shows "\<exists>n. \<forall>f \<ge> n. P (f :: nat)"
  by (rule fuel_suc [of "\<lambda>f. True"]) (use assms in auto)

lemma array_reads:
  assumes "\<And>x. x \<in> set xs \<Longrightarrow> reads x \<and> storable x"
  shows "reads (JArr xs)"
proof (cases "xs = []")
  case True
  then show ?thesis
    by (auto simp: reads_def skip_ws_self json_ws_def starts_with_def intro!: fuel_any)
next
  case False
  then obtain y ys where xs: "xs = y # ys" by (cases xs) auto
  with assms obtain c t where c: "json_text y = c # t" "\<not> json_ws c" "c \<noteq> 93"
    using text_start [of y] by auto
  let ?t = "\<lambda>r. join [44] (map json_text xs) @ 93 # r"
  have st: "\<not> starts_with (skip_ws (?t r)) [93]" for r
    using c xs by (cases ys) (simp_all add: skip_ws_self)
  have e: "\<exists>n. \<forall>f \<ge> n. json_elems f (?t r) = Some (xs, r)" for r
    using elems_read [OF False] assms by blast
  have "\<exists>n. \<forall>f \<ge> n. json_value f (91 # ?t r) = Some (JArr xs, r)" for r
    by (rule fuel_suc [OF e [of r]]) (simp add: st skip_ws_self json_ws_def)
  then show ?thesis by (simp add: reads_def)
qed

lemma object_reads:
  assumes "\<And>p. p \<in> set m \<Longrightarrow> utf16 (fst p) \<and> reads (snd p)"
    and "list_all (\<lambda>k. utf16 k \<and> \<not> is_index k) (map fst m)" "distinct (map fst m)"
  shows "reads (JObj m)"
proof (cases "m = []")
  case True
  then show ?thesis
    by (auto simp: reads_def skip_ws_self json_ws_def starts_with_def own_entries_def intro!: fuel_any)
next
  case False
  then obtain q ms where m: "m = q # ms" by (cases m) auto
  let ?t = "\<lambda>r. join [44] (map member_text m) @ 125 # r"
  have st: "\<not> starts_with (skip_ws (?t r)) [125]" for r
    using m by (cases ms) (simp_all add: skip_ws_self member_text_def json_quote_shape json_ws_def)
  have e: "\<exists>n. \<forall>f \<ge> n. json_members f [] (?t r) = Some (JObj ([] @ m), r)" for r
    using members_read [OF False, of "[]"] assms(1,3) by simp
  have "\<exists>n. \<forall>f \<ge> n. json_value f (123 # ?t r) = Some (JObj m, r)" for r
    by (rule fuel_suc [OF e [of r]]) (simp add: st skip_ws_self json_ws_def)
  then show ?thesis using object_text [OF assms(2)] by (simp add: reads_def)
qed

lemma storable_reads: "storable v \<Longrightarrow> reads v"
proof (induction v rule: storable.induct)
  case 1
  show ?case by (auto simp: reads_def skip_ws_self json_ws_def starts_with_def intro!: fuel_any)
next
  case (2 b)
  show ?case by (auto simp: reads_def skip_ws_self json_ws_def starts_with_def intro!: fuel_any)
next
  case (4 s)
  then show ?case
    by (auto simp: reads_def json_quote_shape read_json_body intro!: fuel_any)
next
  case (5 xs)
  then show ?case by (intro array_reads) (auto simp: list_all_iff)
next
  case (6 m)
  then show ?case by (intro object_reads) (auto simp: list_all_iff)
qed simp

text \<open>\<open>JSON.parse(JSON.stringify(v)) = v\<close>.\<close>

lemma json_round_trip: "storable v \<Longrightarrow> json_parse (json_text v) = Inr v"
proof -
  assume "storable v"
  then obtain n where n: "\<forall>f \<ge> n. json_value f (json_text v) = Some (v, [])"
    using storable_reads [of v] by (auto simp: reads_def dest: spec [of _ "[]"])
  let ?l = "2 * length (json_text v)"
  have "json_value (max n (?l + 1)) (json_text v) = Some (v, [])" using n by simp
  then have "json_value (?l + 1) (json_text v) = Some (v, [])"
    using json_fuel_enough [of "json_text v" "max n (?l + 1)"] by simp
  then have "json_value (?l + 2) (json_text v) = Some (v, [])"
    using json_fuel_enough [of "json_text v" "?l + 2"] by simp
  then show ?thesis by (simp add: json_parse_def)
qed

end
