(* ===== verification/NavModules.thy ===== *)
theory NavModules
  imports JsonText JsRegex
begin

text \<open>
  The modules of the header navigation, \<open>lib/nav-modules.ts\<close>, which an administrator configures
  and the server hands out as a JSON text in its status, and the cached copy of the status,
  \<open>lib/status-cache.ts\<close>.

  A value of type \<open>unknown\<close> is a JSON value, \<open>None\<close> when it is \<open>undefined\<close>. The constructor
  \<open>new URL(s)\<close> of the platform is the parameter \<open>url\<close>: the parts of the parsed address, or \<open>None\<close>
  when it throws.
\<close>

section \<open>The configuration\<close>

record module_access =
  ma_enabled :: bool
  ma_requireAuth :: bool

record ai_creation =
  ai_enabled :: bool
  ai_baseUrl :: jsstr

record custom_link =
  cl_id :: jsstr
  cl_title :: jsstr
  cl_href :: jsstr
  cl_enabled :: bool
  cl_external :: bool
  cl_newWindow :: bool
  cl_requireAuth :: "bool option"

record nav_modules =
  nm_home :: bool
  nm_partner :: bool
  nm_agentAccess :: bool
  nm_aiCreation :: ai_creation
  nm_console :: bool
  nm_pricing :: module_access
  nm_subscription :: module_access
  nm_rankings :: module_access
  nm_docs :: bool
  nm_about :: bool
  nm_newWindow :: "(jsstr \<times> bool) list"
  nm_order :: "jsstr list"
  nm_customLinks :: "custom_link list"

record nav_item =
  ni_id :: jsstr
  ni_titleKey :: jsstr
  ni_href :: jsstr
  ni_enabled :: bool
  ni_external :: bool
  ni_newWindow :: bool
  ni_requireAuth :: bool
  ni_custom :: bool

definition open_access :: module_access where
  "open_access = \<lparr>ma_enabled = True, ma_requireAuth = False\<rparr>"

definition BUILT_IN_HEADER_NAV_ORDER :: "jsstr list" where
  "BUILT_IN_HEADER_NAV_ORDER =
     [J ''home'', J ''partner'', J ''agentAccess'', J ''aiCreation'', J ''console'',
      J ''subscription'', J ''pricing'', J ''rankings'', J ''docs'', J ''about'']"

definition DEFAULT_HEADER_NAV_MODULES :: nav_modules where
  "DEFAULT_HEADER_NAV_MODULES =
     \<lparr>nm_home = True, nm_partner = True, nm_agentAccess = True,
      nm_aiCreation = \<lparr>ai_enabled = False, ai_baseUrl = []\<rparr>, nm_console = True,
      nm_pricing = open_access, nm_subscription = open_access, nm_rankings = open_access,
      nm_docs = True, nm_about = True,
      nm_newWindow = [(J ''agentAccess'', False), (J ''docs'', True)],
      nm_order = BUILT_IN_HEADER_NAV_ORDER, nm_customLinks = []\<rparr>"

text \<open>The fixed part of a built-in item: title, address, external, new window.\<close>

definition BUILT_IN_HEADER_NAV_ITEMS :: "(jsstr \<times> jsstr \<times> jsstr \<times> bool \<times> bool) list" where
  "BUILT_IN_HEADER_NAV_ITEMS =
     [(J ''home'', J ''Home'', J ''/'', False, False),
      (J ''partner'', J ''Partner Program'', J ''/partner'', False, False),
      (J ''agentAccess'', J ''Agent Access'', J ''/docs/apps'', False, False),
      (J ''aiCreation'', J ''AI Creation'', J ''/ai-creation'', False, False),
      (J ''console'', J ''Console'', J ''/dashboard'', False, False),
      (J ''pricing'', J ''Model Price'', J ''/pricing'', False, False),
      (J ''subscription'', J ''Subscriptions'', J ''/subscription'', False, False),
      (J ''rankings'', J ''Rankings'', J ''/rankings'', False, False),
      (J ''docs'', J ''Docs'', J ''/docs'', False, True),
      (J ''about'', J ''About'', J ''/about'', False, False)]"

definition getBuiltInHeaderNavItem :: "jsstr \<Rightarrow> nav_item option" where
  "getBuiltInHeaderNavItem k =
     map_option (\<lambda>(title, href, external, newWindow).
       \<lparr>ni_id = k, ni_titleKey = title, ni_href = href, ni_enabled = False, ni_external = external,
        ni_newWindow = newWindow, ni_requireAuth = False, ni_custom = False\<rparr>)
     (map_of BUILT_IN_HEADER_NAV_ITEMS k)"

text \<open>The names \<open>in\<close> finds on the prototype of every object.\<close>

definition object_prototype :: "jsstr list" where
  "object_prototype =
     [J ''constructor'', J ''__defineGetter__'', J ''__defineSetter__'', J ''hasOwnProperty'',
      J ''__lookupGetter__'', J ''__lookupSetter__'', J ''isPrototypeOf'', J ''propertyIsEnumerable'',
      J ''toString'', J ''valueOf'', J ''__proto__'', J ''toLocaleString'']"

definition isHeaderNavBuiltInModule :: "jsstr \<Rightarrow> bool" where
  "isHeaderNavBuiltInModule k \<longleftrightarrow>
     k \<in> set (map fst BUILT_IN_HEADER_NAV_ITEMS) \<or> k \<in> set object_prototype"

section \<open>Reading values\<close>

text \<open>
  \<open>s.toLowerCase()\<close> compared with an ASCII word: no other character has a lower case among the
  letters of \<open>true\<close> and \<open>false\<close>.
\<close>

definition ascii_lower :: "int \<Rightarrow> int" where
  "ascii_lower c = (if 65 \<le> c \<and> c \<le> 90 then c + 32 else c)"

definition parseHeaderNavBoolean :: "json option \<Rightarrow> bool \<Rightarrow> bool" where
  "parseHeaderNavBoolean raw fallback =
     (case raw of
        Some (JBool b) \<Rightarrow> b
      | Some (JNum x) \<Rightarrow> if num_eq x (Fin 1) then True else if num_eq x (Fin 0) then False else fallback
      | Some (JStr s) \<Rightarrow>
          (let normalized = map ascii_lower (trim s) in
           if normalized = J ''true'' \<or> normalized = J ''1'' then True
           else if normalized = J ''false'' \<or> normalized = J ''0'' then False
           else fallback)
      | _ \<Rightarrow> fallback)"

text \<open>The properties of an object, and those an array has under the names the program asks for.\<close>

definition record_of :: "json \<Rightarrow> (jsstr \<times> json) list option" where
  "record_of v = (case v of JObj m \<Rightarrow> Some m | JArr _ \<Rightarrow> Some [] | _ \<Rightarrow> None)"

definition parseAccess :: "json option \<Rightarrow> module_access \<Rightarrow> module_access" where
  "parseAccess raw fallback =
     (case raw of
        None \<Rightarrow> fallback
      | Some JNull \<Rightarrow> fallback
      | Some v \<Rightarrow>
          (case record_of v of
             None \<Rightarrow> fallback\<lparr>ma_enabled := parseHeaderNavBoolean raw (ma_enabled fallback)\<rparr>
           | Some m \<Rightarrow>
               \<lparr>ma_enabled = parseHeaderNavBoolean (map_of m (J ''enabled'')) (ma_enabled fallback),
                ma_requireAuth =
                  parseHeaderNavBoolean (map_of m (J ''requireAuth'')) (ma_requireAuth fallback)\<rparr>))"

record url_parts =
  u_protocol :: jsstr
  u_username :: jsstr
  u_password :: jsstr
  u_pathname :: jsstr
  u_search :: jsstr
  u_hash :: jsstr
  u_origin :: jsstr

definition normalizeOpenMosaicBaseUrl :: "(jsstr \<Rightarrow> url_parts option) \<Rightarrow> json option \<Rightarrow> jsstr" where
  "normalizeOpenMosaicBaseUrl url raw =
     (case raw of
        Some (JStr s) \<Rightarrow>
          if trim s = [] then []
          else (case url (trim s) of
              None \<Rightarrow> []
            | Some u \<Rightarrow>
                if (u_protocol u \<noteq> J ''http:'' \<and> u_protocol u \<noteq> J ''https:'') \<or> u_username u \<noteq> [] \<or>
                   u_password u \<noteq> [] \<or> u_pathname u \<noteq> J ''/'' \<or> u_search u \<noteq> [] \<or> u_hash u \<noteq> []
                then [] else u_origin u)
      | _ \<Rightarrow> [])"

definition parseAICreation :: "(jsstr \<Rightarrow> url_parts option) \<Rightarrow> json option \<Rightarrow> ai_creation \<Rightarrow> ai_creation" where
  "parseAICreation url raw fallback =
     (case Option.bind raw record_of of
        None \<Rightarrow> fallback
      | Some m \<Rightarrow>
          \<lparr>ai_enabled = parseHeaderNavBoolean (map_of m (J ''enabled'')) (ai_enabled fallback),
           ai_baseUrl = normalizeOpenMosaicBaseUrl url (map_of m (J ''baseUrl''))\<rparr>)"

definition parseHeaderNavRecord :: "json option \<Rightarrow> json option" where
  "parseHeaderNavRecord raw =
     (case truthy raw of
        None \<Rightarrow> None
      | Some v \<Rightarrow>
          if trim (js_string v) = [] then None
          else if record_of v \<noteq> None then Some v
          else (case json_parse (js_string v) of Inl _ \<Rightarrow> None | Inr w \<Rightarrow> Some w))"

fun string_items :: "json list \<Rightarrow> jsstr list" where
  "string_items [] = []"
| "string_items (JStr s # xs) = trim s # string_items xs"
| "string_items (x # xs) = string_items xs"

definition parseStringList :: "json option \<Rightarrow> jsstr list \<Rightarrow> jsstr list" where
  "parseStringList raw fallback =
     (case raw of Some (JArr xs) \<Rightarrow> uniq (nonempty (string_items xs)) | _ \<Rightarrow> fallback)"

definition built_in_new_window :: "jsstr \<Rightarrow> bool" where
  "built_in_new_window k \<longleftrightarrow>
     (case map_of BUILT_IN_HEADER_NAV_ITEMS k of Some (_, _, _, w) \<Rightarrow> w | None \<Rightarrow> False)"

definition parseBuiltInNewWindow :: "json option \<Rightarrow> (jsstr \<times> bool) list \<Rightarrow> (jsstr \<times> bool) list" where
  "parseBuiltInNewWindow raw fallback =
     (case Option.bind raw record_of of
        None \<Rightarrow> fallback
      | Some m \<Rightarrow>
          map (\<lambda>k. (k, parseHeaderNavBoolean (map_of m k)
                 (case map_of fallback k of Some b \<Rightarrow> b | None \<Rightarrow> built_in_new_window k)))
            BUILT_IN_HEADER_NAV_ORDER)"

section \<open>Custom links\<close>

definition custom_prefix :: jsstr where "custom_prefix = J ''custom:''"

definition normalizeCustomLinkId :: "json option \<Rightarrow> nat \<Rightarrow> jsstr" where
  "normalizeCustomLinkId raw i =
     (let given = (case raw of
            Some (JStr s) \<Rightarrow>
              if starts_with (trim s) custom_prefix then drop 7 (trim s) else trim s
          | _ \<Rightarrow> [])
      in if given \<noteq> [] then given else J ''link-'' @ dec (int i + 1))"

text \<open>\<open>/i\<close> without \<open>/u\<close> compares by upper case, which joins no other character to an ASCII letter.\<close>

definition folded :: "int \<Rightarrow> rx" where
  "folded c = RChr (\<lambda>d. ascii_lower d = c)"

definition r_folded :: "jsstr \<Rightarrow> rx" where
  "r_folded s = rcat (map folded s)"

definition DOCS_ROUTE :: rx where
  "DOCS_ROUTE =
     rcat [RBos, rlit (J ''/''),
       ropt (rcat [RChr (\<lambda>c. 97 \<le> ascii_lower c \<and> ascii_lower c \<le> 122),
                   RChr (\<lambda>c. 97 \<le> ascii_lower c \<and> ascii_lower c \<le> 122), rlit (J ''/'')]),
       r_folded (J ''docs''), RAlt (rlit (J ''/'')) REos]"

definition EXTERNAL_HREF :: rx where
  "EXTERNAL_HREF =
     rcat [RBos, r_folded (J ''http''), ropt (folded 115), rlit (J ''://'')]"

definition isDocsDocumentRoute :: "jsstr \<Rightarrow> bool" where
  "isDocsDocumentRoute href \<longleftrightarrow> rx_test DOCS_ROUTE (trim href)"

definition isExternalHeaderNavHref :: "jsstr \<Rightarrow> bool" where
  "isExternalHeaderNavHref href \<longleftrightarrow> rx_test EXTERNAL_HREF href \<or> isDocsDocumentRoute href"

definition trimmed_text :: "json option \<Rightarrow> jsstr" where
  "trimmed_text v = (case v of Some (JStr s) \<Rightarrow> trim s | _ \<Rightarrow> [])"

definition make_link :: "nat \<Rightarrow> (jsstr \<times> json) list \<Rightarrow> jsstr \<Rightarrow> jsstr \<Rightarrow> custom_link" where
  "make_link i m title href =
     (let external = (if isDocsDocumentRoute href then True
            else parseHeaderNavBoolean (map_of m (J ''external'')) (isExternalHeaderNavHref href))
      in \<lparr>cl_id = normalizeCustomLinkId (map_of m (J ''id'')) i, cl_title = title, cl_href = href,
          cl_enabled = parseHeaderNavBoolean (map_of m (J ''enabled'')) True, cl_external = external,
          cl_newWindow = parseHeaderNavBoolean (map_of m (J ''newWindow'')) external,
          cl_requireAuth = Some (parseHeaderNavBoolean (map_of m (J ''requireAuth'')) False)\<rparr>)"

text \<open>One item of the list: the link it makes, if any.\<close>

definition read_link :: "nat \<Rightarrow> json \<Rightarrow> custom_link option" where
  "read_link i item =
     (case record_of item of
        None \<Rightarrow> None
      | Some m \<Rightarrow>
          (let title = trimmed_text (map_of m (J ''title''));
               href = trimmed_text (map_of m (J ''href''))
           in if title = [] \<or> href = [] then None else Some (make_link i m title href)))"

fun link_loop :: "nat \<Rightarrow> custom_link list \<Rightarrow> json list \<Rightarrow> custom_link list" where
  "link_loop i acc [] = acc"
| "link_loop i acc (item # items) =
     (case read_link i item of
        None \<Rightarrow> link_loop (Suc i) acc items
      | Some l \<Rightarrow>
          if cl_id l \<in> cl_id ` set acc then link_loop (Suc i) acc items
          else link_loop (Suc i) (acc @ [l]) items)"

definition parseCustomLinks :: "json option \<Rightarrow> custom_link list" where
  "parseCustomLinks raw = (case raw of Some (JArr xs) \<Rightarrow> link_loop 0 [] xs | _ \<Rightarrow> [])"

section \<open>The order\<close>

definition custom_key :: "custom_link \<Rightarrow> jsstr" where
  "custom_key l = custom_prefix @ cl_id l"

definition valid_ids :: "custom_link list \<Rightarrow> jsstr list" where
  "valid_ids links = uniq (BUILT_IN_HEADER_NAV_ORDER @ map custom_key links)"

fun order_loop :: "jsstr list \<Rightarrow> jsstr list \<Rightarrow> jsstr list \<Rightarrow> jsstr list" where
  "order_loop ids acc [] = acc"
| "order_loop ids acc (item # items) =
     (if item \<notin> set ids \<or> item \<in> set acc then order_loop ids acc items
      else order_loop ids (acc @ [item]) items)"

definition mergeHeaderNavOrder :: "jsstr list \<Rightarrow> custom_link list \<Rightarrow> jsstr list" where
  "mergeHeaderNavOrder order links =
     (let ids = valid_ids links; merged = order_loop ids [] order in
      merged @ filter (\<lambda>k. k \<notin> set merged) ids)"

section \<open>Parsing and writing the configuration\<close>

text \<open>The modules that are plain flags.\<close>

definition get_flag :: "nav_modules \<Rightarrow> jsstr \<Rightarrow> bool option" where
  "get_flag m k =
     (if k = J ''home'' then Some (nm_home m)
      else if k = J ''partner'' then Some (nm_partner m)
      else if k = J ''agentAccess'' then Some (nm_agentAccess m)
      else if k = J ''console'' then Some (nm_console m)
      else if k = J ''docs'' then Some (nm_docs m)
      else if k = J ''about'' then Some (nm_about m)
      else None)"

definition set_flag :: "jsstr \<Rightarrow> bool \<Rightarrow> nav_modules \<Rightarrow> nav_modules" where
  "set_flag k b m =
     (if k = J ''home'' then m\<lparr>nm_home := b\<rparr>
      else if k = J ''partner'' then m\<lparr>nm_partner := b\<rparr>
      else if k = J ''agentAccess'' then m\<lparr>nm_agentAccess := b\<rparr>
      else if k = J ''console'' then m\<lparr>nm_console := b\<rparr>
      else if k = J ''docs'' then m\<lparr>nm_docs := b\<rparr>
      else if k = J ''about'' then m\<lparr>nm_about := b\<rparr>
      else m)"

definition get_access :: "nav_modules \<Rightarrow> jsstr \<Rightarrow> module_access option" where
  "get_access m k =
     (if k = J ''pricing'' then Some (nm_pricing m)
      else if k = J ''subscription'' then Some (nm_subscription m)
      else if k = J ''rankings'' then Some (nm_rankings m)
      else None)"

definition set_access :: "jsstr \<Rightarrow> module_access \<Rightarrow> nav_modules \<Rightarrow> nav_modules" where
  "set_access k a m =
     (if k = J ''pricing'' then m\<lparr>nm_pricing := a\<rparr>
      else if k = J ''subscription'' then m\<lparr>nm_subscription := a\<rparr>
      else if k = J ''rankings'' then m\<lparr>nm_rankings := a\<rparr>
      else m)"

definition is_scalar :: "json \<Rightarrow> bool" where
  "is_scalar v \<longleftrightarrow> (case v of JBool _ \<Rightarrow> True | JNum _ \<Rightarrow> True | JStr _ \<Rightarrow> True | _ \<Rightarrow> False)"

text \<open>One entry of the parsed object.\<close>

definition read_module :: "(jsstr \<Rightarrow> url_parts option) \<Rightarrow> jsstr \<times> json \<Rightarrow> nav_modules \<Rightarrow> nav_modules" where
  "read_module url e m =
     (case e of (k, v) \<Rightarrow>
        if k = J ''aiCreation'' then m\<lparr>nm_aiCreation := parseAICreation url (Some v) (nm_aiCreation m)\<rparr>
        else if k = J ''order'' then m\<lparr>nm_order := parseStringList (Some v) (nm_order m)\<rparr>
        else if k = J ''customLinks'' then m\<lparr>nm_customLinks := parseCustomLinks (Some v)\<rparr>
        else if k = J ''newWindow''
        then m\<lparr>nm_newWindow := parseBuiltInNewWindow (Some v) (nm_newWindow m)\<rparr>
        else (case get_access m k of
            Some a \<Rightarrow> set_access k (parseAccess (Some v) a) m
          | None \<Rightarrow>
              (case get_flag m k of
                 Some b \<Rightarrow> if is_scalar v then set_flag k (parseHeaderNavBoolean (Some v) b) m else m
               | None \<Rightarrow> m)))"

definition with_merged_order :: "nav_modules \<Rightarrow> nav_modules" where
  "with_merged_order m = m\<lparr>nm_order := mergeHeaderNavOrder (nm_order m) (nm_customLinks m)\<rparr>"

definition parseHeaderNavModules :: "(jsstr \<Rightarrow> url_parts option) \<Rightarrow> json option \<Rightarrow> nav_modules" where
  "parseHeaderNavModules url raw =
     with_merged_order
       (case truthy (parseHeaderNavRecord raw) of
          Some (JObj m) \<Rightarrow> fold (read_module url) (own_entries m) DEFAULT_HEADER_NAV_MODULES
        | _ \<Rightarrow> DEFAULT_HEADER_NAV_MODULES)"

definition access_json :: "module_access \<Rightarrow> json" where
  "access_json a = JObj [(J ''enabled'', JBool (ma_enabled a)), (J ''requireAuth'', JBool (ma_requireAuth a))]"

definition link_json :: "custom_link \<Rightarrow> json" where
  "link_json l =
     JObj ([(J ''id'', JStr (cl_id l)), (J ''title'', JStr (cl_title l)), (J ''href'', JStr (cl_href l)),
        (J ''enabled'', JBool (cl_enabled l)), (J ''external'', JBool (cl_external l)),
        (J ''newWindow'', JBool (cl_newWindow l))] @
       (case cl_requireAuth l of Some b \<Rightarrow> [(J ''requireAuth'', JBool b)] | None \<Rightarrow> []))"

text \<open>The fields in the order of the defaults, which every configuration is spread from.\<close>

definition modules_json :: "nav_modules \<Rightarrow> json" where
  "modules_json m =
     JObj [(J ''home'', JBool (nm_home m)), (J ''partner'', JBool (nm_partner m)),
       (J ''agentAccess'', JBool (nm_agentAccess m)),
       (J ''aiCreation'', JObj [(J ''enabled'', JBool (ai_enabled (nm_aiCreation m))),
          (J ''baseUrl'', JStr (ai_baseUrl (nm_aiCreation m)))]),
       (J ''console'', JBool (nm_console m)), (J ''pricing'', access_json (nm_pricing m)),
       (J ''subscription'', access_json (nm_subscription m)),
       (J ''rankings'', access_json (nm_rankings m)), (J ''docs'', JBool (nm_docs m)),
       (J ''about'', JBool (nm_about m)),
       (J ''newWindow'', JObj (map (\<lambda>(k, b). (k, JBool b)) (nm_newWindow m))),
       (J ''order'', JArr (map JStr (nm_order m))),
       (J ''customLinks'', JArr (map link_json (nm_customLinks m)))]"

definition serializeHeaderNavModules :: "(jsstr \<Rightarrow> url_parts option) \<Rightarrow> nav_modules \<Rightarrow> jsstr" where
  "serializeHeaderNavModules url m =
     json_text (modules_json (with_merged_order
       (m\<lparr>nm_aiCreation := (nm_aiCreation m)\<lparr>ai_baseUrl :=
            normalizeOpenMosaicBaseUrl url (Some (JStr (ai_baseUrl (nm_aiCreation m))))\<rparr>\<rparr>)))"

section \<open>Reading and changing a module\<close>

definition getHeaderNavModuleEnabled :: "nav_modules \<Rightarrow> jsstr \<Rightarrow> bool option" where
  "getHeaderNavModuleEnabled m k =
     (if k = J ''aiCreation'' then Some (ai_enabled (nm_aiCreation m))
      else (case get_access m k of Some a \<Rightarrow> Some (ma_enabled a) | None \<Rightarrow> get_flag m k))"

definition getHeaderNavModuleRequireAuth :: "nav_modules \<Rightarrow> jsstr \<Rightarrow> bool" where
  "getHeaderNavModuleRequireAuth m k =
     (if k = J ''aiCreation'' then True
      else (case get_access m k of Some a \<Rightarrow> ma_requireAuth a | None \<Rightarrow> False))"

definition getHeaderNavModuleNewWindow :: "nav_modules \<Rightarrow> jsstr \<Rightarrow> bool" where
  "getHeaderNavModuleNewWindow m k =
     parseHeaderNavBoolean (map_option JBool (map_of (nm_newWindow m) k)) (built_in_new_window k)"

definition withHeaderNavModuleEnabled :: "nav_modules \<Rightarrow> jsstr \<Rightarrow> bool \<Rightarrow> nav_modules" where
  "withHeaderNavModuleEnabled m k b =
     (if k = J ''aiCreation'' then m\<lparr>nm_aiCreation := (nm_aiCreation m)\<lparr>ai_enabled := b\<rparr>\<rparr>
      else (case get_access m k of
          Some a \<Rightarrow> set_access k (a\<lparr>ma_enabled := b\<rparr>) m
        | None \<Rightarrow> set_flag k b m))"

definition withAICreationBaseUrl :: "nav_modules \<Rightarrow> jsstr \<Rightarrow> nav_modules" where
  "withAICreationBaseUrl m baseUrl = m\<lparr>nm_aiCreation := (nm_aiCreation m)\<lparr>ai_baseUrl := baseUrl\<rparr>\<rparr>"

definition withHeaderNavModuleRequireAuth :: "nav_modules \<Rightarrow> jsstr \<Rightarrow> bool \<Rightarrow> nav_modules" where
  "withHeaderNavModuleRequireAuth m k b =
     (case get_access m k of None \<Rightarrow> m | Some a \<Rightarrow> set_access k (a\<lparr>ma_requireAuth := b\<rparr>) m)"

definition withHeaderNavModuleNewWindow :: "nav_modules \<Rightarrow> jsstr \<Rightarrow> bool \<Rightarrow> nav_modules" where
  "withHeaderNavModuleNewWindow m k b = m\<lparr>nm_newWindow := obj_put k b (nm_newWindow m)\<rparr>"

section \<open>The items shown\<close>

text \<open>\<open>new Map\<close> of the links: the last link of a key counts.\<close>

definition link_of :: "nav_modules \<Rightarrow> jsstr \<Rightarrow> custom_link option" where
  "link_of m k = map_of (rev (map (\<lambda>l. (custom_key l, l)) (nm_customLinks m))) k"

definition custom_item :: "custom_link \<Rightarrow> nav_item" where
  "custom_item l =
     \<lparr>ni_id = custom_key l, ni_titleKey = cl_title l, ni_href = cl_href l, ni_enabled = cl_enabled l,
      ni_external = cl_external l, ni_newWindow = cl_newWindow l,
      ni_requireAuth = (case cl_requireAuth l of Some b \<Rightarrow> b | None \<Rightarrow> False), ni_custom = True\<rparr>"

definition present_link :: "jsstr option \<Rightarrow> jsstr option" where
  "present_link t = (if t = Some [] then None else t)"

definition nav_item_of :: "nav_modules \<Rightarrow> jsstr option \<Rightarrow> jsstr option \<Rightarrow> jsstr \<Rightarrow> nav_item option" where
  "nav_item_of m docsLink agentAccessLink k =
     (if starts_with k custom_prefix
      then (case link_of m k of
          Some l \<Rightarrow> if cl_enabled l then Some (custom_item l) else None
        | None \<Rightarrow> None)
      else (case getBuiltInHeaderNavItem k of
          None \<Rightarrow> None
        | Some item \<Rightarrow>
            if k = J ''aiCreation''
            then (if ai_enabled (nm_aiCreation m) \<and> ai_baseUrl (nm_aiCreation m) \<noteq> []
              then Some (item\<lparr>ni_enabled := True, ni_requireAuth := True\<rparr>) else None)
            else (case get_access m k of
                Some a \<Rightarrow>
                  if ma_enabled a
                  then Some (item\<lparr>ni_newWindow := getHeaderNavModuleNewWindow m k, ni_enabled := True,
                         ni_requireAuth := ma_requireAuth a\<rparr>)
                  else None
              | None \<Rightarrow>
                  if get_flag m k = Some True
                  then (let href = (case (k = J ''agentAccess'', present_link agentAccessLink) of
                              (True, Some l) \<Rightarrow> l
                            | _ \<Rightarrow> (case (k = J ''docs'', present_link docsLink) of
                                (True, Some l) \<Rightarrow> l | _ \<Rightarrow> ni_href item))
                    in Some (item\<lparr>ni_href := href, ni_external := isExternalHeaderNavHref href,
                         ni_newWindow := getHeaderNavModuleNewWindow m k, ni_enabled := True,
                         ni_requireAuth := False\<rparr>))
                  else None)))"

definition getOrderedHeaderNavItems :: "nav_modules \<Rightarrow> jsstr option \<Rightarrow> jsstr option \<Rightarrow> nav_item list" where
  "getOrderedHeaderNavItems m docsLink agentAccessLink =
     List.map_filter (nav_item_of m docsLink agentAccessLink)
       (mergeHeaderNavOrder (nm_order m) (nm_customLinks m))"

definition getAICreationSSOUrl :: "(jsstr \<Rightarrow> url_parts option) \<Rightarrow> nav_modules \<Rightarrow> jsstr option" where
  "getAICreationSSOUrl url m =
     (if \<not> ai_enabled (nm_aiCreation m) \<or>
         normalizeOpenMosaicBaseUrl url (Some (JStr (ai_baseUrl (nm_aiCreation m)))) = []
      then None else Some (J ''/ai-creation''))"

section \<open>The status\<close>

definition without_announcements :: "(jsstr \<times> json) list \<Rightarrow> (jsstr \<times> json) list" where
  "without_announcements m = filter (\<lambda>(k, v). k \<noteq> J ''announcements'') m"

text \<open>A status is an object; the cache holds its text. A cached text that is no object is not modelled
  further than that it is read as an empty status.\<close>

definition readCachedStatus :: "jsstr option \<Rightarrow> (jsstr \<times> json) list option" where
  "readCachedStatus stored =
     (case stored of
        None \<Rightarrow> None
      | Some t \<Rightarrow>
          if t = [] then None
          else (case json_parse t of
              Inl _ \<Rightarrow> None
            | Inr (JObj m) \<Rightarrow> Some (without_announcements m)
            | Inr _ \<Rightarrow> Some []))"

definition writeCachedStatus :: "(jsstr \<times> json) list \<Rightarrow> jsstr option" where
  "writeCachedStatus status = Some (json_text (JObj (without_announcements status)))"

definition parseHeaderNavModulesFromStatus ::
  "(jsstr \<Rightarrow> url_parts option) \<Rightarrow> (jsstr \<times> json) list option \<Rightarrow> nav_modules" where
  "parseHeaderNavModulesFromStatus url status =
     parseHeaderNavModules url (Option.bind status (\<lambda>m. map_of m (J ''HeaderNavModules'')))"

definition getAICreationSSOUrlFromStatus ::
  "(jsstr \<Rightarrow> url_parts option) \<Rightarrow> (jsstr \<times> json) list option \<Rightarrow> jsstr option" where
  "getAICreationSSOUrlFromStatus url status =
     getAICreationSSOUrl url (parseHeaderNavModulesFromStatus url status)"

definition getModuleAccessFromStatus ::
  "(jsstr \<Rightarrow> url_parts option) \<Rightarrow> (jsstr \<times> json) list option \<Rightarrow> jsstr \<Rightarrow> module_access" where
  "getModuleAccessFromStatus url status k =
     (case get_access (parseHeaderNavModulesFromStatus url status) k of Some a \<Rightarrow> a | None \<Rightarrow> open_access)"

text \<open>The result and the cache after it; \<open>reply\<close> is \<open>None\<close> when fetching the status threw.\<close>

definition getFreshModuleAccess ::
  "(jsstr \<Rightarrow> url_parts option) \<Rightarrow> (jsstr \<times> json) list option option \<Rightarrow> jsstr \<Rightarrow> jsstr option
    \<Rightarrow> module_access \<times> jsstr option" where
  "getFreshModuleAccess url reply k stored =
     (case reply of
        None \<Rightarrow> (getModuleAccessFromStatus url (readCachedStatus stored) k, stored)
      | Some status \<Rightarrow>
          (getModuleAccessFromStatus url status k,
           (case status of Some m \<Rightarrow> writeCachedStatus m | None \<Rightarrow> stored)))"

definition isSidebarModuleEnabled :: "jsstr option \<Rightarrow> jsstr \<Rightarrow> jsstr \<Rightarrow> bool" where
  "isSidebarModuleEnabled stored section_name module_name =
     (case readCachedStatus stored of
        None \<Rightarrow> True
      | Some status \<Rightarrow>
          (case truthy (map_of status (J ''SidebarModulesAdmin'')) of
             None \<Rightarrow> True
           | Some raw \<Rightarrow>
               if trim (js_string raw) = [] then True
               else (case json_parse (js_string raw) of
                   Inl _ \<Rightarrow> True
                 | Inr parsed \<Rightarrow>
                     (case truthy (json_optional (Some parsed) section_name) of
                        None \<Rightarrow> True
                      | Some config \<Rightarrow>
                          json_optional (Some config) (J ''enabled'') \<noteq> Some (JBool False) \<and>
                          json_optional (Some config) module_name \<noteq> Some (JBool False)))))"

section \<open>Facts about the order\<close>

lemma order_loop_eq:
  "order_loop ids acc items = acc @ filter (\<lambda>k. k \<notin> set acc) (uniq (filter (\<lambda>k. k \<in> set ids) items))"
proof (induction items arbitrary: acc)
  case (Cons x xs)
  show ?case
  proof (cases "x \<in> set ids \<and> x \<notin> set acc")
    case True
    let ?u = "uniq (filter (\<lambda>k. k \<in> set ids) xs)"
    have "filter (\<lambda>k. k \<noteq> x \<and> k \<notin> set acc) ?u = filter (\<lambda>k. k \<notin> set acc) (removeAll x ?u)"
      by (auto simp: removeAll_filter_not_eq intro!: filter_cong)
    with True Cons.IH [of "acc @ [x]"] show ?thesis by (simp add: conj_commute)
  next
    case False
    then show ?thesis
      using Cons.IH [of acc]
      by (auto simp: removeAll_filter_not_eq intro!: filter_cong)
  qed
qed simp

lemma merge_eq:
  "mergeHeaderNavOrder order links =
     (let merged = uniq (filter (\<lambda>k. k \<in> set (valid_ids links)) order) in
      merged @ filter (\<lambda>k. k \<notin> set merged) (valid_ids links))"
  by (simp add: mergeHeaderNavOrder_def order_loop_eq Let_def)

lemma set_valid_ids: "set (valid_ids links) = set BUILT_IN_HEADER_NAV_ORDER \<union> custom_key ` set links"
  by (simp add: valid_ids_def)

lemma merge_set: "set (mergeHeaderNavOrder order links) = set (valid_ids links)"
  by (auto simp: merge_eq Let_def)

lemma merge_distinct: "distinct (mergeHeaderNavOrder order links)"
  by (auto simp: merge_eq Let_def valid_ids_def)

lemma merge_fixed:
  assumes "distinct order" "set order = set (valid_ids links)"
  shows "mergeHeaderNavOrder order links = order"
proof -
  have "filter (\<lambda>k. k \<in> set (valid_ids links)) order = order" using assms(2) by (simp add: filter_True)
  with assms show ?thesis by (simp add: merge_eq Let_def uniq_distinct filter_False)
qed

text \<open>C21. The order of the navigation is always a complete one: every built-in module and every custom
  link exactly once, first the entries of the configured order that are valid, in their order, then
  the others in the default order; merging a merged order changes nothing.\<close>

theorem nav_order_complete:
  "distinct (mergeHeaderNavOrder order links) \<and>
   set (mergeHeaderNavOrder order links) = set BUILT_IN_HEADER_NAV_ORDER \<union> custom_key ` set links \<and>
   (\<exists>rest. mergeHeaderNavOrder order links =
      uniq (filter (\<lambda>k. k \<in> set BUILT_IN_HEADER_NAV_ORDER \<union> custom_key ` set links) order) @ rest \<and>
      (\<exists>P. rest = filter P (valid_ids links))) \<and>
   mergeHeaderNavOrder (mergeHeaderNavOrder order links) links = mergeHeaderNavOrder order links"
proof -
  have "mergeHeaderNavOrder (mergeHeaderNavOrder order links) links = mergeHeaderNavOrder order links"
    by (rule merge_fixed) (simp_all add: merge_distinct merge_set)
  moreover have "\<exists>rest. mergeHeaderNavOrder order links =
      uniq (filter (\<lambda>k. k \<in> set BUILT_IN_HEADER_NAV_ORDER \<union> custom_key ` set links) order) @ rest \<and>
      (\<exists>P. rest = filter P (valid_ids links))"
    unfolding merge_eq Let_def set_valid_ids by blast
  ultimately show ?thesis using merge_distinct merge_set set_valid_ids by metis
qed

section \<open>What parsing gives\<close>

lemma link_loop_distinct:
  "distinct (map cl_id acc) \<Longrightarrow> distinct (map cl_id (link_loop i acc items))"
  by (induction i acc items rule: link_loop.induct) (auto split: option.splits)

definition good_link :: "custom_link \<Rightarrow> bool" where
  "good_link l \<longleftrightarrow> cl_id l \<noteq> [] \<and> cl_title l \<noteq> [] \<and> trimmed (cl_title l) \<and> cl_href l \<noteq> [] \<and>
     trimmed (cl_href l) \<and> cl_requireAuth l \<noteq> None \<and> (isDocsDocumentRoute (cl_href l) \<longrightarrow> cl_external l)"

lemma id_nonempty: "normalizeCustomLinkId v i \<noteq> []"
  by (simp add: normalizeCustomLinkId_def Let_def)

lemma trimmed_text_trimmed: "trimmed (trimmed_text v)"
  by (auto simp: trimmed_text_def split: option.splits json.splits)

lemma make_link_good:
  assumes "t \<noteq> []" "trimmed t" "h \<noteq> []" "trimmed h"
  shows "good_link (make_link i m t h)"
proof -
  have "isDocsDocumentRoute h \<longrightarrow> cl_external (make_link i m t h)"
    by (simp add: make_link_def Let_def del: J_Cons)
  moreover have "cl_title (make_link i m t h) = t" "cl_href (make_link i m t h) = h"
    "cl_id (make_link i m t h) \<noteq> []" "cl_requireAuth (make_link i m t h) \<noteq> None"
    by (simp_all add: make_link_def Let_def id_nonempty del: J_Cons)
  ultimately show ?thesis using assms by (simp add: good_link_def)
qed

lemma read_link_good:
  assumes "read_link i item = Some l"
  shows "good_link l"
proof -
  obtain m where m: "record_of item = Some m" using assms by (auto simp: read_link_def split: option.splits)
  let ?t = "trimmed_text (map_of m (J ''title''))" and ?h = "trimmed_text (map_of m (J ''href''))"
  have e: "read_link i item = (if ?t = [] \<or> ?h = [] then None else Some (make_link i m ?t ?h))"
    unfolding read_link_def m option.case Let_def ..
  then have n: "\<not> (?t = [] \<or> ?h = [])" using assms by (metis option.distinct(1))
  then have "l = make_link i m ?t ?h" using e assms by (metis option.inject)
  with n show ?thesis using make_link_good trimmed_text_trimmed by blast
qed

lemma link_loop_good: "list_all good_link acc \<Longrightarrow> list_all good_link (link_loop i acc items)"
proof (induction i acc items rule: link_loop.induct)
  case (2 i acc x xs)
  show ?case
  proof (cases "read_link i x")
    case None
    with 2 show ?thesis by simp
  next
    case (Some l)
    then have "good_link l" by (rule read_link_good)
    with 2 Some show ?thesis by simp
  qed
qed simp

definition links_ok :: "nav_modules \<Rightarrow> bool" where
  "links_ok m \<longleftrightarrow> distinct (map cl_id (nm_customLinks m)) \<and> list_all good_link (nm_customLinks m)"

lemma parsed_links_ok: "links_ok (m\<lparr>nm_customLinks := parseCustomLinks v\<rparr>)"
  using link_loop_distinct [of "[]"] link_loop_good [of "[]"]
  by (simp add: links_ok_def parseCustomLinks_def split: option.splits json.splits)

lemma set_access_links [simp]: "nm_customLinks (set_access k a m) = nm_customLinks m"
  by (simp add: set_access_def)

lemma set_flag_links [simp]: "nm_customLinks (set_flag k b m) = nm_customLinks m"
  by (simp add: set_flag_def)

lemma read_module_links_ok: "links_ok m \<Longrightarrow> links_ok (read_module url e m)"
proof (cases e)
  case (Pair k v)
  assume "links_ok m"
  then show ?thesis using Pair parsed_links_ok [where m = m and v = "Some v"]
    by (simp add: read_module_def links_ok_def split: option.splits if_splits)
qed

lemma fold_links_ok: "links_ok m \<Longrightarrow> links_ok (fold (read_module url) es m)"
  by (induction es arbitrary: m) (simp_all add: read_module_links_ok)

text \<open>C22. Whatever the server or a form hands over, the parsed configuration is well formed: its order
  is a complete one, the ids of the custom links are distinct and not empty, their titles and
  addresses are trimmed and not empty, and a link into the documentation is external.\<close>

theorem parsed_modules_well_formed:
  "links_ok (parseHeaderNavModules url raw) \<and>
   distinct (nm_order (parseHeaderNavModules url raw)) \<and>
   set (nm_order (parseHeaderNavModules url raw)) =
     set BUILT_IN_HEADER_NAV_ORDER \<union> custom_key ` set (nm_customLinks (parseHeaderNavModules url raw))"
proof -
  have d: "links_ok DEFAULT_HEADER_NAV_MODULES" by (simp add: links_ok_def DEFAULT_HEADER_NAV_MODULES_def)
  obtain m where m: "parseHeaderNavModules url raw = with_merged_order m" "links_ok m"
  proof (cases "truthy (parseHeaderNavRecord raw)")
    case None
    with d that show ?thesis by (auto simp: parseHeaderNavModules_def)
  next
    case (Some v)
    with d that fold_links_ok [OF d] show ?thesis
      by (cases v) (auto simp: parseHeaderNavModules_def)
  qed
  then show ?thesis
    by (auto simp: with_merged_order_def links_ok_def merge_distinct merge_set set_valid_ids)
qed

section \<open>Reading back what was written\<close>

definition canonical_link :: "custom_link \<Rightarrow> bool" where
  "canonical_link l \<longleftrightarrow> good_link l \<and> trimmed (cl_id l) \<and> \<not> starts_with (cl_id l) custom_prefix \<and>
     utf16 (cl_id l) \<and> utf16 (cl_title l) \<and> utf16 (cl_href l)"

definition canonical_modules :: "(jsstr \<Rightarrow> url_parts option) \<Rightarrow> nav_modules \<Rightarrow> bool" where
  "canonical_modules url m \<longleftrightarrow>
     distinct (map cl_id (nm_customLinks m)) \<and> list_all canonical_link (nm_customLinks m) \<and>
     distinct (nm_order m) \<and> set (nm_order m) = set (valid_ids (nm_customLinks m)) \<and>
     map fst (nm_newWindow m) = BUILT_IN_HEADER_NAV_ORDER \<and>
     utf16 (ai_baseUrl (nm_aiCreation m)) \<and>
     normalizeOpenMosaicBaseUrl url (Some (JStr (ai_baseUrl (nm_aiCreation m)))) = ai_baseUrl (nm_aiCreation m)"

lemma parse_bool [simp]: "parseHeaderNavBoolean (Some (JBool b)) d = b"
  by (simp add: parseHeaderNavBoolean_def)

lemma access_back: "parseAccess (Some (access_json a)) d = a"
  by (simp add: parseAccess_def access_json_def record_of_def)

lemma string_items_strings: "list_all trimmed xs \<Longrightarrow> string_items (map JStr xs) = xs"
  by (induction xs) (simp_all add: trim_trimmed)

lemma order_back:
  "list_all trimmed xs \<Longrightarrow> [] \<notin> set xs \<Longrightarrow> distinct xs \<Longrightarrow>
    parseStringList (Some (JArr (map JStr xs))) d = xs"
  by (simp add: parseStringList_def string_items_strings nonempty_id uniq_distinct)

lemma assoc_back:
  assumes "distinct (map fst w)" "\<And>k b. map_of w k = Some b \<Longrightarrow> f k = b"
  shows "map (\<lambda>k. (k, f k)) (map fst w) = w"
proof -
  have "f (fst p) = snd p" if "p \<in> set w" for p
    using that assms(1) by (intro assms(2)) (simp add: map_of_eq_Some_iff)
  then have "map (\<lambda>p. (fst p, f (fst p))) w = map (\<lambda>p. p) w" by (intro map_cong) auto
  then show ?thesis by (simp add: comp_def)
qed

lemma order_distinct: "distinct BUILT_IN_HEADER_NAV_ORDER"
  by (simp add: BUILT_IN_HEADER_NAV_ORDER_def)

lemma map_of_bools: "map_of (map (\<lambda>(k, b). (k, JBool b)) w) k = map_option JBool (map_of w k)"
  by (induction w) auto

lemma window_back:
  assumes "map fst w = BUILT_IN_HEADER_NAV_ORDER"
  shows "parseBuiltInNewWindow (Some (JObj (map (\<lambda>(k, b). (k, JBool b)) w))) d = w"
  unfolding parseBuiltInNewWindow_def using assms order_distinct
  by (simp add: record_of_def map_of_bools assms [symmetric] del: map_map)
    (intro assoc_back; simp)

lemma link_back:
  assumes "canonical_link l"
  shows "read_link i (link_json l) = Some l"
proof -
  obtain b where b: "cl_requireAuth l = Some b"
    using assms by (auto simp: canonical_link_def good_link_def)
  define m where "m = [(J ''id'', JStr (cl_id l)), (J ''title'', JStr (cl_title l)), (J ''href'', JStr (cl_href l)),
        (J ''enabled'', JBool (cl_enabled l)), (J ''external'', JBool (cl_external l)),
        (J ''newWindow'', JBool (cl_newWindow l)), (J ''requireAuth'', JBool b)]"
  have r: "record_of (link_json l) = Some m" by (simp add: link_json_def record_of_def m_def b)
  have g: "map_of m (J ''id'') = Some (JStr (cl_id l))" "map_of m (J ''title'') = Some (JStr (cl_title l))"
    "map_of m (J ''href'') = Some (JStr (cl_href l))" "map_of m (J ''enabled'') = Some (JBool (cl_enabled l))"
    "map_of m (J ''external'') = Some (JBool (cl_external l))"
    "map_of m (J ''newWindow'') = Some (JBool (cl_newWindow l))"
    "map_of m (J ''requireAuth'') = Some (JBool b)" by (simp_all add: m_def)
  have c: "trim (cl_id l) = cl_id l" "trim (cl_title l) = cl_title l" "trim (cl_href l) = cl_href l"
    "cl_id l \<noteq> []" "cl_title l \<noteq> []" "cl_href l \<noteq> []" "\<not> starts_with (cl_id l) custom_prefix"
    "isDocsDocumentRoute (cl_href l) \<Longrightarrow> cl_external l"
    using assms by (auto simp: canonical_link_def good_link_def trim_trimmed)
  have "make_link i m (cl_title l) (cl_href l) = l"
    unfolding make_link_def g Let_def using b c(1,4,7,8)
    by (cases l) (auto simp: normalizeCustomLinkId_def)
  then show ?thesis unfolding read_link_def r option.case Let_def g trimmed_text_def
    using c by simp
qed

lemma links_back:
  assumes "list_all canonical_link ls" "distinct (map cl_id (acc @ ls))"
  shows "link_loop i acc (map link_json ls) = acc @ ls"
  using assms
proof (induction ls arbitrary: i acc)
  case (Cons l ls)
  then have "cl_id l \<notin> cl_id ` set acc" "read_link i (link_json l) = Some l" by (auto intro: link_back)
  with Cons.IH [of "acc @ [l]" "Suc i"] Cons.prems show ?case by simp
qed simp

lemma module_steps:
  "read_module url (J ''home'', JBool b) m = m\<lparr>nm_home := b\<rparr>"
  "read_module url (J ''partner'', JBool b) m = m\<lparr>nm_partner := b\<rparr>"
  "read_module url (J ''agentAccess'', JBool b) m = m\<lparr>nm_agentAccess := b\<rparr>"
  "read_module url (J ''console'', JBool b) m = m\<lparr>nm_console := b\<rparr>"
  "read_module url (J ''docs'', JBool b) m = m\<lparr>nm_docs := b\<rparr>"
  "read_module url (J ''about'', JBool b) m = m\<lparr>nm_about := b\<rparr>"
  by (simp_all add: read_module_def get_access_def get_flag_def set_flag_def is_scalar_def)

lemma access_steps:
  "read_module url (J ''pricing'', v) m = m\<lparr>nm_pricing := parseAccess (Some v) (nm_pricing m)\<rparr>"
  "read_module url (J ''subscription'', v) m = m\<lparr>nm_subscription := parseAccess (Some v) (nm_subscription m)\<rparr>"
  "read_module url (J ''rankings'', v) m = m\<lparr>nm_rankings := parseAccess (Some v) (nm_rankings m)\<rparr>"
  by (simp_all add: read_module_def get_access_def set_access_def)

lemma part_steps:
  "read_module url (J ''aiCreation'', v) m = m\<lparr>nm_aiCreation := parseAICreation url (Some v) (nm_aiCreation m)\<rparr>"
  "read_module url (J ''order'', v) m = m\<lparr>nm_order := parseStringList (Some v) (nm_order m)\<rparr>"
  "read_module url (J ''customLinks'', v) m = m\<lparr>nm_customLinks := parseCustomLinks (Some v)\<rparr>"
  "read_module url (J ''newWindow'', v) m = m\<lparr>nm_newWindow := parseBuiltInNewWindow (Some v) (nm_newWindow m)\<rparr>"
  by (simp_all add: read_module_def)

lemma ai_back:
  "normalizeOpenMosaicBaseUrl url (Some (JStr (ai_baseUrl a))) = ai_baseUrl a \<Longrightarrow>
    parseAICreation url (Some (JObj [(J ''enabled'', JBool (ai_enabled a)), (J ''baseUrl'', JStr (ai_baseUrl a))])) d = a"
  by (simp add: parseAICreation_def record_of_def)

lemma order_trimmed:
  assumes "list_all canonical_link ls" "set order = set (valid_ids ls)"
  shows "list_all trimmed order" "[] \<notin> set order" "list_all utf16 order"
proof -
  have b: "list_all (\<lambda>k. trimmed k \<and> k \<noteq> [] \<and> utf16 k) BUILT_IN_HEADER_NAV_ORDER"
    by (simp add: BUILT_IN_HEADER_NAV_ORDER_def trimmed_def is_ws_def)
  have c: "trimmed (custom_key l) \<and> custom_key l \<noteq> [] \<and> utf16 (custom_key l)" if "canonical_link l" for l
    using that by (auto simp: custom_key_def custom_prefix_def canonical_link_def good_link_def trimmed_def is_ws_def)
  have "list_all (\<lambda>k. trimmed k \<and> k \<noteq> [] \<and> utf16 k) order"
    using b c assms unfolding list_all_iff set_valid_ids by auto
  then show "list_all trimmed order" "[] \<notin> set order" "list_all utf16 order"
    by (auto simp: list_all_iff)
qed

lemma storable_modules:
  assumes "canonical_modules url m"
  shows "storable (modules_json m)"
proof -
  have o: "list_all utf16 (nm_order m)"
    using assms order_trimmed by (auto simp: canonical_modules_def)
  have w: "storable (JObj (map (\<lambda>(k, b). (k, JBool b)) (nm_newWindow m)))"
  proof -
    have f: "map fst (map (\<lambda>(k, b). (k, JBool b)) (nm_newWindow m)) = BUILT_IN_HEADER_NAV_ORDER"
      using assms by (simp add: canonical_modules_def comp_def case_prod_unfold)
    have "list_all (\<lambda>k. utf16 k \<and> \<not> is_index k) BUILT_IN_HEADER_NAV_ORDER"
      by (simp add: BUILT_IN_HEADER_NAV_ORDER_def is_index_def is_digit_def)
    moreover have "list_all storable (map snd (map (\<lambda>(k, b). (k, JBool b)) (nm_newWindow m)))"
      by (auto simp: list_all_iff)
    ultimately show ?thesis unfolding storable.simps f using order_distinct by blast
  qed
  have l: "storable (link_json l)" if "canonical_link l" for l
    using that by (auto simp: canonical_link_def link_json_def is_index_def is_digit_def split: option.splits)
  have "storable (JArr (map link_json (nm_customLinks m)))"
    using assms l by (auto simp: canonical_modules_def list_all_iff)
  moreover have "storable (JArr (map JStr (nm_order m)))" using o by (auto simp: list_all_iff)
  moreover have "utf16 (ai_baseUrl (nm_aiCreation m))" using assms by (simp add: canonical_modules_def)
  moreover have "storable (access_json a)" for a
    by (simp add: access_json_def is_index_def is_digit_def)
  ultimately show ?thesis using w
    by (simp add: modules_json_def is_index_def is_digit_def del: storable.simps(5))
qed

lemma modules_entries:
  "modules_json m = JObj es \<Longrightarrow> own_entries es = es"
  by (rule own_entries_names) (auto simp: modules_json_def is_index_def is_digit_def)

lemma modules_fold:
  assumes "canonical_modules url m" "modules_json m = JObj es"
  shows "fold (read_module url) es d = m"
proof -
  have ok: "distinct (map cl_id ([] @ nm_customLinks m))" "list_all canonical_link (nm_customLinks m)"
    "distinct (nm_order m)" "set (nm_order m) = set (valid_ids (nm_customLinks m))"
    "map fst (nm_newWindow m) = BUILT_IN_HEADER_NAV_ORDER"
    "normalizeOpenMosaicBaseUrl url (Some (JStr (ai_baseUrl (nm_aiCreation m)))) = ai_baseUrl (nm_aiCreation m)"
    using assms(1) by (simp_all add: canonical_modules_def)
  note parts = access_back ai_back [OF ok(6)] window_back [OF ok(5)]
    order_back [OF order_trimmed(1,2) [OF ok(2,4)] ok(3)]
  have links: "parseCustomLinks (Some (JArr (map link_json (nm_customLinks m)))) = nm_customLinks m"
    using links_back [OF ok(2,1)] by (simp add: parseCustomLinks_def)
  note es = assms(2) [unfolded modules_json_def json.inject, symmetric]
  show ?thesis
    unfolding es
    by (simp add: module_steps access_steps part_steps parts links del: J_Cons)
qed

text \<open>C23. A canonical configuration survives being written and parsed again, field by field: its links are
  as the parser leaves them, with distinct trimmed ids that do not start with the prefix of custom keys,
  its order is complete and without repetition, every built-in module has its window flag and the address
  of the creation site is normalized. An id that starts with the prefix does not survive.\<close>

theorem modules_round_trip:
  assumes "canonical_modules url m"
  shows "parseHeaderNavModules url (Some (JStr (serializeHeaderNavModules url m))) = m"
proof -
  have o: "mergeHeaderNavOrder (nm_order m) (nm_customLinks m) = nm_order m"
    using assms by (intro merge_fixed) (simp_all add: canonical_modules_def)
  then have same: "with_merged_order m = m" by (simp add: with_merged_order_def)
  have t: "serializeHeaderNavModules url m = json_text (modules_json m)"
    using assms same by (simp add: serializeHeaderNavModules_def canonical_modules_def)
  obtain es where es: "modules_json m = JObj es" by (simp add: modules_json_def)
  have s: "storable (JObj es)" using storable_modules [OF assms] es by simp
  obtain c u where c: "json_text (JObj es) = c # u" "c = 123"
    by (simp add: es [symmetric] modules_json_def)
  then have "trim (json_text (JObj es)) \<noteq> []" by (auto simp: trim_eq_Nil is_ws_def)
  then have "parseHeaderNavRecord (Some (JStr (json_text (JObj es)))) = Some (JObj es)"
    using c(1) json_round_trip [OF s]
    by (simp add: parseHeaderNavRecord_def truthy_def record_of_def del: json_text.simps)
  then have "parseHeaderNavModules url (Some (JStr (json_text (JObj es)))) = with_merged_order m"
    using modules_entries [OF es] modules_fold [OF assms es]
    by (simp add: parseHeaderNavModules_def truthy_def)
  with same t es show ?thesis by simp
qed

definition sample_link :: custom_link where
  "sample_link = \<lparr>cl_id = J ''blog'', cl_title = J ''Blog'', cl_href = J ''/blog'', cl_enabled = True,
     cl_external = False, cl_newWindow = True, cl_requireAuth = Some False\<rparr>"

definition sample_modules :: nav_modules where
  "sample_modules = DEFAULT_HEADER_NAV_MODULES\<lparr>
     nm_newWindow := map (\<lambda>k. (k, built_in_new_window k)) BUILT_IN_HEADER_NAV_ORDER,
     nm_order := J ''custom:blog'' # BUILT_IN_HEADER_NAV_ORDER, nm_customLinks := [sample_link]\<rparr>"

lemma sample_canonical: "canonical_modules (\<lambda>s. None) sample_modules"
  by code_simp

lemma modules_round_trip_witness:
  "parseHeaderNavModules (\<lambda>s. None) (Some (JStr (serializeHeaderNavModules (\<lambda>s. None) sample_modules))) =
     sample_modules"
  by (rule modules_round_trip [OF sample_canonical])

section \<open>What is shown\<close>

lemma custom_shown:
  assumes "starts_with k custom_prefix" "nav_item_of m d a k = Some item"
  shows "ni_enabled item \<and> ni_id item = k \<and> ni_custom item \<and>
    (\<exists>l \<in> set (nm_customLinks m). item = custom_item l \<and> cl_enabled l)"
proof -
  from assms obtain l where l: "link_of m k = Some l" "cl_enabled l" "item = custom_item l"
    by (auto simp: nav_item_of_def split: option.splits if_splits)
  then have "l \<in> set (nm_customLinks m)" "custom_key l = k"
    by (auto simp: link_of_def dest!: map_of_SomeD)
  with l show ?thesis by (auto simp: custom_item_def)
qed

lemma built_in_item: "getBuiltInHeaderNavItem k = Some item \<Longrightarrow> ni_id item = k \<and> \<not> ni_custom item"
  by (auto simp: getBuiltInHeaderNavItem_def split: prod.splits)

lemma built_in_shown:
  assumes "\<not> starts_with k custom_prefix" "nav_item_of m d a k = Some item"
  shows "ni_enabled item \<and> ni_id item = k \<and> \<not> ni_custom item \<and>
    getHeaderNavModuleEnabled m k = Some True \<and> ni_requireAuth item = getHeaderNavModuleRequireAuth m k \<and>
    (k = J ''aiCreation'' \<longrightarrow> ni_requireAuth item \<and> ai_baseUrl (nm_aiCreation m) \<noteq> [])"
proof -
  obtain it where it: "getBuiltInHeaderNavItem k = Some it"
    using assms by (auto simp: nav_item_of_def split: option.splits)
  note i = built_in_item [OF it]
  show ?thesis
  proof (cases "k = J ''aiCreation''")
    case True
    with assms it i show ?thesis
      by (auto simp: nav_item_of_def getHeaderNavModuleEnabled_def getHeaderNavModuleRequireAuth_def
          simp del: J_Cons split: if_splits)
  next
    case ai: False
    show ?thesis
    proof (cases "get_access m k")
      case (Some acc)
      with assms it i ai show ?thesis
        by (auto simp: nav_item_of_def getHeaderNavModuleEnabled_def getHeaderNavModuleRequireAuth_def
            simp del: J_Cons split: if_splits)
    next
      case None
      with assms it i ai show ?thesis
        by (auto simp: nav_item_of_def getHeaderNavModuleEnabled_def getHeaderNavModuleRequireAuth_def Let_def
            simp del: J_Cons split: if_splits)
    qed
  qed
qed

text \<open>C24. Only what is enabled is shown: an item of the navigation is an enabled custom link or an enabled built-in module with a known address,
  and the creation site is shown only with an address and always behind a login.\<close>

theorem shown_items_enabled:
  assumes "item \<in> set (getOrderedHeaderNavItems m docsLink agentAccessLink)"
  shows "ni_enabled item \<and> ni_id item \<in> set (mergeHeaderNavOrder (nm_order m) (nm_customLinks m)) \<and>
    (ni_custom item \<longrightarrow> (\<exists>l \<in> set (nm_customLinks m). item = custom_item l \<and> cl_enabled l)) \<and>
    (\<not> ni_custom item \<longrightarrow> getHeaderNavModuleEnabled m (ni_id item) = Some True \<and>
       ni_requireAuth item = getHeaderNavModuleRequireAuth m (ni_id item)) \<and>
    (ni_id item = J ''aiCreation'' \<longrightarrow> ni_requireAuth item \<and> ai_baseUrl (nm_aiCreation m) \<noteq> [])"
proof -
  from assms obtain k where k: "k \<in> set (mergeHeaderNavOrder (nm_order m) (nm_customLinks m))"
    "nav_item_of m docsLink agentAccessLink k = Some item"
    by (auto simp: getOrderedHeaderNavItems_def List.map_filter_def)
  show ?thesis
  proof (cases "starts_with k custom_prefix")
    case True
    with custom_shown [OF True k(2)] k(1) show ?thesis
      by (auto simp: starts_with_def custom_prefix_def)
  next
    case False
    with built_in_shown [OF False k(2)] k(1) show ?thesis by auto
  qed
qed

lemma shown_items_enabled_witness:
  "ni_enabled (custom_item sample_link) \<and>
   ni_id (custom_item sample_link) \<in>
     set (mergeHeaderNavOrder (nm_order sample_modules) (nm_customLinks sample_modules))"
proof -
  have "custom_item sample_link = hd (getOrderedHeaderNavItems sample_modules None None)"
    "getOrderedHeaderNavItems sample_modules None None \<noteq> []" by code_simp+
  then have "custom_item sample_link \<in> set (getOrderedHeaderNavItems sample_modules None None)" by simp
  from shown_items_enabled [OF this] show ?thesis by blast
qed

definition twice_prefixed :: json where
  "twice_prefixed =
     JObj [(J ''order'', JArr [JStr (J ''custom:custom:x'')]),
       (J ''customLinks'', JArr [JObj [(J ''id'', JStr (J ''custom:custom:x'')),
          (J ''title'', JStr (J ''T'')), (J ''href'', JStr (J ''/t''))]])]"

text \<open>A prefix is stripped once from the id of a custom link, so an id that carries it twice changes
  every time a configuration is saved and read: the entry of the order that named the link is lost
  and the link moves to the end.\<close>

theorem prefixed_id_not_stable:
  "let m = parseHeaderNavModules (\<lambda>s. None) (Some twice_prefixed);
       n = parseHeaderNavModules (\<lambda>s. None) (Some (JStr (serializeHeaderNavModules (\<lambda>s. None) m)))
   in hd (nm_order m) = J ''custom:custom:x'' \<and> map cl_id (nm_customLinks m) = [J ''custom:x''] \<and>
      last (nm_order n) = J ''custom:x'' \<and> map cl_id (nm_customLinks n) = [J ''x'']"
  by code_simp

end
