(* ===== verification/Sidebar.thy ===== *)
theory Sidebar
  imports NavModules
begin

text \<open>
  The side bar: the groups of links of \<open>hooks/use-sidebar-data.ts\<close>, and their filter in
  \<open>hooks/use-sidebar-config.ts\<close>, in three layers: the modules the administrator has enabled, the
  modules the user has not hidden, and the role of the user. Icons are left out; a translated
  title is the image of its key under \<open>tr\<close>.
\<close>

section \<open>Groups and users\<close>

record nav_base =
  nb_title :: jsstr
  nb_activeUrls :: "jsstr list option"
  nb_configUrls :: "jsstr list option"

datatype sidebar_item =
    NavLink nav_base jsstr
  | NavCollapsible nav_base "(nav_base \<times> jsstr) list"
  | NavChatPresets nav_base

record sidebar_group =
  sg_id :: "jsstr option"
  sg_title :: jsstr
  sg_items :: "sidebar_item list"

record sidebar_user =
  su_role :: "jsnum option"
  su_has_agent :: "bool option"
  su_agent_console :: "bool option"
  su_sidebar_settings :: "bool option"
  su_sidebar_modules :: "jsstr option"
  su_workspace_subaccount :: bool

definition ROLE_ADMIN :: jsnum where
  "ROLE_ADMIN = Fin 10"

section \<open>The links\<close>

definition plain_link :: "(jsstr \<Rightarrow> jsstr) \<Rightarrow> string \<Rightarrow> string \<Rightarrow> sidebar_item" where
  "plain_link tr key url = NavLink \<lparr>nb_title = tr (J key), nb_activeUrls = None, nb_configUrls = None\<rparr> (J url)"

definition active_link :: "(jsstr \<Rightarrow> jsstr) \<Rightarrow> string \<Rightarrow> string \<Rightarrow> string list \<Rightarrow> sidebar_item" where
  "active_link tr key url act =
     NavLink \<lparr>nb_title = tr (J key), nb_activeUrls = Some (map J act), nb_configUrls = None\<rparr> (J url)"

definition nav_group :: "(jsstr \<Rightarrow> jsstr) \<Rightarrow> string \<Rightarrow> string \<Rightarrow> sidebar_item list \<Rightarrow> sidebar_group" where
  "nav_group tr gid key items = \<lparr>sg_id = Some (J gid), sg_title = tr (J key), sg_items = items\<rparr>"

definition may_use_agents :: "sidebar_user option \<Rightarrow> bool" where
  "may_use_agents user \<longleftrightarrow>
     (case user of
        None \<Rightarrow> False
      | Some u \<Rightarrow> su_has_agent u = Some True \<or> su_agent_console u = Some True)"

definition subaccount_groups :: "(jsstr \<Rightarrow> jsstr) \<Rightarrow> sidebar_group list" where
  "subaccount_groups tr =
     [nav_group tr ''general'' ''General''
        [plain_link tr ''Usage Overview'' ''/dashboard/overview'',
         plain_link tr ''API Keys'' ''/keys'',
         plain_link tr ''Usage Logs'' ''/usage-logs/common''],
      nav_group tr ''personal'' ''Account'' [plain_link tr ''Profile'' ''/profile'']]"

definition full_groups :: "(jsstr \<Rightarrow> jsstr) \<Rightarrow> bool \<Rightarrow> bool \<Rightarrow> sidebar_group list" where
  "full_groups tr agents invite =
     [nav_group tr ''chat'' ''Chat''
        [plain_link tr ''Playground'' ''/playground'',
         NavChatPresets \<lparr>nb_title = tr (J ''Chat''), nb_activeUrls = None, nb_configUrls = None\<rparr>],
      nav_group tr ''general'' ''General''
        [plain_link tr ''Overview'' ''/dashboard/overview'',
         plain_link tr ''Dashboard'' ''/dashboard/models'',
         plain_link tr ''API Keys'' ''/keys'',
         plain_link tr ''Usage Logs'' ''/usage-logs/common'',
         NavLink \<lparr>nb_title = tr (J ''Task Logs''), nb_activeUrls = Some [J ''/usage-logs/drawing''],
           nb_configUrls = Some [J ''/usage-logs/drawing'', J ''/usage-logs/task'']\<rparr> (J ''/usage-logs/task'')],
      nav_group tr ''personal'' ''Account''
        ([plain_link tr ''Balance Top-up'' ''/wallet'']
         @ (if invite then [plain_link tr ''Invite Rewards'' ''/invite-rewards''] else [])
         @ [active_link tr ''Billing'' ''/billing/monthly'' [''/billing''],
            plain_link tr ''Subscription'' ''/user-subscription'',
            plain_link tr ''Suppliers'' ''/provider'',
            plain_link tr ''Profile'' ''/profile'']
         @ (if agents then [plain_link tr ''Agent Console'' ''/agents''] else [])),
      nav_group tr ''admin'' ''Admin''
        [plain_link tr ''Channels'' ''/channels'',
         plain_link tr ''Supplier Management'' ''/suppliers'',
         plain_link tr ''Models'' ''/models/metadata'',
         plain_link tr ''Model Monitor'' ''/model-monitor'',
         plain_link tr ''Model Profit'' ''/model-profit'',
         plain_link tr ''Operation Records'' ''/usage-logs/channel-operations'',
         plain_link tr ''Users'' ''/users'',
         plain_link tr ''Billing management'' ''/billing-management'',
         plain_link tr ''Agent Management'' ''/agent-management'',
         plain_link tr ''Withdrawal Management'' ''/withdrawal-management'',
         plain_link tr ''Redemption Codes'' ''/redemption-codes'',
         plain_link tr ''Subscription Management'' ''/subscriptions'',
         active_link tr ''System Settings'' ''/system-settings/site'' [''/system-settings''],
         plain_link tr ''System Tasks'' ''/system-tasks'']]"

text \<open>\<open>showInviteRewards\<close> counts as true when it is missing; \<open>showInvite = Some False\<close> hides.\<close>

definition buildSidebarData ::
    "(jsstr \<Rightarrow> jsstr) \<Rightarrow> sidebar_user option \<Rightarrow> bool option \<Rightarrow> sidebar_group list" where
  "buildSidebarData tr user showInvite =
     (if (case user of None \<Rightarrow> False | Some u \<Rightarrow> su_workspace_subaccount u) then subaccount_groups tr
      else full_groups tr (may_use_agents user) (showInvite \<noteq> Some False))"

section \<open>Configuration\<close>

type_synonym section_config = "(jsstr \<times> json) list"

definition enabled_section :: "string list \<Rightarrow> section_config" where
  "enabled_section modules = map (\<lambda>k. (J k, JBool True)) (''enabled'' # modules)"

definition DEFAULT_SIDEBAR_MODULES :: "(jsstr \<times> section_config) list" where
  "DEFAULT_SIDEBAR_MODULES =
     [(J ''chat'', enabled_section [''playground'', ''chat'']),
      (J ''console'', enabled_section [''detail'', ''token'', ''supplier_directory'', ''log'',
         ''midjourney'', ''task'']),
      (J ''personal'', enabled_section [''topup'', ''subscription'', ''personal'', ''agent'']),
      (J ''admin'', enabled_section [''channel'', ''supplier'', ''models'', ''model_monitor'',
         ''model_profit'', ''redemption'', ''user'', ''billing_management'', ''agent_management'',
         ''withdrawal_management'', ''setting'', ''subscription''])]"

text \<open>\<open>{...a, ...b}\<close>: the own properties of any value, put one after the other.\<close>

definition indexed :: "json list \<Rightarrow> section_config" where
  "indexed vs = zip (map (\<lambda>i. dec (int i)) [0..<length vs]) vs"

definition own_props :: "json \<Rightarrow> section_config" where
  "own_props v =
     (case v of JObj m \<Rightarrow> m | JArr vs \<Rightarrow> indexed vs | JStr s \<Rightarrow> indexed (map (\<lambda>u. JStr [u]) s) | _ \<Rightarrow> [])"

definition spread :: "section_config \<Rightarrow> section_config \<Rightarrow> section_config" where
  "spread a b = fold (\<lambda>(k, v). obj_put k v) b a"

definition fill_missing :: "section_config \<Rightarrow> section_config \<Rightarrow> section_config" where
  "fill_missing defaults s =
     fold (\<lambda>(k, v) s. if map_of s k = None then obj_put k v s else s) defaults s"

definition merge_section :: "jsstr \<times> section_config \<Rightarrow> section_config \<Rightarrow> section_config" where
  "merge_section = (\<lambda>(key, defaults) merged.
     case truthy (map_of merged key) of
       None \<Rightarrow> obj_put key (JObj (spread [] defaults)) merged
     | Some v \<Rightarrow>
         obj_put key (JObj (fill_missing defaults (spread (spread [] defaults) (own_props v)))) merged)"

definition mergeWithDefaultSidebarModules :: "json \<Rightarrow> section_config" where
  "mergeWithDefaultSidebarModules config =
     fold merge_section DEFAULT_SIDEBAR_MODULES (spread [] (own_props config))"

definition default_config :: section_config where
  "default_config = map (\<lambda>(k, s). (k, JObj s)) DEFAULT_SIDEBAR_MODULES"

definition parseSidebarConfig :: "jsstr option \<Rightarrow> section_config" where
  "parseSidebarConfig value =
     (case value of
        None \<Rightarrow> default_config
      | Some s \<Rightarrow> if trim s = [] then default_config
          else (case json_parse s of
              Inl e \<Rightarrow> default_config
            | Inr v \<Rightarrow> mergeWithDefaultSidebarModules v))"

definition parseUserSidebarConfig :: "jsstr option \<Rightarrow> json option" where
  "parseUserSidebarConfig value =
     (case value of
        None \<Rightarrow> None
      | Some s \<Rightarrow> if trim s = [] then None
          else (case json_parse s of
              Inr (JObj m) \<Rightarrow> Some (JObj m)
            | Inr (JArr vs) \<Rightarrow> Some (JArr vs)
            | _ \<Rightarrow> None))"

section \<open>Visibility\<close>

definition url_entry :: "string \<times> string \<times> string \<Rightarrow> jsstr \<times> jsstr \<times> jsstr" where
  "url_entry = (\<lambda>(url, sec, md). (J url, J sec, J md))"

definition URL_TO_CONFIG_MAP :: "(jsstr \<times> jsstr \<times> jsstr) list" where
  "URL_TO_CONFIG_MAP = map url_entry
     [(''/playground'', ''chat'', ''playground''),
      (''/dashboard'', ''console'', ''detail''),
      (''/dashboard/overview'', ''console'', ''detail''),
      (''/dashboard/models'', ''console'', ''detail''),
      (''/dashboard/users'', ''console'', ''detail''),
      (''/dashboard/billing'', ''console'', ''detail''),
      (''/billing'', ''personal'', ''topup''),
      (''/billing/monthly'', ''personal'', ''topup''),
      (''/billing/reconciliation'', ''personal'', ''topup''),
      (''/keys'', ''console'', ''token''),
      (''/workspaces'', ''console'', ''token''),
      (''/provider'', ''console'', ''supplier_directory''),
      (''/usage-logs'', ''console'', ''log''),
      (''/usage-logs/common'', ''console'', ''log''),
      (''/usage-logs/drawing'', ''console'', ''midjourney''),
      (''/usage-logs/task'', ''console'', ''task''),
      (''/wallet'', ''personal'', ''topup''),
      (''/invite-rewards'', ''personal'', ''topup''),
      (''/user-subscription'', ''personal'', ''subscription''),
      (''/profile'', ''personal'', ''personal''),
      (''/agents'', ''personal'', ''agent''),
      (''/channels'', ''admin'', ''channel''),
      (''/suppliers'', ''admin'', ''supplier''),
      (''/models'', ''admin'', ''models''),
      (''/models/metadata'', ''admin'', ''models''),
      (''/models/deployments'', ''admin'', ''models''),
      (''/model-monitor'', ''admin'', ''model_monitor''),
      (''/model-profit'', ''admin'', ''model_profit''),
      (''/users'', ''admin'', ''user''),
      (''/billing-management'', ''admin'', ''billing_management''),
      (''/agent-management'', ''admin'', ''agent_management''),
      (''/withdrawal-management'', ''admin'', ''withdrawal_management''),
      (''/redemption-codes'', ''admin'', ''redemption''),
      (''/subscriptions'', ''admin'', ''subscription''),
      (''/system-settings'', ''admin'', ''setting''),
      (''/system-settings/site'', ''admin'', ''setting'')]"

text \<open>
  A lookup in the table. The names on \<open>Object.prototype\<close> are found too, and have neither a section
  nor a module, so that both read as \<open>undefined\<close>.
\<close>

definition config_of :: "jsstr \<Rightarrow> (jsstr \<times> jsstr) option" where
  "config_of url =
     (case map_of URL_TO_CONFIG_MAP url of
        Some e \<Rightarrow> Some e
      | None \<Rightarrow> if url \<in> set object_prototype then Some (J ''undefined'', J ''undefined'') else None)"

definition REGULAR_ADMIN_HIDDEN_URLS :: "jsstr list" where
  "REGULAR_ADMIN_HIDDEN_URLS =
     [J ''/channels'', J ''/suppliers'', J ''/model-profit'', J ''/system-settings'', J ''/system-settings/site'']"

definition canUseAgentConsole :: "jsnum option \<Rightarrow> bool option \<Rightarrow> bool option \<Rightarrow> bool" where
  "canUseAgentConsole role hasAgent permission \<longleftrightarrow>
     role \<noteq> None \<and> (hasAgent = Some True \<or> permission = Some True)"

definition admin_allows :: "section_config \<Rightarrow> jsstr \<Rightarrow> jsstr \<Rightarrow> bool" where
  "admin_allows admin sec md \<longleftrightarrow>
     truthy (map_of admin sec) \<noteq> None \<and>
     truthy (json_optional (map_of admin sec) (J ''enabled'')) \<noteq> None \<and>
     json_optional (map_of admin sec) md = Some (JBool True)"

definition user_allows :: "json option \<Rightarrow> jsstr \<Rightarrow> jsstr \<Rightarrow> bool" where
  "user_allows user sec md \<longleftrightarrow>
     (case truthy (json_optional user sec) of
        None \<Rightarrow> True
      | Some s \<Rightarrow> json_optional (Some s) (J ''enabled'') \<noteq> Some (JBool False) \<and>
          json_optional (Some s) md \<noteq> Some (JBool False))"

definition isModuleEnabled :: "jsstr \<Rightarrow> section_config \<Rightarrow> json option \<Rightarrow> bool \<Rightarrow> bool" where
  "isModuleEnabled url admin user agentConsoleAllowed \<longleftrightarrow>
     \<not> (url = J ''/agents'' \<and> \<not> agentConsoleAllowed) \<and>
     (case config_of url of
        None \<Rightarrow> True
      | Some (sec, md) \<Rightarrow> admin_allows admin sec md \<and> user_allows user sec md)"

definition config_urls :: "nav_base \<Rightarrow> jsstr \<Rightarrow> jsstr list" where
  "config_urls b url = (case nb_configUrls b of None \<Rightarrow> [url] | Some us \<Rightarrow> us)"

fun isNavItemVisible :: "sidebar_item \<Rightarrow> section_config \<Rightarrow> json option \<Rightarrow> bool \<Rightarrow> bool" where
  "isNavItemVisible (NavChatPresets b) admin user agents \<longleftrightarrow>
     admin_allows admin (J ''chat'') (J ''chat'') \<and> user_allows user (J ''chat'') (J ''chat'')"
| "isNavItemVisible (NavLink b url) admin user agents \<longleftrightarrow>
     url = [] \<or> list_ex (\<lambda>u. isModuleEnabled u admin user agents) (config_urls b url)"
| "isNavItemVisible (NavCollapsible b subs) admin user agents \<longleftrightarrow>
     list_ex (\<lambda>(_, u). isModuleEnabled u admin user agents) subs"

fun filter_subs :: "section_config \<Rightarrow> json option \<Rightarrow> bool \<Rightarrow> sidebar_item \<Rightarrow> sidebar_item" where
  "filter_subs admin user agents (NavCollapsible b subs) =
     NavCollapsible b (filter (\<lambda>(_, u). isModuleEnabled u admin user agents) subs)"
| "filter_subs admin user agents item = item"

definition filterNavItems ::
    "sidebar_item list \<Rightarrow> section_config \<Rightarrow> json option \<Rightarrow> bool \<Rightarrow> sidebar_item list" where
  "filterNavItems items admin user agents =
     filter (\<lambda>item. isNavItemVisible item admin user agents) (map (filter_subs admin user agents) items)"

section \<open>Roles\<close>

definition restricted_url :: "jsstr \<Rightarrow> jsnum option \<Rightarrow> bool" where
  "restricted_url url role \<longleftrightarrow>
     (case role of None \<Rightarrow> False | Some r \<Rightarrow> num_eq r ROLE_ADMIN) \<and>
     url \<noteq> [] \<and> url \<in> set REGULAR_ADMIN_HIDDEN_URLS"

fun isRestrictedForRole :: "sidebar_item \<Rightarrow> jsnum option \<Rightarrow> bool" where
  "isRestrictedForRole (NavLink b url) role \<longleftrightarrow> restricted_url url role"
| "isRestrictedForRole _ role \<longleftrightarrow> False"

fun restrict_subs :: "jsnum option \<Rightarrow> sidebar_item \<Rightarrow> sidebar_item" where
  "restrict_subs role (NavCollapsible b subs) =
     NavCollapsible b (filter (\<lambda>(_, u). \<not> restricted_url u role) subs)"
| "restrict_subs role item = item"

fun kept_for_role :: "jsnum option \<Rightarrow> sidebar_item \<Rightarrow> bool" where
  "kept_for_role role (NavCollapsible b subs) \<longleftrightarrow> subs \<noteq> []"
| "kept_for_role role item \<longleftrightarrow> \<not> isRestrictedForRole item role"

definition is_admin :: "jsnum option \<Rightarrow> bool" where
  "is_admin role \<longleftrightarrow> (case role of None \<Rightarrow> False | Some r \<Rightarrow> num_le ROLE_ADMIN r)"

definition restrict_group :: "jsnum option \<Rightarrow> sidebar_group \<Rightarrow> sidebar_group" where
  "restrict_group role g =
     (if sg_id g = Some (J ''admin'') \<and> \<not> is_admin role then g\<lparr>sg_items := []\<rparr>
      else g\<lparr>sg_items := filter (kept_for_role role) (map (restrict_subs role) (sg_items g))\<rparr>)"

definition nonempty_groups :: "sidebar_group list \<Rightarrow> sidebar_group list" where
  "nonempty_groups gs = filter (\<lambda>g. sg_items g \<noteq> []) gs"

definition applyRoleSidebarRestrictions :: "sidebar_group list \<Rightarrow> jsnum option \<Rightarrow> sidebar_group list" where
  "applyRoleSidebarRestrictions gs role = nonempty_groups (map (restrict_group role) gs)"

text \<open>The hook, as a function of the stored configuration and the signed-in user.\<close>

definition user_config :: "sidebar_user option \<Rightarrow> json option" where
  "user_config user =
     (if Option.bind user su_sidebar_settings = Some False then None
      else parseUserSidebarConfig (Option.bind user su_sidebar_modules))"

definition user_role :: "sidebar_user option \<Rightarrow> jsnum option" where
  "user_role user = Option.bind user su_role"

definition agents_allowed :: "sidebar_user option \<Rightarrow> bool" where
  "agents_allowed user =
     canUseAgentConsole (user_role user) (Option.bind user su_has_agent) (Option.bind user su_agent_console)"

definition useSidebarConfig ::
    "sidebar_group list \<Rightarrow> jsstr option \<Rightarrow> sidebar_user option \<Rightarrow> sidebar_group list" where
  "useSidebarConfig navGroups adminModules user =
     applyRoleSidebarRestrictions
       (nonempty_groups
         (map (\<lambda>g. g\<lparr>sg_items := filterNavItems (sg_items g) (parseSidebarConfig adminModules)
                (user_config user) (agents_allowed user)\<rparr>) navGroups))
       (user_role user)"

section \<open>What is shown\<close>

text \<open>The addresses a reader of the side bar can follow, with the group each is in.\<close>

fun item_urls :: "sidebar_item \<Rightarrow> jsstr list" where
  "item_urls (NavLink b url) = [url]"
| "item_urls (NavCollapsible b subs) = map snd subs"
| "item_urls (NavChatPresets b) = []"

definition group_urls :: "sidebar_group \<Rightarrow> jsstr list" where
  "group_urls g = concat (map item_urls (sg_items g))"

definition shown_urls :: "sidebar_group list \<Rightarrow> (jsstr option \<times> jsstr) set" where
  "shown_urls gs = set (concat (map (\<lambda>g. map (\<lambda>u. (sg_id g, u)) (group_urls g)) gs))"

lemma shown_urls_iff:
  "(gid, u) \<in> shown_urls gs \<longleftrightarrow>
    (\<exists>g \<in> set gs. sg_id g = gid \<and> (\<exists>item \<in> set (sg_items g). u \<in> set (item_urls item)))"
  by (force simp: shown_urls_def group_urls_def)

text \<open>
  An address the configuration allows: a link by one of the addresses it is configured under, an
  entry of a collapsible item by its own.
\<close>

fun item_allows :: "sidebar_item \<Rightarrow> jsstr \<Rightarrow> (jsstr \<Rightarrow> bool) \<Rightarrow> bool" where
  "item_allows (NavLink b url) u P \<longleftrightarrow> u = url \<and> (url = [] \<or> list_ex P (config_urls b url))"
| "item_allows (NavCollapsible b subs) u P \<longleftrightarrow> u \<in> snd ` set subs \<and> P u"
| "item_allows (NavChatPresets b) u P \<longleftrightarrow> False"

text \<open>The side bar in one formula.\<close>

lemma filtered_item_urls:
  "(\<exists>item' \<in> set (filterNavItems [item] admin user agents). u \<in> set (item_urls item'))
    \<longleftrightarrow> item_allows item u (\<lambda>url. isModuleEnabled url admin user agents)"
  by (cases item) (force simp: filterNavItems_def list_ex_iff)+

lemma filterNavItems_Cons:
  "set (filterNavItems (item # items) admin user agents) =
     set (filterNavItems [item] admin user agents) \<union> set (filterNavItems items admin user agents)"
  by (auto simp: filterNavItems_def)

lemma filtered_urls:
  "(\<exists>item' \<in> set (filterNavItems items admin user agents). u \<in> set (item_urls item'))
    \<longleftrightarrow> (\<exists>item \<in> set items. item_allows item u (\<lambda>url. isModuleEnabled url admin user agents))"
proof (induction items)
  case (Cons item items)
  then show ?case
    by (subst filterNavItems_Cons) (auto simp: bex_Un filtered_item_urls)
qed (simp add: filterNavItems_def)

lemma restricted_item_urls:
  "(kept_for_role role (restrict_subs role item) \<and> u \<in> set (item_urls (restrict_subs role item)))
    \<longleftrightarrow> u \<in> set (item_urls item) \<and> \<not> restricted_url u role"
  by (cases item) (force simp: filter_empty_conv)+

lemma restricted_urls:
  "(\<exists>item' \<in> set (sg_items (restrict_group role g)). u \<in> set (item_urls item'))
    \<longleftrightarrow> (sg_id g = Some (J ''admin'') \<longrightarrow> is_admin role) \<and> \<not> restricted_url u role \<and>
        (\<exists>item \<in> set (sg_items g). u \<in> set (item_urls item))"
  using restricted_item_urls [of role _ u] by (auto simp: restrict_group_def)

lemma nonempty_groups_urls: "shown_urls (nonempty_groups gs) = shown_urls gs"
proof -
  have "group_urls g = []" if "sg_items g = []" for g using that by (simp add: group_urls_def)
  then show ?thesis by (force simp: shown_urls_def nonempty_groups_def)
qed

lemma restrict_group_id [simp]: "sg_id (restrict_group role g) = sg_id g"
  by (simp add: restrict_group_def)

lemma shown_iff:
  "(gid, u) \<in> shown_urls (useSidebarConfig gs adm user) \<longleftrightarrow>
     (gid = Some (J ''admin'') \<longrightarrow> is_admin (user_role user)) \<and> \<not> restricted_url u (user_role user) \<and>
     (\<exists>g \<in> set gs. sg_id g = gid \<and> (\<exists>item \<in> set (sg_items g). item_allows item u
        (\<lambda>url. isModuleEnabled url (parseSidebarConfig adm) (user_config user) (agents_allowed user))))"
proof -
  let ?f = "\<lambda>g. g\<lparr>sg_items := filterNavItems (sg_items g) (parseSidebarConfig adm) (user_config user)
    (agents_allowed user)\<rparr>"
  have map: "(gid, u) \<in> shown_urls (map f hs) \<longleftrightarrow>
      (\<exists>g \<in> set hs. sg_id (f g) = gid \<and> (\<exists>item \<in> set (sg_items (f g)). u \<in> set (item_urls item)))" for f hs
    by (simp add: shown_urls_iff)
  have nonempty: "(\<exists>g \<in> set (nonempty_groups hs). P g) \<longleftrightarrow> (\<exists>g \<in> set hs. sg_items g \<noteq> [] \<and> P g)" for hs P
    by (auto simp: nonempty_groups_def)
  have "(gid, u) \<in> shown_urls (useSidebarConfig gs adm user) \<longleftrightarrow>
    (\<exists>g \<in> set (nonempty_groups (map ?f gs)). sg_id g = gid \<and>
      (\<exists>item \<in> set (sg_items (restrict_group (user_role user) g)). u \<in> set (item_urls item)))"
    by (simp only: useSidebarConfig_def applyRoleSidebarRestrictions_def nonempty_groups_urls map restrict_group_id)
  also have "\<dots> \<longleftrightarrow> (\<exists>g \<in> set (map ?f gs). sg_id g = gid \<and>
      (gid = Some (J ''admin'') \<longrightarrow> is_admin (user_role user)) \<and> \<not> restricted_url u (user_role user) \<and>
      (\<exists>item \<in> set (sg_items g). u \<in> set (item_urls item)))"
    by (simp only: nonempty restricted_urls) (use empty_set in force)
  also have "\<dots> \<longleftrightarrow> (gid = Some (J ''admin'') \<longrightarrow> is_admin (user_role user)) \<and>
      \<not> restricted_url u (user_role user) \<and>
      (\<exists>g \<in> set gs. sg_id g = gid \<and> (\<exists>item \<in> set (filterNavItems (sg_items g) (parseSidebarConfig adm)
        (user_config user) (agents_allowed user)). u \<in> set (item_urls item)))"
    by auto
  finally show ?thesis by (simp only: filtered_urls)
qed


section \<open>Properties\<close>

lemma item_allows_mono: "item_allows item u P \<Longrightarrow> (\<And>url. P url \<Longrightarrow> Q url) \<Longrightarrow> item_allows item u Q"
  by (cases item) (auto simp: list_ex_iff)

lemma enabled_without_user:
  "isModuleEnabled url admin user agents \<Longrightarrow> isModuleEnabled url admin None agents"
  by (auto simp: isModuleEnabled_def user_allows_def json_optional_def truthy_def split: option.splits)

lemma no_modules_config: "user_config (Some (u\<lparr>su_sidebar_modules := None\<rparr>)) = None"
  by (simp add: user_config_def parseUserSidebarConfig_def)

lemma no_modules_user:
  "user_role (Some (u\<lparr>su_sidebar_modules := None\<rparr>)) = user_role (Some u)"
  "agents_allowed (Some (u\<lparr>su_sidebar_modules := None\<rparr>)) = agents_allowed (Some u)"
  by (simp_all add: user_role_def agents_allowed_def)

text \<open>C26. The modules a user has chosen can only hide: without them everything that was shown is
  still shown, and they are ignored for a user who may not change them.\<close>

theorem user_modules_only_hide:
  "shown_urls (useSidebarConfig gs adm (Some u)) \<subseteq>
     shown_urls (useSidebarConfig gs adm (Some (u\<lparr>su_sidebar_modules := None\<rparr>))) \<and>
   shown_urls (useSidebarConfig gs adm (Some (u\<lparr>su_sidebar_settings := Some False\<rparr>))) =
     shown_urls (useSidebarConfig gs adm (Some (u\<lparr>su_sidebar_modules := None\<rparr>)))"
proof
  show "shown_urls (useSidebarConfig gs adm (Some u)) \<subseteq>
     shown_urls (useSidebarConfig gs adm (Some (u\<lparr>su_sidebar_modules := None\<rparr>)))"
  proof (rule subrelI)
    fix gid url
    assume "(gid, url) \<in> shown_urls (useSidebarConfig gs adm (Some u))"
    then show "(gid, url) \<in> shown_urls (useSidebarConfig gs adm (Some (u\<lparr>su_sidebar_modules := None\<rparr>)))"
      unfolding shown_iff no_modules_config no_modules_user
      using item_allows_mono enabled_without_user by (smt (verit, ccfv_threshold))
  qed
  have "useSidebarConfig gs adm (Some (u\<lparr>su_sidebar_settings := Some False\<rparr>)) =
    useSidebarConfig gs adm (Some (u\<lparr>su_sidebar_modules := None\<rparr>))"
    by (simp add: useSidebarConfig_def user_config_def parseUserSidebarConfig_def user_role_def agents_allowed_def)
  then show "shown_urls (useSidebarConfig gs adm (Some (u\<lparr>su_sidebar_settings := Some False\<rparr>))) =
    shown_urls (useSidebarConfig gs adm (Some (u\<lparr>su_sidebar_modules := None\<rparr>)))" by simp
qed

definition user_pages :: "jsstr list" where
  "user_pages = map J
     [''/playground'', ''/dashboard/overview'', ''/dashboard/models'', ''/keys'', ''/usage-logs/common'',
      ''/usage-logs/task'', ''/wallet'', ''/invite-rewards'', ''/billing/monthly'', ''/user-subscription'',
      ''/provider'', ''/profile'', ''/agents'']"

definition subaccount_pages :: "jsstr list" where
  "subaccount_pages = map J [''/dashboard/overview'', ''/keys'', ''/usage-logs/common'', ''/profile'']"

lemma shown_in_group:
  "(gid, u) \<in> shown_urls (useSidebarConfig gs adm user) \<Longrightarrow>
    \<exists>g \<in> set gs. sg_id g = gid \<and> (\<exists>item \<in> set (sg_items g). u \<in> set (item_urls item))"
proof -
  have "u \<in> set (item_urls item)" if "item_allows item u P" for item P
    using that by (cases item) auto
  then show "(gid, u) \<in> shown_urls (useSidebarConfig gs adm user) \<Longrightarrow>
    \<exists>g \<in> set gs. sg_id g = gid \<and> (\<exists>item \<in> set (sg_items g). u \<in> set (item_urls item))"
    unfolding shown_iff by blast
qed

lemma full_groups_urls:
  "list_all (\<lambda>g. sg_id g = Some (J ''admin'') \<or> list_all (\<lambda>u. u \<in> set user_pages) (group_urls g))
     (full_groups tr agents invite)"
  by (simp add: full_groups_def nav_group_def group_urls_def plain_link_def active_link_def user_pages_def
      del: J_Cons)

lemma tasks_page:
  "\<exists>g \<in> set (full_groups tr agents invite). sg_id g = Some (J ''admin'') \<and>
     plain_link tr ''System Tasks'' ''/system-tasks'' \<in> set (sg_items g)"
  by (simp add: full_groups_def nav_group_def del: J_Cons)

lemma subaccount_groups_urls:
  "list_all (\<lambda>g. list_all (\<lambda>u. u \<in> set subaccount_pages) (group_urls g)) (subaccount_groups tr)"
  by (simp add: subaccount_groups_def nav_group_def group_urls_def plain_link_def subaccount_pages_def
      del: J_Cons)

text \<open>C27. A user below the administrators is shown no page of theirs, whatever is configured, and
  a subaccount of a workspace only its four pages, whatever its role.\<close>

theorem shown_pages:
  assumes "(gid, url) \<in> shown_urls (useSidebarConfig (buildSidebarData tr user invite) adm user)"
  shows "(\<not> is_admin (user_role user) \<longrightarrow> url \<in> set user_pages) \<and>
    (\<forall>u. user = Some u \<and> su_workspace_subaccount u \<longrightarrow> url \<in> set subaccount_pages)"
proof -
  let ?sub = "case user of None \<Rightarrow> False | Some u \<Rightarrow> su_workspace_subaccount u"
  obtain g where g: "g \<in> set (buildSidebarData tr user invite)" "sg_id g = gid" "url \<in> set (group_urls g)"
    using shown_in_group [OF assms] by (auto simp: group_urls_def)
  have admin: "is_admin (user_role user)" if "gid = Some (J ''admin'')"
    using assms that unfolding shown_iff by blast
  show ?thesis
  proof (cases ?sub)
    case True
    then have "url \<in> set subaccount_pages"
      using g subaccount_groups_urls [of tr] by (auto simp: buildSidebarData_def list_all_iff)
    moreover have "set subaccount_pages \<subseteq> set user_pages"
      by (simp add: subaccount_pages_def user_pages_def del: J_Cons)
    ultimately show ?thesis by blast
  next
    case False
    then have "sg_id g = Some (J ''admin'') \<or> url \<in> set user_pages"
      using g full_groups_urls [of tr "may_use_agents user" "invite \<noteq> Some False"]
      by (auto simp: buildSidebarData_def list_all_iff)
    with False admin g(2) show ?thesis by auto
  qed
qed

definition sample_user :: "rat \<Rightarrow> sidebar_user" where
  "sample_user role = \<lparr>su_role = Some (Fin role), su_has_agent = None, su_agent_console = None,
     su_sidebar_settings = None, su_sidebar_modules = None, su_workspace_subaccount = False\<rparr>"

lemma shown_pages_witness:
  "(Some (J ''general''), J ''/keys'') \<in>
     shown_urls (useSidebarConfig (buildSidebarData id (Some (sample_user 1)) None) None (Some (sample_user 1))) \<and>
   J ''/keys'' \<in> set user_pages"
proof
  show shown: "(Some (J ''general''), J ''/keys'') \<in>
     shown_urls (useSidebarConfig (buildSidebarData id (Some (sample_user 1)) None) None (Some (sample_user 1)))"
    by code_simp
  have "\<not> is_admin (user_role (Some (sample_user 1)))" by code_simp
  with shown_pages [OF shown] show "J ''/keys'' \<in> set user_pages" by blast
qed

text \<open>Disabling the section of the administrators does not hide all of it: the pages without an
  entry in the table stay, whatever the configuration is; and the value \<open>false\<close> in the place of a
  section is replaced by the default, with everything enabled.\<close>

theorem disabled_section_still_shown:
  assumes "is_admin role" "su_role u = role" "\<not> su_workspace_subaccount u"
  shows "(Some (J ''admin''), J ''/system-tasks'') \<in>
      shown_urls (useSidebarConfig (buildSidebarData tr (Some u) invite) adm (Some u)) \<and>
    admin_allows (parseSidebarConfig (Some (J ''{\"admin\":false}''))) (J ''admin'') (J ''setting'')"
proof
  show "admin_allows (parseSidebarConfig (Some (J ''{\"admin\":false}''))) (J ''admin'') (J ''setting'')"
    by code_simp
  have admin: "is_admin (user_role (Some u))" using assms(1,2) by (simp add: user_role_def)
  have "config_of (J ''/system-tasks'') = None" by code_simp
  then have "isModuleEnabled (J ''/system-tasks'') c d b" for c d b
    by (simp add: isModuleEnabled_def del: J_Cons) simp
  then have allows: "item_allows (plain_link tr ''System Tasks'' ''/system-tasks'') (J ''/system-tasks'')
      (\<lambda>url. isModuleEnabled url c d b)" for c d b
    by (simp add: plain_link_def config_urls_def del: J_Cons)
  have "\<not> restricted_url (J ''/system-tasks'') r" for r
    by (simp add: restricted_url_def REGULAR_ADMIN_HIDDEN_URLS_def)
  moreover obtain g where "g \<in> set (buildSidebarData tr (Some u) invite)" "sg_id g = Some (J ''admin'')"
    "plain_link tr ''System Tasks'' ''/system-tasks'' \<in> set (sg_items g)"
    using assms(3) tasks_page [of tr "may_use_agents (Some u)" "invite \<noteq> Some False"]
    by (auto simp: buildSidebarData_def simp del: J_Cons)
  ultimately show "(Some (J ''admin''), J ''/system-tasks'') \<in>
      shown_urls (useSidebarConfig (buildSidebarData tr (Some u) invite) adm (Some u))"
    unfolding shown_iff using admin allows by blast
qed

lemma disabled_section_still_shown_witness:
  "(Some (J ''admin''), J ''/system-tasks'') \<in> shown_urls (useSidebarConfig
      (buildSidebarData id (Some (sample_user 100)) None) (Some (J ''{\"admin\":{\"enabled\":false}}''))
      (Some (sample_user 100)))"
  using disabled_section_still_shown [of "Some (Fin 100)" "sample_user 100" id None
      "Some (J ''{\"admin\":{\"enabled\":false}}'')"]
  by (simp add: sample_user_def is_admin_def ROLE_ADMIN_def num_le_def del: J_Cons)

end
