(* ===== verification/SidebarPages.thy ===== *)
theory SidebarPages
  imports Sidebar
begin

text \<open>
  The side bar against its specification: a table of the pages with the switches that govern each, and
  what the stored texts say of a switch. The texts are read here with \<open>JSON.parse\<close> alone, without the
  defaults and the merging of the program.
\<close>

section \<open>The switches\<close>

text \<open>What the administrator wrote for a key of a section. Everything that is missing is on.\<close>

definition admin_switch :: "jsstr option \<Rightarrow> jsstr \<Rightarrow> jsstr \<Rightarrow> json" where
  "admin_switch adm sec key =
     (case adm of
        None \<Rightarrow> JBool True
      | Some s \<Rightarrow> (case json_parse s of
          Inr (JObj m) \<Rightarrow> (case map_of m sec of
              Some (JObj e) \<Rightarrow> (case map_of e key of Some v \<Rightarrow> v | None \<Rightarrow> JBool True)
            | _ \<Rightarrow> JBool True)
        | _ \<Rightarrow> JBool True))"

text \<open>A section is on when its switch is truthy, a module only when it is \<open>true\<close>.\<close>

definition admin_enables :: "jsstr option \<Rightarrow> jsstr \<Rightarrow> jsstr \<Rightarrow> bool" where
  "admin_enables adm sec md \<longleftrightarrow>
     json_truthy (admin_switch adm sec (J ''enabled'')) \<and> admin_switch adm sec md = JBool True"

text \<open>A user hides what the own text switches off, as long as the user may change the side bar.\<close>

definition user_hides :: "sidebar_user option \<Rightarrow> jsstr \<Rightarrow> jsstr \<Rightarrow> bool" where
  "user_hides user sec md \<longleftrightarrow>
     (case user of
        None \<Rightarrow> False
      | Some u \<Rightarrow> su_sidebar_settings u \<noteq> Some False \<and>
          (case su_sidebar_modules u of
             None \<Rightarrow> False
           | Some s \<Rightarrow> (case json_parse s of
               Inr (JObj m) \<Rightarrow> (case map_of m sec of
                   Some (JObj e) \<Rightarrow> map_of e (J ''enabled'') = Some (JBool False) \<or> map_of e md = Some (JBool False)
                 | _ \<Rightarrow> False)
             | _ \<Rightarrow> False)))"

lemma map_of_spread: "map_of (spread a b) = map_of a ++ map_of (rev b)"
  by (induction b arbitrary: a) (auto simp: spread_def map_of_obj_put map_add_def fun_eq_iff split: option.splits)

lemma map_of_fill: "map_of s k \<noteq> None \<Longrightarrow> map_of (fill_missing d s) k = map_of s k"
  unfolding fill_missing_def by (induction d arbitrary: s) (auto simp: map_of_obj_put)

lemma map_of_rev: "distinct (map fst m) \<Longrightarrow> map_of (rev m) = map_of m"
  by (rule map_of_inject_set [THEN iffD2]) (simp_all add: rev_map [symmetric])

definition merged_section :: "section_config \<Rightarrow> json option \<Rightarrow> section_config" where
  "merged_section d own =
     (case truthy own of None \<Rightarrow> spread [] d | Some v \<Rightarrow> fill_missing d (spread (spread [] d) (own_props v)))"

lemma merge_other: "k \<notin> set (map fst ds) \<Longrightarrow> map_of (fold merge_section ds m) k = map_of m k"
  by (induction ds arbitrary: m) (auto simp: merge_section_def map_of_obj_put split: option.splits)

lemma map_of_merged:
  "k \<in> set (map fst ds) \<Longrightarrow> distinct (map fst ds) \<Longrightarrow>
    map_of (fold merge_section ds m) k = Some (JObj (merged_section (the (map_of ds k)) (map_of m k)))"
proof (induction ds arbitrary: m)
  case (Cons p ds)
  obtain j d where p: "p = (j, d)" by (cases p)
  show ?case
  proof (cases "k = j")
    case True
    with Cons.prems(2) p have "k \<notin> set (map fst ds)" by simp
    from merge_other [OF this] True p show ?thesis
      by (auto simp: merge_section_def merged_section_def map_of_obj_put split: option.splits)
  next
    case False
    then have "map_of (merge_section p m) k = map_of m k"
      by (auto simp: p merge_section_def map_of_obj_put split: option.splits)
    with Cons False p show ?thesis by simp
  qed
qed simp

text \<open>A key of the defaults, all of which are on, has the own value or is on. The keys of an array or a
  text are numbers.\<close>

lemma index_keys: "list_all is_digit k \<or> k \<notin> set (map fst (indexed vs))"
  by (auto simp: indexed_def set_zip dec_digits)

lemma merged_switch:
  assumes "map_of d k = Some (JBool True)" "distinct (map fst d)" "\<not> list_all is_digit k"
    and "\<And>m. own = Some (JObj m) \<Longrightarrow> distinct (map fst m)"
  shows "map_of (merged_section d own) k =
    Some (case own of Some (JObj e) \<Rightarrow> (case map_of e k of Some v \<Rightarrow> v | None \<Rightarrow> JBool True) | _ \<Rightarrow> JBool True)"
proof -
  have d: "map_of (spread [] d) k = Some (JBool True)"
    using assms(1,2) by (simp add: map_of_spread map_of_rev)
  have props: "map_of (fill_missing d (spread (spread [] d) b)) k =
      Some (case map_of (rev b) k of Some v \<Rightarrow> v | None \<Rightarrow> JBool True)" for b
    using d by (subst map_of_fill) (simp_all add: map_of_spread [of _ b] map_add_def split: option.splits)
  have "map_of (rev (indexed vs)) k = None" for vs
    using index_keys [of k vs] assms(3) by (simp add: map_of_eq_None_iff)
  then show ?thesis using d props assms(4)
    by (auto simp: merged_section_def truthy_def own_props_def map_of_rev split: option.splits json.splits)
qed

lemma default_sections: "distinct (map fst DEFAULT_SIDEBAR_MODULES)"
  "list_all (\<lambda>(sec, d). distinct (map fst d) \<and> map_of d (J ''enabled'') = Some (JBool True)) DEFAULT_SIDEBAR_MODULES"
  by code_simp+

text \<open>The configuration the program works with has the switches of the text.\<close>

definition is_switch :: "jsstr \<Rightarrow> jsstr \<Rightarrow> bool" where
  "is_switch sec key \<longleftrightarrow> \<not> list_all is_digit key \<and>
     (case map_of DEFAULT_SIDEBAR_MODULES sec of Some d \<Rightarrow> map_of d key = Some (JBool True) | None \<Rightarrow> False)"

lemma switch_enabled: "is_switch sec key \<Longrightarrow> is_switch sec (J ''enabled'')"
  using default_sections(2)
  by (auto simp: is_switch_def list_all_iff is_digit_def split: option.splits dest!: map_of_SomeD)

lemma config_switch:
  assumes "is_switch sec key"
  shows "\<exists>e. map_of (parseSidebarConfig adm) sec = Some (JObj e) \<and> map_of e key = Some (admin_switch adm sec key)"
proof -
  obtain d where d: "map_of DEFAULT_SIDEBAR_MODULES sec = Some d" "map_of d key = Some (JBool True)"
    and k: "\<not> list_all is_digit key"
    using assms by (auto simp: is_switch_def split: option.splits)
  then have dd: "distinct (map fst d)" "sec \<in> set (map fst DEFAULT_SIDEBAR_MODULES)"
    using default_sections(2) by (force simp: list_all_iff dest: map_of_SomeD)+
  have default: "map_of default_config sec = Some (JObj d)"
    using d(1) unfolding default_config_def by (simp add: map_of_map)
  show ?thesis
  proof (cases "adm = None \<or> (\<exists>s. adm = Some s \<and> (trim s = [] \<or> (\<exists>e. json_parse s = Inl e)))")
    case True
    then have "parseSidebarConfig adm = default_config" "admin_switch adm sec key = JBool True"
      using blank_not_json by (auto simp: parseSidebarConfig_def admin_switch_def)
    with default d(2) show ?thesis by simp
  next
    case False
    then obtain s v where s: "adm = Some s" "trim s \<noteq> []" "json_parse s = Inr v"
      by (metis not_None_eq sum.exhaust)
    let ?m = "spread [] (own_props v)"
    have "map_of (parseSidebarConfig adm) sec = Some (JObj (merged_section d (map_of ?m sec)))"
      using s d(1) dd(2) default_sections(1)
      by (simp add: parseSidebarConfig_def mergeWithDefaultSidebarModules_def map_of_merged)
    moreover have dist: "distinct_keys v" using json_parse_distinct [OF s(3)] .
    have own: "map_of ?m sec = (case v of JObj m \<Rightarrow> map_of m sec | _ \<Rightarrow> map_of ?m sec)"
      using dist by (auto simp: own_props_def map_of_spread map_of_rev split: json.splits)
    have other: "map_of ?m sec = None" if "\<nexists>m. v = JObj m"
    proof -
      have "\<not> list_all is_digit sec"
      proof -
        have "list_all (\<lambda>(sec, d). \<not> list_all is_digit sec) DEFAULT_SIDEBAR_MODULES" by code_simp
        with d(1) show ?thesis by (auto simp: list_all_iff dest: map_of_SomeD)
      qed
      then have "map_of (rev (indexed vs)) sec = None" for vs
        using index_keys [of sec vs] by (simp add: map_of_eq_None_iff)
      with that show ?thesis by (cases v) (simp_all add: own_props_def map_of_spread)
    qed
    have "distinct (map fst e)" if "map_of ?m sec = Some (JObj e)" for e
    proof (cases "\<exists>m. v = JObj m")
      case True
      then obtain m where m: "v = JObj m" by blast
      with own that have "map_of m sec = Some (JObj e)" by simp
      then have "JObj e \<in> set (map snd m)" by (force dest: map_of_SomeD)
      moreover have "list_all distinct_keys (map snd m)" using dist m by simp
      ultimately have "distinct_keys (JObj e)" unfolding list_all_iff by blast
      then show ?thesis by simp
    qed (use other that in simp)
    from merged_switch [OF d(2) dd(1) k this] have
      "map_of (merged_section d (map_of ?m sec)) key = Some (case map_of ?m sec of
        Some (JObj e) \<Rightarrow> (case map_of e key of Some v \<Rightarrow> v | None \<Rightarrow> JBool True) | _ \<Rightarrow> JBool True)" .
    moreover have "(case map_of ?m sec of
        Some (JObj e) \<Rightarrow> (case map_of e key of Some v \<Rightarrow> v | None \<Rightarrow> JBool True) | _ \<Rightarrow> JBool True) =
        admin_switch adm sec key"
      using s own other by (cases v) (simp_all add: admin_switch_def)
    ultimately show ?thesis by simp
  qed
qed

lemma admin_allows_switch:
  assumes "is_switch sec md"
  shows "admin_allows (parseSidebarConfig adm) sec md = admin_enables adm sec md"
proof -
  obtain e where e: "map_of (parseSidebarConfig adm) sec = Some (JObj e)" "map_of e md = Some (admin_switch adm sec md)"
    using config_switch [OF assms] by blast
  moreover have "map_of e (J ''enabled'') = Some (admin_switch adm sec (J ''enabled''))"
    using config_switch [OF switch_enabled [OF assms], of adm] e(1) by auto
  ultimately show ?thesis
    by (simp add: admin_allows_def admin_enables_def truthy_def json_optional_def del: J_Cons)
qed

lemma user_allows_hides: "user_allows (user_config user) sec md \<longleftrightarrow> \<not> user_hides user sec md"
proof (cases user)
  case None
  then show ?thesis
    by (simp add: user_hides_def user_config_def parseUserSidebarConfig_def user_allows_def json_optional_def truthy_def)
next
  case (Some u)
  show ?thesis
  proof (cases "su_sidebar_settings u = Some False \<or> su_sidebar_modules u = None")
    case True
    with Some show ?thesis
      by (auto simp: user_hides_def user_config_def parseUserSidebarConfig_def user_allows_def json_optional_def truthy_def)
  next
    case False
    then obtain s where s: "su_sidebar_settings u \<noteq> Some False" "su_sidebar_modules u = Some s" by auto
    have c: "user_config user = (case json_parse s of Inr (JObj m) \<Rightarrow> Some (JObj m) | Inr (JArr vs) \<Rightarrow> Some (JArr vs) | _ \<Rightarrow> None)"
      using s Some blank_not_json [of s] by (simp add: user_config_def parseUserSidebarConfig_def)
    show ?thesis
    proof (cases "\<exists>m. json_parse s = Inr (JObj m)")
      case True
      then obtain m where "json_parse s = Inr (JObj m)" by blast
      with c s Some show ?thesis
        by (auto simp: user_hides_def user_allows_def json_optional_def truthy_def simp del: J_Cons
            split: option.splits json.splits)
    next
      case False
      then have "\<not> user_hides user sec md" using s Some
        by (auto simp: user_hides_def split: sum.splits json.splits)
      moreover have "json_optional (user_config user) sec = None"
        using False unfolding c by (auto simp: json_optional_def split: sum.splits json.splits)
      ultimately show ?thesis by (simp add: user_allows_def truthy_def)
    qed
  qed
qed

section \<open>The pages\<close>

text \<open>The groups with their pages, and the section and module of the switches of each. A page with two
  modules is shown when one of them is on, a page with none always.\<close>

definition side_bar_pages :: "(string \<times> (string \<times> (string \<times> string) list) list) list" where
  "side_bar_pages =
     [(''chat'',
        [(''/playground'', [(''chat'', ''playground'')])]),
      (''general'',
        [(''/dashboard/overview'', [(''console'', ''detail'')]),
         (''/dashboard/models'', [(''console'', ''detail'')]),
         (''/keys'', [(''console'', ''token'')]),
         (''/usage-logs/common'', [(''console'', ''log'')]),
         (''/usage-logs/task'', [(''console'', ''midjourney''), (''console'', ''task'')])]),
      (''personal'',
        [(''/wallet'', [(''personal'', ''topup'')]),
         (''/billing/monthly'', [(''personal'', ''topup'')]),
         (''/user-subscription'', [(''personal'', ''subscription'')]),
         (''/provider'', [(''console'', ''supplier_directory'')]),
         (''/profile'', [(''personal'', ''personal'')]),
         (''/invite-rewards'', [(''personal'', ''topup'')]),
         (''/agents'', [(''personal'', ''agent'')])]),
      (''admin'',
        [(''/channels'', [(''admin'', ''channel'')]),
         (''/suppliers'', [(''admin'', ''supplier'')]),
         (''/models/metadata'', [(''admin'', ''models'')]),
         (''/model-monitor'', [(''admin'', ''model_monitor'')]),
         (''/model-profit'', [(''admin'', ''model_profit'')]),
         (''/usage-logs/channel-operations'', []),
         (''/users'', [(''admin'', ''user'')]),
         (''/billing-management'', [(''admin'', ''billing_management'')]),
         (''/agent-management'', [(''admin'', ''agent_management'')]),
         (''/withdrawal-management'', [(''admin'', ''withdrawal_management'')]),
         (''/redemption-codes'', [(''admin'', ''redemption'')]),
         (''/subscriptions'', [(''admin'', ''subscription'')]),
         (''/system-settings/site'', [(''admin'', ''setting'')]),
         (''/system-tasks'', [])])]"

text \<open>Who may see a page at all: subaccounts of a workspace four of them, the invitation page when it is
  offered, the agent console for its agents, the group of the administrators from role 10 on, and four
  pages of theirs only above it.\<close>

definition role_at_least :: "sidebar_user option \<Rightarrow> rat \<Rightarrow> bool" where
  "role_at_least user n \<longleftrightarrow>
     (case user of None \<Rightarrow> False | Some u \<Rightarrow> (case su_role u of None \<Rightarrow> False | Some r \<Rightarrow> num_le (Fin n) r))"

definition ordinary_admin :: "sidebar_user option \<Rightarrow> bool" where
  "ordinary_admin user \<longleftrightarrow> (case user of None \<Rightarrow> False | Some u \<Rightarrow> su_role u = Some (Fin 10))"

definition is_subaccount :: "sidebar_user option \<Rightarrow> bool" where
  "is_subaccount user \<longleftrightarrow> (case user of None \<Rightarrow> False | Some u \<Rightarrow> su_workspace_subaccount u)"

definition is_agent :: "sidebar_user option \<Rightarrow> bool" where
  "is_agent user \<longleftrightarrow>
     (case user of None \<Rightarrow> False
      | Some u \<Rightarrow> su_role u \<noteq> None \<and> (su_has_agent u = Some True \<or> su_agent_console u = Some True))"

definition may_see :: "sidebar_user option \<Rightarrow> bool option \<Rightarrow> string \<Rightarrow> string \<Rightarrow> bool" where
  "may_see user invite g url \<longleftrightarrow>
     (if is_subaccount user
      then url \<in> set [''/dashboard/overview'', ''/keys'', ''/usage-logs/common'', ''/profile'']
      else if url = ''/invite-rewards'' then invite \<noteq> Some False
      else if url = ''/agents'' then is_agent user
      else if g = ''admin''
      then role_at_least user 10 \<and>
        (url \<notin> set [''/channels'', ''/suppliers'', ''/model-profit'', ''/system-settings/site''] \<or> \<not> ordinary_admin user)
      else True)"

definition switched_on :: "jsstr option \<Rightarrow> sidebar_user option \<Rightarrow> (string \<times> string) list \<Rightarrow> bool" where
  "switched_on adm user mods \<longleftrightarrow> mods = [] \<or>
     list_ex (\<lambda>(sec, md). admin_enables adm (J sec) (J md) \<and> \<not> user_hides user (J sec) (J md)) mods"

text \<open>The addresses a page is configured under.\<close>

definition page_configs :: "string \<Rightarrow> jsstr list" where
  "page_configs url = (if url = ''/usage-logs/task'' then [J ''/usage-logs/drawing'', J ''/usage-logs/task''] else [J url])"

lemma page_modules:
  "list_all (\<lambda>(g, pages). list_all (\<lambda>(url, mods).
     map config_of (page_configs url) = (if mods = [] then [None] else map (\<lambda>(sec, md). Some (J sec, J md)) mods) \<and>
     list_all (\<lambda>(sec, md). is_switch (J sec) (J md)) mods) pages) side_bar_pages"
  by code_simp

lemma J_inject [simp]: "J s = J t \<longleftrightarrow> s = t"
proof (induction s arbitrary: t)
  case Nil
  then show ?case by (cases t) simp_all
next
  case (Cons c s)
  have "(of_char c :: int) = of_char d \<longleftrightarrow> c = d" for d by simp
  with Cons show ?case by (cases t) simp_all
qed

lemma J_empty [simp]: "J s = [] \<longleftrightarrow> s = []" "[] = J s \<longleftrightarrow> s = []"
  using J_inject [of s "[]"] J_inject [of "[]" s] by auto

lemma module_enabled:
  assumes "url \<noteq> J ''/agents'' \<or> agents"
  shows "isModuleEnabled url admin user agents \<longleftrightarrow>
    (case config_of url of None \<Rightarrow> True | Some (sec, md) \<Rightarrow> admin_allows admin sec md \<and> user_allows user sec md)"
  using assms by (auto simp: isModuleEnabled_def simp del: J_Cons)

lemma page_enabled:
  assumes "map config_of us = (if mods = [] then [None] else map (\<lambda>(sec, md). Some (J sec, J md)) mods)"
    and "list_all (\<lambda>(sec, md). is_switch (J sec) (J md)) mods" "J ''/agents'' \<notin> set us \<or> agents"
  shows "list_ex (\<lambda>u. isModuleEnabled u (parseSidebarConfig adm) (user_config user) agents) us \<longleftrightarrow>
    switched_on adm user mods"
proof -
  let ?on = "\<lambda>c. case c of None \<Rightarrow> True | Some (sec, md) \<Rightarrow>
    admin_allows (parseSidebarConfig adm) sec md \<and> user_allows (user_config user) sec md"
  have "isModuleEnabled u (parseSidebarConfig adm) (user_config user) agents \<longleftrightarrow> ?on (config_of u)" if "u \<in> set us" for u
    by (rule module_enabled) (use that assms(3) in blast)
  then have "list_ex (\<lambda>u. isModuleEnabled u (parseSidebarConfig adm) (user_config user) agents) us \<longleftrightarrow>
      list_ex ?on (map config_of us)"
    by (simp add: list_ex_iff)
  also have "\<dots> \<longleftrightarrow> switched_on adm user mods"
  proof (cases "mods = []")
    case False
    have "?on (Some (J sec, J md)) \<longleftrightarrow> admin_enables adm (J sec) (J md) \<and> \<not> user_hides user (J sec) (J md)"
      if "(sec, md) \<in> set mods" for sec md
    proof -
      have "is_switch (J sec) (J md)" using that assms(2) by (auto simp: list_all_iff)
      then show ?thesis by (simp add: admin_allows_switch user_allows_hides)
    qed
    then have "list_ex (\<lambda>(sec, md). ?on (Some (J sec, J md))) mods \<longleftrightarrow>
        list_ex (\<lambda>(sec, md). admin_enables adm (J sec) (J md) \<and> \<not> user_hides user (J sec) (J md)) mods"
      unfolding list_ex_iff by blast
    moreover have "list_ex ?on (map (\<lambda>(sec, md). Some (J sec, J md)) mods) \<longleftrightarrow>
        list_ex (\<lambda>(sec, md). ?on (Some (J sec, J md))) mods"
      by (simp add: list_ex_iff split_beta)
    ultimately show ?thesis using False by (simp add: assms(1) switched_on_def)
  qed (simp add: assms(1) switched_on_def)
  finally show ?thesis .
qed

lemma optional_item: "(\<exists>x \<in> set (if b then [a] else []). P x) \<longleftrightarrow> b \<and> P a"
  by simp

text \<open>The links of a user, row by row.\<close>

lemma full_rows:
  "(\<exists>g \<in> set (full_groups tr agents invite). sg_id g = gid \<and> (\<exists>item \<in> set (sg_items g). item_allows item u P)) \<longleftrightarrow>
   list_ex (\<lambda>(g, pages). Some (J g) = gid \<and> list_ex (\<lambda>(url, mods).
     (if url = ''/invite-rewards'' then invite else if url = ''/agents'' then agents else True) \<and>
     u = J url \<and> list_ex P (page_configs url)) pages) side_bar_pages"
  by (simp add: full_groups_def nav_group_def plain_link_def active_link_def config_urls_def side_bar_pages_def
      page_configs_def bex_Un optional_item del: J_Cons)

lemma subaccount_rows:
  "(\<exists>g \<in> set (subaccount_groups tr). sg_id g = gid \<and> (\<exists>item \<in> set (sg_items g). item_allows item u P)) \<longleftrightarrow>
   list_ex (\<lambda>(g, pages). Some (J g) = gid \<and> list_ex (\<lambda>(url, mods).
     url \<in> set [''/dashboard/overview'', ''/keys'', ''/usage-logs/common'', ''/profile''] \<and>
     u = J url \<and> list_ex P (page_configs url)) pages) side_bar_pages"
  by (simp add: subaccount_groups_def nav_group_def plain_link_def config_urls_def side_bar_pages_def
      page_configs_def del: J_Cons)

text \<open>What the table says of the pages: only the console is configured under its own address, and the
  reserved pages and the administrators' role concern the last group alone.\<close>

lemma page_facts:
  "list_all (\<lambda>(g, pages). list_all (\<lambda>(url, mods).
     (J ''/agents'' \<in> set (page_configs url) \<longrightarrow> url = ''/agents'') \<and>
     (url = ''/agents'' \<longrightarrow> page_configs url = [J ''/agents'']) \<and>
     (g \<noteq> ''admin'' \<longrightarrow> url \<notin> set [''/channels'', ''/suppliers'', ''/model-profit'', ''/system-settings'', ''/system-settings/site'']) \<and>
     (g = ''admin'' \<longrightarrow> url \<notin> set [''/invite-rewards'', ''/agents'', ''/system-settings'']) \<and>
     (url \<in> set [''/dashboard/overview'', ''/keys'', ''/usage-logs/common'', ''/profile''] \<longrightarrow> g \<noteq> ''admin'' \<and>
        url \<notin> set [''/invite-rewards'', ''/agents'']))
     pages) side_bar_pages"
  by code_simp

lemma page_facts_of:
  assumes "(g, pages) \<in> set side_bar_pages" "(url, mods) \<in> set pages"
  shows "J ''/agents'' \<in> set (page_configs url) \<Longrightarrow> url = ''/agents''"
    and "url = ''/agents'' \<Longrightarrow> page_configs url = [J ''/agents'']"
    and "g \<noteq> ''admin'' \<Longrightarrow> url \<notin> set [''/channels'', ''/suppliers'', ''/model-profit'', ''/system-settings'', ''/system-settings/site'']"
    and "g = ''admin'' \<Longrightarrow> url \<notin> set [''/invite-rewards'', ''/agents'', ''/system-settings'']"
    and "url \<in> set [''/dashboard/overview'', ''/keys'', ''/usage-logs/common'', ''/profile''] \<Longrightarrow> g \<noteq> ''admin'' \<and>
        url \<notin> set [''/invite-rewards'', ''/agents'']"
    and "map config_of (page_configs url) = (if mods = [] then [None] else map (\<lambda>(sec, md). Some (J sec, J md)) mods)"
    and "list_all (\<lambda>(sec, md). is_switch (J sec) (J md)) mods"
  using page_facts page_modules assms unfolding list_all_iff by fast+

lemma restricted_page:
  "restricted_url (J url) (user_role user) \<longleftrightarrow> ordinary_admin user \<and>
     url \<in> set [''/channels'', ''/suppliers'', ''/model-profit'', ''/system-settings'', ''/system-settings/site'']"
proof -
  have "num_eq r (Fin 10) \<longleftrightarrow> r = Fin 10" for r by (cases r) (auto simp: num_eq_def)
  then show ?thesis
    by (auto simp: restricted_url_def ROLE_ADMIN_def REGULAR_ADMIN_HIDDEN_URLS_def user_role_def ordinary_admin_def
        simp del: J_Cons split: option.splits)
qed

lemma admin_role: "is_admin (user_role user) = role_at_least user 10"
  by (simp add: is_admin_def ROLE_ADMIN_def user_role_def role_at_least_def split: option.splits)

lemma agent_role: "agents_allowed user = is_agent user" "is_agent user \<Longrightarrow> may_use_agents user"
  by (auto simp: agents_allowed_def canUseAgentConsole_def user_role_def is_agent_def may_use_agents_def
      split: option.splits)

lemma page_row:
  assumes "(g, pages) \<in> set side_bar_pages" "(url, mods) \<in> set pages"
    and P_def: "P = (\<lambda>u. isModuleEnabled u (parseSidebarConfig adm) (user_config user) (agents_allowed user))"
  shows "(g = ''admin'' \<longrightarrow> role_at_least user 10) \<and> \<not> restricted_url (J url) (user_role user) \<and>
      (if is_subaccount user then url \<in> set [''/dashboard/overview'', ''/keys'', ''/usage-logs/common'', ''/profile'']
       else if url = ''/invite-rewards'' then invite \<noteq> Some False
       else if url = ''/agents'' then may_use_agents user else True) \<and> list_ex P (page_configs url) \<longleftrightarrow>
    may_see user invite g url \<and> switched_on adm user mods"
proof (cases "url = ''/agents'' \<and> \<not> is_agent user")
  case True
  then have "\<not> list_ex P (page_configs url)"
    using page_facts_of(2) [OF assms(1,2)] by (simp add: P_def isModuleEnabled_def agent_role del: J_Cons)
  moreover have "\<not> may_see user invite g url" using True by (simp add: may_see_def)
  ultimately show ?thesis by blast
next
  case False
  then have "J ''/agents'' \<notin> set (page_configs url) \<or> agents_allowed user"
    using page_facts_of(1) [OF assms(1,2)] agent_role(1) by blast
  from page_enabled [OF page_facts_of(6,7) [OF assms(1,2)] this]
  have "list_ex P (page_configs url) \<longleftrightarrow> switched_on adm user mods" unfolding P_def .
  moreover have "(g = ''admin'' \<longrightarrow> role_at_least user 10) \<and> \<not> restricted_url (J url) (user_role user) \<and>
      (if is_subaccount user then url \<in> set [''/dashboard/overview'', ''/keys'', ''/usage-logs/common'', ''/profile'']
       else if url = ''/invite-rewards'' then invite \<noteq> Some False
       else if url = ''/agents'' then may_use_agents user else True) \<longleftrightarrow> may_see user invite g url"
  proof -
    let ?reserved = "url \<in> set [''/channels'', ''/suppliers'', ''/model-profit'', ''/system-settings'', ''/system-settings/site'']"
    let ?four = "url \<in> set [''/dashboard/overview'', ''/keys'', ''/usage-logs/common'', ''/profile'']"
    note f = page_facts_of(3,4,5) [OF assms(1,2)]
    have a: "g = ''admin'' \<Longrightarrow> url \<noteq> ''/invite-rewards'' \<and> url \<noteq> ''/agents''" using f(2) by simp
    have b: "g = ''admin'' \<Longrightarrow> ?reserved \<longleftrightarrow> url \<in> set [''/channels'', ''/suppliers'', ''/model-profit'', ''/system-settings/site'']"
      using f(2) by simp
    have c: "?four \<Longrightarrow> g \<noteq> ''admin'' \<and> url \<noteq> ''/invite-rewards'' \<and> url \<noteq> ''/agents''" using f(3) by simp
    have d: "url = ''/agents'' \<Longrightarrow> is_agent user \<and> may_use_agents user" using False agent_role(2) by blast
    show ?thesis
    proof (cases "is_subaccount user")
      case True
      with c f(1) show ?thesis unfolding restricted_page may_see_def if_P [OF True] by blast
    next
      case sub: False
      show ?thesis
      proof (cases "g = ''admin''")
        case True
        with a have n: "url \<noteq> ''/invite-rewards''" "url \<noteq> ''/agents''" by simp_all
        show ?thesis
          unfolding restricted_page may_see_def if_not_P [OF sub] if_not_P [OF n(1)] if_not_P [OF n(2)] if_P [OF True] b [OF True]
          using True by blast
      next
        case g: False
        with f(1) have "\<not> ?reserved" .
        then show ?thesis using d g
          unfolding restricted_page may_see_def if_not_P [OF sub] if_not_P [OF g]
          by (cases "url = ''/invite-rewards''"; cases "url = ''/agents''"; simp only: if_True if_False) blast+
      qed
    qed
  qed
  ultimately show ?thesis by blast
qed

lemma push_conditions:
  "(gid = Some (J a) \<longrightarrow> A) \<and> \<not> B u \<and> (\<exists>x \<in> S. case x of (g, ps) \<Rightarrow> Some (J g) = gid \<and>
      (\<exists>y \<in> set ps. case y of (url, m) \<Rightarrow> T url \<and> u = J url \<and> L url)) \<longleftrightarrow>
    (\<exists>x \<in> S. case x of (g, ps) \<Rightarrow> Some (J g) = gid \<and> (\<exists>y \<in> set ps. case y of (url, m) \<Rightarrow> u = J url \<and>
      (g = a \<longrightarrow> A) \<and> \<not> B (J url) \<and> T url \<and> L url))"
  by fastforce

text \<open>C25. The side bar shows exactly the pages of the table that the user may see and that are switched on:
  the administrator's text does not switch off their section or module, and the user's does not either.
  A page without a switch, the system tasks and the channel operations, is shown to every administrator
  whatever is configured.\<close>

theorem sidebar_visibility:
  "(gid, u) \<in> shown_urls (useSidebarConfig (buildSidebarData tr user invite) adm user) \<longleftrightarrow>
     list_ex (\<lambda>(g, pages). Some (J g) = gid \<and> list_ex (\<lambda>(url, mods).
       u = J url \<and> may_see user invite g url \<and> switched_on adm user mods) pages) side_bar_pages"
proof -
  let ?P = "\<lambda>url. isModuleEnabled url (parseSidebarConfig adm) (user_config user) (agents_allowed user)"
  let ?there = "\<lambda>url. if is_subaccount user then url \<in> set [''/dashboard/overview'', ''/keys'', ''/usage-logs/common'', ''/profile'']
       else if url = ''/invite-rewards'' then invite \<noteq> Some False
       else if url = ''/agents'' then may_use_agents user else True"
  have rows: "(\<exists>g \<in> set (buildSidebarData tr user invite). sg_id g = gid \<and>
      (\<exists>item \<in> set (sg_items g). item_allows item u ?P)) \<longleftrightarrow>
    list_ex (\<lambda>(g, pages). Some (J g) = gid \<and> list_ex (\<lambda>(url, mods).
      ?there url \<and> u = J url \<and> list_ex ?P (page_configs url)) pages) side_bar_pages"
    using full_rows [of tr "may_use_agents user" "invite \<noteq> Some False" gid u ?P] subaccount_rows [of tr gid u ?P]
    by (cases "is_subaccount user") (simp_all only: buildSidebarData_def is_subaccount_def if_True if_False)
  have "(gid, u) \<in> shown_urls (useSidebarConfig (buildSidebarData tr user invite) adm user) \<longleftrightarrow>
    (\<exists>(g, pages) \<in> set side_bar_pages. Some (J g) = gid \<and> (\<exists>(url, mods) \<in> set pages. u = J url \<and>
      (g = ''admin'' \<longrightarrow> role_at_least user 10) \<and> \<not> restricted_url (J url) (user_role user) \<and>
      ?there url \<and> list_ex ?P (page_configs url)))"
    unfolding shown_iff rows admin_role list_ex_iff [of _ side_bar_pages] list_ex_iff [of "\<lambda>(url, mods). ?there url \<and> u = J url \<and> list_ex ?P (page_configs url)"]
    by (rule push_conditions)
  also have "\<dots> \<longleftrightarrow> (\<exists>(g, pages) \<in> set side_bar_pages. Some (J g) = gid \<and> (\<exists>(url, mods) \<in> set pages. u = J url \<and>
      may_see user invite g url \<and> switched_on adm user mods))"
  proof (intro bex_cong refl)
    fix x
    assume x: "x \<in> set side_bar_pages"
    obtain g pages where p: "x = (g, pages)" by (cases x)
    show "(case x of (g, pages) \<Rightarrow> Some (J g) = gid \<and> (\<exists>(url, mods) \<in> set pages. u = J url \<and>
        (g = ''admin'' \<longrightarrow> role_at_least user 10) \<and> \<not> restricted_url (J url) (user_role user) \<and>
        ?there url \<and> list_ex ?P (page_configs url))) =
      (case x of (g, pages) \<Rightarrow> Some (J g) = gid \<and> (\<exists>(url, mods) \<in> set pages. u = J url \<and>
        may_see user invite g url \<and> switched_on adm user mods))"
      unfolding p prod.case
    proof (rule conj_cong [OF refl], intro bex_cong refl)
      fix y
      assume y: "y \<in> set pages"
      obtain url mods where q: "y = (url, mods)" by (cases y)
      show "(case y of (url, mods) \<Rightarrow> u = J url \<and> (g = ''admin'' \<longrightarrow> role_at_least user 10) \<and>
          \<not> restricted_url (J url) (user_role user) \<and> ?there url \<and> list_ex ?P (page_configs url)) =
        (case y of (url, mods) \<Rightarrow> u = J url \<and> may_see user invite g url \<and> switched_on adm user mods)"
        unfolding q prod.case using page_row [where user = user and adm = adm and invite = invite, OF x [unfolded p] y [unfolded q] refl]
        by (rule conj_cong [OF refl])
    qed
  qed
  finally show ?thesis
    unfolding list_ex_iff [of _ side_bar_pages] list_ex_iff [of "\<lambda>(url, mods). u = J url \<and> may_see user invite _ url \<and> switched_on adm user mods"] .
qed

theorem sidebar_visibility_witness:
  "(Some (J ''general''), J ''/keys'') \<notin> shown_urls (useSidebarConfig (buildSidebarData id (Some (sample_user 1)) None)
     (Some (J ''{\"console\": {\"token\": false}}'')) (Some (sample_user 1)))"
  unfolding sidebar_visibility by code_simp

end
