(* ===== verification/JsSort.thy ===== *)
theory JsSort
  imports JsNum "HOL-Library.Multiset"
begin

text \<open>
  \<open>Array.prototype.sort\<close> with a comparison function. The standard asks for a stable sort and
  leaves the result open only for an inconsistent comparison; the model is the stable insertion
  sort. The locale \<open>comparison\<close> states what a consistent comparison is. The difference of two
  doubles has the sign of their order, which makes \<open>(a, b) => a - b\<close> consistent.
\<close>

section \<open>Stable sorting\<close>

definition not_after :: "('a \<Rightarrow> 'a \<Rightarrow> jsnum) \<Rightarrow> 'a \<Rightarrow> 'a \<Rightarrow> bool" where
  "not_after cmp x y \<longleftrightarrow> \<not> num_lt (Fin 0) (cmp x y)"

fun place :: "('a \<Rightarrow> 'a \<Rightarrow> jsnum) \<Rightarrow> 'a \<Rightarrow> 'a list \<Rightarrow> 'a list" where
  "place cmp x [] = [x]"
| "place cmp x (y # ys) = (if not_after cmp x y then x # y # ys else y # place cmp x ys)"

fun array_sort :: "('a \<Rightarrow> 'a \<Rightarrow> jsnum) \<Rightarrow> 'a list \<Rightarrow> 'a list" where
  "array_sort cmp [] = []"
| "array_sort cmp (x # xs) = place cmp x (array_sort cmp xs)"

lemma mset_place [simp]: "mset (place cmp x ys) = add_mset x (mset ys)"
  by (induction ys) auto

lemma mset_array_sort [simp]: "mset (array_sort cmp xs) = mset xs"
  by (induction xs) auto

lemma set_array_sort [simp]: "set (array_sort cmp xs) = set xs"
  by (rule mset_eq_setD) simp

lemma length_array_sort [simp]: "length (array_sort cmp xs) = length xs"
  by (rule mset_eq_length) simp

text \<open>Elements that the comparison does not tell apart keep their order.\<close>

lemma filter_place:
  "(\<And>y. P x \<Longrightarrow> P y \<Longrightarrow> not_after cmp x y) \<Longrightarrow>
    filter P (place cmp x ys) = filter P (x # ys)"
  by (induction ys) auto

lemma array_sort_stable:
  "(\<And>x y. P x \<Longrightarrow> P y \<Longrightarrow> not_after cmp x y) \<Longrightarrow>
    filter P (array_sort cmp xs) = filter P xs"
  by (induction xs) (auto simp: filter_place)

locale comparison =
  fixes cmp :: "'a \<Rightarrow> 'a \<Rightarrow> jsnum"
    and ok :: "'a \<Rightarrow> bool"
  assumes total: "\<lbrakk>ok x; ok y\<rbrakk> \<Longrightarrow> not_after cmp x y \<or> not_after cmp y x"
    and trans: "\<lbrakk>ok x; ok y; ok z; not_after cmp x y; not_after cmp y z\<rbrakk> \<Longrightarrow> not_after cmp x z"
begin

lemma sorted_place:
  "\<lbrakk>ok x; list_all ok ys; sorted_wrt (not_after cmp) ys\<rbrakk> \<Longrightarrow>
    sorted_wrt (not_after cmp) (place cmp x ys)"
proof (induction ys)
  case (Cons y ys)
  have in_place: "z \<in> set (place cmp x ys) \<longleftrightarrow> z = x \<or> z \<in> set ys" for z
    using mset_eq_setD [of "place cmp x ys" "x # ys"] by simp
  show ?case
  proof (cases "not_after cmp x y")
    case True
    with Cons.prems show ?thesis by (auto simp: list_all_iff intro: trans)
  next
    case False
    with total Cons.prems have "not_after cmp y x" by auto
    with Cons False show ?thesis by (auto simp: in_place)
  qed
qed simp

lemma sorted_array_sort:
  "list_all ok xs \<Longrightarrow> sorted_wrt (not_after cmp) (array_sort cmp xs)"
  by (induction xs) (auto intro!: sorted_place simp: list_all_iff)

lemma sort_of_sorted:
  "sorted_wrt (not_after cmp) xs \<Longrightarrow> array_sort cmp xs = xs"
proof (induction xs)
  case (Cons x xs)
  then show ?case by (cases xs) auto
qed simp

lemma sort_idem: "list_all ok xs \<Longrightarrow> array_sort cmp (array_sort cmp xs) = array_sort cmp xs"
  by (rule sort_of_sorted) (rule sorted_array_sort)

end

section \<open>The sign of a difference\<close>

definition quantum :: rat where
  "quantum = pow2 (- 1074)"

lemma quantum_pos [simp]: "0 < quantum"
  by (simp add: quantum_def)

lemma rnd_pos_quanta: "\<exists>n. rnd_pos a = of_int n * quantum"
proof -
  have "- 1074 \<le> ulp_exp a" by (simp add: ulp_exp_def)
  then obtain m where "pow2 (ulp_exp a) = of_int m * quantum"
    unfolding quantum_def using pow2_multiple by metis
  moreover obtain n where "rnd_pos a = of_int n * pow2 (ulp_exp a)"
    using rnd_pos_multiple by blast
  ultimately have "rnd_pos a = of_int (n * m) * quantum" by simp
  then show ?thesis by blast
qed

lemma is_num_quanta: "is_num a \<Longrightarrow> \<exists>n. val a = of_int n * quantum"
proof (cases a)
  case (Fin q)
  assume "is_num a"
  with Fin have q: "rnd q = Fin q" by simp
  obtain n where n: "rnd_pos \<bar>q\<bar> = of_int n * quantum" using rnd_pos_quanta by blast
  from q have "q = 0 \<or> q = rnd_pos \<bar>q\<bar> \<or> q = - rnd_pos \<bar>q\<bar>"
    by (auto simp: rnd_def rnd_sg_def Let_def zero_of_def inf_of_def split: if_splits)
  with n have "q = of_int 0 * quantum \<or> q = of_int n * quantum \<or> q = of_int (- n) * quantum"
    by auto
  then have "\<exists>k. q = of_int k * quantum" by blast
  with Fin show ?thesis by simp
qed (auto intro: exI [of _ 0])

lemma rnd_pos_positive:
  assumes "0 < a" and a: "a = of_int n * quantum"
  shows "0 < rnd_pos a"
proof (cases "ilog a - 52 \<le> - 1074")
  case True
  then have "ulp_exp a = - 1074" by (simp add: ulp_exp_def)
  then have "rnd_pos a = a" using rnd_pos_exact [of a n] a by (simp add: quantum_def)
  with assms show ?thesis by simp
next
  case False
  then have "ulp_exp a = ilog a - 52" by (simp add: ulp_exp_def)
  then have "of_int (2 ^ 52) * pow2 (ulp_exp a) = pow2 (ilog a)"
    using pow2_add [of 52 "ilog a - 52"] by (simp add: pow2_def)
  then have "pow2 (ilog a) \<le> rnd_pos a"
    using le_rnd_pos [of "2 ^ 52" a] ilog_bounds(1) [OF assms(1)] by simp
  then show ?thesis using pow2_pos [of "ilog a"] by linarith
qed

lemma rnd_sign:
  assumes "q = of_int n * quantum"
  shows "num_lt (Fin 0) (rnd q) \<longleftrightarrow> 0 < q"
proof (cases "q = 0")
  case False
  have "\<exists>m. \<bar>q\<bar> = of_int m * quantum"
    by (rule exI [of _ "\<bar>n\<bar>"]) (use assms in \<open>simp add: abs_mult less_imp_le\<close>)
  then obtain m where "\<bar>q\<bar> = of_int m * quantum" by blast
  with False have "0 < rnd_pos \<bar>q\<bar>" by (intro rnd_pos_positive [of "\<bar>q\<bar>" m]) auto
  with False show ?thesis
    by (auto simp: rnd_def rnd_sg_def Let_def inf_of_def)
qed simp

lemma rnd_sign_neg:
  assumes "q = of_int n * quantum"
  shows "num_lt (rnd q) (Fin 0) \<longleftrightarrow> q < 0"
proof (cases "q < 0")
  case True
  have "- q = of_int (- n) * quantum" using assms by simp
  with True have "0 < rnd_pos (- q)" by (intro rnd_pos_positive [of "- q" "- n"]) auto
  with True show ?thesis by (auto simp: rnd_def rnd_sg_def Let_def inf_of_def)
next
  case False
  then have "nonneg (rnd q)" by simp
  then have "\<not> num_lt (rnd q) (Fin 0)" by (elim nonnegE) auto
  with False show ?thesis by simp
qed

lemma val_neg: "val (num_neg a) = - val a"
  by (cases a) auto

lemma sub_finite:
  assumes "is_finite a" "is_finite b" "is_num a" "is_num b"
  obtains "a = NZero" "val b = 0" "num_sub a b = NZero"
    | n where "val a - val b = of_int n * quantum" "num_sub a b = rnd (val a - val b)"
proof -
  obtain m n where "val a = of_int m * quantum" "val b = of_int n * quantum"
    using assms is_num_quanta by meson
  then have "val a - val b = of_int (m - n) * quantum" by (simp add: left_diff_distrib)
  moreover have "num_sub a b = rnd (val a - val b) \<or> a = NZero \<and> val b = 0 \<and> num_sub a b = NZero"
    using assms by (cases a; cases b) (auto simp: num_sub_def num_add_def)
  ultimately show thesis using that by metis
qed

lemma sub_sign:
  assumes "is_num a" "is_num b"
  shows "num_lt (Fin 0) (num_sub a b) \<longleftrightarrow> num_lt b a"
    and "num_lt (num_sub a b) (Fin 0) \<longleftrightarrow> num_lt a b"
proof -
  have lt: "num_lt x y \<longleftrightarrow> val x < val y" if "is_finite x" "is_finite y" for x y
    using that by (cases x; cases y) auto
  have "(num_lt (Fin 0) (num_sub a b) \<longleftrightarrow> num_lt b a) \<and> (num_lt (num_sub a b) (Fin 0) \<longleftrightarrow> num_lt a b)"
  proof (cases "is_finite a \<and> is_finite b")
    case True
    then have f: "is_finite a" "is_finite b" by auto
    show ?thesis
    proof (cases rule: sub_finite [OF f assms])
      case (2 n)
      from rnd_sign [OF 2(1)] rnd_sign_neg [OF 2(1)] show ?thesis
        using f by (simp only: 2(2) lt diff_gt_0_iff_gt diff_less_0_iff_less)
    next
      case 1
      with f show ?thesis by (cases b) auto
    qed
  next
    case False
    then show ?thesis by (cases a; cases b) (auto simp: num_sub_def num_add_def)
  qed
  then show "num_lt (Fin 0) (num_sub a b) \<longleftrightarrow> num_lt b a"
    "num_lt (num_sub a b) (Fin 0) \<longleftrightarrow> num_lt a b" by auto
qed

lemma num_truthy_iff: "num_truthy a \<longleftrightarrow> num_lt (Fin 0) a \<or> num_lt a (Fin 0)"
  by (cases a) (auto simp: num_truthy_def)

lemma neg_sign: "num_lt (Fin 0) (num_neg a) \<longleftrightarrow> num_lt a (Fin 0)"
  by (cases a) auto

text \<open>Numbers that are not \<open>NaN\<close> are totally ordered.\<close>

lemma num_lt_trans: "num_lt a b \<Longrightarrow> num_lt b c \<Longrightarrow> num_lt a c"
  by (cases a; cases b; cases c) auto

lemma num_lt_irrefl [simp]: "\<not> num_lt a a"
  by (cases a) auto

lemma num_lt_asym: "num_lt a b \<Longrightarrow> \<not> num_lt b a"
  by (cases a; cases b) auto

lemma num_lt_cotrans: "num_lt a c \<Longrightarrow> b \<noteq> NaN \<Longrightarrow> num_lt a b \<or> num_lt b c"
  by (cases a; cases b; cases c) auto

end
