(* ===== verification/KeyGroups.thy ===== *)
theory KeyGroups
  imports JsObject JsSort "HOL-Library.AList"
begin

text \<open>
  The group list of an API key (\<open>features/keys/lib/api-key-groups.ts\<close> and
  \<open>api-key-group-filters.ts\<close>): the options and their lowest price ratio, the category and
  vendor chips with their counts, the filter and the sort orders. A JavaScript \<open>Map\<close> is an
  association list in the order of insertion. \<open>toLowerCase\<close> and \<open>localeCompare\<close>, which depend
  on Unicode tables and the locale, are the parameters \<open>lower\<close> and \<open>locale_compare\<close>.
\<close>

section \<open>Options\<close>

datatype ratio_value = RNum jsnum | RStr jsstr

record group_option =
  opt_value :: jsstr
  opt_label :: jsstr
  opt_desc :: "jsstr option"
  opt_ratio :: "ratio_value option"
  opt_hide_discount :: "bool option"

record user_group_info =
  info_desc :: jsstr
  info_ratio :: ratio_value
  info_hide_discount :: "bool option"

text \<open>
  The fields of a priced model that the group list reads; \<open>None\<close> stands for a missing field, and
  in \<open>enable_groups\<close> for a value that is no array.
\<close>

record group_model =
  model_name :: jsstr
  alias_models :: "jsstr list option"
  model_vendor_id :: "jsnum option"
  enable_groups :: "jsstr list option"
  group_ratio :: "(jsstr \<times> ratio_value) list option"

definition AUTO_GROUP_VALUE :: jsstr where
  "AUTO_GROUP_VALUE = J ''auto''"

definition group_all :: jsstr where
  "group_all = J ''all''"

definition numericRatio :: "ratio_value option \<Rightarrow> jsnum option" where
  "numericRatio v =
     (let ratio = (case v of None \<Rightarrow> NaN | Some (RNum n) \<Rightarrow> n | Some (RStr s) \<Rightarrow> to_number s)
      in if is_finite ratio \<and> num_le (Fin 0) ratio then Some ratio else None)"

definition modelMatchesLimits :: "group_model \<Rightarrow> jsstr list \<Rightarrow> bool" where
  "modelMatchesLimits m limits \<longleftrightarrow>
     limits = [] \<or> model_name m \<in> set limits \<or>
     list_ex (\<lambda>a. a \<in> set limits) (case alias_models m of None \<Rightarrow> [] | Some as \<Rightarrow> as)"

definition enabled_groups :: "group_model \<Rightarrow> jsstr list" where
  "enabled_groups m = (case enable_groups m of None \<Rightarrow> [] | Some gs \<Rightarrow> gs)"

text \<open>The loop over the models, as the list of the ratios it pushes.\<close>

definition model_ratio_of ::
    "jsstr \<Rightarrow> jsnum option \<Rightarrow> jsstr list \<Rightarrow> group_model \<Rightarrow> jsnum option" where
  "model_ratio_of g fallback limits m =
     (if \<not> modelMatchesLimits m limits then None
      else if group_all \<notin> set (enabled_groups m) \<and> g \<notin> set (enabled_groups m) then None
      else case numericRatio (Option.bind (group_ratio m) (\<lambda>r. map_of r g)) of
          None \<Rightarrow> fallback
        | Some r \<Rightarrow> Some r)"

definition getLowestApiKeyGroupRatio ::
    "jsstr \<Rightarrow> ratio_value option \<Rightarrow> group_model list \<Rightarrow> jsstr list \<Rightarrow> jsnum option" where
  "getLowestApiKeyGroupRatio g fallbackRatio models modelLimits =
     (let fallback = numericRatio fallbackRatio
      in if models = [] then fallback
      else let limits = uniq (nonempty (map trim modelLimits));
             ratios = List.map_filter (model_ratio_of g fallback limits) models
        in if ratios = [] then fallback else Some (foldl num_min PInf ratios))"

definition group_option_of ::
    "group_model list \<Rightarrow> jsstr list \<Rightarrow> jsstr \<times> user_group_info \<Rightarrow> group_option" where
  "group_option_of models limits = (\<lambda>(key, info).
     \<lparr>opt_value = key, opt_label = key,
      opt_desc = Some (if info_desc info = [] then key else info_desc info),
      opt_ratio = Some (case getLowestApiKeyGroupRatio key (Some (info_ratio info)) models limits of
          None \<Rightarrow> info_ratio info
        | Some r \<Rightarrow> RNum r),
      opt_hide_discount = Some (info_hide_discount info = Some True)\<rparr>)"

definition buildApiKeyGroupOptions ::
    "(jsstr \<times> user_group_info) list \<Rightarrow> group_model list \<Rightarrow> jsstr list \<Rightarrow> group_option list" where
  "buildApiKeyGroupOptions groupsRaw models limits =
     map (group_option_of models limits)
       (filter (\<lambda>(key, info). key \<noteq> AUTO_GROUP_VALUE) (own_entries groupsRaw))"

definition shouldFallbackApiKeyGroup :: "jsstr option \<Rightarrow> group_option list \<Rightarrow> bool" where
  "shouldFallbackApiKeyGroup g options =
     (case g of
        None \<Rightarrow> False
      | Some v \<Rightarrow> v \<noteq> [] \<and> \<not> list_ex (\<lambda>opt. opt_value opt = v) options)"

section \<open>Filter metadata\<close>

record group_category =
  cat_id :: jsstr
  cat_name :: jsstr
  cat_order :: jsnum

record group_display =
  display_categories :: "group_category list"
  display_groups :: "(jsstr \<times> jsstr) list"

record vendor_info =
  vendor_id :: jsnum
  vendor_name :: jsstr
  vendor_sort_order :: "jsnum option"

record chip =
  chip_value :: jsstr
  chip_label :: jsstr
  chip_count :: nat

record group_metadata =
  categories :: "chip list"
  vendors :: "chip list"
  groupCategory :: "(jsstr \<times> jsstr) list"
  groupCategoryLabels :: "(jsstr \<times> jsstr) list"
  groupVendors :: "(jsstr \<times> jsstr list) list"

definition ALL_CATEGORY_VALUE :: jsstr where
  "ALL_CATEGORY_VALUE = J ''__all_categories__''"

definition UNCATEGORIZED_CATEGORY_VALUE :: jsstr where
  "UNCATEGORIZED_CATEGORY_VALUE = J ''__uncategorized__''"

definition USER_OWNED_CATEGORY_VALUE :: jsstr where
  "USER_OWNED_CATEGORY_VALUE = J ''user_owned''"

definition ALL_VENDOR_VALUE :: jsstr where
  "ALL_VENDOR_VALUE = J ''__all_vendors__''"

definition optionValues :: "group_option list \<Rightarrow> jsstr list" where
  "optionValues options =
     uniq (filter (\<lambda>v. v \<noteq> [] \<and> v \<noteq> AUTO_GROUP_VALUE) (map opt_value options))"

definition isUserOwnedGroup :: "jsstr \<Rightarrow> bool" where
  "isUserOwnedGroup g = starts_with g (J ''user_owned:'')"

definition compare_categories ::
    "(jsstr \<Rightarrow> jsstr \<Rightarrow> jsnum) \<Rightarrow> group_category \<Rightarrow> group_category \<Rightarrow> jsnum" where
  "compare_categories locale_compare a b =
     (if \<not> num_eq (cat_order a) (cat_order b) then num_sub (cat_order a) (cat_order b)
      else if cat_name a \<noteq> cat_name b then locale_compare (cat_name a) (cat_name b)
      else locale_compare (cat_id a) (cat_id b))"

text \<open>The two loops that give every group a category, on the \<open>Map\<close> they fill.\<close>

definition read_group ::
    "jsstr list \<Rightarrow> jsstr list \<Rightarrow> jsstr \<times> jsstr \<Rightarrow> (jsstr \<times> jsstr) list \<Rightarrow> (jsstr \<times> jsstr) list" where
  "read_group groups ids = (\<lambda>(g, c) m.
     if g \<notin> set groups then m
     else if isUserOwnedGroup g then AList.update g USER_OWNED_CATEGORY_VALUE m
     else AList.update g (if c \<in> set ids then c else UNCATEGORIZED_CATEGORY_VALUE) m)"

definition default_category :: "jsstr \<Rightarrow> (jsstr \<times> jsstr) list \<Rightarrow> (jsstr \<times> jsstr) list" where
  "default_category g m =
     (if map_of m g \<noteq> None then m
      else AList.update g
        (if isUserOwnedGroup g then USER_OWNED_CATEGORY_VALUE else UNCATEGORIZED_CATEGORY_VALUE) m)"

definition group_categories ::
    "jsstr list \<Rightarrow> jsstr list \<Rightarrow> (jsstr \<times> jsstr) list \<Rightarrow> (jsstr \<times> jsstr) list" where
  "group_categories groups ids items =
     fold default_category groups (fold (read_group groups ids) items [])"

text \<open>The loop over the models that collects the vendors of each group.\<close>

definition vendor_text :: "group_model \<Rightarrow> jsstr" where
  "vendor_text m = (case model_vendor_id m of None \<Rightarrow> [] | Some n \<Rightarrow> to_str n)"

definition set_add :: "'a \<Rightarrow> 'a list \<Rightarrow> 'a list" where
  "set_add x xs = (if x \<in> set xs then xs else xs @ [x])"

definition supported_groups :: "jsstr list \<Rightarrow> group_model \<Rightarrow> jsstr list" where
  "supported_groups groups m =
     (if group_all \<in> set (enabled_groups m) then groups
      else filter (\<lambda>g. g \<in> set groups) (enabled_groups m))"

definition read_model ::
    "jsstr list \<Rightarrow> jsstr list \<Rightarrow> group_model \<Rightarrow> (jsstr \<times> jsstr list) list \<Rightarrow>
      (jsstr \<times> jsstr list) list" where
  "read_model groups ids m gv =
     (if vendor_text m = [] \<or> vendor_text m \<notin> set ids then gv
      else fold (\<lambda>g. AList.map_entry g (set_add (vendor_text m))) (supported_groups groups m) gv)"

definition group_vendor_sets ::
    "jsstr list \<Rightarrow> jsstr list \<Rightarrow> group_model list \<Rightarrow> (jsstr \<times> jsstr list) list" where
  "group_vendor_sets groups ids models =
     fold (read_model groups ids) models (map (\<lambda>g. (g, [])) groups)"

text \<open>The chips and the labels.\<close>

definition count_value :: "'v \<Rightarrow> ('k \<times> 'v) list \<Rightarrow> nat" where
  "count_value c m = length (filter (\<lambda>v. v = c) (map snd m))"

definition chip_if :: "jsstr \<Rightarrow> jsstr \<Rightarrow> nat \<Rightarrow> chip list" where
  "chip_if v l n = (if n = 0 then [] else [\<lparr>chip_value = v, chip_label = l, chip_count = n\<rparr>])"

definition category_chips ::
    "jsstr list \<Rightarrow> group_category list \<Rightarrow> (jsstr \<times> jsstr) list \<Rightarrow> chip list" where
  "category_chips groups defs gc =
     [\<lparr>chip_value = ALL_CATEGORY_VALUE, chip_label = J ''All categories'',
       chip_count = length groups\<rparr>]
     @ chip_if USER_OWNED_CATEGORY_VALUE (J ''User-owned suppliers'')
         (count_value USER_OWNED_CATEGORY_VALUE gc)
     @ concat (map (\<lambda>c. chip_if (cat_id c) (cat_name c) (count_value (cat_id c) gc)) defs)
     @ chip_if UNCATEGORIZED_CATEGORY_VALUE (J ''Uncategorized'')
         (count_value UNCATEGORIZED_CATEGORY_VALUE gc)"

definition category_label :: "chip list \<Rightarrow> jsstr \<Rightarrow> jsstr" where
  "category_label chips c =
     (case map_of (rev (map (\<lambda>x. (chip_value x, chip_label x)) chips)) c of
        None \<Rightarrow> J ''Uncategorized''
      | Some l \<Rightarrow> if l = [] then J ''Uncategorized'' else l)"

definition sort_order_of :: "vendor_info \<Rightarrow> jsnum" where
  "sort_order_of v = (case vendor_sort_order v of None \<Rightarrow> Fin 9007199254740991 | Some n \<Rightarrow> n)"

definition compare_vendors :: "vendor_info \<Rightarrow> vendor_info \<Rightarrow> jsnum" where
  "compare_vendors a b =
     (if \<not> num_eq (sort_order_of a) (sort_order_of b) then num_sub (sort_order_of a) (sort_order_of b)
      else num_sub (vendor_id a) (vendor_id b))"

definition vendor_count :: "(jsstr \<times> jsstr list) list \<Rightarrow> jsstr \<Rightarrow> nat" where
  "vendor_count gv v = length (filter (\<lambda>ids. v \<in> set ids) (map snd gv))"

definition vendor_chips ::
    "jsstr list \<Rightarrow> vendor_info list \<Rightarrow> (jsstr \<times> jsstr list) list \<Rightarrow> chip list" where
  "vendor_chips groups vs gv =
     \<lparr>chip_value = ALL_VENDOR_VALUE, chip_label = J ''All'', chip_count = length groups\<rparr>
     # map (\<lambda>v. \<lparr>chip_value = to_str (vendor_id v), chip_label = vendor_name v,
                 chip_count = vendor_count gv (to_str (vendor_id v))\<rparr>)
         (array_sort compare_vendors
           (filter (\<lambda>v. 0 < vendor_count gv (to_str (vendor_id v))) vs))"

definition buildApiKeyGroupFilterMetadata ::
    "(jsstr \<Rightarrow> jsstr \<Rightarrow> jsnum) \<Rightarrow> group_option list \<Rightarrow> group_display option \<Rightarrow> vendor_info list \<Rightarrow>
      group_model list \<Rightarrow> group_metadata" where
  "buildApiKeyGroupFilterMetadata locale_compare options groupDisplay vs models =
     (let groups = optionValues options;
        cats = (case groupDisplay of None \<Rightarrow> [] | Some d \<Rightarrow> display_categories d);
        items = (case groupDisplay of None \<Rightarrow> [] | Some d \<Rightarrow> display_groups d);
        defs = array_sort (compare_categories locale_compare) cats;
        gc = group_categories groups (map cat_id defs) items;
        gv = group_vendor_sets groups (map (\<lambda>v. to_str (vendor_id v)) vs) models;
        chips = category_chips groups defs gc
      in \<lparr>categories = chips, vendors = vendor_chips groups vs gv, groupCategory = gc,
          groupCategoryLabels = map (\<lambda>(g, c). (g, category_label chips c)) gc,
          groupVendors = gv\<rparr>)"

section \<open>Filtering\<close>

definition ratio_text :: "ratio_value option \<Rightarrow> jsstr" where
  "ratio_text r = (case r of None \<Rightarrow> [] | Some (RNum n) \<Rightarrow> to_str n | Some (RStr s) \<Rightarrow> s)"

definition option_matches :: "(jsstr \<Rightarrow> jsstr) \<Rightarrow> jsstr \<Rightarrow> group_option \<Rightarrow> bool" where
  "option_matches lower search opt \<longleftrightarrow>
     js_includes (lower (opt_value opt)) search \<or> js_includes (lower (opt_label opt)) search \<or>
     (case opt_desc opt of None \<Rightarrow> False | Some d \<Rightarrow> js_includes (lower d) search) \<or>
     js_includes (lower (ratio_text (opt_ratio opt))) search"

definition keeps_option ::
    "(jsstr \<Rightarrow> jsstr) \<Rightarrow> group_metadata \<Rightarrow> jsstr \<Rightarrow> jsstr \<Rightarrow> jsstr \<Rightarrow> group_option \<Rightarrow> bool" where
  "keeps_option lower meta category vendor search opt =
     (if opt_value opt = AUTO_GROUP_VALUE then category = ALL_CATEGORY_VALUE
      else if category \<noteq> ALL_CATEGORY_VALUE \<and> map_of (groupCategory meta) (opt_value opt) \<noteq> Some category
        then False
      else if vendor \<noteq> ALL_VENDOR_VALUE \<and>
          \<not> (case map_of (groupVendors meta) (opt_value opt) of
               None \<Rightarrow> False | Some ids \<Rightarrow> vendor \<in> set ids)
        then False
      else search = [] \<or> option_matches lower search opt)"

definition filterApiKeyGroupOptions ::
    "(jsstr \<Rightarrow> jsstr) \<Rightarrow> group_option list \<Rightarrow> group_metadata \<Rightarrow> jsstr \<Rightarrow> jsstr \<Rightarrow> jsstr \<Rightarrow>
      group_option list" where
  "filterApiKeyGroupOptions lower options meta category vendor search =
     filter (keeps_option lower meta category vendor (lower (trim search))) options"

section \<open>Sorting\<close>

datatype group_sort = NameAsc | NameDesc | DiscountDesc | DiscountAsc | LatencyAsc | LatencyDesc

datatype sort_direction = Asc | Desc

definition optionName :: "(jsstr \<Rightarrow> jsstr) \<Rightarrow> group_option \<Rightarrow> jsstr" where
  "optionName lower opt = lower (if opt_label opt = [] then opt_value opt else opt_label opt)"

definition option_ratio :: "group_option \<Rightarrow> jsnum option" where
  "option_ratio opt =
     (case opt_ratio opt of
        Some (RNum n) \<Rightarrow> if is_finite n then Some n else None
      | _ \<Rightarrow> None)"

definition compareName ::
    "(jsstr \<Rightarrow> jsstr) \<Rightarrow> (jsstr \<Rightarrow> jsstr \<Rightarrow> jsnum) \<Rightarrow> group_option \<Rightarrow> group_option \<Rightarrow> jsnum" where
  "compareName lower locale_compare a b =
     (let byName = locale_compare (optionName lower a) (optionName lower b)
      in if \<not> num_eq byName (Fin 0) then byName
         else locale_compare (opt_value a) (opt_value b))"

definition compareOptionalNumber ::
    "jsnum option \<Rightarrow> jsnum option \<Rightarrow> sort_direction \<Rightarrow> jsnum" where
  "compareOptionalNumber a b direction =
     (case (a, b) of
        (None, None) \<Rightarrow> Fin 0
      | (None, Some _) \<Rightarrow> Fin 1
      | (Some _, None) \<Rightarrow> Fin (- 1)
      | (Some x, Some y) \<Rightarrow> if direction = Asc then num_sub x y else num_sub y x)"

text \<open>The performance summaries, as the average latency they give for each group.\<close>

type_synonym latencies = "(jsstr \<times> jsnum) list"

definition option_latency :: "latencies option \<Rightarrow> group_option \<Rightarrow> jsnum option" where
  "option_latency perf opt = Option.bind perf (\<lambda>m. map_of m (opt_value opt))"

definition compareOptions ::
    "(jsstr \<Rightarrow> jsstr) \<Rightarrow> (jsstr \<Rightarrow> jsstr \<Rightarrow> jsnum) \<Rightarrow> group_sort \<Rightarrow> latencies option \<Rightarrow>
      group_option \<Rightarrow> group_option \<Rightarrow> jsnum" where
  "compareOptions lower locale_compare srt perf a b =
     (let byName = compareName lower locale_compare a b
      in if opt_value a = AUTO_GROUP_VALUE \<or> opt_value b = AUTO_GROUP_VALUE then
        (if opt_value a = opt_value b then Fin 0
         else if opt_value a = AUTO_GROUP_VALUE then Fin (- 1) else Fin 1)
      else case srt of
          DiscountDesc \<Rightarrow> num_or (compareOptionalNumber (option_ratio a) (option_ratio b) Asc) byName
        | DiscountAsc \<Rightarrow> num_or (compareOptionalNumber (option_ratio a) (option_ratio b) Desc) byName
        | LatencyAsc \<Rightarrow>
            num_or (compareOptionalNumber (option_latency perf a) (option_latency perf b) Asc) byName
        | LatencyDesc \<Rightarrow>
            num_or (compareOptionalNumber (option_latency perf a) (option_latency perf b) Desc) byName
        | NameDesc \<Rightarrow> num_neg byName
        | NameAsc \<Rightarrow> byName)"

definition sortApiKeyGroupOptions ::
    "(jsstr \<Rightarrow> jsstr) \<Rightarrow> (jsstr \<Rightarrow> jsstr \<Rightarrow> jsnum) \<Rightarrow> group_sort \<Rightarrow> latencies option \<Rightarrow>
      group_option list \<Rightarrow> group_option list" where
  "sortApiKeyGroupOptions lower locale_compare srt perf options =
     array_sort (compareOptions lower locale_compare srt perf) options"

section \<open>The link to the price list\<close>

text \<open>
  \<open>URLSearchParams\<close> writes a string as \<open>application/x-www-form-urlencoded\<close>: the scalar values
  of its code units, a lone surrogate replaced, in UTF-8, each byte outside a small set as a
  percent escape and a space as a plus sign.
\<close>

fun scalars :: "jsstr \<Rightarrow> int list" where
  "scalars [] = []"
| "scalars [u] = [if 55296 \<le> u \<and> u \<le> 57343 then 65533 else u]"
| "scalars (u # v # us) =
     (if 55296 \<le> u \<and> u \<le> 56319 \<and> 56320 \<le> v \<and> v \<le> 57343
      then (65536 + (u - 55296) * 1024 + (v - 56320)) # scalars us
      else (if 55296 \<le> u \<and> u \<le> 57343 then 65533 else u) # scalars (v # us))"

definition utf8 :: "int \<Rightarrow> int list" where
  "utf8 c =
     (if c < 128 then [c]
      else if c < 2048 then [192 + c div 64, 128 + c mod 64]
      else if c < 65536 then [224 + c div 4096, 128 + c div 64 mod 64, 128 + c mod 64]
      else [240 + c div 262144, 128 + c div 4096 mod 64, 128 + c div 64 mod 64, 128 + c mod 64])"

definition hex_digit :: "int \<Rightarrow> int" where
  "hex_digit n = (if n < 10 then 48 + n else 55 + n)"

definition form_byte :: "int \<Rightarrow> jsstr" where
  "form_byte b =
     (if b = 32 then [43]
      else if is_digit b \<or> 65 \<le> b \<and> b \<le> 90 \<or> 97 \<le> b \<and> b \<le> 122 \<or> b \<in> {42, 45, 46, 95} then [b]
      else [37, hex_digit (b div 16), hex_digit (b mod 16)])"

definition form_encode :: "jsstr \<Rightarrow> jsstr" where
  "form_encode s = concat (map form_byte (concat (map utf8 (scalars s))))"

definition buildPricingGroupUrl :: "jsstr \<Rightarrow> jsstr" where
  "buildPricingGroupUrl g = J ''/pricing?group='' @ form_encode g"

lemma buildPricingGroupUrl_examples:
  "buildPricingGroupUrl (J ''provider group'') = J ''/pricing?group=provider+group''"
  "buildPricingGroupUrl (J ''user_owned:1:7'') = J ''/pricing?group=user_owned%3A1%3A7''"
  by (simp_all add: buildPricingGroupUrl_def form_encode_def utf8_def form_byte_def hex_digit_def
      is_digit_def)

section \<open>Counting the entries of a map\<close>

lemma count_entries:
  assumes "distinct (map fst m)"
  shows "length (filter P (map snd m)) = card {k. \<exists>v. map_of m k = Some v \<and> P v}"
proof -
  let ?f = "filter (\<lambda>(k, v). P v) m"
  have "{k. \<exists>v. map_of m k = Some v \<and> P v} = set (map fst ?f)"
    using assms by (force simp: image_iff)
  moreover have "distinct (map fst ?f)" using assms by (rule distinct_map_filter)
  moreover have "length (filter P (map snd m)) = length (map fst ?f)"
    by (induction m) auto
  ultimately show ?thesis by (simp only: distinct_card)
qed

lemma count_options:
  assumes "distinct (map opt_value options)"
    and "\<And>opt. opt \<in> set options \<Longrightarrow> Q opt \<longleftrightarrow> opt_value opt \<in> K" and "K \<subseteq> opt_value ` set options"
  shows "length (filter Q options) = card K"
proof -
  let ?vs = "map opt_value (filter Q options)"
  have "set ?vs = K" using assms(2,3) by auto
  moreover have "distinct ?vs" using assms(1) by (rule distinct_map_filter)
  ultimately show ?thesis using distinct_card [of ?vs] by simp
qed

section \<open>Every group has one category\<close>

lemma set_optionValues:
  "set (optionValues options) = opt_value ` set options - {[], AUTO_GROUP_VALUE}"
  by (auto simp: optionValues_def)

text \<open>The keys of the category map while the loops fill it.\<close>

definition category_map :: "jsstr list \<Rightarrow> jsstr set \<Rightarrow> (jsstr \<times> jsstr) list \<Rightarrow> bool" where
  "category_map ids ks m \<longleftrightarrow>
     distinct (map fst m) \<and> fst ` set m \<subseteq> ks \<and>
     snd ` set m \<subseteq> {USER_OWNED_CATEGORY_VALUE, UNCATEGORIZED_CATEGORY_VALUE} \<union> set ids"

lemma snd_update: "snd ` set (AList.update k v m) \<subseteq> insert v (snd ` set m)"
  by (induction m) auto

lemma category_map_update:
  assumes "category_map ids ks m" "k \<in> ks"
    and "v \<in> {USER_OWNED_CATEGORY_VALUE, UNCATEGORIZED_CATEGORY_VALUE} \<union> set ids"
  shows "category_map ids ks (AList.update k v m)"
  using assms snd_update [of k v m]
  by (auto simp: category_map_def distinct_update dom_update simp del: image_subset_iff)

lemma category_map_read:
  "category_map ids (set groups) m \<Longrightarrow> category_map ids (set groups) (read_group groups ids x m)"
  by (cases x) (simp add: read_group_def category_map_update)

lemma category_map_default:
  "category_map ids ks m \<Longrightarrow> g \<in> ks \<Longrightarrow> category_map ids ks (default_category g m)"
  by (simp add: default_category_def category_map_update)

lemma fold_invariant_on:
  "I m \<Longrightarrow> (\<And>x m. x \<in> set xs \<Longrightarrow> I m \<Longrightarrow> I (f x m)) \<Longrightarrow> I (fold f xs m)"
  by (induction xs arbitrary: m) auto

lemma category_map_group_categories:
  "category_map ids (set groups) (group_categories groups ids items)"
  unfolding group_categories_def
proof (rule fold_invariant_on, rule fold_invariant_on)
  show "category_map ids (set groups) []" by (simp add: category_map_def)
qed (simp_all add: category_map_read category_map_default)

lemma dom_default_category: "dom (map_of (default_category g m)) = insert g (dom (map_of m))"
  by (auto simp: default_category_def update_conv')

lemma dom_fold_default: "dom (map_of (fold default_category gs m)) = dom (map_of m) \<union> set gs"
  by (induction gs arbitrary: m) (auto simp: dom_default_category)

lemma dom_group_categories: "dom (map_of (group_categories groups ids items)) = set groups"
proof
  show "set groups \<subseteq> dom (map_of (group_categories groups ids items))"
    by (simp add: group_categories_def dom_fold_default)
  show "dom (map_of (group_categories groups ids items)) \<subseteq> set groups"
    using category_map_group_categories [of ids groups items]
    by (simp add: dom_map_of_conv_image_fst category_map_def)
qed

section \<open>The vendors of a group\<close>

lemma keys_map_entries:
  "map fst (AList.map_entry g f m) = map fst m"
  by (induction m) auto

lemma keys_read_model: "map fst (read_model groups ids x m) = map fst m"
proof -
  have "map fst (fold (\<lambda>g. AList.map_entry g f) gs m) = map fst m" for f :: "jsstr list \<Rightarrow> jsstr list" and gs
    by (induction gs arbitrary: m) (auto simp: keys_map_entries)
  then show ?thesis by (simp add: read_model_def)
qed

lemma keys_group_vendor_sets: "map fst (group_vendor_sets groups ids models) = groups"
proof -
  have "map fst (fold (read_model groups ids) models m) = map fst m" for m
    by (induction models arbitrary: m) (auto simp: keys_read_model)
  then show ?thesis by (simp add: group_vendor_sets_def comp_def)
qed

section \<open>Chips count what their filter shows\<close>

lemma chip_if_iff: "x \<in> set (chip_if v l n) \<longleftrightarrow> 0 < n \<and> x = \<lparr>chip_value = v, chip_label = l, chip_count = n\<rparr>"
  by (simp add: chip_if_def)

lemma category_chip_count:
  "x \<in> set (category_chips groups defs gc) \<Longrightarrow> chip_value x \<noteq> ALL_CATEGORY_VALUE \<Longrightarrow>
    chip_count x = count_value (chip_value x) gc"
  by (auto simp: category_chips_def chip_if_iff)

lemma category_chip_exists:
  assumes "c \<in> {USER_OWNED_CATEGORY_VALUE, UNCATEGORIZED_CATEGORY_VALUE} \<union> set (map cat_id defs)"
    and "c \<in> snd ` set gc"
  shows "\<exists>x\<in>set (category_chips groups defs gc). chip_value x = c"
proof -
  have n: "0 < count_value c gc" using assms(2) by (force simp: count_value_def filter_empty_conv)
  show ?thesis
  proof (cases "c \<in> set (map cat_id defs)")
    case True
    then obtain d where "d \<in> set defs" "cat_id d = c" by auto
    with n show ?thesis
      by (intro bexI [of _ "\<lparr>chip_value = c, chip_label = cat_name d, chip_count = count_value c gc\<rparr>"])
        (auto simp: category_chips_def chip_if_iff)
  next
    case False
    with assms(1) consider "c = USER_OWNED_CATEGORY_VALUE" | "c = UNCATEGORIZED_CATEGORY_VALUE" by auto
    then obtain l where
      "\<lparr>chip_value = c, chip_label = l, chip_count = count_value c gc\<rparr> \<in> set (category_chips groups defs gc)"
      using n by cases (auto simp: category_chips_def chip_if_iff)
    then show ?thesis by (intro bexI) simp_all
  qed
qed

lemma vendor_chip_count:
  "x \<in> set (vendor_chips groups vs gv) \<Longrightarrow> chip_value x \<noteq> ALL_VENDOR_VALUE \<Longrightarrow>
    chip_count x = vendor_count gv (chip_value x)"
  by (auto simp: vendor_chips_def)

lemma auto_not_a_group: "AUTO_GROUP_VALUE \<notin> set (optionValues options)"
  by (simp add: set_optionValues)

text \<open>The options a category or a vendor shows, by their groups.\<close>

lemma keeps_category:
  assumes "set groups = dom (map_of gc)" "AUTO_GROUP_VALUE \<notin> set groups"
    and "groupCategory meta = gc" "c \<noteq> ALL_CATEGORY_VALUE"
  shows "keeps_option lower meta c ALL_VENDOR_VALUE [] opt \<longleftrightarrow> map_of gc (opt_value opt) = Some c"
  using assms by (auto simp: keeps_option_def)

lemma keeps_vendor:
  assumes "groupVendors meta = gv" "AUTO_GROUP_VALUE \<notin> fst ` set gv" "v \<noteq> ALL_VENDOR_VALUE"
  shows "opt_value opt \<noteq> AUTO_GROUP_VALUE \<and> keeps_option lower meta ALL_CATEGORY_VALUE v [] opt
    \<longleftrightarrow> (\<exists>ids. map_of gv (opt_value opt) = Some ids \<and> v \<in> set ids)"
  using assms by (force simp: keeps_option_def split: option.splits dest: map_of_SomeD)

lemma metadata_simps:
  "groupCategory (buildApiKeyGroupFilterMetadata lc options disp vs models) =
     group_categories (optionValues options)
       (map cat_id (array_sort (compare_categories lc)
          (case disp of None \<Rightarrow> [] | Some d \<Rightarrow> display_categories d)))
       (case disp of None \<Rightarrow> [] | Some d \<Rightarrow> display_groups d)"
  "groupVendors (buildApiKeyGroupFilterMetadata lc options disp vs models) =
     group_vendor_sets (optionValues options) (map (\<lambda>v. to_str (vendor_id v)) vs) models"
  "categories (buildApiKeyGroupFilterMetadata lc options disp vs models) =
     category_chips (optionValues options)
       (array_sort (compare_categories lc) (case disp of None \<Rightarrow> [] | Some d \<Rightarrow> display_categories d))
       (groupCategory (buildApiKeyGroupFilterMetadata lc options disp vs models))"
  "vendors (buildApiKeyGroupFilterMetadata lc options disp vs models) =
     vendor_chips (optionValues options) vs
       (groupVendors (buildApiKeyGroupFilterMetadata lc options disp vs models))"
  by (simp_all add: buildApiKeyGroupFilterMetadata_def Let_def)

lemma category_count:
  assumes "distinct (map opt_value options)" "category_map ids (set (optionValues options)) gc"
    and dom: "dom (map_of gc) = set (optionValues options)"
    and "groupCategory meta = gc" "c \<noteq> ALL_CATEGORY_VALUE"
  shows "length (filter (keeps_option lower meta c ALL_VENDOR_VALUE []) options) = count_value c gc"
proof -
  let ?K = "{k. \<exists>v. map_of gc k = Some v \<and> v = c}"
  have "?K \<subseteq> dom (map_of gc)" by auto
  then have "?K \<subseteq> opt_value ` set options" unfolding dom set_optionValues by blast
  then have "length (filter (keeps_option lower meta c ALL_VENDOR_VALUE []) options) = card ?K"
    using assms(1) keeps_category [OF dom [symmetric] auto_not_a_group assms(4,5)]
    by (intro count_options) auto
  also have "\<dots> = count_value c gc"
    using assms(2) count_entries [of gc "\<lambda>v. v = c"] by (simp add: category_map_def count_value_def)
  finally show ?thesis .
qed

lemma vendor_filter_count:
  assumes "distinct (map opt_value options)" and keys: "map fst gv = optionValues options"
    and "groupVendors meta = gv" "v \<noteq> ALL_VENDOR_VALUE"
  shows "length (filter (\<lambda>opt. opt_value opt \<noteq> AUTO_GROUP_VALUE)
    (filter (keeps_option lower meta ALL_CATEGORY_VALUE v []) options)) = vendor_count gv v"
proof -
  let ?K = "{k. \<exists>ids. map_of gv k = Some ids \<and> v \<in> set ids}"
  have fst_gv: "fst ` set gv = set (optionValues options)" using keys by (metis set_map)
  have "?K \<subseteq> fst ` set gv" by (force dest: map_of_SomeD)
  then have "?K \<subseteq> opt_value ` set options" unfolding fst_gv set_optionValues by blast
  then have "length (filter (\<lambda>opt. opt_value opt \<noteq> AUTO_GROUP_VALUE \<and>
      keeps_option lower meta ALL_CATEGORY_VALUE v [] opt) options) = card ?K"
    using assms(1) keeps_vendor [OF assms(3) _ assms(4)] auto_not_a_group fst_gv
    by (intro count_options) auto
  also have "\<dots> = vendor_count gv v"
    using count_entries [of gv "\<lambda>ids. v \<in> set ids"] keys
    by (simp add: vendor_count_def optionValues_def)
  finally show ?thesis by (simp add: conj_commute)
qed

lemma chip_filters:
  assumes "distinct (map opt_value options)" "lower (trim search) = []"
    and "meta = buildApiKeyGroupFilterMetadata lc options disp vs models"
  shows "\<And>x. x \<in> set (categories meta) \<Longrightarrow> chip_value x \<noteq> ALL_CATEGORY_VALUE \<Longrightarrow>
      length (filterApiKeyGroupOptions lower options meta (chip_value x) ALL_VENDOR_VALUE search)
        = chip_count x"
    and "\<And>x. x \<in> set (vendors meta) \<Longrightarrow> chip_value x \<noteq> ALL_VENDOR_VALUE \<Longrightarrow>
      length (filter (\<lambda>opt. opt_value opt \<noteq> AUTO_GROUP_VALUE)
        (filterApiKeyGroupOptions lower options meta ALL_CATEGORY_VALUE (chip_value x) search))
        = chip_count x"
    and "\<And>opt. opt \<in> set options \<Longrightarrow> opt_value opt \<notin> {[], AUTO_GROUP_VALUE} \<Longrightarrow>
      \<exists>x\<in>set (categories meta). opt \<in> set (filterApiKeyGroupOptions lower options meta
        (chip_value x) ALL_VENDOR_VALUE search)"
proof -
  let ?defs = "array_sort (compare_categories lc)
    (case disp of None \<Rightarrow> [] | Some d \<Rightarrow> display_categories d)"
  let ?gc = "groupCategory meta"
  have gc: "category_map (map cat_id ?defs) (set (optionValues options)) ?gc"
    "dom (map_of ?gc) = set (optionValues options)"
    by (simp_all only: assms(3) metadata_simps category_map_group_categories dom_group_categories)
  have gv: "map fst (groupVendors meta) = optionValues options"
    by (simp only: assms(3) metadata_simps keys_group_vendor_sets)
  have chips: "categories meta = category_chips (optionValues options) ?defs ?gc"
    "vendors meta = vendor_chips (optionValues options) vs (groupVendors meta)"
    by (simp_all only: assms(3) metadata_simps)
  note [simp] = filterApiKeyGroupOptions_def assms(2)
  show "length (filterApiKeyGroupOptions lower options meta (chip_value x) ALL_VENDOR_VALUE search)
      = chip_count x" if "x \<in> set (categories meta)" "chip_value x \<noteq> ALL_CATEGORY_VALUE" for x
    using that category_count [OF assms(1) gc refl] by (simp add: chips(1) category_chip_count)
  show "length (filter (\<lambda>opt. opt_value opt \<noteq> AUTO_GROUP_VALUE)
      (filterApiKeyGroupOptions lower options meta ALL_CATEGORY_VALUE (chip_value x) search))
      = chip_count x" if "x \<in> set (vendors meta)" "chip_value x \<noteq> ALL_VENDOR_VALUE" for x
    using that vendor_filter_count [OF assms(1) gv refl] chips(2) by (simp add: vendor_chip_count)
  show "\<exists>x\<in>set (categories meta). opt \<in> set (filterApiKeyGroupOptions lower options meta
      (chip_value x) ALL_VENDOR_VALUE search)"
    if opt: "opt \<in> set options" "opt_value opt \<notin> {[], AUTO_GROUP_VALUE}" for opt
  proof -
    have "opt_value opt \<in> set (optionValues options)" using opt by (simp add: set_optionValues)
    with gc(2) obtain c where c: "map_of ?gc (opt_value opt) = Some c" by blast
    then have "c \<in> snd ` set ?gc" by (force dest: map_of_SomeD)
    with gc(1) obtain x where "x \<in> set (categories meta)" "chip_value x = c"
      unfolding chips(1) category_map_def using category_chip_exists [of c ?defs ?gc] by blast
    with c opt show ?thesis by (intro bexI [of _ x]) (auto simp: keeps_option_def)
  qed
qed

text \<open>C31. When every option has a group of its own and the search box is blank, the number on
  a category chip is the number of options that choosing the category shows, the number on a
  vendor chip is the number of options besides the automatic one that choosing the vendor shows,
  and every option but the automatic and the empty one is shown by the chip of some category.\<close>

theorem chips_count_options:
  assumes "distinct (map opt_value options)" "lower (trim search) = []"
    and "meta = buildApiKeyGroupFilterMetadata lc options disp vs models"
  shows "(\<forall>x\<in>set (categories meta). chip_value x \<noteq> ALL_CATEGORY_VALUE \<longrightarrow>
      length (filterApiKeyGroupOptions lower options meta (chip_value x) ALL_VENDOR_VALUE search)
        = chip_count x) \<and>
    (\<forall>x\<in>set (vendors meta). chip_value x \<noteq> ALL_VENDOR_VALUE \<longrightarrow>
      length (filter (\<lambda>opt. opt_value opt \<noteq> AUTO_GROUP_VALUE)
        (filterApiKeyGroupOptions lower options meta ALL_CATEGORY_VALUE (chip_value x) search))
        = chip_count x) \<and>
    (\<forall>opt\<in>set options. opt_value opt \<notin> {[], AUTO_GROUP_VALUE} \<longrightarrow>
      (\<exists>x\<in>set (categories meta). opt \<in> set (filterApiKeyGroupOptions lower options meta
        (chip_value x) ALL_VENDOR_VALUE search)))"
  by (intro conjI ballI impI) (rule chip_filters [where lower = lower and search = search, OF assms]; assumption)+

definition plain_option :: "jsstr \<Rightarrow> group_option" where
  "plain_option v = \<lparr>opt_value = v, opt_label = v, opt_desc = None, opt_ratio = None,
     opt_hide_discount = None\<rparr>"

lemma chips_count_options_witness:
  "length (filterApiKeyGroupOptions id (map plain_option [J ''auto'', J ''fast'', J ''user_owned:1''])
     (buildApiKeyGroupFilterMetadata (\<lambda>a b. Fin 0)
        (map plain_option [J ''auto'', J ''fast'', J ''user_owned:1'']) None [] [])
     UNCATEGORIZED_CATEGORY_VALUE ALL_VENDOR_VALUE [32]) = 1"
proof -
  let ?opts = "map plain_option [J ''auto'', J ''fast'', J ''user_owned:1'']"
  let ?meta = "buildApiKeyGroupFilterMetadata (\<lambda>a b. Fin 0) ?opts None [] []"
  let ?x = "\<lparr>chip_value = UNCATEGORIZED_CATEGORY_VALUE, chip_label = J ''Uncategorized'', chip_count = 1\<rparr>"
  have "distinct (map opt_value ?opts)" "id (trim [32]) = []"
    by (simp_all add: plain_option_def trim_def is_ws_def)
  moreover have "?x \<in> set (categories ?meta)" by code_simp
  moreover have "chip_value ?x \<noteq> ALL_CATEGORY_VALUE" by code_simp
  ultimately have "length (filterApiKeyGroupOptions id ?opts ?meta (chip_value ?x) ALL_VENDOR_VALUE [32])
      = chip_count ?x"
    using chips_count_options [of ?opts id "[32]" ?meta "\<lambda>a b. Fin 0" None "[]" "[]", OF _ _ refl]
    by blast
  then show ?thesis by (simp only: chip.simps)
qed

section \<open>The sort orders\<close>

text \<open>
  What a consistent \<open>localeCompare\<close> is: antisymmetric, transitive and never \<open>NaN\<close>, as the
  internationalisation standard asks of a collation.
\<close>

definition collation :: "(jsstr \<Rightarrow> jsstr \<Rightarrow> jsnum) \<Rightarrow> bool" where
  "collation lc \<longleftrightarrow>
     (\<forall>x y. lc x y \<noteq> NaN \<and> (num_lt (lc x y) (Fin 0) \<longleftrightarrow> num_lt (Fin 0) (lc y x))) \<and>
     (\<forall>x y z. not_after lc x y \<longrightarrow> not_after lc y z \<longrightarrow> not_after lc x z)"

text \<open>The order each choice promises: a number that ranks first, and the name.\<close>

definition sort_key :: "group_sort \<Rightarrow> latencies option \<Rightarrow> group_option \<Rightarrow> jsnum option" where
  "sort_key srt perf opt =
     (if srt \<in> {DiscountAsc, DiscountDesc} then option_ratio opt
      else if srt \<in> {LatencyAsc, LatencyDesc} then option_latency perf opt else None)"

definition sort_direction_of :: "group_sort \<Rightarrow> sort_direction" where
  "sort_direction_of srt = (if srt \<in> {DiscountDesc, LatencyAsc} then Asc else Desc)"

text \<open>Known numbers rank in the direction of the sort, and before missing ones.\<close>

fun key_before :: "sort_direction \<Rightarrow> jsnum option \<Rightarrow> jsnum option \<Rightarrow> bool" where
  "key_before dir (Some x) (Some y) \<longleftrightarrow> (if dir = Asc then num_lt x y else num_lt y x)"
| "key_before dir (Some x) None \<longleftrightarrow> True"
| "key_before dir None v \<longleftrightarrow> False"

definition ranks_before :: "group_sort \<Rightarrow> latencies option \<Rightarrow> group_option \<Rightarrow> group_option \<Rightarrow> bool" where
  "ranks_before srt perf a b \<longleftrightarrow>
     key_before (sort_direction_of srt) (sort_key srt perf a) (sort_key srt perf b)"

definition name_precedes ::
    "(jsstr \<Rightarrow> jsstr) \<Rightarrow> (jsstr \<Rightarrow> jsstr \<Rightarrow> jsnum) \<Rightarrow> group_option \<Rightarrow> group_option \<Rightarrow> bool" where
  "name_precedes lower lc a b \<longleftrightarrow>
     num_lt (lc (optionName lower a) (optionName lower b)) (Fin 0) \<or>
     not_after lc (optionName lower a) (optionName lower b) \<and> not_after lc (opt_value a) (opt_value b)"

definition precedes ::
    "(jsstr \<Rightarrow> jsstr) \<Rightarrow> (jsstr \<Rightarrow> jsstr \<Rightarrow> jsnum) \<Rightarrow> group_sort \<Rightarrow> latencies option \<Rightarrow>
      group_option \<Rightarrow> group_option \<Rightarrow> bool" where
  "precedes lower lc srt perf a b \<longleftrightarrow>
     opt_value a = AUTO_GROUP_VALUE \<or>
     opt_value b \<noteq> AUTO_GROUP_VALUE \<and> \<not> ranks_before srt perf b a \<and>
       (ranks_before srt perf a b \<or>
        (if srt = NameDesc then name_precedes lower lc b a else name_precedes lower lc a b))"

text \<open>Ratios and latencies are doubles, and latencies numbers.\<close>

definition proper_numbers :: "latencies option \<Rightarrow> group_option \<Rightarrow> bool" where
  "proper_numbers perf opt \<longleftrightarrow>
     (\<forall>n. opt_ratio opt = Some (RNum n) \<longrightarrow> is_num n) \<and>
     (\<forall>n. option_latency perf opt = Some n \<longrightarrow> is_num n \<and> n \<noteq> NaN)"

lemma proper_key:
  "proper_numbers perf opt \<Longrightarrow> sort_key srt perf opt = Some n \<Longrightarrow> is_num n \<and> n \<noteq> NaN"
  by (auto simp: proper_numbers_def sort_key_def option_ratio_def
      split: if_splits option.splits ratio_value.splits)

lemma collation_antisym:
  "collation lc \<Longrightarrow> num_lt (lc x y) (Fin 0) \<longleftrightarrow> \<not> not_after lc y x"
  by (simp add: collation_def not_after_def)

lemma collation_trans:
  "collation lc \<Longrightarrow> not_after lc x y \<Longrightarrow> not_after lc y z \<Longrightarrow> not_after lc x z"
  by (simp add: collation_def)

lemma collation_total: "collation lc \<Longrightarrow> not_after lc x y \<or> not_after lc y x"
  by (metis collation_antisym not_after_def num_lt_asym)

lemma num_eq_0: "a \<noteq> NaN \<Longrightarrow> num_eq a (Fin 0) \<longleftrightarrow> \<not> num_lt a (Fin 0) \<and> \<not> num_lt (Fin 0) a"
  by (cases a) (auto simp: num_eq_def)

lemma compareName_sign:
  assumes "collation lc"
  shows "not_after (compareName lower lc) a b \<longleftrightarrow> name_precedes lower lc a b"
    and "num_lt (compareName lower lc a b) (Fin 0) \<longleftrightarrow> \<not> name_precedes lower lc b a"
proof -
  let ?n = "lc (optionName lower a) (optionName lower b)"
  have n: "?n \<noteq> NaN" using assms by (simp add: collation_def)
  note anti = collation_antisym [OF assms]
  show "not_after (compareName lower lc) a b \<longleftrightarrow> name_precedes lower lc a b"
    using num_eq_0 [OF n] num_lt_asym [of ?n "Fin 0"]
    by (auto simp: compareName_def not_after_def name_precedes_def)
  show "num_lt (compareName lower lc a b) (Fin 0) \<longleftrightarrow> \<not> name_precedes lower lc b a"
    using num_eq_0 [OF n] collation_total [OF assms]
    by (auto simp: compareName_def name_precedes_def anti not_after_def)
qed

lemma compareOptionalNumber_sign:
  assumes "\<And>n. a = Some n \<Longrightarrow> is_num n" "\<And>n. b = Some n \<Longrightarrow> is_num n"
  shows "num_lt (compareOptionalNumber a b dir) (Fin 0) \<longleftrightarrow> key_before dir a b"
    and "num_lt (Fin 0) (compareOptionalNumber a b dir) \<longleftrightarrow> key_before dir b a"
  using assms by (cases a; cases b; simp add: compareOptionalNumber_def sub_sign)+

lemma not_after_or:
  assumes "num_lt a (Fin 0) \<longleftrightarrow> p" "num_lt (Fin 0) a \<longleftrightarrow> q"
  shows "num_lt (Fin 0) (num_or a b) \<longleftrightarrow> q \<or> \<not> p \<and> num_lt (Fin 0) b"
  using assms num_lt_asym [of a "Fin 0"] by (auto simp: num_or_def num_truthy_iff)

lemma compareOptions_precedes:
  assumes c: "collation lc" and a: "proper_numbers perf a" and b: "proper_numbers perf b"
  shows "not_after (compareOptions lower lc srt perf) a b \<longleftrightarrow> precedes lower lc srt perf a b"
proof (cases "opt_value a = AUTO_GROUP_VALUE \<or> opt_value b = AUTO_GROUP_VALUE")
  case True
  then show ?thesis by (auto simp: not_after_def compareOptions_def precedes_def Let_def)
next
  case False
  let ?by = "compareName lower lc a b" and ?key = "sort_key srt perf"
  let ?dir = "sort_direction_of srt"
  have key: "compareOptions lower lc srt perf a b =
      (if srt = NameAsc then ?by else if srt = NameDesc then num_neg ?by
       else num_or (compareOptionalNumber (?key a) (?key b) ?dir) ?by)"
    using False by (cases srt) (simp_all add: compareOptions_def sort_key_def sort_direction_of_def Let_def)
  have signs: "num_lt (compareOptionalNumber (?key a) (?key b) ?dir) (Fin 0) \<longleftrightarrow> ranks_before srt perf a b"
    "num_lt (Fin 0) (compareOptionalNumber (?key a) (?key b) ?dir) \<longleftrightarrow> ranks_before srt perf b a"
    using compareOptionalNumber_sign [of "?key a" "?key b" ?dir] proper_key [OF a] proper_key [OF b]
    by (simp_all add: ranks_before_def)
  have none: "\<not> ranks_before srt perf x y" if "srt \<in> {NameAsc, NameDesc}" for x y
    using that by (auto simp: ranks_before_def sort_key_def)
  have name: "num_lt (Fin 0) ?by \<longleftrightarrow> \<not> name_precedes lower lc a b"
    "num_lt ?by (Fin 0) \<longleftrightarrow> \<not> name_precedes lower lc b a"
    using compareName_sign [OF c, of lower a b] unfolding not_after_def by blast+
  note order = not_after_or [OF signs]
  have auto: "opt_value a \<noteq> AUTO_GROUP_VALUE" "opt_value b \<noteq> AUTO_GROUP_VALUE" using False by auto
  consider "srt = NameAsc" | "srt = NameDesc" | "srt \<notin> {NameAsc, NameDesc}" by auto
  then show ?thesis
  proof cases
    case 1
    then have "compareOptions lower lc srt perf a b = ?by" using key by simp
    then have "not_after (compareOptions lower lc srt perf) a b \<longleftrightarrow> name_precedes lower lc a b"
      by (simp only: not_after_def name simp_thms)
    with 1 auto none show ?thesis by (simp add: precedes_def)
  next
    case 2
    then have "compareOptions lower lc srt perf a b = num_neg ?by" using key by simp
    then have "not_after (compareOptions lower lc srt perf) a b \<longleftrightarrow> name_precedes lower lc b a"
      by (simp only: not_after_def neg_sign name simp_thms)
    with 2 auto none show ?thesis by (simp add: precedes_def)
  next
    case 3
    then have "srt \<noteq> NameAsc" "srt \<noteq> NameDesc" by auto
    with auto show ?thesis
      by (simp only: not_after_def key order name precedes_def if_False simp_thms) blast
  qed
qed

text \<open>The order is total and transitive, so that the comparison is consistent.\<close>

lemma key_before_order:
  shows "key_before dir u v \<Longrightarrow> \<not> key_before dir v u"
    and "\<lbrakk>key_before dir u w; \<And>n. v = Some n \<Longrightarrow> n \<noteq> NaN\<rbrakk> \<Longrightarrow> key_before dir u v \<or> key_before dir v w"
  by (cases u; cases v; cases w; auto dest: num_lt_asym num_lt_cotrans split: if_splits)+

lemma name_precedes_total:
  "collation lc \<Longrightarrow> name_precedes lower lc a b \<or> name_precedes lower lc b a"
  using collation_total [of lc] collation_antisym [of lc] unfolding name_precedes_def by metis

lemma name_precedes_trans:
  assumes "collation lc" "name_precedes lower lc a b" "name_precedes lower lc b d"
  shows "name_precedes lower lc a d"
  using assms(2,3) collation_trans [OF assms(1)] unfolding name_precedes_def
  by (metis collation_antisym [OF assms(1)] collation_total [OF assms(1)])

text \<open>A strict ranking followed by a total preorder.\<close>

lemma ranked_total:
  assumes "\<And>x y. r x y \<Longrightarrow> \<not> r y x" "\<And>x y. n x y \<or> n y x"
  shows "\<not> r y x \<and> (r x y \<or> n x y) \<or> \<not> r x y \<and> (r y x \<or> n y x)"
  using assms by metis

lemma precedes_total:
  assumes "collation lc"
  shows "precedes lower lc srt perf a b \<or> precedes lower lc srt perf b a"
  using key_before_order(1) name_precedes_total [OF assms, of lower a b]
  unfolding precedes_def ranks_before_def by (cases "srt = NameDesc") (simp; blast)+

lemma precedes_trans:
  assumes c: "collation lc" and p: "proper_numbers perf a" "proper_numbers perf b" "proper_numbers perf d"
    and ab: "precedes lower lc srt perf a b" and bd: "precedes lower lc srt perf b d"
  shows "precedes lower lc srt perf a d"
proof -
  define r where "r = ranks_before srt perf"
  define n where "n x y = (if srt = NameDesc then name_precedes lower lc y x else name_precedes lower lc x y)" for x y
  have asym: "\<not> r y x" if "r x y" for x y
    using that key_before_order(1) unfolding r_def ranks_before_def by blast
  have cotrans: "r x y \<or> r y z" if "r x z" "proper_numbers perf y" for x y z
    using that key_before_order(2) proper_key [OF that(2)] unfolding r_def ranks_before_def by blast
  have n: "n x z" if "n x y" "n y z" for x y z
    using that name_precedes_trans [OF c] by (auto simp: n_def split: if_splits)
  have prec: "precedes lower lc srt perf x y \<longleftrightarrow> opt_value x = AUTO_GROUP_VALUE \<or>
      opt_value y \<noteq> AUTO_GROUP_VALUE \<and> \<not> r y x \<and> (r x y \<or> n x y)" for x y
    by (simp add: precedes_def r_def n_def)
  show ?thesis
    using ab bd asym cotrans [of d a b] cotrans [of a b d] cotrans [of b d a] p n unfolding prec by metis
qed

lemma compareOptions_consistent:
  assumes "collation lc"
  shows "comparison (compareOptions lower lc srt perf) (proper_numbers perf)"
  using compareOptions_precedes [OF assms] precedes_total [OF assms] precedes_trans [OF assms]
  by unfold_locales metis+

text \<open>For every choice of order, sorting the group options rearranges them: the automatic
  option first, then the known ratios or latencies in the chosen direction, then the unknown ones,
  and equal ones by name and by group, in reverse for the descending names. Sorting again changes
  nothing. \<open>localeCompare\<close> is any collation, \<open>toLowerCase\<close> any function.\<close>

theorem group_options_sorted:
  assumes "collation lc" "list_all (proper_numbers perf) options"
  shows "let result = sortApiKeyGroupOptions lower lc srt perf options in
    mset result = mset options \<and> sorted_wrt (precedes lower lc srt perf) result \<and>
    sortApiKeyGroupOptions lower lc srt perf result = result"
proof -
  note ok = compareOptions_consistent [OF assms(1), of lower srt perf]
  let ?result = "sortApiKeyGroupOptions lower lc srt perf options"
  have mset: "mset ?result = mset options" by (simp add: sortApiKeyGroupOptions_def)
  then have proper: "proper_numbers perf opt" if "opt \<in> set ?result" for opt
    using that assms(2) mset_eq_setD [OF mset] by (simp add: list_all_iff)
  have "sorted_wrt (not_after (compareOptions lower lc srt perf)) ?result"
    unfolding sortApiKeyGroupOptions_def
    by (rule comparison.sorted_array_sort [OF ok assms(2)])
  then have "sorted_wrt (precedes lower lc srt perf) ?result"
    by (rule sorted_wrt_mono_rel [rotated]) (use compareOptions_precedes [OF assms(1)] proper in blast)
  moreover have "sortApiKeyGroupOptions lower lc srt perf ?result = ?result"
    unfolding sortApiKeyGroupOptions_def by (rule comparison.sort_idem [OF ok assms(2)])
  ultimately show ?thesis using mset by (simp add: Let_def)
qed

definition by_length :: "jsstr \<Rightarrow> jsstr \<Rightarrow> jsnum" where
  "by_length x y = (if length x < length y then Fin (- 1) else if length y < length x then Fin 1 else Fin 0)"

definition with_ratio :: "rat \<Rightarrow> jsstr \<Rightarrow> group_option" where
  "with_ratio q v = plain_option v \<lparr>opt_ratio := Some (RNum (Fin q))\<rparr>"

lemma group_options_sorted_witness:
  "sorted_wrt (precedes id by_length DiscountDesc None)
     (sortApiKeyGroupOptions id by_length DiscountDesc None
        [plain_option (J ''unknown''), with_ratio 1 (J ''standard''), with_ratio 0 (J ''free''),
         plain_option AUTO_GROUP_VALUE])"
proof -
  let ?options = "[plain_option (J ''unknown''), with_ratio 1 (J ''standard''),
    with_ratio 0 (J ''free''), plain_option AUTO_GROUP_VALUE]"
  have "collation by_length"
    by (auto simp: collation_def by_length_def not_after_def)
  moreover have "list_all (proper_numbers None) ?options"
    using rnd_of_int [of 1]
    by (simp add: proper_numbers_def option_latency_def with_ratio_def plain_option_def)
  ultimately show ?thesis
    using group_options_sorted [of by_length None ?options id DiscountDesc] by (simp only: Let_def)
qed

text \<open>The vendors come by their sort order, then by their number.\<close>

definition proper_vendor :: "vendor_info \<Rightarrow> bool" where
  "proper_vendor v \<longleftrightarrow> is_num (sort_order_of v) \<and> sort_order_of v \<noteq> NaN \<and>
     is_num (vendor_id v) \<and> vendor_id v \<noteq> NaN"

lemma num_eq_iff: "a \<noteq> NaN \<Longrightarrow> b \<noteq> NaN \<Longrightarrow> num_eq a b \<longleftrightarrow> \<not> num_lt a b \<and> \<not> num_lt b a"
  by (cases a; cases b) (auto simp: num_eq_def)

lemma compare_vendors_order:
  assumes "proper_vendor a" "proper_vendor b"
  shows "not_after compare_vendors a b \<longleftrightarrow> num_lt (sort_order_of a) (sort_order_of b) \<or>
    \<not> num_lt (sort_order_of b) (sort_order_of a) \<and> \<not> num_lt (vendor_id b) (vendor_id a)"
  using assms num_lt_asym
  by (auto simp: not_after_def compare_vendors_def proper_vendor_def num_eq_iff sub_sign)

interpretation vendor_order: comparison compare_vendors proper_vendor
proof
  fix a b d
  assume p: "proper_vendor a" "proper_vendor b"
  then show "not_after compare_vendors a b \<or> not_after compare_vendors b a"
    using num_lt_asym by (simp add: compare_vendors_order) blast
  assume "proper_vendor d" "not_after compare_vendors a b" "not_after compare_vendors b d"
  with p show "not_after compare_vendors a d"
    using num_lt_asym [of "sort_order_of a"] num_lt_asym [of "sort_order_of b"]
      num_lt_trans [of "sort_order_of a" "sort_order_of b" "sort_order_of d"]
      num_lt_cotrans [of "sort_order_of d" "sort_order_of a" "sort_order_of b"]
      num_lt_cotrans [of "sort_order_of a" "sort_order_of b" "sort_order_of d"]
      num_lt_cotrans [of "sort_order_of b" "sort_order_of d" "sort_order_of a"]
      num_lt_cotrans [of "vendor_id d" "vendor_id a" "vendor_id b"]
    unfolding compare_vendors_order [OF \<open>proper_vendor a\<close> \<open>proper_vendor d\<close>] proper_vendor_def
    by (simp add: compare_vendors_order proper_vendor_def) blast
qed

lemma vendor_chips_sorted:
  "list_all proper_vendor vs \<Longrightarrow>
    sorted_wrt (not_after compare_vendors) (array_sort compare_vendors (filter P vs))"
  by (rule vendor_order.sorted_array_sort) (simp add: list_all_iff)

end
