(* ===== verification/JsMap.thy ===== *)
theory JsMap
  imports JsSort "HOL-Library.AList"
begin

text \<open>
  A \<open>Map\<close> as an association list in the order of insertion. \<open>upsert\<close> is the idiom
  \<open>const x = map.get(k) ?? d; change x; map.set(k, x)\<close>. The locale \<open>tally\<close> describes a map
  whose entries sum up the amounts of a list of events; for whole amounts the doubles are exact as
  long as the total stays below $2^{53}$.
\<close>

definition upsert :: "'k \<Rightarrow> 'v \<Rightarrow> ('v \<Rightarrow> 'v) \<Rightarrow> ('k \<times> 'v) list \<Rightarrow> ('k \<times> 'v) list" where
  "upsert k d f m = AList.update k (f (case map_of m k of None \<Rightarrow> d | Some x \<Rightarrow> x)) m"

lemma map_of_upsert:
  "map_of (upsert k d f m) i =
     (if i = k then Some (f (case map_of m k of None \<Rightarrow> d | Some x \<Rightarrow> x)) else map_of m i)"
  by (simp add: upsert_def update_conv')

lemma keys_upsert [simp]: "fst ` set (upsert k d f m) = insert k (fst ` set m)"
  by (simp add: upsert_def dom_update)

lemma distinct_upsert [simp]: "distinct (map fst m) \<Longrightarrow> distinct (map fst (upsert k d f m))"
  by (simp add: upsert_def distinct_update)

lemma entries_update: "(i, x) \<in> set (AList.update k v m) \<Longrightarrow> (i = k \<and> x = v) \<or> (i, x) \<in> set m"
  by (induction m) (auto split: if_splits)

lemma upsert_entries:
  assumes "\<And>i x. (i, x) \<in> set m \<Longrightarrow> P i x" "P k d" "\<And>x. P k x \<Longrightarrow> P k (f x)"
    and "(i, x) \<in> set (upsert k d f m)"
  shows "P i x"
proof -
  have "P k (case map_of m k of None \<Rightarrow> d | Some x \<Rightarrow> x)"
    using assms(1,2) by (auto split: option.split dest: map_of_SomeD)
  with assms show ?thesis by (auto simp: upsert_def dest!: entries_update)
qed

text \<open>A loop within a loop is a loop over the pairs, and a loop on two maps is two loops.\<close>

lemma fold_nested:
  "fold (\<lambda>x. fold (f x) (g x)) xs s = fold (\<lambda>(x, y). f x y) (concat (map (\<lambda>x. map (Pair x) (g x)) xs)) s"
proof (induction xs arbitrary: s)
  case (Cons x xs)
  have "fold (\<lambda>(x, y). f x y) (map (Pair x) ys) s = fold (f x) ys s" for ys s
    by (induction ys arbitrary: s) auto
  with Cons show ?case by simp
qed simp

lemma fold_two: "fold (\<lambda>x. map_prod (f x) (g x)) xs (a, b) = (fold f xs a, fold g xs b)"
  by (induction xs arbitrary: a b) auto

section \<open>Whole numbers\<close>

definition whole :: "jsnum \<Rightarrow> bool" where
  "whole x \<longleftrightarrow> is_integer x \<and> 0 \<le> val x"

definition units :: "jsnum \<Rightarrow> nat" where
  "units x = nat \<lfloor>val x\<rfloor>"

lemma whole_val: "whole x \<Longrightarrow> val x = of_nat (units x)"
  by (cases x) (auto simp: whole_def units_def)

lemma whole_Fin [simp]: "whole (Fin (of_nat n))" "units (Fin (of_nat n)) = n"
  by (auto simp: whole_def units_def)

lemma num_add_whole:
  assumes "whole x" "k + units x \<le> 2 ^ 53"
  shows "num_add (Fin (of_nat k)) x = Fin (of_nat (k + units x))"
proof -
  have "val (Fin (of_nat k)) + val x = of_int (int (k + units x))"
    using whole_val [OF assms(1)] by simp
  moreover have "is_finite x" using assms(1) by (cases x) (auto simp: whole_def)
  ultimately have "num_add (Fin (of_nat k)) x = rnd (of_int (int (k + units x)))"
    using assms(1) by (cases x) (auto simp: num_add_def whole_def)
  moreover have "int (k + units x) \<le> int (2 ^ 53)" using assms(2) by (simp only: of_nat_le_iff)
  then have "rnd (of_int (int (k + units x))) = Fin (of_int (int (k + units x)))"
    by (intro rnd_of_int) simp
  ultimately show ?thesis by simp
qed

section \<open>Tallies\<close>

locale tally =
  fixes key :: "'e \<Rightarrow> 'k" and new :: "'e \<Rightarrow> 'v" and change :: "'e \<Rightarrow> 'v \<Rightarrow> 'v"
    and amount :: "'e \<Rightarrow> jsnum" and total :: "'v \<Rightarrow> jsnum"
  assumes new_total: "total (new e) = Fin 0"
    and change_total: "total (change e x) = num_add (total x) (amount e)"
begin

definition run :: "'e list \<Rightarrow> ('k \<times> 'v) list \<Rightarrow> ('k \<times> 'v) list" where
  "run = fold (\<lambda>e. upsert (key e) (new e) (change e))"

lemma run_append: "run (es @ es') m = run es' (run es m)"
  by (simp add: run_def)

lemma run_snoc: "run (es @ [e]) m = upsert (key e) (new e) (change e) (run es m)"
  by (simp add: run_def)

lemma distinct_run: "distinct (map fst (run es []))"
  by (induction es rule: rev_induct) (simp_all add: run_snoc, simp add: run_def)

lemma keys_run: "fst ` set (run es []) = key ` set es"
  by (induction es rule: rev_induct) (simp_all add: run_snoc, simp add: run_def)

lemma run_entries:
  assumes "\<And>e. e \<in> set es \<Longrightarrow> P (key e) (new e)"
    and "\<And>e x. e \<in> set es \<Longrightarrow> P (key e) x \<Longrightarrow> P (key e) (change e x)"
    and "(k, x) \<in> set (run es [])"
  shows "P k x"
  using assms
proof (induction es arbitrary: k x rule: rev_induct)
  case Nil
  then show ?case by (simp add: run_def)
next
  case (snoc e es)
  show ?case
  proof (rule upsert_entries [of "run es []" P])
    show "(k, x) \<in> set (upsert (key e) (new e) (change e) (run es []))"
      using snoc.prems(3) by (simp add: run_snoc)
    show "P j y" if "(j, y) \<in> set (run es [])" for j y
      using snoc.IH [OF _ _ that] snoc.prems(1,2) by auto
  qed (use snoc.prems(1,2) in auto)
qed

definition weight :: "('k \<Rightarrow> bool) \<Rightarrow> 'e list \<Rightarrow> nat" where
  "weight P es = (\<Sum>e\<leftarrow>es. if P (key e) then units (amount e) else 0)"

lemma weight_simps [simp]:
  "weight P [] = 0" "weight P (es @ es') = weight P es + weight P es'"
  "weight P (e # es) = (if P (key e) then units (amount e) else 0) + weight P es"
  by (auto simp: weight_def)

lemma run_total:
  assumes "\<And>e. e \<in> set es \<Longrightarrow> whole (amount e)"
  shows "map_of (run es []) k = Some x \<Longrightarrow> weight (\<lambda>j. j = k) es \<le> 2 ^ 53 \<Longrightarrow>
    total x = Fin (of_nat (weight (\<lambda>j. j = k) es))"
  using assms
proof (induction es arbitrary: k x rule: rev_induct)
  case Nil
  then show ?case by (simp add: run_def)
next
  case (snoc e es)
  show ?case
  proof (cases "k = key e")
    case False
    with snoc show ?thesis by (auto simp: run_snoc map_of_upsert)
  next
    case True
    define y where "y = (case map_of (run es []) k of None \<Rightarrow> new e | Some y \<Rightarrow> y)"
    have x: "x = change e y"
      using snoc.prems(1) True by (simp add: run_snoc map_of_upsert y_def)
    have b: "weight (\<lambda>j. j = k) es + units (amount e) \<le> 2 ^ 53"
      using snoc.prems(2) True by simp
    have absent: "weight (\<lambda>j. j = k) es = 0" if "map_of (run es []) k = None"
      using that keys_run [of es] by (auto simp: map_of_eq_None_iff weight_def)
    have "total y = Fin (of_nat (weight (\<lambda>j. j = k) es))"
      using snoc.IH snoc.prems(3) absent b by (cases "map_of (run es []) k") (auto simp: y_def new_total)
    then have "total x = Fin (of_nat (weight (\<lambda>j. j = k) es + units (amount e)))"
      using snoc.prems(3) b by (simp only: x change_total) (simp add: num_add_whole)
    with True show ?thesis by simp
  qed
qed

text \<open>The entries whose keys have a property sum up the events whose keys have it.\<close>

lemma sum_indicator:
  "finite A \<Longrightarrow> (\<Sum>k\<in>A. if P k then weight (\<lambda>j. j = k) es else 0) = weight (\<lambda>j. j \<in> A \<and> P j) es"
proof (induction es)
  case (Cons e es)
  have "(\<Sum>k\<in>A. if P k then (if key e = k then units (amount e) else 0) else 0)
      = (\<Sum>k\<in>A. if key e = k then (if P (key e) then units (amount e) else 0) else 0)"
    by (rule sum.cong) auto
  also have "\<dots> = (if key e \<in> A \<and> P (key e) then units (amount e) else 0)"
    using Cons.prems by simp
  finally have one: "(\<Sum>k\<in>A. if P k then (if key e = k then units (amount e) else 0) else 0)
      = (if key e \<in> A \<and> P (key e) then units (amount e) else 0)" .
  have "(\<Sum>k\<in>A. if P k then weight (\<lambda>j. j = k) (e # es) else 0)
      = (\<Sum>k\<in>A. (if P k then (if key e = k then units (amount e) else 0) else 0)
          + (if P k then weight (\<lambda>j. j = k) es else 0))"
    by (rule sum.cong) auto
  with Cons one show ?case by (simp add: sum.distrib)
qed simp

lemma run_sum:
  assumes w: "\<And>e. e \<in> set es \<Longrightarrow> whole (amount e)" and b: "\<And>k. weight (\<lambda>j. j = k) es \<le> 2 ^ 53"
  shows "(\<Sum>(k, x)\<leftarrow>run es []. if P k then val (total x) else 0) = of_nat (weight P es)"
proof -
  let ?m = "run es []"
  have "(\<Sum>(k, x)\<leftarrow>?m. if P k then val (total x) else 0)
      = (\<Sum>(k, x)\<leftarrow>?m. of_nat (if P k then weight (\<lambda>j. j = k) es else 0))"
  proof (rule arg_cong [where f = sum_list], rule map_cong [OF refl], clarify)
    fix k x
    assume "(k, x) \<in> set ?m"
    then have "map_of ?m k = Some x" using distinct_run by simp
    from run_total [OF w this b]
    show "(if P k then val (total x) else 0)
        = (of_nat (if P k then weight (\<lambda>j. j = k) es else 0) :: rat)" by simp
  qed
  also have "\<dots> = (\<Sum>k\<leftarrow>map fst ?m. of_nat (if P k then weight (\<lambda>j. j = k) es else 0))"
    by (simp add: case_prod_unfold comp_def)
  also have "\<dots> = (\<Sum>k\<in>fst ` set ?m. of_nat (if P k then weight (\<lambda>j. j = k) es else 0))"
    using distinct_run by (simp only: sum_list_distinct_conv_sum_set set_map)
  also have "\<dots> = of_nat (\<Sum>k\<in>fst ` set ?m. if P k then weight (\<lambda>j. j = k) es else 0)"
    by (simp only: of_nat_sum)
  also have "(\<Sum>k\<in>fst ` set ?m. if P k then weight (\<lambda>j. j = k) es else 0) = weight P es"
    by (subst sum_indicator) (auto simp: weight_def keys_run intro!: arg_cong [where f = sum_list])
  finally show ?thesis .
qed

end

end
