(* ===== verification/Flow.thy ===== *)
theory Flow
  imports JsMap JsObject JsRegex
begin

text \<open>
  The flow chart of the dashboard (\<open>features/dashboard/lib/flow.ts\<close>), first half: the rows of usage,
  their metrics, the path of nodes a row runs through, the filters on users and nodes, and the
  limit on the number of nodes of a stage. A \<open>Map\<close> is an association list in the order of
  insertion. Strings that the browser makes from numbers are those of \<open>to_str\<close>;
  \<open>localeCompare\<close> is the parameter \<open>lc\<close>.
\<close>

section \<open>Rows, metrics and nodes\<close>

datatype flow_kind = KUser | KNode | KToken | KGroup | KModel | KChannel

datatype flow_metric = MQuota | MTokens | MRequests

datatype flow_role = RoleUser | RoleAdmin | RoleRoot

datatype overflow_mode = Aggregate | Hide

record flow_row =
  user_id :: "jsnum option"
  username :: "jsstr option"
  node_name :: "jsstr option"
  token_id :: "jsnum option"
  token_name :: "jsstr option"
  use_group :: "jsstr option"
  channel_id :: "jsnum option"
  channel_name :: "jsstr option"
  row_model :: "jsstr option"
  token_used :: "jsnum option"
  row_count :: "jsnum option"
  row_quota :: "jsnum option"

record flow_metrics =
  quota :: jsnum
  tokens :: jsnum
  requests :: jsnum

record path_node =
  pn_id :: jsstr
  pn_label :: jsstr
  pn_kind :: flow_kind

record flow_filter =
  ff_kind :: flow_kind
  ff_id :: jsstr

record flow_selection =
  sel_source :: jsstr
  sel_target :: jsstr

type_synonym token_labeler = "(jsnum \<Rightarrow> jsstr) option"
type_synonym kind_labeler = "(flow_kind \<Rightarrow> jsstr) option"

definition FLOW_NODE_KINDS :: "flow_kind list" where
  "FLOW_NODE_KINDS = [KUser, KNode, KToken, KGroup, KModel, KChannel]"

definition kind_text :: "flow_kind \<Rightarrow> jsstr" where
  "kind_text k =
     (case k of KUser \<Rightarrow> J ''user'' | KNode \<Rightarrow> J ''node'' | KToken \<Rightarrow> J ''token''
      | KGroup \<Rightarrow> J ''group'' | KModel \<Rightarrow> J ''model'' | KChannel \<Rightarrow> J ''channel'')"

definition OTHER_FLOW_NODE_IDS :: "flow_kind \<Rightarrow> jsstr" where
  "OTHER_FLOW_NODE_IDS k =
     (case k of KUser \<Rightarrow> J ''user:__other__'' | KNode \<Rightarrow> J ''node:__other__''
      | KToken \<Rightarrow> J ''token:__other__'' | KGroup \<Rightarrow> J ''group:__other__''
      | KModel \<Rightarrow> J ''model:__other__'' | KChannel \<Rightarrow> J ''channel:__other__'')"

definition DEFAULT_OTHER_FLOW_NODE_LABELS :: "flow_kind \<Rightarrow> jsstr" where
  "DEFAULT_OTHER_FLOW_NODE_LABELS k =
     (case k of KUser \<Rightarrow> J ''Other users'' | KNode \<Rightarrow> J ''Other nodes'' | KToken \<Rightarrow> J ''Other tokens''
      | KGroup \<Rightarrow> J ''Other groups'' | KModel \<Rightarrow> J ''Other models'' | KChannel \<Rightarrow> J ''Other channels'')"

definition SENSITIVE_FLOW_KINDS :: "flow_kind list" where
  "SENSITIVE_FLOW_KINDS = [KUser, KNode, KToken, KGroup, KChannel]"

definition OTHER_FLOW_NODE_ID_SET :: "jsstr list" where
  "OTHER_FLOW_NODE_ID_SET = map OTHER_FLOW_NODE_IDS FLOW_NODE_KINDS"

definition flow_number :: "jsnum option \<Rightarrow> jsnum" where
  "flow_number v = (case v of None \<Rightarrow> Fin 0 | Some n \<Rightarrow> if is_finite n then n else Fin 0)"

definition rowMetrics :: "flow_row \<Rightarrow> flow_metrics" where
  "rowMetrics r = \<lparr>quota = flow_number (row_quota r), tokens = flow_number (token_used r),
     requests = flow_number (row_count r)\<rparr>"

definition metricValue :: "flow_metrics \<Rightarrow> flow_metric \<Rightarrow> jsnum" where
  "metricValue m k = (case k of MRequests \<Rightarrow> requests m | MTokens \<Rightarrow> tokens m | MQuota \<Rightarrow> quota m)"

text \<open>\<open>s || d\<close> for a string that may be missing.\<close>

definition str_or :: "jsstr option \<Rightarrow> jsstr \<Rightarrow> jsstr" where
  "str_or s d = (case s of None \<Rightarrow> d | Some t \<Rightarrow> if t = [] then d else t)"

definition positive :: "jsnum \<Rightarrow> bool" where
  "positive n \<longleftrightarrow> num_lt (Fin 0) n"

definition userNode :: "flow_row \<Rightarrow> path_node" where
  "userNode r = (let i = flow_number (user_id r) in
     \<lparr>pn_id = J ''user:'' @ (if positive i then to_str i else str_or (username r) (J ''unknown'')),
      pn_label = str_or (username r) (if positive i then J ''user-'' @ to_str i else J ''Unknown User''),
      pn_kind = KUser\<rparr>)"

definition nodeNameNode :: "flow_row \<Rightarrow> path_node" where
  "nodeNameNode r = (let n = str_or (node_name r) (J ''default-node'') in
     \<lparr>pn_id = J ''node:'' @ n, pn_label = n, pn_kind = KNode\<rparr>)"

definition deletedTokenLabel :: "jsnum \<Rightarrow> token_labeler \<Rightarrow> jsstr" where
  "deletedTokenLabel i ctx =
     (if \<not> positive i then J ''Unknown Token''
      else case ctx of None \<Rightarrow> J ''token-'' @ to_str i | Some f \<Rightarrow> f i)"

definition tokenNode :: "token_labeler \<Rightarrow> flow_row \<Rightarrow> path_node" where
  "tokenNode ctx r = (let i = flow_number (token_id r) in
     \<lparr>pn_id = J ''token:'' @ (if positive i then to_str i else str_or (token_name r) (J ''unknown'')),
      pn_label = str_or (token_name r) (deletedTokenLabel i ctx), pn_kind = KToken\<rparr>)"

definition groupNode :: "flow_row \<Rightarrow> path_node" where
  "groupNode r = (let g = str_or (use_group r) (J ''unknown'') in
     \<lparr>pn_id = J ''group:'' @ g, pn_label = g, pn_kind = KGroup\<rparr>)"

definition modelNode :: "flow_row \<Rightarrow> path_node" where
  "modelNode r =
     \<lparr>pn_id = J ''model:'' @ str_or (row_model r) (J ''unknown''),
      pn_label = str_or (row_model r) (J ''Unknown Model''), pn_kind = KModel\<rparr>"

definition channelNode :: "flow_row \<Rightarrow> path_node" where
  "channelNode r = (let i = flow_number (channel_id r) in
     \<lparr>pn_id = J ''channel:'' @ (if positive i then to_str i else str_or (channel_name r) (J ''unknown'')),
      pn_label = str_or (channel_name r) (if positive i then J ''channel-'' @ to_str i else J ''Unknown''),
      pn_kind = KChannel\<rparr>)"

definition NODE_BUILDERS :: "flow_kind \<Rightarrow> token_labeler \<Rightarrow> flow_row \<Rightarrow> path_node" where
  "NODE_BUILDERS k ctx r =
     (case k of KUser \<Rightarrow> userNode r | KNode \<Rightarrow> nodeNameNode r | KToken \<Rightarrow> tokenNode ctx r
      | KGroup \<Rightarrow> groupNode r | KModel \<Rightarrow> modelNode r | KChannel \<Rightarrow> channelNode r)"

definition getFlowStages :: "flow_role \<Rightarrow> flow_kind list" where
  "getFlowStages role =
     (case role of
        RoleRoot \<Rightarrow> [KUser, KNode, KToken, KGroup, KModel, KChannel]
      | RoleAdmin \<Rightarrow> [KUser, KGroup, KModel, KChannel]
      | RoleUser \<Rightarrow> [KToken, KGroup, KModel])"

definition resolveVisibleStages :: "flow_role \<Rightarrow> flow_kind list option \<Rightarrow> flow_kind list" where
  "resolveVisibleStages role visibleStages =
     (let stages = getFlowStages role in
      case visibleStages of
        None \<Rightarrow> stages
      | Some vs \<Rightarrow> let filtered = filter (\<lambda>s. s \<in> set vs) stages
          in if 2 \<le> length filtered then filtered else stages)"

definition flowPathForStages :: "flow_row \<Rightarrow> flow_kind list \<Rightarrow> token_labeler \<Rightarrow> path_node list" where
  "flowPathForStages r stages ctx = map (\<lambda>s. NODE_BUILDERS s ctx r) stages"

section \<open>Filters\<close>

definition filterRows :: "flow_row list \<Rightarrow> jsstr list \<Rightarrow> flow_row list" where
  "filterRows rows selectedUsers =
     (if selectedUsers = [] then rows
      else filter (\<lambda>r. pn_id (userNode r) \<in> set selectedUsers) rows)"

definition add_selected :: "flow_kind list \<Rightarrow> flow_filter \<Rightarrow> (flow_kind \<times> jsstr list) list \<Rightarrow>
    (flow_kind \<times> jsstr list) list" where
  "add_selected stages f m =
     (if ff_kind f \<notin> set stages then m
      else upsert (ff_kind f) [] (\<lambda>ids. if ff_id f \<in> set ids then ids else ids @ [ff_id f]) m)"

definition normalizeSelectedNodeFilters ::
    "flow_filter list \<Rightarrow> flow_kind list \<Rightarrow> (flow_kind \<times> jsstr list) list" where
  "normalizeSelectedNodeFilters selected stages = fold (add_selected stages) selected []"

definition path_ids :: "path_node list \<Rightarrow> flow_kind \<Rightarrow> jsstr list" where
  "path_ids path k = map pn_id (filter (\<lambda>n. pn_kind n = k) path)"

definition pathMatchesNodeFilters ::
    "path_node list \<Rightarrow> (flow_kind \<times> jsstr list) list \<Rightarrow> bool" where
  "pathMatchesNodeFilters path filters \<longleftrightarrow>
     list_all (\<lambda>(k, ids). list_ex (\<lambda>i. i \<in> set (path_ids path k)) ids) filters"

definition filterRowsByNodes ::
    "flow_row list \<Rightarrow> flow_filter list \<Rightarrow> flow_kind list \<Rightarrow> token_labeler \<Rightarrow> flow_row list" where
  "filterRowsByNodes rows selected stages ctx =
     (let filters = normalizeSelectedNodeFilters selected stages in
      if filters = [] then rows
      else filter (\<lambda>r. pathMatchesNodeFilters (flowPathForStages r stages ctx) filters) rows)"

definition selectedNodeFiltersExceptKind :: "flow_filter list \<Rightarrow> flow_kind \<Rightarrow> flow_filter list" where
  "selectedNodeFiltersExceptKind selected k = filter (\<lambda>f. ff_kind f \<noteq> k) selected"

definition add_metrics :: "flow_metrics \<Rightarrow> flow_metrics \<Rightarrow> flow_metrics" where
  "add_metrics a b = \<lparr>quota = num_add (quota a) (quota b), tokens = num_add (tokens a) (tokens b),
     requests = num_add (requests a) (requests b)\<rparr>"

definition no_metrics :: flow_metrics where
  "no_metrics = \<lparr>quota = Fin 0, tokens = Fin 0, requests = Fin 0\<rparr>"

definition buildSummary :: "flow_row list \<Rightarrow> flow_metrics" where
  "buildSummary rows = foldl (\<lambda>summary r. add_metrics summary (rowMetrics r)) no_metrics rows"

section \<open>The limit on the nodes of a stage\<close>

record flow_rank =
  rk_node :: path_node
  rk_value :: jsnum

definition normalizeTopNodeLimit :: "jsnum option \<Rightarrow> nat option" where
  "normalizeTopNodeLimit limit =
     (case limit of
        None \<Rightarrow> None
      | Some n \<Rightarrow> let parsed = num_floor n
          in if is_finite parsed \<and> positive parsed then Some (nat \<lfloor>val parsed\<rfloor>) else None)"

definition otherFlowNode :: "flow_kind \<Rightarrow> kind_labeler \<Rightarrow> path_node" where
  "otherFlowNode k labeler =
     \<lparr>pn_id = OTHER_FLOW_NODE_IDS k,
      pn_label = (case labeler of None \<Rightarrow> DEFAULT_OTHER_FLOW_NODE_LABELS k | Some f \<Rightarrow> f k),
      pn_kind = k\<rparr>"

definition add_rank :: "jsnum \<Rightarrow> path_node \<Rightarrow> (jsstr \<times> flow_rank) list \<Rightarrow> (jsstr \<times> flow_rank) list" where
  "add_rank v n =
     upsert (pn_id n) \<lparr>rk_node = n, rk_value = Fin 0\<rparr> (\<lambda>r. r\<lparr>rk_value := num_add (rk_value r) v\<rparr>)"

definition rank_node :: "jsnum \<Rightarrow> path_node \<Rightarrow> (flow_kind \<times> (jsstr \<times> flow_rank) list) list \<Rightarrow>
    (flow_kind \<times> (jsstr \<times> flow_rank) list) list" where
  "rank_node v n totals =
     (case map_of totals (pn_kind n) of
        None \<Rightarrow> totals
      | Some m \<Rightarrow> AList.update (pn_kind n) (add_rank v n m) totals)"

definition stage_totals :: "flow_row list \<Rightarrow> flow_metric \<Rightarrow> flow_kind list \<Rightarrow> token_labeler \<Rightarrow>
    (flow_kind \<times> (jsstr \<times> flow_rank) list) list" where
  "stage_totals rows metric stages ctx =
     fold (\<lambda>r. fold (rank_node (metricValue (rowMetrics r) metric)) (flowPathForStages r stages ctx))
       rows (map (\<lambda>s. (s, [])) stages)"

definition compare_ranks :: "(jsstr \<Rightarrow> jsstr \<Rightarrow> jsnum) \<Rightarrow> flow_rank \<Rightarrow> flow_rank \<Rightarrow> jsnum" where
  "compare_ranks lc a b =
     num_or (num_or (num_sub (rk_value b) (rk_value a)) (lc (pn_label (rk_node a)) (pn_label (rk_node b))))
       (lc (pn_id (rk_node a)) (pn_id (rk_node b)))"

type_synonym top_sets = "(flow_kind \<times> jsstr list) list"

definition buildTopNodeSets :: "(jsstr \<Rightarrow> jsstr \<Rightarrow> jsnum) \<Rightarrow> flow_row list \<Rightarrow> flow_metric \<Rightarrow>
    flow_kind list \<Rightarrow> nat option \<Rightarrow> token_labeler \<Rightarrow> top_sets option" where
  "buildTopNodeSets lc rows metric stages limit ctx =
     map_option (\<lambda>n. map (\<lambda>(k, totals).
         (k, map (\<lambda>r. pn_id (rk_node r)) (take n (array_sort (compare_ranks lc) (map snd totals)))))
       (stage_totals rows metric stages ctx)) limit"

definition isTopFlowNode :: "path_node \<Rightarrow> top_sets option \<Rightarrow> bool" where
  "isTopFlowNode n tops =
     (case Option.bind tops (\<lambda>t. map_of t (pn_kind n)) of None \<Rightarrow> True | Some ids \<Rightarrow> pn_id n \<in> set ids)"

definition applyTopNodeLimit :: "path_node list \<Rightarrow> top_sets option \<Rightarrow> overflow_mode \<Rightarrow> kind_labeler \<Rightarrow>
    path_node list option" where
  "applyTopNodeLimit path tops mode labeler =
     (if tops = None then Some path
      else if \<not> list_ex (\<lambda>n. \<not> isTopFlowNode n tops) path then Some path
      else if mode = Hide then None
      else Some (map (\<lambda>n. if isTopFlowNode n tops then n else otherFlowNode (pn_kind n) labeler) path))"

end
