(* ===== verification/FlowGraph.thy ===== *)
theory FlowGraph
  imports Flow
begin

text \<open>
  The flow chart of the dashboard (\<open>features/dashboard/lib/flow.ts\<close>), second half: the graph that is
  summed up from the paths, its colours, masking and highlighting, and the options of its filters.
  The colour schemes of the chart library are the parameter \<open>scheme\<close>, a list that is not empty,
  and \<open>Intl.NumberFormat\<close> is the parameter \<open>format_number\<close>.
\<close>

section \<open>Colours\<close>

definition DEFAULT_FLOW_CHART_COLOR :: jsstr where
  "DEFAULT_FLOW_CHART_COLOR = J ''#1664FF''"

text \<open>The library's schemes: the greatest number of colours each is meant for, where it has one, and
  its colours, \<open>None\<close> for an entry that is not a string.\<close>

type_synonym data_scheme = "(nat option \<times> jsstr option list) list"

definition getDashboardChartColors :: "data_scheme \<Rightarrow> nat \<Rightarrow> jsstr list" where
  "getDashboardChartColors scheme domainLength =
     List.map_filter id (snd (case find (\<lambda>(bound, colors). bound = None \<or> bound = Some 0 \<or>
         domainLength \<le> the bound) scheme of
       None \<Rightarrow> last scheme | Some item \<Rightarrow> item))"

definition colorAt :: "data_scheme \<Rightarrow> nat \<Rightarrow> jsstr list \<Rightarrow> jsstr" where
  "colorAt scheme index palette =
     (let colors = (if palette \<noteq> [] then palette else getDashboardChartColors scheme (index + 1))
      in if colors = [] then DEFAULT_FLOW_CHART_COLOR else colors ! (index mod length colors))"

definition colorPalette :: "data_scheme \<Rightarrow> nat \<Rightarrow> jsstr list \<Rightarrow> jsstr list" where
  "colorPalette scheme colorCount palette =
     (if palette \<noteq> [] then palette
      else let colors = getDashboardChartColors scheme colorCount in if colors \<noteq> [] then colors else [DEFAULT_FLOW_CHART_COLOR])"

definition is_hex6 :: "jsstr \<Rightarrow> bool" where
  "is_hex6 s \<longleftrightarrow> length s = 6 \<and>
     list_all (\<lambda>c. is_digit c \<or> 97 \<le> c \<and> c \<le> 102 \<or> 65 \<le> c \<and> c \<le> 70) s"

definition alphaColor :: "jsstr \<Rightarrow> jsnum \<Rightarrow> jsstr \<times> jsnum" where
  "alphaColor color alpha =
     (let normalized = trim color;
          hex = (if starts_with normalized (J ''#'') then drop 1 normalized else normalized)
      in if \<not> is_hex6 hex then (normalized, alpha)
      else let v = foldl (\<lambda>a c. 16 * a + digit_val c) 0 hex;
          channel = (\<lambda>n. to_str (Fin (of_int n)))
        in (J ''rgba('' @ channel (v div 65536 mod 256) @ J '', '' @ channel (v div 256 mod 256) @ J '', ''
            @ channel (v mod 256) @ J '', '' @ to_fixed 2 alpha @ J '')'', Fin 1))"

definition stableColorMap :: "data_scheme \<Rightarrow> jsstr list \<Rightarrow> jsstr list \<Rightarrow> (jsstr \<times> jsstr) list" where
  "stableColorMap scheme keys palette =
     (let ks = uniq keys; colors = colorPalette scheme (length ks) palette
      in map (\<lambda>(k, i). (k, colorAt scheme i colors)) (zip ks [0..<length ks]))"

section \<open>Nodes and links\<close>

record flow_node =
  fn_id :: jsstr
  fn_label :: jsstr
  fn_kind :: flow_kind
  fn_value :: jsnum
  fn_metrics :: flow_metrics
  fn_color :: jsstr
  fn_colorKey :: jsstr
  fn_highlighted :: "bool option"
  fn_dimmed :: "bool option"

record flow_link =
  fl_source :: jsstr
  fl_target :: jsstr
  fl_value :: jsnum
  fl_metrics :: flow_metrics
  fl_sourceLabel :: jsstr
  fl_targetLabel :: jsstr
  fl_color :: jsstr
  fl_linkColor :: jsstr
  fl_linkAlpha :: jsnum
  fl_hoverColor :: jsstr
  fl_colorKey :: jsstr
  fl_share :: jsnum
  fl_highlighted :: "bool option"
  fl_dimmed :: "bool option"

record flow_graph =
  fg_nodes :: "flow_node list"
  fg_links :: "flow_link list"

type_synonym node_map = "(jsstr \<times> flow_node) list"
type_synonym link_map = "(jsstr \<times> flow_link) list"

definition new_node :: "path_node \<Rightarrow> jsstr \<Rightarrow> jsstr \<Rightarrow> flow_node" where
  "new_node n color colorKey =
     \<lparr>fn_id = pn_id n, fn_label = pn_label n, fn_kind = pn_kind n, fn_value = Fin 0, fn_metrics = no_metrics,
       fn_color = color, fn_colorKey = colorKey, fn_highlighted = None, fn_dimmed = None\<rparr>"

definition grow_node :: "flow_metrics \<Rightarrow> flow_metric \<Rightarrow> flow_node \<Rightarrow> flow_node" where
  "grow_node metrics metric previous =
     previous\<lparr>fn_value := num_add (fn_value previous) (metricValue metrics metric),
       fn_metrics := add_metrics (fn_metrics previous) metrics\<rparr>"

definition addNode :: "path_node \<Rightarrow> flow_metrics \<Rightarrow> flow_metric \<Rightarrow> jsstr \<Rightarrow> jsstr \<Rightarrow> node_map \<Rightarrow> node_map" where
  "addNode n metrics metric color colorKey =
     upsert (pn_id n) (new_node n color colorKey) (grow_node metrics metric)"

definition link_key :: "jsstr \<Rightarrow> jsstr \<Rightarrow> jsstr" where
  "link_key source target = source @ [0] @ target"

definition new_link :: "path_node \<Rightarrow> path_node \<Rightarrow> jsstr \<Rightarrow> jsstr \<Rightarrow> flow_link" where
  "new_link source target color colorKey =
     \<lparr>fl_source = pn_id source, fl_target = pn_id target, fl_value = Fin 0, fl_metrics = no_metrics,
       fl_sourceLabel = pn_label source, fl_targetLabel = pn_label target, fl_color = color,
       fl_linkColor = color, fl_linkAlpha = Fin 1, fl_hoverColor = color, fl_colorKey = colorKey,
       fl_share = Fin 0, fl_highlighted = None, fl_dimmed = None\<rparr>"

definition grow_link :: "flow_metrics \<Rightarrow> flow_metric \<Rightarrow> flow_link \<Rightarrow> flow_link" where
  "grow_link metrics metric previous =
     previous\<lparr>fl_value := num_add (fl_value previous) (metricValue metrics metric),
       fl_metrics := add_metrics (fl_metrics previous) metrics\<rparr>"

definition addLink :: "path_node \<Rightarrow> path_node \<Rightarrow> flow_metrics \<Rightarrow> flow_metric \<Rightarrow> jsstr \<Rightarrow> jsstr \<Rightarrow>
    link_map \<Rightarrow> link_map" where
  "addLink source target metrics metric color colorKey =
     upsert (link_key (pn_id source) (pn_id target)) (new_link source target color colorKey)
       (grow_link metrics metric)"

definition linkStableKey :: "flow_link \<Rightarrow> jsstr" where
  "linkStableKey l = link_key (fl_source l) (fl_target l)"

text \<open>The colour of a link depends on its place among the links of its source, the greatest first.\<close>

definition compare_links :: "(jsstr \<Rightarrow> jsstr \<Rightarrow> jsnum) \<Rightarrow> flow_link \<Rightarrow> flow_link \<Rightarrow> jsnum" where
  "compare_links lc a b =
     num_or (num_sub (fl_value b) (fl_value a)) (lc (linkStableKey a) (linkStableKey b))"

definition index_of_key :: "jsstr \<Rightarrow> flow_link list \<Rightarrow> nat" where
  "index_of_key k ls = length (takeWhile (\<lambda>l. linkStableKey l \<noteq> k) ls)"

definition link_alpha :: "nat \<Rightarrow> nat \<Rightarrow> jsnum" where
  "link_alpha n index =
     (if n = 1 then num (34 / 100)
      else num_add (num (24 / 100))
        (num_mul (num_div (Fin (of_nat index)) (Fin (of_nat (max (n - 1) 1)))) (num (2 / 10))))"

definition assignLinkDisplayColors :: "(jsstr \<Rightarrow> jsstr \<Rightarrow> jsnum) \<Rightarrow> flow_link list \<Rightarrow> flow_link list" where
  "assignLinkDisplayColors lc ls =
     map (\<lambda>l. let group = array_sort (compare_links lc) (filter (\<lambda>x. fl_source x = fl_source l) ls);
          display = alphaColor (fl_color l) (link_alpha (length group) (index_of_key (linkStableKey l) group))
        in l\<lparr>fl_linkColor := fst display, fl_linkAlpha := snd display, fl_hoverColor := fl_color l\<rparr>) ls"

section \<open>Highlighting and masking\<close>

record prepared_path =
  pp_path :: "path_node list"
  pp_metrics :: flow_metrics

definition pathContainsFlowNode :: "path_node list \<Rightarrow> flow_filter \<Rightarrow> bool" where
  "pathContainsFlowNode path f \<longleftrightarrow> list_ex (\<lambda>n. pn_kind n = ff_kind f \<and> pn_id n = ff_id f) path"

text \<open>The steps of a path, each with its successor.\<close>

definition steps :: "path_node list \<Rightarrow> (path_node \<times> path_node) list" where
  "steps path = zip path (tl path)"

definition pathContainsFlowLink :: "path_node list \<Rightarrow> flow_selection \<Rightarrow> bool" where
  "pathContainsFlowLink path l \<longleftrightarrow>
     list_ex (\<lambda>(s, t). pn_id s = sel_source l \<and> pn_id t = sel_target l) (steps path)"

definition path_matches :: "flow_filter option \<Rightarrow> flow_selection option \<Rightarrow> path_node list \<Rightarrow> bool" where
  "path_matches activeNode activeLink path =
     (case activeLink of
        Some l \<Rightarrow> pathContainsFlowLink path l
      | None \<Rightarrow> (case activeNode of None \<Rightarrow> False | Some f \<Rightarrow> pathContainsFlowNode path f))"

definition buildFlowHighlightSets :: "prepared_path list \<Rightarrow> flow_filter option \<Rightarrow> flow_selection option \<Rightarrow>
    flow_kind list \<Rightarrow> (jsstr list \<times> jsstr list) option" where
  "buildFlowHighlightSets prepared activeNode activeLink stages =
     (let nodeActive = (case activeNode of None \<Rightarrow> False | Some f \<Rightarrow> ff_kind f \<in> set stages);
          paths = filter (path_matches activeNode activeLink) (map pp_path prepared);
          nodes = uniq (concat (map (map pn_id) paths));
          links = uniq (concat (map (\<lambda>p. map (\<lambda>(s, t). link_key (pn_id s) (pn_id t)) (steps p)) paths))
      in if \<not> nodeActive \<and> activeLink = None then None
         else if nodes = [] then None else Some (nodes, links))"

definition FLOW_MASK_TEXT :: jsstr where
  "FLOW_MASK_TEXT = [8226, 8226, 8226, 8226]"

definition maskFlowLabel :: "jsstr \<Rightarrow> jsstr" where
  "maskFlowLabel label = (if label = [] then label else FLOW_MASK_TEXT)"

definition masked_node :: "flow_node \<Rightarrow> bool" where
  "masked_node n \<longleftrightarrow> fn_kind n \<in> set SENSITIVE_FLOW_KINDS \<and> fn_id n \<notin> set OTHER_FLOW_NODE_ID_SET"

definition mask_node :: "flow_node \<Rightarrow> flow_node" where
  "mask_node n = (if masked_node n then n\<lparr>fn_label := maskFlowLabel (fn_label n)\<rparr> else n)"

definition masked_labels :: "flow_node list \<Rightarrow> (jsstr \<times> jsstr) list" where
  "masked_labels nodes =
     fold (\<lambda>n. AList.update (fn_id n) (maskFlowLabel (fn_label n))) (filter masked_node nodes) []"

definition mask_link :: "(jsstr \<times> jsstr) list \<Rightarrow> flow_link \<Rightarrow> flow_link" where
  "mask_link masked l =
     l\<lparr>fl_sourceLabel := (case map_of masked (fl_source l) of None \<Rightarrow> fl_sourceLabel l | Some x \<Rightarrow> x),
       fl_targetLabel := (case map_of masked (fl_target l) of None \<Rightarrow> fl_targetLabel l | Some x \<Rightarrow> x)\<rparr>"

definition maskFlowGraphLabels :: "node_map \<Rightarrow> link_map \<Rightarrow> node_map \<times> link_map" where
  "maskFlowGraphLabels nodes links =
     (let masked = masked_labels (map snd nodes)
      in (map (\<lambda>(k, n). (k, mask_node n)) nodes,
          if masked = [] then links else map (\<lambda>(k, l). (k, mask_link masked l)) links))"

definition applyFlowHighlights :: "(jsstr list \<times> jsstr list) option \<Rightarrow> flow_node list \<Rightarrow> flow_link list \<Rightarrow>
    flow_node list \<times> flow_link list" where
  "applyFlowHighlights sets nodes links =
     (case sets of
        None \<Rightarrow> (nodes, links)
      | Some (ns, ls) \<Rightarrow>
          (map (\<lambda>n. n\<lparr>fn_highlighted := Some (fn_id n \<in> set ns), fn_dimmed := Some (fn_id n \<notin> set ns)\<rparr>) nodes,
           map (\<lambda>l. l\<lparr>fl_highlighted := Some (linkStableKey l \<in> set ls),
                     fl_dimmed := Some (linkStableKey l \<notin> set ls)\<rparr>) links))"

section \<open>The graph\<close>

record graph_options =
  go_topNodeLimit :: "jsnum option"
  go_overflowMode :: "overflow_mode option"
  go_otherNodeLabel :: kind_labeler
  go_activeNode :: "flow_filter option"
  go_activeLink :: "flow_selection option"
  go_maskSensitive :: bool

definition prepare_paths :: "flow_row list \<Rightarrow> flow_kind list \<Rightarrow> token_labeler \<Rightarrow> top_sets option \<Rightarrow>
    overflow_mode \<Rightarrow> kind_labeler \<Rightarrow> prepared_path list" where
  "prepare_paths rows stages ctx tops mode labeler =
     List.map_filter (\<lambda>r. map_option (\<lambda>p. \<lparr>pp_path = p, pp_metrics = rowMetrics r\<rparr>)
       (applyTopNodeLimit (flowPathForStages r stages ctx) tops mode labeler)) rows"

definition path_color :: "data_scheme \<Rightarrow> (jsstr \<times> jsstr) list \<Rightarrow> jsstr list \<Rightarrow> path_node \<Rightarrow> jsstr" where
  "path_color scheme colors palette n =
     (case map_of colors (pn_id n) of None \<Rightarrow> colorAt scheme 0 palette | Some c \<Rightarrow> c)"

definition add_path :: "(path_node \<Rightarrow> jsstr) \<Rightarrow> flow_metric \<Rightarrow> prepared_path \<Rightarrow> node_map \<times> link_map \<Rightarrow>
    node_map \<times> link_map" where
  "add_path color metric p = (\<lambda>(nodes, links).
     case pp_path p of
       [] \<Rightarrow> (nodes, links)
     | n0 # _ \<Rightarrow>
         (fold (\<lambda>n. addNode n (pp_metrics p) metric (color n0) (pn_id n0)) (pp_path p) nodes,
          fold (\<lambda>(s, t). addLink s t (pp_metrics p) metric (color n0) (pn_id n0)) (steps (pp_path p)) links))"

definition root_ids :: "prepared_path list \<Rightarrow> jsstr list" where
  "root_ids prepared =
     filter (\<lambda>i. i \<noteq> []) (concat (map (\<lambda>p. case pp_path p of [] \<Rightarrow> [] | n # _ \<Rightarrow> [pn_id n]) prepared))"

definition byValueThenLabel :: "(jsstr \<Rightarrow> jsstr \<Rightarrow> jsnum) \<Rightarrow> flow_node \<Rightarrow> flow_node \<Rightarrow> jsnum" where
  "byValueThenLabel lc a b = num_or (num_sub (fn_value b) (fn_value a)) (lc (fn_label a) (fn_label b))"

definition compare_ends :: "(jsstr \<Rightarrow> jsstr \<Rightarrow> jsnum) \<Rightarrow> flow_link \<Rightarrow> flow_link \<Rightarrow> jsnum" where
  "compare_ends lc a b = num_or (lc (fl_source a) (fl_source b)) (lc (fl_target a) (fl_target b))"

definition with_shares :: "jsstr list \<Rightarrow> flow_link list \<Rightarrow> flow_link list" where
  "with_shares firstStepSources ls =
     (let total = foldl (\<lambda>sum l. num_add sum (fl_value l)) (Fin 0)
            (filter (\<lambda>l. fl_source l \<in> set firstStepSources) ls)
      in map (\<lambda>l. l\<lparr>fl_share := (if positive total then num_div (fl_value l) total else Fin 0)\<rparr>) ls)"

definition graph_of :: "(jsstr \<Rightarrow> jsstr \<Rightarrow> jsnum) \<Rightarrow> data_scheme \<Rightarrow> prepared_path list \<Rightarrow> flow_metric \<Rightarrow>
    jsstr list \<Rightarrow> flow_kind list \<Rightarrow> graph_options \<Rightarrow> flow_graph" where
  "graph_of lc scheme prepared metric palette stages options =
     (let colors = stableColorMap scheme (array_sort lc (root_ids prepared)) palette;
        built = fold (add_path (path_color scheme colors palette) metric) prepared ([], []);
        masked = (if go_maskSensitive options then maskFlowGraphLabels (fst built) (snd built) else built);
        marked = applyFlowHighlights
          (buildFlowHighlightSets prepared (go_activeNode options) (go_activeLink options) stages)
          (map snd (fst masked)) (map snd (snd masked));
        flowLinks = array_sort (compare_ends lc) (snd marked)
      in \<lparr>fg_nodes = array_sort (byValueThenLabel lc) (fst marked),
          fg_links = assignLinkDisplayColors lc (with_shares (root_ids prepared) flowLinks)\<rparr>)"

definition buildFlowGraph :: "(jsstr \<Rightarrow> jsstr \<Rightarrow> jsnum) \<Rightarrow> data_scheme \<Rightarrow> flow_row list \<Rightarrow> flow_metric \<Rightarrow>
    flow_role \<Rightarrow> jsstr list \<Rightarrow> flow_kind list option \<Rightarrow> token_labeler \<Rightarrow> graph_options \<Rightarrow> flow_graph" where
  "buildFlowGraph lc scheme rows metric role palette visibleStages ctx options =
     (let stages = resolveVisibleStages role visibleStages;
        tops = buildTopNodeSets lc rows metric stages (normalizeTopNodeLimit (go_topNodeLimit options)) ctx;
        mode = (case go_overflowMode options of None \<Rightarrow> Aggregate | Some m \<Rightarrow> m);
        prepared = prepare_paths rows stages ctx tops mode (go_otherNodeLabel options)
      in graph_of lc scheme prepared metric palette stages options)"

section \<open>Filter options\<close>

record filter_option =
  fo_kind :: "flow_kind option"
  fo_value :: jsstr
  fo_label :: jsstr
  fo_valueLabel :: jsstr
  fo_valueRaw :: jsnum
  fo_color :: jsstr

record user_total =
  ut_label :: jsstr
  ut_value :: jsnum
  ut_color :: jsstr

definition known_user :: "flow_row \<Rightarrow> bool" where
  "known_user r \<longleftrightarrow>
     (case user_id r of None \<Rightarrow> False | Some n \<Rightarrow> num_truthy n) \<or> str_or (username r) [] \<noteq> []"

definition add_user :: "(path_node \<Rightarrow> jsstr) \<Rightarrow> flow_metric \<Rightarrow> flow_row \<Rightarrow> (jsstr \<times> user_total) list \<Rightarrow>
    (jsstr \<times> user_total) list" where
  "add_user color metric r m =
     (if \<not> known_user r then m
      else let u = userNode r in
        upsert (pn_id u) \<lparr>ut_label = pn_label u, ut_value = Fin 0, ut_color = color u\<rparr>
          (\<lambda>x. x\<lparr>ut_value := num_add (ut_value x) (metricValue (rowMetrics r) metric)\<rparr>) m)"

definition compare_user_options :: "(jsstr \<Rightarrow> jsstr \<Rightarrow> jsnum) \<Rightarrow> filter_option \<Rightarrow> filter_option \<Rightarrow> jsnum" where
  "compare_user_options lc a b =
     num_or (num_sub (fo_valueRaw b) (fo_valueRaw a)) (lc (fo_label a) (fo_label b))"

definition buildUserFilterOptions :: "(jsstr \<Rightarrow> jsstr \<Rightarrow> jsnum) \<Rightarrow> data_scheme \<Rightarrow> (jsnum \<Rightarrow> jsstr) \<Rightarrow>
    flow_row list \<Rightarrow> flow_metric \<Rightarrow> jsstr list \<Rightarrow> filter_option list" where
  "buildUserFilterOptions lc scheme format_number rows metric palette =
     (let colors = stableColorMap scheme (array_sort lc (map (\<lambda>r. pn_id (userNode r)) rows)) palette;
        users = fold (add_user (path_color scheme colors palette) metric) rows []
      in array_sort (compare_user_options lc)
        (map (\<lambda>(k, u). \<lparr>fo_kind = None, fo_value = k, fo_label = ut_label u,
            fo_valueLabel = format_number (ut_value u), fo_valueRaw = ut_value u, fo_color = ut_color u\<rparr>) users))"

definition stage_options :: "(path_node \<Rightarrow> jsstr) \<Rightarrow> (jsnum \<Rightarrow> jsstr) \<Rightarrow> flow_row list \<Rightarrow> flow_metric \<Rightarrow>
    token_labeler \<Rightarrow> flow_kind \<Rightarrow> filter_option list" where
  "stage_options color format_number rows metric ctx stage =
     map (\<lambda>(k, r). \<lparr>fo_kind = Some (pn_kind (rk_node r)), fo_value = pn_id (rk_node r),
         fo_label = pn_label (rk_node r), fo_valueLabel = format_number (rk_value r),
         fo_valueRaw = rk_value r, fo_color = color (rk_node r)\<rparr>)
       (fold (\<lambda>r. add_rank (metricValue (rowMetrics r) metric) (NODE_BUILDERS stage ctx r)) rows [])"

definition stage_index :: "flow_kind list \<Rightarrow> flow_kind option \<Rightarrow> jsnum" where
  "stage_index stages k =
     Fin (of_nat (case k of None \<Rightarrow> 0 | Some s \<Rightarrow> length (takeWhile (\<lambda>x. x \<noteq> s) stages)))"

definition compare_node_options :: "(jsstr \<Rightarrow> jsstr \<Rightarrow> jsnum) \<Rightarrow> flow_kind list \<Rightarrow> filter_option \<Rightarrow>
    filter_option \<Rightarrow> jsnum" where
  "compare_node_options lc stages a b =
     num_or (num_or (num_or (num_sub (stage_index stages (fo_kind a)) (stage_index stages (fo_kind b)))
       (num_sub (fo_valueRaw b) (fo_valueRaw a))) (lc (fo_label a) (fo_label b))) (lc (fo_value a) (fo_value b))"

definition buildNodeFilterOptions :: "(jsstr \<Rightarrow> jsstr \<Rightarrow> jsnum) \<Rightarrow> data_scheme \<Rightarrow> (jsnum \<Rightarrow> jsstr) \<Rightarrow>
    flow_row list \<Rightarrow> flow_metric \<Rightarrow> flow_role \<Rightarrow> flow_kind list option \<Rightarrow> jsstr list \<Rightarrow> token_labeler \<Rightarrow>
    flow_filter list \<Rightarrow> filter_option list" where
  "buildNodeFilterOptions lc scheme format_number rows metric role visibleStages palette ctx selected =
     (let stages = resolveVisibleStages role visibleStages;
        ids = uniq (concat (map (\<lambda>r. map pn_id (flowPathForStages r stages ctx)) rows));
        colors = stableColorMap scheme (array_sort lc ids) palette
      in array_sort (compare_node_options lc stages)
        (concat (map (\<lambda>stage. stage_options (path_color scheme colors palette) format_number
            (filterRowsByNodes rows (selectedNodeFiltersExceptKind selected stage) stages ctx) metric ctx stage)
          stages)))"

definition buildFlowFilterOptions :: "(jsstr \<Rightarrow> jsstr \<Rightarrow> jsnum) \<Rightarrow> data_scheme \<Rightarrow> (jsnum \<Rightarrow> jsstr) \<Rightarrow>
    flow_row list \<Rightarrow> flow_metric \<Rightarrow> jsstr list \<Rightarrow> flow_role \<Rightarrow> flow_kind list option \<Rightarrow> flow_filter list \<Rightarrow>
    filter_option list \<times> filter_option list" where
  "buildFlowFilterOptions lc scheme format_number rows metric palette role visibleStages selected =
     (buildUserFilterOptions lc scheme format_number rows metric palette,
      buildNodeFilterOptions lc scheme format_number rows metric role visibleStages palette None selected)"

section \<open>The chart\<close>

record flow_options =
  op_role :: "flow_role option"
  op_selectedUsers :: "jsstr list"
  op_selectedNodes :: "flow_filter list"
  op_palette :: "jsstr list"
  op_visibleStages :: "flow_kind list option"
  op_tokenLabel :: token_labeler
  op_graph :: graph_options

record flow_data =
  fd_summary :: flow_metrics
  fd_flow :: flow_graph
  fd_users :: "filter_option list"
  fd_nodes :: "filter_option list"

definition flow_stages :: "flow_options \<Rightarrow> flow_kind list" where
  "flow_stages options =
     resolveVisibleStages (case op_role options of None \<Rightarrow> RoleUser | Some r \<Rightarrow> r) (op_visibleStages options)"

definition filtered_rows :: "flow_row list \<Rightarrow> flow_options \<Rightarrow> flow_row list" where
  "filtered_rows rows options =
     filterRowsByNodes (filterRows rows (op_selectedUsers options)) (op_selectedNodes options)
       (flow_stages options) (op_tokenLabel options)"

definition buildDashboardFlowData :: "(jsstr \<Rightarrow> jsstr \<Rightarrow> jsnum) \<Rightarrow> data_scheme \<Rightarrow> (jsnum \<Rightarrow> jsstr) \<Rightarrow>
    flow_row list \<Rightarrow> flow_metric \<Rightarrow> flow_options \<Rightarrow> flow_data" where
  "buildDashboardFlowData lc scheme format_number rows metric options =
     (let role = (case op_role options of None \<Rightarrow> RoleUser | Some r \<Rightarrow> r)
      in \<lparr>fd_summary = buildSummary (filtered_rows rows options),
          fd_flow = buildFlowGraph lc scheme (filtered_rows rows options) metric role (op_palette options)
            (op_visibleStages options) (op_tokenLabel options) (op_graph options),
          fd_users = buildUserFilterOptions lc scheme format_number rows metric (op_palette options),
          fd_nodes = buildNodeFilterOptions lc scheme format_number (filterRows rows (op_selectedUsers options))
            metric role (op_visibleStages options) (op_palette options) (op_tokenLabel options)
            (op_selectedNodes options)\<rparr>)"

section \<open>The links as they are drawn\<close>

text \<open>\<open>Number(flag)\<close> of a flag that may be missing; the links that carry something, dimmed ones
  first, and the layer each is drawn on.\<close>

definition flag_number :: "bool option \<Rightarrow> jsnum" where
  "flag_number f = (case f of None \<Rightarrow> NaN | Some b \<Rightarrow> Fin (if b then 1 else 0))"

definition byLinkDrawPriority :: "(jsstr \<Rightarrow> jsstr \<Rightarrow> jsnum) \<Rightarrow> flow_link \<Rightarrow> flow_link \<Rightarrow> jsnum" where
  "byLinkDrawPriority lc a b =
     num_or (num_or (num_or (num_sub (flag_number (fl_dimmed a)) (flag_number (fl_dimmed b)))
       (num_sub (flag_number (fl_highlighted b)) (flag_number (fl_highlighted a))))
       (num_sub (fl_value b) (fl_value a))) (lc (linkStableKey a) (linkStableKey b))"

definition link_layer :: "nat \<Rightarrow> flow_link \<Rightarrow> nat" where
  "link_layer index l =
     (if fl_highlighted l = Some True then 1000000 + index
      else if fl_dimmed l = Some True then index else 100000 + index)"

definition drawn_links :: "(jsstr \<Rightarrow> jsstr \<Rightarrow> jsnum) \<Rightarrow> flow_graph \<Rightarrow> (flow_link \<times> nat) list" where
  "drawn_links lc g =
     (let ls = array_sort (byLinkDrawPriority lc) (filter (\<lambda>l. positive (fl_value l)) (fg_links g))
      in map (\<lambda>(l, i). (l, link_layer i l)) (zip ls [0..<length ls]))"

section \<open>What the page shows\<close>

text \<open>\<open>features/dashboard/lib/flow-selection.ts\<close>; a failed answer is an error with its message.\<close>

datatype display_state = Loading | Failed | Empty | Chart

record flow_response =
  fr_success :: bool
  fr_data :: "flow_row list option"
  fr_message :: "jsstr option"

definition requireSuccessfulFlowRows :: "flow_response \<Rightarrow> jsstr \<Rightarrow> jsstr + flow_row list" where
  "requireSuccessfulFlowRows response fallback =
     (if \<not> fr_success response then Inl (str_or (fr_message response) fallback)
      else Inr (case fr_data response of None \<Rightarrow> [] | Some rows \<Rightarrow> rows))"

definition flowDisplayState :: "bool \<Rightarrow> bool \<Rightarrow> nat \<Rightarrow> bool \<Rightarrow> display_state" where
  "flowDisplayState isLoading isError linkCount themeReady =
     (if isLoading then Loading else if isError then Failed else if linkCount = 0 then Empty
      else if \<not> themeReady then Loading else Chart)"

definition compactFlowSelectionLabel :: "nat \<Rightarrow> jsstr" where
  "compactFlowSelectionLabel n = (if 0 < n then to_str (Fin (of_nat n)) else J ''*'')"

definition visibleFlowUsers :: "filter_option list \<Rightarrow> jsstr list \<Rightarrow> filter_option list" where
  "visibleFlowUsers users selectedUsers =
     (if selectedUsers = [] then users else filter (\<lambda>u. fo_value u \<in> set selectedUsers) users)"

end
