(* ===== verification/FlowPaths.thy ===== *)
theory FlowPaths
  imports FlowGraph
begin

text \<open>
  The paths of the flow chart: one node for each visible stage, whose id names the stage. The graph
  is two tallies over the paths, one of their nodes and one of their steps.
\<close>

section \<open>Paths through the stages\<close>

definition has_kind :: "flow_kind \<Rightarrow> jsstr \<Rightarrow> bool" where
  "has_kind k i \<longleftrightarrow> starts_with i (kind_text k @ [58])"

definition staged :: "flow_kind list \<Rightarrow> path_node list \<Rightarrow> bool" where
  "staged stages path \<longleftrightarrow>
     map pn_kind path = stages \<and> list_all (\<lambda>n. has_kind (pn_kind n) (pn_id n)) path"

lemma has_kind_unique: "has_kind k i \<Longrightarrow> has_kind k' i \<Longrightarrow> k = k'"
  by (cases k; cases k') (auto simp: has_kind_def kind_text_def starts_with_iff)

lemma builder_kind [simp]: "pn_kind (NODE_BUILDERS k ctx r) = k"
  by (cases k) (simp_all add: NODE_BUILDERS_def userNode_def nodeNameNode_def tokenNode_def
      groupNode_def modelNode_def channelNode_def Let_def)

lemma builder_id: "has_kind k (pn_id (NODE_BUILDERS k ctx r))"
  by (cases k) (simp_all add: NODE_BUILDERS_def userNode_def nodeNameNode_def tokenNode_def
      groupNode_def modelNode_def channelNode_def Let_def has_kind_def kind_text_def starts_with_def)

lemma other_id: "has_kind k (OTHER_FLOW_NODE_IDS k)"
  by (cases k) (simp_all add: OTHER_FLOW_NODE_IDS_def has_kind_def kind_text_def starts_with_def)

lemma staged_path: "staged stages (flowPathForStages r stages ctx)"
  by (simp add: staged_def flowPathForStages_def builder_id list_all_iff comp_def)

lemma staged_limited:
  "staged stages path \<Longrightarrow> applyTopNodeLimit path tops mode labeler = Some q \<Longrightarrow> staged stages q"
  by (auto simp: applyTopNodeLimit_def staged_def list_all_iff otherFlowNode_def other_id
      split: if_splits)

lemma distinct_stages: "distinct (resolveVisibleStages role vs)"
  by (cases role) (auto simp: resolveVisibleStages_def getFlowStages_def Let_def split: option.splits)

lemma two_stages: "2 \<le> length (resolveVisibleStages role vs)"
  by (cases role) (auto simp: resolveVisibleStages_def getFlowStages_def Let_def split: option.splits)

lemma staged_distinct:
  assumes "staged stages path" "distinct stages"
  shows "distinct (map pn_id path)"
proof -
  have "distinct (map pn_kind path)" using assms by (simp add: staged_def)
  then have "distinct path" "inj_on pn_kind (set path)" by (simp_all add: distinct_map)
  moreover have "inj_on pn_id (set path)"
  proof (rule inj_onI)
    fix m n
    assume mn: "m \<in> set path" "n \<in> set path" "pn_id m = pn_id n"
    with assms(1) have "has_kind (pn_kind m) (pn_id m)" "has_kind (pn_kind n) (pn_id m)"
      by (auto simp: staged_def list_all_iff)
    then have "pn_kind m = pn_kind n" by (rule has_kind_unique)
    with mn \<open>inj_on pn_kind (set path)\<close> show "m = n" by (auto dest: inj_onD)
  qed
  ultimately show ?thesis by (simp add: distinct_map)
qed

lemma sum_once: "distinct xs \<Longrightarrow> (\<Sum>x\<leftarrow>xs. if x = i then a else 0) = (if i \<in> set xs then a else (0::nat))"
  by (induction xs) auto

lemma staged_once:
  assumes "staged stages path" "distinct stages" "s \<in> set stages"
  shows "(\<Sum>n\<leftarrow>path. if has_kind s (pn_id n) then a else 0) = (a::nat)"
proof -
  have "(\<Sum>n\<leftarrow>path. if has_kind s (pn_id n) then a else 0) = (\<Sum>n\<leftarrow>path. if pn_kind n = s then a else 0)"
    using assms(1) by (intro arg_cong [where f = sum_list] map_cong)
      (auto simp: staged_def list_all_iff dest: has_kind_unique)
  also have "\<dots> = (\<Sum>k\<leftarrow>map pn_kind path. if k = s then a else 0)" by (simp add: comp_def)
  also have "\<dots> = a" using assms by (simp add: staged_def sum_once)
  finally show ?thesis .
qed

definition prepared_ok :: "flow_kind list \<Rightarrow> prepared_path list \<Rightarrow> bool" where
  "prepared_ok stages prepared \<longleftrightarrow> list_all (\<lambda>p. staged stages (pp_path p)) prepared"

lemma prepared_paths_ok: "prepared_ok stages (prepare_paths rows stages ctx tops mode labeler)"
  by (auto simp: prepared_ok_def prepare_paths_def List.map_filter_def list_all_iff
      intro: staged_limited [OF staged_path])

section \<open>The two tallies\<close>

definition node_events :: "prepared_path list \<Rightarrow> (prepared_path \<times> path_node) list" where
  "node_events prepared = concat (map (\<lambda>p. map (Pair p) (pp_path p)) prepared)"

definition link_events :: "prepared_path list \<Rightarrow> (prepared_path \<times> path_node \<times> path_node) list" where
  "link_events prepared = concat (map (\<lambda>p. map (Pair p) (steps (pp_path p))) prepared)"

definition path_amount :: "flow_metric \<Rightarrow> prepared_path \<Rightarrow> jsnum" where
  "path_amount metric p = metricValue (pp_metrics p) metric"

interpretation node_tally: tally "\<lambda>(p, n). pn_id n"
    "\<lambda>(p, n). new_node n (color (hd (pp_path p))) (pn_id (hd (pp_path p)))"
    "\<lambda>(p, n). grow_node (pp_metrics p) metric" "\<lambda>(p, n). path_amount metric p" fn_value
  for color metric
  by unfold_locales (auto simp: new_node_def grow_node_def path_amount_def)

interpretation link_tally: tally "\<lambda>(p, s, t). link_key (pn_id s) (pn_id t)"
    "\<lambda>(p, s, t). new_link s t (color (hd (pp_path p))) (pn_id (hd (pp_path p)))"
    "\<lambda>(p, s, t). grow_link (pp_metrics p) metric" "\<lambda>(p, s, t). path_amount metric p" fl_value
  for color metric
  by unfold_locales (auto simp: new_link_def grow_link_def path_amount_def)

abbreviation "tallied_nodes color metric prepared \<equiv> node_tally.run color metric (node_events prepared) []"
abbreviation "tallied_links color metric prepared \<equiv> link_tally.run color metric (link_events prepared) []"

lemma add_path_two:
  "add_path color metric p = map_prod
     (fold (\<lambda>n. addNode n (pp_metrics p) metric (color (hd (pp_path p))) (pn_id (hd (pp_path p)))) (pp_path p))
     (fold (\<lambda>(s, t). addLink s t (pp_metrics p) metric (color (hd (pp_path p))) (pn_id (hd (pp_path p))))
       (steps (pp_path p)))"
  by (cases "pp_path p") (auto simp: add_path_def steps_def fun_eq_iff)

lemma built_graph:
  "fold (add_path color metric) prepared ([], []) =
     (tallied_nodes color metric prepared, tallied_links color metric prepared)"
unfolding node_tally.run_def link_tally.run_def node_events_def link_events_def
    fold_nested [symmetric]
  by (simp add: add_path_two [abs_def] fold_two fold_nested addNode_def addLink_def case_prod_unfold)

end
