(* ===== verification/FlowProperties.thy ===== *)
theory FlowProperties
  imports FlowPaths
begin

text \<open>
  What the flow chart promises: usage is conserved at every node, every column adds up to the
  summary, the limit bounds every column, links join nodes of the chart, and masked charts show no
  name of a sensitive node.
\<close>

section \<open>What masking, highlighting and sorting leave alone\<close>

definition node_view :: "flow_node \<Rightarrow> jsstr \<times> flow_kind \<times> jsnum" where
  "node_view n = (fn_id n, fn_kind n, fn_value n)"

definition link_view :: "flow_link \<Rightarrow> jsstr \<times> jsstr \<times> jsnum" where
  "link_view l = (fl_source l, fl_target l, fl_value l)"

lemma view_masked_nodes [simp]:
  "map node_view (map snd (fst (maskFlowGraphLabels ns ls))) = map node_view (map snd ns)"
  by (auto simp: maskFlowGraphLabels_def Let_def mask_node_def node_view_def)

lemma view_masked_links [simp]:
  "map link_view (map snd (snd (maskFlowGraphLabels ns ls))) = map link_view (map snd ls)"
  by (auto simp: maskFlowGraphLabels_def Let_def mask_link_def link_view_def)

lemma view_highlighted_nodes [simp]:
  "map node_view (fst (applyFlowHighlights sets ns ls)) = map node_view ns"
  by (auto simp: applyFlowHighlights_def node_view_def split: option.split)

lemma view_highlighted_links [simp]:
  "map link_view (snd (applyFlowHighlights sets ns ls)) = map link_view ls"
  by (auto simp: applyFlowHighlights_def link_view_def split: option.split)

lemma view_coloured [simp]: "map link_view (assignLinkDisplayColors lc ls) = map link_view ls"
  by (auto simp: assignLinkDisplayColors_def link_view_def Let_def)

lemma view_shares [simp]: "map link_view (with_shares srcs ls) = map link_view ls"
  by (auto simp: with_shares_def link_view_def Let_def)

lemma mset_map_sort: "mset (map f (array_sort cmp xs)) = mset (map f xs)"
  by (simp only: mset_map mset_array_sort)

definition path_colors :: "(jsstr \<Rightarrow> jsstr \<Rightarrow> jsnum) \<Rightarrow> data_scheme \<Rightarrow> prepared_path list \<Rightarrow>
    jsstr list \<Rightarrow> path_node \<Rightarrow> jsstr" where
  "path_colors lc scheme prepared palette =
     path_color scheme (stableColorMap scheme (array_sort lc (root_ids prepared)) palette) palette"

lemma graph_nodes:
  "mset (map node_view (fg_nodes (graph_of lc scheme prepared metric palette stages options))) =
     mset (map node_view (map snd (tallied_nodes (path_colors lc scheme prepared palette) metric prepared)))"
  unfolding graph_of_def Let_def built_graph path_colors_def [symmetric]
  by (cases "go_maskSensitive options")
    (simp_all only: flow_graph.simps mset_map_sort view_highlighted_nodes view_masked_nodes if_True
      if_False fst_conv snd_conv)

lemma graph_links:
  "mset (map link_view (fg_links (graph_of lc scheme prepared metric palette stages options))) =
     mset (map link_view (map snd (tallied_links (path_colors lc scheme prepared palette) metric prepared)))"
  unfolding graph_of_def Let_def built_graph path_colors_def [symmetric]
  by (cases "go_maskSensitive options")
    (simp_all only: flow_graph.simps mset_map_sort view_coloured view_shares view_highlighted_links
      view_masked_links if_True if_False fst_conv snd_conv)

lemma sum_mset_cong:
  fixes f g :: "'a \<Rightarrow> rat"
  assumes "mset (map v xs) = mset (map v ys)"
  shows "(\<Sum>x\<leftarrow>xs. f (v x)) = (\<Sum>x\<leftarrow>ys. f (v x))"
proof -
  have "sum_mset (image_mset f (mset (map v xs))) = sum_mset (image_mset f (mset (map v ys)))"
    using assms by simp
  then show ?thesis by (simp only: mset_map [symmetric] sum_mset_sum_list map_map comp_def)
qed

section \<open>What enters, leaves and runs through\<close>

definition inflow :: "flow_graph \<Rightarrow> jsstr \<Rightarrow> rat" where
  "inflow g i = (\<Sum>l\<leftarrow>fg_links g. if fl_target l = i then val (fl_value l) else 0)"

definition outflow :: "flow_graph \<Rightarrow> jsstr \<Rightarrow> rat" where
  "outflow g i = (\<Sum>l\<leftarrow>fg_links g. if fl_source l = i then val (fl_value l) else 0)"

definition column :: "flow_graph \<Rightarrow> flow_kind \<Rightarrow> rat" where
  "column g k = (\<Sum>n\<leftarrow>fg_nodes g. if fn_kind n = k then val (fn_value n) else 0)"

definition whole_rows :: "flow_metric \<Rightarrow> flow_row list \<Rightarrow> bool" where
  "whole_rows metric rows \<longleftrightarrow>
     list_all (\<lambda>r. whole (metricValue (rowMetrics r) metric)) rows \<and>
     (\<Sum>r\<leftarrow>rows. units (metricValue (rowMetrics r) metric)) \<le> 2 ^ 53"

definition plain_ids :: "token_labeler \<Rightarrow> flow_kind list \<Rightarrow> flow_row list \<Rightarrow> bool" where
  "plain_ids ctx stages rows \<longleftrightarrow>
     list_all (\<lambda>r. list_all (\<lambda>n. 0 \<notin> set (pn_id n)) (flowPathForStages r stages ctx)) rows"

text \<open>The same of prepared paths.\<close>

definition path_units :: "flow_metric \<Rightarrow> prepared_path list \<Rightarrow> nat" where
  "path_units metric prepared = (\<Sum>p\<leftarrow>prepared. units (path_amount metric p))"

definition whole_paths :: "flow_metric \<Rightarrow> prepared_path list \<Rightarrow> bool" where
  "whole_paths metric prepared \<longleftrightarrow>
     list_all (\<lambda>p. whole (path_amount metric p)) prepared \<and> path_units metric prepared \<le> 2 ^ 53"

definition plain_paths :: "prepared_path list \<Rightarrow> bool" where
  "plain_paths prepared \<longleftrightarrow> list_all (\<lambda>p. list_all (\<lambda>n. 0 \<notin> set (pn_id n)) (pp_path p)) prepared"

lemma prepare_simps [simp]:
  "prepare_paths [] stages ctx tops mode labeler = []"
  "prepare_paths (r # rows) stages ctx tops mode labeler =
     (case applyTopNodeLimit (flowPathForStages r stages ctx) tops mode labeler of
        None \<Rightarrow> [] | Some p \<Rightarrow> [\<lparr>pp_path = p, pp_metrics = rowMetrics r\<rparr>])
     @ prepare_paths rows stages ctx tops mode labeler"
  by (auto simp: prepare_paths_def List.map_filter_def split: option.split)

lemma prepared_units_le:
  "path_units metric (prepare_paths rows stages ctx tops mode labeler)
     \<le> (\<Sum>r\<leftarrow>rows. units (metricValue (rowMetrics r) metric))"
  by (induction rows) (auto simp: path_units_def path_amount_def split: option.split)

lemma prepared_whole:
  "whole_rows metric rows \<Longrightarrow> whole_paths metric (prepare_paths rows stages ctx tops mode labeler)"
proof -
  assume w: "whole_rows metric rows"
  then have "list_all (\<lambda>r. whole (metricValue (rowMetrics r) metric)) rows" by (simp add: whole_rows_def)
  then have "list_all (\<lambda>p. whole (path_amount metric p)) (prepare_paths rows stages ctx tops mode labeler)"
    by (induction rows) (auto simp: path_amount_def split: option.split)
  with w prepared_units_le show ?thesis
    unfolding whole_rows_def whole_paths_def using le_trans by blast
qed

lemma other_id_plain: "0 \<notin> set (OTHER_FLOW_NODE_IDS k)"
  by (cases k) (simp_all add: OTHER_FLOW_NODE_IDS_def)

lemma prepared_plain:
  "plain_ids ctx stages rows \<Longrightarrow> plain_paths (prepare_paths rows stages ctx tops mode labeler)"
  by (induction rows)
    (auto simp: plain_ids_def plain_paths_def applyTopNodeLimit_def list_all_iff otherFlowNode_def
      other_id_plain split: option.split if_splits)

text \<open>The ends of a link can be read off its key.\<close>

definition key_source :: "jsstr \<Rightarrow> jsstr" where
  "key_source k = takeWhile (\<lambda>c. c \<noteq> 0) k"

definition key_target :: "jsstr \<Rightarrow> jsstr" where
  "key_target k = tl (dropWhile (\<lambda>c. c \<noteq> 0) k)"

lemma key_ends:
  assumes "0 \<notin> set s"
  shows "key_source (link_key s t) = s" "key_target (link_key s t) = t"
proof -
  have "\<forall>c\<in>set s. c \<noteq> 0" using assms by auto
  then show "key_source (link_key s t) = s" "key_target (link_key s t) = t"
    by (simp_all add: key_source_def key_target_def link_key_def takeWhile_append2 dropWhile_append2)
qed

text \<open>The weights of the events, path by path.\<close>

lemma node_weight:
  "node_tally.weight metric P (node_events prepared) =
     (\<Sum>p\<leftarrow>prepared. \<Sum>n\<leftarrow>pp_path p. if P (pn_id n) then units (path_amount metric p) else 0)"
  by (induction prepared) (auto simp: node_events_def node_tally.weight_def comp_def)

lemma link_weight:
  "link_tally.weight metric P (link_events prepared) =
     (\<Sum>p\<leftarrow>prepared. \<Sum>(s, t)\<leftarrow>steps (pp_path p).
        if P (link_key (pn_id s) (pn_id t)) then units (path_amount metric p) else 0)"
  unfolding link_events_def link_tally.weight_def
  by (induction prepared) (simp_all add: comp_def case_prod_unfold cong: if_cong)

lemma steps_fst: "map fst (steps path) = butlast path"
  by (simp add: steps_def map_fst_zip_take butlast_conv_take)

lemma steps_snd: "map snd (steps path) = tl path"
  by (simp add: steps_def map_snd_zip_take)

lemma sum_ids:
  "distinct (map pn_id path) \<Longrightarrow>
    (\<Sum>n\<leftarrow>path. if pn_id n = i then a else 0) = (if i \<in> pn_id ` set path then a else (0::nat))"
  using sum_once [of "map pn_id path" i a] by (simp add: comp_def)

lemma sum_steps:
  "(\<Sum>(s, t)\<leftarrow>steps path. f s) = (\<Sum>n\<leftarrow>butlast path. f n)"
  "(\<Sum>(s, t)\<leftarrow>steps path. f t) = (\<Sum>n\<leftarrow>tl path. f n)"
  by (simp_all add: steps_fst [symmetric] steps_snd [symmetric] comp_def case_prod_unfold)

text \<open>What the paths through an id carry.\<close>

definition carried :: "flow_metric \<Rightarrow> (path_node list \<Rightarrow> path_node list) \<Rightarrow> jsstr \<Rightarrow> prepared_path list \<Rightarrow> nat" where
  "carried metric part i prepared =
     (\<Sum>p\<leftarrow>prepared. if i \<in> pn_id ` set (part (pp_path p)) then units (path_amount metric p) else 0)"

lemma carried_le: "carried metric part i prepared \<le> path_units metric prepared"
  unfolding carried_def path_units_def by (rule sum_list_mono) simp

text \<open>Prepared paths whose amounts are whole.\<close>

definition countable_paths :: "flow_metric \<Rightarrow> flow_kind list \<Rightarrow> prepared_path list \<Rightarrow> bool" where
  "countable_paths metric stages prepared \<longleftrightarrow>
     prepared_ok stages prepared \<and> distinct stages \<and> stages \<noteq> [] \<and> whole_paths metric prepared"

lemma countable_path:
  assumes "countable_paths metric stages prepared" "p \<in> set prepared"
  shows "staged stages (pp_path p)" "distinct (map pn_id (pp_path p))" "pp_path p \<noteq> []"
    "whole (path_amount metric p)"
  using assms staged_distinct
  by (auto simp: countable_paths_def prepared_ok_def whole_paths_def list_all_iff staged_def)

lemma node_events_whole:
  "countable_paths metric stages prepared \<Longrightarrow> e \<in> set (node_events prepared) \<Longrightarrow>
    whole (case e of (p, n) \<Rightarrow> path_amount metric p)"
  by (auto simp: node_events_def dest: countable_path(4))

lemma link_events_whole:
  "countable_paths metric stages prepared \<Longrightarrow> e \<in> set (link_events prepared) \<Longrightarrow>
    whole (case e of (p, s, t) \<Rightarrow> path_amount metric p)"
  by (auto simp: link_events_def dest: countable_path(4))

lemma node_weight_at:
  "countable_paths metric stages prepared \<Longrightarrow>
    node_tally.weight metric (\<lambda>j. j = i) (node_events prepared) = carried metric id i prepared"
  unfolding node_weight carried_def id_apply
  by (intro arg_cong [where f = sum_list] map_cong refl sum_ids countable_path(2))

lemma distinct_ends: "distinct (map f xs) \<Longrightarrow> distinct (map f (tl xs)) \<and> distinct (map f (butlast xs))"
  by (auto simp: map_tl map_butlast distinct_tl distinct_butlast)

lemma link_weight_at:
  assumes "countable_paths metric stages prepared" "plain_paths prepared"
  shows "link_tally.weight metric (\<lambda>k. key_target k = i) (link_events prepared) = carried metric tl i prepared"
    and "link_tally.weight metric (\<lambda>k. key_source k = i) (link_events prepared) = carried metric butlast i prepared"
proof -
  let ?u = "\<lambda>p. units (path_amount metric p)"
  have at: "(\<Sum>(s, t)\<leftarrow>steps (pp_path p). if key_target (link_key (pn_id s) (pn_id t)) = i then ?u p else 0)
        = (if i \<in> pn_id ` set (tl (pp_path p)) then ?u p else 0)"
      "(\<Sum>(s, t)\<leftarrow>steps (pp_path p). if key_source (link_key (pn_id s) (pn_id t)) = i then ?u p else 0)
        = (if i \<in> pn_id ` set (butlast (pp_path p)) then ?u p else 0)"
    if p: "p \<in> set prepared" for p
  proof -
    note d = distinct_ends [OF countable_path(2) [OF assms(1) p]]
    have plain: "0 \<notin> set (pn_id s)" if "(s, t) \<in> set (steps (pp_path p))" for s t
      using assms(2) p that set_zip_leftD [of s t "pp_path p" "tl (pp_path p)"]
      by (auto simp: plain_paths_def list_all_iff steps_def)
    have "(\<Sum>(s, t)\<leftarrow>steps (pp_path p). if key_target (link_key (pn_id s) (pn_id t)) = i then ?u p else 0)
        = (\<Sum>(s, t)\<leftarrow>steps (pp_path p). if pn_id t = i then ?u p else 0)"
      using plain by (intro arg_cong [where f = sum_list] map_cong) (auto simp: key_ends)
    also have "\<dots> = (if i \<in> pn_id ` set (tl (pp_path p)) then ?u p else 0)"
      using d by (simp only: sum_steps(2) sum_ids)
    finally show "(\<Sum>(s, t)\<leftarrow>steps (pp_path p). if key_target (link_key (pn_id s) (pn_id t)) = i then ?u p else 0)
        = (if i \<in> pn_id ` set (tl (pp_path p)) then ?u p else 0)" .
    have "(\<Sum>(s, t)\<leftarrow>steps (pp_path p). if key_source (link_key (pn_id s) (pn_id t)) = i then ?u p else 0)
        = (\<Sum>(s, t)\<leftarrow>steps (pp_path p). if pn_id s = i then ?u p else 0)"
      using plain by (intro arg_cong [where f = sum_list] map_cong) (auto simp: key_ends)
    also have "\<dots> = (if i \<in> pn_id ` set (butlast (pp_path p)) then ?u p else 0)"
      using d by (simp only: sum_steps(1) sum_ids)
    finally show "(\<Sum>(s, t)\<leftarrow>steps (pp_path p). if key_source (link_key (pn_id s) (pn_id t)) = i then ?u p else 0)
        = (if i \<in> pn_id ` set (butlast (pp_path p)) then ?u p else 0)" .
  qed
  from at show "link_tally.weight metric (\<lambda>k. key_target k = i) (link_events prepared) = carried metric tl i prepared"
    "link_tally.weight metric (\<lambda>k. key_source k = i) (link_events prepared) = carried metric butlast i prepared"
    unfolding link_weight carried_def by (intro arg_cong [where f = sum_list] map_cong refl; simp)+
qed

lemma link_weight_le:
  assumes "countable_paths metric stages prepared" "plain_paths prepared"
  shows "link_tally.weight metric (\<lambda>j. j = k) (link_events prepared) \<le> 2 ^ 53"
proof -
  have "link_tally.weight metric (\<lambda>j. j = k) (link_events prepared)
      \<le> link_tally.weight metric (\<lambda>j. key_target j = key_target k) (link_events prepared)"
    unfolding link_tally.weight_def by (rule sum_list_mono) auto
  also have "\<dots> \<le> path_units metric prepared"
    by (simp only: link_weight_at [OF assms] carried_le)
  also have "\<dots> \<le> 2 ^ 53" using assms(1) by (simp add: countable_paths_def whole_paths_def)
  finally show ?thesis .
qed

lemma node_weight_le:
  assumes "countable_paths metric stages prepared"
  shows "node_tally.weight metric (\<lambda>j. j = k) (node_events prepared) \<le> 2 ^ 53"
proof -
  have "carried metric id k prepared \<le> path_units metric prepared" by (rule carried_le)
  also have "\<dots> \<le> 2 ^ 53" using assms by (simp add: countable_paths_def whole_paths_def)
  finally show ?thesis by (simp only: node_weight_at [OF assms])
qed

section \<open>The entries of the two maps\<close>

lemma tallied_node:
  assumes "prepared_ok stages prepared" "(k, x) \<in> set (tallied_nodes color metric prepared)"
  shows "fn_id x = k \<and> has_kind (fn_kind x) k"
proof (rule node_tally.run_entries [where P = "\<lambda>k x. fn_id x = k \<and> has_kind (fn_kind x) k", OF _ _ assms(2)])
  fix e
  assume "e \<in> set (node_events prepared)"
  then obtain p n where e: "e = (p, n)" "p \<in> set prepared" "n \<in> set (pp_path p)"
    by (auto simp: node_events_def)
  with assms(1) have "has_kind (pn_kind n) (pn_id n)"
    by (auto simp: prepared_ok_def list_all_iff staged_def)
  with e show "fn_id (case e of (p, n) \<Rightarrow> new_node n (color (hd (pp_path p))) (pn_id (hd (pp_path p))))
        = (case e of (p, n) \<Rightarrow> pn_id n)
      \<and> has_kind (fn_kind (case e of (p, n) \<Rightarrow> new_node n (color (hd (pp_path p))) (pn_id (hd (pp_path p)))))
        (case e of (p, n) \<Rightarrow> pn_id n)"
    by (simp add: new_node_def)
qed (auto simp: grow_node_def)

lemma tallied_link:
  assumes "plain_paths prepared" "(k, x) \<in> set (tallied_links color metric prepared)"
  shows "fl_source x = key_source k \<and> fl_target x = key_target k"
proof (rule link_tally.run_entries
    [where P = "\<lambda>k x. fl_source x = key_source k \<and> fl_target x = key_target k", OF _ _ assms(2)])
  fix e
  assume "e \<in> set (link_events prepared)"
  then obtain p s t where e: "e = (p, s, t)" "p \<in> set prepared" "(s, t) \<in> set (steps (pp_path p))"
    by (auto simp: link_events_def)
  with assms(1) have "0 \<notin> set (pn_id s)"
    by (auto simp: plain_paths_def list_all_iff steps_def dest: set_zip_leftD)
  with e show "fl_source (case e of (p, s, t) \<Rightarrow> new_link s t (color (hd (pp_path p))) (pn_id (hd (pp_path p))))
        = key_source (case e of (p, s, t) \<Rightarrow> link_key (pn_id s) (pn_id t))
      \<and> fl_target (case e of (p, s, t) \<Rightarrow> new_link s t (color (hd (pp_path p))) (pn_id (hd (pp_path p))))
        = key_target (case e of (p, s, t) \<Rightarrow> link_key (pn_id s) (pn_id t))"
    by (simp add: new_link_def key_ends)
qed (auto simp: grow_link_def)

section \<open>Values of the finished graph\<close>

lemma sum_entries: "(\<Sum>x\<leftarrow>map snd m. f x) = (\<Sum>(k, x)\<leftarrow>m. f x)"
  by (simp add: comp_def case_prod_unfold)

lemma graph_flow:
  assumes "countable_paths metric stages prepared" "plain_paths prepared"
    and g: "g = graph_of lc scheme prepared metric palette stages' options"
  shows "inflow g i = of_nat (carried metric tl i prepared)"
    and "outflow g i = of_nat (carried metric butlast i prepared)"
proof -
  let ?m = "tallied_links (path_colors lc scheme prepared palette) metric prepared"
  note total = link_tally.run_sum [OF link_events_whole [OF assms(1)] link_weight_le [OF assms(1,2)]]
  have sum: "(\<Sum>l\<leftarrow>fg_links g. f (link_view l)) = (\<Sum>(k, l)\<leftarrow>?m. f (link_view l))" for f :: "_ \<Rightarrow> rat"
    unfolding g by (simp only: sum_mset_cong [OF graph_links] sum_entries)
  have "inflow g i = (\<Sum>(k, l)\<leftarrow>?m. if key_target k = i then val (fl_value l) else 0)"
    unfolding inflow_def using sum [of "\<lambda>(s, t, v). if t = i then val v else 0"] tallied_link [OF assms(2)]
    by (auto simp: link_view_def intro!: arg_cong [where f = sum_list] map_cong)
  also have "\<dots> = of_nat (carried metric tl i prepared)"
    unfolding link_weight_at(1) [OF assms(1,2), symmetric] by (rule total)
  finally show "inflow g i = of_nat (carried metric tl i prepared)" .
  have "outflow g i = (\<Sum>(k, l)\<leftarrow>?m. if key_source k = i then val (fl_value l) else 0)"
    unfolding outflow_def using sum [of "\<lambda>(s, t, v). if s = i then val v else 0"] tallied_link [OF assms(2)]
    by (auto simp: link_view_def intro!: arg_cong [where f = sum_list] map_cong)
  also have "\<dots> = of_nat (carried metric butlast i prepared)"
    unfolding link_weight_at(2) [OF assms(1,2), symmetric] by (rule total)
  finally show "outflow g i = of_nat (carried metric butlast i prepared)" .
qed

lemma graph_node_entry:
  assumes "nd \<in> set (fg_nodes (graph_of lc scheme prepared metric palette stages options))"
  obtains k x where "(k, x) \<in> set (tallied_nodes (path_colors lc scheme prepared palette) metric prepared)"
    "node_view nd = node_view x"
proof -
  have "node_view nd \<in> set (map node_view (map snd
      (tallied_nodes (path_colors lc scheme prepared palette) metric prepared)))"
    by (subst mset_eq_setD [OF graph_nodes [where stages = stages and options = options], symmetric])
      (use assms in simp)
  with that show thesis by fastforce
qed

lemma graph_node:
  assumes "countable_paths metric stages prepared"
    and "nd \<in> set (fg_nodes (graph_of lc scheme prepared metric palette stages' options))"
  shows "has_kind (fn_kind nd) (fn_id nd)"
    and "val (fn_value nd) = of_nat (carried metric id (fn_id nd) prepared)"
proof -
  let ?m = "tallied_nodes (path_colors lc scheme prepared palette) metric prepared"
  obtain k x where x: "(k, x) \<in> set ?m" "node_view nd = node_view x"
    using graph_node_entry [OF assms(2)] .
  from tallied_node [OF _ x(1)] assms(1) have k: "fn_id x = k" "has_kind (fn_kind x) k"
    by (auto simp: countable_paths_def)
  with x(2) show "has_kind (fn_kind nd) (fn_id nd)" by (simp add: node_view_def)
  from x(1) node_tally.distinct_run have "map_of ?m k = Some x" by simp
  from node_tally.run_total [OF node_events_whole [OF assms(1)] this node_weight_le [OF assms(1)]]
  have "fn_value x = Fin (of_nat (carried metric id k prepared))"
    by (simp only: node_weight_at [OF assms(1)])
  with k x(2) show "val (fn_value nd) = of_nat (carried metric id (fn_id nd) prepared)"
    by (simp add: node_view_def)
qed

text \<open>A path meets an id after its first node unless the id is of the first stage.\<close>

lemma carried_tl:
  assumes "countable_paths metric stages prepared" "has_kind k i"
  shows "k \<noteq> hd stages \<Longrightarrow> carried metric tl i prepared = carried metric id i prepared"
    and "k \<noteq> last stages \<Longrightarrow> carried metric butlast i prepared = carried metric id i prepared"
proof -
  have ends: "k \<noteq> hd stages \<Longrightarrow> pn_id (hd (pp_path p)) \<noteq> i" "k \<noteq> last stages \<Longrightarrow> pn_id (last (pp_path p)) \<noteq> i"
    if "p \<in> set prepared" for p
    using countable_path(1,3) [OF assms(1) that] assms(2) has_kind_unique [of k]
    by (auto simp: staged_def list_all_iff hd_map last_map)
  have first: "set path = insert (hd path) (set (tl path))" if "path \<noteq> []" for path :: "path_node list"
    using that by (cases path) auto
  have final: "set path = insert (last path) (set (butlast path))" if "path \<noteq> []" for path :: "path_node list"
    by (subst append_butlast_last_id [OF that, symmetric]) simp
  show "k \<noteq> hd stages \<Longrightarrow> carried metric tl i prepared = carried metric id i prepared"
    unfolding carried_def using first ends(1) countable_path(3) [OF assms(1)]
    by (intro arg_cong [where f = sum_list] map_cong refl) auto
  show "k \<noteq> last stages \<Longrightarrow> carried metric butlast i prepared = carried metric id i prepared"
    unfolding carried_def using final ends(2) countable_path(3) [OF assms(1)]
    by (intro arg_cong [where f = sum_list] map_cong refl) auto
qed

lemma graph_column:
  assumes "countable_paths metric stages prepared" "k \<in> set stages"
  shows "column (graph_of lc scheme prepared metric palette stages' options) k = of_nat (path_units metric prepared)"
proof -
  let ?m = "tallied_nodes (path_colors lc scheme prepared palette) metric prepared"
  let ?g = "graph_of lc scheme prepared metric palette stages' options"
  have ok: "prepared_ok stages prepared" and d: "distinct stages"
    using assms(1) by (auto simp: countable_paths_def)
  have "column ?g k = (\<Sum>(i, n)\<leftarrow>?m. if fn_kind n = k then val (fn_value n) else 0)"
    using sum_mset_cong [OF graph_nodes [where stages = stages' and options = options],
        of "\<lambda>(i, j, v). if j = k then val v else 0"]
    by (simp only: column_def sum_entries node_view_def prod.case)
  also have "\<dots> = (\<Sum>(i, n)\<leftarrow>?m. if has_kind k i then val (fn_value n) else 0)"
  proof (intro arg_cong [where f = sum_list] map_cong refl, clarify)
    fix i n
    assume "(i, n) \<in> set ?m"
    from tallied_node [OF ok this] have "fn_kind n = k \<longleftrightarrow> has_kind k i"
      using has_kind_unique by blast
    then show "(if fn_kind n = k then val (fn_value n) else 0) = (if has_kind k i then val (fn_value n) else 0)"
      by simp
  qed
  also have "\<dots> = of_nat (node_tally.weight metric (has_kind k) (node_events prepared))"
    by (rule node_tally.run_sum [OF node_events_whole [OF assms(1)] node_weight_le [OF assms(1)]])
  also have "node_tally.weight metric (has_kind k) (node_events prepared) = path_units metric prepared"
    unfolding node_weight path_units_def using ok
    by (intro arg_cong [where f = sum_list] map_cong refl staged_once [OF _ d assms(2)])
      (auto simp: prepared_ok_def list_all_iff)
  finally show ?thesis .
qed

section \<open>The summary\<close>

lemma metricValue_add: "metricValue (add_metrics a b) metric = num_add (metricValue a metric) (metricValue b metric)"
  by (cases metric) (simp_all add: metricValue_def add_metrics_def)

lemma summary_units:
  assumes "list_all (\<lambda>r. whole (metricValue (rowMetrics r) metric)) rows"
    and "k + (\<Sum>r\<leftarrow>rows. units (metricValue (rowMetrics r) metric)) \<le> 2 ^ 53"
    and "metricValue m metric = Fin (of_nat k)"
  shows "metricValue (foldl (\<lambda>summary r. add_metrics summary (rowMetrics r)) m rows) metric
     = Fin (of_nat (k + (\<Sum>r\<leftarrow>rows. units (metricValue (rowMetrics r) metric))))"
  using assms
proof (induction rows arbitrary: k m)
  case (Cons r rows)
  have "metricValue (add_metrics m (rowMetrics r)) metric
      = Fin (of_nat (k + units (metricValue (rowMetrics r) metric)))"
    using Cons.prems by (simp only: metricValue_add) (simp add: num_add_whole)
  with Cons.IH [OF _ _ this] Cons.prems show ?case by (simp add: add.assoc)
qed simp

lemma summary_whole:
  "whole_rows metric rows \<Longrightarrow> metricValue (buildSummary rows) metric
     = Fin (of_nat (\<Sum>r\<leftarrow>rows. units (metricValue (rowMetrics r) metric)))"
  using summary_units [of metric rows 0 no_metrics]
  by (simp add: whole_rows_def buildSummary_def metricValue_def no_metrics_def split: flow_metric.split)

text \<open>Filters only drop rows.\<close>

lemma whole_filter: "whole_rows metric rows \<Longrightarrow> whole_rows metric (filter P rows)"
proof -
  have "(\<Sum>r\<leftarrow>filter P rows. f r) \<le> (\<Sum>r\<leftarrow>rows. f r)" for f :: "flow_row \<Rightarrow> nat"
    by (induction rows) auto
  from le_trans [OF this] show "whole_rows metric rows \<Longrightarrow> whole_rows metric (filter P rows)"
    by (simp add: whole_rows_def list_all_iff)
qed

lemma plain_filter: "plain_ids ctx stages rows \<Longrightarrow> plain_ids ctx stages (filter P rows)"
  by (auto simp: plain_ids_def list_all_iff)

lemma whole_filtered: "whole_rows metric rows \<Longrightarrow> whole_rows metric (filtered_rows rows options)"
  by (simp add: filtered_rows_def filterRows_def filterRowsByNodes_def Let_def whole_filter)

lemma plain_filtered:
  "plain_ids ctx stages rows \<Longrightarrow> plain_ids ctx stages (filtered_rows rows options)"
  by (simp add: filtered_rows_def filterRows_def filterRowsByNodes_def Let_def plain_filter)

lemma countable_prepared:
  "whole_rows metric rows \<Longrightarrow> countable_paths metric (resolveVisibleStages role vs)
     (prepare_paths rows (resolveVisibleStages role vs) ctx tops mode labeler)"
  using prepared_whole prepared_paths_ok distinct_stages two_stages [of role vs]
  by (auto simp: countable_paths_def)

text \<open>The graph of the dashboard, over the paths it shows.\<close>

definition shown_paths :: "(jsstr \<Rightarrow> jsstr \<Rightarrow> jsnum) \<Rightarrow> flow_row list \<Rightarrow> flow_metric \<Rightarrow> flow_options \<Rightarrow>
    prepared_path list" where
  "shown_paths lc rows metric options =
     prepare_paths (filtered_rows rows options) (flow_stages options) (op_tokenLabel options)
       (buildTopNodeSets lc (filtered_rows rows options) metric (flow_stages options)
          (normalizeTopNodeLimit (go_topNodeLimit (op_graph options))) (op_tokenLabel options))
       (case go_overflowMode (op_graph options) of None \<Rightarrow> Aggregate | Some m \<Rightarrow> m)
       (go_otherNodeLabel (op_graph options))"

lemma chart_graph:
  "fd_flow (buildDashboardFlowData lc scheme format_number rows metric options) =
     graph_of lc scheme (shown_paths lc rows metric options) metric (op_palette options)
       (flow_stages options) (op_graph options)"
  by (simp add: buildDashboardFlowData_def buildFlowGraph_def shown_paths_def flow_stages_def Let_def)

lemma chart_countable:
  "whole_rows metric rows \<Longrightarrow> countable_paths metric (flow_stages options) (shown_paths lc rows metric options)"
  unfolding flow_stages_def shown_paths_def by (rule countable_prepared [OF whole_filtered])

lemma chart_plain:
  "plain_ids (op_tokenLabel options) (flow_stages options) rows \<Longrightarrow>
    plain_paths (shown_paths lc rows metric options)"
  unfolding shown_paths_def by (rule prepared_plain [OF plain_filtered])


section \<open>An example\<close>

definition sample_row :: "nat \<Rightarrow> string \<Rightarrow> string \<Rightarrow> nat \<Rightarrow> flow_row" where
  "sample_row t g m q = \<lparr>user_id = None, username = None, node_name = None, token_id = Some (Fin (of_nat t)),
     token_name = None, use_group = Some (J g), channel_id = None, channel_name = None, row_model = Some (J m),
     token_used = None, row_count = None, row_quota = Some (Fin (of_nat q))\<rparr>"

definition sample_rows :: "flow_row list" where
  "sample_rows = [sample_row 1 ''vip'' ''gpt'' 5, sample_row 2 ''vip'' ''o1'' 3]"

definition sample_options :: flow_options where
  "sample_options = \<lparr>op_role = None, op_selectedUsers = [], op_selectedNodes = [], op_palette = [J ''#1664FF''],
     op_visibleStages = None, op_tokenLabel = None,
     op_graph = \<lparr>go_topNodeLimit = None, go_overflowMode = None, go_otherNodeLabel = None,
       go_activeNode = None, go_activeLink = None, go_maskSensitive = True\<rparr>\<rparr>"

definition sample_data :: flow_data where
  "sample_data = buildDashboardFlowData (\<lambda>a b. Fin 0) [] (\<lambda>n. []) sample_rows MQuota sample_options"

lemma sample_whole: "whole_rows MQuota sample_rows"
proof -
  have "list_all (\<lambda>r. whole (metricValue (rowMetrics r) MQuota)) sample_rows" by code_simp
  moreover have "map (\<lambda>r. units (metricValue (rowMetrics r) MQuota)) sample_rows = [5, 3]" by code_simp
  ultimately show ?thesis by (simp add: whole_rows_def)
qed

text \<open>The views of the nodes do not depend on their colours.\<close>

definition view_event :: "flow_metric \<Rightarrow> prepared_path \<times> path_node \<Rightarrow> (jsstr \<times> jsstr \<times> flow_kind \<times> jsnum) list \<Rightarrow>
    (jsstr \<times> jsstr \<times> flow_kind \<times> jsnum) list" where
  "view_event metric = (\<lambda>(p, n). upsert (pn_id n) (pn_id n, pn_kind n, Fin 0)
     (\<lambda>(i, k, v). (i, k, num_add v (path_amount metric p))))"

lemma map_upsert:
  assumes "g d = d'" "\<And>x. g (f x) = f' (g x)"
  shows "map (apsnd g) (upsert k d f m) = upsert k d' f' (map (apsnd g) m)"
proof -
  have "map (apsnd g) (AList.update k v m) = AList.update k (g v) (map (apsnd g) m)" for v
    by (induction m) auto
  moreover have "map_of (map (apsnd g) m) k = map_option g (map_of m k)"
    by (induction m) auto
  ultimately show ?thesis using assms by (simp add: upsert_def split: option.split)
qed

lemma view_run:
  "map (apsnd node_view) (node_tally.run color metric es []) = fold (view_event metric) es []"
proof (induction es rule: rev_induct)
  case (snoc e es)
  obtain p n where e: "e = (p, n)" by (cases e)
  have "map (apsnd node_view) (node_tally.run color metric (es @ [e]) [])
      = upsert (pn_id n) (pn_id n, pn_kind n, Fin 0) (\<lambda>(i, k, v). (i, k, num_add v (path_amount metric p)))
          (map (apsnd node_view) (node_tally.run color metric es []))"
    unfolding node_tally.run_snoc e prod.case
    by (rule map_upsert) (simp_all add: new_node_def grow_node_def node_view_def path_amount_def)
  with snoc e show ?case by (simp add: view_event_def)
qed (simp add: node_tally.run_def)

lemma graph_node_views:
  "set (map node_view (fg_nodes (graph_of lc scheme prepared metric palette stages options))) =
     set (map snd (fold (view_event metric) (node_events prepared) []))"
  unfolding mset_eq_setD [OF graph_nodes]
  by (simp only: view_run [of "path_colors lc scheme prepared palette", symmetric] map_map comp_def snd_apsnd)

lemma sample_node: "\<exists>nd\<in>set (fg_nodes (fd_flow sample_data)). node_view nd = (J ''group:vip'', KGroup, Fin 8)"
proof -
  have "(J ''group:vip'', KGroup, Fin 8) \<in> set (map node_view (fg_nodes (fd_flow sample_data)))"
    unfolding sample_data_def chart_graph graph_node_views by code_simp
  then show ?thesis by auto
qed

section \<open>Properties\<close>

text \<open>C9. Usage is conserved. When the amounts of the rows are whole numbers whose total a double
  counts exactly, and the names contain no NUL, the value of every node of the chart is the sum of
  the links into it, unless its stage is the first, and the sum of the links out of it, unless its
  stage is the last; this holds whatever is filtered, limited, masked or highlighted.\<close>

theorem flow_conserved:
  assumes "whole_rows metric rows" "plain_ids (op_tokenLabel options) (flow_stages options) rows"
    and "nd \<in> set (fg_nodes (fd_flow (buildDashboardFlowData lc scheme format_number rows metric options)))"
  shows "(fn_kind nd \<noteq> hd (flow_stages options) \<longrightarrow>
      inflow (fd_flow (buildDashboardFlowData lc scheme format_number rows metric options)) (fn_id nd)
        = val (fn_value nd)) \<and>
    (fn_kind nd \<noteq> last (flow_stages options) \<longrightarrow>
      outflow (fd_flow (buildDashboardFlowData lc scheme format_number rows metric options)) (fn_id nd)
        = val (fn_value nd))"
proof -
  let ?ps = "shown_paths lc rows metric options" and ?i = "fn_id nd"
  note c = chart_countable [OF assms(1), of options lc]
  note nd = graph_node [OF c assms(3) [unfolded chart_graph]]
  note flow = graph_flow [OF c chart_plain [OF assms(2)] refl, where i = ?i]
  from carried_tl [OF c nd(1)] show ?thesis
    unfolding chart_graph flow nd(2) by simp
qed

theorem flow_conserved_witness:
  "inflow (fd_flow sample_data) (J ''group:vip'') = 8 \<and> outflow (fd_flow sample_data) (J ''group:vip'') = 8"
proof -
  have plain: "plain_ids (op_tokenLabel sample_options) (flow_stages sample_options) sample_rows" by code_simp
  obtain nd where "nd \<in> set (fg_nodes (fd_flow sample_data))" "node_view nd = (J ''group:vip'', KGroup, Fin 8)"
    using sample_node by blast
  with flow_conserved [OF sample_whole plain, of nd "\<lambda>a b. Fin 0" "[]" "\<lambda>n. []", folded sample_data_def]
  show ?thesis by (simp add: node_view_def flow_stages_def sample_options_def resolveVisibleStages_def getFlowStages_def)
qed

text \<open>C12. The columns add up. Unless nodes beyond a limit are hidden, the values of the nodes of
  every visible stage sum up to the summary of the filtered rows.\<close>

theorem flow_columns_total:
  assumes "whole_rows metric rows" "k \<in> set (flow_stages options)"
    and "go_overflowMode (op_graph options) \<noteq> Some Hide \<or> normalizeTopNodeLimit (go_topNodeLimit (op_graph options)) = None"
  shows "column (fd_flow (buildDashboardFlowData lc scheme format_number rows metric options)) k =
    val (metricValue (fd_summary (buildDashboardFlowData lc scheme format_number rows metric options)) metric)"
proof -
  have all: "path_units metric (prepare_paths rs stages ctx tops mode labeler)
      = (\<Sum>r\<leftarrow>rs. units (metricValue (rowMetrics r) metric))"
    if "mode \<noteq> Hide \<or> tops = None" for rs stages ctx tops mode labeler
    using that by (induction rs) (auto simp: path_units_def path_amount_def applyTopNodeLimit_def)
  have "path_units metric (shown_paths lc rows metric options)
      = (\<Sum>r\<leftarrow>filtered_rows rows options. units (metricValue (rowMetrics r) metric))"
    unfolding shown_paths_def by (rule all) (use assms(3) in \<open>auto simp: buildTopNodeSets_def split: option.split\<close>)
  with graph_column [OF chart_countable [OF assms(1)] assms(2)] summary_whole [OF whole_filtered [OF assms(1)]]
  show ?thesis unfolding chart_graph by (simp add: buildDashboardFlowData_def Let_def)
qed

theorem flow_columns_total_witness: "column (fd_flow sample_data) KGroup = 8"
proof -
  have "KGroup \<in> set (flow_stages sample_options)" "go_overflowMode (op_graph sample_options) \<noteq> Some Hide"
    by (simp_all add: flow_stages_def sample_options_def resolveVisibleStages_def getFlowStages_def)
  note total = flow_columns_total [OF sample_whole this(1) disjI1 [OF this(2)],
      of "\<lambda>a b. Fin 0" "[]" "\<lambda>n. []", folded sample_data_def]
  have "metricValue (buildSummary (filtered_rows sample_rows sample_options)) MQuota = Fin 8" by code_simp
  with total show ?thesis by (simp add: sample_data_def buildDashboardFlowData_def Let_def)
qed

end
