(* ===== verification/FlowLimits.thy ===== *)
theory FlowLimits
  imports FlowProperties
begin

text \<open>
  More of the flow chart: the filters on nodes against their specification, the options they offer,
  the limit on the nodes of a stage, and the labels of a masked chart.
\<close>

section \<open>Filters on nodes\<close>

definition chosen :: "flow_filter list \<Rightarrow> flow_kind \<Rightarrow> jsstr set" where
  "chosen selected k = ff_id ` {f \<in> set selected. ff_kind f = k}"

text \<open>A row passes when, for every visible kind of which something is chosen, its node is chosen.\<close>

definition row_chosen :: "flow_filter list \<Rightarrow> flow_kind list \<Rightarrow> token_labeler \<Rightarrow> flow_row \<Rightarrow> bool" where
  "row_chosen selected stages ctx r \<longleftrightarrow>
     (\<forall>k\<in>set stages. chosen selected k = {} \<or> pn_id (NODE_BUILDERS k ctx r) \<in> chosen selected k)"

lemma chosen_simps [simp]:
  "chosen [] k = {}"
  "chosen (fs @ [f]) k = (if ff_kind f = k then insert (ff_id f) (chosen fs k) else chosen fs k)"
  by (auto simp: chosen_def)

lemma normalized:
  "(case map_of (normalizeSelectedNodeFilters selected stages) k of None \<Rightarrow> {} | Some ids \<Rightarrow> set ids)
     = (if k \<in> set stages then chosen selected k else {}) \<and>
   map_of (normalizeSelectedNodeFilters selected stages) k \<noteq> Some []"
proof (induction selected rule: rev_induct)
  case (snoc f fs)
  have "normalizeSelectedNodeFilters (fs @ [f]) stages
      = add_selected stages f (normalizeSelectedNodeFilters fs stages)"
    by (simp add: normalizeSelectedNodeFilters_def)
  with snoc show ?case
    by (auto simp: add_selected_def map_of_upsert split: option.splits if_splits)
qed (simp add: normalizeSelectedNodeFilters_def)

lemma distinct_normalized: "distinct (map fst (normalizeSelectedNodeFilters selected stages))"
  by (induction selected rule: rev_induct) (simp_all add: normalizeSelectedNodeFilters_def add_selected_def)

lemma path_ids_stage:
  "distinct stages \<Longrightarrow> k \<in> set stages \<Longrightarrow>
    path_ids (flowPathForStages r stages ctx) k = [pn_id (NODE_BUILDERS k ctx r)]"
proof -
  assume d: "distinct stages" "k \<in> set stages"
  have "filter (\<lambda>n. pn_kind n = k) (flowPathForStages r stages ctx)
      = map (\<lambda>s. NODE_BUILDERS s ctx r) (filter (\<lambda>s. s = k) stages)"
    by (simp add: flowPathForStages_def filter_map comp_def)
  also have "filter (\<lambda>s. s = k) stages = [k]"
    using d by (induction stages) (auto simp: filter_empty_conv)
  finally show ?thesis by (simp add: path_ids_def)
qed

lemma matches_chosen:
  assumes "distinct stages"
  shows "pathMatchesNodeFilters (flowPathForStages r stages ctx) (normalizeSelectedNodeFilters selected stages)
     \<longleftrightarrow> row_chosen selected stages ctx r"
proof -
  let ?m = "normalizeSelectedNodeFilters selected stages"
  have "pathMatchesNodeFilters (flowPathForStages r stages ctx) ?m
      \<longleftrightarrow> (\<forall>k ids. map_of ?m k = Some ids \<longrightarrow> (\<exists>i\<in>set ids. i \<in> set (path_ids (flowPathForStages r stages ctx) k)))"
    using distinct_normalized [of selected stages]
    by (auto simp: pathMatchesNodeFilters_def list_all_iff list_ex_iff)
  also have "\<dots> \<longleftrightarrow> (\<forall>k\<in>set stages. chosen selected k = {} \<or>
      (\<exists>i\<in>chosen selected k. i \<in> set (path_ids (flowPathForStages r stages ctx) k)))"
  proof (rule iffI)
    show "\<forall>k\<in>set stages. chosen selected k = {} \<or>
        (\<exists>i\<in>chosen selected k. i \<in> set (path_ids (flowPathForStages r stages ctx) k))"
      if "\<forall>k ids. map_of ?m k = Some ids \<longrightarrow> (\<exists>i\<in>set ids. i \<in> set (path_ids (flowPathForStages r stages ctx) k))"
    proof
      fix k
      assume "k \<in> set stages"
      with that normalized [of selected stages k]
      show "chosen selected k = {} \<or> (\<exists>i\<in>chosen selected k. i \<in> set (path_ids (flowPathForStages r stages ctx) k))"
        by (cases "map_of ?m k") auto
    qed
    show "\<forall>k ids. map_of ?m k = Some ids \<longrightarrow> (\<exists>i\<in>set ids. i \<in> set (path_ids (flowPathForStages r stages ctx) k))"
      if "\<forall>k\<in>set stages. chosen selected k = {} \<or>
        (\<exists>i\<in>chosen selected k. i \<in> set (path_ids (flowPathForStages r stages ctx) k))"
    proof (intro allI impI)
      fix k ids
      assume "map_of ?m k = Some ids"
      with normalized [of selected stages k] that
      show "\<exists>i\<in>set ids. i \<in> set (path_ids (flowPathForStages r stages ctx) k)"
        by (auto split: if_splits)
    qed
  qed
  also have "\<dots> \<longleftrightarrow> row_chosen selected stages ctx r"
    using assms by (auto simp: row_chosen_def path_ids_stage)
  finally show ?thesis .
qed

lemma filterRowsByNodes_chosen:
  assumes "distinct stages"
  shows "filterRowsByNodes rows selected stages ctx = filter (row_chosen selected stages ctx) rows"
proof (cases "normalizeSelectedNodeFilters selected stages = []")
  case True
  then have "row_chosen selected stages ctx r" for r
    using matches_chosen [OF assms, of r ctx selected] by (simp add: pathMatchesNodeFilters_def)
  with True show ?thesis by (simp add: filterRowsByNodes_def)
qed (simp add: filterRowsByNodes_def matches_chosen [OF assms])

text \<open>The chart shows exactly the rows of the chosen users that, for every visible kind of node
  of which something is chosen, run through a chosen node.\<close>

theorem flow_filters:
  "filtered_rows rows options =
     filter (\<lambda>r. (op_selectedUsers options = [] \<or> pn_id (userNode r) \<in> set (op_selectedUsers options)) \<and>
       row_chosen (op_selectedNodes options) (flow_stages options) (op_tokenLabel options) r) rows"
  unfolding filtered_rows_def flow_stages_def filterRowsByNodes_chosen [OF distinct_stages]
  by (auto simp: filterRows_def conj_commute)

section \<open>The options that are offered\<close>

text \<open>The nodes of a stage among the candidate rows, each with the rows' total; an interface again
  of the tally.\<close>

interpretation rank_tally: tally "\<lambda>(v, n). pn_id n" "\<lambda>(v, n). \<lparr>rk_node = n, rk_value = Fin 0\<rparr>"
    "\<lambda>(v, n) r. r\<lparr>rk_value := num_add (rk_value r) v\<rparr>" "\<lambda>(v, n). v" rk_value
  by unfold_locales auto

lemma stage_ranks:
  "fold (\<lambda>r. add_rank (amt r) (node r)) rows [] = rank_tally.run (map (\<lambda>r. (amt r, node r)) rows) []"
  by (simp add: rank_tally.run_def fold_map comp_def add_rank_def)

lemma stage_rank_of_row:
  assumes "(i, x) \<in> set (fold (\<lambda>r. add_rank (amt r) (node r)) rows [])"
  obtains r where "r \<in> set rows" "i = pn_id (node r)" "rk_node x = node r"
proof -
  have "\<exists>r\<in>set rows. i = pn_id (node r) \<and> rk_node x = node r"
    using assms unfolding stage_ranks
    by (rule rank_tally.run_entries [rotated 2]) auto
  with that show thesis by blast
qed

lemma chosen_except:
  "chosen (selectedNodeFiltersExceptKind selected s) k = (if k = s then {} else chosen selected k)"
  by (auto simp: selectedNodeFiltersExceptKind_def chosen_def)

text \<open>C32. No offered option is a dead end: choosing one, whatever is chosen already, leaves at
  least one row to show.\<close>

theorem offered_options_live:
  assumes "opt \<in> set (fd_nodes (buildDashboardFlowData lc scheme format_number rows metric options))"
  shows "\<exists>k. fo_kind opt = Some k \<and>
    filtered_rows rows (options\<lparr>op_selectedNodes := op_selectedNodes options @ [\<lparr>ff_kind = k, ff_id = fo_value opt\<rparr>]\<rparr>) \<noteq> []"
proof -
  let ?sel = "op_selectedNodes options" and ?ctx = "op_tokenLabel options" and ?stages = "flow_stages options"
  obtain s r where s: "s \<in> set ?stages" and kind: "fo_kind opt = Some s"
    and r: "r \<in> set (filterRowsByNodes (filterRows rows (op_selectedUsers options))
      (selectedNodeFiltersExceptKind ?sel s) ?stages ?ctx)"
    and v: "fo_value opt = pn_id (NODE_BUILDERS s ?ctx r)"
    using assms
    by (auto simp: buildDashboardFlowData_def buildNodeFilterOptions_def stage_options_def Let_def
        flow_stages_def [symmetric] elim!: stage_rank_of_row)
  have "row_chosen (?sel @ [\<lparr>ff_kind = s, ff_id = fo_value opt\<rparr>]) ?stages ?ctx r"
    using r s v by (auto simp: flow_stages_def filterRowsByNodes_chosen [OF distinct_stages] row_chosen_def chosen_except)
  moreover have "r \<in> set (filterRows rows (op_selectedUsers options))"
    using r by (simp add: flow_stages_def filterRowsByNodes_chosen [OF distinct_stages])
  ultimately have "r \<in> set (filtered_rows rows
      (options\<lparr>op_selectedNodes := ?sel @ [\<lparr>ff_kind = s, ff_id = fo_value opt\<rparr>]\<rparr>))"
    by (simp add: filtered_rows_def flow_stages_def filterRowsByNodes_chosen [OF distinct_stages])
  with kind show ?thesis by (auto dest: length_pos_if_in_set)
qed

lemma offered_views:
  "(\<lambda>opt. (fo_kind opt, fo_value opt)) ` set (buildNodeFilterOptions lc scheme format_number rows metric role vs palette ctx selected)
     = set (concat (map (\<lambda>stage. map (\<lambda>(k, r). (Some (pn_kind (rk_node r)), pn_id (rk_node r)))
         (fold (\<lambda>r. add_rank (metricValue (rowMetrics r) metric) (NODE_BUILDERS stage ctx r))
           (filterRowsByNodes rows (selectedNodeFiltersExceptKind selected stage) (resolveVisibleStages role vs) ctx) []))
         (resolveVisibleStages role vs)))"
  unfolding buildNodeFilterOptions_def Let_def set_array_sort stage_options_def
  by (simp add: image_UN image_image case_prod_unfold)

theorem offered_options_live_witness:
  "filtered_rows sample_rows (sample_options\<lparr>op_selectedNodes := op_selectedNodes sample_options @
     [\<lparr>ff_kind = KGroup, ff_id = J ''group:vip''\<rparr>]\<rparr>) \<noteq> []"
proof -
  have "(Some KGroup, J ''group:vip'') \<in> (\<lambda>opt. (fo_kind opt, fo_value opt)) ` set (fd_nodes sample_data)"
    unfolding sample_data_def buildDashboardFlowData_def Let_def flow_data.simps offered_views by code_simp
  then obtain opt where "opt \<in> set (fd_nodes sample_data)" "fo_kind opt = Some KGroup" "fo_value opt = J ''group:vip''"
    by auto
  with offered_options_live [of opt "\<lambda>a b. Fin 0" "[]" "\<lambda>n. []" sample_rows MQuota sample_options,
      folded sample_data_def]
  show ?thesis by simp
qed

section \<open>The limit\<close>

lemma rank_node_keys: "map fst (rank_node v n totals) = map fst totals"
proof (cases "map_of totals (pn_kind n)")
  case (Some m)
  then have "pn_kind n \<in> fst ` set totals" by (force dest: map_of_SomeD)
  then show ?thesis using Some by (simp add: rank_node_def update_keys)
qed (simp add: rank_node_def)

lemma stage_totals_keys: "map fst (stage_totals rows metric stages ctx) = stages"
proof -
  have path: "map fst (fold (rank_node v) path totals) = map fst totals" for v path totals
    by (induction path arbitrary: totals) (simp_all add: rank_node_keys)
  have "map fst (fold (\<lambda>r. fold (rank_node (metricValue (rowMetrics r) metric)) (flowPathForStages r stages ctx))
      rows totals) = map fst totals" for totals
    by (induction rows arbitrary: totals) (simp_all add: path)
  then show ?thesis by (simp add: stage_totals_def comp_def)
qed

lemma top_ids:
  assumes "k \<in> set stages"
  obtains ids where "Option.bind (buildTopNodeSets lc rows metric stages (Some n) ctx) (\<lambda>t. map_of t k) = Some ids"
    "length ids \<le> n"
proof -
  let ?t = "stage_totals rows metric stages ctx"
  obtain m where "map_of ?t k = Some m"
    using assms stage_totals_keys [of rows metric stages ctx] by (metis weak_map_of_SomeI option.exhaust map_of_eq_None_iff set_map)
  then have "Option.bind (buildTopNodeSets lc rows metric stages (Some n) ctx) (\<lambda>t. map_of t k)
      = Some (map (\<lambda>r. pn_id (rk_node r)) (take n (array_sort (compare_ranks lc) (map snd m))))"
    by (simp add: buildTopNodeSets_def map_of_map)
  then show thesis by (rule that) simp
qed

lemma limited_node:
  assumes "applyTopNodeLimit path tops mode labeler = Some q" "n \<in> set q" "tops \<noteq> None"
  shows "isTopFlowNode n tops \<or> mode \<noteq> Hide \<and> pn_id n = OTHER_FLOW_NODE_IDS (pn_kind n)"
  using assms by (auto simp: applyTopNodeLimit_def list_ex_iff otherFlowNode_def split: if_splits)

lemma tallied_node_id:
  assumes "(k, x) \<in> set (tallied_nodes color metric prepared)"
  shows "fn_id x = k"
  by (rule node_tally.run_entries [where P = "\<lambda>k x. fn_id x = k", OF _ _ assms])
    (auto simp: new_node_def grow_node_def)

lemma graph_node_ids: "distinct (map fn_id (fg_nodes (graph_of lc scheme prepared metric palette stages options)))"
proof -
  have "mset (map fn_id (fg_nodes (graph_of lc scheme prepared metric palette stages options)))
      = mset (map fn_id (map snd (tallied_nodes (path_colors lc scheme prepared palette) metric prepared)))"
    using arg_cong [OF graph_nodes [of lc scheme prepared metric palette stages options], of "image_mset fst"]
    by (simp only: mset_map [symmetric] map_map comp_def node_view_def fst_conv)
  also have "map fn_id (map snd (tallied_nodes (path_colors lc scheme prepared palette) metric prepared))
      = map fst (tallied_nodes (path_colors lc scheme prepared palette) metric prepared)"
    by (auto dest: tallied_node_id)
  finally have same: "mset (map fn_id (fg_nodes (graph_of lc scheme prepared metric palette stages options)))
      = mset (map fst (tallied_nodes (path_colors lc scheme prepared palette) metric prepared))" .
  show ?thesis by (rule mset_eq_imp_distinct_iff [OF same, THEN iffD2]) (rule node_tally.distinct_run)
qed

lemma graph_node_event:
  assumes "prepared_ok stages prepared"
    and "nd \<in> set (fg_nodes (graph_of lc scheme prepared metric palette stages' options))"
  obtains p n where "p \<in> set prepared" "n \<in> set (pp_path p)" "pn_id n = fn_id nd" "pn_kind n = fn_kind nd"
proof -
  let ?m = "tallied_nodes (path_colors lc scheme prepared palette) metric prepared"
  obtain k x where x: "(k, x) \<in> set ?m" "node_view nd = node_view x"
    using graph_node_entry [OF assms(2)] .
  from tallied_node [OF assms(1) x(1)] have k: "fn_id x = k" "has_kind (fn_kind x) k" by auto
  have "k \<in> fst ` set ?m" using x(1) by force
  then obtain p n where pn: "p \<in> set prepared" "n \<in> set (pp_path p)" "pn_id n = k"
    unfolding node_tally.keys_run by (auto simp: node_events_def)
  moreover have "pn_kind n = fn_kind x"
    using assms(1) pn k(2) by (auto simp: prepared_ok_def staged_def list_all_iff dest: has_kind_unique)
  ultimately show thesis using that k(1) x(2) by (simp add: node_view_def)
qed

text \<open>C33. A limit bounds every column: at most that many nodes of a stage are shown, and one more,
  which stands for all the others, unless the others are hidden.\<close>

theorem flow_limit:
  assumes "normalizeTopNodeLimit (go_topNodeLimit (op_graph options)) = Some n"
  shows "length (filter (\<lambda>nd. fn_kind nd = k)
      (fg_nodes (fd_flow (buildDashboardFlowData lc scheme format_number rows metric options))))
    \<le> (if go_overflowMode (op_graph options) = Some Hide then n else n + 1)"
proof -
  let ?nodes = "fg_nodes (fd_flow (buildDashboardFlowData lc scheme format_number rows metric options))"
  let ?ids = "fn_id ` set (filter (\<lambda>nd. fn_kind nd = k) ?nodes)"
  let ?tops = "buildTopNodeSets lc (filtered_rows rows options) metric (flow_stages options) (Some n) (op_tokenLabel options)"
  let ?other = "if go_overflowMode (op_graph options) = Some Hide then {} else {OTHER_FLOW_NODE_IDS k}"
  have ok: "prepared_ok (flow_stages options) (shown_paths lc rows metric options)"
    unfolding shown_paths_def by (rule prepared_paths_ok)
  have node: "k \<in> set (flow_stages options) \<and>
      (\<forall>ids. Option.bind ?tops (\<lambda>t. map_of t k) = Some ids \<longrightarrow> fn_id nd \<in> set ids \<union> ?other)"
    if nd: "nd \<in> set ?nodes" "fn_kind nd = k" for nd
  proof -
    obtain p m where pm: "p \<in> set (shown_paths lc rows metric options)" "m \<in> set (pp_path p)"
        "pn_id m = fn_id nd" "pn_kind m = k"
      using graph_node_event [OF ok nd(1) [unfolded chart_graph]] nd(2) by metis
    then obtain path where "applyTopNodeLimit path ?tops
        (case go_overflowMode (op_graph options) of None \<Rightarrow> Aggregate | Some m \<Rightarrow> m)
        (go_otherNodeLabel (op_graph options)) = Some (pp_path p)"
      using assms by (auto simp: shown_paths_def prepare_paths_def List.map_filter_def split: if_splits)
    from limited_node [OF this pm(2)] pm
    have "isTopFlowNode m ?tops \<or> fn_id nd \<in> ?other"
      by (auto simp: buildTopNodeSets_def split: option.splits)
    moreover have "map pn_kind (pp_path p) = flow_stages options"
      using ok pm(1) by (auto simp: prepared_ok_def staged_def list_all_iff)
    then have "k \<in> set (flow_stages options)" using pm(2,4) by (metis imageI set_map)
    ultimately show ?thesis using pm by (auto simp: isTopFlowNode_def split: option.splits)
  qed
  have "length (filter (\<lambda>nd. fn_kind nd = k) ?nodes) = card ?ids"
    using map_distinct_filter [OF graph_node_ids] unfolding chart_graph
    by (metis distinct_card length_map set_map)
  also have "\<dots> \<le> (if go_overflowMode (op_graph options) = Some Hide then n else n + 1)"
  proof (cases "?ids = {}")
    case False
    with node have "k \<in> set (flow_stages options)" by auto
    from top_ids [OF this] obtain ids where ids: "Option.bind ?tops (\<lambda>t. map_of t k) = Some ids" "length ids \<le> n" .
    have "?ids \<subseteq> set ids \<union> ?other"
      using node ids(1) by (simp only: image_subset_iff set_filter mem_Collect_eq) blast
    then have "card ?ids \<le> card (set ids \<union> ?other)" by (rule card_mono [rotated]) simp
    also have "\<dots> \<le> card (set ids) + card ?other" by (rule card_Un_le)
    also have "\<dots> \<le> n + card ?other" using card_length [of ids] ids(2) by simp
    finally show ?thesis by (simp split: if_splits)
  qed (simp add: card.empty)
  finally show ?thesis .
qed

theorem flow_limit_witness:
  "length (filter (\<lambda>nd. fn_kind nd = KToken) (fg_nodes (fd_flow (buildDashboardFlowData (\<lambda>a b. Fin 0) []
     (\<lambda>n. []) sample_rows MQuota (sample_options\<lparr>op_graph := (op_graph sample_options)\<lparr>go_topNodeLimit := Some (Fin 1)\<rparr>\<rparr>))))) \<le> 2"
proof -
  let ?options = "sample_options\<lparr>op_graph := (op_graph sample_options)\<lparr>go_topNodeLimit := Some (Fin 1)\<rparr>\<rparr>"
  have "normalizeTopNodeLimit (go_topNodeLimit (op_graph ?options)) = Some 1" by code_simp
  from flow_limit [OF this, of KToken "\<lambda>a b. Fin 0" "[]" "\<lambda>n. []" sample_rows MQuota]
  show ?thesis by (simp add: sample_options_def)
qed

section \<open>Masked labels\<close>

definition node_face :: "flow_node \<Rightarrow> jsstr \<times> flow_kind \<times> jsstr" where
  "node_face n = (fn_id n, fn_kind n, fn_label n)"

definition link_face :: "flow_link \<Rightarrow> jsstr \<times> jsstr \<times> jsstr \<times> jsstr" where
  "link_face l = (fl_source l, fl_target l, fl_sourceLabel l, fl_targetLabel l)"

lemma face_highlighted [simp]:
  "map node_face (fst (applyFlowHighlights sets ns ls)) = map node_face ns"
  "map link_face (snd (applyFlowHighlights sets ns ls)) = map link_face ls"
  by (auto simp: applyFlowHighlights_def node_face_def link_face_def split: option.split)

lemma face_coloured [simp]: "map link_face (assignLinkDisplayColors lc ls) = map link_face ls"
  by (auto simp: assignLinkDisplayColors_def link_face_def Let_def)

lemma face_shares [simp]: "map link_face (with_shares srcs ls) = map link_face ls"
  by (auto simp: with_shares_def link_face_def Let_def)

lemma set_map_sort: "set (map f (array_sort cmp xs)) = set (map f xs)"
  by (simp only: set_map set_array_sort)

lemma masked_faces:
  assumes "go_maskSensitive options"
  shows "set (map node_face (fg_nodes (graph_of lc scheme prepared metric palette stages options)))
      = set (map node_face (map mask_node (map snd
          (tallied_nodes (path_colors lc scheme prepared palette) metric prepared))))"
    and "set (map link_face (fg_links (graph_of lc scheme prepared metric palette stages options)))
      = set (map link_face (map (mask_link (masked_labels (map snd
          (tallied_nodes (path_colors lc scheme prepared palette) metric prepared)))) (map snd
          (tallied_links (path_colors lc scheme prepared palette) metric prepared))))"
proof -
  have unmasked: "mask_link [] l = l" for l
    by (simp add: mask_link_def)
  have "map snd (fst (maskFlowGraphLabels ns ls)) = map mask_node (map snd ns)"
    "map snd (snd (maskFlowGraphLabels ns ls)) = map (mask_link (masked_labels (map snd ns))) (map snd ls)" for ns ls
    by (auto simp: maskFlowGraphLabels_def Let_def unmasked)
  with assms show "set (map node_face (fg_nodes (graph_of lc scheme prepared metric palette stages options)))
      = set (map node_face (map mask_node (map snd
          (tallied_nodes (path_colors lc scheme prepared palette) metric prepared))))"
    "set (map link_face (fg_links (graph_of lc scheme prepared metric palette stages options)))
      = set (map link_face (map (mask_link (masked_labels (map snd
          (tallied_nodes (path_colors lc scheme prepared palette) metric prepared)))) (map snd
          (tallied_links (path_colors lc scheme prepared palette) metric prepared))))"
    unfolding graph_of_def Let_def built_graph path_colors_def [symmetric]
    by (simp_all only: flow_graph.simps set_map_sort face_highlighted face_coloured face_shares
        if_True fst_conv snd_conv)
qed

lemma plain_faces:
  assumes "\<not> go_maskSensitive options"
  shows "set (map node_face (fg_nodes (graph_of lc scheme prepared metric palette stages options)))
      = set (map node_face (map snd
          (tallied_nodes (path_colors lc scheme prepared palette) metric prepared)))"
    and "set (map link_face (fg_links (graph_of lc scheme prepared metric palette stages options)))
      = set (map link_face (map snd
          (tallied_links (path_colors lc scheme prepared palette) metric prepared)))"
  using assms unfolding graph_of_def Let_def built_graph path_colors_def [symmetric]
  by (simp_all only: flow_graph.simps set_map_sort face_highlighted face_coloured face_shares
      if_False fst_conv snd_conv)

text \<open>The mask of a node is looked up by its id, which no other node has.\<close>

lemma fold_update_other:
  "k \<notin> set (map i ns) \<Longrightarrow> map_of (fold (\<lambda>n. AList.update (i n) (g n)) ns m) k = map_of m k"
  by (induction ns arbitrary: m) (auto simp: update_conv')

lemma fold_update_own:
  "n \<in> set ns \<Longrightarrow> distinct (map i ns) \<Longrightarrow> map_of (fold (\<lambda>n. AList.update (i n) (g n)) ns m) (i n) = Some (g n)"
proof (induction ns arbitrary: m)
  case (Cons x ns)
  show ?case
  proof (cases "n = x")
    case True
    then have "i n \<notin> set (map i ns)" using Cons.prems(2) by simp
    from fold_update_other [OF this, of g "AList.update (i x) (g x) m"] show ?thesis using True by (simp add: update_conv')
  qed (use Cons in simp)
qed simp

lemma masked_label_of:
  assumes "n \<in> set nodes" "distinct (map fn_id nodes)"
  shows "map_of (masked_labels nodes) (fn_id n) = (if masked_node n then Some (maskFlowLabel (fn_label n)) else None)"
proof (cases "masked_node n")
  case True
  then show ?thesis unfolding masked_labels_def
    using assms by (subst fold_update_own) (simp_all add: map_distinct_filter)
next
  case False
  have "fn_id n \<notin> set (map fn_id (filter masked_node nodes))"
  proof
    assume "fn_id n \<in> set (map fn_id (filter masked_node nodes))"
    then obtain x where "x \<in> set nodes" "masked_node x" "fn_id x = fn_id n" by auto
    with assms False show False by (metis distinct_map inj_onD)
  qed
  from fold_update_other [OF this, of "\<lambda>n. maskFlowLabel (fn_label n)" "[]"] False show ?thesis by (simp add: masked_labels_def)
qed

text \<open>The ends of every link are nodes.\<close>

lemma tallied_link_ends:
  assumes "(k, l) \<in> set (tallied_links color metric prepared)"
  shows "fl_source l \<in> fst ` set (tallied_nodes color' metric' prepared) \<and>
    fl_target l \<in> fst ` set (tallied_nodes color' metric' prepared)"
proof -
  have "\<exists>p\<in>set prepared. fl_source l \<in> pn_id ` set (pp_path p) \<and> fl_target l \<in> pn_id ` set (pp_path p)"
  proof (rule link_tally.run_entries [where P = "\<lambda>k l. \<exists>p\<in>set prepared.
      fl_source l \<in> pn_id ` set (pp_path p) \<and> fl_target l \<in> pn_id ` set (pp_path p)", OF _ _ assms])
    fix e
    assume "e \<in> set (link_events prepared)"
    then obtain p s t where e: "e = (p, s, t)" "p \<in> set prepared" "(s, t) \<in> set (steps (pp_path p))"
      by (auto simp: link_events_def)
    then have "s \<in> set (pp_path p)" "t \<in> set (pp_path p)"
      by (cases "pp_path p"; auto simp: steps_def dest: set_zip_leftD set_zip_rightD)+
    with e show "\<exists>p\<in>set prepared.
        fl_source (case e of (p, s, t) \<Rightarrow> new_link s t (color (hd (pp_path p))) (pn_id (hd (pp_path p))))
          \<in> pn_id ` set (pp_path p) \<and>
        fl_target (case e of (p, s, t) \<Rightarrow> new_link s t (color (hd (pp_path p))) (pn_id (hd (pp_path p))))
          \<in> pn_id ` set (pp_path p)"
      by (auto simp: new_link_def)
  qed (simp add: grow_link_def split: prod.split)
  then show ?thesis unfolding node_tally.keys_run by (force simp: node_events_def)
qed

text \<open>What is private: who used the service, and through which key, group, node or channel. A model is
  not, nor is a node that has the id of a placeholder for the rest.\<close>

definition private_id :: "flow_kind \<Rightarrow> jsstr \<Rightarrow> bool" where
  "private_id kind i \<longleftrightarrow>
     (case kind of KModel \<Rightarrow> False | KUser \<Rightarrow> True | KNode \<Rightarrow> True | KToken \<Rightarrow> True | KGroup \<Rightarrow> True | KChannel \<Rightarrow> True) \<and>
     i \<notin> {J ''user:__other__'', J ''node:__other__'', J ''token:__other__'', J ''group:__other__'',
       J ''model:__other__'', J ''channel:__other__''}"

definition private_node :: "flow_node \<Rightarrow> bool" where
  "private_node nd \<longleftrightarrow> private_id (fn_kind nd) (fn_id nd)"

definition dots :: "jsstr \<Rightarrow> jsstr" where
  "dots label = (if label = [] then [] else [0x2022, 0x2022, 0x2022, 0x2022])"

lemma private_masked: "masked_node nd = private_node nd"
  by (auto simp: masked_node_def private_node_def private_id_def SENSITIVE_FLOW_KINDS_def OTHER_FLOW_NODE_ID_SET_def
      OTHER_FLOW_NODE_IDS_def FLOW_NODE_KINDS_def simp del: J_Cons split: flow_kind.splits)

lemma face_mask: "node_face (mask_node x) = (fn_id x, fn_kind x, if private_node x then dots (fn_label x) else fn_label x)"
  by (simp add: node_face_def mask_node_def private_masked maskFlowLabel_def dots_def FLOW_MASK_TEXT_def)

lemma private_face: "node_face a = node_face b \<Longrightarrow> private_node a = private_node b"
  by (simp add: node_face_def private_node_def)

definition without_mask :: "flow_options \<Rightarrow> flow_options" where
  "without_mask options = options\<lparr>op_graph := (op_graph options)\<lparr>go_maskSensitive := False\<rparr>\<rparr>"

lemma without_mask_graph:
  "fd_flow (buildDashboardFlowData lc scheme format_number rows metric (without_mask options)) =
     graph_of lc scheme (shown_paths lc rows metric options) metric (op_palette options)
       (flow_stages options) ((op_graph options)\<lparr>go_maskSensitive := False\<rparr>)"
  by (simp add: chart_graph without_mask_def shown_paths_def filtered_rows_def flow_stages_def)

text \<open>A link of the masked chart: it is a link of the chart without the mask, and the label at each end is
  dots when the node there is private and as it was otherwise.\<close>

definition masked_end :: "flow_node list \<Rightarrow> jsstr \<Rightarrow> jsstr \<Rightarrow> jsstr \<Rightarrow> bool" where
  "masked_end nodes i shown own \<longleftrightarrow>
     list_ex (\<lambda>nd. fn_id nd = i \<and> shown = (if private_node nd then dots (fn_label nd) else own)) nodes"

definition masked_copy :: "flow_node list \<Rightarrow> flow_link \<Rightarrow> flow_link \<Rightarrow> bool" where
  "masked_copy nodes l p \<longleftrightarrow> fl_source l = fl_source p \<and> fl_target l = fl_target p \<and>
     masked_end nodes (fl_source p) (fl_sourceLabel l) (fl_sourceLabel p) \<and>
     masked_end nodes (fl_target p) (fl_targetLabel l) (fl_targetLabel p)"

lemma looked_up_end:
  fixes ns :: node_map
  assumes "i \<in> fst ` set ns" "\<And>k x. (k, x) \<in> set ns \<Longrightarrow> fn_id x = k" "distinct (map fst ns)"
    and "\<And>x. x \<in> set (map snd ns) \<Longrightarrow> \<exists>nd\<in>set nodes. node_face nd = node_face x"
  shows "masked_end nodes i (case map_of (masked_labels (map snd ns)) i of None \<Rightarrow> own | Some x \<Rightarrow> x) own"
proof -
  have ids: "map fn_id (map snd ns) = map fst ns" using assms(2) by auto
  obtain x where x: "x \<in> set (map snd ns)" "fn_id x = i" using assms(1,2) by fastforce
  obtain nd where nd: "nd \<in> set nodes" "node_face nd = node_face x" using assms(4) [OF x(1)] by blast
  have "map_of (masked_labels (map snd ns)) i = (if private_node x then Some (dots (fn_label x)) else None)"
    using masked_label_of [OF x(1)] assms(3) x(2)
    by (simp only: ids private_masked maskFlowLabel_def dots_def FLOW_MASK_TEXT_def) simp
  moreover have "private_node nd = private_node x" "fn_label nd = fn_label x" "fn_id nd = i"
    using private_face [OF nd(2)] nd(2) x(2) by (auto simp: node_face_def)
  ultimately show ?thesis using nd(1) by (auto simp: masked_end_def list_ex_iff)
qed

text \<open>C10. Masking. The nodes of the masked chart are those of the chart without the mask; the label of a
  private node, that of a user, a node, a token, a group or a channel, is replaced by dots unless it is
  empty, and a model and a node with the id of a placeholder keep theirs. The same holds of the labels at
  both ends of every link.\<close>

theorem flow_masking:
  assumes "go_maskSensitive (op_graph options)"
    and chart: "chart = fd_flow (buildDashboardFlowData lc scheme format_number rows metric options)"
    and plain: "plain = fd_flow (buildDashboardFlowData lc scheme format_number rows metric (without_mask options))"
  shows "set (map (\<lambda>nd. (fn_id nd, fn_kind nd, fn_label nd)) (fg_nodes chart)) =
      set (map (\<lambda>nd. (fn_id nd, fn_kind nd, if private_node nd then dots (fn_label nd) else fn_label nd)) (fg_nodes plain)) \<and>
    list_all (\<lambda>l. list_ex (masked_copy (fg_nodes plain) l) (fg_links plain)) (fg_links chart)"
proof
  let ?ps = "shown_paths lc rows metric options"
  let ?ns = "tallied_nodes (path_colors lc scheme ?ps (op_palette options)) metric ?ps"
  let ?ls = "tallied_links (path_colors lc scheme ?ps (op_palette options)) metric ?ps"
  let ?shown = "\<lambda>nd. (fn_id nd, fn_kind nd, if private_node nd then dots (fn_label nd) else fn_label nd)"
  note faces = masked_faces [OF assms(1), of lc scheme ?ps metric "op_palette options" "flow_stages options",
      folded chart [unfolded chart_graph]]
  have off: "\<not> go_maskSensitive ((op_graph options)\<lparr>go_maskSensitive := False\<rparr>)" by simp
  note shown = plain_faces [OF off, of lc scheme ?ps metric "op_palette options" "flow_stages options",
      folded plain [unfolded without_mask_graph]]
  have node: "\<exists>nd\<in>set (fg_nodes plain). node_face nd = node_face x" if "x \<in> set (map snd ?ns)" for x
  proof -
    have "node_face x \<in> set (map node_face (map snd ?ns))" unfolding set_map [of node_face] using that by (rule imageI)
    then have "node_face x \<in> set (map node_face (fg_nodes plain))" unfolding shown(1) .
    then show ?thesis by auto
  qed
  have face: "?shown ` A = (\<lambda>(i, k, label). (i, k, if private_id k i then dots label else label)) ` node_face ` A" for A
    by (simp add: image_image node_face_def private_node_def)
  have "set (map node_face (fg_nodes chart)) = ?shown ` set (map snd ?ns)"
    unfolding faces(1) by (auto simp: face_mask)
  also have "\<dots> = ?shown ` set (fg_nodes plain)"
    unfolding face using shown(1) by (simp only: set_map [of node_face])
  finally show "set (map (\<lambda>nd. (fn_id nd, fn_kind nd, fn_label nd)) (fg_nodes chart)) = set (map ?shown (fg_nodes plain))"
    by (simp add: node_face_def)
  have "\<exists>p\<in>set (fg_links plain). masked_copy (fg_nodes plain) l p" if "l \<in> set (fg_links chart)" for l
  proof -
    have "link_face l \<in> set (map link_face (fg_links chart))" using that by simp
    then obtain k x where x: "(k, x) \<in> set ?ls" "link_face l = link_face (mask_link (masked_labels (map snd ?ns)) x)"
      unfolding faces(2) by fastforce
    have "link_face x \<in> set (map link_face (fg_links plain))" unfolding shown(2) using x(1) by force
    then obtain p where p: "p \<in> set (fg_links plain)" "link_face p = link_face x" by auto
    have ends: "fl_source x \<in> fst ` set ?ns" "fl_target x \<in> fst ` set ?ns"
      using tallied_link_ends [OF x(1)] by blast+
    have ids: "\<And>k n. (k, n) \<in> set ?ns \<Longrightarrow> fn_id n = k" by (rule tallied_node_id)
    note up = looked_up_end [of _ ?ns, OF _ ids node_tally.distinct_run node]
    have "masked_copy (fg_nodes plain) l p"
      using up [OF ends(1), of "fl_sourceLabel x"] up [OF ends(2), of "fl_targetLabel x"] x(2) p(2)
      by (simp add: masked_copy_def link_face_def mask_link_def)
    with p(1) show ?thesis by blast
  qed
  then show "list_all (\<lambda>l. list_ex (masked_copy (fg_nodes plain) l) (fg_links plain)) (fg_links chart)"
    unfolding list_all_iff list_ex_iff by blast
qed

definition sample_plain :: flow_graph where
  "sample_plain = fd_flow (buildDashboardFlowData (\<lambda>a b. Fin 0) [] (\<lambda>n. []) sample_rows MQuota (without_mask sample_options))"

theorem flow_masking_witness:
  "set (map (\<lambda>nd. (fn_id nd, fn_kind nd, fn_label nd)) (fg_nodes (fd_flow sample_data))) =
      set (map (\<lambda>nd. (fn_id nd, fn_kind nd, if private_node nd then dots (fn_label nd) else fn_label nd)) (fg_nodes sample_plain)) \<and>
    list_all (\<lambda>l. list_ex (masked_copy (fg_nodes sample_plain) l) (fg_links sample_plain)) (fg_links (fd_flow sample_data))"
  by (rule flow_masking [OF _ sample_data_def [THEN arg_cong, of fd_flow] sample_plain_def]) (simp add: sample_options_def)

text \<open>Ids are not unique: a user without a number whose name is the number of another shares the
  node of that other, and a group named as the placeholder is the placeholder, which is not masked.\<close>

lemma user_ids_collide:
  "pn_id (userNode (undefined\<lparr>user_id := Some (Fin 5)\<rparr>)) =
     pn_id (userNode (undefined\<lparr>user_id := None, username := Some (J ''5'')\<rparr>))"
proof -
  have "to_str (Fin 5) = J ''5''" by code_simp
  then show ?thesis by (simp add: userNode_def Let_def flow_number_def positive_def str_or_def)
qed

lemma placeholder_group_unmasked:
  "pn_id (groupNode (undefined\<lparr>use_group := Some (J ''__other__'')\<rparr>)) \<in> set OTHER_FLOW_NODE_ID_SET"
  by (simp add: groupNode_def str_or_def OTHER_FLOW_NODE_ID_SET_def FLOW_NODE_KINDS_def OTHER_FLOW_NODE_IDS_def Let_def)

end
