(* ===== verification/JsonPrint.thy ===== *)
theory JsonPrint
  imports JsonText
begin

text \<open>
  \<open>JSON.stringify(v, null, gap)\<close> and the round trip through \<open>JSON.parse\<close> for values with finite
  numbers: what \<open>String(x)\<close> prints is a JSON number that reads back as \<open>x\<close>.
\<close>

section \<open>Numbers\<close>

text \<open>A text after which a number ends.\<close>

definition stops :: "jsstr \<Rightarrow> bool" where
  "stops r \<longleftrightarrow> (case r of [] \<Rightarrow> True | c # _ \<Rightarrow> \<not> is_digit c \<and> c \<noteq> 46 \<and> c \<noteq> 101 \<and> c \<noteq> 69)"

lemma stops_Nil [simp]: "stops []"
  by (simp add: stops_def)

lemma takeWhile_stops: "stops r \<Longrightarrow> list_all is_digit w \<Longrightarrow> takeWhile is_digit (w @ r) = w"
  by (cases r) (simp_all add: stops_def)

lemma dropWhile_stops: "stops r \<Longrightarrow> list_all is_digit w \<Longrightarrow> dropWhile is_digit (w @ r) = r"
  by (cases r) (simp_all add: stops_def)

lemma read_exp_stops: "stops r \<Longrightarrow> read_exp r = (0, r)"
  by (cases r) (simp_all add: stops_def read_exp_def)

lemma read_exp_show:
  assumes "stops r"
  shows "read_exp (show_exp e @ r) = (e, r)"
proof -
  have d: "starts_with (dec n @ r) [45] \<longleftrightarrow> False" "starts_with (dec n @ r) [43] \<longleftrightarrow> False"
    if "0 \<le> n" for n
    using digits_hd [OF dec_digits [OF that]] by auto
  have w: "takeWhile is_digit (dec n @ r) = dec n" "dropWhile is_digit (dec n @ r) = r" if "0 \<le> n" for n
    using takeWhile_stops [OF assms dec_digits [OF that]] dropWhile_stops [OF assms dec_digits [OF that]]
    by blast+
  show ?thesis by (simp add: read_exp_def show_exp_def undec_dec d w)
qed

text \<open>The parts of a printed number: no leading zero, a fraction with digits, an exponent.\<close>

definition number_parts :: "jsstr \<Rightarrow> jsstr \<Rightarrow> jsstr \<Rightarrow> bool" where
  "number_parts ip fp t \<longleftrightarrow> list_all is_digit ip \<and> ip \<noteq> [] \<and> (ip = [48] \<or> hd ip \<noteq> 48) \<and>
     list_all is_digit fp \<and> (t = [] \<or> (\<exists>e. t = show_exp e))"

definition number_layout :: "jsstr \<Rightarrow> jsstr \<Rightarrow> jsstr \<Rightarrow> jsstr" where
  "number_layout ip fp t = ip @ (if fp = [] then [] else 46 # fp) @ t"

lemma json_number_layout:
  assumes p: "number_parts ip fp t" and r: "stops r"
  shows "json_number ((if neg then [45] else []) @ number_layout ip fp t @ r) =
    Some (rnd_sg neg (of_int (undec (ip @ fp)) * pow10 (fst (read_exp t) - int (length fp))), r)"
proof -
  have ip: "list_all is_digit ip" "ip \<noteq> []" and fp: "list_all is_digit fp"
    using p by (auto simp: number_parts_def)
  let ?w = "(if fp = [] then [] else 46 # fp) @ t @ r"
  have t: "stops (t @ r) \<and> t = [] \<or> (\<exists>e. t = show_exp e \<and> (\<exists>u. t = 101 # u))"
    using p r show_exp_shape by (auto simp: number_parts_def)
  then have nd: "\<not> starts_with (t @ r) [46]" "takeWhile is_digit (t @ r) = []"
    by (auto simp: stops_def split: list.splits)
  have ex: "read_exp (t @ r) = (fst (read_exp t), r)"
  proof -
    consider "t = []" | e where "t = show_exp e" using p by (auto simp: number_parts_def)
    then show ?thesis by cases (simp_all add: read_exp_stops [OF r] read_exp_show [OF r])
  qed
  obtain a u where a: "ip = a # u" "is_digit a" using digits_hd [OF ip] by auto
  have ne: "\<not> starts_with (number_layout ip fp t @ r) [45]"
    using a by (auto simp: number_layout_def is_digit_def)
  have head: "(if starts_with (ip @ ?w) [48] then [48] else takeWhile is_digit (ip @ ?w)) = ip"
  proof (cases "ip = [48]")
    case False
    then have "a \<noteq> 48" using p a by (auto simp: number_parts_def)
    moreover have "takeWhile is_digit ?w = []" using nd by simp
    ultimately show ?thesis using a ip(1) by simp
  qed simp
  have frac: "(if starts_with ?w [46] then takeWhile is_digit (tl ?w) else []) = fp"
    using nd fp by simp
  let ?s = "(if neg then [45] else []) @ number_layout ip fp t @ r"
  have sign: "starts_with ?s [45] = neg" "(if neg then tl ?s else ?s) = ip @ ?w"
    using ne by (cases neg; simp add: number_layout_def)+
  have rest: "drop (length ip) (ip @ ?w) = ?w" by simp
  have tail: "drop (if fp = [] then 0 else Suc (length fp)) ?w = t @ r" by simp
  show ?thesis
    unfolding json_number_def Let_def sign head rest frac tail ex prod.case using ip(2) by simp
qed

lemma read_decimal_layout:
  assumes "number_parts ip fp t"
  shows "read_decimal (number_layout ip fp t) =
    Some (of_int (undec (ip @ fp)) * pow10 (fst (read_exp t) - int (length fp)), [])"
proof -
  have p: "list_all is_digit ip" "ip \<noteq> []" "list_all is_digit fp" and t: "t = [] \<or> (\<exists>e. t = show_exp e)"
    using assms by (auto simp: number_parts_def)
  have s: "t = [] \<or> (\<exists>u. t = 101 # u)" and e: "snd (read_exp t) = []"
    using t show_exp_shape by auto
  show ?thesis
  proof (cases "fp = []")
    case True
    with read_decimal_tail [OF p(1,2) s] e show ?thesis by (simp add: number_layout_def)
  next
    case False
    with read_decimal_frac_tail [OF p(1,3,2) s] e show ?thesis by (simp add: number_layout_def)
  qed
qed

lemma dec_hd: "0 < n \<Longrightarrow> hd (dec n) \<noteq> 48"
proof (induction n rule: dec.induct)
  case (1 n)
  show ?case
  proof (cases "n < 10")
    case True
    with 1(2) show ?thesis by (subst dec.simps) simp
  next
    case False
    then have "hd (dec (n div 10)) \<noteq> 48" using 1 by simp
    with False show ?thesis by (subst dec.simps) (simp add: hd_append)
  qed
qed

lemma show_pos_number:
  assumes "is_num (Fin x)" "0 < x"
  obtains ip fp t where "show_pos x = number_layout ip fp t" "number_parts ip fp t"
proof -
  obtain s k n where skn: "shortest 1500 x (dec_exp x) 1 = (s, k, n)" by (metis prod_cases3)
  with shortest_double [OF assms] have g: "1 \<le> k" "10 ^ nat (k - 1) \<le> s" "s < 10 ^ nat k"
    by (auto simp: good_digits_def)
  then have s: "0 < s" by (meson less_le_trans zero_less_numeral zero_less_power)
  have len: "int (length (dec s)) = k" using g by (rule length_dec_eq)
  have d: "list_all is_digit (dec s)" "dec s \<noteq> []" "hd (dec s) \<noteq> 48"
    using dec_digits [of s] s dec_hd [OF s] by auto
  then have part: "list_all is_digit (take i (dec s))" "list_all is_digit (drop i (dec s))"
    "0 < i \<Longrightarrow> take i (dec s) \<noteq> [] \<and> hd (take i (dec s)) \<noteq> 48" for i
    by (auto simp: list_all_iff hd_take dest: in_set_takeD in_set_dropD)
  have z: "list_all is_digit (replicate i 48)" for i by (simp add: list_all_iff is_digit_def)
  consider (a) "k \<le> n" "n \<le> 21" | (b) "n < k" "0 < n" "n \<le> 21" | (c) "- 6 < n" "n \<le> 0"
    | (d) "n \<le> - 6 \<or> 21 < n" "k = 1" | (e) "n \<le> - 6 \<or> 21 < n" "k \<noteq> 1" using g(1) by linarith
  then show thesis
  proof cases
    case a
    then have "show_pos x = number_layout (dec s @ replicate (nat (n - k)) 48) [] []"
      by (simp add: show_pos_def skn Let_def number_layout_def)
    moreover have "number_parts (dec s @ replicate (nat (n - k)) 48) [] []"
      using d z by (simp add: number_parts_def hd_append)
    ultimately show thesis by (rule that)
  next
    case b
    then have "drop (nat n) (dec s) \<noteq> []" using len by simp
    with b have "show_pos x = number_layout (take (nat n) (dec s)) (drop (nat n) (dec s)) []"
      by (simp add: show_pos_def skn Let_def number_layout_def)
    moreover have "number_parts (take (nat n) (dec s)) (drop (nat n) (dec s)) []"
      using part(1,2) d b by (simp add: number_parts_def hd_take)
    ultimately show thesis by (rule that)
  next
    case c
    then have "show_pos x = number_layout [48] (replicate (nat (- n)) 48 @ dec s) []"
      using g(1) by (simp add: show_pos_def skn Let_def number_layout_def)
    moreover have "number_parts [48] (replicate (nat (- n)) 48 @ dec s) []"
      using d z by (simp add: number_parts_def is_digit_def)
    ultimately show thesis by (rule that)
  next
    case d
    then have "show_pos x = number_layout (dec s) [] (show_exp (n - 1))"
      by (auto simp: show_pos_def skn Let_def number_layout_def)
    moreover have "number_parts (dec s) [] (show_exp (n - 1))"
      using \<open>list_all is_digit (dec s)\<close> \<open>hd (dec s) \<noteq> 48\<close> by (auto simp: number_parts_def)
    ultimately show thesis by (rule that)
  next
    case e
    then have "drop 1 (dec s) \<noteq> []" using len g(1) by auto
    with e have "show_pos x = number_layout (take 1 (dec s)) (drop 1 (dec s)) (show_exp (n - 1))"
      using g(1) by (auto simp: show_pos_def skn Let_def number_layout_def)
    moreover have "number_parts (take 1 (dec s)) (drop 1 (dec s)) (show_exp (n - 1))"
      using part by (auto simp: number_parts_def)
    ultimately show thesis by (rule that)
  qed
qed

text \<open>What is printed of a finite number is read as that number, up to the text that follows.\<close>

lemma json_number_to_str:
  assumes "is_num (Fin x)" "stops r"
  shows "json_number (to_str (Fin x) @ r) = Some (Fin x, r)"
proof -
  have pos: "json_number ((if neg then [45] else []) @ show_pos y @ r) = Some (Fin (if neg then - y else y), r)"
    if y: "is_num (Fin y)" "0 < y" for y neg
  proof -
    obtain ip fp t where w: "show_pos y = number_layout ip fp t" "number_parts ip fp t"
      using show_pos_number [OF y] by blast
    obtain q where q: "read_decimal (show_pos y) = Some (q, [])" "rnd q = Fin y"
      using show_pos_digits(1) [OF y] by blast
    with read_decimal_layout [OF w(2)] w(1)
    have "of_int (undec (ip @ fp)) * pow10 (fst (read_exp t) - int (length fp)) = q" by simp
    with json_number_layout [OF w(2) assms(2), of neg] rnd_sg_neg [OF q(2) y(2)] show ?thesis
      by (simp add: w(1))
  qed
  consider "x = 0" | "0 < x" | "x < 0" by linarith
  then show ?thesis
  proof cases
    case 1
    have "number_parts [48] [] []" by (simp add: number_parts_def is_digit_def)
    from json_number_layout [OF this assms(2), of False] 1 show ?thesis
      by (simp add: number_layout_def undec_single zero_of_def)
  next
    case 2
    with pos [OF assms(1), of False] show ?thesis by simp
  next
    case 3
    have "is_num (Fin (- x))" using is_num_neg [OF assms(1)] 3 by simp
    with pos [of "- x" True] 3 show ?thesis by simp
  qed
qed

lemma to_str_start: "is_num (Fin x) \<Longrightarrow> \<exists>c t. to_str (Fin x) = c # t \<and> (c = 45 \<or> is_digit c)"
proof -
  assume n: "is_num (Fin x)"
  have pos: "\<exists>c t. show_pos y = c # t \<and> is_digit c" if y: "is_num (Fin y)" "0 < y" for y
    using show_pos_digits(2) [OF y] by blast
  consider "x = 0" | "0 < x" | "x < 0" by linarith
  then show ?thesis
  proof cases
    case 1
    then show ?thesis by (simp add: is_digit_def)
  next
    case 2
    with pos [OF n] show ?thesis by auto
  next
    case 3
    then show ?thesis by simp
  qed
qed

section \<open>Printing with a gap\<close>

text \<open>With an empty gap everything is on one line; otherwise every element starts a line, indented by
  one gap more than the line of its container.\<close>

definition new_line :: "jsstr \<Rightarrow> jsstr \<Rightarrow> jsstr" where
  "new_line gap indent = (if gap = [] then [] else 10 # indent)"

fun json_print :: "jsstr \<Rightarrow> jsstr \<Rightarrow> json \<Rightarrow> jsstr" where
  "json_print gap indent (JArr xs) =
     (if xs = [] then J ''[]''
      else [91] @ new_line gap (indent @ gap) @
        join (44 # new_line gap (indent @ gap)) (map (json_print gap (indent @ gap)) xs) @
        new_line gap indent @ [93])"
| "json_print gap indent (JObj m) =
     (if m = [] then J ''{}''
      else [123] @ new_line gap (indent @ gap) @
        join (44 # new_line gap (indent @ gap)) (map (\<lambda>(k, t). json_quote k @ (if gap = [] then [58] else [58, 32]) @ t)
          (own_entries (map (\<lambda>p. (fst p, json_print gap (indent @ gap) (snd p))) m))) @
        new_line gap indent @ [125])"
| "json_print gap indent JNull = J ''null''"
| "json_print gap indent (JBool b) = (if b then J ''true'' else J ''false'')"
| "json_print gap indent (JNum x) = (if is_finite x then to_str x else J ''null'')"
| "json_print gap indent (JStr s) = json_quote s"

text \<open>Values that are read back: finite numbers other than negative zero, strings of code units, and
  objects that list their properties in their order.\<close>

fun writable :: "json \<Rightarrow> bool" where
  "writable JNull \<longleftrightarrow> True"
| "writable (JBool b) \<longleftrightarrow> True"
| "writable (JNum x) \<longleftrightarrow> is_finite x \<and> x \<noteq> NZero \<and> is_num x"
| "writable (JStr s) \<longleftrightarrow> utf16 s"
| "writable (JArr xs) \<longleftrightarrow> list_all writable xs"
| "writable (JObj m) \<longleftrightarrow> distinct (map fst m) \<and> own_entries m = m \<and> list_all utf16 (map fst m) \<and>
     list_all writable (map snd m)"

lemma sort_key_map: "sort_key f (map g xs) = map g (sort_key (\<lambda>a. f (g a)) xs)"
proof -
  have ins: "insort_key f (g x) (map g ys) = map g (insort_key (\<lambda>a. f (g a)) x ys)" for x ys
    by (induction ys) auto
  show ?thesis by (induction xs) (simp_all add: ins sort_key_def)
qed

lemma own_entries_map:
  "own_entries (map (\<lambda>p. (fst p, f (snd p))) m) = map (\<lambda>p. (fst p, f (snd p))) (own_entries m)"
  by (simp add: own_entries_def filter_map sort_key_map comp_def case_prod_unfold)

definition member_print :: "jsstr \<Rightarrow> jsstr \<Rightarrow> jsstr \<times> json \<Rightarrow> jsstr" where
  "member_print gap indent p =
     json_quote (fst p) @ (if gap = [] then [58] else [58, 32]) @ json_print gap indent (snd p)"

lemma json_print_obj:
  "own_entries m = m \<Longrightarrow> m \<noteq> [] \<Longrightarrow> json_print gap indent (JObj m) =
     [123] @ new_line gap (indent @ gap) @
     join (44 # new_line gap (indent @ gap)) (map (member_print gap (indent @ gap)) m) @
     new_line gap indent @ [125]"
  by (simp add: own_entries_map member_print_def [abs_def] comp_def case_prod_unfold)

definition blanks :: "jsstr \<Rightarrow> bool" where
  "blanks s \<longleftrightarrow> list_all json_ws s"

lemma skip_blanks [simp]: "blanks s \<Longrightarrow> skip_ws (s @ t) = skip_ws t"
  by (simp add: blanks_def skip_ws_def)

lemma blanks_append [simp]: "blanks (s @ t) \<longleftrightarrow> blanks s \<and> blanks t" "blanks []"
  by (auto simp: blanks_def)

lemma blanks_new_line [simp]: "blanks indent \<Longrightarrow> blanks (new_line gap indent)"
  by (simp add: blanks_def new_line_def json_ws_def)

lemma stops_blank: "blanks s \<Longrightarrow> stops r \<Longrightarrow> stops (s @ r)"
  by (cases s) (auto simp: stops_def blanks_def json_ws_def is_digit_def)

lemma stops_marks [simp]: "stops (44 # s)" "stops (93 # s)" "stops (125 # s)"
  by (simp_all add: stops_def is_digit_def)

text \<open>What is read from a printed value, with enough fuel, whatever white space is before it.\<close>

definition prints :: "jsstr \<Rightarrow> json \<Rightarrow> bool" where
  "prints gap v \<longleftrightarrow> (\<forall>b indent r. blanks b \<longrightarrow> blanks indent \<longrightarrow> stops r \<longrightarrow>
     (\<exists>n. \<forall>f \<ge> n. json_value f (b @ json_print gap indent v @ r) = Some (v, r)))"

lemma print_start:
  assumes "writable v"
  shows "\<exists>c t. json_print gap indent v = c # t \<and> \<not> json_ws c \<and> c \<noteq> 93 \<and> c \<noteq> 125"
proof (cases v)
  case (JNum x)
  with assms obtain q where "x = Fin q" "is_num (Fin q)" by (cases x) auto
  with JNum to_str_start [of q] show ?thesis by (auto simp: json_ws_def is_digit_def)
qed (auto simp: json_ws_def json_quote_shape)

lemma print_elems:
  assumes "xs \<noteq> []" "\<And>x. x \<in> set xs \<Longrightarrow> prints gap x" "blanks b" "blanks i" "blanks l" "blanks e"
  shows "\<exists>n. \<forall>f \<ge> n. json_elems f (b @ join (44 # l) (map (json_print gap i) xs) @ e @ 93 # r) = Some (xs, r)"
  using assms
proof (induction xs arbitrary: b)
  case (Cons x xs)
  have x: "\<exists>n. \<forall>f \<ge> n. json_value f (b @ json_print gap i x @ q) = Some (x, q)" if "stops q" for q
    using Cons.prems(2) [of x] Cons.prems(3,4) that by (simp add: prints_def)
  show ?case
  proof (cases "xs = []")
    case True
    have "stops (e @ 93 # r)" using Cons.prems(6) by (rule stops_blank) simp
    from x [OF this] have "\<exists>n. \<forall>f \<ge> n. json_elems f (b @ json_print gap i x @ e @ 93 # r) = Some ([x], r)"
      by (rule fuel_suc) (use Cons.prems(6) in \<open>simp add: skip_ws_self json_ws_def\<close>)
    with True show ?thesis by simp
  next
    case False
    let ?t = "l @ join (44 # l) (map (json_print gap i) xs) @ e @ 93 # r"
    have ih: "\<exists>n. \<forall>f \<ge> n. json_elems f ?t = Some (xs, r)"
      using Cons.IH [OF False _ Cons.prems(5,4,5,6)] Cons.prems(2) by simp
    have "\<exists>n. \<forall>f \<ge> n. json_elems f (b @ json_print gap i x @ 44 # ?t) = Some (x # xs, r)"
      by (rule fuel_suc [OF enough_fuel [OF x [of "44 # ?t"] ih]]) (simp_all add: skip_ws_self json_ws_def)
    with False show ?thesis by (simp add: join_Cons)
  qed
qed simp

lemma member_step:
  assumes "json_value f ((if gap = [] then [] else [32]) @ json_print gap i v @ q) = Some (v, q)"
    and "utf16 k" "blanks b"
  shows "json_members (Suc f) a (b @ member_print gap i (k, v) @ q) =
    (case skip_ws q of [] \<Rightarrow> None
     | c # z \<Rightarrow> if c = 44 then json_members f (obj_put k v a) z
         else if c = 125 then Some (JObj (obj_put k v a), z) else None)"
proof -
  have "skip_ws (b @ member_print gap i (k, v) @ q)
      = 34 # json_body k @ 34 # 58 # (if gap = [] then [] else [32]) @ json_print gap i v @ q"
    using assms(3) by (simp add: member_print_def json_quote_shape)
  moreover have "read_body (json_body k @ 34 # t) = Some (k, t)" for t
    using read_json_body [OF assms(2)] .
  ultimately show ?thesis using assms(1) by (simp add: skip_ws_self json_ws_def)
qed

lemma print_members:
  assumes "m \<noteq> []" "\<And>p. p \<in> set m \<Longrightarrow> utf16 (fst p) \<and> prints gap (snd p)" "distinct (map fst (a @ m))"
    and "blanks b" "blanks i" "blanks l" "blanks e"
  shows "\<exists>n. \<forall>f \<ge> n. json_members f a (b @ join (44 # l) (map (member_print gap i) m) @ e @ 125 # r)
    = Some (JObj (a @ m), r)"
  using assms
proof (induction m arbitrary: a b)
  case (Cons p m)
  obtain k v where p: "p = (k, v)" by (cases p)
  let ?c = "if gap = [] then [] else [32::int]"
  have c: "blanks ?c" by (simp add: blanks_def json_ws_def)
  have v: "\<exists>n. \<forall>f \<ge> n. json_value f (?c @ json_print gap i v @ q) = Some (v, q)" if "stops q" for q
    using Cons.prems(2) [of p] Cons.prems(5) that p c unfolding prints_def by auto
  have k: "utf16 k" "k \<notin> fst ` set a" using Cons.prems(2) [of p] Cons.prems(3) p by auto
  note put = obj_put_new [OF k(2), of v]
  show ?case
  proof (cases "m = []")
    case True
    have "stops (e @ 125 # r)" using Cons.prems(7) by (rule stops_blank) simp
    from v [OF this] have "\<exists>n. \<forall>f \<ge> n. json_members f a (b @ member_print gap i p @ e @ 125 # r) = Some (JObj (a @ [p]), r)"
      by (rule fuel_suc) (use Cons.prems(4,7) k in
        \<open>simp add: p member_step put skip_ws_self json_ws_def del: json_members.simps\<close>)
    with True show ?thesis by simp
  next
    case False
    let ?t = "l @ join (44 # l) (map (member_print gap i) m) @ e @ 125 # r"
    have ih: "\<exists>n. \<forall>f \<ge> n. json_members f (a @ [p]) ?t = Some (JObj ((a @ [p]) @ m), r)"
      using Cons.IH [OF False, of "a @ [p]" l] Cons.prems by simp
    have "\<exists>n. \<forall>f \<ge> n. json_members f a (b @ member_print gap i p @ 44 # ?t) = Some (JObj (a @ p # m), r)"
      by (rule fuel_suc [OF enough_fuel [OF v [of "44 # ?t"] ih]])
        (use Cons.prems(4) k in
          \<open>simp_all add: p member_step put skip_ws_self json_ws_def del: json_members.simps\<close>)
    with False show ?thesis by (simp add: join_Cons)
  qed
qed simp

lemma array_prints:
  assumes "\<And>x. x \<in> set xs \<Longrightarrow> prints gap x \<and> writable x" "blanks gap"
  shows "prints gap (JArr xs)"
  unfolding prints_def
proof (intro allI impI)
  fix b indent r :: jsstr
  assume b: "blanks b" "blanks indent"
  show "\<exists>n. \<forall>f \<ge> n. json_value f (b @ json_print gap indent (JArr xs) @ r) = Some (JArr xs, r)"
  proof (cases "xs = []")
    case True
    with b show ?thesis by (auto simp: skip_ws_self json_ws_def starts_with_def intro!: fuel_any)
  next
    case False
    then obtain y ys where xs: "xs = y # ys" by (cases xs) auto
    let ?i = "indent @ gap" and ?l = "new_line gap (indent @ gap)" and ?e = "new_line gap indent"
    obtain c t where c: "json_print gap ?i y = c # t" "\<not> json_ws c" "c \<noteq> 93"
      using print_start [of y gap ?i] assms(1) [of y] xs by auto
    let ?t = "?l @ join (44 # ?l) (map (json_print gap ?i) xs) @ ?e @ 93 # r"
    have st: "\<not> starts_with (skip_ws ?t) [93]"
      using c xs b assms(2) by (cases ys) (simp_all add: skip_ws_self)
    have e: "\<exists>n. \<forall>f \<ge> n. json_elems f ?t = Some (xs, r)"
      using b assms by (intro print_elems [OF False]) auto
    have "\<exists>n. \<forall>f \<ge> n. json_value f (b @ 91 # ?t) = Some (JArr xs, r)"
      by (rule fuel_suc [OF e]) (use b st in \<open>simp add: skip_ws_self json_ws_def\<close>)
    with False show ?thesis by simp
  qed
qed

lemma object_prints:
  assumes "\<And>p. p \<in> set m \<Longrightarrow> utf16 (fst p) \<and> prints gap (snd p)" "blanks gap"
    and "distinct (map fst m)" "own_entries m = m"
  shows "prints gap (JObj m)"
  unfolding prints_def
proof (intro allI impI)
  fix b indent r :: jsstr
  assume b: "blanks b" "blanks indent"
  show "\<exists>n. \<forall>f \<ge> n. json_value f (b @ json_print gap indent (JObj m) @ r) = Some (JObj m, r)"
  proof (cases "m = []")
    case True
    with b show ?thesis by (auto simp: skip_ws_self json_ws_def starts_with_def intro!: fuel_any)
  next
    case False
    then obtain q ms where m: "m = q # ms" by (cases m) auto
    let ?i = "indent @ gap" and ?l = "new_line gap (indent @ gap)" and ?e = "new_line gap indent"
    let ?t = "?l @ join (44 # ?l) (map (member_print gap ?i) m) @ ?e @ 125 # r"
    have st: "\<not> starts_with (skip_ws ?t) [125]"
      using m b assms(2) by (cases ms) (simp_all add: skip_ws_self member_print_def json_quote_shape json_ws_def)
    have e: "\<exists>n. \<forall>f \<ge> n. json_members f [] ?t = Some (JObj ([] @ m), r)"
      using b assms by (intro print_members [OF False]) auto
    have "\<exists>n. \<forall>f \<ge> n. json_value f (b @ 123 # ?t) = Some (JObj m, r)"
      by (rule fuel_suc [OF e]) (use b st in \<open>simp add: skip_ws_self json_ws_def\<close>)
    with False show ?thesis by (simp add: json_print_obj [OF assms(4)] del: json_print.simps)
  qed
qed

lemma number_prints:
  assumes "is_num (Fin q)"
  shows "prints gap (JNum (Fin q))"
  unfolding prints_def
proof (intro allI impI)
  fix b indent r :: jsstr
  assume b: "blanks b" and r: "stops r"
  obtain c t where c: "to_str (Fin q) = c # t" "c = 45 \<or> is_digit c" using to_str_start [OF assms] by auto
  have "c \<noteq> 34" "c \<noteq> 91" "c \<noteq> 123" "c \<noteq> 116" "c \<noteq> 102" "c \<noteq> 110" "\<not> json_ws c"
    using c(2) by (auto simp: is_digit_def json_ws_def)
  with b c(1) json_number_to_str [OF assms r]
  have "json_value (Suc f) (b @ json_print gap indent (JNum (Fin q)) @ r) = Some (JNum (Fin q), r)" for f
    by (simp add: skip_ws_self starts_with_def del: to_str.simps)
  then show "\<exists>n. \<forall>f \<ge> n. json_value f (b @ json_print gap indent (JNum (Fin q)) @ r) = Some (JNum (Fin q), r)"
    by (rule fuel_any)
qed

lemma writable_prints: "writable v \<Longrightarrow> blanks gap \<Longrightarrow> prints gap v"
proof (induction v rule: writable.induct)
  case 1
  then show ?case by (auto simp: prints_def skip_ws_self json_ws_def starts_with_def intro!: fuel_any)
next
  case (2 b)
  then show ?case by (auto simp: prints_def skip_ws_self json_ws_def starts_with_def intro!: fuel_any)
next
  case (3 x)
  then obtain q where "x = Fin q" "is_num (Fin q)" by (cases x) auto
  then show ?case by (simp add: number_prints)
next
  case (4 s)
  then show ?case by (auto simp: prints_def json_quote_shape read_json_body intro!: fuel_any)
next
  case (5 xs)
  then show ?case by (intro array_prints) (auto simp: list_all_iff)
next
  case (6 m)
  then show ?case by (intro object_prints) (auto simp: list_all_iff)
qed

text \<open>\<open>JSON.parse(JSON.stringify(v, null, gap)) = v\<close>.\<close>

lemma json_print_reads:
  assumes "writable v" "blanks gap"
  shows "json_parse (json_print gap [] v) = Inr v"
proof -
  have "\<exists>n. \<forall>f \<ge> n. json_value f ([] @ json_print gap [] v @ []) = Some (v, [])"
    using writable_prints [OF assms] unfolding prints_def by (blast intro: blanks_append(2) stops_Nil)
  then obtain n where n: "\<forall>f \<ge> n. json_value f (json_print gap [] v) = Some (v, [])" by auto
  let ?l = "2 * length (json_print gap [] v)"
  have "json_value (max n (?l + 1)) (json_print gap [] v) = Some (v, [])" using n by simp
  then have "json_value (?l + 1) (json_print gap [] v) = Some (v, [])"
    using json_fuel_enough [of "json_print gap [] v" "max n (?l + 1)"] by simp
  then have "json_value (?l + 2) (json_print gap [] v) = Some (v, [])"
    using json_fuel_enough [of "json_print gap [] v" "?l + 2"] by simp
  then show ?thesis by (simp add: json_parse_def)
qed

text \<open>Without a gap it is the text of \<open>JSON.stringify(v)\<close>.\<close>

lemma json_print_text: "json_print [] indent v = json_text v"
proof (induction v rule: json_text.induct)
  case (6 m)
  then have eq: "map (\<lambda>p. (fst p, json_print [] indent (snd p))) m = map (\<lambda>p. (fst p, json_text (snd p))) m"
    by (intro map_cong) auto
  show ?case
  proof (cases "m = []")
    case False
    then show ?thesis
      by (simp only: json_print.simps json_text.simps append_Nil2 eq if_False if_True new_line_def append_Nil refl)
  qed (simp add: own_entries_def)
qed (auto simp: new_line_def intro!: arg_cong [where f = "join [44]"])

lemma json_text_reads: "writable v \<Longrightarrow> json_parse (json_text v) = Inr v"
  using json_print_reads [of v "[]"] by (simp add: json_print_text)

end
