(* ===== verification/JsonCanon.thy ===== *)
theory JsonCanon
  imports JsonPrint
begin

text \<open>
  What \<open>JSON.parse\<close> builds and what becomes of it when it is written and read again. A value is
  \<open>proper\<close> when its numbers are doubles, its strings are of code units and its objects have distinct
  keys: \<open>JSON.parse\<close> builds only such values. Writing one and reading it back gives its canonical
  form, in which negative zero is zero, infinite numbers are \<open>null\<close> and the keys of an object are in
  the order in which the language lists them; a value and its canonical form are written alike.
\<close>

section \<open>Proper values and canonical forms\<close>

fun proper :: "json \<Rightarrow> bool" where
  "proper (JNum x) \<longleftrightarrow> is_num x"
| "proper (JStr s) \<longleftrightarrow> utf16 s"
| "proper (JArr xs) \<longleftrightarrow> list_all proper xs"
| "proper (JObj m) \<longleftrightarrow> distinct (map fst m) \<and> list_all utf16 (map fst m) \<and>
     list_all (\<lambda>v. proper v) (map snd m)"
| "proper v \<longleftrightarrow> True"

fun canon :: "json \<Rightarrow> json" where
  "canon (JNum x) = (if is_finite x then JNum (if x = NZero then Fin 0 else x) else JNull)"
| "canon (JArr xs) = JArr (map canon xs)"
| "canon (JObj m) = JObj (own_entries (map (\<lambda>p. (fst p, canon (snd p))) m))"
| "canon v = v"

lemma own_entries_idem [simp]: "own_entries (own_entries m) = own_entries m"
proof -
  let ?f = "\<lambda>(k, v). undec k" and ?P = "\<lambda>(k, v). is_index k"
  let ?a = "sort_key ?f (filter ?P m)" and ?b = "filter (\<lambda>(k, v). \<not> is_index k) m"
  have "filter ?P ?a = ?a" "filter ?P ?b = []" "filter (\<lambda>(k, v). \<not> is_index k) ?a = []"
    "filter (\<lambda>(k, v). \<not> is_index k) ?b = ?b"
    by (auto simp: filter_id_conv filter_empty_conv)
  moreover have "sort_key ?f ?a = ?a" by (rule sort_key_id_if_sorted) simp
  ultimately show ?thesis by (simp add: own_entries_def)
qed

lemma distinct_own_entries: "distinct (map fst m) \<Longrightarrow> distinct (map fst (own_entries m))"
  using distinct_own_keys by (simp add: own_keys_def)

lemma own_entries_Nil [simp]: "own_entries m = [] \<longleftrightarrow> m = []" "own_entries [] = []"
  by (metis own_keys_def set_own_entries set_empty) (simp add: own_entries_def)

lemma proper_canon_writable: "proper v \<Longrightarrow> writable (canon v)"
proof (induction v rule: canon.induct)
  case (1 x)
  then show ?case by (cases x) simp_all
next
  case (3 m)
  let ?m = "map (\<lambda>p. (fst p, canon (snd p))) m"
  have "list_all writable (map snd ?m)" "list_all utf16 (map fst ?m)" "distinct (map fst ?m)"
    using 3 by (auto simp: list_all_iff comp_def)
  then have "list_all writable (map snd (own_entries ?m))" "list_all utf16 (map fst (own_entries ?m))"
    "distinct (map fst (own_entries ?m))"
    by (simp_all add: list_all_iff distinct_own_entries)
  then show ?case by simp
qed (auto simp: list_all_iff)

lemma writable_canon: "writable v \<Longrightarrow> canon v = v"
proof (induction v rule: canon.induct)
  case (1 x)
  then show ?case by (cases x) simp_all
next
  case (2 xs)
  then show ?case by (simp add: list_all_iff map_idI)
next
  case (3 m)
  then have "map (\<lambda>p. (fst p, canon (snd p))) m = m"
    by (auto simp: list_all_iff intro!: map_idI)
  with 3 show ?case by simp
qed simp_all

lemma canon_idem [simp]: "proper v \<Longrightarrow> canon (canon v) = canon v"
  by (rule writable_canon [OF proper_canon_writable])

lemma print_canon: "json_print gap i (canon v) = json_print gap i v"
proof (induction v arbitrary: i rule: canon.induct)
  case (1 x)
  then show ?case by (cases x) auto
next
  case (2 xs)
  have "map (json_print gap (i @ gap)) (map canon xs) = map (json_print gap (i @ gap)) xs"
    using 2 by simp
  then show ?case by (simp only: canon.simps json_print.simps map_is_Nil_conv)
next
  case (3 m)
  have "map (\<lambda>p. (fst p, json_print gap (i @ gap) (snd p))) (own_entries (map (\<lambda>p. (fst p, canon (snd p))) m))
      = own_entries (map (\<lambda>p. (fst p, json_print gap (i @ gap) (canon (snd p)))) m)"
    by (subst own_entries_map [symmetric]) (simp add: comp_def)
  also have "\<dots> = own_entries (map (\<lambda>p. (fst p, json_print gap (i @ gap) (snd p))) m)"
    using 3 by (intro arg_cong [where f = own_entries] map_cong) auto
  finally show ?case by simp
qed simp_all

lemma print_reads_canon: "proper v \<Longrightarrow> blanks gap \<Longrightarrow> json_parse (json_print gap [] v) = Inr (canon v)"
  using json_print_reads [OF proper_canon_writable] print_canon by metis

lemma text_reads_canon: "proper v \<Longrightarrow> json_parse (json_text v) = Inr (canon v)"
  using print_reads_canon [of v "[]"] by (simp add: json_print_text)

section \<open>The parser builds proper values\<close>

lemma utf16_set: "utf16 s \<longleftrightarrow> (\<forall>c \<in> set s. 0 \<le> c \<and> c < 65536)"
  by (simp add: utf16_def list_all_iff)

lemma utf16_sub: "utf16 s \<Longrightarrow> set t \<subseteq> set s \<Longrightarrow> utf16 t"
  by (auto simp: utf16_set)

lemma utf16_skip [simp]: "utf16 s \<Longrightarrow> utf16 (skip_ws s)"
  by (rule utf16_sub) (auto simp: skip_ws_def dest: set_dropWhileD)

lemma utf16_drop [simp]: "utf16 s \<Longrightarrow> utf16 (drop n s)"
  by (erule utf16_sub) (rule set_drop_subset)

lemma utf16_tl [simp]: "utf16 s \<Longrightarrow> utf16 (tl s)"
  by (cases s) auto

lemma utf16_dropWhile [simp]: "utf16 s \<Longrightarrow> utf16 (dropWhile P s)"
  by (erule utf16_sub) (auto dest: set_dropWhileD)

lemma utf16_trim [simp]: "utf16 s \<Longrightarrow> utf16 (trim s)"
  by (erule utf16_sub) (rule set_trim)

lemma hex_val_bounds: "hex_val c = Some n \<Longrightarrow> 0 \<le> n \<and> n < 16"
  by (auto simp: hex_val_def digit_val_def is_digit_def split: if_splits)

lemma simple_escape_bounds: "simple_escape e = Some n \<Longrightarrow> 0 \<le> n \<and> n < 65536"
  by (auto simp: simple_escape_def split: if_splits)

lemma read_body_utf16: "read_body s = Some (w, r) \<Longrightarrow> utf16 s \<Longrightarrow> utf16 w \<and> utf16 r"
proof (induction "length s" arbitrary: s w r rule: less_induct)
  case less
  obtain c t where s: "s = c # t" using less.prems by (cases s) auto
  consider "c = 34" | "c \<noteq> 34" "c \<noteq> 92" | "c = 92" by blast
  then show ?case
  proof cases
    case 1
    with less.prems s show ?thesis by simp
  next
    case 2
    with less.prems s obtain v where "read_body t = Some (v, r)" "w = c # v" by (auto split: if_splits)
    with less.hyps [of t] less.prems s show ?thesis by simp
  next
    case 3
    with less.prems s obtain e u where t: "t = e # u" by (cases t) auto
    show ?thesis
    proof (cases "e = 117")
      case True
      with less.prems s 3 t obtain a b x y z v a' b' x' y' where
        u: "u = a # b # x # y # z" "read_body z = Some (v, r)"
        and h: "hex_val a = Some a'" "hex_val b = Some b'" "hex_val x = Some x'" "hex_val y = Some y'"
        and w: "w = (4096 * a' + 256 * b' + 16 * x' + y') # v"
        by (auto split: list.splits option.splits)
      moreover have "0 \<le> a' \<and> a' < 16" "0 \<le> b' \<and> b' < 16" "0 \<le> x' \<and> x' < 16" "0 \<le> y' \<and> y' < 16"
        using h by (auto dest: hex_val_bounds)
      ultimately show ?thesis
        using less.hyps [of z] less.prems(2) s t by simp
    next
      case False
      with less.prems s 3 t obtain v k where "read_body u = Some (v, r)" "w = k # v" "simple_escape e = Some k"
        by (auto split: option.splits)
      with less.hyps [of u] less.prems(2) s t simple_escape_bounds [of e k] show ?thesis by simp
    qed
  qed
qed

lemma read_exp_utf16: "read_exp s = (e, t) \<Longrightarrow> utf16 s \<Longrightarrow> utf16 t"
  unfolding read_exp_def Let_def by (auto split: list.splits if_splits)

lemma json_number_proper:
  assumes "json_number s = Some (x, t)" "utf16 s"
  shows "is_num x \<and> utf16 t"
proof -
  let ?u = "if starts_with s [45] then tl s else s"
  let ?ip = "if starts_with ?u [48] then [48] else takeWhile is_digit ?u"
  let ?fp = "if starts_with (drop (length ?ip) ?u) [46]
    then takeWhile is_digit (tl (drop (length ?ip) ?u)) else []"
  let ?r = "drop (if ?fp = [] then 0 else Suc (length ?fp)) (drop (length ?ip) ?u)"
  have ip: "?ip \<noteq> []" using assms by (auto simp: json_number_def Let_def split: if_splits)
  have u: "utf16 ?u" using assms(2) by simp
  then have r: "utf16 ?r" by (intro utf16_drop)
  have "t = snd (read_exp ?r) \<and> is_num x"
    using assms ip unfolding json_number_def Let_def case_prod_unfold
    by (simp only: if_False option.inject prod.inject snd_conv) (metis is_num_rnd_sg)
  with read_exp_utf16 [OF prod.collapse [symmetric] r] show ?thesis by simp
qed

lemma proper_put: "proper (JObj m) \<Longrightarrow> utf16 k \<Longrightarrow> proper v \<Longrightarrow> proper (JObj (obj_put k v m))"
proof -
  assume a: "proper (JObj m)" "utf16 k" "proper v"
  then have "list_all utf16 (map fst (obj_put k v m))"
    using set_keys_obj_put [of k v m] by (simp add: list_all_iff)
  moreover have "list_all proper (map snd (obj_put k v m))"
    using a by (auto simp: list_all_iff dest!: values_obj_put)
  ultimately show ?thesis using a by (simp add: distinct_obj_put)
qed

text \<open>One step of the parser, from its result, with the texts it leaves.\<close>

lemma value_step:
  assumes "json_value (Suc f) s = Some (v, r)" "utf16 s"
  obtains t where "utf16 t" and
    "(\<exists>xs. v = JArr xs \<and> json_elems f t = Some (xs, r)) \<or> json_members f [] t = Some (v, r)
      \<or> (utf16 r \<and> proper v)"
proof -
  obtain c t where c: "skip_ws s = c # t" using assms(1) by (cases "skip_ws s") auto
  then have u: "utf16 (c # t)" using utf16_skip [OF assms(2)] by simp
  then have t: "utf16 t" by simp
  have num: "json_number (c # t) = Some (x, r) \<Longrightarrow> is_num x \<and> utf16 r" for x
    by (rule json_number_proper [OF _ u])
  have str: "read_body t = Some (w, r) \<Longrightarrow> utf16 w \<and> utf16 r" for w
    by (rule read_body_utf16 [OF _ t])
  have "(\<exists>xs. v = JArr xs \<and> json_elems f t = Some (xs, r)) \<or> json_members f [] t = Some (v, r)
      \<or> (utf16 r \<and> proper v)"
    using assms(1) c t num str by (auto split: if_splits)
  with t show ?thesis by (rule that)
qed

lemma elems_step:
  assumes "json_elems (Suc f) s = Some (xs, r)" and u: "\<And>x t. json_value f s = Some (x, t) \<Longrightarrow> utf16 t"
  obtains x t u ys where "json_value f s = Some (x, t)" "utf16 u"
    "json_elems f u = Some (ys, r) \<and> xs = x # ys \<or> r = u \<and> xs = [x]"
proof -
  obtain x t where t: "json_value f s = Some (x, t)" using assms by (auto split: option.splits)
  with assms obtain c u where u: "skip_ws t = c # u" by (cases "skip_ws t") auto
  then have "utf16 u" using utf16_skip [of t] assms(2) [OF t] by simp
  with that t u assms show ?thesis by (auto split: if_splits)
qed

lemma members_step:
  assumes "json_members (Suc f) m s = Some (v, r)" "utf16 s"
    and "\<And>u w z. json_value f u = Some (w, z) \<Longrightarrow> utf16 u \<Longrightarrow> utf16 z"
  obtains k u w z y where "utf16 k" "utf16 u" "json_value f u = Some (w, z)" "utf16 y"
    "json_members f (obj_put k w m) y = Some (v, r) \<or> v = JObj (obj_put k w m) \<and> r = y"
proof -
  obtain q a where a: "skip_ws s = q # a" using assms by (cases "skip_ws s") auto
  with assms have q: "q = 34" by (simp split: if_splits)
  with assms a obtain k t where t: "read_body a = Some (k, t)" by (auto split: option.splits)
  with assms a q obtain d u where u: "skip_ws t = d # u" by (cases "skip_ws t") auto
  with assms a q t have d: "d = 58" by (simp split: if_splits)
  with assms a q t u obtain w z where z: "json_value f u = Some (w, z)" by (auto split: option.splits)
  with assms a q t u d obtain c y where y: "skip_ws z = c # y" by (cases "skip_ws z") auto
  have "utf16 a" using utf16_skip [OF assms(2)] a by simp
  then have kt: "utf16 k" "utf16 t" using read_body_utf16 [OF t] by auto
  then have "utf16 u" using utf16_skip [of t] u by simp
  moreover from this have "utf16 y" using assms(3) [OF z] utf16_skip [of z] y by simp
  moreover from assms a q t u d z y have
    "json_members f (obj_put k w m) y = Some (v, r) \<or> v = JObj (obj_put k w m) \<and> r = y"
    by (simp split: if_splits)
  ultimately show ?thesis using z kt by (intro that)
qed

lemma parser_proper:
  "(\<forall>s v r. json_value f s = Some (v, r) \<longrightarrow> utf16 s \<longrightarrow> proper v \<and> utf16 r) \<and>
   (\<forall>s xs r. json_elems f s = Some (xs, r) \<longrightarrow> utf16 s \<longrightarrow> list_all proper xs \<and> utf16 r) \<and>
   (\<forall>m s v r. json_members f m s = Some (v, r) \<longrightarrow> utf16 s \<longrightarrow> proper (JObj m) \<longrightarrow> proper v \<and> utf16 r)"
proof (induction f)
  case (Suc f)
  have V: "json_value f s = Some (v, r) \<Longrightarrow> utf16 s \<Longrightarrow> proper v \<and> utf16 r"
    and E: "json_elems f s = Some (xs, r) \<Longrightarrow> utf16 s \<Longrightarrow> list_all proper xs \<and> utf16 r"
    and M: "json_members f m s = Some (v, r) \<Longrightarrow> utf16 s \<Longrightarrow> proper (JObj m) \<Longrightarrow> proper v \<and> utf16 r"
    for s v r xs m
    using Suc.IH by blast+
  have 1: "proper v \<and> utf16 r" if h: "json_value (Suc f) s = Some (v, r)" "utf16 s" for s v r
  proof -
    obtain t where t: "utf16 t" and
      "(\<exists>xs. v = JArr xs \<and> json_elems f t = Some (xs, r)) \<or> json_members f [] t = Some (v, r)
        \<or> (utf16 r \<and> proper v)"
      by (rule value_step [OF h])
    then show ?thesis using E [OF _ t] M [of "[]", OF _ t] by auto
  qed
  have 2: "list_all proper xs \<and> utf16 r" if h: "json_elems (Suc f) s = Some (xs, r)" "utf16 s" for s xs r
  proof -
    obtain x t u ys where x: "json_value f s = Some (x, t)" and u: "utf16 u"
      and d: "json_elems f u = Some (ys, r) \<and> xs = x # ys \<or> r = u \<and> xs = [x]"
      by (rule elems_step [OF h(1)]) (use V h(2) in blast)+
    have "proper x" using V [OF x h(2)] by simp
    with d E [of u ys r] u show ?thesis by auto
  qed
  have 3: "proper v \<and> utf16 r"
    if h: "json_members (Suc f) m s = Some (v, r)" "utf16 s" "proper (JObj m)" for m s v r
  proof -
    obtain k u w z y where k: "utf16 k" "utf16 u" "json_value f u = Some (w, z)" "utf16 y"
      and d: "json_members f (obj_put k w m) y = Some (v, r) \<or> v = JObj (obj_put k w m) \<and> r = y"
      by (rule members_step [OF h(1,2)]) (use V in blast)+
    then have "proper (JObj (obj_put k w m))" using V [OF k(3,2)] h(3) by (intro proper_put) auto
    with d M [of "obj_put k w m" y v r] k(4) show ?thesis by blast
  qed
  show ?case using 1 2 3 by blast
qed simp

lemma parse_proper:
  assumes "json_parse s = Inr v" "utf16 s"
  shows "proper v"
proof -
  obtain r where "json_value (2 * length s + 2) s = Some (v, r)"
    using assms(1) unfolding json_parse_def
    by (cases "json_value (2 * length s + 2) s") (auto split: if_splits)
  with assms(2) parser_proper [of "2 * length s + 2"] show ?thesis by blast
qed

section \<open>The units of a text\<close>

text \<open>A number is written without white space.\<close>

definition plain :: "jsstr \<Rightarrow> bool" where
  "plain s \<longleftrightarrow> list_all (\<lambda>c. 0 \<le> c \<and> c < 65536 \<and> \<not> is_ws c) s"

lemma plain_simps [simp]: "plain []" "plain (s @ t) \<longleftrightarrow> plain s \<and> plain t"
  "plain (c # s) \<longleftrightarrow> 0 \<le> c \<and> c < 65536 \<and> \<not> is_ws c \<and> plain s"
  by (auto simp: plain_def)

lemma plain_digits: "list_all is_digit s \<Longrightarrow> plain s"
  using is_digit_not_ws by (auto simp: plain_def list_all_iff is_digit_def)

lemma plain_utf16: "plain s \<Longrightarrow> utf16 s"
  by (auto simp: plain_def utf16_def list_all_iff)

lemma plain_exp: "plain (show_exp e)"
  using dec_digits [of e] dec_digits [of "- e"] plain_digits
  by (simp add: show_exp_def is_ws_def)

lemma plain_show_pos: "is_num (Fin x) \<Longrightarrow> 0 < x \<Longrightarrow> plain (show_pos x)"
  by (rule show_pos_number) (auto simp: number_parts_def number_layout_def plain_digits plain_exp is_ws_def)

lemma plain_to_str: "is_num x \<Longrightarrow> plain (to_str x)"
proof (cases x)
  case (Fin q)
  moreover assume "is_num x"
  ultimately have "is_num (Fin q)" "is_num (Fin (- q))" using is_num_neg [of "Fin q"]
    by (auto split: if_splits)
  with Fin show ?thesis
    using plain_show_pos [of q] plain_show_pos [of "- q"] by (auto simp: is_ws_def)
qed (simp_all add: is_ws_def)

lemma utf16_hex: "0 \<le> n \<Longrightarrow> n < 16 \<Longrightarrow> 0 \<le> hex_digit n \<and> hex_digit n < 65536"
  by (auto simp: hex_digit_def)

lemma utf16_u_escape: "0 \<le> c \<Longrightarrow> c < 65536 \<Longrightarrow> utf16 (u_escape c)"
  using utf16_hex [of "c div 4096"] utf16_hex [of "c div 256 mod 16"] utf16_hex [of "c div 16 mod 16"]
    utf16_hex [of "c mod 16"]
  by (simp add: u_escape_def)

lemma utf16_quote_unit: "0 \<le> c \<Longrightarrow> c < 65536 \<Longrightarrow> utf16 (quote_unit c)"
  by (simp add: quote_unit_def esc_unit_def utf16_u_escape)

lemma utf16_quote: "utf16 s \<Longrightarrow> utf16 (json_quote s)"
proof -
  have "utf16 s \<Longrightarrow> utf16 (json_body s)"
  proof (induction s rule: json_body.induct)
    case (2 c)
    then show ?case unfolding json_body_units by (intro utf16_quote_unit) simp_all
  next
    case (3 c d s)
    show ?case
    proof (cases "is_high c \<and> is_low d")
      case False
      then show ?thesis unfolding json_body_units(2) [OF False] using 3 by (simp add: utf16_quote_unit)
    qed (use 3 in simp)
  qed simp
  then show "utf16 s \<Longrightarrow> utf16 (json_quote s)" by (simp add: json_quote_shape)
qed

lemma utf16_join: "utf16 sep \<Longrightarrow> (\<And>x. x \<in> set xs \<Longrightarrow> utf16 x) \<Longrightarrow> utf16 (join sep xs)"
  using set_join [of sep xs] by (auto simp: utf16_set)

lemma utf16_print: "proper v \<Longrightarrow> utf16 gap \<Longrightarrow> utf16 i \<Longrightarrow> utf16 (json_print gap i v)"
proof (induction v arbitrary: i rule: canon.induct)
  case (1 x)
  then show ?case by (auto simp: plain_utf16 [OF plain_to_str])
next
  case (2 xs)
  have "utf16 (new_line gap j)" if "utf16 j" for j using that by (simp add: new_line_def)
  then show ?case using 2 by (auto simp: list_all_iff intro!: utf16_join)
next
  case (3 m)
  have "utf16 (new_line gap j)" if "utf16 j" for j using that by (simp add: new_line_def)
  moreover have "utf16 (json_quote k)" "utf16 (json_print gap (i @ gap) u)" if "(k, u) \<in> set m" for k u
    using 3 that by (auto simp: list_all_iff intro!: utf16_quote 3)
  ultimately show ?case using 3 by (auto intro!: utf16_join)
qed (auto simp: utf16_quote)

text \<open>A written value begins and ends with a unit that is no white space.\<close>

lemma print_trim [simp]: "proper v \<Longrightarrow> trim (json_print gap [] v) = json_print gap [] v"
proof (rule trim_trimmed)
  assume p: "proper v"
  show "trimmed (json_print gap [] v)"
  proof (cases v)
    case (JNum x)
    with p have t: "plain (json_print gap [] v)" using plain_to_str by (auto simp: is_ws_def)
    show ?thesis
    proof (cases "json_print gap [] v = []")
      case False
      with t show ?thesis by (intro trimmedI) (auto simp: plain_def list_all_iff)
    qed simp
  qed (auto simp: trimmed_def json_quote_shape is_ws_def)
qed

lemma text_trim [simp]: "proper v \<Longrightarrow> trim (json_text v) = json_text v"
  using print_trim [of v "[]"] by (simp add: json_print_text)

lemma print_not_Nil [simp]: "proper v \<Longrightarrow> json_print gap [] v \<noteq> []"
proof
  assume "proper v" "json_print gap [] v = []"
  with print_start [OF proper_canon_writable [of v], of gap "[]"] show False by (simp add: print_canon)
qed

end
