(* ===== verification/OverrideData.thy ===== *)
theory OverrideData
  imports JsonCanon
begin

text \<open>
  The editor of the parameter overrides of a channel
  (\<open>features/channels/components/dialogs/param-override-editor-dialog.tsx\<close>), first part: operations and
  conditions, how they are read from JSON, and the list operations on them. \<open>toUpperCase\<close> is the
  parameter \<open>upper\<close>, and \<open>clock n\<close> is what \<open>Date.now()\<close> gives when the n-th local id is made. A
  function that makes ids takes the number of ids made so far and returns the new one, also when it
  throws.
\<close>

section \<open>Data\<close>

record override_condition =
  oc_id :: jsstr
  oc_path :: jsstr
  oc_mode :: jsstr
  oc_value_text :: jsstr
  oc_invert :: bool
  oc_pass_missing_key :: bool

record override_operation =
  po_id :: jsstr
  po_description :: jsstr
  po_path :: jsstr
  po_mode :: jsstr
  po_from :: jsstr
  po_to :: jsstr
  po_value_text :: jsstr
  po_keep_origin :: bool
  po_logic :: jsstr
  po_conditions :: "override_condition list"

record mode_meta =
  mm_path :: bool
  mm_pathOptional :: bool
  mm_value :: bool
  mm_from :: bool
  mm_to :: bool
  mm_keepOrigin :: bool
  mm_pathAlias :: bool

definition OPERATION_MODE_OPTIONS :: "(jsstr \<times> jsstr) list" where
  "OPERATION_MODE_OPTIONS =
     [(J ''Set Field'', J ''set''), (J ''Delete Field'', J ''delete''), (J ''Append to End'', J ''append''),
      (J ''Prepend to Start'', J ''prepend''), (J ''Copy Field'', J ''copy''), (J ''Move Field'', J ''move''),
      (J ''String Replace'', J ''replace''), (J ''Regex Replace'', J ''regex_replace''),
      (J ''Trim Prefix'', J ''trim_prefix''), (J ''Trim Suffix'', J ''trim_suffix''),
      (J ''Ensure Prefix'', J ''ensure_prefix''), (J ''Ensure Suffix'', J ''ensure_suffix''),
      (J ''Trim Space'', J ''trim_space''), (J ''To Lowercase'', J ''to_lower''), (J ''To Uppercase'', J ''to_upper''),
      (J ''Return Custom Error'', J ''return_error''), (J ''Prune Object Items'', J ''prune_objects''),
      (J ''Pass Through Headers'', J ''pass_headers''), (J ''Sync Fields'', J ''sync_fields''),
      (J ''Set Request Header'', J ''set_header''), (J ''Delete Request Header'', J ''delete_header''),
      (J ''Copy Request Header'', J ''copy_header''), (J ''Move Request Header'', J ''move_header'')]"

definition OPERATION_MODE_VALUES :: "jsstr list" where
  "OPERATION_MODE_VALUES = map snd OPERATION_MODE_OPTIONS"

definition CONDITION_MODE_VALUES :: "jsstr list" where
  "CONDITION_MODE_VALUES =
     [J ''full'', J ''prefix'', J ''suffix'', J ''contains'', J ''gt'', J ''gte'', J ''lt'', J ''lte'']"

definition no_meta :: mode_meta where
  "no_meta = \<lparr>mm_path = False, mm_pathOptional = False, mm_value = False, mm_from = False, mm_to = False,
     mm_keepOrigin = False, mm_pathAlias = False\<rparr>"

definition path_meta :: mode_meta where
  "path_meta = no_meta\<lparr>mm_path := True\<rparr>"

definition set_meta :: mode_meta where
  "set_meta = no_meta\<lparr>mm_path := True, mm_value := True, mm_keepOrigin := True\<rparr>"

definition from_to_meta :: mode_meta where
  "from_to_meta = no_meta\<lparr>mm_from := True, mm_to := True\<rparr>"

definition MODE_META :: "(jsstr \<times> mode_meta) list" where
  "MODE_META =
     [(J ''delete'', path_meta), (J ''set'', set_meta), (J ''append'', set_meta), (J ''prepend'', set_meta),
      (J ''copy'', from_to_meta), (J ''move'', from_to_meta),
      (J ''replace'', path_meta\<lparr>mm_from := True\<rparr>), (J ''regex_replace'', path_meta\<lparr>mm_from := True\<rparr>),
      (J ''trim_prefix'', path_meta\<lparr>mm_value := True\<rparr>), (J ''trim_suffix'', path_meta\<lparr>mm_value := True\<rparr>),
      (J ''ensure_prefix'', path_meta\<lparr>mm_value := True\<rparr>), (J ''ensure_suffix'', path_meta\<lparr>mm_value := True\<rparr>),
      (J ''trim_space'', path_meta), (J ''to_lower'', path_meta), (J ''to_upper'', path_meta),
      (J ''return_error'', no_meta\<lparr>mm_value := True\<rparr>),
      (J ''prune_objects'', no_meta\<lparr>mm_pathOptional := True, mm_value := True\<rparr>),
      (J ''pass_headers'', no_meta\<lparr>mm_value := True, mm_keepOrigin := True\<rparr>),
      (J ''sync_fields'', from_to_meta), (J ''set_header'', set_meta), (J ''delete_header'', path_meta),
      (J ''copy_header'', from_to_meta\<lparr>mm_keepOrigin := True, mm_pathAlias := True\<rparr>),
      (J ''move_header'', from_to_meta\<lparr>mm_keepOrigin := True, mm_pathAlias := True\<rparr>)]"

definition VALUE_REQUIRED_MODES :: "jsstr list" where
  "VALUE_REQUIRED_MODES =
     [J ''trim_prefix'', J ''trim_suffix'', J ''ensure_prefix'', J ''ensure_suffix'', J ''set_header'',
      J ''return_error'', J ''prune_objects'', J ''pass_headers'']"

definition FROM_REQUIRED_MODES :: "jsstr list" where
  "FROM_REQUIRED_MODES =
     [J ''copy'', J ''move'', J ''replace'', J ''regex_replace'', J ''copy_header'', J ''move_header'', J ''sync_fields'']"

definition TO_REQUIRED_MODES :: "jsstr list" where
  "TO_REQUIRED_MODES = [J ''copy'', J ''move'', J ''copy_header'', J ''move_header'', J ''sync_fields'']"

text \<open>\<open>operation.mode || 'set'\<close> and \<open>MODE_META[mode] || MODE_META.set\<close>. The modes of the operations are
  among \<open>OPERATION_MODE_VALUES\<close> (an invariant of the editor), so the names an object inherits are not looked up.\<close>

definition mode_of :: "override_operation \<Rightarrow> jsstr" where
  "mode_of op = (if po_mode op = [] then J ''set'' else po_mode op)"

definition meta_of :: "jsstr \<Rightarrow> mode_meta" where
  "meta_of mode = (case map_of MODE_META mode of None \<Rightarrow> set_meta | Some m \<Rightarrow> m)"

section \<open>Values and texts\<close>

definition toValueText :: "json option \<Rightarrow> jsstr" where
  "toValueText v = (case v of None \<Rightarrow> [] | Some (JStr s) \<Rightarrow> s | Some x \<Rightarrow> json_text x)"

definition parseLooseValue :: "jsstr \<Rightarrow> json" where
  "parseLooseValue valueText =
     (let raw = trim valueText in
      if raw = [] then JStr [] else case json_parse raw of Inl e \<Rightarrow> JStr raw | Inr v \<Rightarrow> v)"

definition verifyJSON :: "jsstr \<Rightarrow> bool" where
  "verifyJSON s = (case json_parse s of Inl e \<Rightarrow> False | Inr v \<Rightarrow> True)"

text \<open>\<open>String(v)\<close>. An object that was read from JSON is written as \<open>[object Object]\<close> unless it has a
  property \<open>toString\<close> of its own, which is no function; so it throws, also inside an array.\<close>

fun printable :: "json \<Rightarrow> bool" where
  "printable (JArr xs) \<longleftrightarrow> list_all printable xs"
| "printable (JObj m) \<longleftrightarrow> J ''toString'' \<notin> set (map fst m)"
| "printable v \<longleftrightarrow> True"

definition js_String :: "json \<Rightarrow> jsstr js" where
  "js_String v = (if printable v then Inr (js_string v) else Inl TypeError)"

text \<open>\<open>v.k\<close> of a value that is not \<open>null\<close>, and \<open>String(x || d)\<close>.\<close>

abbreviation get :: "json \<Rightarrow> string \<Rightarrow> json option" where
  "get v k \<equiv> json_optional (Some v) (J k)"

definition string_at :: "json \<Rightarrow> string \<Rightarrow> jsstr" where
  "string_at v k = (case get v k of Some (JStr s) \<Rightarrow> s | _ \<Rightarrow> [])"

definition mode_at :: "json \<Rightarrow> jsstr list \<Rightarrow> jsstr \<Rightarrow> jsstr" where
  "mode_at v modes fallback =
     (case get v ''mode'' of Some (JStr s) \<Rightarrow> if s \<in> set modes then s else fallback | _ \<Rightarrow> fallback)"

definition true_at :: "json \<Rightarrow> string \<Rightarrow> bool" where
  "true_at v k \<longleftrightarrow> get v k = Some (JBool True)"

definition text_or :: "json option \<Rightarrow> jsstr \<Rightarrow> jsstr js" where
  "text_or v d = (case truthy v of None \<Rightarrow> Inr d | Some x \<Rightarrow> js_String x)"

section \<open>Local ids\<close>

type_synonym 'a ids = "nat \<Rightarrow> 'a js \<times> nat"

definition ids_return :: "'a \<Rightarrow> 'a ids" where
  "ids_return x n = (Inr x, n)"

definition ids_lift :: "'a js \<Rightarrow> 'a ids" where
  "ids_lift r n = (r, n)"

definition ids_bind :: "'a ids \<Rightarrow> ('a \<Rightarrow> 'b ids) \<Rightarrow> 'b ids" where
  "ids_bind m f n = (case m n of (Inl e, k) \<Rightarrow> (Inl e, k) | (Inr x, k) \<Rightarrow> f x k)"

lemma ids_simps [simp]:
  "ids_return x n = (Inr x, n)" "ids_lift r n = (r, n)"
  "ids_bind (ids_return x) f = f x"
  "m n = (Inr y, k) \<Longrightarrow> ids_bind m f n = f y k"
  "m n = (Inl e, k) \<Longrightarrow> ids_bind m f n = (Inl e, k)"
  "ids_bind (ids_lift (Inr y)) f = f y"
  by (auto simp: ids_return_def ids_lift_def ids_bind_def)

lemma ids_bind_ok:
  "ids_bind m f n = (Inr y, k) \<longleftrightarrow> (\<exists>x j. m n = (Inr x, j) \<and> f x j = (Inr y, k))"
  by (auto simp: ids_bind_def split: prod.splits sum.splits)

definition nextLocalId :: "(nat \<Rightarrow> jsnum) \<Rightarrow> nat \<Rightarrow> jsstr" where
  "nextLocalId clock n = J ''po_'' @ to_str (clock n) @ J ''_'' @ to_str (Fin (of_nat n))"

definition fresh :: "(nat \<Rightarrow> jsnum) \<Rightarrow> jsstr ids" where
  "fresh clock n = (Inr (nextLocalId clock n), Suc n)"

text \<open>\<open>xs.map(f)\<close> for an \<open>f\<close> that makes ids.\<close>

fun map_ids :: "('a \<Rightarrow> 'b ids) \<Rightarrow> 'a list \<Rightarrow> 'b list ids" where
  "map_ids f [] = ids_return []"
| "map_ids f (x # xs) = ids_bind (f x) (\<lambda>y. ids_bind (map_ids f xs) (\<lambda>ys. ids_return (y # ys)))"

section \<open>Reading\<close>

definition normalizeCondition :: "(nat \<Rightarrow> jsnum) \<Rightarrow> json \<Rightarrow> override_condition ids" where
  "normalizeCondition clock v =
     ids_bind (fresh clock) (\<lambda>i.
       if v = JNull then ids_lift (Inl TypeError)
       else ids_return \<lparr>oc_id = i, oc_path = string_at v ''path'',
          oc_mode = mode_at v CONDITION_MODE_VALUES (J ''full''), oc_value_text = toValueText (get v ''value''),
          oc_invert = true_at v ''invert'', oc_pass_missing_key = true_at v ''pass_missing_key''\<rparr>)"

definition normalizeOperation :: "(jsstr \<Rightarrow> jsstr) \<Rightarrow> (nat \<Rightarrow> jsnum) \<Rightarrow> json \<Rightarrow> override_operation ids" where
  "normalizeOperation upper clock v =
     ids_bind (fresh clock) (\<lambda>i.
       if v = JNull then ids_lift (Inl TypeError)
       else ids_bind (ids_lift (text_or (get v ''logic'') (J ''OR''))) (\<lambda>logic.
         ids_bind (case get v ''conditions'' of
              Some (JArr cs) \<Rightarrow> map_ids (normalizeCondition clock) cs
            | _ \<Rightarrow> ids_return [])
           (\<lambda>cs. ids_return \<lparr>po_id = i, po_description = string_at v ''description'',
              po_path = string_at v ''path'', po_mode = mode_at v OPERATION_MODE_VALUES (J ''set''),
              po_from = string_at v ''from'', po_to = string_at v ''to'',
              po_value_text = toValueText (get v ''value''), po_keep_origin = true_at v ''keep_origin'',
              po_logic = (if upper logic = J ''AND'' then J ''AND'' else J ''OR''), po_conditions = cs\<rparr>)))"

definition createDefaultCondition :: "(nat \<Rightarrow> jsnum) \<Rightarrow> override_condition ids" where
  "createDefaultCondition clock = normalizeCondition clock (JObj [])"

definition createDefaultOperation :: "(jsstr \<Rightarrow> jsstr) \<Rightarrow> (nat \<Rightarrow> jsnum) \<Rightarrow> override_operation ids" where
  "createDefaultOperation upper clock =
     normalizeOperation upper clock (JObj [(J ''mode'', JStr (J ''set''))])"

text \<open>The default operation and condition, with a given id.\<close>

definition blank_condition :: "jsstr \<Rightarrow> override_condition" where
  "blank_condition i = \<lparr>oc_id = i, oc_path = [], oc_mode = J ''full'', oc_value_text = [],
     oc_invert = False, oc_pass_missing_key = False\<rparr>"

definition blank_operation :: "(jsstr \<Rightarrow> jsstr) \<Rightarrow> jsstr \<Rightarrow> override_operation" where
  "blank_operation upper i = \<lparr>po_id = i, po_description = [], po_path = [], po_mode = J ''set'', po_from = [],
     po_to = [], po_value_text = [], po_keep_origin = False,
     po_logic = (if upper (J ''OR'') = J ''AND'' then J ''AND'' else J ''OR''), po_conditions = []\<rparr>"

lemma createDefaultCondition_eq:
  "createDefaultCondition clock n = (Inr (blank_condition (nextLocalId clock n)), Suc n)"
  by (simp add: createDefaultCondition_def normalizeCondition_def ids_bind_def fresh_def blank_condition_def
      json_optional_def string_at_def mode_at_def true_at_def toValueText_def)

lemma createDefaultOperation_eq:
  "createDefaultOperation upper clock n = (Inr (blank_operation upper (nextLocalId clock n)), Suc n)"
  by (simp add: createDefaultOperation_def normalizeOperation_def ids_bind_def fresh_def blank_operation_def
      json_optional_def string_at_def mode_at_def true_at_def toValueText_def text_or_def truthy_def
      OPERATION_MODE_VALUES_def OPERATION_MODE_OPTIONS_def)

section \<open>Lists of operations\<close>

text \<open>The index of the first element with a property, -1 as \<open>None\<close>, and \<open>splice(i, 0, x)\<close>.\<close>

definition find_index :: "('a \<Rightarrow> bool) \<Rightarrow> 'a list \<Rightarrow> nat option" where
  "find_index P xs = (let i = length (takeWhile (\<lambda>x. \<not> P x) xs) in if i < length xs then Some i else None)"

definition insert_at :: "nat \<Rightarrow> 'a \<Rightarrow> 'a list \<Rightarrow> 'a list" where
  "insert_at i x xs = take i xs @ x # drop i xs"

datatype drop_position = Before | After

definition reorderOperations :: "override_operation list \<Rightarrow> jsstr \<Rightarrow> jsstr \<Rightarrow> drop_position \<Rightarrow>
    override_operation list" where
  "reorderOperations ops sourceId targetId position =
     (if sourceId = [] \<or> targetId = [] \<or> sourceId = targetId then ops
      else case find_index (\<lambda>op. po_id op = sourceId) ops of
        None \<Rightarrow> ops
      | Some i \<Rightarrow>
          let moved = ops ! i; rest = take i ops @ drop (i + 1) ops
          in case find_index (\<lambda>op. po_id op = targetId) rest of
               None \<Rightarrow> ops
             | Some j \<Rightarrow> insert_at (if position = After then j + 1 else j) moved rest)"

definition isOperationBlank :: "override_operation \<Rightarrow> bool" where
  "isOperationBlank op \<longleftrightarrow>
     po_mode op = J ''set'' \<and> trim (po_path op) = [] \<and> trim (po_from op) = [] \<and> trim (po_to op) = [] \<and>
     trim (po_value_text op) = [] \<and> \<not> po_keep_origin op \<and>
     \<not> list_ex (\<lambda>c. trim (oc_path c) \<noteq> [] \<or> trim (oc_value_text c) \<noteq> [] \<or> oc_mode c \<noteq> J ''full'' \<or>
         oc_invert c \<or> oc_pass_missing_key c) (po_conditions op)"

definition OPERATION_MODE_LABEL_MAP :: "jsstr \<Rightarrow> jsstr option" where
  "OPERATION_MODE_LABEL_MAP = map_of (map (\<lambda>(label, v). (v, label)) OPERATION_MODE_OPTIONS)"

definition first_written :: "jsstr list \<Rightarrow> jsstr" where
  "first_written xs = (case filter (\<lambda>x. x \<noteq> []) xs of [] \<Rightarrow> J ''-'' | x # _ \<Rightarrow> x)"

definition getOperationSummary :: "override_operation \<Rightarrow> nat \<Rightarrow> jsstr" where
  "getOperationSummary op index =
     (let mode = mode_of op;
        label = (case OPERATION_MODE_LABEL_MAP mode of None \<Rightarrow> mode | Some l \<Rightarrow> l);
        subject = (if mode = J ''sync_fields'' then first_written [trim (po_from op), trim (po_to op)]
          else first_written [trim (po_path op), trim (po_from op), trim (po_to op)])
      in to_str (Fin (of_nat (index + 1))) @ J ''. '' @ label @ [32, 183, 32] @ subject)"

end
