(* ===== verification/OverrideDrafts.thy ===== *)
theory OverrideDrafts
  imports OverrideData
begin

text \<open>
  The editor of parameter overrides, second part: the texts that the forms of single modes read and
  write, the ends of \<open>sync_fields\<close>, the custom error of \<open>return_error\<close>, the rules of
  \<open>prune_objects\<close> and the header names of \<open>pass_headers\<close>. \<open>toLowerCase\<close> and \<open>toUpperCase\<close> are the
  parameters \<open>lower\<close> and \<open>upper\<close>.
\<close>

section \<open>Objects that are built key by key\<close>

type_synonym fields = "(jsstr \<times> json) list"

definition put_if :: "bool \<Rightarrow> string \<Rightarrow> json \<Rightarrow> fields \<Rightarrow> fields" where
  "put_if c k v m = (if c then obj_put (J k) v m else m)"

fun js_map :: "('a \<Rightarrow> 'b js) \<Rightarrow> 'a list \<Rightarrow> 'b list js" where
  "js_map f [] = Inr []"
| "js_map f (x # xs) = js_bind (f x) (\<lambda>y. js_bind (js_map f xs) (\<lambda>ys. Inr (y # ys)))"

text \<open>\<open>String(v ?? '')\<close>, and \<open>Number(v)\<close> of a value that may be missing.\<close>

definition text_of :: "json \<Rightarrow> jsstr js" where
  "text_of v = (if v = JNull then Inr [] else js_String v)"

definition js_Number :: "json option \<Rightarrow> jsnum js" where
  "js_Number v =
     (case v of
        None \<Rightarrow> Inr NaN
      | Some JNull \<Rightarrow> Inr (Fin 0)
      | Some (JBool b) \<Rightarrow> Inr (Fin (if b then 1 else 0))
      | Some (JNum x) \<Rightarrow> Inr x
      | Some x \<Rightarrow> js_bind (js_String x) (\<lambda>s. Inr (to_number s)))"

section \<open>Ends of sync_fields\<close>

record sync_target =
  st_type :: jsstr
  st_key :: jsstr

definition parseSyncTargetSpec :: "(jsstr \<Rightarrow> jsstr) \<Rightarrow> jsstr \<Rightarrow> sync_target" where
  "parseSyncTargetSpec lower spec =
     (let raw = trim spec in
      if raw = [] then \<lparr>st_type = J ''json'', st_key = []\<rparr>
      else case index_of raw [58] 0 of
        None \<Rightarrow> \<lparr>st_type = J ''json'', st_key = raw\<rparr>
      | Some i \<Rightarrow>
          let prefix = lower (trim (take i raw)); key = trim (drop (i + 1) raw)
          in if prefix = J ''header'' then \<lparr>st_type = J ''header'', st_key = key\<rparr>
             else \<lparr>st_type = J ''json'', st_key = key\<rparr>)"

definition buildSyncTargetSpec :: "jsstr \<Rightarrow> jsstr \<Rightarrow> jsstr" where
  "buildSyncTargetSpec type key =
     (let normalizedType = (if type = J ''header'' then J ''header'' else J ''json''); normalizedKey = trim key
      in if normalizedKey = [] then [] else normalizedType @ [58] @ normalizedKey)"

section \<open>The custom error of return_error\<close>

record return_error_draft =
  rd_message :: jsstr
  rd_statusCode :: jsnum
  rd_code :: jsstr
  rd_type :: jsstr
  rd_skipRetry :: bool
  rd_simpleMode :: bool

definition default_error :: return_error_draft where
  "default_error = \<lparr>rd_message = [], rd_statusCode = num 400, rd_code = [], rd_type = [],
     rd_skipRetry = True, rd_simpleMode = True\<rparr>"

definition status_or_400 :: "jsnum \<Rightarrow> jsnum" where
  "status_or_400 x =
     (if is_integer x \<and> num_le (num 100) x \<and> num_le x (num 599) then x else num 400)"

definition error_fields :: "json \<Rightarrow> return_error_draft js" where
  "error_fields parsed =
     js_bind (js_Number (if get parsed ''status_code'' \<noteq> None then get parsed ''status_code'' else get parsed ''status''))
       (\<lambda>status.
     js_bind (case truthy (get parsed ''message'') of
          Some x \<Rightarrow> js_String x | None \<Rightarrow> text_or (get parsed ''msg'') []) (\<lambda>message.
     js_bind (text_or (get parsed ''code'') []) (\<lambda>code.
     js_bind (text_or (get parsed ''type'') []) (\<lambda>type.
       Inr \<lparr>rd_message = trim message, rd_statusCode = status_or_400 status, rd_code = trim code,
         rd_type = trim type, rd_skipRetry = (get parsed ''skip_retry'' \<noteq> Some (JBool False)),
         rd_simpleMode = False\<rparr>))))"

definition parseReturnErrorDraft :: "jsstr \<Rightarrow> return_error_draft" where
  "parseReturnErrorDraft valueText =
     (let raw = trim valueText; simple = default_error\<lparr>rd_message := raw, rd_simpleMode := True\<rparr> in
      if raw = [] then default_error
      else case json_parse raw of
          Inr (JObj m) \<Rightarrow> (case error_fields (JObj m) of Inr d \<Rightarrow> d | Inl e \<Rightarrow> simple)
        | _ \<Rightarrow> simple)"

definition error_payload :: "return_error_draft \<Rightarrow> fields" where
  "error_payload draft =
     (let code = trim (rd_code draft); type = trim (rd_type draft);
        p0 = [(J ''message'', JStr (trim (rd_message draft))),
              (J ''status_code'', JNum (status_or_400 (rd_statusCode draft)))];
        p1 = put_if (code \<noteq> []) ''code'' (JStr code) p0;
        p2 = put_if (type \<noteq> []) ''type'' (JStr type) p1
      in put_if (\<not> rd_skipRetry draft) ''skip_retry'' (JBool False) p2)"

definition buildReturnErrorValueText :: "return_error_draft \<Rightarrow> jsstr" where
  "buildReturnErrorValueText draft =
     (if rd_simpleMode draft then trim (rd_message draft) else json_text (JObj (error_payload draft)))"

section \<open>The rules of prune_objects\<close>

text \<open>A rule has the fields of a condition, and \<open>normalizePruneRule\<close> reads it as
  \<open>normalizeCondition\<close> reads a condition.\<close>

record prune_draft =
  pd_simpleMode :: bool
  pd_typeText :: jsstr
  pd_logic :: jsstr
  pd_recursive :: bool
  pd_rules :: "override_condition list"

definition default_prune :: prune_draft where
  "default_prune = \<lparr>pd_simpleMode = True, pd_typeText = [], pd_logic = J ''AND'', pd_recursive = True, pd_rules = []\<rparr>"

definition normalizePruneRule :: "(nat \<Rightarrow> jsnum) \<Rightarrow> json \<Rightarrow> override_condition ids" where
  "normalizePruneRule clock rule =
     ids_bind (fresh clock) (\<lambda>i.
       if rule = JNull then ids_lift (Inl TypeError)
       else ids_return \<lparr>oc_id = i, oc_path = string_at rule ''path'',
          oc_mode = mode_at rule CONDITION_MODE_VALUES (J ''full''), oc_value_text = toValueText (get rule ''value''),
          oc_invert = true_at rule ''invert'', oc_pass_missing_key = true_at rule ''pass_missing_key''\<rparr>)"

fun is_object :: "json \<Rightarrow> bool" where
  "is_object (JObj m) \<longleftrightarrow> True"
| "is_object (JArr xs) \<longleftrightarrow> True"
| "is_object v \<longleftrightarrow> False"

text \<open>An entry \<open>path: value\<close> as a rule.\<close>

definition entry_rule :: "jsstr \<times> json \<Rightarrow> json" where
  "entry_rule e = JObj [(J ''path'', JStr (fst e)), (J ''mode'', JStr (J ''full'')), (J ''value'', snd e)]"

definition prune_rules :: "json \<Rightarrow> json list" where
  "prune_rules parsed =
     (case get parsed ''where'' of Some (JObj w) \<Rightarrow> map entry_rule (own_entries w) | _ \<Rightarrow> []) @
     (case get parsed ''conditions'' of
        Some (JArr cs) \<Rightarrow> filter is_object cs
      | Some (JObj w) \<Rightarrow> map entry_rule (own_entries w)
      | _ \<Rightarrow> [])"

definition prune_fields :: "(jsstr \<Rightarrow> jsstr) \<Rightarrow> (nat \<Rightarrow> jsnum) \<Rightarrow> json \<Rightarrow> prune_draft ids" where
  "prune_fields upper clock parsed =
     ids_bind (map_ids (normalizePruneRule clock) (prune_rules parsed)) (\<lambda>rules.
     ids_bind (ids_lift (case get parsed ''type'' of None \<Rightarrow> Inr [] | Some x \<Rightarrow> js_String x)) (\<lambda>typeText.
     ids_bind (ids_lift (text_or (get parsed ''logic'') (J ''AND''))) (\<lambda>logic.
       ids_return \<lparr>pd_simpleMode = (get parsed ''logic'' = None \<and> get parsed ''recursive'' = None \<and>
            get parsed ''where'' = None \<and> get parsed ''conditions'' = None),
         pd_typeText = trim typeText, pd_logic = (if upper logic = J ''OR'' then J ''OR'' else J ''AND''),
         pd_recursive = (get parsed ''recursive'' \<noteq> Some (JBool False)), pd_rules = rules\<rparr>)))"

definition parsePruneObjectsDraft :: "(jsstr \<Rightarrow> jsstr) \<Rightarrow> (nat \<Rightarrow> jsnum) \<Rightarrow> jsstr \<Rightarrow> nat \<Rightarrow> prune_draft \<times> nat" where
  "parsePruneObjectsDraft upper clock valueText n =
     (let raw = trim valueText; plain_type = (\<lambda>s. default_prune\<lparr>pd_typeText := s\<rparr>) in
      if raw = [] then (default_prune, n)
      else case json_parse raw of
          Inl e \<Rightarrow> (plain_type raw, n)
        | Inr (JObj m) \<Rightarrow>
            (case prune_fields upper clock (JObj m) n of (Inl e, k) \<Rightarrow> (plain_type raw, k) | (Inr d, k) \<Rightarrow> (d, k))
        | Inr v \<Rightarrow> (case text_of v of Inl e \<Rightarrow> (plain_type raw, n) | Inr s \<Rightarrow> (plain_type (trim s), n)))"

definition prune_condition :: "override_condition \<Rightarrow> fields" where
  "prune_condition rule =
     (let valueRaw = trim (oc_value_text rule);
        p0 = [(J ''path'', JStr (trim (oc_path rule))),
              (J ''mode'', JStr (if oc_mode rule \<in> set CONDITION_MODE_VALUES then oc_mode rule else J ''full''))];
        p1 = put_if (valueRaw \<noteq> []) ''value'' (parseLooseValue valueRaw) p0;
        p2 = put_if (oc_invert rule) ''invert'' (JBool True) p1
      in put_if (oc_pass_missing_key rule) ''pass_missing_key'' (JBool True) p2)"

definition prune_payload :: "(jsstr \<Rightarrow> jsstr) \<Rightarrow> prune_draft \<Rightarrow> fields" where
  "prune_payload upper draft =
     (let typeText = trim (pd_typeText draft);
        conditions = map (\<lambda>r. JObj (prune_condition r)) (filter (\<lambda>r. trim (oc_path r) \<noteq> []) (pd_rules draft));
        p1 = put_if (typeText \<noteq> []) ''type'' (JStr typeText) [];
        p2 = put_if (upper (if pd_logic draft = [] then J ''AND'' else pd_logic draft) = J ''OR'') ''logic'' (JStr (J ''OR'')) p1;
        p3 = put_if (\<not> pd_recursive draft) ''recursive'' (JBool False) p2;
        p4 = put_if (conditions \<noteq> []) ''conditions'' (JArr conditions) p3
      in if typeText = [] \<and> conditions = [] then [(J ''logic'', JStr (J ''AND''))] else p4)"

definition buildPruneObjectsValueText :: "(jsstr \<Rightarrow> jsstr) \<Rightarrow> prune_draft \<Rightarrow> jsstr" where
  "buildPruneObjectsValueText upper draft =
     (if pd_simpleMode draft then trim (pd_typeText draft) else json_text (JObj (prune_payload upper draft)))"

section \<open>The header names of pass_headers\<close>

definition trimmed_texts :: "json list \<Rightarrow> jsstr list js" where
  "trimmed_texts xs = js_bind (js_map text_of xs) (\<lambda>ss. Inr (nonempty (map trim ss)))"

definition parsePassHeaderNames :: "json \<Rightarrow> jsstr list js" where
  "parsePassHeaderNames rawValue =
     (case rawValue of
        JArr xs \<Rightarrow> trimmed_texts xs
      | JObj m \<Rightarrow>
          (case map_of m (J ''headers'') of
             Some (JArr xs) \<Rightarrow> trimmed_texts xs
           | _ \<Rightarrow>
             (case map_of m (J ''header'') of
                Some x \<Rightarrow> js_bind (text_of x) (\<lambda>s. Inr (if trim s = [] then [] else [trim s]))
              | None \<Rightarrow> Inr []))
      | JStr s \<Rightarrow> Inr (nonempty (map trim (split_ch 44 s)))
      | _ \<Rightarrow> Inr [])"

end
