(* ===== verification/OverrideSave.thy ===== *)
theory OverrideSave
  imports OverrideDrafts
begin

text \<open>
  The editor of parameter overrides, third part: the checks, the JSON text that is saved and the state
  in which a text is opened. The translator \<open>t\<close> gets a text and, for the texts about a rule, its
  number.
\<close>

section \<open>Checks\<close>

definition operation_problem :: "override_operation \<Rightarrow> jsstr option js" where
  "operation_problem op =
     (let mode = mode_of op; meta = meta_of mode; pathValue = trim (po_path op); fromValue = trim (po_from op);
        toValue = trim (po_to op); raw = trim (po_value_text op) in
      if mm_path meta \<and> pathValue = [] then Inr (Some (J ''Rule {{line}} is missing target path''))
      else if mode \<in> set FROM_REQUIRED_MODES \<and> fromValue = [] \<and> \<not> (mm_pathAlias meta \<and> pathValue \<noteq> [])
      then Inr (Some (J ''Rule {{line}} is missing source field''))
      else if mode \<in> set TO_REQUIRED_MODES \<and> toValue = [] \<and> \<not> (mm_pathAlias meta \<and> pathValue \<noteq> [])
      then Inr (Some (J ''Rule {{line}} is missing target field''))
      else if mode \<in> set VALUE_REQUIRED_MODES \<and> raw = []
      then Inr (Some (J ''Rule {{line}} is missing value''))
      else if mode = J ''return_error'' \<and> (case json_parse raw of
            Inr (JObj m) \<Rightarrow> (case text_or (map_of m (J ''message'')) [] of Inr s \<Rightarrow> trim s = [] | Inl e \<Rightarrow> False)
          | _ \<Rightarrow> False)
      then Inr (Some (J ''Rule {{line}} return_error requires a message field''))
      else if mode = J ''pass_headers''
      then js_bind (parsePassHeaderNames (parseLooseValue raw)) (\<lambda>headers.
        Inr (if headers = [] then Some (J ''Rule {{line}} pass_headers format is invalid'') else None))
      else Inr None)"

text \<open>The loop over the rules; the checks for an empty value that come after the one above are never
  reached, since their modes are among \<open>VALUE_REQUIRED_MODES\<close>.\<close>

fun validate_from :: "(jsstr \<Rightarrow> nat option \<Rightarrow> jsstr) \<Rightarrow> nat \<Rightarrow> override_operation list \<Rightarrow> jsstr js" where
  "validate_from t i [] = Inr []"
| "validate_from t i (op # ops) =
     js_bind (operation_problem op) (\<lambda>p. case p of
        Some key \<Rightarrow> Inr (t key (Some (i + 1)))
      | None \<Rightarrow> validate_from t (i + 1) ops)"

definition validateOperations :: "(jsstr \<Rightarrow> nat option \<Rightarrow> jsstr) \<Rightarrow> override_operation list \<Rightarrow> jsstr js" where
  "validateOperations t ops = validate_from t 0 ops"

section \<open>Writing\<close>

definition buildConditionPayload :: "override_condition \<Rightarrow> fields option" where
  "buildConditionPayload c =
     (let path = trim (oc_path c) in
      if path = [] then None
      else
        let p0 = [(J ''path'', JStr path), (J ''mode'', JStr (if oc_mode c = [] then J ''full'' else oc_mode c)),
                  (J ''value'', parseLooseValue (oc_value_text c))];
            p1 = put_if (oc_invert c) ''invert'' (JBool True) p0
        in Some (put_if (oc_pass_missing_key c) ''pass_missing_key'' (JBool True) p1))"

definition condition_payloads :: "override_condition list \<Rightarrow> json list" where
  "condition_payloads cs = map JObj (List.map_filter buildConditionPayload cs)"

definition has_text :: "fields \<Rightarrow> string \<Rightarrow> bool" where
  "has_text m k \<longleftrightarrow> truthy (map_of m (J k)) \<noteq> None"

definition operation_payload :: "override_operation \<Rightarrow> fields" where
  "operation_payload op =
     (let mode = mode_of op; meta = meta_of mode; descriptionValue = trim (po_description op);
        pathValue = trim (po_path op); fromValue = trim (po_from op); toValue = trim (po_to op);
        conditions = condition_payloads (po_conditions op);
        p0 = [(J ''mode'', JStr mode)];
        p1 = put_if (descriptionValue \<noteq> []) ''description'' (JStr descriptionValue) p0;
        p2 = put_if (mm_path meta) ''path'' (JStr pathValue) p1;
        p3 = put_if (mm_pathOptional meta \<and> pathValue \<noteq> []) ''path'' (JStr pathValue) p2;
        p4 = put_if (mm_value meta) ''value'' (parseLooseValue (po_value_text op)) p3;
        p5 = put_if (mm_keepOrigin meta \<and> po_keep_origin op) ''keep_origin'' (JBool True) p4;
        p6 = put_if (mm_from meta) ''from'' (JStr fromValue) p5;
        p7 = put_if (\<not> mm_to meta \<and> toValue \<noteq> []) ''to'' (JStr toValue) p6;
        p8 = put_if (mm_to meta) ''to'' (JStr toValue) p7;
        p9 = put_if (mm_pathAlias meta \<and> \<not> has_text p8 ''from'' \<and> pathValue \<noteq> []) ''from'' (JStr pathValue) p8;
        p10 = put_if (mm_pathAlias meta \<and> \<not> has_text p9 ''to'' \<and> pathValue \<noteq> []) ''to'' (JStr pathValue) p9;
        p11 = put_if (conditions \<noteq> []) ''conditions'' (JArr conditions) p10
      in put_if (conditions \<noteq> []) ''logic'' (JStr (if po_logic op = J ''AND'' then J ''AND'' else J ''OR'')) p11)"

datatype override_error = Thrown js_error | Message jsstr

definition pretty :: "json \<Rightarrow> jsstr" where
  "pretty v = json_print [32, 32] [] v"

definition operations_json :: "override_operation list \<Rightarrow> json" where
  "operations_json ops = JObj [(J ''operations'', JArr (map (\<lambda>op. JObj (operation_payload op)) ops))]"

definition buildOperationsJson :: "override_operation list \<Rightarrow> bool \<Rightarrow> (jsstr \<Rightarrow> nat option \<Rightarrow> jsstr) \<Rightarrow>
    override_error + jsstr" where
  "buildOperationsJson ops validate t =
     (let filteredOps = filter (\<lambda>op. \<not> isOperationBlank op) ops in
      if filteredOps = [] then Inr []
      else case (if validate then validateOperations t filteredOps else Inr []) of
          Inl e \<Rightarrow> Inl (Thrown e)
        | Inr message \<Rightarrow>
            if message \<noteq> [] then Inl (Message message) else Inr (pretty (operations_json filteredOps)))"

section \<open>Opening\<close>

datatype edit_mode = VisualEditing | JsonEditing
datatype visual_mode = OperationRules | LegacyObject

record editor_state =
  es_editMode :: edit_mode
  es_visualMode :: visual_mode
  es_legacyValue :: jsstr
  es_operations :: "override_operation list"
  es_jsonText :: jsstr
  es_jsonError :: jsstr

definition one_operation :: "(jsstr \<Rightarrow> jsstr) \<Rightarrow> (nat \<Rightarrow> jsnum) \<Rightarrow> override_operation list ids" where
  "one_operation upper clock = ids_bind (createDefaultOperation upper clock) (\<lambda>op. ids_return [op])"

definition read_operations :: "(jsstr \<Rightarrow> jsstr) \<Rightarrow> (nat \<Rightarrow> jsnum) \<Rightarrow> json list \<Rightarrow> override_operation list ids" where
  "read_operations upper clock xs =
     (if xs = [] then one_operation upper clock else map_ids (normalizeOperation upper clock) xs)"

definition parseInitialState :: "(jsstr \<Rightarrow> jsstr) \<Rightarrow> (nat \<Rightarrow> jsnum) \<Rightarrow> jsstr \<Rightarrow> editor_state ids" where
  "parseInitialState upper clock text =
     (let trimmed = trim text in
      if trimmed = [] then
        ids_bind (one_operation upper clock) (\<lambda>ops. ids_return
          \<lparr>es_editMode = VisualEditing, es_visualMode = OperationRules, es_legacyValue = [], es_operations = ops,
            es_jsonText = [], es_jsonError = []\<rparr>)
      else case json_parse trimmed of
        Inl e \<Rightarrow>
          ids_bind (one_operation upper clock) (\<lambda>ops. ids_return
            \<lparr>es_editMode = JsonEditing, es_visualMode = OperationRules, es_legacyValue = [], es_operations = ops,
              es_jsonText = text, es_jsonError = J ''Invalid JSON format''\<rparr>)
      | Inr parsed \<Rightarrow>
          (case (parsed, get parsed ''operations'') of
            (JObj m, Some (JArr xs)) \<Rightarrow>
              ids_bind (read_operations upper clock xs) (\<lambda>ops. ids_return
                \<lparr>es_editMode = VisualEditing, es_visualMode = OperationRules, es_legacyValue = [],
                  es_operations = ops, es_jsonText = pretty parsed, es_jsonError = []\<rparr>)
          | (JObj m, _) \<Rightarrow>
              ids_bind (one_operation upper clock) (\<lambda>ops. ids_return
                \<lparr>es_editMode = VisualEditing, es_visualMode = LegacyObject, es_legacyValue = pretty parsed,
                  es_operations = ops, es_jsonText = pretty parsed, es_jsonError = []\<rparr>)
          | _ \<Rightarrow>
              ids_bind (one_operation upper clock) (\<lambda>ops. ids_return
                \<lparr>es_editMode = JsonEditing, es_visualMode = OperationRules, es_legacyValue = [],
                  es_operations = ops, es_jsonText = pretty parsed, es_jsonError = []\<rparr>)))"

section \<open>What a saved operation reads back as\<close>

text \<open>The value text of an operation or condition after it was saved and opened again.\<close>

definition saved_text :: "jsstr \<Rightarrow> jsstr" where
  "saved_text s = toValueText (Some (canon (parseLooseValue s)))"

definition saved_condition :: "override_condition \<Rightarrow> override_condition" where
  "saved_condition c =
     \<lparr>oc_id = [], oc_path = trim (oc_path c),
       oc_mode = (if oc_mode c \<in> set CONDITION_MODE_VALUES then oc_mode c else J ''full''),
       oc_value_text = saved_text (oc_value_text c), oc_invert = oc_invert c,
       oc_pass_missing_key = oc_pass_missing_key c\<rparr>"

definition saved_operation :: "override_operation \<Rightarrow> override_operation" where
  "saved_operation op =
     (let mode = mode_of op; meta = meta_of mode; path = trim (po_path op);
        alias = (\<lambda>s. if s = [] \<and> mm_pathAlias meta then path else s);
        conditions = map saved_condition (filter (\<lambda>c. trim (oc_path c) \<noteq> []) (po_conditions op)) in
      \<lparr>po_id = [], po_description = trim (po_description op),
        po_path = (if mm_path meta \<or> mm_pathOptional meta then path else []), po_mode = mode,
        po_from = alias (if mm_from meta then trim (po_from op) else []), po_to = alias (trim (po_to op)),
        po_value_text = (if mm_value meta then saved_text (po_value_text op) else []),
        po_keep_origin = (mm_keepOrigin meta \<and> po_keep_origin op),
        po_logic = (if conditions \<noteq> [] \<and> po_logic op = J ''AND'' then J ''AND'' else J ''OR''),
        po_conditions = conditions\<rparr>)"

definition without_ids :: "override_operation \<Rightarrow> override_operation" where
  "without_ids op = op\<lparr>po_id := [], po_conditions := map (\<lambda>c. c\<lparr>oc_id := []\<rparr>) (po_conditions op)\<rparr>"

text \<open>Operations that the editor can hold: texts of code units, modes it offers.\<close>

definition condition_ok :: "override_condition \<Rightarrow> bool" where
  "condition_ok c \<longleftrightarrow> utf16 (oc_path c) \<and> utf16 (oc_value_text c) \<and> oc_mode c \<in> set CONDITION_MODE_VALUES"

definition operation_ok :: "override_operation \<Rightarrow> bool" where
  "operation_ok op \<longleftrightarrow> utf16 (po_description op) \<and> utf16 (po_path op) \<and> utf16 (po_from op) \<and> utf16 (po_to op) \<and>
     utf16 (po_value_text op) \<and> po_mode op \<in> set OPERATION_MODE_VALUES \<and>
     (po_logic op = J ''AND'' \<or> po_logic op = J ''OR'') \<and> list_all condition_ok (po_conditions op)"

end
