(* ===== verification/OverrideRoundTrip.thy ===== *)
theory OverrideRoundTrip
  imports OverrideSave
begin

text \<open>
  The editor of parameter overrides, fourth part: what was saved, opened again.
\<close>

section \<open>Values that are written\<close>

lemma utf16_J [simp]: "utf16 (J s)"
proof (induction s)
  case (Cons c s)
  have "(of_char c :: nat) < 65536" using nat_of_char_less_256 [of c] by (rule less_trans) simp
  then have "int (of_char c) < int 65536" by (simp only: of_nat_less_iff)
  moreover have "0 \<le> int (of_char c)" by (rule of_nat_0_le_iff)
  ultimately have "0 \<le> (of_char c :: int) \<and> (of_char c :: int) < 65536"
    by (simp only: of_nat_of_char of_nat_numeral)
  with Cons show ?case by simp
qed simp

lemma parsed_cases:
  obtains v where "json_parse s = Inr v" | e where "json_parse s = Inl e"
  by (cases "json_parse s") auto

lemma proper_loose: "utf16 s \<Longrightarrow> proper (parseLooseValue s)"
  by (rule parsed_cases [of "trim s"]) (auto simp: parseLooseValue_def Let_def intro: parse_proper)

lemma proper_put_if: "proper (JObj m) \<Longrightarrow> (c \<Longrightarrow> proper v) \<Longrightarrow> proper (JObj (put_if c k v m))"
  by (cases c) (simp_all only: put_if_def if_True if_False proper_put utf16_J)

lemma map_of_put_if:
  "map_of (put_if c k v m) j = (if c \<and> J k = j then Some v else map_of m j)"
  by (simp add: put_if_def map_of_obj_put)

lemma map_of_own_entries: "distinct (map fst m) \<Longrightarrow> map_of (own_entries m) = map_of m"
  by (rule map_of_inject_set [THEN iffD2]) (simp_all add: distinct_own_entries)

lemma get_canon: "proper (JObj m) \<Longrightarrow> json_optional (Some (canon (JObj m))) k = map_option canon (map_of m k)"
proof -
  assume p: "proper (JObj m)"
  let ?m = "map (\<lambda>p. (fst p, canon (snd p))) m"
  have "map_of (own_entries ?m) = map_of ?m" using p by (intro map_of_own_entries) (simp add: comp_def)
  moreover have "map_of ?m k = map_option canon (map_of m k)" by (induction m) auto
  ultimately show ?thesis by (simp add: json_optional_def)
qed

section \<open>Conditions\<close>

lemma proper_condition:
  assumes "utf16 (oc_path c)" "utf16 (oc_value_text c)" "utf16 (oc_mode c)" "buildConditionPayload c = Some m"
  shows "proper (JObj m)"
proof -
  have "proper (JObj [(J ''path'', JStr (trim (oc_path c))), (J ''mode'', JStr (if oc_mode c = [] then J ''full'' else oc_mode c)),
      (J ''value'', parseLooseValue (oc_value_text c))])"
    using assms(1-3) proper_loose [of "oc_value_text c"] utf16_J [of "''full''"] by simp
  then show ?thesis
    using assms(4) by (auto simp: buildConditionPayload_def Let_def simp del: proper.simps split: if_splits
        intro!: proper_put_if)
      (simp_all)
qed

lemma utf16_modes: "m \<in> set CONDITION_MODE_VALUES \<Longrightarrow> utf16 m" "m \<in> set OPERATION_MODE_VALUES \<Longrightarrow> utf16 m"
  by (auto simp: CONDITION_MODE_VALUES_def OPERATION_MODE_VALUES_def OPERATION_MODE_OPTIONS_def)

lemma modes_not_Nil: "m \<in> set CONDITION_MODE_VALUES \<Longrightarrow> m \<noteq> []" "m \<in> set OPERATION_MODE_VALUES \<Longrightarrow> m \<noteq> []"
  by (auto simp: CONDITION_MODE_VALUES_def OPERATION_MODE_VALUES_def OPERATION_MODE_OPTIONS_def)

lemma condition_reads:
  assumes "condition_ok c" "buildConditionPayload c = Some m"
  shows "\<exists>i. normalizeCondition clock (canon (JObj m)) n = (Inr ((saved_condition c)\<lparr>oc_id := i\<rparr>), Suc n)"
proof -
  have u: "utf16 (oc_path c)" "utf16 (oc_value_text c)" "utf16 (oc_mode c)" and mode: "oc_mode c \<in> set CONDITION_MODE_VALUES"
    using assms(1) by (auto simp: condition_ok_def utf16_modes)
  note p = get_canon [OF proper_condition [OF u assms(2)]]
  have m: "m = put_if (oc_pass_missing_key c) ''pass_missing_key'' (JBool True)
      (put_if (oc_invert c) ''invert'' (JBool True)
        [(J ''path'', JStr (trim (oc_path c))), (J ''mode'', JStr (oc_mode c)),
         (J ''value'', parseLooseValue (oc_value_text c))])"
    using assms(2) modes_not_Nil(1) [OF mode] by (simp add: buildConditionPayload_def Let_def split: if_splits)
  have "get (canon (JObj m)) ''path'' = Some (JStr (trim (oc_path c)))"
    "get (canon (JObj m)) ''mode'' = Some (JStr (oc_mode c))"
    "get (canon (JObj m)) ''value'' = Some (canon (parseLooseValue (oc_value_text c)))"
    "get (canon (JObj m)) ''invert'' = (if oc_invert c then Some (JBool True) else None)"
    "get (canon (JObj m)) ''pass_missing_key'' = (if oc_pass_missing_key c then Some (JBool True) else None)"
    unfolding p unfolding m by (simp_all add: map_of_put_if)
  with mode show ?thesis
    by (simp add: normalizeCondition_def ids_bind_def fresh_def string_at_def mode_at_def true_at_def
        saved_condition_def saved_text_def del: canon.simps) (auto simp: canon.simps)
qed


lemma map_filter_Cons:
  "List.map_filter f (x # xs) = (case f x of None \<Rightarrow> List.map_filter f xs | Some y \<Rightarrow> y # List.map_filter f xs)"
  "List.map_filter f [] = []"
  by (simp_all add: List.map_filter_def split: option.splits)

lemma no_condition: "buildConditionPayload c = None \<longleftrightarrow> trim (oc_path c) = []"
  by (simp add: buildConditionPayload_def Let_def)

lemma conditions_read:
  assumes "list_all condition_ok cs"
  shows "\<exists>ys k. map_ids (normalizeCondition clock) (map canon (condition_payloads cs)) n = (Inr ys, k) \<and>
    map (\<lambda>c. c\<lparr>oc_id := []\<rparr>) ys = map saved_condition (filter (\<lambda>c. trim (oc_path c) \<noteq> []) cs)"
  using assms
proof (induction cs arbitrary: n)
  case Nil
  then show ?case by (simp add: condition_payloads_def map_filter_Cons)
next
  case (Cons c cs)
  show ?case
  proof (cases "buildConditionPayload c")
    case None
    then have "trim (oc_path c) = []" by (simp only: no_condition)
    with None Cons show ?thesis by (simp add: condition_payloads_def map_filter_Cons)
  next
    case (Some m)
    from Cons.prems have "condition_ok c" by simp
    from condition_reads [OF this Some] obtain i where
      i: "normalizeCondition clock (canon (JObj m)) n = (Inr ((saved_condition c)\<lparr>oc_id := i\<rparr>), Suc n)"
      by blast
    from Cons obtain ys k where "map_ids (normalizeCondition clock) (map canon (condition_payloads cs)) (Suc n) = (Inr ys, k)"
      "map (\<lambda>c. c\<lparr>oc_id := []\<rparr>) ys = map saved_condition (filter (\<lambda>c. trim (oc_path c) \<noteq> []) cs)"
      by fastforce
    moreover have "(saved_condition c)\<lparr>oc_id := []\<rparr> = saved_condition c" by (simp add: saved_condition_def)
    moreover have "trim (oc_path c) \<noteq> []" using Some no_condition [of c] by simp
    ultimately show ?thesis using Some i
      by (simp add: condition_payloads_def map_filter_Cons del: canon.simps)
  qed
qed

lemma proper_conditions:
  assumes "list_all condition_ok cs"
  shows "proper (JArr (condition_payloads cs))"
proof -
  have "proper (JObj m)" if "buildConditionPayload c = Some m" "c \<in> set cs" for c m
    using assms that by (intro proper_condition [OF _ _ _ that(1)]) (auto simp: condition_ok_def utf16_modes list_all_iff)
  then show ?thesis by (auto simp: condition_payloads_def List.map_filter_def list_all_iff simp del: proper.simps(4))
qed

lemma payloads_empty: "condition_payloads cs = [] \<longleftrightarrow> filter (\<lambda>c. trim (oc_path c) \<noteq> []) cs = []"
  by (simp add: condition_payloads_def List.map_filter_def no_condition)

section \<open>Operations\<close>

text \<open>The keys of the object of an operation.\<close>

lemma has_text_simps [simp]: "has_text m k \<longleftrightarrow> truthy (map_of m (J k)) \<noteq> None"
  by (simp add: has_text_def)

lemma truthy_simps [simp]: "truthy None = None" "truthy (Some v) = (if json_truthy v then Some v else None)"
  by (simp_all add: truthy_def)

lemma payload_get:
  defines "P \<equiv> \<lambda>op. map_of (operation_payload op)" and "meta \<equiv> \<lambda>op. meta_of (mode_of op)"
    and "Q \<equiv> \<lambda>op s. if s = [] \<and> mm_pathAlias (meta_of (mode_of op)) then trim (po_path op) else s"
  shows "P op (J ''mode'') = Some (JStr (mode_of op))"
    "P op (J ''description'') = (if trim (po_description op) = [] then None else Some (JStr (trim (po_description op))))"
    "P op (J ''path'') = (if mm_path (meta op) \<or> mm_pathOptional (meta op) \<and> trim (po_path op) \<noteq> []
       then Some (JStr (trim (po_path op))) else None)"
    "P op (J ''value'') = (if mm_value (meta op) then Some (parseLooseValue (po_value_text op)) else None)"
    "P op (J ''keep_origin'') = (if mm_keepOrigin (meta op) \<and> po_keep_origin op then Some (JBool True) else None)"
    "string_at (JObj (operation_payload op)) ''from'' = Q op (if mm_from (meta op) then trim (po_from op) else [])"
    "string_at (JObj (operation_payload op)) ''to'' = Q op (trim (po_to op))"
    "P op (J ''conditions'') = (if condition_payloads (po_conditions op) = [] then None
       else Some (JArr (condition_payloads (po_conditions op))))"
    "P op (J ''logic'') = (if condition_payloads (po_conditions op) = [] then None
       else Some (JStr (if po_logic op = J ''AND'' then J ''AND'' else J ''OR'')))"
  unfolding assms
  by (simp_all add: operation_payload_def Let_def map_of_put_if string_at_def json_optional_def)

lemma proper_payload:
  assumes "operation_ok op"
  shows "proper (JObj (operation_payload op))"
proof -
  have m: "utf16 (mode_of op)" using assms utf16_modes [of "po_mode op"] utf16_J [of "''set''"]
    by (simp add: operation_ok_def mode_of_def)
  have c: "proper (JArr (condition_payloads (po_conditions op)))"
    using assms by (intro proper_conditions) (simp add: operation_ok_def)
  have l: "proper (JStr (if po_logic op = J ''AND'' then J ''AND'' else J ''OR''))"
    using utf16_J [of "''AND''"] utf16_J [of "''OR''"] by simp
  have p0: "proper (JObj [(J ''mode'', JStr (mode_of op))])" using m utf16_J [of "''mode''"] by simp
  show ?thesis
    unfolding operation_payload_def Let_def
    by (intro proper_put_if p0 c l)
      (use assms proper_loose [of "po_value_text op"] in \<open>simp_all add: operation_ok_def\<close>)
qed

lemma string_at_canon: "proper (JObj m) \<Longrightarrow> string_at (canon (JObj m)) k = string_at (JObj m) k"
proof -
  assume p: "proper (JObj m)"
  have "(case map_option canon x of Some (JStr s) \<Rightarrow> s | _ \<Rightarrow> []) = (case x of Some (JStr s) \<Rightarrow> s | _ \<Rightarrow> [])" for x
    by (auto split: option.splits json.splits elim: canon.elims)
  then show ?thesis unfolding string_at_def get_canon [OF p] by (simp add: json_optional_def)
qed

lemma ids_bind_eq: "m n = (Inr y, k) \<Longrightarrow> ids_bind m f n = f y k"
  by (simp add: ids_bind_def)

lemma operation_reads:
  assumes ok: "operation_ok op" and up: "upper (J ''AND'') = J ''AND''" "upper (J ''OR'') \<noteq> J ''AND''"
  shows "\<exists>op' k. normalizeOperation upper clock (canon (JObj (operation_payload op))) n = (Inr op', k) \<and>
    without_ids op' = saved_operation op"
proof -
  let ?v = "canon (JObj (operation_payload op))" and ?meta = "meta_of (mode_of op)"
  let ?cs = "condition_payloads (po_conditions op)"
  let ?logic = "if ?cs \<noteq> [] \<and> po_logic op = J ''AND'' then J ''AND'' else J ''OR''"
  note p = proper_payload [OF ok]
  note g = get_canon [OF p]
  have mode: "mode_of op = po_mode op" using ok modes_not_Nil(2) [of "po_mode op"]
    by (simp add: operation_ok_def mode_of_def)
  have nn: "?v \<noteq> JNull" by simp
  have 1: "text_or (get ?v ''logic'') (J ''OR'') = Inr ?logic"
    unfolding g payload_get by (simp add: text_or_def js_String_def)
  have up': "(if upper ?logic = J ''AND'' then J ''AND'' else J ''OR'') = ?logic" using up by auto
  obtain ys k where k: "map_ids (normalizeCondition clock) (map canon ?cs) (Suc n) = (Inr ys, k)"
    and ys: "map (\<lambda>c. c\<lparr>oc_id := []\<rparr>) ys = map saved_condition (filter (\<lambda>c. trim (oc_path c) \<noteq> []) (po_conditions op))"
    using conditions_read [of "po_conditions op" clock "Suc n"] ok by (auto simp: operation_ok_def)
  have 2: "(case get ?v ''conditions'' of Some (JArr cs) \<Rightarrow> map_ids (normalizeCondition clock) cs | _ \<Rightarrow> ids_return [])
      (Suc n) = (Inr ys, k)"
    unfolding g payload_get using k by (auto simp: ids_return_def)
  have vt: "toValueText (get ?v ''value'') = (if mm_value ?meta then saved_text (po_value_text op) else [])"
    unfolding g payload_get saved_text_def by (simp add: toValueText_def [of None])
  have keep: "true_at ?v ''keep_origin'' = (mm_keepOrigin ?meta \<and> po_keep_origin op)"
    unfolding true_at_def g payload_get by simp
  have md: "mode_at ?v OPERATION_MODE_VALUES (J ''set'') = mode_of op"
    unfolding mode_at_def g payload_get using ok by (simp add: mode operation_ok_def)
  have path: "string_at ?v ''path'' = (if mm_path ?meta \<or> mm_pathOptional ?meta then trim (po_path op) else [])"
    unfolding string_at_def g payload_get by simp
  have desc: "string_at ?v ''description'' = trim (po_description op)"
    unfolding string_at_def g payload_get by simp
  have "normalizeOperation upper clock ?v n = (Inr \<lparr>po_id = nextLocalId clock n,
      po_description = string_at ?v ''description'', po_path = string_at ?v ''path'',
      po_mode = mode_at ?v OPERATION_MODE_VALUES (J ''set''), po_from = string_at ?v ''from'',
      po_to = string_at ?v ''to'', po_value_text = toValueText (get ?v ''value''),
      po_keep_origin = true_at ?v ''keep_origin'',
      po_logic = (if upper ?logic = J ''AND'' then J ''AND'' else J ''OR''), po_conditions = ys\<rparr>, k)"
    unfolding normalizeOperation_def ids_bind_eq [where m = "fresh clock", OF fresh_def] if_not_P [OF nn] 1
    unfolding ids_simps(6)
      ids_bind_eq [where m = "case get ?v ''conditions'' of Some (JArr cs) \<Rightarrow> map_ids (normalizeCondition clock) cs
        | _ \<Rightarrow> ids_return []", OF 2] by (simp only: ids_simps(1))
  moreover have "filter (\<lambda>c. trim (oc_path c) \<noteq> []) (po_conditions op) \<noteq> [] \<longleftrightarrow> ?cs \<noteq> []"
    using payloads_empty by simp
  ultimately show ?thesis
    unfolding up' vt keep md path desc unfolding string_at_canon [OF p] payload_get
    using ys by (simp add: without_ids_def saved_operation_def Let_def)
qed

lemma operations_read:
  assumes "list_all operation_ok ops" "upper (J ''AND'') = J ''AND''" "upper (J ''OR'') \<noteq> J ''AND''"
  shows "\<exists>ys k. map_ids (normalizeOperation upper clock) (map (\<lambda>op. canon (JObj (operation_payload op))) ops) n =
    (Inr ys, k) \<and> map without_ids ys = map saved_operation ops"
  using assms(1)
proof (induction ops arbitrary: n)
  case (Cons op ops)
  then have "operation_ok op" by simp
  from operation_reads [OF this assms(2,3)] obtain op' k where
    k: "normalizeOperation upper clock (canon (JObj (operation_payload op))) n = (Inr op', k)"
      "without_ids op' = saved_operation op" by blast
  from Cons obtain ys j where
    "map_ids (normalizeOperation upper clock) (map (\<lambda>op. canon (JObj (operation_payload op))) ops) k = (Inr ys, j)"
    "map without_ids ys = map saved_operation ops" by fastforce
  with k show ?case by (simp del: canon.simps)
qed simp

section \<open>The saved text\<close>

lemma blanks_gap [simp]: "blanks [32, 32]"
  by (simp add: blanks_def json_ws_def)

lemma proper_operations_json: "list_all operation_ok ops \<Longrightarrow> proper (operations_json ops)"
  using utf16_J [of "''operations''"] proper_payload
  by (auto simp: operations_json_def list_all_iff simp del: proper.simps(4))
    (auto simp: list_all_iff)

lemma canon_operations_json:
  "canon (operations_json ops) =
    JObj [(J ''operations'', JArr (map (\<lambda>op. canon (JObj (operation_payload op))) ops))]"
proof -
  have "\<not> is_index (J ''operations'')" by (simp add: is_index_def is_digit_def)
  then have "own_entries [(J ''operations'', v)] = [(J ''operations'', v)]" for v :: json
    by (intro own_entries_names) simp
  then show ?thesis by (simp add: operations_json_def comp_def)
qed

lemma built_text:
  assumes "buildOperationsJson ops validate t = Inr s" "s \<noteq> []"
  shows "s = pretty (operations_json (filter (\<lambda>op. \<not> isOperationBlank op) ops))"
    "filter (\<lambda>op. \<not> isOperationBlank op) ops \<noteq> []"
  using assms by (auto simp: buildOperationsJson_def Let_def split: if_splits sum.splits)

lemma saved_override_reopens_at:
  assumes ok: "list_all operation_ok ops" and built: "buildOperationsJson ops validate t = Inr s" "s \<noteq> []"
    and up: "upper (J ''AND'') = J ''AND''" "upper (J ''OR'') \<noteq> J ''AND''"
  shows "\<exists>reopened k. parseInitialState upper clock s n =
      (Inr \<lparr>es_editMode = VisualEditing, es_visualMode = OperationRules, es_legacyValue = [],
        es_operations = reopened, es_jsonText = s, es_jsonError = []\<rparr>, k) \<and>
    map without_ids reopened = map saved_operation (filter (\<lambda>op. \<not> isOperationBlank op) ops)"
proof -
  let ?ops = "filter (\<lambda>op. \<not> isOperationBlank op) ops" and ?read = "\<lambda>op. canon (JObj (operation_payload op))"
  note s = built_text [OF built]
  have ok': "list_all operation_ok ?ops" using ok by (auto simp: list_all_iff)
  note p = proper_operations_json [OF ok']
  have tr: "trim s = s" using print_trim [OF p] s(1) by (simp add: pretty_def)
  have parse: "json_parse s = Inr (JObj [(J ''operations'', JArr (map ?read ?ops))])"
    using print_reads_canon [OF p blanks_gap] unfolding s(1) pretty_def canon_operations_json .
  have pr: "pretty (JObj [(J ''operations'', JArr (map ?read ?ops))]) = s"
    unfolding s(1) pretty_def canon_operations_json [symmetric] print_canon ..
  obtain ys k where k: "map_ids (normalizeOperation upper clock) (map ?read ?ops) n = (Inr ys, k)"
    "map without_ids ys = map saved_operation ?ops"
    using operations_read [OF ok' up] by blast
  have rd: "read_operations upper clock (map ?read ?ops) n = (Inr ys, k)"
    unfolding read_operations_def using k(1) s(2) by simp
  have get: "get (JObj [(J ''operations'', JArr (map ?read ?ops))]) ''operations'' = Some (JArr (map ?read ?ops))"
    by (simp add: json_optional_def)
  have "parseInitialState upper clock s n = (Inr \<lparr>es_editMode = VisualEditing, es_visualMode = OperationRules,
      es_legacyValue = [], es_operations = ys, es_jsonText = s, es_jsonError = []\<rparr>, k)"
    unfolding parseInitialState_def Let_def tr if_not_P [OF built(2)] parse sum.case get prod.case json.case option.case
      ids_bind_eq [where m = "read_operations upper clock (map ?read ?ops)", OF rd] pr
    by (simp only: ids_simps(1))
  with k(2) show ?thesis by blast
qed

end
