(* ===== verification/OverrideStable.thy ===== *)
theory OverrideStable
  imports OverrideRoundTrip
begin

text \<open>
  The editor of parameter overrides, fifth part: which rules are complete, and that a saved text which
  is opened and saved again does not change.
\<close>

section \<open>Complete rules\<close>

text \<open>What a rule of each mode has to give.\<close>

definition needs_path :: "jsstr list" where
  "needs_path = [J ''set'', J ''delete'', J ''append'', J ''prepend'', J ''replace'', J ''regex_replace'',
     J ''trim_prefix'', J ''trim_suffix'', J ''ensure_prefix'', J ''ensure_suffix'', J ''trim_space'',
     J ''to_lower'', J ''to_upper'', J ''set_header'', J ''delete_header'']"

definition message_given :: "jsstr \<Rightarrow> bool" where
  "message_given s \<longleftrightarrow> s \<noteq> [] \<and> (case json_parse s of
      Inr (JObj m) \<Rightarrow> text_or (map_of m (J ''message'')) [] = Inl TypeError \<or>
        (\<exists>x. text_or (map_of m (J ''message'')) [] = Inr x \<and> trim x \<noteq> [])
    | _ \<Rightarrow> True)"

definition rule_complete :: "override_operation \<Rightarrow> bool" where
  "rule_complete op \<longleftrightarrow>
     (let mode = po_mode op; path = trim (po_path op); from = trim (po_from op); to = trim (po_to op);
        val = trim (po_value_text op) in
      (mode \<in> set needs_path \<longrightarrow> path \<noteq> []) \<and>
      (mode \<in> set [J ''copy'', J ''move'', J ''sync_fields''] \<longrightarrow> from \<noteq> [] \<and> to \<noteq> []) \<and>
      (mode \<in> set [J ''copy_header'', J ''move_header''] \<longrightarrow> path \<noteq> [] \<or> from \<noteq> [] \<and> to \<noteq> []) \<and>
      (mode \<in> set [J ''replace'', J ''regex_replace''] \<longrightarrow> from \<noteq> []) \<and>
      (mode \<in> set [J ''trim_prefix'', J ''trim_suffix'', J ''ensure_prefix'', J ''ensure_suffix'', J ''set_header'',
          J ''prune_objects''] \<longrightarrow> val \<noteq> []) \<and>
      (mode = J ''return_error'' \<longrightarrow> message_given val) \<and>
      (mode = J ''pass_headers'' \<longrightarrow> val \<noteq> [] \<and>
         (case parsePassHeaderNames (parseLooseValue val) of Inr names \<Rightarrow> names \<noteq> [] | Inl e \<Rightarrow> False)))"

lemma mode_cases:
  assumes "m \<in> set OPERATION_MODE_VALUES"
  shows "m = J ''set'' \<or> m = J ''delete'' \<or> m = J ''append'' \<or> m = J ''prepend'' \<or> m = J ''copy'' \<or> m = J ''move'' \<or>
    m = J ''replace'' \<or> m = J ''regex_replace'' \<or> m = J ''trim_prefix'' \<or> m = J ''trim_suffix'' \<or>
    m = J ''ensure_prefix'' \<or> m = J ''ensure_suffix'' \<or> m = J ''trim_space'' \<or> m = J ''to_lower'' \<or>
    m = J ''to_upper'' \<or> m = J ''return_error'' \<or> m = J ''prune_objects'' \<or> m = J ''pass_headers'' \<or>
    m = J ''sync_fields'' \<or> m = J ''set_header'' \<or> m = J ''delete_header'' \<or> m = J ''copy_header'' \<or>
    m = J ''move_header''"
  using assms unfolding OPERATION_MODE_VALUES_def OPERATION_MODE_OPTIONS_def
  by (simp only: list.map set_simps insert_iff empty_iff snd_conv simp_thms)

lemma js_error_of_text: "text_or v d = Inl e \<Longrightarrow> e = TypeError"
  by (auto simp: text_or_def js_String_def split: option.splits if_splits)

lemma message_missing:
  "s \<noteq> [] \<Longrightarrow> (case json_parse s of
      Inr (JObj m) \<Rightarrow> (case text_or (map_of m (J ''message'')) [] of Inr s \<Rightarrow> trim s = [] | Inl e \<Rightarrow> False)
    | _ \<Rightarrow> False) \<longleftrightarrow> \<not> message_given s"
  unfolding message_given_def by (auto split: sum.splits json.splits dest: js_error_of_text)

lemmas mode_tables = MODE_META_def FROM_REQUIRED_MODES_def TO_REQUIRED_MODES_def VALUE_REQUIRED_MODES_def
  needs_path_def no_meta_def path_meta_def set_meta_def from_to_meta_def meta_of_def

lemma complete_iff:
  assumes "po_mode op \<in> set OPERATION_MODE_VALUES"
  shows "operation_problem op = Inr None \<longleftrightarrow> rule_complete op"
  using mode_cases [OF assms]
  by (elim disjE)
    (simp_all add: operation_problem_def rule_complete_def mode_of_def mode_tables Let_def message_missing js_bind_def
      split: sum.splits, auto simp: message_given_def [of "[]"])

lemma mode_of_ok: "po_mode op \<in> set OPERATION_MODE_VALUES \<Longrightarrow> mode_of op = po_mode op"
  using modes_not_Nil(2) [of "po_mode op"] by (simp add: mode_of_def)

text \<open>The loop stops at the first rule that is not complete.\<close>

lemma validate_all:
  "list_all (\<lambda>op. operation_problem op = Inr None) ops \<Longrightarrow> validate_from t i (ops @ rest) = validate_from t (i + length ops) rest"
  by (induction ops arbitrary: i) simp_all

lemma validate_bad:
  assumes "list_all (\<lambda>op. operation_problem op = Inr None) good" "operation_problem bad \<noteq> Inr None"
  shows "validate_from t i (good @ bad # rest) = js_bind (operation_problem bad)
    (\<lambda>p. Inr (t (the p) (Some (i + length good + 1))))"
  using assms(2) unfolding validate_all [OF assms(1)]
  by (auto simp: js_bind_def split: sum.splits option.splits)

section \<open>Saving again\<close>

text \<open>A value that is written as it is read: no string in quotes, no number that is written otherwise.\<close>

definition settled_text :: "jsstr \<Rightarrow> bool" where
  "settled_text s \<longleftrightarrow> (case parseLooseValue s of JStr x \<Rightarrow> x = trim s | v \<Rightarrow> writable v)"

lemma loose_trim [simp]: "parseLooseValue (trim s) = parseLooseValue s"
  by (simp add: parseLooseValue_def)

lemma writable_proper: "writable v \<Longrightarrow> proper v"
  by (induction v rule: proper.induct) (auto simp: list_all_iff)

lemma settled_cases:
  assumes "settled_text s"
  obtains "saved_text s = trim s" "canon (parseLooseValue s) = parseLooseValue s"
  | v where "writable v" "json_parse (trim s) = Inr v" "trim s \<noteq> []" "saved_text s = json_text v"
      "parseLooseValue s = v"
proof -
  let ?v = "parseLooseValue s"
  show ?thesis
  proof (cases "\<exists>x. ?v = JStr x")
    case True
    with assms that(1) show ?thesis by (auto simp: settled_text_def saved_text_def toValueText_def)
  next
    case False
    then have v: "writable ?v" using assms by (simp add: settled_text_def split: json.splits)
    then have "saved_text s = json_text ?v"
      unfolding saved_text_def writable_canon [OF v] using False by (simp add: toValueText_def split: json.splits)
    moreover from False have "trim s \<noteq> []" "json_parse (trim s) = Inr ?v"
      by (auto simp: parseLooseValue_def Let_def split: sum.splits if_splits)
    ultimately show ?thesis using that(2) v by blast
  qed
qed

lemma text_not_Nil: "writable v \<Longrightarrow> json_text v \<noteq> []"
  using print_not_Nil [OF writable_proper, of v "[]"] by (simp add: json_print_text)

lemma loose_saved:
  assumes "settled_text s"
  shows "parseLooseValue (saved_text s) = parseLooseValue s" (is ?A)
    and "canon (parseLooseValue s) = parseLooseValue s" (is ?B)
    and "trim (saved_text s) = [] \<longleftrightarrow> trim s = []" (is ?C)
    and "message_given (trim (saved_text s)) \<longleftrightarrow> message_given (trim s)" (is ?D)
proof -
  have "?A \<and> ?B \<and> ?C \<and> ?D"
    using assms
  proof (cases rule: settled_cases)
    case (2 v)
    have t: "trim (json_text v) = json_text v" using writable_proper [OF 2(1)] by simp
    have r: "json_parse (json_text v) = Inr v" using json_text_reads [OF 2(1)] .
    have n: "json_text v \<noteq> []" using text_not_Nil [OF 2(1)] .
    have "parseLooseValue (json_text v) = v" unfolding parseLooseValue_def t using n r by simp
    moreover have "message_given (json_text v) \<longleftrightarrow> message_given (trim s)"
      unfolding message_given_def r 2(2) using n 2(3) by simp
    ultimately show ?thesis
      unfolding 2(4) t using 2 n writable_canon [OF 2(1)] by simp
  qed (simp del: canon.simps)
  then show ?A ?B ?C ?D by blast+
qed

definition settled_condition :: "override_condition \<Rightarrow> bool" where
  "settled_condition c \<longleftrightarrow> settled_text (oc_value_text c)"

definition settled_operation :: "override_operation \<Rightarrow> bool" where
  "settled_operation op \<longleftrightarrow> settled_text (po_value_text op) \<and> list_all settled_condition (po_conditions op)"

lemma saved_mode: "po_mode op \<in> set OPERATION_MODE_VALUES \<Longrightarrow> po_mode (saved_operation op) = po_mode op"
  by (simp add: saved_operation_def Let_def mode_of_ok)

lemma saved_complete:
  assumes "po_mode op \<in> set OPERATION_MODE_VALUES" "settled_text (po_value_text op)" "rule_complete op"
  shows "rule_complete (saved_operation op)"
  using mode_cases [OF assms(1)] assms(3) mode_of_ok [OF assms(1)]
  by (elim disjE)
    (simp_all add: rule_complete_def saved_operation_def Let_def mode_tables loose_saved [OF assms(2)], blast+)

lemma complete_not_blank:
  "rule_complete op \<Longrightarrow> \<not> isOperationBlank op"
  by (auto simp: rule_complete_def isOperationBlank_def needs_path_def Let_def)

text \<open>What is common to the tables of all modes.\<close>

definition meta_consistent :: "mode_meta \<Rightarrow> bool" where
  "meta_consistent m \<longleftrightarrow> \<not> (mm_path m \<and> mm_pathOptional m) \<and>
     (mm_pathAlias m \<longrightarrow> mm_from m \<and> mm_to m \<and> \<not> mm_path m \<and> \<not> mm_pathOptional m)"

lemma meta_of_consistent: "meta_consistent (meta_of mode)"
proof -
  have "list_all meta_consistent (map snd MODE_META)" "meta_consistent set_meta"
    by (simp_all add: meta_consistent_def mode_tables)
  then show ?thesis
    by (auto simp: meta_of_def list_all_iff dest!: map_of_SomeD split: option.split)
qed

lemma put_if_cong [cong]:
  "c = c' \<Longrightarrow> (c' \<Longrightarrow> v = v') \<Longrightarrow> m = m' \<Longrightarrow> put_if c k v m = put_if c' k v' m'"
  by (simp add: put_if_def)

lemma put_twice [simp]: "obj_put k v (obj_put k w m) = obj_put k v m"
  by (induction m) auto

lemma put_over: "k \<noteq> j \<Longrightarrow> obj_put k v (obj_put j w (obj_put k u m)) = obj_put j w (obj_put k v m)"
  by (induction m) auto

lemma alias_puts:
  fixes p f t :: jsstr and m :: fields
  defines "m8 \<equiv> obj_put (J ''to'') (JStr t) (obj_put (J ''from'') (JStr f) m)"
  defines "m9 \<equiv> put_if (\<not> has_text m8 ''from'' \<and> p \<noteq> []) ''from'' (JStr p) m8"
  shows "put_if (\<not> has_text m9 ''to'' \<and> p \<noteq> []) ''to'' (JStr p) m9 =
    obj_put (J ''to'') (JStr (if t = [] then p else t)) (obj_put (J ''from'') (JStr (if f = [] then p else f)) m)"
proof -
  have ne: "J ''from'' \<noteq> J ''to''" by simp
  have 8: "has_text m8 ''from'' \<longleftrightarrow> f \<noteq> []" "has_text m8 ''to'' \<longleftrightarrow> t \<noteq> []"
    using ne by (simp_all add: m8_def map_of_obj_put)
  have m9: "m9 = obj_put (J ''to'') (JStr t) (obj_put (J ''from'') (JStr (if f = [] then p else f)) m)"
    unfolding m9_def 8 put_if_def unfolding m8_def using ne put_over [of "J ''from''" "J ''to''" "JStr p" "JStr t" "JStr f" m]
    by (cases "f = []"; cases "p = []") simp_all
  have 9: "has_text m9 ''to'' \<longleftrightarrow> t \<noteq> []" unfolding m9 using ne by (simp add: map_of_obj_put)
  show ?thesis unfolding 9 put_if_def unfolding m9 by (cases "t = []"; cases "p = []") simp_all
qed

text \<open>The object of an operation in three parts: up to \<open>keep_origin\<close>, the ends, the conditions.\<close>

definition head_fields :: "override_operation \<Rightarrow> fields" where
  "head_fields op =
     (let meta = meta_of (mode_of op); path = trim (po_path op);
        p1 = put_if (trim (po_description op) \<noteq> []) ''description'' (JStr (trim (po_description op)))
          [(J ''mode'', JStr (mode_of op))];
        p3 = put_if (mm_pathOptional meta \<and> path \<noteq> []) ''path'' (JStr path) (put_if (mm_path meta) ''path'' (JStr path) p1)
      in put_if (mm_keepOrigin meta \<and> po_keep_origin op) ''keep_origin'' (JBool True)
          (put_if (mm_value meta) ''value'' (parseLooseValue (po_value_text op)) p3))"

definition end_fields :: "override_operation \<Rightarrow> fields \<Rightarrow> fields" where
  "end_fields op m =
     (let meta = meta_of (mode_of op); p = trim (po_path op); f = trim (po_from op); t = trim (po_to op) in
      if mm_pathAlias meta
      then obj_put (J ''to'') (JStr (if t = [] then p else t)) (obj_put (J ''from'') (JStr (if f = [] then p else f)) m)
      else put_if (mm_to meta) ''to'' (JStr t) (put_if (\<not> mm_to meta \<and> t \<noteq> []) ''to'' (JStr t)
        (put_if (mm_from meta) ''from'' (JStr f) m)))"

definition condition_fields :: "override_operation \<Rightarrow> fields \<Rightarrow> fields" where
  "condition_fields op m =
     (let cs = condition_payloads (po_conditions op) in
      put_if (cs \<noteq> []) ''logic'' (JStr (if po_logic op = J ''AND'' then J ''AND'' else J ''OR''))
        (put_if (cs \<noteq> []) ''conditions'' (JArr cs) m))"

lemma put_if_simps [simp]: "put_if True k v m = obj_put (J k) v m" "put_if False k v m = m"
  by (simp_all add: put_if_def)

lemma payload_parts: "operation_payload op = condition_fields op (end_fields op (head_fields op))"
proof (cases "mm_pathAlias (meta_of (mode_of op))")
  case True
  then have m: "mm_from (meta_of (mode_of op))" "mm_to (meta_of (mode_of op))"
    using meta_of_consistent [of "mode_of op"] by (auto simp: meta_consistent_def)
  show ?thesis
    unfolding operation_payload_def condition_fields_def end_fields_def head_fields_def Let_def
    using True m
    by (simp only: put_if_simps simp_thms if_True not_False_eq_True alias_puts)
next
  case False
  then show ?thesis
    unfolding operation_payload_def condition_fields_def end_fields_def head_fields_def Let_def
    by (simp only: put_if_simps simp_thms if_False)
qed

lemma mode_of_saved [simp]: "mode_of (saved_operation op) = mode_of op"
  by (auto simp: saved_operation_def Let_def mode_of_def)

lemma head_saved: "settled_text (po_value_text op) \<Longrightarrow> head_fields (saved_operation op) = head_fields op"
  unfolding head_fields_def mode_of_saved
  by (simp add: Let_def saved_operation_def loose_saved cong: conj_cong)

lemma end_saved: "end_fields (saved_operation op) m = end_fields op m"
proof -
  have c: "meta_consistent (meta_of (mode_of op))" by (rule meta_of_consistent)
  show ?thesis
    unfolding end_fields_def mode_of_saved using c
    by (auto simp: Let_def saved_operation_def meta_consistent_def)
qed

lemma condition_saved:
  assumes "condition_ok c" "settled_condition c"
  shows "buildConditionPayload (saved_condition c) = buildConditionPayload c"
  using assms modes_not_Nil(1) [of "oc_mode c"]
  by (simp add: buildConditionPayload_def Let_def saved_condition_def condition_ok_def settled_condition_def loose_saved)

lemma conditions_saved:
  assumes "list_all condition_ok cs" "list_all settled_condition cs"
  shows "condition_payloads (map saved_condition (filter (\<lambda>c. trim (oc_path c) \<noteq> []) cs)) = condition_payloads cs"
  using assms
proof (induction cs)
  case (Cons c cs)
  show ?case
  proof (cases "trim (oc_path c) = []")
    case True
    then have "buildConditionPayload c = None" by (simp only: no_condition)
    with True Cons show ?thesis by (simp add: condition_payloads_def map_filter_Cons)
  next
    case False
    with Cons show ?thesis
      by (simp add: condition_payloads_def map_filter_Cons condition_saved split: option.splits)
  qed
qed simp

lemma payload_saved:
  assumes "operation_ok op" "settled_operation op"
  shows "operation_payload (saved_operation op) = operation_payload op"
proof -
  have c: "condition_payloads (po_conditions (saved_operation op)) = condition_payloads (po_conditions op)"
    using assms conditions_saved [of "po_conditions op"]
    by (simp add: saved_operation_def Let_def operation_ok_def settled_operation_def)
  then have "condition_fields (saved_operation op) m = condition_fields op m" for m
    using payloads_empty [of "po_conditions op"]
    unfolding condition_fields_def c by (simp add: Let_def saved_operation_def)
  then show ?thesis
    using assms by (simp add: payload_parts head_saved end_saved settled_operation_def)
qed

lemma payload_without_ids: "operation_payload (without_ids op) = operation_payload op"
proof -
  have "buildConditionPayload (c\<lparr>oc_id := []\<rparr>) = buildConditionPayload c" for c
    by (simp add: buildConditionPayload_def Let_def)
  then have "List.map_filter buildConditionPayload (map (\<lambda>c. c\<lparr>oc_id := []\<rparr>) cs) = List.map_filter buildConditionPayload cs" for cs
    by (induction cs) (simp_all add: map_filter_Cons split: option.split)
  then have c: "condition_payloads (po_conditions (without_ids op)) = condition_payloads (po_conditions op)"
    by (simp add: condition_payloads_def without_ids_def)
  show ?thesis
    unfolding payload_parts head_fields_def end_fields_def condition_fields_def c Let_def
    by (simp add: mode_of_def without_ids_def)
qed

lemma blank_without_ids: "isOperationBlank (without_ids op) = isOperationBlank op"
  by (simp add: isOperationBlank_def without_ids_def list_ex_iff)

lemma complete_without_ids: "rule_complete (without_ids op) = rule_complete op"
  by (simp add: rule_complete_def without_ids_def)

lemma utf16_value_text: "proper v \<Longrightarrow> utf16 (toValueText (Some v))"
proof -
  assume p: "proper v"
  then have "utf16 (json_text v)" using utf16_print [of v "[]" "[]"] by (simp only: json_print_text utf16_Cons)
  with p show ?thesis by (cases v) (simp_all add: toValueText_def del: json_text.simps)
qed

lemma proper_canon: "proper v \<Longrightarrow> proper (canon v)"
  by (rule writable_proper [OF proper_canon_writable])

lemma utf16_saved: "utf16 s \<Longrightarrow> utf16 (saved_text s)"
  unfolding saved_text_def by (intro utf16_value_text proper_canon proper_loose)

lemma saved_ok: "operation_ok op \<Longrightarrow> operation_ok (saved_operation op)"
  by (auto simp: operation_ok_def saved_operation_def Let_def mode_of_ok condition_ok_def saved_condition_def
      utf16_saved list_all_iff)

lemma ok_without_ids: "operation_ok (without_ids op) = operation_ok op"
  by (auto simp: operation_ok_def without_ids_def condition_ok_def list_all_iff)

lemma operation_mode_ok: "operation_ok op \<Longrightarrow> po_mode op \<in> set OPERATION_MODE_VALUES"
  by (simp add: operation_ok_def)

lemma validates_iff:
  assumes "list_all operation_ok ops" "\<And>k l. t k l \<noteq> []"
  shows "validateOperations t ops = Inr [] \<longleftrightarrow> list_all rule_complete ops"
proof -
  have "validate_from t i ops = Inr [] \<longleftrightarrow> list_all (\<lambda>op. operation_problem op = Inr None) ops" for i
    using assms(2) by (induction ops arbitrary: i) (auto simp: js_bind_eq_Inr split: option.splits)
  moreover have "list_all (\<lambda>op. operation_problem op = Inr None) ops \<longleftrightarrow> list_all rule_complete ops"
    using assms(1) complete_iff operation_mode_ok by (auto simp: list_all_iff)
  ultimately show ?thesis by (simp add: validateOperations_def)
qed

lemma built_iff:
  assumes "list_all operation_ok ops" "\<And>k l. t k l \<noteq> []"
  shows "buildOperationsJson ops True t = Inr s \<longleftrightarrow>
    (let kept = filter (\<lambda>op. \<not> isOperationBlank op) ops in
      s = (if kept = [] then [] else pretty (operations_json kept)) \<and> list_all rule_complete kept)"
proof -
  let ?kept = "filter (\<lambda>op. \<not> isOperationBlank op) ops"
  have "list_all operation_ok ?kept" using assms(1) by (auto simp: list_all_iff)
  from validates_iff [OF this assms(2)] show ?thesis
    unfolding buildOperationsJson_def Let_def if_True
    by (cases "?kept = []") (auto split: sum.splits)
qed

text \<open>A saved text that is opened and saved again is the same text.\<close>

lemma saved_again:
  assumes ok: "list_all operation_ok ops" and st: "list_all settled_operation ops"
    and t: "\<And>k l. t k l \<noteq> []"
    and built: "buildOperationsJson ops True t = Inr s" "s \<noteq> []"
    and re: "map without_ids reopened = map saved_operation (filter (\<lambda>op. \<not> isOperationBlank op) ops)"
  shows "buildOperationsJson reopened True t = Inr s"
proof -
  let ?kept = "filter (\<lambda>op. \<not> isOperationBlank op) ops"
  have k: "op \<in> set ?kept \<Longrightarrow> operation_ok op \<and> settled_operation op \<and> rule_complete op" for op
    using ok st built(1) unfolding built_iff [OF ok t] by (auto simp: Let_def list_all_iff)
  have all: "rule_complete op \<and> \<not> isOperationBlank op" if "op \<in> set reopened" for op
  proof -
    have "without_ids op \<in> set (map saved_operation ?kept)" using that re by (metis list.set_map imageI)
    then obtain q where "q \<in> set ?kept" "without_ids op = saved_operation q" by auto
    with k saved_complete complete_without_ids complete_not_blank show ?thesis
      by (metis operation_mode_ok settled_operation_def)
  qed
  then have kept: "filter (\<lambda>op. \<not> isOperationBlank op) reopened = reopened" by (simp add: filter_id_conv)
  have "map operation_payload reopened = map operation_payload (map without_ids reopened)"
    by (simp add: payload_without_ids)
  also have "\<dots> = map operation_payload ?kept" unfolding re using k payload_saved by simp
  finally have "map (\<lambda>op. JObj (operation_payload op)) reopened = map (\<lambda>op. JObj (operation_payload op)) ?kept"
    by (metis (no_types, lifting) list.map_comp comp_def map_eq_conv)
  then have js: "operations_json reopened = operations_json ?kept" by (simp add: operations_json_def)
  have ne: "?kept \<noteq> []" "s = pretty (operations_json ?kept)" using built_text [OF built] by auto
  then have "reopened \<noteq> []" using re by auto
  moreover have "validateOperations t reopened = Inr []"
  proof -
    have "list_all operation_ok (map without_ids reopened)"
      unfolding re using ok by (auto simp: list_all_iff intro: saved_ok)
    then have "list_all operation_ok reopened" by (simp add: list_all_iff ok_without_ids)
    from validates_iff [OF this t] all show ?thesis by (simp add: list_all_iff)
  qed
  ultimately show ?thesis
    unfolding buildOperationsJson_def kept Let_def using ne js by simp
qed

end
