(* ===== verification/OverrideTemplates.thy ===== *)
theory OverrideTemplates
  imports OverrideStable
begin

text \<open>
  The editor of parameter overrides: the templates it offers. The object of a template is the value the
  program writes down; the keys of the header tokens are kept as strings and turned into keys once.
\<close>

definition JS :: "string \<Rightarrow> json" where
  "JS s = JStr (J s)"

definition obj :: "(string \<times> json) list \<Rightarrow> json" where
  "obj m = JObj (map (\<lambda>(k, v). (J k, v)) m)"

definition LEGACY_TEMPLATE :: json where
  "LEGACY_TEMPLATE = obj [(''temperature'', JNum (num 0)), (''max_tokens'', JNum (num 1000))]"

definition OPERATION_TEMPLATE :: json where
  "OPERATION_TEMPLATE = obj [(''operations'', JArr [
     obj [(''description'', JS ''Set default temperature for openai/* models.''), (''path'', JS ''temperature''),
       (''mode'', JS ''set''), (''value'', JNum (rnd (7 / 10))),
       (''conditions'', JArr [obj [(''path'', JS ''model''), (''mode'', JS ''prefix''), (''value'', JS ''openai/'')]]),
       (''logic'', JS ''AND'')]])]"

definition HEADER_PASSTHROUGH_TEMPLATE :: json where
  "HEADER_PASSTHROUGH_TEMPLATE = obj [(''operations'', JArr [
     obj [(''description'', JS ''Pass through X-Request-Id header to upstream.''), (''mode'', JS ''pass_headers''),
       (''value'', JArr [JS ''X-Request-Id'']), (''keep_origin'', JBool True)]])]"

definition GEMINI_IMAGE_4K_TEMPLATE :: json where
  "GEMINI_IMAGE_4K_TEMPLATE = obj [(''operations'', JArr [
     obj [(''description'', JS ''Set imageSize to 4K when model contains gemini/image and ends with 4k.''),
       (''mode'', JS ''set''), (''path'', JS ''generationConfig.imageConfig.imageSize''), (''value'', JS ''4K''),
       (''conditions'', JArr [
          obj [(''path'', JS ''original_model''), (''mode'', JS ''contains''), (''value'', JS ''gemini'')],
          obj [(''path'', JS ''original_model''), (''mode'', JS ''contains''), (''value'', JS ''image'')],
          obj [(''path'', JS ''original_model''), (''mode'', JS ''suffix''), (''value'', JS ''4k'')]]),
       (''logic'', JS ''AND'')]])]"

definition CODEX_CLI_HEADER_PASSTHROUGH_HEADERS :: "string list" where
  "CODEX_CLI_HEADER_PASSTHROUGH_HEADERS =
     [''Originator'', ''Session_id'', ''Thread_id'', ''Session-Id'', ''Thread-Id'', ''X-Client-Request-Id'',
      ''User-Agent'', ''X-Codex-Beta-Features'', ''X-Codex-Turn-State'', ''X-Codex-Turn-Metadata'',
      ''X-Codex-Window-Id'', ''X-Codex-Parent-Thread-Id'', ''X-OpenAI-Subagent'', ''X-OpenAI-Memgen-Request'',
      ''X-ResponsesAPI-Include-Timing-Metrics'', ''X-OpenAI-Internal-Codex-Responses-Lite'']"

definition CLAUDE_CLI_HEADER_PASSTHROUGH_HEADERS :: "string list" where
  "CLAUDE_CLI_HEADER_PASSTHROUGH_HEADERS =
     [''X-Stainless-Arch'', ''X-Stainless-Lang'', ''X-Stainless-Os'', ''X-Stainless-Package-Version'',
      ''X-Stainless-Retry-Count'', ''X-Stainless-Runtime'', ''X-Stainless-Runtime-Version'', ''X-Stainless-Timeout'',
      ''User-Agent'', ''X-App'', ''Anthropic-Beta'', ''Anthropic-Dangerous-Direct-Browser-Access'',
      ''Anthropic-Version'']"

definition buildPassHeadersTemplate :: "string list \<Rightarrow> json" where
  "buildPassHeadersTemplate headers = obj [(''operations'', JArr [
     obj [(''mode'', JS ''pass_headers''), (''value'', JArr (map JS headers)), (''keep_origin'', JBool True)]])]"

definition CODEX_CLI_HEADER_PASSTHROUGH_TEMPLATE :: json where
  "CODEX_CLI_HEADER_PASSTHROUGH_TEMPLATE = buildPassHeadersTemplate CODEX_CLI_HEADER_PASSTHROUGH_HEADERS"

definition CLAUDE_CLI_HEADER_PASSTHROUGH_TEMPLATE :: json where
  "CLAUDE_CLI_HEADER_PASSTHROUGH_TEMPLATE = buildPassHeadersTemplate CLAUDE_CLI_HEADER_PASSTHROUGH_HEADERS"

text \<open>The tokens of the header \<open>anthropic-beta\<close>, each with what takes its place, \<open>null\<close> for nothing.\<close>

definition bedrock_tokens :: "(string \<times> string option) list" where
  "bedrock_tokens =
     [(''advanced-tool-use-2025-11-20'', Some ''tool-search-tool-2025-10-19''),
      (''bash_20241022'', None), (''bash_20250124'', None), (''code-execution-2025-08-25'', None),
      (''compact-2026-01-12'', Some ''compact-2026-01-12''),
      (''computer-use-2025-01-24'', Some ''computer-use-2025-01-24''),
      (''computer-use-2025-11-24'', Some ''computer-use-2025-11-24''),
      (''context-1m-2025-08-07'', Some ''context-1m-2025-08-07''),
      (''context-management-2025-06-27'', Some ''context-management-2025-06-27''),
      (''effort-2025-11-24'', None), (''fast-mode-2026-02-01'', None), (''files-api-2025-04-14'', None),
      (''fine-grained-tool-streaming-2025-05-14'', None),
      (''interleaved-thinking-2025-05-14'', Some ''interleaved-thinking-2025-05-14''),
      (''mcp-client-2025-11-20'', None), (''mcp-client-2025-04-04'', None), (''mcp-servers-2025-12-04'', None),
      (''output-128k-2025-02-19'', None), (''structured-output-2024-03-01'', None),
      (''prompt-caching-scope-2026-01-05'', None), (''skills-2025-10-02'', None),
      (''structured-outputs-2025-11-13'', None), (''text_editor_20241022'', None), (''text_editor_20250124'', None),
      (''token-efficient-tools-2025-02-19'', None),
      (''tool-search-tool-2025-10-19'', Some ''tool-search-tool-2025-10-19''),
      (''web-fetch-2025-09-10'', None), (''web-search-2025-03-05'', None), (''oauth-2025-04-20'', None)]"

definition AWS_BEDROCK_ANTHROPIC_COMPAT_TEMPLATE :: json where
  "AWS_BEDROCK_ANTHROPIC_COMPAT_TEMPLATE = obj [(''operations'', JArr [
     obj [(''description'', JS ''Normalize anthropic-beta header tokens for Bedrock compatibility.''),
       (''mode'', JS ''set_header''), (''path'', JS ''anthropic-beta''),
       (''value'', obj (map (\<lambda>(k, v). (k, case v of None \<Rightarrow> JNull | Some s \<Rightarrow> JS s)) bedrock_tokens))],
     obj [(''description'', JS ''Remove all tools[*].custom.input_examples before upstream relay.''),
       (''mode'', JS ''delete''), (''path'', JS ''tools.*.custom.input_examples'')]])]"

datatype template_kind = OperationsTemplate | LegacyTemplate

definition TEMPLATE_PRESET_CONFIG :: "(jsstr \<times> template_kind \<times> json) list" where
  "TEMPLATE_PRESET_CONFIG =
     [(J ''operations_default'', OperationsTemplate, OPERATION_TEMPLATE),
      (J ''legacy_default'', LegacyTemplate, LEGACY_TEMPLATE),
      (J ''pass_headers_auth'', OperationsTemplate, HEADER_PASSTHROUGH_TEMPLATE),
      (J ''gemini_image_4k'', OperationsTemplate, GEMINI_IMAGE_4K_TEMPLATE),
      (J ''claude_cli_headers_passthrough'', OperationsTemplate, CLAUDE_CLI_HEADER_PASSTHROUGH_TEMPLATE),
      (J ''codex_cli_headers_passthrough'', OperationsTemplate, CODEX_CLI_HEADER_PASSTHROUGH_TEMPLATE),
      (J ''aws_bedrock_anthropic_beta_override'', OperationsTemplate, AWS_BEDROCK_ANTHROPIC_COMPAT_TEMPLATE)]"

section \<open>Templates are proper values\<close>

lemma inj_J: "J s = J t \<longleftrightarrow> s = t"
  unfolding J_def by (rule inj_map_eq_map) (simp add: inj_def)

lemma proper_JS [simp]: "proper (JS s)"
  by (simp add: JS_def)

lemma proper_obj [simp]:
  "proper (obj m) \<longleftrightarrow> distinct (map fst m) \<and> list_all proper (map snd m)"
proof -
  have "inj_on J (set xs)" for xs by (auto simp: inj_on_def inj_J)
  then have "distinct (map J xs) = distinct xs" for xs by (simp add: distinct_map)
  moreover have "map fst (map (\<lambda>(k, v). (J k, v)) m) = map J (map fst m)" "map snd (map (\<lambda>(k, v). (J k, v)) m) = map snd m"
    by auto
  moreover have "list_all utf16 (map J xs)" for xs by (simp add: list_all_iff)
  ultimately show ?thesis by (simp add: obj_def del: list.map_comp map_map)
qed

lemma distinct_tokens: "distinct (map fst bedrock_tokens)"
  by (simp add: bedrock_tokens_def)

lemma proper_num: "is_num (rnd (7 / 10))" "is_num (num 0)" "is_num (num 1000)"
  by simp_all

lemma proper_templates:
  "proper LEGACY_TEMPLATE" "proper OPERATION_TEMPLATE" "proper HEADER_PASSTHROUGH_TEMPLATE"
  "proper GEMINI_IMAGE_4K_TEMPLATE" "proper CODEX_CLI_HEADER_PASSTHROUGH_TEMPLATE"
  "proper CLAUDE_CLI_HEADER_PASSTHROUGH_TEMPLATE" "proper AWS_BEDROCK_ANTHROPIC_COMPAT_TEMPLATE"
proof -
  have t: "proper (obj (map (\<lambda>(k, v). (k, case v of None \<Rightarrow> JNull | Some s \<Rightarrow> JS s)) bedrock_tokens))"
    using distinct_tokens by (auto simp: list_all_iff comp_def case_prod_unfold split: option.splits)
  show "proper LEGACY_TEMPLATE" "proper OPERATION_TEMPLATE" "proper HEADER_PASSTHROUGH_TEMPLATE"
    "proper GEMINI_IMAGE_4K_TEMPLATE" "proper CODEX_CLI_HEADER_PASSTHROUGH_TEMPLATE"
    "proper CLAUDE_CLI_HEADER_PASSTHROUGH_TEMPLATE"
    by (simp_all add: LEGACY_TEMPLATE_def OPERATION_TEMPLATE_def HEADER_PASSTHROUGH_TEMPLATE_def
        GEMINI_IMAGE_4K_TEMPLATE_def CODEX_CLI_HEADER_PASSTHROUGH_TEMPLATE_def buildPassHeadersTemplate_def
        CLAUDE_CLI_HEADER_PASSTHROUGH_TEMPLATE_def list_all_iff)
  show "proper AWS_BEDROCK_ANTHROPIC_COMPAT_TEMPLATE"
    using t by (simp add: AWS_BEDROCK_ANTHROPIC_COMPAT_TEMPLATE_def)
qed

end
