(* ===== verification/OverrideEditor.thy ===== *)
theory OverrideEditor
  imports OverrideTemplates
begin

text \<open>
  The editor of parameter overrides, sixth part: the dialog as a state machine. The state holds what the
  component keeps in its hooks, the number of ids made so far, and as outputs the messages shown as
  toasts and the values handed to \<open>onSave\<close>. One function per callback; a step is a callback followed by
  the effect that keeps the selection valid. What the component gets from outside is a record:
  \<open>toUpperCase\<close>, the clock, the translator and the messages of errors thrown by the language.
\<close>

section \<open>State\<close>

record override_env =
  en_upper :: "jsstr \<Rightarrow> jsstr"
  en_clock :: "nat \<Rightarrow> jsnum"
  en_t :: "jsstr \<Rightarrow> nat option \<Rightarrow> jsstr"
  en_thrown :: "js_error \<Rightarrow> jsstr"

record editor = editor_state +
  ed_search :: jsstr
  ed_selected :: jsstr
  ed_expanded :: "(jsstr \<times> bool) list"
  ed_dragged :: jsstr
  ed_dragOver :: jsstr
  ed_dragPosition :: drop_position
  ed_template :: jsstr
  ed_next :: nat
  ed_toasts :: "jsstr list"
  ed_saved :: "jsstr list"
  ed_open :: bool
  ed_crashed :: bool

definition map_id :: "('a \<Rightarrow> jsstr) \<Rightarrow> jsstr \<Rightarrow> ('a \<Rightarrow> 'a) \<Rightarrow> 'a list \<Rightarrow> 'a list" where
  "map_id idf i f xs = map (\<lambda>x. if idf x = i then f x else x) xs"

definition toast :: "jsstr \<Rightarrow> editor \<Rightarrow> editor" where
  "toast m s = s\<lparr>ed_toasts := ed_toasts s @ [m]\<rparr>"

definition message_of :: "override_env \<Rightarrow> override_error \<Rightarrow> jsstr" where
  "message_of env e = (case e of Thrown x \<Rightarrow> en_thrown env x | Message m \<Rightarrow> m)"

definition first_id :: "override_operation list \<Rightarrow> jsstr" where
  "first_id ops = (case ops of [] \<Rightarrow> [] | op # _ \<Rightarrow> po_id op)"

text \<open>The effect after every change of the operations or the selection.\<close>

definition keep_selection :: "editor \<Rightarrow> editor" where
  "keep_selection s =
     (if es_operations s = [] then s\<lparr>ed_selected := []\<rparr>
      else if \<not> list_ex (\<lambda>op. po_id op = ed_selected s) (es_operations s)
      then s\<lparr>ed_selected := po_id (hd (es_operations s))\<rparr> else s)"

text \<open>The effect when the dialog opens or gets another value. An exception in it takes the page down.\<close>

definition open_dialog :: "override_env \<Rightarrow> jsstr \<Rightarrow> editor \<Rightarrow> editor" where
  "open_dialog env text s =
     (case parseInitialState (en_upper env) (en_clock env) text (ed_next s) of
        (Inl e, k) \<Rightarrow> s\<lparr>ed_next := k, ed_crashed := True\<rparr>
      | (Inr st, k) \<Rightarrow>
          s\<lparr>es_editMode := es_editMode st, es_visualMode := es_visualMode st,
            es_legacyValue := es_legacyValue st, es_operations := es_operations st,
            es_jsonText := es_jsonText st, es_jsonError := es_jsonError st,
            ed_search := [], ed_selected := first_id (es_operations st), ed_expanded := [], ed_dragged := [], ed_dragOver := [],
            ed_dragPosition := Before,
            ed_template := (if es_visualMode st = LegacyObject then J ''legacy_default'' else J ''operations_default''),
            ed_next := k, ed_open := True\<rparr>)"

text \<open>Rendering makes ids as well: of the default operation that \<open>useState\<close> is given each time, and,
  when the memo of the draft is computed again, of the rules of the draft.\<close>

definition rerendered :: "override_env \<Rightarrow> bool \<Rightarrow> editor \<Rightarrow> editor" where
  "rerendered env memo s =
     s\<lparr>ed_next :=
       (case filter (\<lambda>op. po_id op = ed_selected s) (es_operations s) of
          op # _ \<Rightarrow>
            if memo \<and> po_mode op = J ''prune_objects''
            then snd (parsePruneObjectsDraft (en_upper env) (en_clock env) (po_value_text op) (Suc (ed_next s)))
            else Suc (ed_next s)
        | [] \<Rightarrow> Suc (ed_next s))\<rparr>"

section \<open>Operations\<close>

text \<open>Partial operations, conditions and drafts; no caller gives an id, the conditions of an operation or
  the rules of a draft.\<close>

record operation_patch =
  pp_description :: "jsstr option"
  pp_path :: "jsstr option"
  pp_mode :: "jsstr option"
  pp_from :: "jsstr option"
  pp_to :: "jsstr option"
  pp_value_text :: "jsstr option"
  pp_keep_origin :: "bool option"
  pp_logic :: "jsstr option"

record condition_patch =
  cp_path :: "jsstr option"
  cp_mode :: "jsstr option"
  cp_value_text :: "jsstr option"
  cp_invert :: "bool option"
  cp_pass_missing_key :: "bool option"

record error_patch =
  rp_message :: "jsstr option"
  rp_statusCode :: "jsnum option"
  rp_code :: "jsstr option"
  rp_type :: "jsstr option"
  rp_skipRetry :: "bool option"
  rp_simpleMode :: "bool option"

record prune_patch =
  qp_simpleMode :: "bool option"
  qp_typeText :: "jsstr option"
  qp_logic :: "jsstr option"
  qp_recursive :: "bool option"

definition or_old :: "'a option \<Rightarrow> 'a \<Rightarrow> 'a" where
  "or_old p x = (case p of None \<Rightarrow> x | Some y \<Rightarrow> y)"

definition patch_operation :: "operation_patch \<Rightarrow> override_operation \<Rightarrow> override_operation" where
  "patch_operation p op =
     op\<lparr>po_description := or_old (pp_description p) (po_description op), po_path := or_old (pp_path p) (po_path op),
       po_mode := or_old (pp_mode p) (po_mode op), po_from := or_old (pp_from p) (po_from op),
       po_to := or_old (pp_to p) (po_to op), po_value_text := or_old (pp_value_text p) (po_value_text op),
       po_keep_origin := or_old (pp_keep_origin p) (po_keep_origin op), po_logic := or_old (pp_logic p) (po_logic op)\<rparr>"

definition patch_condition :: "condition_patch \<Rightarrow> override_condition \<Rightarrow> override_condition" where
  "patch_condition p c =
     c\<lparr>oc_path := or_old (cp_path p) (oc_path c), oc_mode := or_old (cp_mode p) (oc_mode c),
       oc_value_text := or_old (cp_value_text p) (oc_value_text c), oc_invert := or_old (cp_invert p) (oc_invert c),
       oc_pass_missing_key := or_old (cp_pass_missing_key p) (oc_pass_missing_key c)\<rparr>"

definition patch_error :: "error_patch \<Rightarrow> return_error_draft \<Rightarrow> return_error_draft" where
  "patch_error p d =
     d\<lparr>rd_message := or_old (rp_message p) (rd_message d), rd_statusCode := or_old (rp_statusCode p) (rd_statusCode d),
       rd_code := or_old (rp_code p) (rd_code d), rd_type := or_old (rp_type p) (rd_type d),
       rd_skipRetry := or_old (rp_skipRetry p) (rd_skipRetry d), rd_simpleMode := or_old (rp_simpleMode p) (rd_simpleMode d)\<rparr>"

definition patch_prune :: "prune_patch \<Rightarrow> prune_draft \<Rightarrow> prune_draft" where
  "patch_prune p d =
     d\<lparr>pd_simpleMode := or_old (qp_simpleMode p) (pd_simpleMode d), pd_typeText := or_old (qp_typeText p) (pd_typeText d),
       pd_logic := or_old (qp_logic p) (pd_logic d), pd_recursive := or_old (qp_recursive p) (pd_recursive d)\<rparr>"

definition set_operation :: "jsstr \<Rightarrow> (override_operation \<Rightarrow> override_operation) \<Rightarrow> editor \<Rightarrow> editor" where
  "set_operation i f s = s\<lparr>es_operations := map_id po_id i f (es_operations s)\<rparr>"

definition updateOperation :: "jsstr \<Rightarrow> operation_patch \<Rightarrow> editor \<Rightarrow> editor" where
  "updateOperation i p s = set_operation i (patch_operation p) s"

definition addOperation :: "override_env \<Rightarrow> editor \<Rightarrow> editor" where
  "addOperation env s =
     (let created = blank_operation (en_upper env) (nextLocalId (en_clock env) (ed_next s)) in
      s\<lparr>es_operations := es_operations s @ [created], ed_selected := po_id created, ed_next := Suc (ed_next s)\<rparr>)"

definition duplicate_source :: "override_operation \<Rightarrow> json" where
  "duplicate_source op = JObj
     [(J ''description'', JStr (po_description op)), (J ''path'', JStr (po_path op)), (J ''mode'', JStr (po_mode op)),
      (J ''value'', parseLooseValue (po_value_text op)), (J ''keep_origin'', JBool (po_keep_origin op)),
      (J ''from'', JStr (po_from op)), (J ''to'', JStr (po_to op)), (J ''logic'', JStr (po_logic op)),
      (J ''conditions'', JArr (map (\<lambda>c. JObj
        [(J ''path'', JStr (oc_path c)), (J ''mode'', JStr (oc_mode c)), (J ''value'', parseLooseValue (oc_value_text c)),
         (J ''invert'', JBool (oc_invert c)), (J ''pass_missing_key'', JBool (oc_pass_missing_key c))]) (po_conditions op)))]"

text \<open>The id of the copy is known to the caller only when React runs the updater at once, which it does
  when no other update is pending (\<open>eager\<close>).\<close>

definition duplicateOperation :: "override_env \<Rightarrow> jsstr \<Rightarrow> bool \<Rightarrow> editor \<Rightarrow> editor" where
  "duplicateOperation env i eager s =
     (case find_index (\<lambda>op. po_id op = i) (es_operations s) of
        None \<Rightarrow> s
      | Some idx \<Rightarrow>
          (case normalizeOperation (en_upper env) (en_clock env) (duplicate_source (es_operations s ! idx)) (ed_next s) of
             (Inl e, k) \<Rightarrow> s\<lparr>ed_next := k, ed_crashed := True\<rparr>
           | (Inr cloned, k) \<Rightarrow>
               s\<lparr>es_operations := insert_at (idx + 1) cloned (es_operations s), ed_next := k,
                 ed_selected := (if eager then po_id cloned else ed_selected s)\<rparr>))"

definition removeOperation :: "override_env \<Rightarrow> jsstr \<Rightarrow> editor \<Rightarrow> editor" where
  "removeOperation env i s =
     (if length (es_operations s) \<le> 1
      then s\<lparr>es_operations := [blank_operation (en_upper env) (nextLocalId (en_clock env) (ed_next s))],
        ed_next := Suc (ed_next s)\<rparr>
      else s\<lparr>es_operations := filter (\<lambda>op. po_id op \<noteq> i) (es_operations s)\<rparr>)"

definition addCondition :: "override_env \<Rightarrow> jsstr \<Rightarrow> editor \<Rightarrow> editor" where
  "addCondition env i s =
     (let created = blank_condition (nextLocalId (en_clock env) (ed_next s)) in
      (set_operation i (\<lambda>op. op\<lparr>po_conditions := po_conditions op @ [created]\<rparr>) s)
        \<lparr>ed_expanded := obj_put (oc_id created) True (ed_expanded s), ed_next := Suc (ed_next s)\<rparr>)"

definition updateCondition :: "jsstr \<Rightarrow> jsstr \<Rightarrow> condition_patch \<Rightarrow> editor \<Rightarrow> editor" where
  "updateCondition i cid p s =
     set_operation i (\<lambda>op. op\<lparr>po_conditions := map_id oc_id cid (patch_condition p) (po_conditions op)\<rparr>) s"

definition removeCondition :: "jsstr \<Rightarrow> jsstr \<Rightarrow> editor \<Rightarrow> editor" where
  "removeCondition i cid s =
     set_operation i (\<lambda>op. op\<lparr>po_conditions := filter (\<lambda>c. oc_id c \<noteq> cid) (po_conditions op)\<rparr>) s"

definition updateReturnErrorDraft :: "jsstr \<Rightarrow> error_patch \<Rightarrow> editor \<Rightarrow> editor" where
  "updateReturnErrorDraft i p s =
     set_operation i (\<lambda>op. op\<lparr>po_value_text := buildReturnErrorValueText (patch_error p (parseReturnErrorDraft (po_value_text op)))\<rparr>) s"

text \<open>The draft of the rules is read from the text each time, and each time the rules get new ids.\<close>

type_synonym prune_updater = "prune_draft \<Rightarrow> nat \<Rightarrow> prune_draft \<times> nat"

fun prune_operations :: "override_env \<Rightarrow> jsstr \<Rightarrow> prune_updater \<Rightarrow> override_operation list \<Rightarrow> nat \<Rightarrow>
    override_operation list \<times> nat" where
  "prune_operations env i updater [] n = ([], n)"
| "prune_operations env i updater (op # ops) n =
     (if po_id op \<noteq> i
      then (let (rest, k) = prune_operations env i updater ops n in (op # rest, k))
      else
        let (draft, m) = parsePruneObjectsDraft (en_upper env) (en_clock env) (po_value_text op) n;
            (nextDraft, m') = updater draft m;
            (rest, k) = prune_operations env i updater ops m'
        in (op\<lparr>po_value_text := buildPruneObjectsValueText (en_upper env) nextDraft\<rparr> # rest, k))"

definition updatePruneObjectsDraft :: "override_env \<Rightarrow> jsstr \<Rightarrow> prune_updater \<Rightarrow> editor \<Rightarrow> editor" where
  "updatePruneObjectsDraft env i updater s =
     (let (ops, k) = prune_operations env i updater (es_operations s) (ed_next s)
      in s\<lparr>es_operations := ops, ed_next := k\<rparr>)"

definition plain_updater :: "(prune_draft \<Rightarrow> prune_draft) \<Rightarrow> prune_updater" where
  "plain_updater f draft n = (f draft, n)"

definition add_rule :: "(nat \<Rightarrow> jsnum) \<Rightarrow> prune_updater" where
  "add_rule clock draft n =
     (draft\<lparr>pd_simpleMode := False, pd_rules := pd_rules draft @ [blank_condition (nextLocalId clock n)]\<rparr>, Suc n)"

definition addPruneRule :: "override_env \<Rightarrow> jsstr \<Rightarrow> editor \<Rightarrow> editor" where
  "addPruneRule env i s = updatePruneObjectsDraft env i (add_rule (en_clock env)) s"

definition updatePruneRule :: "override_env \<Rightarrow> jsstr \<Rightarrow> jsstr \<Rightarrow> condition_patch \<Rightarrow> editor \<Rightarrow> editor" where
  "updatePruneRule env i rid p s = updatePruneObjectsDraft env i
     (plain_updater (\<lambda>d. d\<lparr>pd_rules := map_id oc_id rid (patch_condition p) (pd_rules d)\<rparr>)) s"

definition removePruneRule :: "override_env \<Rightarrow> jsstr \<Rightarrow> jsstr \<Rightarrow> editor \<Rightarrow> editor" where
  "removePruneRule env i rid s = updatePruneObjectsDraft env i
     (plain_updater (\<lambda>d. d\<lparr>pd_rules := filter (\<lambda>r. oc_id r \<noteq> rid) (pd_rules d)\<rparr>)) s"

section \<open>Drag and drop\<close>

definition resetDragState :: "editor \<Rightarrow> editor" where
  "resetDragState s = s\<lparr>ed_dragged := [], ed_dragOver := [], ed_dragPosition := Before\<rparr>"

definition handleDragStart :: "jsstr \<Rightarrow> editor \<Rightarrow> editor" where
  "handleDragStart i s = s\<lparr>ed_dragged := i, ed_selected := i\<rparr>"

definition handleDragOver :: "jsstr \<Rightarrow> drop_position \<Rightarrow> editor \<Rightarrow> editor" where
  "handleDragOver i pos s =
     (if ed_dragged s = [] \<or> ed_dragged s = i then s else s\<lparr>ed_dragOver := i, ed_dragPosition := pos\<rparr>)"

definition handleDrop :: "jsstr \<Rightarrow> jsstr \<Rightarrow> editor \<Rightarrow> editor" where
  "handleDrop i transferred s =
     (let sourceId = (if ed_dragged s \<noteq> [] then ed_dragged s else transferred);
          pos = (if ed_dragOver s = i then ed_dragPosition s else Before) in
      resetDragState
        (if sourceId \<noteq> [] \<and> i \<noteq> [] \<and> sourceId \<noteq> i
         then s\<lparr>es_operations := reorderOperations (es_operations s) sourceId i pos, ed_selected := sourceId\<rparr>
         else s))"

section \<open>Modes and templates\<close>

definition buildVisualJson :: "override_env \<Rightarrow> editor \<Rightarrow> override_error + jsstr" where
  "buildVisualJson env s =
     (if es_visualMode s = LegacyObject then
        let trimmed = trim (es_legacyValue s) in
        if trimmed = [] then Inr []
        else case json_parse trimmed of
            Inl e \<Rightarrow> Inl (Message (en_t env (J ''Parameter override must be valid JSON format'') None))
          | Inr (JObj m) \<Rightarrow> Inr (pretty (JObj m))
          | Inr v \<Rightarrow> Inl (Message (en_t env (J ''Legacy format must be a JSON object'') None))
      else buildOperationsJson (es_operations s) True (en_t env))"

definition switchToJsonMode :: "override_env \<Rightarrow> editor \<Rightarrow> editor" where
  "switchToJsonMode env s =
     (if es_editMode s = JsonEditing then s
      else case buildVisualJson env s of
          Inr text \<Rightarrow> s\<lparr>es_jsonText := text, es_jsonError := [], es_editMode := JsonEditing\<rparr>
        | Inl e \<Rightarrow>
            let m = message_of env e;
                text = (if es_visualMode s = LegacyObject then es_legacyValue s
                  else case buildOperationsJson (es_operations s) False (en_t env) of Inr x \<Rightarrow> x | Inl e \<Rightarrow> [])
            in (toast m s)\<lparr>es_jsonText := text,
                 es_jsonError := (if m = [] then en_t env (J ''Parameter configuration error'') None else m),
                 es_editMode := JsonEditing\<rparr>)"

definition visual_default :: "override_env \<Rightarrow> editor \<Rightarrow> editor" where
  "visual_default env s =
     (let created = blank_operation (en_upper env) (nextLocalId (en_clock env) (ed_next s)) in
      s\<lparr>es_operations := [created], ed_selected := po_id created, ed_next := Suc (ed_next s), es_jsonError := [],
        es_editMode := VisualEditing\<rparr>)"

definition switchToVisualMode :: "override_env \<Rightarrow> editor \<Rightarrow> editor" where
  "switchToVisualMode env s =
     (if es_editMode s = VisualEditing then s
      else
        let trimmed = trim (es_jsonText s) in
        if trimmed = [] then (visual_default env s)\<lparr>es_visualMode := OperationRules, es_legacyValue := []\<rparr>
        else case json_parse trimmed of
            Inl e \<Rightarrow> toast (en_t env (J ''Parameter override must be valid JSON format'') None) s
          | Inr parsed \<Rightarrow>
              (case (parsed, get parsed ''operations'') of
                 (JObj m, Some (JArr xs)) \<Rightarrow>
                   (case read_operations (en_upper env) (en_clock env) xs (ed_next s) of
                      (Inl e, k) \<Rightarrow> s\<lparr>ed_next := k\<rparr>
                    | (Inr ops, k) \<Rightarrow>
                        s\<lparr>es_visualMode := OperationRules, es_operations := ops, ed_selected := first_id ops,
                          es_legacyValue := [], es_jsonError := [], es_editMode := VisualEditing,
                          ed_template := J ''operations_default'', ed_next := k\<rparr>)
               | (JObj m, _) \<Rightarrow>
                   (visual_default env s)\<lparr>es_visualMode := LegacyObject, es_legacyValue := pretty parsed,
                     ed_template := J ''legacy_default''\<rparr>
               | _ \<Rightarrow> toast (en_t env (J ''Parameter override must be a valid JSON object'') None) s))"

text \<open>\<open>{ ...payload, ...v }\<close>: the entries of an object, and of an array or string by their indices.\<close>

definition index_entries :: "json list \<Rightarrow> fields" where
  "index_entries xs = zip (map (\<lambda>i. dec (int i)) [0..<length xs]) xs"

definition spread_entries :: "json \<Rightarrow> fields" where
  "spread_entries v =
     (case v of
        JObj m \<Rightarrow> own_entries m
      | JArr xs \<Rightarrow> index_entries xs
      | JStr s \<Rightarrow> index_entries (map (\<lambda>c. JStr [c]) s)
      | _ \<Rightarrow> [])"

definition merge_objects :: "json \<Rightarrow> json \<Rightarrow> json" where
  "merge_objects a b = JObj (fold (\<lambda>(k, v). obj_put k v) (spread_entries a @ spread_entries b) [])"

definition show_legacy :: "override_env \<Rightarrow> jsstr \<Rightarrow> editor \<Rightarrow> editor" where
  "show_legacy env text s =
     s\<lparr>es_visualMode := LegacyObject, es_legacyValue := text,
       es_operations := [blank_operation (en_upper env) (nextLocalId (en_clock env) (ed_next s))],
       ed_next := Suc (ed_next s), es_jsonText := text, es_jsonError := [], es_editMode := VisualEditing\<rparr>"

datatype fill_mode = FillRules | AppendRules

definition payload_operations :: "json \<Rightarrow> json list" where
  "payload_operations payload = (case get payload ''operations'' of Some (JArr xs) \<Rightarrow> xs | _ \<Rightarrow> [])"

definition fillTemplate :: "override_env \<Rightarrow> fill_mode \<Rightarrow> editor \<Rightarrow> editor" where
  "fillTemplate env mode s =
     (let (kind, payload) = (case map_of TEMPLATE_PRESET_CONFIG (ed_template s) of
          None \<Rightarrow> (OperationsTemplate, OPERATION_TEMPLATE) | Some c \<Rightarrow> c) in
      if kind = LegacyTemplate then
        (if mode = AppendRules \<and> es_visualMode s = LegacyObject then
           let trimmed = trim (es_legacyValue s) in
           if trimmed = [] then show_legacy env (pretty (merge_objects payload (JObj []))) s
           else case json_parse trimmed of
               Inl e \<Rightarrow> toast (en_t env (J ''Current legacy JSON is invalid, cannot append'') None) s
             | Inr current \<Rightarrow> show_legacy env (pretty (merge_objects payload current)) s
         else show_legacy env (pretty payload) s)
      else
        let xs = payload_operations payload in
        case map_ids (normalizeOperation (en_upper env) (en_clock env)) xs (ed_next s) of
          (Inl e, k) \<Rightarrow> s\<lparr>ed_next := k\<rparr>
        | (Inr ops, k) \<Rightarrow>
            if mode = AppendRules then
              let existing = (if es_visualMode s = OperationRules
                  then filter (\<lambda>op. \<not> isOperationBlank op) (es_operations s) else []);
                nextOps = existing @ ops
              in s\<lparr>es_visualMode := OperationRules, es_operations := nextOps, ed_selected := first_id nextOps,
                   es_legacyValue := [], es_jsonError := [], es_editMode := VisualEditing, es_jsonText := [],
                   ed_next := k\<rparr>
            else
              let (finalOps, k') = (if ops \<noteq> [] then (ops, k)
                  else ([blank_operation (en_upper env) (nextLocalId (en_clock env) k)], Suc k))
              in s\<lparr>es_visualMode := OperationRules, es_operations := finalOps, ed_selected := first_id finalOps,
                   es_jsonText := pretty (JObj [(J ''operations'', JArr xs)]), es_jsonError := [],
                   es_editMode := VisualEditing, ed_next := k'\<rparr>)"

definition resetEditorState :: "override_env \<Rightarrow> editor \<Rightarrow> editor" where
  "resetEditorState env s =
     (visual_default env s)\<lparr>es_visualMode := OperationRules, es_legacyValue := [], es_jsonText := [],
       ed_template := J ''operations_default''\<rparr>"

section \<open>JSON text and saving\<close>

definition handleJsonChange :: "override_env \<Rightarrow> jsstr \<Rightarrow> editor \<Rightarrow> editor" where
  "handleJsonChange env nextValue s =
     s\<lparr>es_jsonText := nextValue,
       es_jsonError := (if trim nextValue = [] \<or> verifyJSON (trim nextValue) then [] else en_t env (J ''JSON format error'') None)\<rparr>"

definition formatJson :: "override_env \<Rightarrow> editor \<Rightarrow> editor" where
  "formatJson env s =
     (let trimmed = trim (es_jsonText s) in
      if trimmed = [] then s
      else case json_parse trimmed of
          Inl e \<Rightarrow> toast (en_t env (J ''Parameter override must be valid JSON format'') None) s
        | Inr v \<Rightarrow> s\<lparr>es_jsonText := pretty v, es_jsonError := []\<rparr>)"

definition save_result :: "override_env \<Rightarrow> editor \<Rightarrow> override_error + jsstr" where
  "save_result env s =
     (if es_editMode s = JsonEditing then
        let trimmed = trim (es_jsonText s) in
        if trimmed = [] then Inr []
        else case json_parse trimmed of
            Inl e \<Rightarrow> Inl (Message (en_t env (J ''Parameter override must be valid JSON format'') None))
          | Inr v \<Rightarrow> Inr (pretty v)
      else buildVisualJson env s)"

definition handleSave :: "override_env \<Rightarrow> editor \<Rightarrow> editor" where
  "handleSave env s =
     (case save_result env s of
        Inr text \<Rightarrow> s\<lparr>ed_saved := ed_saved s @ [text], ed_open := False\<rparr>
      | Inl e \<Rightarrow> toast (message_of env e) s)"

definition set_expanded :: "bool \<Rightarrow> editor \<Rightarrow> editor" where
  "set_expanded b s =
     (case filter (\<lambda>op. po_id op = ed_selected s) (es_operations s) of
        [] \<Rightarrow> s
      | op # _ \<Rightarrow> s\<lparr>ed_expanded := fold (\<lambda>c. obj_put (oc_id c) b) (po_conditions op) (ed_expanded s)\<rparr>)"

section \<open>Steps\<close>

datatype override_event =
    OpenDialog jsstr
  | Rendered bool
  | UpdateOperation jsstr operation_patch
  | AddOperation
  | DuplicateOperation jsstr bool
  | RemoveOperation jsstr
  | AddCondition jsstr
  | UpdateCondition jsstr jsstr condition_patch
  | RemoveCondition jsstr jsstr
  | UpdateReturnError jsstr error_patch
  | UpdatePruneDraft jsstr prune_patch
  | AddPruneRule jsstr
  | UpdatePruneRule jsstr jsstr condition_patch
  | RemovePruneRule jsstr jsstr
  | DragStart jsstr
  | DragOver jsstr drop_position
  | DropOn jsstr jsstr
  | DragEnd
  | SwitchToJson
  | SwitchToVisual
  | EditLegacy jsstr
  | ChooseTemplate jsstr
  | FillTemplate fill_mode
  | ResetEditor
  | JsonChange jsstr
  | FormatJson
  | SearchRules jsstr
  | SelectOperation jsstr
  | ExpandCondition jsstr bool
  | ExpandAll bool
  | SaveDialog
  | CancelDialog

fun handle_event :: "override_env \<Rightarrow> override_event \<Rightarrow> editor \<Rightarrow> editor" where
  "handle_event env (OpenDialog text) s = open_dialog env text s"
| "handle_event env (Rendered memo) s = rerendered env memo s"
| "handle_event env (UpdateOperation i p) s = updateOperation i p s"
| "handle_event env AddOperation s = addOperation env s"
| "handle_event env (DuplicateOperation i eager) s = duplicateOperation env i eager s"
| "handle_event env (RemoveOperation i) s = removeOperation env i s"
| "handle_event env (AddCondition i) s = addCondition env i s"
| "handle_event env (UpdateCondition i c p) s = updateCondition i c p s"
| "handle_event env (RemoveCondition i c) s = removeCondition i c s"
| "handle_event env (UpdateReturnError i p) s = updateReturnErrorDraft i p s"
| "handle_event env (UpdatePruneDraft i p) s = updatePruneObjectsDraft env i (plain_updater (patch_prune p)) s"
| "handle_event env (AddPruneRule i) s = addPruneRule env i s"
| "handle_event env (UpdatePruneRule i r p) s = updatePruneRule env i r p s"
| "handle_event env (RemovePruneRule i r) s = removePruneRule env i r s"
| "handle_event env (DragStart i) s = handleDragStart i s"
| "handle_event env (DragOver i pos) s = handleDragOver i pos s"
| "handle_event env (DropOn i x) s = handleDrop i x s"
| "handle_event env DragEnd s = resetDragState s"
| "handle_event env SwitchToJson s = switchToJsonMode env s"
| "handle_event env SwitchToVisual s = switchToVisualMode env s"
| "handle_event env (EditLegacy text) s = s\<lparr>es_legacyValue := text\<rparr>"
| "handle_event env (ChooseTemplate k) s = s\<lparr>ed_template := (if k = [] then J ''operations_default'' else k)\<rparr>"
| "handle_event env (FillTemplate mode) s = fillTemplate env mode s"
| "handle_event env ResetEditor s = resetEditorState env s"
| "handle_event env (JsonChange text) s = handleJsonChange env text s"
| "handle_event env FormatJson s = formatJson env s"
| "handle_event env (SearchRules text) s = s\<lparr>ed_search := text\<rparr>"
| "handle_event env (SelectOperation i) s = s\<lparr>ed_selected := i\<rparr>"
| "handle_event env (ExpandCondition c b) s = s\<lparr>ed_expanded := obj_put c b (ed_expanded s)\<rparr>"
| "handle_event env (ExpandAll b) s = set_expanded b s"
| "handle_event env SaveDialog s = handleSave env s"
| "handle_event env CancelDialog s = s\<lparr>ed_open := False\<rparr>"

definition override_step :: "override_env \<Rightarrow> override_event \<Rightarrow> editor \<Rightarrow> editor" where
  "override_step env e s = (if ed_crashed s then s else keep_selection (handle_event env e s))"

text \<open>The state after the first rendering.\<close>

definition first_state :: "override_env \<Rightarrow> editor" where
  "first_state env =
     \<lparr>es_editMode = VisualEditing, es_visualMode = OperationRules, es_legacyValue = [],
       es_operations = [blank_operation (en_upper env) (nextLocalId (en_clock env) 0)], es_jsonText = [],
       es_jsonError = [], ed_search = [], ed_selected = nextLocalId (en_clock env) 0, ed_expanded = [], ed_dragged = [],
       ed_dragOver = [], ed_dragPosition = Before, ed_template = J ''operations_default'', ed_next = 1,
       ed_toasts = [], ed_saved = [], ed_open = False, ed_crashed = False\<rparr>"

end
