(* ===== verification/OverrideInvariant.thy ===== *)
theory OverrideInvariant
  imports OverrideEditor
begin

text \<open>
  The editor of parameter overrides, seventh part: what holds in every state that the dialog can reach.
  Local ids are distinct as long as fewer than 2 to the 53 were made, beyond which the counter of the
  program stands still.
\<close>

section \<open>Local ids\<close>

lemma no_underscore_exp: "95 \<notin> set (show_exp e)"
proof -
  have "0 \<le> n \<Longrightarrow> 95 \<notin> set (dec n)" for n
    using dec_digits [of n] by (auto simp: list_all_iff is_digit_def)
  from this [of e] this [of "- e"] show ?thesis by (auto simp: show_exp_def)
qed

lemma no_underscore:
  assumes "is_num (Fin x)" "0 \<le> x"
  shows "95 \<notin> set (to_str (Fin x))"
proof (cases "x = 0")
  case False
  have d: "list_all is_digit w \<Longrightarrow> 95 \<notin> set w" for w by (auto simp: list_all_iff is_digit_def)
  from False assms obtain ip fp t where "show_pos x = number_layout ip fp t" "number_parts ip fp t"
    using show_pos_number [of x] by auto
  then have "95 \<notin> set (show_pos x)"
    using d no_underscore_exp by (auto simp: number_layout_def number_parts_def)
  with False assms show ?thesis by simp
qed simp

lemma last_separator:
  assumes "u @ c # v = u' @ c # v'" "c \<notin> set v" "c \<notin> set v'"
  shows "v = v'"
proof -
  have "takeWhile ((\<noteq>) c) (rev (w @ c # z)) = rev z" if "c \<notin> set z" for w z
    using that by (auto intro!: takeWhile_append2 [where P = "(\<noteq>) c", THEN trans])
  with assms have "rev v = rev v'" by metis
  then show ?thesis by simp
qed

lemma nat_is_num: "n \<le> 2 ^ 53 \<Longrightarrow> is_num (Fin (of_nat n))"
proof -
  assume "n \<le> 2 ^ 53"
  then have "int n \<le> int (2 ^ 53)" by (simp only: of_nat_le_iff)
  then have "\<bar>int n\<bar> \<le> 2 ^ 53" by simp
  then show ?thesis using rnd_of_int [of "int n"] by (simp only: is_num.simps of_int_of_nat_eq)
qed

lemma nextLocalId_inj:
  assumes "i < 2 ^ 53" "j < 2 ^ 53" "nextLocalId clock i = nextLocalId clock' j"
  shows "i = j"
proof -
  have n: "is_num (Fin (of_nat i))" "is_num (Fin (of_nat j))" using assms(1,2) by (simp_all only: nat_is_num less_imp_le)
  have u: "J ''_'' @ w = 95 # w" for w by simp
  let ?a = "to_str (Fin (of_nat i))" and ?b = "to_str (Fin (of_nat j))"
  have "(J ''po_'' @ to_str (clock i)) @ 95 # ?a = (J ''po_'' @ to_str (clock' j)) @ 95 # ?b"
    using assms(3) unfolding nextLocalId_def u append_assoc .
  moreover have "95 \<notin> set ?a" "95 \<notin> set ?b" by (rule no_underscore [OF n(1) of_nat_0_le_iff], rule no_underscore [OF n(2) of_nat_0_le_iff])
  ultimately have "?a = ?b" by (rule last_separator)
  then have "to_number ?a = to_number ?b" by (rule arg_cong)
  then have "Fin (of_nat i) = Fin (of_nat j)"
    unfolding to_number_to_str [OF n(1)] to_number_to_str [OF n(2)] .
  then show ?thesis by (simp only: jsnum.inject of_nat_eq_iff)
qed

definition made :: "(nat \<Rightarrow> jsnum) \<Rightarrow> nat \<Rightarrow> nat \<Rightarrow> jsstr set" where
  "made clock a b = nextLocalId clock ` {a..<b}"

lemma made_disjoint: "c \<le> 2 ^ 53 \<Longrightarrow> i \<in> made clock a b \<Longrightarrow> i \<in> made clock b c \<Longrightarrow> False"
proof -
  assume c: "c \<le> 2 ^ 53" "i \<in> made clock a b" "i \<in> made clock b c"
  from c(2) obtain x where x: "i = nextLocalId clock x" "x < b"
    unfolding made_def by (elim imageE) simp
  from c(3) obtain y where y: "i = nextLocalId clock y" "b \<le> y" "y < c"
    unfolding made_def by (elim imageE) simp
  from x y have "x < 2 ^ 53" "y < 2 ^ 53" using c(1) by linarith+
  then have "x = y" by (rule nextLocalId_inj [of _ _ clock clock]) (use x y in simp)
  with x y show False by simp
qed

lemma made_mono: "a' \<le> a \<Longrightarrow> b \<le> b' \<Longrightarrow> made clock a b \<subseteq> made clock a' b'"
  by (auto simp: made_def)

lemma made_next: "a \<le> n \<Longrightarrow> n < b \<Longrightarrow> nextLocalId clock n \<in> made clock a b"
  by (auto simp: made_def)

text \<open>A reader that makes ids: its result is well-formed and has the first id made.\<close>

definition makes :: "(nat \<Rightarrow> jsnum) \<Rightarrow> ('b \<Rightarrow> jsstr) \<Rightarrow> ('b \<Rightarrow> bool) \<Rightarrow> 'b ids \<Rightarrow> bool" where
  "makes clock idf ok m \<longleftrightarrow> (\<forall>n r k. m n = (r, k) \<longrightarrow> n < k \<and>
     (\<forall>y. r = Inr y \<longrightarrow> idf y = nextLocalId clock n \<and> ok y))"

lemma map_ids_mono:
  assumes "\<And>x n r k. x \<in> set xs \<Longrightarrow> f x n = (r, k) \<Longrightarrow> n \<le> k" "map_ids f xs n = (r, k)"
  shows "n \<le> k"
  using assms
proof (induction xs arbitrary: n r k)
  case (Cons x xs)
  obtain q j where q: "f x n = (q, j)" by (cases "f x n")
  with Cons.prems(1) have nj: "n \<le> j" by auto
  show ?case
  proof (cases q)
    case (Inl e)
    with q Cons.prems nj show ?thesis by (simp add: ids_bind_def)
  next
    case (Inr y)
    obtain q' j' where q': "map_ids f xs j = (q', j')" by (cases "map_ids f xs j")
    then have "j \<le> j'" using Cons.IH Cons.prems(1) by (metis list.set_intros(2))
    with q q' Inr Cons.prems(2) nj show ?thesis by (cases q') (simp_all add: ids_bind_def)
  qed
qed simp

lemma map_ids_made:
  assumes "\<And>x. x \<in> set xs \<Longrightarrow> makes clock idf ok (f x)" "map_ids f xs n = (Inr ys, k)" "k \<le> 2 ^ 53"
  shows "n \<le> k \<and> list_all ok ys \<and> idf ` set ys \<subseteq> made clock n k \<and> distinct (map idf ys) \<and> length ys = length xs"
  using assms
proof (induction xs arbitrary: n ys)
  case (Cons x xs)
  from Cons.prems(2) obtain y j zs where y: "f x n = (Inr y, j)" and zs: "map_ids f xs j = (Inr zs, k)" "ys = y # zs"
    by (auto simp: ids_bind_ok)
  have m: "n < j" "idf y = nextLocalId clock n" "ok y"
    using Cons.prems(1) [of x] y by (auto simp: makes_def)
  have ih: "j \<le> k \<and> list_all ok zs \<and> idf ` set zs \<subseteq> made clock j k \<and> distinct (map idf zs) \<and> length zs = length xs"
    using Cons.IH [OF _ zs(1)] Cons.prems(1,3) by simp
  have "idf y \<in> made clock n j" using m by (simp add: made_next)
  then have "idf y \<notin> idf ` set zs" using ih made_disjoint [OF Cons.prems(3)] by blast
  moreover have "made clock j k \<subseteq> made clock n k" "made clock n j \<subseteq> made clock n k"
    using m ih by (simp_all add: made_mono)
  ultimately show ?case using ih m zs \<open>idf y \<in> made clock n j\<close> by auto
qed simp

section \<open>What is read is well-formed\<close>

lemma get_proper: "proper v \<Longrightarrow> json_optional (Some v) k = Some x \<Longrightarrow> proper x"
  by (cases v) (auto simp: json_optional_def list_all_iff dest: map_of_SomeD)

lemma utf16_string_at: "proper v \<Longrightarrow> utf16 (string_at v k)"
  by (auto simp: string_at_def dest: get_proper split: option.split json.split)

lemma utf16_get_text: "proper v \<Longrightarrow> utf16 (toValueText (json_optional (Some v) k))"
  by (cases "json_optional (Some v) k") (auto simp: toValueText_def [of None] intro: utf16_value_text get_proper)

lemma mode_at_mem: "fallback \<in> set modes \<Longrightarrow> mode_at v modes fallback \<in> set modes"
  by (auto simp: mode_at_def split: option.split json.split)

lemma full_mode: "J ''full'' \<in> set CONDITION_MODE_VALUES" "J ''set'' \<in> set OPERATION_MODE_VALUES"
  by (simp_all add: CONDITION_MODE_VALUES_def OPERATION_MODE_VALUES_def OPERATION_MODE_OPTIONS_def)

lemma normalizeCondition_makes:
  "proper v \<Longrightarrow> makes clock oc_id condition_ok (normalizeCondition clock v)"
  using mode_at_mem [OF full_mode(1), of v]
  by (auto simp: makes_def normalizeCondition_def ids_bind_def fresh_def condition_ok_def utf16_string_at
      utf16_get_text split: if_splits)

lemma normalizePruneRule_eq: "normalizePruneRule = normalizeCondition"
  by (simp add: fun_eq_iff normalizePruneRule_def normalizeCondition_def)

lemma makes_step: "makes clock idf ok m \<Longrightarrow> m n = (r, k) \<Longrightarrow> n \<le> k"
  unfolding makes_def by (meson less_imp_le)

lemma makes_result: "makes clock idf ok m \<Longrightarrow> m n = (Inr y, k) \<Longrightarrow> n < k \<and> idf y = nextLocalId clock n \<and> ok y"
  unfolding makes_def by blast

lemma map_ids_ok:
  "(\<And>x. x \<in> set xs \<Longrightarrow> makes clock idf ok (f x)) \<Longrightarrow> map_ids f xs n = (Inr ys, k) \<Longrightarrow> list_all ok ys"
proof (induction xs arbitrary: n ys)
  case (Cons x xs)
  from Cons.prems(2) obtain y j zs where y: "f x n = (Inr y, j)" and z: "map_ids f xs j = (Inr zs, k)" "ys = y # zs"
    by (auto simp: ids_bind_ok)
  have "ok y" using makes_result [OF Cons.prems(1) y] by simp
  moreover have "list_all ok zs" using Cons.IH [OF Cons.prems(1) z(1)] by simp
  ultimately show ?case using z(2) by simp
qed simp

lemma map_ids_step:
  assumes "\<And>x. x \<in> set xs \<Longrightarrow> makes clock idf ok (f x)" "map_ids f xs n = (r, k)"
  shows "n \<le> k"
  using map_ids_mono [OF makes_step [OF assms(1)] assms(2)] .

lemma normalizeOperation_makes:
  assumes "proper v"
  shows "makes clock po_id operation_ok (normalizeOperation upper clock v)"
proof -
  let ?read = "case get v ''conditions'' of Some (JArr cs) \<Rightarrow> map_ids (normalizeCondition clock) cs | _ \<Rightarrow> ids_return []"
  have c: "makes clock oc_id condition_ok (normalizeCondition clock c)" if "get v ''conditions'' = Some (JArr cs)" "c \<in> set cs" for c cs
    using get_proper [OF assms that(1)] that(2) by (intro normalizeCondition_makes) (simp add: list_all_iff)
  have read: "n \<le> k \<and> (\<forall>cs. r = Inr cs \<longrightarrow> list_all condition_ok cs)" if r: "?read n = (r, k)" for n r k
  proof (cases "\<exists>cs. get v ''conditions'' = Some (JArr cs)")
    case True
    then obtain cs where cs: "get v ''conditions'' = Some (JArr cs)" by blast
    then have "map_ids (normalizeCondition clock) cs n = (r, k)" using r by (simp only: option.case json.case)
    then show ?thesis
      using map_ids_step [where f = "normalizeCondition clock", OF c [OF cs]]
        map_ids_ok [where f = "normalizeCondition clock", OF c [OF cs]] by blast
  next
    case False
    then have "?read = ids_return []" by (simp split: option.split json.split)
    with r show ?thesis by auto
  qed
  have "Suc n \<le> k \<and> (\<forall>op. r = Inr op \<longrightarrow> po_id op = nextLocalId clock n \<and> operation_ok op)"
    if h: "normalizeOperation upper clock v n = (r, k)" for n r k
  proof (cases "v = JNull")
    case True
    with h show ?thesis by (auto simp: normalizeOperation_def ids_bind_def fresh_def ids_lift_def)
  next
    case v: False
    show ?thesis
    proof (cases "text_or (get v ''logic'') (J ''OR'')")
      case (Inl e)
      with h v show ?thesis by (auto simp: normalizeOperation_def ids_bind_def fresh_def ids_lift_def)
    next
      case l: (Inr logic)
      note l = v l
      obtain q j where q: "?read (Suc n) = (q, j)" by (cases "?read (Suc n)")
      show ?thesis
      proof (cases q)
        case (Inl e)
        with h l q read [OF q] show ?thesis
          by (auto simp add: normalizeOperation_def ids_bind_def fresh_def ids_lift_def)
      next
        case (Inr cs)
        with h l q read [OF q] mode_at_mem [OF full_mode(2), of v] assms show ?thesis
          by (auto simp: normalizeOperation_def ids_bind_def fresh_def ids_lift_def ids_return_def operation_ok_def
              utf16_string_at utf16_get_text cong: if_cong split: if_splits)
      qed
    qed
  qed
  then show ?thesis by (fastforce simp: makes_def)
qed

section \<open>Drafts are well-formed\<close>

lemma set_nonempty_join: "utf16 sep \<Longrightarrow> list_all utf16 xs \<Longrightarrow> utf16 (join sep xs)"
  by (rule utf16_join) (auto simp: list_all_iff)

lemma utf16_js_string: "proper v \<Longrightarrow> utf16 (js_string v)"
proof (induction v rule: js_string.induct)
  case (3 x)
  then show ?case by (simp add: plain_utf16 [OF plain_to_str])
next
  case (5 xs)
  then show ?case by (auto simp: list_all_iff intro!: utf16_join)
qed simp_all

lemma utf16_js_String: "proper v \<Longrightarrow> js_String v = Inr s \<Longrightarrow> utf16 s"
  by (auto simp: js_String_def utf16_js_string split: if_splits)

lemma utf16_text_or:
  "proper v \<Longrightarrow> utf16 d \<Longrightarrow> text_or (json_optional (Some v) k) d = Inr s \<Longrightarrow> utf16 s"
  by (auto simp: text_or_def truthy_def split: option.splits if_splits intro: utf16_js_String dest: get_proper)

definition error_draft_ok :: "return_error_draft \<Rightarrow> bool" where
  "error_draft_ok d \<longleftrightarrow> utf16 (rd_message d) \<and> utf16 (rd_code d) \<and> utf16 (rd_type d)"

definition prune_draft_ok :: "prune_draft \<Rightarrow> bool" where
  "prune_draft_ok d \<longleftrightarrow> utf16 (pd_typeText d) \<and> list_all condition_ok (pd_rules d)"

lemma error_fields_ok:
  assumes "proper v" "error_fields v = Inr d"
  shows "error_draft_ok d"
proof -
  from assms(2) obtain m c t where
    m: "(case truthy (get v ''message'') of Some x \<Rightarrow> js_String x | None \<Rightarrow> text_or (get v ''msg'') []) = Inr m"
    and c: "text_or (get v ''code'') [] = Inr c" and t: "text_or (get v ''type'') [] = Inr t"
    and d: "rd_message d = trim m" "rd_code d = trim c" "rd_type d = trim t"
    unfolding error_fields_def by (auto simp: js_bind_eq_Inr)
  have "utf16 m"
  proof (cases "truthy (get v ''message'')")
    case None
    then show ?thesis using m utf16_text_or [OF assms(1), of "[]"] by simp
  next
    case (Some x)
    then have "proper x" using get_proper [OF assms(1)] by (auto simp: truthy_def split: option.splits if_splits)
    with Some m show ?thesis using utf16_js_String by simp
  qed
  then show ?thesis
    using utf16_text_or [OF assms(1) _ c] utf16_text_or [OF assms(1) _ t] d by (simp add: error_draft_ok_def)
qed

lemma parse_error_ok:
  assumes "utf16 text"
  shows "error_draft_ok (parseReturnErrorDraft text)"
proof -
  have 1: "error_draft_ok default_error" "error_draft_ok (default_error\<lparr>rd_message := trim text, rd_simpleMode := True\<rparr>)"
    using assms by (simp_all add: error_draft_ok_def default_error_def)
  have "error_draft_ok d" if "json_parse (trim text) = Inr (JObj m)" "error_fields (JObj m) = Inr d" for m d
    using assms by (intro error_fields_ok [OF parse_proper [OF that(1)] that(2)]) simp
  then show ?thesis
    using 1 unfolding parseReturnErrorDraft_def Let_def by (auto split: sum.split json.split)
qed

lemma status_or_400_num: "is_num (status_or_400 x)"
proof (cases "is_integer x \<and> num_le (num 100) x \<and> num_le x (num 599)")
  case True
  then obtain q where q: "x = Fin q" "q = of_int \<lfloor>q\<rfloor>" "100 \<le> q" "q \<le> 599"
    using rnd_of_int [of 100] rnd_of_int [of 599] by (cases x) (auto simp: num_le_def num_eq_def)
  define z where "z = \<lfloor>q\<rfloor>"
  with q have z: "q = of_int z" by simp
  with q have "100 \<le> z" "z \<le> 599" by simp_all
  then have "rnd (of_int z) = Fin (of_int z)" by (intro rnd_of_int) simp
  with True q z show ?thesis by (simp add: status_or_400_def)
qed (auto simp: status_or_400_def)

lemma proper_error_payload: "error_draft_ok d \<Longrightarrow> proper (JObj (error_payload d))"
proof -
  assume ok: "error_draft_ok d"
  have 0: "proper (JObj [(J ''message'', JStr (trim (rd_message d))), (J ''status_code'', JNum (status_or_400 (rd_statusCode d)))])"
    using ok status_or_400_num by (simp add: error_draft_ok_def)
  show ?thesis
    unfolding error_payload_def Let_def by (intro proper_put_if 0) (use ok in \<open>simp_all add: error_draft_ok_def\<close>)
qed

lemma utf16_text: "proper v \<Longrightarrow> utf16 (json_text v)"
  using utf16_print [of v "[]" "[]"] by (simp only: json_print_text utf16_Cons)

lemma build_error_ok: "error_draft_ok d \<Longrightarrow> utf16 (buildReturnErrorValueText d)"
  unfolding buildReturnErrorValueText_def
  by (auto simp: error_draft_ok_def simp del: json_text.simps intro!: utf16_text proper_error_payload)

lemma proper_prune_rule: "condition_ok r \<Longrightarrow> proper (JObj (prune_condition r))"
proof -
  assume ok: "condition_ok r"
  have 0: "proper (JObj [(J ''path'', JStr (trim (oc_path r))),
      (J ''mode'', JStr (if oc_mode r \<in> set CONDITION_MODE_VALUES then oc_mode r else J ''full''))])"
    using ok utf16_modes(1) [of "oc_mode r"] by (simp add: condition_ok_def)
  have v: "proper (parseLooseValue (trim (oc_value_text r)))"
    using ok by (intro proper_loose) (simp add: condition_ok_def)
  show ?thesis
    unfolding prune_condition_def Let_def by (intro proper_put_if 0) (use v in simp_all)
qed

lemma proper_prune_payload: "prune_draft_ok d \<Longrightarrow> proper (JObj (prune_payload upper d))"
proof -
  assume ok: "prune_draft_ok d"
  let ?cs = "map (\<lambda>r. JObj (prune_condition r)) (filter (\<lambda>r. trim (oc_path r) \<noteq> []) (pd_rules d))"
  have c: "proper (JArr ?cs)"
    using ok proper_prune_rule by (auto simp: prune_draft_ok_def list_all_iff simp del: proper.simps(4))
  have 0: "proper (JObj [])" by simp
  have 1: "proper (JStr (trim (pd_typeText d)))" using ok by (simp add: prune_draft_ok_def)
  have 2: "proper (JStr (J ''OR''))" "proper (JBool False)" by simp_all
  have 3: "proper (JObj [(J ''logic'', JStr (J ''AND''))])" by simp
  have "proper (JObj (put_if a ''conditions'' (JArr ?cs) (put_if b ''recursive'' (JBool False)
      (put_if c ''logic'' (JStr (J ''OR'')) (put_if d' ''type'' (JStr (trim (pd_typeText d))) [])))))" for a b c d'
    by (intro proper_put_if 0 1 2 c)
  with 3 show ?thesis unfolding prune_payload_def Let_def by (simp only: split: if_split) blast
qed

lemma build_prune_ok: "prune_draft_ok d \<Longrightarrow> utf16 (buildPruneObjectsValueText upper d)"
  unfolding buildPruneObjectsValueText_def
  by (auto simp: prune_draft_ok_def simp del: json_text.simps intro!: utf16_text proper_prune_payload)

lemma proper_entry_rule: "utf16 k \<Longrightarrow> proper v \<Longrightarrow> proper (entry_rule (k, v))"
  by (simp add: entry_rule_def)

lemma entry_rules_proper: "proper (JObj w) \<Longrightarrow> list_all proper (map entry_rule (own_entries w))"
  using proper_entry_rule by (fastforce simp: list_all_iff)

lemma prune_rules_proper: "proper v \<Longrightarrow> x \<in> set (prune_rules v) \<Longrightarrow> proper x"
proof -
  assume v: "proper v" and x: "x \<in> set (prune_rules v)"
  have g: "u = Some y \<Longrightarrow> proper y" if "u = json_optional (Some v) k" for u y k
    using get_proper [OF v, of k] that by simp
  have w: "list_all proper (case u of Some (JObj w) \<Rightarrow> map entry_rule (own_entries w) | _ \<Rightarrow> [])"
    if "u = json_optional (Some v) k" for u k
  proof (cases u)
    case (Some y)
    then have y: "proper y" by (rule g [OF that])
    show ?thesis
    proof (cases y)
      case (JObj w)
      with Some entry_rules_proper [of w] y show ?thesis by (simp only: option.case json.case)
    qed (use Some in simp_all)
  qed simp
  have c: "list_all proper (case u of Some (JArr cs) \<Rightarrow> filter is_object cs
      | Some (JObj w) \<Rightarrow> map entry_rule (own_entries w) | _ \<Rightarrow> [])"
    if "u = json_optional (Some v) k" for u k
  proof (cases u)
    case (Some y)
    then have y: "proper y" by (rule g [OF that])
    show ?thesis
    proof (cases y)
      case (JObj w)
      with Some entry_rules_proper [of w] y show ?thesis by (simp only: option.case json.case)
    qed (use Some y in \<open>simp_all add: list_all_iff\<close>)
  qed simp
  have "list_all proper (prune_rules v)"
    unfolding prune_rules_def list_all_append using w [OF refl] c [OF refl] by blast
  then show "proper x" using x by (simp add: list_all_iff)
qed

lemma prune_fields_ok:
  assumes "proper v" "prune_fields upper clock v n = (r, k)"
  shows "n \<le> k \<and> (\<forall>d. r = Inr d \<longrightarrow> prune_draft_ok d)"
proof -
  have m: "x \<in> set (prune_rules v) \<Longrightarrow> makes clock oc_id condition_ok (normalizePruneRule clock x)" for x
    using prune_rules_proper [OF assms(1)] normalizeCondition_makes by (simp add: normalizePruneRule_eq)
  obtain q j where q: "map_ids (normalizePruneRule clock) (prune_rules v) n = (q, j)"
    by (cases "map_ids (normalizePruneRule clock) (prune_rules v) n")
  have nj: "n \<le> j" by (rule map_ids_step [where f = "normalizePruneRule clock", OF m q])
  have ok: "list_all condition_ok rs" if "q = Inr rs" for rs
    using map_ids_ok [where f = "normalizePruneRule clock", OF m] q that by blast
  have ty: "utf16 s" if "(case get v ''type'' of None \<Rightarrow> Inr [] | Some x \<Rightarrow> js_String x) = Inr s" for s
    using that utf16_js_String get_proper [OF assms(1)] by (cases "get v ''type''") fastforce+
  show ?thesis
    using assms(2) q nj ok ty unfolding prune_fields_def ids_bind_def ids_lift_def ids_return_def
    by (auto simp: prune_draft_ok_def split: prod.splits sum.splits)
qed

lemma parse_prune_ok:
  assumes "utf16 text"
  shows "n \<le> snd (parsePruneObjectsDraft upper clock text n) \<and>
    prune_draft_ok (fst (parsePruneObjectsDraft upper clock text n))"
proof -
  have 1: "prune_draft_ok (default_prune\<lparr>pd_typeText := s\<rparr>)" if "utf16 s" for s
    using that by (simp add: prune_draft_ok_def default_prune_def)
  have 0: "prune_draft_ok default_prune" by (simp add: prune_draft_ok_def default_prune_def)
  have t: "utf16 (trim text)" using assms by simp
  show ?thesis
  proof (cases "json_parse (trim text)")
    case (Inl e)
    with 0 1 [OF t] show ?thesis by (simp add: parsePruneObjectsDraft_def Let_def)
  next
    case (Inr v)
    then have v: "proper v" by (rule parse_proper [OF _ t])
    have s: "utf16 (trim s)" if "text_of v = Inr s" for s
      using that utf16_js_String [OF v, of s] by (auto simp: text_of_def split: if_splits)
    obtain r k where r: "prune_fields upper clock v n = (r, k)" by (cases "prune_fields upper clock v n")
    note f = prune_fields_ok [OF v r]
    show ?thesis
      using 0 1 [OF t] 1 [OF s] Inr f r
      by (cases v; cases r) (auto simp: parsePruneObjectsDraft_def Let_def split: sum.splits)
  qed
qed

section \<open>The invariant\<close>

definition patch_ok :: "operation_patch \<Rightarrow> bool" where
  "patch_ok p \<longleftrightarrow> utf16 (or_old (pp_description p) []) \<and> utf16 (or_old (pp_path p) []) \<and> utf16 (or_old (pp_from p) []) \<and>
     utf16 (or_old (pp_to p) []) \<and> utf16 (or_old (pp_value_text p) []) \<and>
     or_old (pp_mode p) (J ''set'') \<in> set OPERATION_MODE_VALUES \<and>
     (or_old (pp_logic p) (J ''OR'') = J ''AND'' \<or> or_old (pp_logic p) (J ''OR'') = J ''OR'')"

definition condition_patch_ok :: "condition_patch \<Rightarrow> bool" where
  "condition_patch_ok p \<longleftrightarrow> utf16 (or_old (cp_path p) []) \<and> utf16 (or_old (cp_value_text p) []) \<and>
     or_old (cp_mode p) (J ''full'') \<in> set CONDITION_MODE_VALUES"

text \<open>What the fields of the dialog can send: texts of code units, and modes from the lists.\<close>

fun event_ok :: "override_event \<Rightarrow> bool" where
  "event_ok (OpenDialog text) \<longleftrightarrow> utf16 text"
| "event_ok (UpdateOperation i p) \<longleftrightarrow> patch_ok p"
| "event_ok (UpdateCondition i c p) \<longleftrightarrow> condition_patch_ok p"
| "event_ok (UpdateReturnError i p) \<longleftrightarrow> utf16 (or_old (rp_message p) []) \<and> utf16 (or_old (rp_code p) []) \<and>
     utf16 (or_old (rp_type p) [])"
| "event_ok (UpdatePruneDraft i p) \<longleftrightarrow> utf16 (or_old (qp_typeText p) [])"
| "event_ok (UpdatePruneRule i r p) \<longleftrightarrow> condition_patch_ok p"
| "event_ok (EditLegacy text) \<longleftrightarrow> utf16 text"
| "event_ok (JsonChange text) \<longleftrightarrow> utf16 text"
| "event_ok _ \<longleftrightarrow> True"

inductive editor_reachable :: "override_env \<Rightarrow> editor \<Rightarrow> bool" for env where
  first: "editor_reachable env (first_state env)"
| step: "editor_reachable env s \<Longrightarrow> event_ok e \<Longrightarrow> editor_reachable env (override_step env e s)"

definition operations_inv :: "(nat \<Rightarrow> jsnum) \<Rightarrow> nat \<Rightarrow> override_operation list \<Rightarrow> bool" where
  "operations_inv clock n ops \<longleftrightarrow> ops \<noteq> [] \<and> list_all operation_ok ops \<and> distinct (map po_id ops) \<and>
     po_id ` set ops \<subseteq> made clock 0 n"

definition editor_inv :: "override_env \<Rightarrow> editor \<Rightarrow> bool" where
  "editor_inv env s \<longleftrightarrow> operations_inv (en_clock env) (ed_next s) (es_operations s) \<and>
     utf16 (es_legacyValue s) \<and> utf16 (es_jsonText s)"

lemma inv_mono: "operations_inv clock n ops \<Longrightarrow> n \<le> k \<Longrightarrow> operations_inv clock k ops"
  using made_mono [of 0 0 n k clock] by (auto simp: operations_inv_def)

lemma inv_map:
  assumes "operations_inv clock n ops" "\<And>op. op \<in> set ops \<Longrightarrow> operation_ok op \<Longrightarrow> po_id (f op) = po_id op \<and> operation_ok (f op)"
  shows "operations_inv clock n (map f ops)"
proof -
  have eq: "map po_id (map f ops) = map po_id ops"
    using assms by (auto simp: operations_inv_def list_all_iff)
  then have "po_id ` set (map f ops) = po_id ` set ops" by (metis list.set_map)
  moreover have "distinct (map po_id (map f ops))" unfolding eq using assms(1) by (simp add: operations_inv_def)
  moreover have "list_all operation_ok (map f ops)"
    using assms by (auto simp: operations_inv_def list_all_iff)
  moreover have "map f ops \<noteq> []" using assms(1) by (simp add: operations_inv_def)
  ultimately show ?thesis using assms(1) unfolding operations_inv_def by blast
qed

lemma inv_map_id:
  assumes "operations_inv clock n ops" "\<And>op. operation_ok op \<Longrightarrow> po_id (f op) = po_id op \<and> operation_ok (f op)"
  shows "operations_inv clock n (map_id po_id i f ops)"
  unfolding map_id_def by (rule inv_map [OF assms(1)]) (use assms(2) in auto)

lemma inv_fresh:
  assumes "list_all operation_ok ops" "po_id ` set ops \<subseteq> made clock n k" "distinct (map po_id ops)" "ops \<noteq> []"
  shows "operations_inv clock k ops"
  using assms made_mono [of 0 n k k clock] by (auto simp: operations_inv_def)

lemma inv_append:
  assumes "operations_inv clock n ops" "list_all operation_ok new" "po_id ` set new \<subseteq> made clock n k"
    "distinct (map po_id new)" "n \<le> k" "k \<le> 2 ^ 53" "new \<noteq> []"
  shows "operations_inv clock k (filter P ops @ new)"
proof -
  let ?old = "filter P ops"
  have m: "po_id ` set ?old \<subseteq> made clock 0 n" using assms(1) by (auto simp: operations_inv_def)
  then have d: "po_id ` set ?old \<inter> po_id ` set new = {}" using assms(3) made_disjoint [OF assms(6), of _ clock 0 n] by blast
  have "distinct (map po_id ?old)" using assms(1) map_distinct_filter [of po_id ops P] by (simp add: operations_inv_def)
  with d assms(4) have "distinct (map po_id (?old @ new))" by simp
  moreover have "po_id ` set (?old @ new) \<subseteq> made clock 0 k"
    using m assms(3) made_mono [of 0 0 n k clock] made_mono [of 0 n k k clock] assms(5) by auto
  moreover have "list_all operation_ok (?old @ new)"
    using assms(1,2) by (auto simp: operations_inv_def list_all_iff)
  ultimately show ?thesis using assms(7) unfolding operations_inv_def by blast
qed

lemma blank_operation_ok [simp]: "operation_ok (blank_operation upper i)" "po_id (blank_operation upper i) = i"
  using full_mode(2) by (auto simp: operation_ok_def blank_operation_def)

lemma blank_condition_ok [simp]: "condition_ok (blank_condition i)" "oc_id (blank_condition i) = i"
  using full_mode(1) by (auto simp: condition_ok_def blank_condition_def)

lemma inv_blank: "operations_inv clock (Suc n) [blank_operation upper (nextLocalId clock n)]"
  by (simp add: operations_inv_def made_next)

lemma one_operation_eq:
  "one_operation upper clock n = (Inr [blank_operation upper (nextLocalId clock n)], Suc n)"
  by (simp add: one_operation_def ids_bind_eq [OF createDefaultOperation_eq])

lemma read_operations_inv:
  assumes "list_all proper xs" "read_operations upper clock xs n = (r, k)" "k \<le> 2 ^ 53"
  shows "n \<le> k \<and> (\<forall>ops. r = Inr ops \<longrightarrow> operations_inv clock k ops)"
proof (cases "xs = []")
  case True
  with assms(2) inv_blank show ?thesis by (auto simp: read_operations_def one_operation_eq)
next
  case False
  have m: "x \<in> set xs \<Longrightarrow> makes clock po_id operation_ok (normalizeOperation upper clock x)" for x
    using assms(1) by (intro normalizeOperation_makes) (simp add: list_all_iff)
  have r: "map_ids (normalizeOperation upper clock) xs n = (r, k)" using assms(2) False by (simp add: read_operations_def)
  have "operations_inv clock k ops" if "r = Inr ops" for ops
    using map_ids_made [where f = "normalizeOperation upper clock", OF m _ assms(3), of xs n ops] r that False
    by (intro inv_fresh [where n = n]) auto
  moreover have "n \<le> k" using map_ids_step [where f = "normalizeOperation upper clock", OF m r] .
  ultimately show ?thesis by blast
qed

end
