(* ===== verification/OverrideReach.thy ===== *)
theory OverrideReach
  imports OverrideInvariant "HOL-Library.Multiset"
begin

text \<open>
  The editor of parameter overrides, eighth part: every callback keeps the invariant.
\<close>

section \<open>The counter of ids does not go back\<close>

definition mono_ids :: "'a ids \<Rightarrow> bool" where
  "mono_ids m \<longleftrightarrow> (\<forall>n. n \<le> snd (m n))"

lemma mono_ids_simps [simp]:
  "mono_ids (ids_return x)" "mono_ids (ids_lift r)" "mono_ids (fresh clock)" "mono_ids (Pair r)"
  by (simp_all add: mono_ids_def fresh_def)

lemma mono_ids_bind: "mono_ids m \<Longrightarrow> (\<And>x. mono_ids (f x)) \<Longrightarrow> mono_ids (ids_bind m f)"
  unfolding mono_ids_def ids_bind_def by (auto split: prod.split sum.split) (metis le_trans snd_conv)+

lemma mono_ids_map: "(\<And>x. mono_ids (f x)) \<Longrightarrow> mono_ids (map_ids f xs)"
  by (induction xs) (auto intro!: mono_ids_bind)

lemma mono_condition: "mono_ids (normalizeCondition clock v)"
  unfolding normalizeCondition_def by (intro mono_ids_bind) auto

lemma mono_operation: "mono_ids (normalizeOperation upper clock v)"
  unfolding normalizeOperation_def
  by (auto intro!: mono_ids_bind mono_ids_map mono_condition split: option.split json.split)

lemma mono_one: "mono_ids (one_operation upper clock)"
  by (simp add: mono_ids_def one_operation_eq)

lemma mono_read: "mono_ids (read_operations upper clock xs)"
  by (auto simp: read_operations_def intro!: mono_one mono_ids_map mono_operation)

lemma mono_initial: "mono_ids (parseInitialState upper clock text)"
  unfolding parseInitialState_def Let_def
  by (auto intro!: mono_ids_bind mono_one mono_read split: sum.split json.split option.split)

lemma mono_prune: "n \<le> snd (parsePruneObjectsDraft upper clock text n)"
proof -
  have "mono_ids (prune_fields upper clock v)" for v
    unfolding prune_fields_def normalizePruneRule_eq by (intro mono_ids_bind mono_ids_map mono_condition) auto
  then show ?thesis
    unfolding parsePruneObjectsDraft_def Let_def mono_ids_def
    by (auto split: sum.split json.split prod.split) (metis snd_conv)+
qed

text \<open>An updater of a draft does not set the counter back.\<close>

definition mono_updater :: "prune_updater \<Rightarrow> bool" where
  "mono_updater u \<longleftrightarrow> (\<forall>d n. n \<le> snd (u d n))"

lemma mono_updaters [simp]: "mono_updater (plain_updater f)" "mono_updater (add_rule clock)"
  by (simp_all add: mono_updater_def plain_updater_def add_rule_def)

lemma mono_prune_operations:
  "mono_updater u \<Longrightarrow> n \<le> snd (prune_operations env i u ops n)"
proof (induction ops arbitrary: n)
  case (Cons op ops)
  let ?p = "parsePruneObjectsDraft (en_upper env) (en_clock env) (po_value_text op) n"
  have "n \<le> snd ?p" by (rule mono_prune)
  also have "\<dots> \<le> snd (u (fst ?p) (snd ?p))" using Cons.prems by (simp add: mono_updater_def)
  finally have "n \<le> snd (u (fst ?p) (snd ?p))" .
  with Cons.IH [OF Cons.prems] show ?case
    by (simp add: Let_def case_prod_unfold) (metis le_trans)
qed simp

lemma mono_update_prune: "mono_updater u \<Longrightarrow> ed_next s \<le> ed_next (updatePruneObjectsDraft env i u s)"
  using mono_prune_operations [of u "ed_next s" env i "es_operations s"]
  by (simp add: updatePruneObjectsDraft_def case_prod_unfold Let_def)

lemma mono_ids_at: "mono_ids m \<Longrightarrow> m n = (r, k) \<Longrightarrow> n \<le> k"
  unfolding mono_ids_def by (metis snd_conv)

lemma keep_selection_simps [simp]:
  "ed_next (keep_selection s) = ed_next s" "es_operations (keep_selection s) = es_operations s"
  "es_legacyValue (keep_selection s) = es_legacyValue s" "es_jsonText (keep_selection s) = es_jsonText s"
  "ed_saved (keep_selection s) = ed_saved s" "ed_open (keep_selection s) = ed_open s"
  "ed_toasts (keep_selection s) = ed_toasts s" "es_editMode (keep_selection s) = es_editMode s"
  "es_visualMode (keep_selection s) = es_visualMode s" "ed_crashed (keep_selection s) = ed_crashed s"
  by (simp_all add: keep_selection_def)

lemma toast_simps [simp]:
  "ed_next (toast m s) = ed_next s" "es_operations (toast m s) = es_operations s"
  "es_legacyValue (toast m s) = es_legacyValue s" "es_jsonText (toast m s) = es_jsonText s"
  "ed_saved (toast m s) = ed_saved s" "ed_open (toast m s) = ed_open s"
  by (simp_all add: toast_def)

lemma counter_open: "ed_next s \<le> ed_next (open_dialog env text s)"
  using mono_ids_at [OF mono_initial]
  by (fastforce simp: open_dialog_def split: prod.split sum.split)

lemma counter_render: "ed_next s \<le> ed_next (rerendered env memo s)"
  using mono_prune [of "Suc (ed_next s)"]
  by (auto simp: rerendered_def split: list.split intro: Suc_leD)

lemma counter_duplicate: "ed_next s \<le> ed_next (duplicateOperation env i eager s)"
  using mono_ids_at [OF mono_operation]
  by (fastforce simp: duplicateOperation_def split: prod.split sum.split option.split)

lemma counter_visual: "ed_next s \<le> ed_next (switchToVisualMode env s)"
  using mono_ids_at [OF mono_read]
  by (fastforce simp: switchToVisualMode_def visual_default_def Let_def split: prod.split sum.split option.split json.split)

lemma counter_fill: "ed_next s \<le> ed_next (fillTemplate env mode s)"
proof -
  have m: "ed_next s \<le> k" if "map_ids (normalizeOperation (en_upper env) (en_clock env)) xs (ed_next s) = (r, k)" for xs r k
    by (rule mono_ids_at [OF mono_ids_map [where f = "normalizeOperation (en_upper env) (en_clock env)", OF mono_operation] that])
  then show ?thesis
    by (auto simp: fillTemplate_def show_legacy_def Let_def intro: le_SucI split: prod.split sum.split)
qed

lemma counter_mono: "ed_next s \<le> ed_next (handle_event env e s)"
proof (cases e)
  case (UpdatePruneDraft i p)
  then show ?thesis by (simp add: mono_update_prune)
next
  case (AddPruneRule i)
  then show ?thesis by (simp add: addPruneRule_def mono_update_prune)
next
  case (UpdatePruneRule i r p)
  then show ?thesis by (simp add: updatePruneRule_def mono_update_prune)
next
  case (RemovePruneRule i r)
  then show ?thesis by (simp add: removePruneRule_def mono_update_prune)
qed (simp_all add: counter_open counter_render counter_duplicate counter_visual counter_fill updateOperation_def
    set_operation_def addOperation_def Let_def removeOperation_def addCondition_def updateCondition_def removeCondition_def
    updateReturnErrorDraft_def handleDragStart_def handleDragOver_def handleDrop_def resetDragState_def switchToJsonMode_def
    visual_default_def resetEditorState_def handleJsonChange_def formatJson_def handleSave_def set_expanded_def
    split: sum.split list.split)

section \<open>Operations\<close>

lemma editor_inv_intro:
  "operations_inv (en_clock env) (ed_next s) (es_operations s) \<Longrightarrow> utf16 (es_legacyValue s) \<Longrightarrow> utf16 (es_jsonText s) \<Longrightarrow>
    editor_inv env s"
  by (simp add: editor_inv_def)

lemma inv_set_operation:
  assumes "editor_inv env s" "\<And>op. operation_ok op \<Longrightarrow> po_id (f op) = po_id op \<and> operation_ok (f op)"
  shows "editor_inv env (set_operation i f s)"
  using assms(1) inv_map_id [OF _ assms(2)] by (simp add: editor_inv_def set_operation_def)

lemma or_old_utf16: "utf16 (or_old p []) \<Longrightarrow> utf16 x \<Longrightarrow> utf16 (or_old p x)"
  by (cases p) (simp_all add: or_old_def)

lemma or_old_mem: "or_old p d \<in> A \<Longrightarrow> x \<in> A \<Longrightarrow> or_old p x \<in> A"
  by (cases p) (simp_all add: or_old_def)

lemma patch_operation_ok:
  assumes "patch_ok p" "operation_ok op"
  shows "po_id (patch_operation p op) = po_id op \<and> operation_ok (patch_operation p op)"
proof -
  have "or_old (pp_logic p) (po_logic op) \<in> {J ''AND'', J ''OR''}"
    by (rule or_old_mem [of _ "J ''OR''"]) (use assms in \<open>auto simp: patch_ok_def operation_ok_def\<close>)
  moreover have "or_old (pp_mode p) (po_mode op) \<in> set OPERATION_MODE_VALUES"
    by (rule or_old_mem [of _ "J ''set''"]) (use assms in \<open>auto simp: patch_ok_def operation_ok_def\<close>)
  ultimately show ?thesis
    using assms by (simp add: patch_operation_def operation_ok_def patch_ok_def or_old_utf16)
qed

lemma patch_condition_ok: "condition_patch_ok p \<Longrightarrow> condition_ok c \<Longrightarrow> condition_ok (patch_condition p c)"
  using or_old_mem [of "cp_mode p" "J ''full''" "set CONDITION_MODE_VALUES" "oc_mode c"]
  by (simp add: patch_condition_def condition_ok_def condition_patch_ok_def or_old_utf16)

lemma set_conditions_ok:
  "operation_ok op \<Longrightarrow> (list_all condition_ok (po_conditions op) \<Longrightarrow> list_all condition_ok cs) \<Longrightarrow>
    operation_ok (op\<lparr>po_conditions := cs\<rparr>)"
  by (simp add: operation_ok_def)

lemma set_value_ok: "operation_ok op \<Longrightarrow> utf16 v \<Longrightarrow> operation_ok (op\<lparr>po_value_text := v\<rparr>)"
  by (simp add: operation_ok_def)

lemma value_text_ok: "operation_ok op \<Longrightarrow> utf16 (po_value_text op)"
  by (simp add: operation_ok_def)

lemma inv_update: "patch_ok p \<Longrightarrow> editor_inv env s \<Longrightarrow> editor_inv env (updateOperation i p s)"
  unfolding updateOperation_def by (erule inv_set_operation) (rule patch_operation_ok)

lemma inv_new:
  assumes "operations_inv clock n ops" "operation_ok op" "po_id op = nextLocalId clock n" "n < k" "k \<le> 2 ^ 53"
  shows "operations_inv clock k (ops @ [op])"
proof -
  have "po_id ` set [op] \<subseteq> made clock n k" using assms(3,4) by (simp add: made_next)
  then have "operations_inv clock k (filter (\<lambda>_. True) ops @ [op])"
    using assms by (intro inv_append) auto
  then show ?thesis by simp
qed

lemma inv_mset:
  assumes "operations_inv clock n xs" "mset zs = mset xs"
  shows "operations_inv clock n zs"
proof -
  have "set zs = set xs" using arg_cong [OF assms(2), of set_mset] by simp
  moreover have "distinct (map po_id zs) = distinct (map po_id xs)"
    by (rule mset_eq_imp_distinct_iff) (simp add: assms(2))
  moreover have "zs \<noteq> [] \<longleftrightarrow> xs \<noteq> []" using assms(2) by auto
  ultimately show ?thesis using assms(1) by (simp add: operations_inv_def list_all_iff)
qed

lemma inv_add:
  assumes "editor_inv env s" "ed_next (addOperation env s) \<le> 2 ^ 53"
  shows "editor_inv env (addOperation env s)"
proof -
  have "operations_inv (en_clock env) (Suc (ed_next s))
      (es_operations s @ [blank_operation (en_upper env) (nextLocalId (en_clock env) (ed_next s))])"
    using assms by (intro inv_new [where n = "ed_next s"]) (simp_all add: editor_inv_def addOperation_def Let_def)
  then show ?thesis using assms(1) by (simp add: editor_inv_def addOperation_def Let_def)
qed

lemma mset_insert_at: "mset (insert_at i x xs) = mset (xs @ [x])"
  unfolding insert_at_def by (metis append_take_drop_id mset.simps(2) mset_append union_mset_add_mset_right mset.simps(1) add.right_neutral)

lemma find_index_bound: "find_index P xs = Some i \<Longrightarrow> i < length xs \<and> P (xs ! i)"
  by (auto simp: find_index_def Let_def split: if_splits dest: nth_length_takeWhile)

lemma duplicate_source_proper: "operation_ok op \<Longrightarrow> proper (duplicate_source op)"
proof -
  assume ok: "operation_ok op"
  have "proper (JObj [(J ''path'', JStr (oc_path c)), (J ''mode'', JStr (oc_mode c)), (J ''value'', parseLooseValue (oc_value_text c)),
      (J ''invert'', JBool (oc_invert c)), (J ''pass_missing_key'', JBool (oc_pass_missing_key c))])"
    if "c \<in> set (po_conditions op)" for c
    using ok that proper_loose [of "oc_value_text c"]
    by (auto simp: operation_ok_def list_all_iff condition_ok_def utf16_modes)
  moreover have "utf16 (po_logic op)" using ok by (auto simp: operation_ok_def)
  ultimately show ?thesis
    using ok proper_loose [of "po_value_text op"] utf16_modes(2) [of "po_mode op"]
    unfolding duplicate_source_def operation_ok_def by (simp add: list_all_iff)
qed

lemma inv_counter: "editor_inv env s \<Longrightarrow> ed_next s \<le> k \<Longrightarrow> editor_inv env (s\<lparr>ed_next := k\<rparr>)"
  by (auto simp: editor_inv_def intro: inv_mono)

lemma inv_crash: "editor_inv env s \<Longrightarrow> ed_next s \<le> k \<Longrightarrow> editor_inv env (s\<lparr>ed_next := k, ed_crashed := True\<rparr>)"
  by (auto simp: editor_inv_def intro: inv_mono)

lemma inv_duplicate:
  assumes "editor_inv env s" "ed_next (duplicateOperation env i eager s) \<le> 2 ^ 53"
  shows "editor_inv env (duplicateOperation env i eager s)"
proof (cases "find_index (\<lambda>op. po_id op = i) (es_operations s)")
  case None
  with assms show ?thesis by (simp add: duplicateOperation_def)
next
  case (Some idx)
  let ?ops = "es_operations s"
  let ?read = "normalizeOperation (en_upper env) (en_clock env) (duplicate_source (?ops ! idx)) (ed_next s)"
  obtain r k where r: "?read = (r, k)" by (cases ?read)
  have inv: "operations_inv (en_clock env) (ed_next s) ?ops" using assms(1) by (simp add: editor_inv_def)
  have k: "ed_next s \<le> k" by (rule mono_ids_at [OF mono_operation r])
  show ?thesis
  proof (cases r)
    case (Inl e)
    with r Some assms(1) k show ?thesis by (simp add: duplicateOperation_def inv_crash)
  next
    case (Inr c)
    have "operation_ok (?ops ! idx)"
      using find_index_bound [OF Some] inv by (auto simp: operations_inv_def list_all_iff)
    from normalizeOperation_makes [OF duplicate_source_proper [OF this], of "en_clock env" "en_upper env"] r Inr
    have c: "ed_next s < k" "po_id c = nextLocalId (en_clock env) (ed_next s)" "operation_ok c"
      using makes_result by (metis, metis, metis)
    have k': "k \<le> 2 ^ 53" using assms(2) r Inr Some by (simp add: duplicateOperation_def)
    have "operations_inv (en_clock env) k (insert_at (idx + 1) c ?ops)"
      using inv_new [OF inv c(3,2,1) k'] mset_insert_at by (rule inv_mset)
    then show ?thesis using assms(1) r Inr Some by (simp add: duplicateOperation_def editor_inv_def)
  qed
qed

lemma inv_remove:
  assumes "editor_inv env s"
  shows "editor_inv env (removeOperation env i s)"
proof (cases "length (es_operations s) \<le> 1")
  case True
  with assms show ?thesis by (simp add: removeOperation_def editor_inv_def inv_blank)
next
  case False
  let ?f = "filter (\<lambda>op. po_id op \<noteq> i) (es_operations s)"
  have inv: "operations_inv (en_clock env) (ed_next s) (es_operations s)" using assms by (simp add: editor_inv_def)
  obtain a b xs where ab: "es_operations s = a # b # xs" using False by (cases "es_operations s"; cases "tl (es_operations s)") auto
  then have "po_id a \<noteq> po_id b" using inv by (auto simp: operations_inv_def)
  then have "?f \<noteq> []" using ab by auto
  then have "operations_inv (en_clock env) (ed_next s) ?f"
    using inv map_distinct_filter [of po_id "es_operations s" "\<lambda>op. po_id op \<noteq> i"]
    by (auto simp: operations_inv_def list_all_iff)
  with False assms show ?thesis by (simp add: removeOperation_def editor_inv_def)
qed

lemma inv_add_condition:
  assumes "editor_inv env s"
  shows "editor_inv env (addCondition env i s)"
proof -
  let ?c = "blank_condition (nextLocalId (en_clock env) (ed_next s))"
  let ?s = "set_operation i (\<lambda>op. op\<lparr>po_conditions := po_conditions op @ [?c]\<rparr>) s"
  have "editor_inv env ?s"
    by (rule inv_set_operation [OF assms]) (auto intro!: set_conditions_ok)
  moreover have "ed_next ?s = ed_next s" by (simp add: set_operation_def)
  ultimately show ?thesis
    by (auto simp: addCondition_def Let_def editor_inv_def intro: inv_mono)
qed

lemma inv_update_condition:
  "condition_patch_ok p \<Longrightarrow> editor_inv env s \<Longrightarrow> editor_inv env (updateCondition i c p s)"
  unfolding updateCondition_def
  by (erule inv_set_operation)
    (auto intro!: set_conditions_ok simp: map_id_def list_all_iff patch_condition_ok)

lemma inv_remove_condition: "editor_inv env s \<Longrightarrow> editor_inv env (removeCondition i c s)"
  unfolding removeCondition_def
  by (erule inv_set_operation) (auto intro!: set_conditions_ok simp: list_all_iff)

lemma inv_error_draft:
  "event_ok (UpdateReturnError i p) \<Longrightarrow> editor_inv env s \<Longrightarrow> editor_inv env (updateReturnErrorDraft i p s)"
  unfolding updateReturnErrorDraft_def
proof (erule inv_set_operation, intro conjI)
  fix op assume e: "event_ok (UpdateReturnError i p)" and ok: "operation_ok op"
  have "error_draft_ok (patch_error p (parseReturnErrorDraft (po_value_text op)))"
    using e parse_error_ok [OF value_text_ok [OF ok]] by (simp add: error_draft_ok_def patch_error_def or_old_utf16)
  then show "operation_ok (op\<lparr>po_value_text := buildReturnErrorValueText (patch_error p (parseReturnErrorDraft (po_value_text op)))\<rparr>)"
    using ok by (intro set_value_ok build_error_ok)
qed simp

definition updater_ok :: "prune_updater \<Rightarrow> bool" where
  "updater_ok u \<longleftrightarrow> (\<forall>d n. prune_draft_ok d \<longrightarrow> prune_draft_ok (fst (u d n)))"

lemma updaters_ok:
  "(\<And>d. prune_draft_ok d \<Longrightarrow> prune_draft_ok (f d)) \<Longrightarrow> updater_ok (plain_updater f)" "updater_ok (add_rule clock)"
  by (auto simp: updater_ok_def plain_updater_def add_rule_def prune_draft_ok_def)

lemma prune_operations_ok:
  assumes "updater_ok u"
  shows "list_all operation_ok ops \<Longrightarrow> list_all operation_ok (fst (prune_operations env i u ops n)) \<and>
    map po_id (fst (prune_operations env i u ops n)) = map po_id ops"
proof (induction ops arbitrary: n)
  case (Cons op ops)
  let ?p = "parsePruneObjectsDraft (en_upper env) (en_clock env) (po_value_text op) n"
  have "prune_draft_ok (fst ?p)" using Cons.prems by (intro conjunct2 [OF parse_prune_ok] value_text_ok) simp
  then have "prune_draft_ok (fst (u (fst ?p) (snd ?p)))" using assms by (simp add: updater_ok_def)
  then have "operation_ok (op\<lparr>po_value_text := buildPruneObjectsValueText (en_upper env) (fst (u (fst ?p) (snd ?p)))\<rparr>)"
    using Cons.prems by (intro set_value_ok build_prune_ok) simp_all
  with Cons show ?case by (simp add: Let_def case_prod_unfold)
qed simp

lemma inv_update_prune:
  assumes "editor_inv env s" "updater_ok u" "mono_updater u"
  shows "editor_inv env (updatePruneObjectsDraft env i u s)"
proof -
  let ?r = "prune_operations env i u (es_operations s) (ed_next s)"
  have inv: "operations_inv (en_clock env) (ed_next s) (es_operations s)" using assms(1) by (simp add: editor_inv_def)
  then have r: "list_all operation_ok (fst ?r)" "map po_id (fst ?r) = map po_id (es_operations s)"
    using prune_operations_ok [OF assms(2)] by (simp_all add: operations_inv_def)
  then have "po_id ` set (fst ?r) = po_id ` set (es_operations s)" by (metis list.set_map)
  moreover have "fst ?r \<noteq> []" using r(2) inv by (auto simp: operations_inv_def)
  ultimately have "operations_inv (en_clock env) (ed_next s) (fst ?r)"
    using r inv unfolding operations_inv_def by metis
  then have "operations_inv (en_clock env) (snd ?r) (fst ?r)"
    by (rule inv_mono) (rule mono_prune_operations [OF assms(3)])
  then show ?thesis
    using assms(1) by (simp add: updatePruneObjectsDraft_def editor_inv_def case_prod_unfold Let_def)
qed

section \<open>Order of the operations\<close>

lemma take_nth_drop: "i < length xs \<Longrightarrow> mset (take i xs @ drop (i + 1) xs) + {#xs ! i#} = mset xs"
  by (metis (no_types) Suc_eq_plus1 add_mset_add_single id_take_nth_drop mset.simps(2) mset_append union_mset_add_mset_right)

lemma reorder_mset: "mset (reorderOperations ops a b pos) = mset ops"
proof -
  have "mset (insert_at j (ops ! i) (take i ops @ drop (i + 1) ops)) = mset ops"
    if "find_index P ops = Some i" for i j P
    using take_nth_drop [of i ops] find_index_bound [OF that] by (simp add: mset_insert_at)
  then show ?thesis by (auto simp: reorderOperations_def Let_def split: option.split)
qed

lemma inv_drop: "editor_inv env s \<Longrightarrow> editor_inv env (handleDrop i x s)"
  by (auto simp: editor_inv_def handleDrop_def resetDragState_def Let_def intro: inv_mset [OF _ reorder_mset])

section \<open>Modes, templates, texts\<close>

lemma utf16_pretty: "proper v \<Longrightarrow> utf16 (pretty v)"
  unfolding pretty_def by (rule utf16_print) simp_all

lemma parsed_proper: "utf16 text \<Longrightarrow> json_parse (trim text) = Inr v \<Longrightarrow> proper v"
  using parse_proper [of "trim text" v] utf16_trim [of "text"] by blast

lemma one_bind:
  "ids_bind (one_operation upper clock) f n = f [blank_operation upper (nextLocalId clock n)] (Suc n)"
  by (rule ids_bind_eq [OF one_operation_eq])

lemma initial_inv:
  assumes "utf16 text" "parseInitialState upper clock text n = (Inr st, k)" "k \<le> 2 ^ 53"
  shows "operations_inv clock k (es_operations st) \<and> utf16 (es_legacyValue st) \<and> utf16 (es_jsonText st)"
proof -
  note st = assms(2) [unfolded parseInitialState_def Let_def one_bind]
  have one: "operations_inv clock (Suc n) [blank_operation upper (nextLocalId clock n)]" by (rule inv_blank)
  show ?thesis
  proof (cases "trim text = []")
    case True
    with st one show ?thesis by auto
  next
    case ne: False
    show ?thesis
    proof (cases "json_parse (trim text)")
      case (Inl e)
      with ne st one assms(1) show ?thesis by auto
    next
      case (Inr v)
      have v: "proper v" "utf16 (pretty v)" using parsed_proper [OF assms(1) Inr] utf16_pretty by auto
      show ?thesis
      proof (cases "\<exists>m xs. v = JObj m \<and> get v ''operations'' = Some (JArr xs)")
        case True
        then obtain m xs where m: "v = JObj m" "get v ''operations'' = Some (JArr xs)" by blast
        then have xs: "list_all proper xs" using get_proper [OF v(1) m(2)] by simp
        obtain r j where r: "read_operations upper clock xs n = (r, j)" by (cases "read_operations upper clock xs n")
        from st ne Inr m r obtain ops where ops: "r = Inr ops" "j = k" "es_operations st = ops"
            "es_legacyValue st = []" "es_jsonText st = pretty v"
          by (cases r) (auto simp: ids_bind_def simp del: json_print.simps)
        with read_operations_inv [OF xs r] assms(3) v(2) show ?thesis by simp
      next
        case False
        with st ne Inr one v(2) show ?thesis
          by (cases v) (auto split: option.splits json.splits simp del: json_print.simps)
      qed
    qed
  qed
qed

lemma inv_open:
  assumes "utf16 text" "editor_inv env s" "ed_next (open_dialog env text s) \<le> 2 ^ 53"
  shows "editor_inv env (open_dialog env text s)"
proof -
  let ?r = "parseInitialState (en_upper env) (en_clock env) text (ed_next s)"
  obtain r k where r: "?r = (r, k)" by (cases ?r)
  show ?thesis
  proof (cases r)
    case (Inl e)
    with r assms(2) mono_ids_at [OF mono_initial r] show ?thesis by (simp add: open_dialog_def inv_crash)
  next
    case (Inr st)
    with r assms(3) have "k \<le> 2 ^ 53" by (simp add: open_dialog_def)
    from initial_inv [OF assms(1) _ this] r Inr show ?thesis by (simp add: open_dialog_def editor_inv_def)
  qed
qed

lemma utf16_built:
  assumes "list_all operation_ok ops" "buildOperationsJson ops b t = Inr text"
  shows "utf16 text"
proof (cases "text = []")
  case False
  have "list_all operation_ok (filter (\<lambda>op. \<not> isOperationBlank op) ops)" using assms(1) by (auto simp: list_all_iff)
  with built_text [OF assms(2) False] show ?thesis by (simp add: utf16_pretty proper_operations_json)
qed simp

lemma utf16_visual: "editor_inv env s \<Longrightarrow> buildVisualJson env s = Inr text \<Longrightarrow> utf16 text"
  using parsed_proper [of "es_legacyValue s"] utf16_pretty utf16_built [of "es_operations s" True "en_t env" "text"]
  by (auto simp: buildVisualJson_def Let_def editor_inv_def operations_inv_def
      simp del: proper.simps split: if_splits sum.splits json.splits)

lemma inv_to_json: "editor_inv env s \<Longrightarrow> editor_inv env (switchToJsonMode env s)"
proof -
  assume inv: "editor_inv env s"
  have "utf16 (case buildOperationsJson (es_operations s) False (en_t env) of Inr x \<Rightarrow> x | Inl e \<Rightarrow> [])"
    using inv utf16_built [of "es_operations s" False "en_t env"]
    by (auto simp: editor_inv_def operations_inv_def split: sum.split)
  then show ?thesis
    using inv utf16_visual [OF inv]
    by (auto simp: switchToJsonMode_def editor_inv_def Let_def split: sum.split)
qed

lemma inv_visual_default: "editor_inv env s \<Longrightarrow> editor_inv env (visual_default env s)"
  by (simp add: editor_inv_def visual_default_def Let_def inv_blank)

lemma editor_inv_cong:
  "editor_inv env s \<Longrightarrow> ed_next s' = ed_next s \<Longrightarrow> es_operations s' = es_operations s \<Longrightarrow>
    utf16 (es_legacyValue s') \<Longrightarrow> utf16 (es_jsonText s') \<Longrightarrow> editor_inv env s'"
  by (simp add: editor_inv_def)

lemma inv_to_visual:
  assumes inv: "editor_inv env s" and le: "ed_next (switchToVisualMode env s) \<le> 2 ^ 53"
  shows "editor_inv env (switchToVisualMode env s)"
proof -
  let ?text = "trim (es_jsonText s)"
  have j: "utf16 (es_jsonText s)" using inv by (simp add: editor_inv_def)
  note def = switchToVisualMode_def [of env s, unfolded Let_def]
  note d = inv_visual_default [OF inv]
  show ?thesis
  proof (cases "es_editMode s = VisualEditing \<or> ?text = []")
    case True
    with inv d show ?thesis unfolding def by (auto simp: editor_inv_def visual_default_def Let_def)
  next
    case ne: False
    show ?thesis
    proof (cases "json_parse ?text")
      case (Inl e)
      with ne inv show ?thesis unfolding def by (simp add: editor_inv_def)
    next
      case (Inr v)
      have v: "proper v" "utf16 (pretty v)" using parsed_proper [OF j Inr] utf16_pretty by auto
      show ?thesis
      proof (cases "\<exists>m xs. v = JObj m \<and> get v ''operations'' = Some (JArr xs)")
        case True
        then obtain m xs where m: "v = JObj m" "get v ''operations'' = Some (JArr xs)" by blast
        then have xs: "list_all proper xs" using get_proper [OF v(1) m(2)] by simp
        let ?r = "read_operations (en_upper env) (en_clock env) xs (ed_next s)"
        obtain r k where r: "?r = (r, k)" by (cases ?r)
        have k: "ed_next s \<le> k" by (rule mono_ids_at [OF mono_read r])
        show ?thesis
        proof (cases r)
          case (Inl e)
          with ne Inr m r inv k show ?thesis unfolding def by (simp add: inv_counter)
        next
          case ops: (Inr ops)
          from ne Inr m r ops le have "k \<le> 2 ^ 53" unfolding def by simp
          from read_operations_inv [OF xs r this] ops have "operations_inv (en_clock env) k ops" by simp
          with ne Inr m r ops j show ?thesis unfolding def by (simp add: editor_inv_def)
        qed
      next
        case False
        with ne Inr d inv v(2) show ?thesis
          unfolding def by (cases v) (auto simp: editor_inv_def visual_default_def Let_def split: option.splits json.splits)
      qed
    qed
  qed
qed

lemma preset_proper: "map_of TEMPLATE_PRESET_CONFIG key = Some (kind, p) \<Longrightarrow> proper p"
  using proper_templates by (auto simp: TEMPLATE_PRESET_CONFIG_def split: if_splits)

lemma proper_fold_put:
  "proper (JObj m) \<Longrightarrow> list_all (\<lambda>(k, v). utf16 k \<and> proper v) es \<Longrightarrow> proper (JObj (fold (\<lambda>(k, v). obj_put k v) es m))"
proof (induction es arbitrary: m)
  case (Cons e es)
  obtain k v where e: "e = (k, v)" by (cases e)
  with Cons.prems have "proper (JObj (obj_put k v m))" by (intro proper_put) auto
  from Cons.IH [OF this] Cons.prems e show ?case by (simp del: proper.simps)
qed simp

lemma spread_proper:
  assumes "proper v"
  shows "list_all (\<lambda>(k, v). utf16 k \<and> proper v) (spread_entries v)"
proof -
  have ix: "list_all (\<lambda>(k, v). utf16 k \<and> proper v) (index_entries xs)" if "list_all proper xs" for xs
  proof -
    have "utf16 (dec (int i))" for i by (intro plain_utf16 plain_digits dec_digits) simp
    with that show ?thesis by (auto simp: index_entries_def list_all_iff set_zip)
  qed
  show ?thesis
  proof (cases v)
    case (JStr s)
    have "list_all proper (map (\<lambda>c. JStr [c]) s)" using assms JStr by (auto simp: list_all_iff utf16_set)
    with JStr ix show ?thesis by (simp only: spread_entries_def json.case)
  next
    case (JArr xs)
    with assms ix [of xs] show ?thesis by (simp add: spread_entries_def)
  next
    case (JObj m)
    with assms show ?thesis by (auto simp: spread_entries_def list_all_iff)
  qed (simp_all add: spread_entries_def)
qed

lemma merge_proper: "proper a \<Longrightarrow> proper b \<Longrightarrow> proper (merge_objects a b)"
  unfolding merge_objects_def by (rule proper_fold_put) (simp_all add: spread_proper)

lemma inv_show_legacy: "editor_inv env s \<Longrightarrow> utf16 text \<Longrightarrow> editor_inv env (show_legacy env text s)"
  by (simp add: editor_inv_def show_legacy_def inv_blank)

lemma payload_operations_proper: "proper p \<Longrightarrow> list_all proper (payload_operations p)"
  using get_proper [of p "J ''operations''"]
  by (auto simp: payload_operations_def simp del: J_Cons split: option.split json.split)

lemma kept_ok: "list_all operation_ok ops \<Longrightarrow> list_all operation_ok (filter P ops)"
  by (auto simp: list_all_iff)

lemma fill_operations_inv:
  assumes "operations_inv clock n ops" "list_all proper xs" "xs \<noteq> []"
    and "map_ids (normalizeOperation upper clock) xs n = (Inr new, k)" "k \<le> 2 ^ 53"
  shows "operations_inv clock k new" "operations_inv clock k (filter P ops @ new)"
proof -
  have m: "x \<in> set xs \<Longrightarrow> makes clock po_id operation_ok (normalizeOperation upper clock x)" for x
    using assms(2) by (intro normalizeOperation_makes) (simp add: list_all_iff)
  from map_ids_made [where f = "normalizeOperation upper clock", OF m assms(4,5)]
  have n: "n \<le> k" "list_all operation_ok new" "po_id ` set new \<subseteq> made clock n k" "distinct (map po_id new)"
    "new \<noteq> []"
    using assms(3) by auto
  then show "operations_inv clock k new" by (intro inv_fresh [where n = n])
  show "operations_inv clock k (filter P ops @ new)"
    using n by (intro inv_append [OF assms(1) n(2,3,4,1) assms(5)])
qed

text \<open>Every template of rules has rules.\<close>

lemma preset_rules:
  assumes "map_of TEMPLATE_PRESET_CONFIG key = Some (OperationsTemplate, p)"
  shows "payload_operations p \<noteq> []"
proof -
  have "p \<in> {OPERATION_TEMPLATE, HEADER_PASSTHROUGH_TEMPLATE, GEMINI_IMAGE_4K_TEMPLATE,
      CODEX_CLI_HEADER_PASSTHROUGH_TEMPLATE, CLAUDE_CLI_HEADER_PASSTHROUGH_TEMPLATE,
      AWS_BEDROCK_ANTHROPIC_COMPAT_TEMPLATE}"
    using assms by (auto simp: TEMPLATE_PRESET_CONFIG_def split: if_splits)
  moreover have "payload_operations (obj [(''operations'', JArr (x # xs))]) = x # xs" for x xs
    by (simp add: payload_operations_def obj_def json_optional_def)
  ultimately show ?thesis
    by (auto simp: OPERATION_TEMPLATE_def HEADER_PASSTHROUGH_TEMPLATE_def GEMINI_IMAGE_4K_TEMPLATE_def
        CODEX_CLI_HEADER_PASSTHROUGH_TEMPLATE_def CLAUDE_CLI_HEADER_PASSTHROUGH_TEMPLATE_def
        AWS_BEDROCK_ANTHROPIC_COMPAT_TEMPLATE_def buildPassHeadersTemplate_def)
qed

definition preset_of :: "jsstr \<Rightarrow> template_kind \<times> json" where
  "preset_of key = (case map_of TEMPLATE_PRESET_CONFIG key of
      None \<Rightarrow> (OperationsTemplate, OPERATION_TEMPLATE) | Some c \<Rightarrow> c)"

lemma preset_of_ok:
  assumes "preset_of key = (kind, p)"
  shows "proper p" "kind = OperationsTemplate \<Longrightarrow> payload_operations p \<noteq> []"
proof -
  have o: "map_of TEMPLATE_PRESET_CONFIG (J ''operations_default'') = Some (OperationsTemplate, OPERATION_TEMPLATE)"
    by (simp add: TEMPLATE_PRESET_CONFIG_def)
  show "proper p" using assms preset_proper [of key kind p] preset_proper [OF o]
    by (auto simp: preset_of_def split: option.splits)
  show "kind = OperationsTemplate \<Longrightarrow> payload_operations p \<noteq> []"
    using assms preset_rules [of key p] preset_rules [OF o] by (auto simp: preset_of_def split: option.splits)
qed

lemma inv_fill:
  assumes inv: "editor_inv env s" and le: "ed_next (fillTemplate env mode s) \<le> 2 ^ 53"
  shows "editor_inv env (fillTemplate env mode s)"
proof -
  obtain kind p where p: "preset_of (ed_template s) = (kind, p)" by (cases "preset_of (ed_template s)")
  note def = fillTemplate_def [of env mode s, folded preset_of_def, unfolded p prod.case Let_def]
  note pp = preset_of_ok [OF p]
  have u: "utf16 (es_legacyValue s)" "utf16 (es_jsonText s)" using inv by (simp_all add: editor_inv_def)
  show ?thesis
  proof (cases kind)
    case LegacyTemplate
    have "utf16 (pretty (merge_objects p v))" if "proper v" for v
      using that pp(1) by (intro utf16_pretty merge_proper)
    moreover have "proper v" if "json_parse (trim (es_legacyValue s)) = Inr v" for v
      by (rule parsed_proper [OF u(1) that])
    moreover have "utf16 (pretty p)" using pp(1) by (rule utf16_pretty)
    moreover have "proper (JObj [])" by simp
    ultimately show ?thesis
      using LegacyTemplate inv unfolding def
      by (auto intro!: inv_show_legacy simp del: proper.simps simp: editor_inv_cong [OF inv] u split: sum.split)
  next
    case OperationsTemplate
    let ?xs = "payload_operations p"
    have xs: "list_all proper ?xs" "?xs \<noteq> []" using pp OperationsTemplate payload_operations_proper by auto
    let ?r = "map_ids (normalizeOperation (en_upper env) (en_clock env)) ?xs (ed_next s)"
    obtain r k where r: "?r = (r, k)" by (cases ?r)
    have k: "ed_next s \<le> k"
      by (rule mono_ids_at [OF mono_ids_map [where f = "normalizeOperation (en_upper env) (en_clock env)", OF mono_operation] r])
    have o: "operations_inv (en_clock env) (ed_next s) (es_operations s)" using inv by (simp add: editor_inv_def)
    show ?thesis
    proof (cases r)
      case (Inl e)
      with OperationsTemplate r inv k show ?thesis unfolding def by (simp add: inv_counter)
    next
      case (Inr new)
      have l: "length new = length ?xs" if "k \<le> 2 ^ 53"
        using map_ids_made [where f = "normalizeOperation (en_upper env) (en_clock env)", OF normalizeOperation_makes
            _ that, of ?xs "ed_next s" new] xs r Inr by (auto simp: list_all_iff)
      have k53: "k \<le> 2 ^ 53"
        using le OperationsTemplate r Inr unfolding def by (auto split: if_splits)
      with l xs have ne: "new \<noteq> []" by auto
      note f = fill_operations_inv [OF o xs r [unfolded Inr] k53]
      have pr: "utf16 (pretty (JObj [(J ''operations'', JArr ?xs)]))"
        using xs(1) by (intro utf16_pretty) simp
      show ?thesis
      proof (cases mode)
        case AppendRules
        with OperationsTemplate r Inr f u show ?thesis unfolding def by (simp add: editor_inv_def)
      next
        case FillRules
        with OperationsTemplate r Inr f u ne pr show ?thesis unfolding def by (simp add: editor_inv_def del: J_Cons)
      qed
    qed
  qed
qed

lemma inv_format: "editor_inv env s \<Longrightarrow> editor_inv env (formatJson env s)"
  using parsed_proper [of "es_jsonText s"] utf16_pretty
  by (auto simp: formatJson_def Let_def editor_inv_def split: sum.split)

section \<open>Reachable states\<close>

lemma handle_inv:
  assumes "editor_inv env s" "event_ok e" "ed_next (handle_event env e s) \<le> 2 ^ 53"
  shows "editor_inv env (handle_event env e s)"
proof (cases e)
  case (Rendered b)
  with assms counter_mono [of s env e] show ?thesis
    by (auto simp: rerendered_def split: list.split intro: inv_counter)
next
  case (UpdatePruneDraft i p)
  have "updater_ok (plain_updater (patch_prune p))"
    using assms(2) UpdatePruneDraft by (intro updaters_ok) (simp add: prune_draft_ok_def patch_prune_def or_old_utf16)
  with UpdatePruneDraft assms show ?thesis by (simp add: inv_update_prune)
next
  case (AddPruneRule i)
  with assms show ?thesis by (simp add: addPruneRule_def inv_update_prune updaters_ok)
next
  case (UpdatePruneRule i r p)
  have "updater_ok (plain_updater (\<lambda>d. d\<lparr>pd_rules := map_id oc_id r (patch_condition p) (pd_rules d)\<rparr>))"
    using assms(2) UpdatePruneRule
    by (intro updaters_ok) (auto simp: prune_draft_ok_def map_id_def list_all_iff patch_condition_ok)
  with UpdatePruneRule assms show ?thesis by (simp add: updatePruneRule_def inv_update_prune)
next
  case (RemovePruneRule i r)
  have "updater_ok (plain_updater (\<lambda>d. d\<lparr>pd_rules := filter (\<lambda>c. oc_id c \<noteq> r) (pd_rules d)\<rparr>))"
    by (intro updaters_ok) (auto simp: prune_draft_ok_def list_all_iff)
  with RemovePruneRule assms show ?thesis by (simp add: removePruneRule_def inv_update_prune)
next
  case ResetEditor
  with assms inv_visual_default [of env s] show ?thesis by (simp add: resetEditorState_def editor_inv_def)
next
  case (ExpandAll b)
  with assms show ?thesis by (auto simp: set_expanded_def editor_inv_def split: list.split)
next
  case SaveDialog
  with assms show ?thesis by (auto simp: handleSave_def editor_inv_def split: sum.split)
next
  case (UpdateReturnError i p)
  with assms show ?thesis by (simp add: inv_error_draft del: event_ok.simps)
qed (use assms in \<open>simp_all add: inv_open inv_update inv_add inv_duplicate inv_remove inv_add_condition inv_update_condition
    inv_remove_condition inv_drop inv_to_json inv_to_visual inv_fill inv_format\<close>,
    auto simp: editor_inv_def handleDragStart_def handleDragOver_def resetDragState_def handleJsonChange_def)

lemma step_counter: "ed_next s \<le> ed_next (override_step env e s)"
  by (simp add: override_step_def counter_mono)

lemma step_inv:
  assumes "editor_inv env s" "event_ok e" "ed_next (override_step env e s) \<le> 2 ^ 53"
  shows "editor_inv env (override_step env e s)"
  using assms handle_inv [of env s e] by (auto simp: override_step_def editor_inv_def split: if_splits)

lemma first_inv: "editor_inv env (first_state env)"
  by (simp add: editor_inv_def first_state_def operations_inv_def made_next)

lemma reachable_inv: "editor_reachable env s \<Longrightarrow> ed_next s \<le> 2 ^ 53 \<Longrightarrow> editor_inv env s"
proof (induction rule: editor_reachable.induct)
  case first
  show ?case by (rule first_inv)
next
  case (step s e)
  have "ed_next s \<le> 2 ^ 53" using step_counter [of s env e] step.prems by simp
  with step show ?case by (intro step_inv) auto
qed

end
