(* ===== verification/OverrideProperties.thy ===== *)
theory OverrideProperties
  imports OverrideReach
begin

text \<open>
  The properties of the editor of parameter overrides, over the states the dialog can reach.
\<close>

section \<open>Saving\<close>

definition kept_rules :: "editor \<Rightarrow> override_operation list" where
  "kept_rules s = filter (\<lambda>op. \<not> isOperationBlank op) (es_operations s)"

lemma visual_save:
  "es_editMode s = VisualEditing \<Longrightarrow> es_visualMode s = OperationRules \<Longrightarrow>
    save_result env s = buildOperationsJson (es_operations s) True (en_t env)"
  by (simp add: save_result_def buildVisualJson_def)

lemma reachable_ok: "editor_reachable env s \<Longrightarrow> ed_next s \<le> 2 ^ 53 \<Longrightarrow> list_all operation_ok (es_operations s)"
  using reachable_inv by (simp add: editor_inv_def operations_inv_def)

lemma selection_kept:
  assumes "es_operations s \<noteq> []"
  shows "ed_selected (keep_selection s) \<in> po_id ` set (es_operations s)"
proof (cases "list_ex (\<lambda>op. po_id op = ed_selected s) (es_operations s)")
  case True
  then obtain op where "op \<in> set (es_operations s)" "ed_selected s = po_id op" by (auto simp: list_ex_iff)
  with True assms show ?thesis by (simp add: keep_selection_def)
qed (use assms in \<open>simp add: keep_selection_def\<close>)

lemma reachable_selection:
  "editor_reachable env s \<Longrightarrow> es_operations s \<noteq> [] \<Longrightarrow> ed_selected s \<in> po_id ` set (es_operations s)"
proof (induction rule: editor_reachable.induct)
  case first
  show ?case by (simp add: first_state_def)
next
  case (step s e)
  then show ?case using selection_kept [of "handle_event env e s"] by (simp add: override_step_def split: if_splits)
qed

text \<open>Opening what was saved.\<close>

lemma open_saved:
  assumes "list_all operation_ok (es_operations s)" "es_editMode s = VisualEditing" "es_visualMode s = OperationRules"
    "save_result env s = Inr saved" "saved \<noteq> []"
    and up: "en_upper env (J ''AND'') = J ''AND''" "en_upper env (J ''OR'') \<noteq> J ''AND''"
  obtains s' where "open_dialog env saved s2 = s'" "es_editMode s' = VisualEditing" "es_visualMode s' = OperationRules"
    "es_jsonText s' = saved" "ed_crashed s' = ed_crashed s2"
    "map without_ids (es_operations s') = map saved_operation (kept_rules s)"
proof -
  have b: "buildOperationsJson (es_operations s) True (en_t env) = Inr saved"
    using assms visual_save by simp
  from saved_override_reopens_at [OF assms(1) b assms(5) up, of "en_clock env" "ed_next s2"]
  obtain re k where "parseInitialState (en_upper env) (en_clock env) saved (ed_next s2) =
      (Inr \<lparr>es_editMode = VisualEditing, es_visualMode = OperationRules, es_legacyValue = [],
        es_operations = re, es_jsonText = saved, es_jsonError = []\<rparr>, k)"
    "map without_ids re = map saved_operation (kept_rules s)"
    unfolding kept_rules_def by blast
  then show ?thesis by (intro that [OF refl]) (simp_all add: open_dialog_def)
qed

text \<open>A text that was printed from a parsed value.\<close>

definition printed_json :: "jsstr \<Rightarrow> bool" where
  "printed_json x \<longleftrightarrow> x = [] \<or> (case json_parse x of Inr v \<Rightarrow> pretty v = x | Inl e \<Rightarrow> False)"

definition printed_object :: "jsstr \<Rightarrow> bool" where
  "printed_object x \<longleftrightarrow> x = [] \<or> (case json_parse x of Inr (JObj m) \<Rightarrow> pretty (JObj m) = x | _ \<Rightarrow> False)"

lemma pretty_reads: "proper v \<Longrightarrow> json_parse (pretty v) = Inr (canon v) \<and> pretty (canon v) = pretty v"
  unfolding pretty_def by (simp add: print_reads_canon print_canon del: json_print.simps canon.simps)

lemma printed_pretty: "proper v \<Longrightarrow> printed_json (pretty v)"
  using pretty_reads [of v] by (simp add: printed_json_def)

lemma printed_pretty_object: "proper (JObj m) \<Longrightarrow> printed_object (pretty (JObj m))"
  using pretty_reads [of "JObj m"] by (simp add: printed_object_def)

lemma printed_object_json: "printed_object x \<Longrightarrow> printed_json x"
  by (auto simp: printed_object_def printed_json_def split: sum.splits json.splits)

lemma printed_built:
  assumes "list_all operation_ok ops" "buildOperationsJson ops b t = Inr x"
  shows "printed_object x"
proof (cases "x = []")
  case False
  have "proper (operations_json (filter (\<lambda>op. \<not> isOperationBlank op) ops))"
    by (intro proper_operations_json kept_ok assms(1))
  then show ?thesis
    using built_text(1) [OF assms(2) False] printed_pretty_object by (simp add: operations_json_def)
qed (simp add: printed_object_def)

lemma printed_visual:
  assumes "editor_inv env s" "buildVisualJson env s = Inr x"
  shows "printed_object x"
proof (cases "es_visualMode s = LegacyObject")
  case True
  have "printed_object (pretty (JObj m))" if "json_parse (trim (es_legacyValue s)) = Inr (JObj m)" for m
    using parsed_proper [OF _ that] assms(1) by (intro printed_pretty_object) (simp add: editor_inv_def)
  then show ?thesis
    using assms(2) True
    by (auto simp: buildVisualJson_def Let_def printed_object_def [of "[]"] split: if_splits sum.splits json.splits)
next
  case False
  then show ?thesis
    using assms by (intro printed_built [of "es_operations s" True "en_t env"])
      (auto simp: editor_inv_def operations_inv_def buildVisualJson_def)
qed

lemma printed_save:
  assumes "editor_inv env s" "save_result env s = Inr x"
  shows "printed_json x"
proof (cases "es_editMode s = JsonEditing")
  case True
  have "printed_json (pretty v)" if "json_parse (trim (es_jsonText s)) = Inr v" for v
    using parsed_proper [OF _ that] assms(1) by (intro printed_pretty) (simp add: editor_inv_def)
  then show ?thesis
    using assms(2) True
    by (auto simp: save_result_def Let_def printed_json_def [of "[]"] split: if_splits sum.splits)
next
  case False
  then show ?thesis
    using assms by (intro printed_object_json printed_visual [OF assms(1)]) (simp add: save_result_def)
qed

lemma other_events_save_nothing:
  "e \<noteq> SaveDialog \<Longrightarrow> ed_saved (handle_event env e s) = ed_saved s"
  by (cases e)
    (simp_all add: open_dialog_def rerendered_def updateOperation_def set_operation_def addOperation_def Let_def
      duplicateOperation_def removeOperation_def addCondition_def updateCondition_def removeCondition_def
      updateReturnErrorDraft_def updatePruneObjectsDraft_def addPruneRule_def updatePruneRule_def removePruneRule_def
      handleDragStart_def handleDragOver_def handleDrop_def resetDragState_def switchToJsonMode_def
      switchToVisualMode_def visual_default_def fillTemplate_def show_legacy_def resetEditorState_def handleJsonChange_def
      formatJson_def set_expanded_def
      split: prod.split sum.split option.split list.split json.split)

lemma reachable_saved:
  "editor_reachable env s \<Longrightarrow> ed_next s \<le> 2 ^ 53 \<Longrightarrow> list_all printed_json (ed_saved s)"
proof (induction rule: editor_reachable.induct)
  case first
  show ?case by (simp add: first_state_def)
next
  case (step s e)
  have n: "ed_next s \<le> 2 ^ 53" using step_counter [of s env e] step.prems by simp
  note inv = reachable_inv [OF step.hyps(1) n]
  show ?case
  proof (cases "e = SaveDialog")
    case True
    with step n show ?thesis
      by (auto simp: override_step_def handleSave_def printed_save [OF inv] split: sum.split)
  next
    case False
    with step n show ?thesis by (simp add: override_step_def other_events_save_nothing)
  qed
qed

section \<open>The forms of single modes\<close>

text \<open>The rules of a draft that is read get new ids, so an id the dialog was rendered with is not among them.\<close>

lemma parse_prune_made:
  assumes "k \<le> 2 ^ 53" "parsePruneObjectsDraft upper clock text n = (d, k)" "utf16 text"
  shows "oc_id ` set (pd_rules d) \<subseteq> made clock n k"
proof -
  have e: "oc_id ` set (pd_rules default_prune) \<subseteq> made clock n k"
    "oc_id ` set (pd_rules (default_prune\<lparr>pd_typeText := x\<rparr>)) \<subseteq> made clock n k" for x
    by (simp_all add: default_prune_def)
  show ?thesis
  proof (cases "\<exists>m r. json_parse (trim text) = Inr (JObj m) \<and> prune_fields upper clock (JObj m) n = (Inr r, k) \<and> d = r")
    case False
    with assms(2) e show ?thesis
      by (auto simp: parsePruneObjectsDraft_def Let_def split: if_splits sum.splits json.splits prod.splits)
  next
    case True
    then obtain m where m: "json_parse (trim text) = Inr (JObj m)" "prune_fields upper clock (JObj m) n = (Inr d, k)" by blast
    have v: "proper (JObj m)" by (rule parsed_proper [OF assms(3) m(1)])
    from m(2) have "map_ids (normalizePruneRule clock) (prune_rules (JObj m)) n = (Inr (pd_rules d), k)"
      unfolding prune_fields_def by (auto simp: ids_bind_ok)
    moreover have "x \<in> set (prune_rules (JObj m)) \<Longrightarrow> makes clock oc_id condition_ok (normalizePruneRule clock x)" for x
      using prune_rules_proper [OF v] normalizeCondition_makes by (simp add: normalizePruneRule_eq)
    ultimately show ?thesis
      using map_ids_made [where f = "normalizePruneRule clock" and idf = oc_id, OF _ _ assms(1)] by blast
  qed
qed

lemma prune_step:
  assumes "parsePruneObjectsDraft (en_upper env) (en_clock env) (po_value_text op) n = (d, m)" "po_id op = i"
  shows "prune_operations env i (plain_updater f) (op # ops) n =
    (op\<lparr>po_value_text := buildPruneObjectsValueText (en_upper env) (f d)\<rparr> #
       fst (prune_operations env i (plain_updater f) ops m), snd (prune_operations env i (plain_updater f) ops m))"
  using assms by (simp add: case_prod_unfold Let_def plain_updater_def)

lemma prune_operations_cong:
  assumes "snd (prune_operations env i (plain_updater (\<lambda>d. d)) ops n) \<le> 2 ^ 53" "list_all operation_ok ops"
    and "\<And>d. rid \<notin> oc_id ` set (pd_rules d) \<Longrightarrow> f d = d" "rid \<in> made (en_clock env) 0 n"
  shows "prune_operations env i (plain_updater f) ops n = prune_operations env i (plain_updater (\<lambda>d. d)) ops n"
  using assms
proof (induction ops arbitrary: n)
  case (Cons op ops)
  let ?p = "parsePruneObjectsDraft (en_upper env) (en_clock env) (po_value_text op) n"
  let ?id = "plain_updater (\<lambda>d. d)"
  show ?case
  proof (cases "po_id op = i")
    case False
    with Cons show ?thesis by (simp add: case_prod_unfold Let_def)
  next
    case True
    obtain d m where p: "?p = (d, m)" by (cases ?p)
    have nm: "n \<le> m" using mono_prune [of n "en_upper env" "en_clock env" "po_value_text op"] p by simp
    have le: "snd (prune_operations env i ?id ops m) \<le> 2 ^ 53"
      using Cons.prems(1) unfolding prune_step [OF p True] by (simp only: snd_conv)
    have m: "m \<le> 2 ^ 53" using mono_prune_operations [of ?id m env i ops] le by simp
    have "oc_id ` set (pd_rules d) \<subseteq> made (en_clock env) n m"
      using Cons.prems(2) by (intro parse_prune_made [OF m p] value_text_ok) simp
    then have "rid \<notin> oc_id ` set (pd_rules d)" using made_disjoint [OF m Cons.prems(4)] by blast
    then have "f d = d" by (rule Cons.prems(3))
    moreover have "rid \<in> made (en_clock env) 0 m" using Cons.prems(4) made_mono [of 0 0 n m] nm by blast
    ultimately show ?thesis
      using Cons.IH [OF le _ Cons.prems(3)] Cons.prems(2) unfolding prune_step [OF p True] by simp
  qed
qed simp

lemma map_id_absent: "i \<notin> idf ` set xs \<Longrightarrow> map_id idf i f xs = xs"
  unfolding map_id_def by (intro map_idI) auto

lemma filter_absent: "i \<notin> idf ` set xs \<Longrightarrow> filter (\<lambda>x. idf x \<noteq> i) xs = xs"
  by (intro filter_True) auto

text \<open>A new rule is blank, so it is not written.\<close>

lemma blank_rule_not_written:
  "buildPruneObjectsValueText upper (d\<lparr>pd_simpleMode := False, pd_rules := pd_rules d @ [blank_condition i]\<rparr>) =
    buildPruneObjectsValueText upper (d\<lparr>pd_simpleMode := False\<rparr>)"
  by (simp add: buildPruneObjectsValueText_def prune_payload_def blank_condition_def Let_def)

lemma prune_absent: "i \<notin> po_id ` set ops \<Longrightarrow> prune_operations env i u ops n = (ops, n)"
  by (induction ops arbitrary: n) auto

lemma added_rule_lost:
  "distinct (map po_id ops) \<Longrightarrow> fst (prune_operations env i (add_rule (en_clock env)) ops n) =
    fst (prune_operations env i (plain_updater (\<lambda>d. d\<lparr>pd_simpleMode := False\<rparr>)) ops n)"
proof (induction ops arbitrary: n)
  case (Cons op ops)
  show ?case
  proof (cases "po_id op = i")
    case True
    then have "i \<notin> po_id ` set ops" using Cons.prems by auto
    with True show ?thesis
      by (simp add: case_prod_unfold Let_def prune_absent plain_updater_def add_rule_def blank_rule_not_written)
  next
    case False
    with Cons show ?thesis by (simp add: case_prod_unfold Let_def)
  qed
qed simp

section \<open>Moving a rule\<close>

lemma find_index_split:
  assumes "distinct (map f xs)" "x \<in> set xs"
  obtains us vs where "find_index (\<lambda>y. f y = f x) xs = Some (length us)" "xs = us @ x # vs"
proof -
  obtain us vs where xs: "xs = us @ x # vs" using assms(2) by (meson split_list)
  have "\<forall>y \<in> set us. f y \<noteq> f x" using assms(1) xs by (auto simp: image_iff)
  then have "takeWhile (\<lambda>y. f y \<noteq> f x) xs = us" unfolding xs by (subst takeWhile_append2) auto
  with xs show ?thesis by (intro that) (simp_all add: find_index_def Let_def)
qed

lemma reorder_spec:
  assumes d: "distinct (map po_id ops)" and m: "m \<in> set ops" "target \<in> set ops"
    and ne: "po_id m \<noteq> po_id target" "po_id m \<noteq> []" "po_id target \<noteq> []"
  shows "\<exists>us vs. filter (\<lambda>op. po_id op \<noteq> po_id m) ops = us @ target # vs \<and>
    reorderOperations ops (po_id m) (po_id target) pos = us @ (if pos = After then [target, m] else [m, target]) @ vs"
proof -
  obtain as bs where a: "find_index (\<lambda>op. po_id op = po_id m) ops = Some (length as)" "ops = as @ m # bs"
    by (rule find_index_split [OF d m(1)])
  have rest: "filter (\<lambda>op. po_id op \<noteq> po_id m) ops = as @ bs"
  proof -
    have "\<forall>op \<in> set as \<union> set bs. po_id op \<noteq> po_id m" using d unfolding a(2) by (fastforce simp: image_iff)
    then show ?thesis unfolding a(2) by (simp add: filter_id_conv)
  qed
  have "distinct (map po_id (as @ bs))" "target \<in> set (as @ bs)" using d m(2) ne unfolding a(2) by auto
  then obtain us vs where u: "find_index (\<lambda>op. po_id op = po_id target) (as @ bs) = Some (length us)" "as @ bs = us @ target # vs"
    by (rule find_index_split)
  have "take (length as) ops @ drop (length as + 1) ops = as @ bs" "ops ! length as = m" unfolding a(2) by simp_all
  then have "reorderOperations ops (po_id m) (po_id target) pos =
      insert_at (if pos = After then length us + 1 else length us) m (as @ bs)"
    using ne a(1) u(1) by (simp add: reorderOperations_def)
  also have "\<dots> = us @ (if pos = After then [target, m] else [m, target]) @ vs"
    unfolding u(2) by (simp add: insert_at_def)
  finally show ?thesis using rest u(2) by auto
qed

section \<open>The draft of a custom error\<close>

lemma error_payload_get:
  defines "P \<equiv> \<lambda>d. map_of (error_payload d)"
  shows "P d (J ''message'') = Some (JStr (trim (rd_message d)))"
    "P d (J ''status_code'') = Some (JNum (status_or_400 (rd_statusCode d)))"
    "P d (J ''code'') = (if trim (rd_code d) = [] then None else Some (JStr (trim (rd_code d))))"
    "P d (J ''type'') = (if trim (rd_type d) = [] then None else Some (JStr (trim (rd_type d))))"
    "P d (J ''skip_retry'') = (if rd_skipRetry d then None else Some (JBool False))"
    "P d (J ''msg'') = None"
  unfolding P_def by (simp_all add: error_payload_def Let_def map_of_put_if)

lemma status_fin: "\<exists>q. status_or_400 x = Fin q"
proof (cases "is_integer x \<and> num_le (num 100) x \<and> num_le x (num 599)")
  case True
  then obtain q where "x = Fin q"
    using rnd_of_int [of 100] rnd_of_int [of 599] by (cases x) (auto simp: num_le_def num_eq_def)
  with True show ?thesis by (simp add: status_or_400_def)
next
  case False
  with rnd_of_int [of 400] show ?thesis by (auto simp: status_or_400_def)
qed

lemma status_idem: "status_or_400 (status_or_400 x) = status_or_400 x"
  using rnd_of_int [of 100] rnd_of_int [of 400] rnd_of_int [of 599]
  by (auto simp: status_or_400_def)

lemma error_draft_reads:
  assumes ok: "error_draft_ok d" and adv: "\<not> rd_simpleMode d"
  shows "parseReturnErrorDraft (buildReturnErrorValueText d) =
    d\<lparr>rd_message := trim (rd_message d), rd_statusCode := status_or_400 (rd_statusCode d),
      rd_code := trim (rd_code d), rd_type := trim (rd_type d)\<rparr>"
proof -
  note p = proper_error_payload [OF ok]
  note g = get_canon [OF p]
  let ?v = "canon (JObj (error_payload d))"
  obtain q where q: "status_or_400 (rd_statusCode d) = Fin q" using status_fin by blast
  have s: "status_or_400 (Fin q) = Fin q" using status_idem [of "rd_statusCode d"] q by simp
  have st: "js_Number (if get ?v ''status_code'' \<noteq> None then get ?v ''status_code'' else get ?v ''status'') = Inr (Fin q)"
    unfolding g error_payload_get q by (simp add: js_Number_def)
  have me: "(case truthy (get ?v ''message'') of Some x \<Rightarrow> js_String x | None \<Rightarrow> text_or (get ?v ''msg'') []) = Inr (trim (rd_message d))"
    unfolding g error_payload_get by (simp add: js_String_def text_or_def)
  have co: "text_or (get ?v ''code'') [] = Inr (trim (rd_code d))" "text_or (get ?v ''type'') [] = Inr (trim (rd_type d))"
    unfolding g error_payload_get by (simp_all add: js_String_def text_or_def)
  have sk: "(get ?v ''skip_retry'' \<noteq> Some (JBool False)) = rd_skipRetry d"
    unfolding g error_payload_get by simp
  have f: "error_fields ?v = Inr (d\<lparr>rd_message := trim (rd_message d), rd_statusCode := status_or_400 (rd_statusCode d),
      rd_code := trim (rd_code d), rd_type := trim (rd_type d)\<rparr>)"
    unfolding error_fields_def st me co sk js_bind_Inr q s trim_idem using adv
    by (cases d) simp
  have t: "trim (json_text (JObj (error_payload d))) = json_text (JObj (error_payload d))" using text_trim [OF p] .
  have n: "json_text (JObj (error_payload d)) \<noteq> []" using print_not_Nil [OF p, of "[]"] by (simp add: json_print_text)
  obtain m where m: "?v = JObj m" by simp
  have b: "buildReturnErrorValueText d = json_text (JObj (error_payload d))"
    using adv by (simp add: buildReturnErrorValueText_def del: json_text.simps)
  show ?thesis
    unfolding b parseReturnErrorDraft_def Let_def t text_reads_canon [OF p] if_not_P [OF n]
    using f unfolding m by simp
qed

section \<open>Properties\<close>

text \<open>An environment and a state for the instances: one rule that sets the field \<open>a\<close> to \<open>true\<close>.\<close>

definition demo_env :: override_env where
  "demo_env = \<lparr>en_upper = (\<lambda>s. s), en_clock = (\<lambda>n. Fin 0), en_t = (\<lambda>k l. 33 # k), en_thrown = (\<lambda>e. J ''error'')\<rparr>"

definition demo_patch :: operation_patch where
  "demo_patch = \<lparr>pp_description = None, pp_path = Some (J ''a''), pp_mode = None, pp_from = None, pp_to = None,
     pp_value_text = Some (J ''true''), pp_keep_origin = None, pp_logic = None\<rparr>"

definition demo_id :: jsstr where
  "demo_id = nextLocalId (en_clock demo_env) 0"

definition demo_rule :: override_operation where
  "demo_rule = patch_operation demo_patch (blank_operation (en_upper demo_env) demo_id)"

definition demo_state :: editor where
  "demo_state = override_step demo_env (UpdateOperation demo_id demo_patch) (first_state demo_env)"

lemma demo_laws: "en_upper demo_env (J ''AND'') = J ''AND''" "en_upper demo_env (J ''OR'') \<noteq> J ''AND''"
  "en_t demo_env k l \<noteq> []"
  by (simp_all add: demo_env_def)

lemma demo_rule_eq: "demo_rule = \<lparr>po_id = demo_id, po_description = [], po_path = J ''a'', po_mode = J ''set'',
    po_from = [], po_to = [], po_value_text = J ''true'', po_keep_origin = False, po_logic = J ''OR'', po_conditions = []\<rparr>"
  by (simp add: demo_rule_def patch_operation_def demo_patch_def blank_operation_def or_old_def demo_env_def)

lemma demo_state_eq: "demo_state = (first_state demo_env)\<lparr>es_operations := [demo_rule]\<rparr>"
  by (simp add: demo_state_def override_step_def updateOperation_def set_operation_def map_id_def first_state_def
      demo_id_def [symmetric] demo_rule_def keep_selection_def patch_operation_def)

lemma demo_reachable: "editor_reachable demo_env demo_state" "ed_next demo_state \<le> 2 ^ 53"
proof -
  show "editor_reachable demo_env demo_state"
    unfolding demo_state_def
    by (intro editor_reachable.intros) (simp add: patch_ok_def demo_patch_def or_old_def OPERATION_MODE_VALUES_def OPERATION_MODE_OPTIONS_def)
  show "ed_next demo_state \<le> 2 ^ 53" by (simp add: demo_state_eq first_state_def)
qed

lemma demo_modes: "es_editMode demo_state = VisualEditing" "es_visualMode demo_state = OperationRules"
  "es_operations demo_state = [demo_rule]" "ed_next demo_state = 1"
  by (simp_all add: demo_state_eq first_state_def)

lemma trim_demo [simp]: "trim [97] = [97]" "trim [116, 114, 117, 101] = [116, 114, 117, 101]"
  by (simp_all add: trim_def is_ws_def)

lemma parse_true: "json_parse (J ''true'') = Inr (JBool True)"
  using json_text_reads [of "JBool True"] by simp

lemma demo_loose: "parseLooseValue (J ''true'') = JBool True"
  using parse_true by (simp add: parseLooseValue_def)

lemma demo_complete: "rule_complete demo_rule" "\<not> isOperationBlank demo_rule" "settled_operation demo_rule"
proof -
  show "rule_complete demo_rule" by (simp add: rule_complete_def demo_rule_eq)
  then show "\<not> isOperationBlank demo_rule" by (rule complete_not_blank)
  have "settled_text (J ''true'')" unfolding settled_text_def demo_loose by simp
  then show "settled_operation demo_rule" by (simp add: settled_operation_def demo_rule_eq)
qed

lemma demo_saves: "save_result demo_env demo_state = Inr (pretty (operations_json [demo_rule]))"
    "pretty (operations_json [demo_rule]) \<noteq> []"
proof -
  have ok: "list_all operation_ok [demo_rule]" using reachable_ok [OF demo_reachable] demo_modes by simp
  show "save_result demo_env demo_state = Inr (pretty (operations_json [demo_rule]))"
    unfolding visual_save [OF demo_modes(1,2)] demo_modes(3) using built_iff [OF ok demo_laws(3)] demo_complete by simp
  show "pretty (operations_json [demo_rule]) \<noteq> []"
    unfolding pretty_def using print_not_Nil [OF proper_operations_json [OF ok]] .
qed

text \<open>C2. In every state the dialog can reach there is a rule, the ids of the rules are distinct, the selected rule
  is one of them, and every rule has a known mode and texts of code units.\<close>

theorem reachable_rules:
  assumes "editor_reachable env s" "ed_next s \<le> 2 ^ 53"
  shows "es_operations s \<noteq> [] \<and> distinct (map po_id (es_operations s)) \<and>
    ed_selected s \<in> po_id ` set (es_operations s) \<and> list_all operation_ok (es_operations s)"
  using reachable_inv [OF assms] reachable_selection [OF assms(1)]
  by (simp add: editor_inv_def operations_inv_def)

theorem reachable_rules_witness: "ed_selected demo_state \<in> po_id ` set (es_operations demo_state)"
  using reachable_rules [OF demo_reachable] by blast

text \<open>C1. Rules that were saved and are opened again, in whatever state the dialog then is, are the rules that were
  kept, each as its saved form says: trimmed, without the fields its mode does not use, its value as it
  is read from the JSON text. The text shown is the one that was saved.\<close>

theorem saved_rules_reopen:
  assumes "editor_reachable env s" "ed_next s \<le> 2 ^ 53" "es_editMode s = VisualEditing" "es_visualMode s = OperationRules"
    "save_result env s = Inr saved" "saved \<noteq> []"
    "en_upper env (J ''AND'') = J ''AND''" "en_upper env (J ''OR'') \<noteq> J ''AND''"
  shows "map without_ids (es_operations (open_dialog env saved s2)) = map saved_operation (kept_rules s) \<and>
    es_visualMode (open_dialog env saved s2) = OperationRules \<and> es_editMode (open_dialog env saved s2) = VisualEditing \<and>
    es_jsonText (open_dialog env saved s2) = saved \<and> ed_crashed (open_dialog env saved s2) = ed_crashed s2"
  by (rule open_saved [OF reachable_ok [OF assms(1,2)] assms(3-8), of s2]) simp

theorem saved_rules_reopen_witness:
  "map without_ids (es_operations (open_dialog demo_env (pretty (operations_json [demo_rule])) demo_state)) =
    [demo_rule\<lparr>po_id := []\<rparr>]"
proof -
  have "map without_ids (es_operations (open_dialog demo_env (pretty (operations_json [demo_rule])) demo_state)) =
      map saved_operation (kept_rules demo_state)"
    using saved_rules_reopen [OF demo_reachable demo_modes(1,2) demo_saves demo_laws(1,2)] by blast
  moreover have "saved_text (J ''true'') = J ''true''" unfolding saved_text_def demo_loose by (simp add: toValueText_def)
  then have "saved_operation demo_rule = demo_rule\<lparr>po_id := []\<rparr>"
    by (simp add: saved_operation_def demo_rule_eq mode_of_def Let_def mode_tables)
  ultimately show ?thesis using demo_complete by (simp add: kept_rules_def demo_modes)
qed

text \<open>C14. When no value is a string in quotes, a number that is written otherwise or an object whose keys are
  listed in another order, opening what was saved and saving it again gives the same text.\<close>

theorem saved_rules_stable:
  assumes "editor_reachable env s" "ed_next s \<le> 2 ^ 53" "es_editMode s = VisualEditing" "es_visualMode s = OperationRules"
    "save_result env s = Inr saved" "saved \<noteq> []"
    "en_upper env (J ''AND'') = J ''AND''" "en_upper env (J ''OR'') \<noteq> J ''AND''"
    and "\<And>k l. en_t env k l \<noteq> []" "list_all settled_operation (es_operations s)"
  shows "save_result env (open_dialog env saved s2) = Inr saved"
proof (rule open_saved [OF reachable_ok [OF assms(1,2)] assms(3-8), of s2])
  fix s' assume o: "open_dialog env saved s2 = s'" "es_editMode s' = VisualEditing" "es_visualMode s' = OperationRules"
    "map without_ids (es_operations s') = map saved_operation (kept_rules s)"
  have "buildOperationsJson (es_operations s) True (en_t env) = Inr saved" using assms(3-5) visual_save by simp
  from saved_again [OF reachable_ok [OF assms(1,2)] assms(10,9) this assms(6)] o
  show ?thesis by (simp add: kept_rules_def visual_save)
qed

theorem saved_rules_stable_witness:
  "save_result demo_env (open_dialog demo_env (pretty (operations_json [demo_rule])) demo_state) =
    Inr (pretty (operations_json [demo_rule]))"
  by (rule saved_rules_stable [OF demo_reachable demo_modes(1,2) demo_saves demo_laws])
    (simp add: demo_modes demo_complete)

text \<open>C8. Whatever is handed to onSave is empty or a JSON text, printed from the value that it reads as. Without the
  JSON mode that value is an object.\<close>

theorem saved_texts_are_json:
  assumes "editor_reachable env s" "ed_next s \<le> 2 ^ 53"
  shows "list_all printed_json (ed_saved s) \<and>
    (es_editMode s = VisualEditing \<longrightarrow> (case save_result env s of Inr x \<Rightarrow> printed_object x | Inl e \<Rightarrow> True))"
proof -
  note inv = reachable_inv [OF assms]
  have "printed_object x" if "es_editMode s = VisualEditing" "save_result env s = Inr x" for x
    using that by (intro printed_visual [OF inv]) (simp add: save_result_def)
  with reachable_saved [OF assms] show ?thesis by (auto split: sum.split)
qed

lemma demo_saved_reachable:
  "editor_reachable demo_env (override_step demo_env SaveDialog demo_state)"
  "ed_next (override_step demo_env SaveDialog demo_state) \<le> 2 ^ 53"
  "ed_saved (override_step demo_env SaveDialog demo_state) = [pretty (operations_json [demo_rule])]"
proof -
  show "editor_reachable demo_env (override_step demo_env SaveDialog demo_state)"
    by (rule editor_reachable.step [OF demo_reachable(1)]) simp
  have "\<not> ed_crashed demo_state" "ed_saved demo_state = []" by (simp_all add: demo_state_eq first_state_def)
  then show "ed_next (override_step demo_env SaveDialog demo_state) \<le> 2 ^ 53"
    "ed_saved (override_step demo_env SaveDialog demo_state) = [pretty (operations_json [demo_rule])]"
    by (simp_all add: override_step_def handleSave_def demo_saves demo_modes)
qed

theorem saved_texts_are_json_witness: "printed_json (pretty (operations_json [demo_rule]))"
  using saved_texts_are_json [OF demo_saved_reachable(1,2)] unfolding demo_saved_reachable(3) by simp

text \<open>C13. Saving the rules succeeds exactly when every rule that is not blank is complete. Otherwise nothing is saved
  and the message is about the first rule that is not, under its number among those; only the header
  names of a pass_headers rule can throw instead.\<close>

theorem save_checks_rules:
  assumes "editor_reachable env s" "ed_next s \<le> 2 ^ 53" "es_editMode s = VisualEditing" "es_visualMode s = OperationRules"
    "\<And>k l. en_t env k l \<noteq> []"
  shows "(list_all rule_complete (kept_rules s) \<longleftrightarrow> (\<exists>saved. save_result env s = Inr saved)) \<and>
    (\<forall>good bad rest. kept_rules s = good @ bad # rest \<longrightarrow> list_all rule_complete good \<longrightarrow> \<not> rule_complete bad \<longrightarrow>
      (\<exists>key. save_result env s = Inl (Message (en_t env key (Some (length good + 1))))) \<or>
      po_mode bad = J ''pass_headers'' \<and> (\<exists>e. save_result env s = Inl (Thrown e)))"
proof -
  have ok: "list_all operation_ok (es_operations s)" by (rule reachable_ok [OF assms(1,2)])
  then have kok: "list_all operation_ok (kept_rules s)" by (simp add: kept_rules_def kept_ok)
  have 1: "list_all rule_complete (kept_rules s) \<longleftrightarrow> (\<exists>saved. save_result env s = Inr saved)"
    unfolding visual_save [OF assms(3,4)] built_iff [OF ok assms(5)] by (simp add: Let_def kept_rules_def)
  have 2: "(\<exists>key. save_result env s = Inl (Message (en_t env key (Some (length good + 1))))) \<or>
      po_mode bad = J ''pass_headers'' \<and> (\<exists>e. save_result env s = Inl (Thrown e))"
    if k: "kept_rules s = good @ bad # rest" and g: "list_all rule_complete good" and b: "\<not> rule_complete bad"
    for good bad rest
  proof -
    have m: "po_mode op \<in> set OPERATION_MODE_VALUES" if "op \<in> set (kept_rules s)" for op
      using kok that by (auto simp: list_all_iff operation_ok_def)
    have gp: "list_all (\<lambda>op. operation_problem op = Inr None) good"
      using g m k by (auto simp: list_all_iff complete_iff)
    have bm: "po_mode bad \<in> set OPERATION_MODE_VALUES" using m k by simp
    then have bp: "operation_problem bad \<noteq> Inr None" using b by (simp add: complete_iff)
    have v: "validateOperations (en_t env) (kept_rules s) =
        js_bind (operation_problem bad) (\<lambda>p. Inr (en_t env (the p) (Some (length good + 1))))"
      unfolding validateOperations_def k validate_bad [OF gp bp] by simp
    have sv: "save_result env s = (case validateOperations (en_t env) (kept_rules s) of
        Inl e \<Rightarrow> Inl (Thrown e) | Inr x \<Rightarrow> if x \<noteq> [] then Inl (Message x) else Inr (pretty (operations_json (kept_rules s))))"
      unfolding visual_save [OF assms(3,4)] buildOperationsJson_def Let_def if_True kept_rules_def [symmetric] k by simp
    show ?thesis
    proof (cases "operation_problem bad")
      case (Inr p)
      then show ?thesis using assms(5) unfolding sv v by auto
    next
      case (Inl e)
      then have "po_mode bad = J ''pass_headers''"
        using mode_of_ok [OF bm] by (auto simp: operation_problem_def Let_def split: if_splits)
      with Inl show ?thesis unfolding sv v by simp
    qed
  qed
  from 1 2 show ?thesis by blast
qed

theorem save_checks_rules_witness: "\<exists>saved. save_result demo_env demo_state = Inr saved"
  using save_checks_rules [OF demo_reachable demo_modes(1,2) demo_laws(3)] demo_complete
  by (simp add: kept_rules_def demo_modes)

text \<open>C34. The JSON mode accepts a list of rules with a null in it, and opening the text it saves takes the page down:
  reading the null throws a TypeError that nothing catches.\<close>

theorem null_rule_crashes:
  assumes "JNull \<in> set xs" "list_all proper xs" "es_editMode s = JsonEditing"
    "es_jsonText s = pretty (JObj [(J ''operations'', JArr xs)])"
  shows "save_result env s = Inr (es_jsonText s) \<and> ed_crashed (open_dialog env (es_jsonText s) s2)"
proof -
  let ?v = "JObj [(J ''operations'', JArr xs)]"
  have p: "proper ?v" using assms(2) by simp
  have tr: "trim (pretty ?v) = pretty ?v" "pretty ?v \<noteq> []"
    unfolding pretty_def using print_trim [OF p] print_not_Nil [OF p] by (simp_all del: json_print.simps)
  note r = pretty_reads [OF p]
  have "save_result env s = Inr (es_jsonText s)"
    using tr r assms(3) unfolding assms(4) save_result_def by (simp add: assms(4) del: canon.simps)
  moreover have "ed_crashed (open_dialog env (es_jsonText s) s2)"
  proof -
    have ix: "\<not> is_index (J ''operations'')" by (simp add: is_index_def is_digit_def)
    then have "own_entries [(J ''operations'', w)] = [(J ''operations'', w)]" for w :: json
      by (intro own_entries_names) simp
    then have c: "canon ?v = JObj [(J ''operations'', JArr (map canon xs))]" by simp
    have null: "\<exists>e k. map_ids (normalizeOperation u cl) ys n = (Inl e, k)" if "JNull \<in> set ys" for u cl ys n
      using that
    proof (induction ys arbitrary: n)
      case (Cons y ys)
      show ?case
      proof (cases "normalizeOperation u cl y n")
        case (Pair q k)
        show ?thesis
        proof (cases q)
          case (Inl e)
          with Pair show ?thesis by (simp add: ids_bind_def)
        next
          case (Inr op)
          then have "y \<noteq> JNull" using Pair by (auto simp: normalizeOperation_def ids_bind_def fresh_def)
          with Cons.prems have "JNull \<in> set ys" by auto
          from Cons.IH [OF this, of k] obtain e j where "map_ids (normalizeOperation u cl) ys k = (Inl e, j)" by blast
          with Pair Inr show ?thesis by (simp add: ids_bind_def)
        qed
      qed
    qed simp
    have "canon JNull \<in> set (map canon xs)" using assms(1) unfolding set_map by (rule imageI)
    then have m: "JNull \<in> set (map canon xs)" by simp
    obtain e k where "map_ids (normalizeOperation (en_upper env) (en_clock env)) (map canon xs) (ed_next s2) = (Inl e, k)"
      using null [OF m, of "en_upper env" "en_clock env" "ed_next s2"] by blast
    then have "read_operations (en_upper env) (en_clock env) (map canon xs) (ed_next s2) = (Inl e, k)"
      using assms(1) by (auto simp: read_operations_def)
    then have "parseInitialState (en_upper env) (en_clock env) (pretty ?v) (ed_next s2) = (Inl e, k)"
      unfolding parseInitialState_def Let_def tr(1) if_not_P [OF tr(2)]
      using r c by (simp add: json_optional_def ids_bind_def del: canon.simps)
    then show ?thesis unfolding assms(4) by (simp add: open_dialog_def)
  qed
  ultimately show ?thesis ..
qed

theorem null_rule_crashes_witness:
  "ed_crashed (open_dialog demo_env (pretty (JObj [(J ''operations'', JArr [JNull])])) demo_state)"
  using null_rule_crashes [of "[JNull]" "demo_state\<lparr>es_editMode := JsonEditing,
    es_jsonText := pretty (JObj [(J ''operations'', JArr [JNull])])\<rparr>" demo_env demo_state]
  by (simp del: J_Cons)

text \<open>C7. Nothing that is done to a single rule of prune_objects has an effect: the draft is read again from the
  text and its rules get new ids, so no rule has the id the form knows, and a rule that is added is
  blank and not written.\<close>

theorem prune_rule_edits_lost:
  assumes "editor_reachable env s" "rid \<in> made (en_clock env) 0 (ed_next s)"
    "ed_next (updatePruneObjectsDraft env i (plain_updater (\<lambda>d. d)) s) \<le> 2 ^ 53"
  shows "updatePruneRule env i rid p s = updatePruneObjectsDraft env i (plain_updater (\<lambda>d. d)) s \<and>
    removePruneRule env i rid s = updatePruneObjectsDraft env i (plain_updater (\<lambda>d. d)) s \<and>
    es_operations (addPruneRule env i s) =
      es_operations (updatePruneObjectsDraft env i (plain_updater (\<lambda>d. d\<lparr>pd_simpleMode := False\<rparr>)) s)"
proof -
  have n53: "ed_next s \<le> 2 ^ 53"
    using mono_update_prune [of "plain_updater (\<lambda>d. d)" s env i] assms(3) by simp
  then have inv: "operations_inv (en_clock env) (ed_next s) (es_operations s)"
    using reachable_inv [OF assms(1)] by (simp add: editor_inv_def)
  have le: "snd (prune_operations env i (plain_updater (\<lambda>d. d)) (es_operations s) (ed_next s)) \<le> 2 ^ 53"
    using assms(3) by (simp add: updatePruneObjectsDraft_def case_prod_unfold Let_def)
  have ok: "list_all operation_ok (es_operations s)" using inv by (simp add: operations_inv_def)
  note eq = prune_operations_cong [OF le ok _ assms(2)]
  have "prune_operations env i (plain_updater (\<lambda>d. d\<lparr>pd_rules := map_id oc_id rid (patch_condition p) (pd_rules d)\<rparr>))
      (es_operations s) (ed_next s) = prune_operations env i (plain_updater (\<lambda>d. d)) (es_operations s) (ed_next s)"
    by (rule eq) (simp add: map_id_absent)
  then have "updatePruneRule env i rid p s = updatePruneObjectsDraft env i (plain_updater (\<lambda>d. d)) s"
    unfolding updatePruneRule_def updatePruneObjectsDraft_def by (simp only:)
  moreover have "prune_operations env i (plain_updater (\<lambda>d. d\<lparr>pd_rules := filter (\<lambda>r. oc_id r \<noteq> rid) (pd_rules d)\<rparr>))
      (es_operations s) (ed_next s) = prune_operations env i (plain_updater (\<lambda>d. d)) (es_operations s) (ed_next s)"
    by (rule eq) (simp add: filter_absent)
  then have "removePruneRule env i rid s = updatePruneObjectsDraft env i (plain_updater (\<lambda>d. d)) s"
    unfolding removePruneRule_def updatePruneObjectsDraft_def by (simp only:)
  moreover have "es_operations (addPruneRule env i s) =
      es_operations (updatePruneObjectsDraft env i (plain_updater (\<lambda>d. d\<lparr>pd_simpleMode := False\<rparr>)) s)"
    using inv added_rule_lost [of "es_operations s" env i "ed_next s"]
    by (simp add: addPruneRule_def updatePruneObjectsDraft_def operations_inv_def case_prod_unfold Let_def)
  ultimately show ?thesis by blast
qed

text \<open>An instance: the rule has the object text \<open>{"conditions":[{"path":"a"}]}\<close>, and the dialog was rendered.\<close>

definition prune_value :: json where
  "prune_value = JObj [(J ''conditions'', JArr [JObj [(J ''path'', JStr (J ''a''))]])]"

definition prune_rule_patch :: operation_patch where
  "prune_rule_patch = demo_patch\<lparr>pp_mode := Some (J ''prune_objects''), pp_value_text := Some (json_text prune_value)\<rparr>"

definition prune_rule :: override_operation where
  "prune_rule = patch_operation prune_rule_patch (blank_operation (en_upper demo_env) demo_id)"

definition prune_state :: editor where
  "prune_state = override_step demo_env (Rendered True)
     (override_step demo_env (UpdateOperation demo_id prune_rule_patch) (first_state demo_env))"

lemma prune_value_ok: "writable prune_value" "proper prune_value"
proof -
  have k: "\<not> is_index (J ''conditions'')" "\<not> is_index (J ''path'')" by (simp_all add: is_index_def is_digit_def)
  have "own_entries [(J ''conditions'', v)] = [(J ''conditions'', v)]" "own_entries [(J ''path'', v)] = [(J ''path'', v)]" for v :: json
    using k by (intro own_entries_names, simp)+
  then show "writable prune_value" by (simp add: prune_value_def)
  then show "proper prune_value" by (rule writable_proper)
qed

lemma parse_prune_value:
  "parsePruneObjectsDraft upper clock (json_text prune_value) n =
    (fst (parsePruneObjectsDraft upper clock (json_text prune_value) n), Suc n)"
proof -
  have t: "trim (json_text prune_value) = json_text prune_value" "json_text prune_value \<noteq> []"
    using text_trim [OF prune_value_ok(2)] text_not_Nil [OF prune_value_ok(1)] .
  have g: "json_optional (Some prune_value) k = (if k = J ''conditions'' then Some (JArr [JObj [(J ''path'', JStr (J ''a''))]]) else None)" for k
    by (simp add: prune_value_def json_optional_def)
  have r: "prune_rules prune_value = [JObj [(J ''path'', JStr (J ''a''))]]"
    unfolding prune_rules_def g by simp
  have "snd (prune_fields upper clock prune_value n) = Suc n"
    unfolding prune_fields_def r g
    by (simp add: normalizePruneRule_def ids_bind_def fresh_def text_or_def)
  moreover obtain m where m: "prune_value = JObj m" by (simp add: prune_value_def)
  ultimately obtain q where q: "prune_fields upper clock (JObj m) n = (q, Suc n)"
    by (metis prod.collapse)
  have "snd (parsePruneObjectsDraft upper clock (json_text prune_value) n) = Suc n"
    unfolding parsePruneObjectsDraft_def Let_def t(1) if_not_P [OF t(2)] json_text_reads [OF prune_value_ok(1)]
    unfolding m sum.case json.case q by (simp split: sum.split)
  then show ?thesis by (simp add: prod_eq_iff)
qed

lemma prune_rule_fields: "po_id prune_rule = demo_id" "po_mode prune_rule = J ''prune_objects''"
  "po_value_text prune_rule = json_text prune_value"
  by (simp_all add: prune_rule_def prune_rule_patch_def demo_patch_def patch_operation_def or_old_def del: json_text.simps J_Cons)

lemma prune_state_eq: "prune_state = (first_state demo_env)\<lparr>es_operations := [prune_rule], ed_next := 3\<rparr>"
proof -
  let ?s = "(first_state demo_env)\<lparr>es_operations := [prune_rule]\<rparr>"
  have 1: "override_step demo_env (UpdateOperation demo_id prune_rule_patch) (first_state demo_env) = ?s"
    by (simp add: override_step_def updateOperation_def set_operation_def map_id_def first_state_def
        demo_id_def [symmetric] prune_rule_def keep_selection_def patch_operation_def)
  have sel: "ed_selected ?s = demo_id" "es_operations ?s = [prune_rule]" "ed_next ?s = 1" "\<not> ed_crashed ?s"
    by (simp_all add: first_state_def demo_id_def)
  have "snd (parsePruneObjectsDraft (en_upper demo_env) (en_clock demo_env) (json_text prune_value) (Suc 1)) = 3"
    using parse_prune_value [of "en_upper demo_env" "en_clock demo_env" "Suc 1"] by (metis One_nat_def Suc_1 numeral_3_eq_3 snd_conv)
  then have "rerendered demo_env True ?s = ?s\<lparr>ed_next := 3\<rparr>"
    unfolding rerendered_def sel by (simp add: prune_rule_fields del: json_text.simps J_Cons)
  then show ?thesis
    unfolding prune_state_def 1 unfolding override_step_def using sel by (simp add: keep_selection_def prune_rule_fields)
qed

theorem prune_rule_edits_lost_witness:
  "removePruneRule demo_env demo_id (nextLocalId (en_clock demo_env) 2) prune_state =
    updatePruneObjectsDraft demo_env demo_id (plain_updater (\<lambda>d. d)) prune_state"
proof -
  have r: "editor_reachable demo_env prune_state"
    unfolding prune_state_def
    by (intro editor_reachable.intros)
      (simp_all add: patch_ok_def prune_rule_patch_def demo_patch_def or_old_def utf16_text prune_value_ok
        OPERATION_MODE_VALUES_def OPERATION_MODE_OPTIONS_def del: json_text.simps)
  have n: "ed_next prune_state = 3" "es_operations prune_state = [prune_rule]" by (simp_all add: prune_state_eq)
  have "nextLocalId (en_clock demo_env) 2 \<in> made (en_clock demo_env) 0 (ed_next prune_state)"
    unfolding n by (rule made_next) simp_all
  moreover have "ed_next (updatePruneObjectsDraft demo_env demo_id (plain_updater (\<lambda>d. d)) prune_state) \<le> 2 ^ 53"
  proof -
    obtain d where "parsePruneObjectsDraft (en_upper demo_env) (en_clock demo_env) (po_value_text prune_rule) 3 = (d, Suc 3)"
      unfolding prune_rule_fields using parse_prune_value by blast
    from prune_step [OF this prune_rule_fields(1)]
    have "snd (prune_operations demo_env demo_id (plain_updater (\<lambda>d. d)) [prune_rule] 3) = Suc 3" by simp
    then show ?thesis unfolding updatePruneObjectsDraft_def n Let_def case_prod_unfold by simp
  qed
  ultimately show ?thesis using prune_rule_edits_lost [OF r] by blast
qed

text \<open>C35. A rule that is dropped on another one is put right before or after it; the other rules keep their order,
  and the rule that was moved is selected.\<close>

theorem dropped_rule_moves:
  assumes "editor_reachable env s" "ed_next s \<le> 2 ^ 53" "m \<in> set (es_operations s)" "target \<in> set (es_operations s)"
    "po_id m \<noteq> po_id target" "ed_dragged s = po_id m"
  shows "\<exists>us vs. filter (\<lambda>op. po_id op \<noteq> po_id m) (es_operations s) = us @ target # vs \<and>
    es_operations (handleDrop (po_id target) x s) = us @
      (if ed_dragOver s = po_id target \<and> ed_dragPosition s = After then [target, m] else [m, target]) @ vs \<and>
    ed_selected (handleDrop (po_id target) x s) = po_id m"
proof -
  have inv: "operations_inv (en_clock env) (ed_next s) (es_operations s)"
    using reachable_inv [OF assms(1,2)] by (simp add: editor_inv_def)
  have "i \<in> made (en_clock env) 0 n \<Longrightarrow> i \<noteq> []" for i n by (auto simp: made_def nextLocalId_def)
  then have ne: "po_id m \<noteq> []" "po_id target \<noteq> []" using inv assms(3,4) by (auto simp: operations_inv_def)
  let ?pos = "if ed_dragOver s = po_id target then ed_dragPosition s else Before"
  have h: "handleDrop (po_id target) x s = resetDragState (s\<lparr>es_operations :=
      reorderOperations (es_operations s) (po_id m) (po_id target) ?pos, ed_selected := po_id m\<rparr>)"
    using ne assms(5,6) by (simp add: handleDrop_def Let_def)
  have dist: "distinct (map po_id (es_operations s))" using inv by (simp add: operations_inv_def)
  obtain us vs where "filter (\<lambda>op. po_id op \<noteq> po_id m) (es_operations s) = us @ target # vs"
    "reorderOperations (es_operations s) (po_id m) (po_id target) ?pos =
      us @ (if ?pos = After then [target, m] else [m, target]) @ vs"
    using reorder_spec [OF dist assms(3,4,5) ne, of ?pos] by blast
  then show ?thesis unfolding h by (intro exI [of _ us] exI [of _ vs]) (simp add: resetDragState_def)
qed

text \<open>An instance: a second rule is added and dragged onto the first.\<close>

definition second_rule :: override_operation where
  "second_rule = blank_operation (en_upper demo_env) (nextLocalId (en_clock demo_env) 1)"

definition drag_state :: editor where
  "drag_state = override_step demo_env (DragStart (po_id second_rule)) (override_step demo_env AddOperation demo_state)"

lemma second_id: "po_id second_rule \<noteq> demo_id"
  using nextLocalId_inj [of 1 0 "en_clock demo_env" "en_clock demo_env"] by (auto simp: second_rule_def demo_id_def)

lemma drag_state_eq: "es_operations drag_state = [demo_rule, second_rule]" "ed_dragged drag_state = po_id second_rule"
  "ed_dragOver drag_state = []" "ed_next drag_state = 2"
  by (simp_all add: drag_state_def override_step_def addOperation_def handleDragStart_def keep_selection_def demo_state_eq
      first_state_def second_rule_def Let_def)

theorem dropped_rule_moves_witness:
  "es_operations (handleDrop demo_id [] drag_state) = [second_rule, demo_rule]"
proof -
  have r: "editor_reachable demo_env drag_state"
    unfolding drag_state_def by (intro editor_reachable.step demo_reachable) simp_all
  have d: "po_id demo_rule = demo_id" "demo_id \<noteq> []" by (simp_all add: demo_rule_eq demo_id_def nextLocalId_def)
  have "ed_next drag_state \<le> 2 ^ 53" "second_rule \<in> set (es_operations drag_state)" "demo_rule \<in> set (es_operations drag_state)"
    "po_id second_rule \<noteq> po_id demo_rule"
    using second_id d by (simp_all add: drag_state_eq)
  from dropped_rule_moves [OF r this drag_state_eq(2), of "[]"] show ?thesis
    using second_id d by (auto simp: drag_state_eq Cons_eq_append_conv)
qed

text \<open>C36. The draft of a custom error is read back from its text with its fields trimmed and a status other than 100
  to 599 replaced by 400; in simple mode everything but the message is reset.\<close>

theorem error_draft_round_trip:
  assumes "error_draft_ok d"
    and "rd_simpleMode d \<Longrightarrow> (case json_parse (trim (rd_message d)) of Inr (JObj m) \<Rightarrow> False | _ \<Rightarrow> True)"
  shows "parseReturnErrorDraft (buildReturnErrorValueText d) =
    (if rd_simpleMode d then default_error\<lparr>rd_message := trim (rd_message d)\<rparr>
     else d\<lparr>rd_message := trim (rd_message d), rd_statusCode := status_or_400 (rd_statusCode d),
       rd_code := trim (rd_code d), rd_type := trim (rd_type d)\<rparr>)"
proof (cases "rd_simpleMode d")
  case True
  with assms(2) have "(case json_parse (trim (rd_message d)) of Inr (JObj m) \<Rightarrow> False | _ \<Rightarrow> True)" by simp
  with True show ?thesis
    by (auto simp: buildReturnErrorValueText_def parseReturnErrorDraft_def Let_def default_error_def
        split: sum.splits json.splits)
next
  case False
  then show ?thesis using error_draft_reads [OF assms(1)] by simp
qed

definition demo_error :: return_error_draft where
  "demo_error = \<lparr>rd_message = J ''not '', rd_statusCode = Fin 4, rd_code = [], rd_type = [], rd_skipRetry = False,
     rd_simpleMode = False\<rparr>"

text \<open>A space that is typed at the end of the message, and the first digit of a status, are lost at once.\<close>

theorem error_draft_round_trip_witness:
  "parseReturnErrorDraft (buildReturnErrorValueText demo_error) = demo_error\<lparr>rd_message := J ''not'', rd_statusCode := num 400\<rparr>"
proof -
  have "trim (J ''not '') = J ''not''" "trim [] = []" by (simp_all add: trim_def is_ws_def)
  moreover have "status_or_400 (Fin 4) = num 400" using rnd_of_int [of 100] by (simp add: status_or_400_def)
  moreover have "error_draft_ok demo_error" "\<not> rd_simpleMode demo_error" by (simp_all add: demo_error_def error_draft_ok_def)
  ultimately show ?thesis
    using error_draft_round_trip [of demo_error] by (simp add: demo_error_def del: J_Cons)
qed

text \<open>A value in quotes that reads as a number is saved as a string, is opened without the quotes, and is a
  number when it is saved again.\<close>

lemma quoted_number_changes:
  assumes "is_num (Fin x)"
  shows "parseLooseValue (json_quote (to_str (Fin x))) = JStr (to_str (Fin x)) \<and>
    parseLooseValue (saved_text (json_quote (to_str (Fin x)))) = JNum (Fin x)"
proof -
  have u: "utf16 (to_str (Fin x))" using plain_utf16 [OF plain_to_str [OF assms]] .
  have q: "json_parse (json_quote (to_str (Fin x))) = Inr (JStr (to_str (Fin x)))" using json_parse_quote [OF u] .
  have "trim (json_quote (to_str (Fin x))) = json_quote (to_str (Fin x))" "json_quote (to_str (Fin x)) \<noteq> []"
    using text_trim [of "JStr (to_str (Fin x))"] u by (simp_all add: json_quote_shape del: to_str.simps)
  with q have l: "parseLooseValue (json_quote (to_str (Fin x))) = JStr (to_str (Fin x))"
    by (simp add: parseLooseValue_def del: to_str.simps)
  have w: "writable (JNum (Fin x))" using assms by simp
  have t: "json_text (JNum (Fin x)) = to_str (Fin x)" by simp
  have "parseLooseValue (to_str (Fin x)) = JNum (Fin x)"
    using text_trim [OF writable_proper [OF w]] text_not_Nil [OF w] json_text_reads [OF w] unfolding t
    by (simp add: parseLooseValue_def del: to_str.simps)
  with l show ?thesis by (simp add: saved_text_def toValueText_def del: to_str.simps)
qed

end
