(* ===== verification/OverrideView.thy ===== *)
theory OverrideView
  imports OverrideProperties
begin

text \<open>
  The editor of parameter overrides: what the dialog derives from its state for display, the search, the
  counts of modes, the labels of the fields, and the facts that hold of the templates and of the ends of
  \<open>sync_fields\<close>.
\<close>

section \<open>Labels\<close>

definition MODE_DESCRIPTIONS :: "(jsstr \<times> jsstr) list" where
  "MODE_DESCRIPTIONS =
     [(J ''set'', J ''Write value to the target field''), (J ''delete'', J ''Remove the target field''),
      (J ''append'', J ''Append value to array / string / object end''),
      (J ''prepend'', J ''Prepend value to array / string / object start''),
      (J ''copy'', J ''Copy source field to target field''), (J ''move'', J ''Move source field to target field''),
      (J ''replace'', J ''Do string replacement in the target field''),
      (J ''regex_replace'', J ''Do regex replacement in the target field''),
      (J ''trim_prefix'', J ''Remove string prefix''), (J ''trim_suffix'', J ''Remove string suffix''),
      (J ''ensure_prefix'', J ''Ensure the string has a specified prefix''),
      (J ''ensure_suffix'', J ''Ensure the string has a specified suffix''),
      (J ''trim_space'', J ''Trim leading/trailing whitespace''), (J ''to_lower'', J ''Convert string to lowercase''),
      (J ''to_upper'', J ''Convert string to uppercase''), (J ''return_error'', J ''Return a custom error immediately''),
      (J ''prune_objects'', J ''Prune object items by conditions''),
      (J ''pass_headers'', J ''Pass specified request headers to upstream''),
      (J ''sync_fields'', J ''Auto-fill when one field exists and another is missing''),
      (J ''set_header'', J ''Set runtime request header: override entire value, or manipulate comma-separated tokens''),
      (J ''delete_header'', J ''Delete a runtime request header''), (J ''copy_header'', J ''Copy a request header''),
      (J ''move_header'', J ''Move a request header'')]"

definition getModePathLabel :: "jsstr \<Rightarrow> jsstr" where
  "getModePathLabel mode =
     (if mode = J ''set_header'' \<or> mode = J ''delete_header'' then J ''Header Name''
      else if mode = J ''prune_objects'' then J ''Target Path (optional)'' else J ''Target Field Path'')"

definition getModePathPlaceholder :: "jsstr \<Rightarrow> jsstr" where
  "getModePathPlaceholder mode =
     (if mode = J ''set_header'' then J ''Authorization'' else if mode = J ''delete_header'' then J ''X-Debug-Mode''
      else if mode = J ''prune_objects'' then J ''messages'' else J ''temperature'')"

definition is_header_copy :: "jsstr \<Rightarrow> bool" where
  "is_header_copy mode \<longleftrightarrow> mode = J ''copy_header'' \<or> mode = J ''move_header''"

definition getModeFromLabel :: "jsstr \<Rightarrow> jsstr" where
  "getModeFromLabel mode =
     (if mode = J ''replace'' then J ''Match Text'' else if mode = J ''regex_replace'' then J ''Regex Pattern''
      else if is_header_copy mode then J ''Source Header'' else J ''Source Field'')"

definition getModeFromPlaceholder :: "jsstr \<Rightarrow> jsstr" where
  "getModeFromPlaceholder mode =
     (if mode = J ''replace'' then J ''openai/'' else if mode = J ''regex_replace'' then J ''^gpt-''
      else if is_header_copy mode then J ''Authorization'' else J ''model'')"

definition getModeToLabel :: "jsstr \<Rightarrow> jsstr" where
  "getModeToLabel mode =
     (if mode = J ''replace'' \<or> mode = J ''regex_replace'' then J ''Replace With''
      else if is_header_copy mode then J ''Target Header'' else J ''Target Field'')"

definition getModeToPlaceholder :: "jsstr \<Rightarrow> jsstr" where
  "getModeToPlaceholder mode =
     (if mode = J ''replace'' then J ''(leave empty to delete)'' else if mode = J ''regex_replace'' then J ''openai/gpt-''
      else if is_header_copy mode then J ''X-Upstream-Auth'' else J ''original_model'')"

definition is_affix_mode :: "jsstr \<Rightarrow> bool" where
  "is_affix_mode mode \<longleftrightarrow> mode \<in> set [J ''trim_prefix'', J ''trim_suffix'', J ''ensure_prefix'', J ''ensure_suffix'']"

definition getModeValueLabel :: "jsstr \<Rightarrow> jsstr" where
  "getModeValueLabel mode =
     (if mode = J ''set_header'' then J ''Header Value (supports string or JSON mapping)''
      else if mode = J ''pass_headers'' then J ''Pass-through Headers (comma-separated or JSON array)''
      else if is_affix_mode mode then J ''Prefix/Suffix Text''
      else if mode = J ''prune_objects'' then J ''Prune Rule (string or JSON object)''
      else J ''Value (supports JSON or plain text)'')"

definition getModeValuePlaceholder :: "jsstr \<Rightarrow> jsstr" where
  "getModeValuePlaceholder mode =
     (if mode = J ''set_header'' then J ''Bearer sk-xxx''
      else if mode = J ''pass_headers'' then J ''Authorization, X-Request-Id''
      else if is_affix_mode mode then J ''openai/''
      else if mode = J ''prune_objects'' then J ''{\"type\":\"redacted_thinking\"}'' else J ''0.7'')"

datatype tag_color = Cyan | Violet | Blue | Red | Green | Muted

definition getModeTagTailwind :: "jsstr \<Rightarrow> tag_color" where
  "getModeTagTailwind mode =
     (if js_includes mode (J ''header'') then Cyan
      else if js_includes mode (J ''replace'') \<or> js_includes mode (J ''trim'') then Violet
      else if js_includes mode (J ''copy'') \<or> js_includes mode (J ''move'') then Blue
      else if js_includes mode (J ''error'') \<or> js_includes mode (J ''prune'') then Red
      else if js_includes mode (J ''sync'') then Green else Muted)"

section \<open>The list of rules\<close>

definition operationCount :: "editor \<Rightarrow> nat" where
  "operationCount s = length (filter (\<lambda>op. \<not> isOperationBlank op) (es_operations s))"

definition searchable_text :: "(jsstr \<Rightarrow> jsstr) \<Rightarrow> override_operation \<Rightarrow> jsstr" where
  "searchable_text lower op =
     lower (join [32] (nonempty [po_description op, po_mode op, po_path op, po_from op, po_to op, po_value_text op]))"

definition filteredOperations :: "(jsstr \<Rightarrow> jsstr) \<Rightarrow> jsstr \<Rightarrow> override_operation list \<Rightarrow> override_operation list" where
  "filteredOperations lower search ops =
     (let keyword = lower (trim search) in
      if keyword = [] then ops else filter (\<lambda>op. js_includes (searchable_text lower op) keyword) ops)"

definition count_mode :: "override_operation \<Rightarrow> (jsstr \<times> nat) list \<Rightarrow> (jsstr \<times> nat) list" where
  "count_mode op counts =
     (let mode = mode_of op; c = (case map_of counts mode of None \<Rightarrow> 0 | Some n \<Rightarrow> n) in obj_put mode (c + 1) counts)"

definition mode_counts :: "override_operation list \<Rightarrow> (jsstr \<times> nat) list" where
  "mode_counts ops = fold count_mode ops []"

definition topOperationModes :: "override_operation list \<Rightarrow> (jsstr \<times> nat) list" where
  "topOperationModes ops = take 4 (sort_key (\<lambda>e. - int (snd e)) (own_entries (mode_counts ops)))"

definition visualValidationError :: "override_env \<Rightarrow> editor \<Rightarrow> jsstr" where
  "visualValidationError env s =
     (if es_editMode s \<noteq> VisualEditing then []
      else case buildVisualJson env s of
          Inr x \<Rightarrow> []
        | Inl e \<Rightarrow> (if message_of env e = [] then en_t env (J ''Parameter configuration error'') None else message_of env e))"

lemma search_empty: "lower [] = [] \<Longrightarrow> trim search = [] \<Longrightarrow> filteredOperations lower search ops = ops"
  by (simp add: filteredOperations_def)

lemma count_mode_value:
  "map_of (count_mode op counts) m = (if m = mode_of op
     then Some (1 + (case map_of counts m of None \<Rightarrow> 0 | Some n \<Rightarrow> n)) else map_of counts m)"
  by (simp add: count_mode_def map_of_obj_put Let_def split: option.split)

lemma mode_counts_value:
  "(case map_of (mode_counts ops) m of None \<Rightarrow> 0 | Some n \<Rightarrow> n) = length (filter (\<lambda>op. mode_of op = m) ops)"
proof -
  have "(case map_of (fold count_mode ops cs) m of None \<Rightarrow> 0 | Some n \<Rightarrow> n) =
      (case map_of cs m of None \<Rightarrow> 0 | Some n \<Rightarrow> n) + length (filter (\<lambda>op. mode_of op = m) ops)" for cs
    by (induction ops arbitrary: cs) (simp_all add: count_mode_value split: option.split)
  from this [of "[]"] show ?thesis by (simp add: mode_counts_def)
qed

lemma distinct_mode_counts: "distinct (map fst (mode_counts ops))"
proof -
  have "distinct (map fst cs) \<Longrightarrow> distinct (map fst (fold count_mode ops cs))" for cs
    by (induction ops arbitrary: cs) (simp_all add: count_mode_def Let_def distinct_obj_put)
  then show ?thesis by (simp add: mode_counts_def)
qed

text \<open>The tags over the list: at most four modes, the most frequent first, each with the number of its rules.\<close>

lemma top_modes:
  "length (topOperationModes ops) \<le> 4"
  "(m, n) \<in> set (topOperationModes ops) \<Longrightarrow> n = length (filter (\<lambda>op. mode_of op = m) ops)"
  "sorted (map (\<lambda>e. - int (snd e)) (topOperationModes ops))"
proof -
  show "length (topOperationModes ops) \<le> 4" by (simp add: topOperationModes_def)
  show "sorted (map (\<lambda>e. - int (snd e)) (topOperationModes ops))"
    unfolding topOperationModes_def take_map [symmetric] by (intro sorted_wrt_take) simp
  assume "(m, n) \<in> set (topOperationModes ops)"
  then have "(m, n) \<in> set (mode_counts ops)" unfolding topOperationModes_def by (auto dest: in_set_takeD)
  then have "map_of (mode_counts ops) m = Some n" using distinct_mode_counts by simp
  with mode_counts_value [of ops m] show "n = length (filter (\<lambda>op. mode_of op = m) ops)" by simp
qed

section \<open>Ends of sync_fields\<close>

text \<open>The end that was chosen reads back, but without a key its type is lost.\<close>

lemma sync_target_reads:
  assumes "lower (J ''header'') = J ''header''" "lower (J ''json'') \<noteq> J ''header''"
  shows "parseSyncTargetSpec lower (buildSyncTargetSpec type key) =
    (if trim key = [] then \<lparr>st_type = J ''json'', st_key = []\<rparr>
     else \<lparr>st_type = (if type = J ''header'' then J ''header'' else J ''json''), st_key = trim key\<rparr>)"
proof (cases "trim key = []")
  case True
  then show ?thesis by (simp add: buildSyncTargetSpec_def parseSyncTargetSpec_def)
next
  case False
  have l: "\<not> is_ws (last (trim key))" using trimmed_trim [of key] False by (auto simp: trimmed_def)
  have t: "trim (104 # s @ 58 # trim key) = 104 # s @ 58 # trim key" "trim (106 # s @ 58 # trim key) = 106 # s @ 58 # trim key" for s
    using l False by (intro trim_trimmed trimmedI; simp add: is_ws_def)+
  have w: "trim (J ''header'') = J ''header''" "trim (J ''json'') = J ''json''" by (simp_all add: trim_def is_ws_def)
  have i: "index_of (J ''header'' @ 58 # trim key) [58] 0 = Some 6" "index_of (J ''json'' @ 58 # trim key) [58] 0 = Some 4"
    by (simp_all add: index_of_def starts_with_def)
  show ?thesis
    using False t(1) [of "[101, 97, 100, 101, 114]"] t(2) [of "[115, 111, 110]"] w i assms
    by (simp add: buildSyncTargetSpec_def parseSyncTargetSpec_def Let_def)
qed

end
