(* ===== verification/Spec2Isabelle.thy ===== *)
theory Spec2Isabelle
  imports ExpressionEditor StatusCodes StatusRisk ChannelModels PlaygroundChat SidebarPages KeyGroups
    FlowLimits OverrideView
begin

text \<open>
  A verification of the logic of the web client of apimeter, a gateway to language models. The
  gateway itself is written in Go; the client under \<open>web/default/src\<close> is TypeScript with React. Its
  pages rest on libraries without a user interface: parsers and printers of the texts an
  administrator edits, the state of a conversation, configuration records, lists and their
  filters. Those libraries are the subject of this development. All paths below are relative to
  \<open>web/default/src\<close>.

  \<^bold>\<open>JavaScript.\<close> The lower theories model what the program uses of the language.
  \<^item> \<open>JsBase\<close>: a string is a list of UTF-16 code units (\<open>J ''abc''\<close> for a literal), a thrown error is
    the left side of a sum, \<open>js_bind\<close> sequences computations that may throw; \<open>uniq\<close> is
    \<open>Array.from(new Set(xs))\<close>.
  \<^item> \<open>JsString\<close>: \<open>trim\<close>, \<open>slice\<close>, \<open>includes\<close>, \<open>indexOf\<close>, \<open>startsWith\<close>, \<open>split\<close>, \<open>join\<close>.
  \<^item> \<open>JsRegex\<close>: regular expressions as data with a backtracking matcher; \<open>mt\<close> gives all matches in the
    order of ECMAScript, the first is the match.
  \<^item> \<open>Binary64\<close>, \<open>JsNum\<close>, \<open>JsNumStr\<close>, \<open>JsFixed\<close>: binary64 numbers over exact rationals with rounding to
    nearest even, overflow, gradual underflow, signed zero and \<open>NaN\<close>; \<open>Number(s)\<close>, \<open>parseFloat\<close>,
    \<open>String(x)\<close> (the shortest digits that read back) and \<open>toFixed\<close>.
  \<^item> \<open>JsJson\<close>, \<open>JsObject\<close>, \<open>JsonText\<close>: JSON values, \<open>JSON.parse\<close> with its \<open>SyntaxError\<close>,
    \<open>JSON.stringify\<close>, and objects as association lists with the key order of JavaScript.
  \<^item> \<open>JsonPrint\<close>, \<open>JsonCanon\<close>: the text of any value and its round trip. \<open>JSON.parse\<close> builds only
    \<open>proper\<close> values, and writing one and reading it back gives its canonical form.
  \<^item> \<open>JsSort\<close>: \<open>Array.prototype.sort\<close> with a comparison function, the locale \<open>comparison\<close> of the
    consistent ones, and the sign of a difference of doubles. \<open>JsMap\<close>: a \<open>Map\<close> in the order of
    insertion, and the locale \<open>tally\<close> of maps that sum up amounts, exact below $2^{53}$.
  \<^item> \<open>Splitter\<close>: the locale of functions that split a text at a separator, interpreted on the
    comma lists and on the splitters of both expression parsers.

  \<^bold>\<open>Billing expressions\<close> (\<open>features/pricing/lib/billing-expr.ts\<close>, \<open>tier-expr.ts\<close>). The price of a
  model is an expression such as \<open>tier("base", p * 2 + c * 8)\<close>, possibly a ladder of ternaries, times
  rules on the request such as \<open>(hour("UTC") >= 21 ? 0.5 : 1)\<close>. Two editors print such texts and read
  them back.
  \<^item> \<open>ExprScan\<close>, \<open>RequestRules\<close>: the scanners that count parentheses and the rule half of
    \<open>billing-expr.ts\<close>: conditions on headers, parameters and time, \<open>buildRequestConditionExpr\<close>,
    \<open>tryParseRequestCondition\<close>, rule groups, and the combination with a price expression.
  \<^item> \<open>RulePatterns\<close>, \<open>RuleConditions\<close>, \<open>RuleGroups\<close>, \<open>RuleProperties\<close>: what the patterns match, and
    the round trips of a condition, of a list of groups and of the combined expression.
    \<open>canonical\<close> is what the normal form of the condition editor produces; \<open>separable\<close> excludes the
    strings that contain an operator the splitters look for.
  \<^item> \<open>TierParser\<close>: the tiers as the price table reads them. \<open>TierExpr\<close>: the visual editor,
    \<open>generateExprFromVisualConfig\<close> and \<open>tryParseVisualConfig\<close>, whose scanners know string literals.
  \<^item> \<open>RegexFirst\<close>, \<open>TierScan\<close>, \<open>TierBodies\<close>, \<open>TierConditions\<close>, \<open>TierRoundTrip\<close>, \<open>TierProperties\<close>:
    printed numbers under the number pattern, the scanners on pieces of text, bodies, conditions,
    the ladder, and the round trip \<open>tier_config_round_trip\<close> with the configurations that are lost.
  \<^item> \<open>ExpressionEditor\<close>: both editors together, \<open>editor_round_trip\<close>.

  \<^bold>\<open>Channels\<close> (\<open>features/channels/lib\<close>, \<open>lib/http-status-code-rules.ts\<close>).
  \<^item> \<open>StatusCodes\<close>: lists of status codes and ranges; the accepted ones have a unique normal form that
    covers the codes named. \<open>StatusRisk\<close>: the guard against redirects of the codes 504 and 524, exactly the
    entries of the mapping that the texts name.
  \<^item> \<open>ChannelModels\<close>: model lists, the model mapping and its checks
    (\<open>model-mapping-validation.ts\<close>), detected updates (\<open>upstream-update-utils.ts\<close>) and the actions on
    several keys (\<open>multi-key-utils.ts\<close>).

  \<^bold>\<open>Parameter overrides\<close> (\<open>features/channels/components/dialogs/param-override-editor-dialog.tsx\<close>). A
  dialog edits the rules by which a channel changes the requests that pass through it, as fields or as
  JSON.
  \<^item> \<open>OverrideData\<close>: rules and conditions (\<open>override_operation\<close>, \<open>override_condition\<close>), the tables of
    modes, \<open>normalizeOperation\<close>, \<open>reorderOperations\<close>, summaries. Local ids are made by a counter that
    is passed along, in the type \<open>ids\<close>.
  \<^item> \<open>OverrideDrafts\<close>: the texts that single modes keep in the value of a rule, each read and written.
    \<open>OverrideSave\<close>: \<open>validateOperations\<close>, \<open>buildOperationsJson\<close> and \<open>parseInitialState\<close>.
    \<open>OverrideTemplates\<close>: the templates, each built and opened.
  \<^item> \<open>OverrideRoundTrip\<close>: a rule written and read again is its \<open>saved_operation\<close>. \<open>OverrideStable\<close>:
    \<open>rule_complete\<close>, the specification of the checks, and when saving again changes nothing.
  \<^item> \<open>OverrideEditor\<close>: the dialog as a state machine. The record \<open>editor\<close> holds its hooks, each callback
    is a function on it, \<open>override_event\<close> lists what a user can do, and \<open>override_step\<close> is a callback
    followed by the effect that keeps the selection valid.
  \<^item> \<open>OverrideInvariant\<close>, \<open>OverrideReach\<close>: the invariant and that every callback keeps it.
    The counter of ids is a double, so two ids can be equal after $2^{53}$; the theorems assume that
    fewer were made. \<open>OverrideProperties\<close>: the theorems on reachable states. \<open>OverrideView\<close>: labels,
    the search, the counts of modes.

  \<^bold>\<open>Playground\<close> (\<open>features/playground\<close>).
  \<^item> \<open>Playground\<close>: messages and their versions, think sections, loading and sanitising, the request
    payload and the parameter controls (\<open>lib/message-utils.ts\<close>, \<open>payload-builder.ts\<close>,
    \<open>playground-parameters.ts\<close>, \<open>model-options.ts\<close>).
  \<^item> \<open>PlaygroundChat\<close>: the conversation as a state machine over the events of the stream and the
    actions of the user (\<open>hooks/use-chat-handler.ts\<close>, \<open>use-stream-request.ts\<close>,
    \<open>use-message-action-guard.ts\<close>, \<open>index.tsx\<close>). \<open>chat_run\<close> is the step relation, \<open>reachable\<close> its
    states under the discipline of the guards. The life of an answer, \<open>phase_step\<close>, is the abstract
    specification the machine refines; \<open>request_messages\<close> says what each request asks. Message keys and the events of the stream are arguments.

  \<^bold>\<open>Navigation\<close> (\<open>lib/nav-modules.ts\<close>, \<open>lib/status-cache.ts\<close>): \<open>NavModules\<close>, the configuration of the
  header, its order, the links shown, and its round trip through JSON. \<open>Sidebar\<close>
  (\<open>hooks/use-sidebar-data.ts\<close>, \<open>use-sidebar-config.ts\<close>): the links of the side bar and their filter by
  the administrator's configuration, the user's, and the role. \<open>SidebarPages\<close> states what is shown as a
  table of the pages with their switches, read from the stored texts alone; \<open>sidebar_visibility\<close> shows
  that the side bar agrees with it.

  \<^bold>\<open>API keys\<close> (\<open>features/keys/lib/api-key-groups.ts\<close>, \<open>api-key-group-filters.ts\<close>): \<open>KeyGroups\<close>, the
  groups a key can use, category and vendor chips with their counts, filter and sort orders.

  \<^bold>\<open>Dashboard\<close> (\<open>features/dashboard/lib/flow.ts\<close>, \<open>flow-selection.ts\<close>). The flow chart draws the usage as
  paths from user or token to model or channel.
  \<^item> \<open>Flow\<close>: rows, metrics, the node of each stage, filters and the limit on the nodes of a stage.
    \<open>FlowGraph\<close>: the graph, colours, masking, highlighting, the options of the filters.
  \<^item> \<open>FlowPaths\<close>: the graph as two instances of \<open>tally\<close>. \<open>FlowProperties\<close>: usage is conserved at every
    node and every column adds up to the summary. \<open>FlowLimits\<close>: the filters against their
    specification, no option is a dead end, the bound on a column, and the masked chart
    compared with the chart without the mask.

  \<^bold>\<open>Interaction.\<close> The tier editor reuses the conditions of the request rules: \<open>TierExpr\<close> imports
  \<open>RequestRules\<close>, and the condition round trip is used inside the tier round trip. The
  navigation and status-code options are strings in a record of server options, which the
  settings pages read and write with the parsers modelled here.

  \<^bold>\<open>Recursion and fuel.\<close> Loops over strings and lists are structural. The JSON parser takes fuel, and
  \<open>json_fuel_enough\<close> shows that twice the length plus two always suffices, so that running out is
  never an outcome. The search for the shortest digits of a number takes fuel 1500 and the scaling
  to an integer 500; the least double is \<open>2\<close> to the power \<open>-1074\<close>, whose digits end before that,
  and the lemmas on \<open>to_str\<close> prove that the result reads back. \<open>unwrapOuterParens\<close> and the parser of
  the ladder recurse on shorter strings, by termination proofs.

  \<^bold>\<open>Parameters.\<close> The constructor \<open>URL\<close>, \<open>toLowerCase\<close>, \<open>toUpperCase\<close>, \<open>Date.now\<close>, the messages of errors
  thrown by the language, \<open>localeCompare\<close>, \<open>Intl.NumberFormat\<close>, the colour
  schemes of the chart library, translated labels and the generator of message keys are arguments of the definitions that use them. \<open>localeCompare\<close> has the hypothesis that it is a
  consistent collation, as its standard asks; where the theorems on overrides need it, \<open>toUpperCase\<close>
  keeps \<open>AND\<close> apart from \<open>OR\<close> and no translation is empty.

  \<^bold>\<open>Not modelled.\<close> The gateway in Go and the older client under \<open>web/classic\<close>; pages and components
  (except the dialog of the parameter overrides, of which only the markup is left out),
  styling, routing, translations and generated files, which hold no logic of their own beyond
  calls; requests to the server; formatting through \<open>Intl\<close>, whose locale data is not in the
  repository; \<open>evalExprLocally\<close>, which compiles its argument with the \<open>Function\<close> constructor and reads
  the clock; the other charts and what the chart library draws, usage logs, the wallet and the forms of the settings. Names on the prototype
  chain of an object are modelled where the code tests them with \<open>in\<close>, and elsewhere where a lookup
  could tell the difference.
\<close>

end
